(* ===== verification/Lsc_Prelude.thy ===== *)
theory Lsc_Prelude
  imports Main "HOL-Library.Word"
begin

unbundle bit_operations_syntax

text \<open>
  The vocabulary the component theories share: Python's \<open>bytes\<close> as lists of 8-bit words
  with the little-endian \<open>int.from_bytes\<close> and \<open>int.to_bytes\<close>, computations that may
  raise (a sum type, the exception on the left) with their sequencing, and computations that
  may raise and also mutate an object (the object survives the exception, as in Python).
\<close>

section \<open>Lemma collections\<close>

named_theorems wire_simps \<open>lengths and bounds of encoded values\<close>
named_theorems raise_simps \<open>inversion of computations that may raise\<close>

section \<open>Bytes\<close>

type_synonym byte = "8 word"
type_synonym bytes = "byte list"

text \<open>\<open>int.from_bytes(bs, "little")\<close>.\<close>

fun le_int :: "bytes \<Rightarrow> int" where
  "le_int [] = 0"
| "le_int (b # bs) = uint b + 256 * le_int bs"

text \<open>\<open>value.to_bytes(n, "little")\<close> for a value that fits (the callers check the range).\<close>

fun to_le :: "nat \<Rightarrow> int \<Rightarrow> bytes" where
  "to_le 0 v = []"
| "to_le (Suc n) v = word_of_int v # to_le n (v div 256)"

lemma uint_byte_bounds [simp]: "0 \<le> uint (b :: byte)" "uint (b :: byte) < 256" "uint (b :: byte) \<le> 255"
proof -
  show *: "0 \<le> uint b" by simp
  show "uint b < 256" using uint_lt2p [of b] by simp
  then show "uint b \<le> 255" by simp
qed

lemma uint_word_of_int_byte [simp]: "uint (word_of_int v :: byte) = v mod 256"
  by (simp add: uint_word_of_int)

lemma length_to_le [simp, wire_simps]: "length (to_le n v) = n"
  by (induction n arbitrary: v) simp_all

lemma to_le_eq_Nil [simp]: "to_le n v = [] \<longleftrightarrow> n = 0"
  using length_to_le [of n v] by (cases n) auto

lemma le_int_nonneg [simp, wire_simps]: "0 \<le> le_int bs"
  by (induction bs) simp_all

lemma le_int_less [wire_simps]: "le_int bs < 256 ^ length bs"
proof (induction bs)
  case Nil
  then show ?case by simp
next
  case (Cons b bs)
  define p :: int where "p = 256 ^ length bs"
  have "uint b < 256" by simp
  moreover have "le_int bs < p" using Cons by (simp add: p_def)
  ultimately have "uint b + 256 * le_int bs < 256 * p" by linarith
  then show ?case by (simp add: p_def)
qed

lemma le_int_less_le: "length bs = n \<Longrightarrow> le_int bs < 256 ^ n"
  using le_int_less [of bs] by simp

lemma le_int_append: "le_int (xs @ ys) = le_int xs + 256 ^ length xs * le_int ys"
  by (induction xs) (simp_all add: algebra_simps)

lemma le_int_to_le: "le_int (to_le n v) = v mod 256 ^ n"
proof (induction n arbitrary: v)
  case 0
  then show ?case by simp
next
  case (Suc n)
  have "v mod (256 * 256 ^ n) = v mod 256 + 256 * (v div 256 mod 256 ^ n)"
    by (simp add: zmod_zmult2_eq)
  with Suc show ?case by simp
qed

lemma le_int_to_le_id [simp]: "0 \<le> v \<Longrightarrow> v < 256 ^ n \<Longrightarrow> le_int (to_le n v) = v"
  by (simp add: le_int_to_le)

lemma to_le_le_int [simp]: "to_le (length bs) (le_int bs) = bs"
proof (induction bs)
  case Nil
  then show ?case by simp
next
  case (Cons b bs)
  have m: "(uint b + 256 * le_int bs) mod 256 = uint b" by simp
  have d: "(uint b + 256 * le_int bs) div 256 = le_int bs" by simp
  have "(word_of_int (uint b + 256 * le_int bs) :: byte) = b"
    by (rule word_uint_eqI) (simp only: uint_word_of_int_byte m)
  then show ?case using Cons.IH by (simp add: d)
qed

lemma to_le_le_int_len: "length bs = n \<Longrightarrow> to_le n (le_int bs) = bs"
  using to_le_le_int [of bs] by simp

lemma le_int_inject: "length xs = length ys \<Longrightarrow> le_int xs = le_int ys \<longleftrightarrow> xs = ys"
  by (metis to_le_le_int)

lemma to_le_inject:
  "0 \<le> v \<Longrightarrow> v < 256 ^ n \<Longrightarrow> 0 \<le> w \<Longrightarrow> w < 256 ^ n \<Longrightarrow> to_le n v = to_le n w \<longleftrightarrow> v = w"
  by (metis le_int_to_le_id)

lemma le_int_replicate_0 [simp]: "le_int (replicate n 0) = 0"
  by (induction n) simp_all

section \<open>Integers of a given width\<close>

text \<open>\<open>fits n v\<close>: Python's range check \<open>0 <= v < 2**n\<close>.\<close>

definition fits :: "nat \<Rightarrow> int \<Rightarrow> bool" where
  "fits n v \<longleftrightarrow> 0 \<le> v \<and> v < 2 ^ n"

lemma fits_0 [simp]: "fits n 0"
  by (simp add: fits_def)

lemma fits_nonneg: "fits n v \<Longrightarrow> 0 \<le> v"
  by (simp add: fits_def)

lemma fits_mono: "fits m v \<Longrightarrow> m \<le> n \<Longrightarrow> fits n v"
  unfolding fits_def by (elim conjE, intro conjI, assumption, erule order_less_le_trans) simp

lemma fits_xor [simp]: "fits n v \<Longrightarrow> fits n w \<Longrightarrow> fits n (v XOR w)"
  by (auto simp: fits_def intro: XOR_upper)

lemma fits_byte [simp]: "fits 8 (uint (b :: byte))"
  using uint_lt2p [of b] by (simp add: fits_def)

lemma fits_le_int: "length bs * 8 \<le> n \<Longrightarrow> fits n (le_int bs)"
proof -
  assume "length bs * 8 \<le> n"
  then have "(2::int) ^ (8 * length bs) \<le> 2 ^ n" by (intro power_increasing) simp_all
  moreover have "(256::int) ^ length bs = 2 ^ (8 * length bs)" by (simp add: power_mult)
  ultimately have "le_int bs < 2 ^ n" using le_int_less [of bs] by (simp only:)
  then show ?thesis by (simp add: fits_def)
qed

lemma fits_take_bit_iff: "fits n v \<longleftrightarrow> take_bit n v = v"
  by (auto simp: fits_def take_bit_int_eq_self_iff)

lemma fits_take_bit [simp]: "fits n (take_bit n v)"
  by (simp add: fits_take_bit_iff)

lemma fits_bit: "fits n v \<Longrightarrow> bit v k \<Longrightarrow> k < n"
  by (metis bit_take_bit_iff fits_take_bit_iff)

lemma fitsI_bit: "0 \<le> v \<Longrightarrow> (\<And>k. bit v k \<Longrightarrow> k < n) \<Longrightarrow> fits n v"
  unfolding fits_take_bit_iff by (rule bit_eqI) (auto simp: bit_take_bit_iff)

lemma fits_mod_256 [simp]: "fits 8 v \<Longrightarrow> v mod 256 = v"
  by (simp add: fits_def)

section \<open>Computations that may raise\<close>

text \<open>\<open>bindE m f\<close>: run \<open>m\<close>; its exception ends the computation, its value goes to \<open>f\<close>.\<close>

definition bindE :: "'e + 'a \<Rightarrow> ('a \<Rightarrow> 'e + 'b) \<Rightarrow> 'e + 'b" where
  "bindE m f = (case m of Inl e \<Rightarrow> Inl e | Inr x \<Rightarrow> f x)"

lemma bindE_simps [simp]:
  "bindE (Inl e) f = Inl e"
  "bindE (Inr x) f = f x"
  by (simp_all add: bindE_def)

lemma bindE_code [code]: "bindE m f = (case m of Inl e \<Rightarrow> Inl e | Inr x \<Rightarrow> f x)"
  by (simp add: bindE_def)

lemma bindE_eq_Inr [raise_simps]: "bindE m f = Inr y \<longleftrightarrow> (\<exists>x. m = Inr x \<and> f x = Inr y)"
  by (cases m) simp_all

lemma bindE_eq_Inl [raise_simps]:
  "bindE m f = Inl e \<longleftrightarrow> m = Inl e \<or> (\<exists>x. m = Inr x \<and> f x = Inl e)"
  by (cases m) simp_all

lemma bindE_assoc: "bindE (bindE m f) g = bindE m (\<lambda>x. bindE (f x) g)"
  by (cases m) simp_all

lemma bindE_cong [fundef_cong]:
  "m = m' \<Longrightarrow> (\<And>x. m' = Inr x \<Longrightarrow> f x = f' x) \<Longrightarrow> bindE m f = bindE m' f'"
  by (cases m') simp_all

lemma bindE_if [simp]:
  "bindE (if b then Inl e else Inr x) f = (if b then Inl e else f x)"
  "bindE (if b then Inr x else Inl e) f = (if b then f x else Inl e)"
  by simp_all

text \<open>A guard: \<open>if b: raise e\<close>.\<close>

definition raise_if :: "bool \<Rightarrow> 'e \<Rightarrow> 'e + unit" where
  "raise_if b e = (if b then Inl e else Inr ())"

lemma raise_if_eq [raise_simps]:
  "raise_if b e = Inr u \<longleftrightarrow> \<not> b"
  "raise_if b e = Inl e' \<longleftrightarrow> b \<and> e = e'"
  by (auto simp: raise_if_def)

lemma raise_if_simps [simp]: "raise_if True e = Inl e" "raise_if False e = Inr ()"
  by (simp_all add: raise_if_def)

lemma raise_case_iff [raise_simps]:
  "bindE (case m of None \<Rightarrow> Inl e | Some x \<Rightarrow> F x) f = Inr y \<longleftrightarrow> (\<exists>x. m = Some x \<and> bindE (F x) f = Inr y)"
  "(case m of None \<Rightarrow> Inl e | Some x \<Rightarrow> G x) = Inr y \<longleftrightarrow> (\<exists>x. m = Some x \<and> G x = Inr y)"
  "bindE (if b then Inl e else r) f = Inr y \<longleftrightarrow> \<not> b \<and> bindE r f = Inr y"
  "(if b then Inl e else s) = Inr y \<longleftrightarrow> \<not> b \<and> s = Inr y"
  by (auto split: option.splits)

text \<open>A comprehension \<open>[f(x) for x in xs]\<close> whose calls may raise, left to right.\<close>

fun mapE :: "('a \<Rightarrow> 'e + 'b) \<Rightarrow> 'a list \<Rightarrow> 'e + 'b list" where
  "mapE f [] = Inr []"
| "mapE f (x # xs) = bindE (f x) (\<lambda>y. bindE (mapE f xs) (\<lambda>ys. Inr (y # ys)))"

lemma mapE_eq_Inr:
  "mapE f xs = Inr ys \<longleftrightarrow> length ys = length xs \<and> (\<forall>i < length xs. f (xs ! i) = Inr (ys ! i))"
proof (induction xs arbitrary: ys)
  case Nil
  then show ?case by auto
next
  case (Cons x xs)
  show ?case
  proof (cases ys)
    case Nil
    then show ?thesis by (auto simp: bindE_eq_Inr)
  next
    case (Cons z zs)
    then show ?thesis
      using Cons.IH by (auto simp: bindE_eq_Inr nth_Cons' less_Suc_eq_0_disj)
  qed
qed

lemma mapE_list_all2: "mapE f xs = Inr ys \<Longrightarrow> list_all2 (\<lambda>x y. f x = Inr y) xs ys"
  by (simp add: mapE_eq_Inr list_all2_conv_all_nth)

lemma mapE_length [dest]: "mapE f xs = Inr ys \<Longrightarrow> length ys = length xs"
  by (simp add: mapE_eq_Inr)

text \<open>The concatenation \<open>p1 + p2 + \<dots>\<close> of payload pieces, each of which may raise.\<close>

fun catE :: "('e + 'a list) list \<Rightarrow> 'e + 'a list" where
  "catE [] = Inr []"
| "catE (m # ms) = bindE m (\<lambda>xs. bindE (catE ms) (\<lambda>ys. Inr (xs @ ys)))"

lemma catE_append: "catE (ms @ ns) = bindE (catE ms) (\<lambda>xs. bindE (catE ns) (\<lambda>ys. Inr (xs @ ys)))"
  by (induction ms) (simp_all add: bindE_def split: sum.splits)

lemma catE_map_Inr: "catE (map (\<lambda>x. Inr (f x)) xs) = Inr (concat (map f xs))"
  by (induction xs) simp_all

section \<open>Computations that may raise and mutate an object\<close>

text \<open>
  A method is a function from the object to an outcome and the object it leaves behind. An
  exception does not roll the object back.
\<close>

type_synonym ('s, 'e, 'a) routine = "'s \<Rightarrow> ('e + 'a) \<times> 's"

definition thenM :: "('e + 'a) \<times> 's \<Rightarrow> ('a \<Rightarrow> 's \<Rightarrow> ('e + 'b) \<times> 's) \<Rightarrow> ('e + 'b) \<times> 's" where
  "thenM r f = (case fst r of Inl e \<Rightarrow> (Inl e, snd r) | Inr x \<Rightarrow> f x (snd r))"

lemma thenM_simps [simp]:
  "thenM (Inl e, s) f = (Inl e, s)"
  "thenM (Inr x, s) f = f x s"
  by (simp_all add: thenM_def)

lemma thenM_eq: "thenM r f = (case r of (Inl e, s) \<Rightarrow> (Inl e, s) | (Inr x, s) \<Rightarrow> f x s)"
  by (simp add: thenM_def split: prod.splits sum.splits)

lemma thenM_Inr_iff [raise_simps]:
  "thenM r f = (Inr y, t) \<longleftrightarrow> (\<exists>x s. r = (Inr x, s) \<and> f x s = (Inr y, t))"
  by (cases r; cases "fst r") auto

text \<open>\<open>try: r except E as e: h\<close>, where \<open>h\<close> returns \<open>None\<close> for exceptions it does not catch.\<close>

definition catchM ::
  "('e + 'a) \<times> 's \<Rightarrow> ('e \<Rightarrow> ('s \<Rightarrow> ('e + 'a) \<times> 's) option) \<Rightarrow> ('e + 'a) \<times> 's" where
  "catchM r h = (case fst r of
       Inr x \<Rightarrow> r
     | Inl e \<Rightarrow> (case h e of None \<Rightarrow> r | Some k \<Rightarrow> k (snd r)))"

lemma catchM_simps [simp]:
  "catchM (Inr x, s) h = (Inr x, s)"
  "catchM (Inl e, s) h = (case h e of None \<Rightarrow> (Inl e, s) | Some k \<Rightarrow> k s)"
  by (simp_all add: catchM_def cong: option.case_cong)

text \<open>Lift a computation that only raises.\<close>

definition liftM :: "'e + 'a \<Rightarrow> 's \<Rightarrow> ('e + 'a) \<times> 's" where
  "liftM m s = (m, s)"

lemma liftM_simps [simp]: "fst (liftM m s) = m" "snd (liftM m s) = s"
  by (simp_all add: liftM_def)

section \<open>Lists\<close>

text \<open>Python's \<open>xs[i:j]\<close> for \<open>0 \<le> i \<le> j\<close>.\<close>

definition pyslice :: "nat \<Rightarrow> nat \<Rightarrow> 'a list \<Rightarrow> 'a list" where
  "pyslice i j xs = take (j - i) (drop i xs)"

lemma length_pyslice [simp, wire_simps]: "j \<le> length xs \<Longrightarrow> i \<le> j \<Longrightarrow> length (pyslice i j xs) = j - i"
  by (simp add: pyslice_def)

lemma pyslice_append_exact: "length xs = i \<Longrightarrow> length ys = j - i \<Longrightarrow> pyslice i j (xs @ ys @ zs) = ys"
  by (simp add: pyslice_def)

lemma pyslice_full [simp]: "pyslice 0 (length xs) xs = xs"
  by (simp add: pyslice_def)

lemma length_ge_5_conv: "5 \<le> length xs \<longleftrightarrow> (\<exists>a b c d e ys. xs = a # b # c # d # e # ys)"
  by (auto simp: numeral_eq_Suc Suc_le_length_iff)

lemma split_header_5: "5 \<le> length xs \<Longrightarrow> xs = [xs ! 0, xs ! 1, xs ! 2] @ pyslice 3 5 xs @ drop 5 xs"
  by (auto simp: length_ge_5_conv pyslice_def)

lemma length_ge_6_conv: "6 \<le> length xs \<longleftrightarrow> (\<exists>a b c d e f ys. xs = a # b # c # d # e # f # ys)"
  by (auto simp: numeral_eq_Suc Suc_le_length_iff)

lemma split_header_6:
  "6 \<le> length xs \<Longrightarrow> xs = [xs ! 0, xs ! 1, xs ! 2, xs ! 3] @ pyslice 4 6 xs @ drop 6 xs"
  by (auto simp: length_ge_6_conv pyslice_def)

lemma list_1: "length xs = Suc 0 \<Longrightarrow> [xs ! 0] = xs" by (cases xs) auto
lemma list_3: "length xs = 3 \<Longrightarrow> [xs ! 0, xs ! Suc 0, xs ! 2] = xs"
  by (auto simp: numeral_eq_Suc length_Suc_conv)

text \<open>A function of the prefixes of a history that grows by one event.\<close>

lemma prefixes_snoc: "map (\<lambda>n. f (take (Suc n) (es @ [e]))) [0..<length es] = map (\<lambda>n. f (take (Suc n) es)) [0..<length es]"
  by (rule map_cong) simp_all

end
