(* ===== verification/Lsc_Wire.thy ===== *)
theory Lsc_Wire
  imports Lsc_Prelude
begin

text \<open>
  The wire vocabulary of \<open>sim/lsc1_transaction.py\<close> (lines 31-175): the framing constants,
  the enumerations with their codes and the exceptions of the program. The lemmas: each
  enumeration is recovered from its code, and every code is a byte.
\<close>

section \<open>Constants\<close>

definition MASK128 :: int where "MASK128 = 2 ^ 128 - 1"
definition REDUCTION_LOW :: int where "REDUCTION_LOW = 0x87"
definition U32_MAX :: int where "U32_MAX = 2 ^ 32 - 1"
definition INDEX_BITS :: nat where "INDEX_BITS = 16"
definition INDEX_LIMIT :: int where "INDEX_LIMIT = 2 ^ INDEX_BITS"

definition PROTOCOL_VERSION :: int where "PROTOCOL_VERSION = 1"
definition SOF_REQUEST :: int where "SOF_REQUEST = 0xA1"
definition SOF_RESPONSE :: int where "SOF_RESPONSE = 0x5A"
definition REQUEST_HEADER_BYTES :: nat where "REQUEST_HEADER_BYTES = 6"
definition RESPONSE_HEADER_BYTES :: nat where "RESPONSE_HEADER_BYTES = 5"
definition CRC_BYTES :: nat where "CRC_BYTES = 4"
definition MAX_PAYLOAD_BYTES :: nat where "MAX_PAYLOAD_BYTES = 256"
definition DEVICE_ID :: int where "DEVICE_ID = 0x4C534331"
definition DEVICE_FEATURES :: int where "DEVICE_FEATURES = 7"
definition CELL_BYTES :: nat where "CELL_BYTES = 17"
definition WRITE_BYTES :: nat where "WRITE_BYTES = 20"
definition DEFERRED_BYTES :: nat where "DEFERRED_BYTES = 8"
definition ACCESS_BYTES :: nat where "ACCESS_BYTES = 4"
definition TRANSACTION_PREAMBLE_BYTES :: nat where "TRANSACTION_PREAMBLE_BYTES = 14"

lemmas wire_constants =
  MASK128_def REDUCTION_LOW_def U32_MAX_def INDEX_BITS_def INDEX_LIMIT_def
  PROTOCOL_VERSION_def SOF_REQUEST_def SOF_RESPONSE_def REQUEST_HEADER_BYTES_def
  RESPONSE_HEADER_BYTES_def CRC_BYTES_def MAX_PAYLOAD_BYTES_def DEVICE_ID_def
  DEVICE_FEATURES_def CELL_BYTES_def WRITE_BYTES_def DEFERRED_BYTES_def ACCESS_BYTES_def
  TRANSACTION_PREAMBLE_BYTES_def

section \<open>Enumerations\<close>

datatype opcode =
    OP_XOR | OP_MUL_NATIVE | OP_SET_CONSTANT | OP_DEREF_CELL | OP_DEREF_PC | OP_DEREF_FP
  | OP_JUMP | OP_BLAKE3_REQUEST | OP_NEGOTIATE | OP_SERVICE_RESPONSE | OP_RETIRE
  | OP_STATUS_QUERY

text \<open>\<open>int(opcode)\<close>, and \<open>Opcode(n)\<close> with \<open>None\<close> for the \<open>ValueError\<close>.\<close>

fun opcode_code :: "opcode \<Rightarrow> int" where
  "opcode_code OP_XOR = 0x01"
| "opcode_code OP_MUL_NATIVE = 0x02"
| "opcode_code OP_SET_CONSTANT = 0x03"
| "opcode_code OP_DEREF_CELL = 0x04"
| "opcode_code OP_DEREF_PC = 0x05"
| "opcode_code OP_DEREF_FP = 0x06"
| "opcode_code OP_JUMP = 0x07"
| "opcode_code OP_BLAKE3_REQUEST = 0x08"
| "opcode_code OP_NEGOTIATE = 0x10"
| "opcode_code OP_SERVICE_RESPONSE = 0x11"
| "opcode_code OP_RETIRE = 0x12"
| "opcode_code OP_STATUS_QUERY = 0x13"

definition all_opcodes :: "opcode list" where
  "all_opcodes =
     [OP_XOR, OP_MUL_NATIVE, OP_SET_CONSTANT, OP_DEREF_CELL, OP_DEREF_PC, OP_DEREF_FP,
      OP_JUMP, OP_BLAKE3_REQUEST, OP_NEGOTIATE, OP_SERVICE_RESPONSE, OP_RETIRE,
      OP_STATUS_QUERY]"

definition opcode_of :: "int \<Rightarrow> opcode option" where
  "opcode_of n = find (\<lambda>op. opcode_code op = n) all_opcodes"

definition INSTRUCTION_OPCODES :: "opcode list" where
  "INSTRUCTION_OPCODES =
     [OP_XOR, OP_MUL_NATIVE, OP_SET_CONSTANT, OP_DEREF_CELL, OP_DEREF_PC, OP_DEREF_FP,
      OP_JUMP, OP_BLAKE3_REQUEST]"

fun REQUEST_PAYLOAD_BYTES :: "opcode \<Rightarrow> nat" where
  "REQUEST_PAYLOAD_BYTES OP_XOR = 77"
| "REQUEST_PAYLOAD_BYTES OP_MUL_NATIVE = 94"
| "REQUEST_PAYLOAD_BYTES OP_SET_CONSTANT = 51"
| "REQUEST_PAYLOAD_BYTES OP_DEREF_CELL = 81"
| "REQUEST_PAYLOAD_BYTES OP_DEREF_PC = 81"
| "REQUEST_PAYLOAD_BYTES OP_DEREF_FP = 81"
| "REQUEST_PAYLOAD_BYTES OP_JUMP = 103"
| "REQUEST_PAYLOAD_BYTES OP_BLAKE3_REQUEST = 190"
| "REQUEST_PAYLOAD_BYTES OP_NEGOTIATE = 7"
| "REQUEST_PAYLOAD_BYTES OP_SERVICE_RESPONSE = 42"
| "REQUEST_PAYLOAD_BYTES OP_RETIRE = 8"
| "REQUEST_PAYLOAD_BYTES OP_STATUS_QUERY = 0"

datatype status =
    OK | SERVICE_REQUIRED | RETIRED | INFO | BAD_SOF | BAD_VERSION | BAD_OPCODE | BAD_LENGTH
  | BAD_CRC | BAD_FLAGS | BAD_PROFILE | BAD_STATE | BAD_CELL | U32_OVERFLOW | BAD_POINTER
  | BAD_INVERSE | WRITE_CONFLICT | DEREF_MISMATCH | MUL_BACKSOLVE_ZERO | BAD_BRANCH_PROPOSAL
  | UNSUPPORTED_IN_PROFILE | BAD_SERVICE | RETIRE_MISMATCH | ABORTED | STATE_MISMATCH
  | INDEX_RANGE | ALIAS_INCONSISTENT

fun status_code :: "status \<Rightarrow> int" where
  "status_code OK = 0x00"
| "status_code SERVICE_REQUIRED = 0x01"
| "status_code RETIRED = 0x02"
| "status_code INFO = 0x03"
| "status_code BAD_SOF = 0x80"
| "status_code BAD_VERSION = 0x81"
| "status_code BAD_OPCODE = 0x82"
| "status_code BAD_LENGTH = 0x83"
| "status_code BAD_CRC = 0x84"
| "status_code BAD_FLAGS = 0x85"
| "status_code BAD_PROFILE = 0x86"
| "status_code BAD_STATE = 0x87"
| "status_code BAD_CELL = 0x88"
| "status_code U32_OVERFLOW = 0x89"
| "status_code BAD_POINTER = 0x8A"
| "status_code BAD_INVERSE = 0x8B"
| "status_code WRITE_CONFLICT = 0x8C"
| "status_code DEREF_MISMATCH = 0x8D"
| "status_code MUL_BACKSOLVE_ZERO = 0x8E"
| "status_code BAD_BRANCH_PROPOSAL = 0x8F"
| "status_code UNSUPPORTED_IN_PROFILE = 0x90"
| "status_code BAD_SERVICE = 0x91"
| "status_code RETIRE_MISMATCH = 0x92"
| "status_code ABORTED = 0x93"
| "status_code STATE_MISMATCH = 0x94"
| "status_code INDEX_RANGE = 0x95"
| "status_code ALIAS_INCONSISTENT = 0x96"

definition all_statuses :: "status list" where
  "all_statuses =
     [OK, SERVICE_REQUIRED, RETIRED, INFO, BAD_SOF, BAD_VERSION, BAD_OPCODE, BAD_LENGTH,
      BAD_CRC, BAD_FLAGS, BAD_PROFILE, BAD_STATE, BAD_CELL, U32_OVERFLOW, BAD_POINTER,
      BAD_INVERSE, WRITE_CONFLICT, DEREF_MISMATCH, MUL_BACKSOLVE_ZERO, BAD_BRANCH_PROPOSAL,
      UNSUPPORTED_IN_PROFILE, BAD_SERVICE, RETIRE_MISMATCH, ABORTED, STATE_MISMATCH,
      INDEX_RANGE, ALIAS_INCONSISTENT]"

definition status_of :: "int \<Rightarrow> status option" where
  "status_of n = find (\<lambda>s. status_code s = n) all_statuses"

text \<open>Codes at or above \<open>0x80\<close> are faults.\<close>

definition is_fault :: "status \<Rightarrow> bool" where
  "is_fault s \<longleftrightarrow> status_code s \<ge> 0x80"

datatype profile = FORWARD_ONLY | INTERPRETER_COMPAT

fun profile_code :: "profile \<Rightarrow> int" where
  "profile_code FORWARD_ONLY = 0x00"
| "profile_code INTERPRETER_COMPAT = 0x01"

definition profile_of :: "int \<Rightarrow> profile option" where
  "profile_of n = find (\<lambda>p. profile_code p = n) [FORWARD_ONLY, INTERPRETER_COMPAT]"

definition DEFAULT_PROFILE :: profile where "DEFAULT_PROFILE = INTERPRETER_COMPAT"

datatype service_kind = BLAKE3_COMPRESS

fun service_kind_code :: "service_kind \<Rightarrow> int" where
  "service_kind_code BLAKE3_COMPRESS = 0x01"

definition service_kind_of :: "int \<Rightarrow> service_kind option" where
  "service_kind_of n = (if n = 0x01 then Some BLAKE3_COMPRESS else None)"

datatype txn_state = IDLE | RESULT_PENDING | SERVICE_PENDING

text \<open>
  The exceptions the program raises: \<open>ProtocolFault\<close> with its status and detail, the Python
  built-ins its operations can raise, and the host taxonomy of \<open>host/errors.py\<close> and
  \<open>host/blake3_service.py\<close>. The message texts are not modelled.
\<close>

datatype exn =
    ProtocolFault status int
  | ValueError | KeyError | IndexError | AssertionError | OverflowError | RuntimeError
  | ZeroDivisionError | TypeError | AttributeError
  | UnsupportedCapability | AdapterError | WriteOnceViolation | ProtocolViolation
  | PreparationFault status | TransactionRejected status bytes
  | ServiceSemanticError | ServiceInfrastructureError

type_synonym 'a res = "exn + 'a"

text \<open>The constructor of \<open>ProtocolFault\<close> masks its detail to a byte.\<close>

definition protocol_fault :: "status \<Rightarrow> int \<Rightarrow> exn" where
  "protocol_fault s d = ProtocolFault s (d AND 0xFF)"

abbreviation fault :: "status \<Rightarrow> exn" where
  "fault s \<equiv> protocol_fault s 0"

lemma protocol_fault_simps [simp]: "protocol_fault s d = ProtocolFault s (d mod 256)"
proof -
  have "d AND 0xFF = take_bit 8 d" by (simp add: take_bit_eq_mask mask_eq_exp_minus_1)
  then show ?thesis by (simp add: protocol_fault_def take_bit_eq_mod)
qed

text \<open>The exceptions \<open>_dispatch\<close> answers: a fault status and a detail byte.\<close>

definition wire_fault :: "exn \<Rightarrow> bool" where
  "wire_fault e \<longleftrightarrow> (\<exists>s d. e = ProtocolFault s d \<and> is_fault s \<and> 0 \<le> d \<and> d < 256)"

lemma is_fault_simps [simp]:
  "is_fault BAD_SOF" "is_fault BAD_VERSION" "is_fault BAD_OPCODE" "is_fault BAD_LENGTH"
  "is_fault BAD_CRC" "is_fault BAD_FLAGS" "is_fault BAD_PROFILE" "is_fault BAD_STATE"
  "is_fault BAD_CELL" "is_fault U32_OVERFLOW" "is_fault BAD_POINTER" "is_fault BAD_INVERSE"
  "is_fault WRITE_CONFLICT" "is_fault DEREF_MISMATCH" "is_fault MUL_BACKSOLVE_ZERO"
  "is_fault BAD_BRANCH_PROPOSAL" "is_fault UNSUPPORTED_IN_PROFILE" "is_fault BAD_SERVICE"
  "is_fault RETIRE_MISMATCH" "is_fault ABORTED" "is_fault STATE_MISMATCH" "is_fault INDEX_RANGE"
  "is_fault ALIAS_INCONSISTENT" "\<not> is_fault OK" "\<not> is_fault SERVICE_REQUIRED"
  "\<not> is_fault RETIRED" "\<not> is_fault INFO"
  by (simp_all add: is_fault_def)

lemma wire_fault_simps [simp]:
  "wire_fault (ProtocolFault s d) \<longleftrightarrow> is_fault s \<and> 0 \<le> d \<and> d < 256"
  by (auto simp: wire_fault_def)

lemma opcode_of_code [simp]: "opcode_of (opcode_code op) = Some op"
  by (cases op) (simp_all add: opcode_of_def all_opcodes_def)

lemma opcode_of_Some: "opcode_of n = Some op \<Longrightarrow> n = opcode_code op"
  by (auto simp: opcode_of_def find_Some_iff)

lemma opcode_code_inject [simp]: "opcode_code a = opcode_code b \<longleftrightarrow> a = b"
  by (metis opcode_of_code option.inject)

lemma opcode_code_range [simp, wire_simps]: "0 \<le> opcode_code op" "opcode_code op \<le> 255"
  by (cases op; simp)+

lemma status_of_code [simp]: "status_of (status_code s) = Some s"
  by (cases s) (simp_all add: status_of_def all_statuses_def)

lemma status_of_Some: "status_of n = Some s \<Longrightarrow> n = status_code s"
  by (auto simp: status_of_def find_Some_iff)

lemma status_code_inject [simp]: "status_code a = status_code b \<longleftrightarrow> a = b"
  by (metis status_of_code option.inject)

lemma status_code_range [simp, wire_simps]: "0 \<le> status_code s" "status_code s \<le> 255"
  by (cases s; simp)+

lemma profile_of_code [simp]: "profile_of (profile_code p) = Some p"
  by (cases p) (simp_all add: profile_of_def)

lemma profile_of_Some: "profile_of n = Some p \<Longrightarrow> n = profile_code p"
  by (auto simp: profile_of_def split: if_splits)

lemma profile_code_range [simp, wire_simps]: "0 \<le> profile_code p" "profile_code p \<le> 255"
  by (cases p; simp)+

lemma payload_bytes_le: "REQUEST_PAYLOAD_BYTES op \<le> MAX_PAYLOAD_BYTES"
  by (cases op) (simp_all add: MAX_PAYLOAD_BYTES_def)

lemma profile_of_iff: "profile_of n = Some p \<longleftrightarrow> n = profile_code p"
  by (metis profile_of_code profile_of_Some)

lemma profile_code_inject [simp]: "profile_code a = profile_code b \<longleftrightarrow> a = b"
  by (metis profile_of_code option.inject)

lemma code_mod [simp]: "profile_code p mod 256 = profile_code p" "opcode_code op mod 256 = opcode_code op"
   "status_code s mod 256 = status_code s"
proof -
  show "profile_code p mod 256 = profile_code p" by (cases p) simp_all
  show "opcode_code op mod 256 = opcode_code op" by (cases op) simp_all
  show "status_code s mod 256 = status_code s" by (cases s) simp_all
qed

end
