(* ===== verification/Lsc_Crc.thy ===== *)
theory Lsc_Crc
  imports Lsc_Wire
begin

text \<open>
  \<open>crc32\<close> of \<open>sim/lsc1_transaction.py\<close>, bit at a time as the code computes it, and what it
  detects: the register is a linear, injective function of the data read as a little-endian
  integer, so two messages of one length that differ only inside a window of at most four
  consecutive bytes never have the same CRC.
\<close>

definition CRC32_POLYNOMIAL :: int where "CRC32_POLYNOMIAL = 0xEDB88320"

definition crc32_bit :: "int \<Rightarrow> int" where
  "crc32_bit register =
     drop_bit 1 register XOR (if register AND 1 \<noteq> 0 then CRC32_POLYNOMIAL else 0)"

definition crc32_byte :: "int \<Rightarrow> byte \<Rightarrow> int" where
  "crc32_byte register b = (crc32_bit ^^ 8) (register XOR uint b)"

definition crc32 :: "bytes \<Rightarrow> int" where
  "crc32 data = foldl crc32_byte 0xFFFFFFFF data XOR 0xFFFFFFFF"

section \<open>Range\<close>

lemma crc32_bit_alt: "crc32_bit r = r div 2 XOR (if odd r then CRC32_POLYNOMIAL else 0)"
  by (simp add: crc32_bit_def and_one_eq odd_iff_mod_2_eq_one drop_bit_eq_div)

lemma fits_crc_poly: "fits 32 CRC32_POLYNOMIAL"
  by (simp add: CRC32_POLYNOMIAL_def fits_def)

lemma fits_half: "fits (Suc n) r \<Longrightarrow> fits n (r div 2)"
  by (auto simp: fits_def)

lemma fits_crc32_bit: "fits 32 r \<Longrightarrow> fits 32 (crc32_bit r)"
  using fits_mono [OF fits_half [of 31 r], of 32] fits_crc_poly by (simp add: crc32_bit_alt)

lemma fits_crc32_bits: "fits 32 r \<Longrightarrow> fits 32 ((crc32_bit ^^ n) r)"
  by (induction n) (simp_all add: fits_crc32_bit)

lemma fits_xor_byte: "fits 32 r \<Longrightarrow> fits 32 (r XOR uint (b :: byte))"
  by (simp add: fits_mono [OF fits_byte])

lemma fits_crc32_byte: "fits 32 r \<Longrightarrow> fits 32 (crc32_byte r b)"
  unfolding crc32_byte_def by (intro fits_crc32_bits fits_xor_byte)

lemma fits_crc32_fold: "fits 32 r \<Longrightarrow> fits 32 (foldl crc32_byte r bs)"
  by (induction bs arbitrary: r) (simp_all add: fits_crc32_byte)

lemma fits_all_ones: "fits 32 0xFFFFFFFF"
  by (simp add: fits_def)

lemma fits_crc32 [simp, wire_simps]: "fits 32 (crc32 data)"
  unfolding crc32_def by (intro fits_xor fits_crc32_fold fits_all_ones)

lemma crc32_bounds [simp, wire_simps]: "0 \<le> crc32 data" "crc32 data \<le> 4294967295" "crc32 data < 4294967296"
  using fits_crc32 [of data] by (simp_all add: fits_def)

section \<open>The register is linear in the data\<close>

lemma half_xor: "((a :: int) XOR b) div 2 = a div 2 XOR b div 2"
  using drop_bit_xor [of 1 a b] by (simp add: drop_bit_eq_div)

lemma crc32_bit_xor: "crc32_bit (a XOR b) = crc32_bit a XOR crc32_bit b"
  by (auto simp: crc32_bit_alt half_xor even_xor_iff xor.assoc xor.left_commute)

lemma crc32_bits_xor: "(crc32_bit ^^ n) (a XOR b) = (crc32_bit ^^ n) a XOR (crc32_bit ^^ n) b"
  by (induction n) (simp_all add: crc32_bit_xor)

lemma crc32_bits_push: "(crc32_bit ^^ n) (2 ^ n * y) = y"
proof (induction n)
  case 0
  then show ?case by simp
next
  case (Suc n)
  have "crc32_bit (2 ^ Suc n * y) = 2 ^ n * y" by (simp add: crc32_bit_alt)
  with Suc show ?case by (simp only: funpow_Suc_right o_apply)
qed

lemma byte_xor_shift: "uint (b :: byte) XOR (2 ^ 8 * y) = uint b + 256 * y"
proof -
  have "uint b AND push_bit 8 y = 0"
  proof (rule bit_eqI)
    fix n
    show "bit (uint b AND push_bit 8 y) n = bit (0::int) n"
      using fits_bit [OF fits_byte, of b n] by (auto simp: bit_and_iff bit_push_bit_iff)
  qed
  then have "uint b + push_bit 8 y = uint b XOR push_bit 8 y"
    by (simp add: disjunctive_xor_eq_or disjunctive_add_eq_or)
  then show ?thesis by (simp add: push_bit_eq_mult mult.commute)
qed

lemma crc32_fold_closed: "foldl crc32_byte r bs = (crc32_bit ^^ (8 * length bs)) (r XOR le_int bs)"
proof (induction bs arbitrary: r)
  case Nil
  then show ?case by simp
next
  case (Cons b bs)
  have "(crc32_bit ^^ 8) (r XOR uint b) XOR le_int bs
      = (crc32_bit ^^ 8) (r XOR uint b) XOR (crc32_bit ^^ 8) (2 ^ 8 * le_int bs)"
    by (simp only: crc32_bits_push)
  also have "\<dots> = (crc32_bit ^^ 8) ((r XOR uint b) XOR (2 ^ 8 * le_int bs))"
    by (simp only: crc32_bits_xor)
  also have "(r XOR uint b) XOR (2 ^ 8 * le_int bs) = r XOR le_int (b # bs)"
    by (simp only: xor.assoc byte_xor_shift le_int.simps)
  finally have step: "crc32_byte r b XOR le_int bs = (crc32_bit ^^ 8) (r XOR le_int (b # bs))"
    by (simp only: crc32_byte_def)
  have "8 * length (b # bs) = 8 * length bs + 8" by simp
  then have "(crc32_bit ^^ (8 * length (b # bs))) x = (crc32_bit ^^ (8 * length bs)) ((crc32_bit ^^ 8) x)" for x
    by (simp only: funpow_add o_apply)
  then show ?case by (simp only: foldl_Cons Cons.IH step)
qed

section \<open>The register step is injective\<close>

lemma crc32_bit_top:
  assumes "fits 32 r"
  shows "bit (crc32_bit r) 31 \<longleftrightarrow> odd r"
proof -
  have "\<not> bit (r div 2) 31"
    using fits_bit [OF fits_half, of 31 r 31] assms by auto
  moreover have "bit CRC32_POLYNOMIAL 31" by (simp add: CRC32_POLYNOMIAL_def)
  ultimately show ?thesis by (simp add: crc32_bit_alt bit_xor_iff)
qed

lemma xor_right_cancel: "(a :: int) XOR c = b XOR c \<longleftrightarrow> a = b"
  by (metis xor.assoc xor.right_neutral xor_self_eq)

lemma xor_left_cancel: "(c :: int) XOR a = c XOR b \<longleftrightarrow> a = b"
  by (metis xor.commute xor_right_cancel)

lemma crc32_bit_inject:
  assumes "fits 32 x" "fits 32 y" and eq: "crc32_bit x = crc32_bit y"
  shows "x = y"
proof -
  have par: "odd x = odd y"
    using eq crc32_bit_top [OF assms(1)] crc32_bit_top [OF assms(2)] by simp
  have "x div 2 = y div 2"
    using eq unfolding crc32_bit_alt par by (simp only: xor_right_cancel)
  with par show ?thesis by presburger
qed

lemma crc32_bits_inject:
  "fits 32 x \<Longrightarrow> fits 32 y \<Longrightarrow> (crc32_bit ^^ n) x = (crc32_bit ^^ n) y \<Longrightarrow> x = y"
proof (induction n)
  case 0
  then show ?case by simp
next
  case (Suc n)
  have "crc32_bit ((crc32_bit ^^ n) x) = crc32_bit ((crc32_bit ^^ n) y)" using Suc.prems by simp
  then have "(crc32_bit ^^ n) x = (crc32_bit ^^ n) y"
    by (rule crc32_bit_inject [rotated 2]) (rule fits_crc32_bits, fact)+
  then show ?case using Suc by blast
qed

lemma crc32_fold_inject:
  "fits 32 x \<Longrightarrow> fits 32 y \<Longrightarrow> foldl crc32_byte x bs = foldl crc32_byte y bs \<Longrightarrow> x = y"
proof (induction bs arbitrary: x y)
  case Nil
  then show ?case by simp
next
  case (Cons b bs)
  have "foldl crc32_byte (crc32_byte x b) bs = foldl crc32_byte (crc32_byte y b) bs"
    using Cons.prems(3) by (simp only: foldl_Cons)
  then have "crc32_byte x b = crc32_byte y b"
    by (rule Cons.IH [rotated 2]) (rule fits_crc32_byte, fact)+
  then have "x XOR uint b = y XOR uint b"
    unfolding crc32_byte_def by (rule crc32_bits_inject [rotated 2]) (rule fits_xor_byte, fact)+
  then show ?case by (simp only: xor_right_cancel)
qed

lemma crc32_window:
  assumes len: "length w1 = length w2" "length w1 \<le> 4" and diff: "w1 \<noteq> w2"
  shows "crc32 (pre @ w1 @ post) \<noteq> crc32 (pre @ w2 @ post)"
proof
  define r where "r = foldl crc32_byte 0xFFFFFFFF pre"
  have r: "fits 32 r" unfolding r_def by (intro fits_crc32_fold fits_all_ones)
  assume "crc32 (pre @ w1 @ post) = crc32 (pre @ w2 @ post)"
  then have "foldl crc32_byte (foldl crc32_byte r w1) post = foldl crc32_byte (foldl crc32_byte r w2) post"
    by (simp only: crc32_def xor_right_cancel foldl_append r_def)
  then have "foldl crc32_byte r w1 = foldl crc32_byte r w2"
    by (rule crc32_fold_inject [rotated 2]) (rule fits_crc32_fold, fact)+
  then have eq: "(crc32_bit ^^ (8 * length w1)) (r XOR le_int w1) = (crc32_bit ^^ (8 * length w1)) (r XOR le_int w2)"
    by (simp only: crc32_fold_closed len(1))
  have "fits 32 (r XOR le_int w1)" "fits 32 (r XOR le_int w2)"
    using r len by (simp_all add: fits_le_int)
  then have "r XOR le_int w1 = r XOR le_int w2" using eq by (rule crc32_bits_inject)
  then have "le_int w1 = le_int w2" by (simp only: xor_left_cancel)
  with len diff show False by (simp add: le_int_inject)
qed

text \<open>
  The CRC of the frames detects every corruption confined to a window of at most four
  consecutive bytes: two messages that differ only there never have the same CRC-32.
\<close>

lemma crc32_window_detects:
  assumes "length w1 = length w2" "length w1 \<le> 4" "w1 \<noteq> w2"
  shows "crc32 (pre @ w1 @ post) \<noteq> crc32 (pre @ w2 @ post)"
  using assms by (rule crc32_window)

end
