(* ===== verification/Lsc_Codec.thy ===== *)
theory Lsc_Codec
  imports Lsc_Crc
begin

text \<open>
  The codec of \<open>sim/lsc1_transaction.py\<close>: the payload primitives \<open>u8\<close>, \<open>u16le\<close>,
  \<open>u32le\<close>, \<open>f128le\<close> with the \<open>ValueError\<close> they raise out of range, the host-supplied
  memory \<open>Cell\<close>, the bounds-checked \<open>_Reader\<close> and the two frame envelopes. The lemmas
  say when an encoder succeeds and what it returns, and that the reader inverts each encoder
  at any offset of a payload.
\<close>

section \<open>Payload primitives\<close>

definition u8 :: "int \<Rightarrow> bytes res" where
  "u8 value = (if 0 \<le> value \<and> value \<le> 0xFF then Inr [word_of_int value] else Inl ValueError)"

definition u16le :: "int \<Rightarrow> bytes res" where
  "u16le value = (if 0 \<le> value \<and> value \<le> 0xFFFF then Inr (to_le 2 value) else Inl ValueError)"

definition u32le :: "int \<Rightarrow> bytes res" where
  "u32le value = (if 0 \<le> value \<and> value \<le> U32_MAX then Inr (to_le 4 value) else Inl ValueError)"

definition f128le :: "int \<Rightarrow> bytes res" where
  "f128le value = (if 0 \<le> value \<and> value \<le> MASK128 then Inr (to_le 16 value) else Inl ValueError)"

lemma u8_fits: "u8 v = (if fits 8 v then Inr (to_le 1 v) else Inl ValueError)"
  by (simp add: u8_def fits_def)

lemma u16le_fits: "u16le v = (if fits 16 v then Inr (to_le 2 v) else Inl ValueError)"
  by (simp add: u16le_def fits_def)

lemma u32le_fits: "u32le v = (if fits 32 v then Inr (to_le 4 v) else Inl ValueError)"
  by (simp add: u32le_def fits_def U32_MAX_def)

lemma f128le_fits: "f128le v = (if fits 128 v then Inr (to_le 16 v) else Inl ValueError)"
  by (simp add: f128le_def fits_def MASK128_def)

lemmas prim_fits = u8_fits u16le_fits u32le_fits f128le_fits

lemma le_int_to_le_fits: "fits (8 * n) v \<Longrightarrow> le_int (to_le n v) = v"
  by (rule le_int_to_le_id) (simp_all add: fits_def power_mult)

lemma le_int_to_le_widths [simp]:
  "fits 8 v \<Longrightarrow> le_int (to_le (Suc 0) v) = v"
  "fits 16 v \<Longrightarrow> le_int (to_le 2 v) = v"
  "fits 32 v \<Longrightarrow> le_int (to_le 4 v) = v"
  "fits 64 v \<Longrightarrow> le_int (to_le 8 v) = v"
  "fits 128 v \<Longrightarrow> le_int (to_le 16 v) = v"
  using le_int_to_le_fits [of 1 v] le_int_to_le_fits [of 2 v] le_int_to_le_fits [of 4 v]
    le_int_to_le_fits [of 8 v] le_int_to_le_fits [of 16 v] by simp_all

section \<open>Cells\<close>

record cell =
  cell_present :: bool
  cell_value :: int

definition Cell :: "bool \<Rightarrow> int \<Rightarrow> cell" where
  "Cell p v = \<lparr>cell_present = p, cell_value = v\<rparr>"

definition ABSENT :: cell where "ABSENT = Cell False 0"

lemma Cell_simps [simp]:
  "cell_present (Cell p v) = p" "cell_value (Cell p v) = v"
  "Cell p v = Cell q w \<longleftrightarrow> p = q \<and> v = w"
  by (simp_all add: Cell_def)

lemma cell_eqI:
  "cell_present c = cell_present d \<Longrightarrow> cell_value c = cell_value d \<Longrightarrow> c = (d :: cell)"
  by (rule cell.equality) simp_all

lemma Cell_collapse [simp]: "Cell (cell_present c) (cell_value c) = c"
  by (simp add: Cell_def)

definition encode_cell :: "cell \<Rightarrow> bytes res" where
  "encode_cell c = catE [u8 (if cell_present c then 1 else 0), f128le (cell_value c)]"

text \<open>What the wire can carry: an absent cell has the value zero.\<close>

definition cell_ok :: "cell \<Rightarrow> bool" where
  "cell_ok c \<longleftrightarrow> fits 128 (cell_value c) \<and> (cell_present c \<or> cell_value c = 0)"

definition cell_bytes :: "cell \<Rightarrow> bytes" where
  "cell_bytes c = word_of_int (if cell_present c then 1 else 0) # to_le 16 (cell_value c)"

lemma length_cell_bytes [simp, wire_simps]: "length (cell_bytes c) = 17"
  by (simp add: cell_bytes_def)

lemma word_bool [simp]: "fits 8 v \<Longrightarrow> \<not> 1 < v \<Longrightarrow> v \<noteq> 0 \<Longrightarrow> word_of_int v = (1 :: byte)"
  by (subgoal_tac "v = 1") (auto simp: fits_def)


lemma fits_8_01 [simp]: "fits 8 (if b then 1 else 0)" "fits 8 0" "fits 8 1"
  by (simp_all add: fits_def)

lemma encode_cell_eq: "encode_cell c = (if fits 128 (cell_value c) then Inr (cell_bytes c) else Inl ValueError)"
  by (simp add: encode_cell_def prim_fits cell_bytes_def)

lemma cell_ok_ABSENT [simp]: "cell_ok ABSENT"
  by (simp add: cell_ok_def ABSENT_def)

lemma cell_ok_Cell [simp]: "cell_ok (Cell True v) \<longleftrightarrow> fits 128 v" "cell_ok (Cell False v) \<longleftrightarrow> v = 0"
  by (auto simp: cell_ok_def)

section \<open>The reader\<close>

record reader =
  rd_data :: bytes
  rd_offset :: nat

definition Reader :: "bytes \<Rightarrow> reader" where
  "Reader bs = \<lparr>rd_data = bs, rd_offset = 0\<rparr>"

definition rd_take :: "nat \<Rightarrow> reader \<Rightarrow> (bytes \<times> reader) res" where
  "rd_take count r =
     (let stop = rd_offset r + count in
      if stop > length (rd_data r) then Inl (fault BAD_LENGTH)
      else Inr (pyslice (rd_offset r) stop (rd_data r), r\<lparr>rd_offset := stop\<rparr>))"

definition rd_u8 :: "reader \<Rightarrow> (int \<times> reader) res" where
  "rd_u8 r = bindE (rd_take 1 r) (\<lambda>(bs, r). Inr (uint (bs ! 0), r))"

definition rd_u16 :: "reader \<Rightarrow> (int \<times> reader) res" where
  "rd_u16 r = bindE (rd_take 2 r) (\<lambda>(bs, r). Inr (le_int bs, r))"

definition rd_u32 :: "reader \<Rightarrow> (int \<times> reader) res" where
  "rd_u32 r = bindE (rd_take 4 r) (\<lambda>(bs, r). Inr (le_int bs, r))"

definition rd_f128 :: "reader \<Rightarrow> (int \<times> reader) res" where
  "rd_f128 r = bindE (rd_take 16 r) (\<lambda>(bs, r). Inr (le_int bs, r))"

definition rd_cell :: "reader \<Rightarrow> (cell \<times> reader) res" where
  "rd_cell r =
     bindE (rd_u8 r) (\<lambda>(present, r).
     bindE (rd_f128 r) (\<lambda>(value, r).
       if present > 1 then Inl (fault BAD_CELL)
       else if present = 0 \<and> value \<noteq> 0 then Inl (fault BAD_CELL)
       else Inr (Cell (present \<noteq> 0) value, r)))"

definition rd_done :: "reader \<Rightarrow> unit res" where
  "rd_done r = (if rd_offset r \<noteq> length (rd_data r) then Inl (fault BAD_LENGTH) else Inr ())"

text \<open>\<open>tuple(read() for _ in range(n))\<close>.\<close>

fun rd_many :: "nat \<Rightarrow> (reader \<Rightarrow> ('a \<times> reader) res) \<Rightarrow> reader \<Rightarrow> ('a list \<times> reader) res" where
  "rd_many 0 rd r = Inr ([], r)"
| "rd_many (Suc n) rd r =
     bindE (rd r) (\<lambda>(x, r). bindE (rd_many n rd r) (\<lambda>(xs, r). Inr (x # xs, r)))"

text \<open>A reader over \<open>pre\<close> already consumed and \<open>post\<close> still to come.\<close>

definition reader_at :: "bytes \<Rightarrow> bytes \<Rightarrow> reader" where
  "reader_at pre post = \<lparr>rd_data = pre @ post, rd_offset = length pre\<rparr>"

lemma Reader_at: "Reader bs = reader_at [] bs"
  by (simp add: Reader_def reader_at_def)

lemma rd_take_at:
  "rd_take n (reader_at pre post) =
     (if n \<le> length post then Inr (take n post, reader_at (pre @ take n post) (drop n post))
      else Inl (fault BAD_LENGTH))"
  by (auto simp: rd_take_def reader_at_def pyslice_def Let_def)

lemma rd_take_append [simp]:
  "length bs = n \<Longrightarrow> rd_take n (reader_at pre (bs @ post)) = Inr (bs, reader_at (pre @ bs) post)"
  by (simp add: rd_take_at)

lemma rd_u8_append [simp]:
  "rd_u8 (reader_at pre (b # post)) = Inr (uint b, reader_at (pre @ [b]) post)"
  using rd_take_append [of "[b]" 1 pre post] by (simp add: rd_u8_def)

lemma rd_u32_append [simp]:
  "fits 32 v \<Longrightarrow> rd_u32 (reader_at pre (to_le 4 v @ post)) = Inr (v, reader_at (pre @ to_le 4 v) post)"
  by (simp add: rd_u32_def)

lemma rd_f128_append [simp]:
  "fits 128 v \<Longrightarrow> rd_f128 (reader_at pre (to_le 16 v @ post)) = Inr (v, reader_at (pre @ to_le 16 v) post)"
  by (simp add: rd_f128_def)

lemma rd_cell_append [simp]:
  "cell_ok c \<Longrightarrow> rd_cell (reader_at pre (cell_bytes c @ post)) = Inr (c, reader_at (pre @ cell_bytes c) post)"
  by (cases "cell_present c")
    (auto simp: rd_cell_def cell_bytes_def cell_ok_def Cell_def uint_word_of_int intro: cell_eqI)

lemma rd_done_at [simp]: "rd_done (reader_at pre []) = Inr ()"
  by (simp add: rd_done_def reader_at_def)

lemma rd_done_at_iff: "rd_done (reader_at pre post) = Inr () \<longleftrightarrow> post = []"
  by (auto simp: rd_done_def reader_at_def)

text \<open>Every value a reader returns fits its width, and every cell is well-formed.\<close>

lemma rd_take_length: "rd_take n r = Inr (bs, r') \<Longrightarrow> length bs = n"
  by (auto simp: rd_take_def Let_def pyslice_def split: if_splits)

lemma rd_u8_fits: "rd_u8 r = Inr (v, r') \<Longrightarrow> fits 8 v"
  by (auto simp: rd_u8_def bindE_eq_Inr)

lemma rd_u32_fits: "rd_u32 r = Inr (v, r') \<Longrightarrow> fits 32 v"
  by (auto simp: rd_u32_def bindE_eq_Inr dest!: rd_take_length intro!: fits_le_int)

lemma rd_f128_fits: "rd_f128 r = Inr (v, r') \<Longrightarrow> fits 128 v"
  by (auto simp: rd_f128_def bindE_eq_Inr dest!: rd_take_length intro!: fits_le_int)

lemma rd_cell_ok: "rd_cell r = Inr (c, r') \<Longrightarrow> cell_ok c"
  by (auto simp: rd_cell_def bindE_eq_Inr cell_ok_def split: if_splits dest: rd_f128_fits)

lemma rd_many_all:
  assumes rd: "\<And>r x r'. rd r = Inr (x, r') \<Longrightarrow> P x"
  shows "rd_many n rd r = Inr (xs, r') \<Longrightarrow> length xs = n \<and> (\<forall>x \<in> set xs. P x)"
proof (induction n arbitrary: r xs)
  case 0
  then show ?case by simp
next
  case (Suc n)
  then show ?case by (fastforce simp: bindE_eq_Inr dest: rd)
qed

lemmas rd_many_u32 = rd_many_all [where P = "fits 32", OF rd_u32_fits]
lemmas rd_many_cell = rd_many_all [where P = cell_ok, OF rd_cell_ok]

text \<open>The reader raises nothing but \<open>ProtocolFault\<close>.\<close>

lemma rd_take_raises: "rd_take n r = Inl e \<Longrightarrow> wire_fault e"
  by (auto simp: rd_take_def Let_def split: if_splits)

lemma rd_u8_raises: "rd_u8 r = Inl e \<Longrightarrow> wire_fault e"
  by (auto simp: rd_u8_def bindE_eq_Inl dest: rd_take_raises split: prod.splits)

lemma rd_u32_raises: "rd_u32 r = Inl e \<Longrightarrow> wire_fault e"
  by (auto simp: rd_u32_def bindE_eq_Inl dest: rd_take_raises split: prod.splits)

lemma rd_f128_raises: "rd_f128 r = Inl e \<Longrightarrow> wire_fault e"
  by (auto simp: rd_f128_def bindE_eq_Inl dest: rd_take_raises split: prod.splits)

lemma rd_cell_raises: "rd_cell r = Inl e \<Longrightarrow> wire_fault e"
  by (auto simp: rd_cell_def bindE_eq_Inl dest: rd_u8_raises rd_f128_raises split: prod.splits if_splits)

lemma rd_done_raises: "rd_done r = Inl e \<Longrightarrow> wire_fault e"
  by (auto simp: rd_done_def split: if_splits)

lemma rd_many_raises:
  assumes rd: "\<And>r e. rd r = Inl e \<Longrightarrow> wire_fault e"
  shows "rd_many n rd r = Inl e \<Longrightarrow> wire_fault e"
  by (induction n arbitrary: r) (auto simp: bindE_eq_Inl dest: rd split: prod.splits)

lemmas reader_raises =
  rd_take_raises rd_u8_raises rd_u32_raises rd_f128_raises rd_cell_raises rd_done_raises
  rd_many_raises [of rd_u32, OF rd_u32_raises] rd_many_raises [of rd_cell, OF rd_cell_raises]

section \<open>Frame envelopes\<close>

record request_frame =
  rq_opcode :: opcode
  rq_payload :: bytes
  rq_flags :: int
  rq_version :: int
  rq_sof :: int

definition RequestFrame :: "opcode \<Rightarrow> bytes \<Rightarrow> request_frame" where
  "RequestFrame op p =
     \<lparr>rq_opcode = op, rq_payload = p, rq_flags = 0, rq_version = PROTOCOL_VERSION,
      rq_sof = SOF_REQUEST\<rparr>"

definition encode_request :: "request_frame \<Rightarrow> bytes res" where
  "encode_request f =
     bindE (catE [u8 (rq_sof f), u8 (rq_version f), u8 (opcode_code (rq_opcode f)), u8 (rq_flags f),
                  u16le (int (length (rq_payload f))), Inr (rq_payload f)])
       (\<lambda>body. bindE (u32le (crc32 body)) (\<lambda>crc. Inr (body @ crc)))"

record response_frame =
  rs_status :: status
  rs_payload :: bytes
  rs_version :: int
  rs_sof :: int

definition ResponseFrame :: "status \<Rightarrow> bytes \<Rightarrow> response_frame" where
  "ResponseFrame s p =
     \<lparr>rs_status = s, rs_payload = p, rs_version = PROTOCOL_VERSION, rs_sof = SOF_RESPONSE\<rparr>"

definition encode_response :: "response_frame \<Rightarrow> bytes res" where
  "encode_response f =
     bindE (catE [u8 (rs_sof f), u8 (rs_version f), u8 (status_code (rs_status f)),
                  u16le (int (length (rs_payload f))), Inr (rs_payload f)])
       (\<lambda>body. bindE (u32le (crc32 body)) (\<lambda>crc. Inr (body @ crc)))"

definition decode_response :: "bytes \<Rightarrow> response_frame res" where
  "decode_response frame =
     (if length frame < RESPONSE_HEADER_BYTES + CRC_BYTES then Inl (fault BAD_LENGTH)
      else if uint (frame ! 0) \<noteq> SOF_RESPONSE then Inl (fault BAD_SOF)
      else if uint (frame ! 1) \<noteq> PROTOCOL_VERSION then Inl (fault BAD_VERSION)
      else
        let len = le_int (pyslice 3 5 frame) in
        if int (length frame) \<noteq> int RESPONSE_HEADER_BYTES + len + int CRC_BYTES then Inl (fault BAD_LENGTH)
        else
          let body = take (RESPONSE_HEADER_BYTES + nat len) frame in
          if le_int (drop (length frame - CRC_BYTES) frame) \<noteq> crc32 body then Inl (fault BAD_CRC)
          else
            case status_of (uint (frame ! 2)) of
              None \<Rightarrow> Inl ValueError
            | Some s \<Rightarrow> Inr (ResponseFrame s (drop RESPONSE_HEADER_BYTES body)))"

definition request_frame_bytes :: "opcode \<Rightarrow> nat" where
  "request_frame_bytes op = REQUEST_HEADER_BYTES + REQUEST_PAYLOAD_BYTES op + CRC_BYTES"

definition response_frame_bytes :: "nat \<Rightarrow> nat" where
  "response_frame_bytes n = RESPONSE_HEADER_BYTES + n + CRC_BYTES"

text \<open>The bytes of the two envelopes as the encoders lay them out.\<close>

definition request_body :: "opcode \<Rightarrow> bytes \<Rightarrow> bytes" where
  "request_body op p =
     [0xA1, 1, word_of_int (opcode_code op), 0] @ to_le 2 (int (length p)) @ p"

definition request_bytes :: "opcode \<Rightarrow> bytes \<Rightarrow> bytes" where
  "request_bytes op p = request_body op p @ to_le 4 (crc32 (request_body op p))"

definition response_body :: "status \<Rightarrow> bytes \<Rightarrow> bytes" where
  "response_body s p = [0x5A, 1, word_of_int (status_code s)] @ to_le 2 (int (length p)) @ p"

definition response_bytes :: "status \<Rightarrow> bytes \<Rightarrow> bytes" where
  "response_bytes s p = response_body s p @ to_le 4 (crc32 (response_body s p))"

lemma fits_codes [simp]: "fits 8 (opcode_code op)" "fits 8 (status_code s)" "fits 8 (profile_code p)"
proof -
  show "fits 8 (opcode_code op)" by (cases op) (simp_all add: fits_def)
  show "fits 8 (status_code s)" by (cases s) (simp_all add: fits_def)
  show "fits 8 (profile_code p)" by (cases p) (simp_all add: fits_def)
qed

lemma length_bodies [simp, wire_simps]:
  "length (request_body op p) = 6 + length p" "length (request_bytes op p) = 10 + length p"
  "length (response_body s p) = 5 + length p" "length (response_bytes s p) = 9 + length p"
  by (simp_all add: request_body_def request_bytes_def response_body_def response_bytes_def)

lemma encode_request_eq:
  "length p < 2 ^ 16 \<Longrightarrow> encode_request (RequestFrame op p) = Inr (request_bytes op p)"
  by (simp add: encode_request_def RequestFrame_def prim_fits request_bytes_def request_body_def
      wire_constants) (simp add: fits_def)

lemma encode_response_eq:
  "length p < 2 ^ 16 \<Longrightarrow> encode_response (ResponseFrame s p) = Inr (response_bytes s p)"
  by (simp add: encode_response_def ResponseFrame_def prim_fits response_bytes_def response_body_def
      wire_constants) (simp add: fits_def)

lemma encode_request_length: "encode_request (RequestFrame op p) = Inr bs \<Longrightarrow> length bs = length p + 10"
  by (auto simp: encode_request_def RequestFrame_def prim_fits bindE_eq_Inr split: if_splits)

section \<open>Encoding and decoding a response are inverse\<close>

lemma decode_response_bytes:
  assumes "length p < 2 ^ 16"
  shows "decode_response (response_bytes s p) = Inr (ResponseFrame s p)"
proof -
  have len: "le_int (to_le 2 (int (length p))) = int (length p)"
    using assms by (simp add: fits_def)
  have "pyslice 3 5 (response_bytes s p) = to_le 2 (int (length p))"
    by (simp add: pyslice_def response_bytes_def response_body_def)
  moreover have "take (5 + length p) (response_bytes s p) = response_body s p"
    by (simp add: response_bytes_def)
  moreover have "drop (5 + length p) (response_bytes s p) = to_le 4 (crc32 (response_body s p))"
    by (simp add: response_bytes_def)
  moreover have "response_bytes s p ! 0 = 0x5A" "response_bytes s p ! 1 = 1"
    "response_bytes s p ! 2 = word_of_int (status_code s)"
    by (simp_all add: response_bytes_def response_body_def)
  moreover have "drop 5 (response_body s p) = p" by (simp add: response_body_def)
  moreover have "status_code s mod 256 = status_code s"
    using fits_codes(2) [of s] by (simp add: fits_def)
  ultimately show ?thesis by (simp add: decode_response_def wire_constants len Let_def)
qed

lemma decode_response_Inr:
  assumes "decode_response bs = Inr f"
  shows "\<exists>s p. f = ResponseFrame s p \<and> length p < 2 ^ 16 \<and> bs = response_bytes s p"
proof -
  define n where "n = nat (le_int (pyslice 3 5 bs))"
  from assms obtain s where len9: "9 \<le> length bs" and b0: "uint (bs ! 0) = 0x5A" and b1: "uint (bs ! 1) = 1"
    and len: "int (length bs) = 9 + le_int (pyslice 3 5 bs)"
    and crc: "le_int (drop (length bs - 4) bs) = crc32 (take (5 + n) bs)"
    and st: "status_of (uint (bs ! 2)) = Some s"
    and f: "f = ResponseFrame s (drop 5 (take (5 + n) bs))"
    by (auto simp: decode_response_def wire_constants Let_def n_def split: if_splits option.splits)
  have n: "length bs = 9 + n"
    using len le_int_nonneg [of "pyslice 3 5 bs"] unfolding n_def by linarith
  have fits: "fits 16 (le_int (pyslice 3 5 bs))" using len9 by (intro fits_le_int) simp
  then have n16: "n < 2 ^ 16" by (simp add: n_def fits_def)
  define p where "p = drop 5 (take (5 + n) bs)"
  have lp: "length p = n" using n by (simp add: p_def)
  have "p @ drop (5 + n) bs = drop 5 bs"
    using append_take_drop_id [of n "drop 5 bs"] by (simp add: p_def drop_take add.commute)
  then have "bs = [bs ! 0, bs ! 1, bs ! 2] @ pyslice 3 5 bs @ p @ drop (5 + n) bs"
    using split_header_5 [of bs] len9 by simp
  moreover have "bs ! 0 = 0x5A" "bs ! 1 = 1" "bs ! 2 = word_of_int (status_code s)"
    using b0 b1 status_of_Some [OF st, symmetric] by (auto intro: word_uint_eqI)
  moreover have "pyslice 3 5 bs = to_le 2 (int (length p))"
    using len9 lp fits to_le_le_int_len [of "pyslice 3 5 bs" 2] by (simp add: n_def)
  ultimately have split: "bs = response_body s p @ drop (5 + n) bs"
    by (simp add: response_body_def)
  have "take (5 + n) bs = response_body s p"
    using arg_cong [OF split, of "take (5 + n)"] lp by simp
  then have "drop (5 + n) bs = to_le 4 (crc32 (response_body s p))"
    using crc n to_le_le_int_len [of "drop (5 + n) bs" 4] by simp
  with split have "bs = response_bytes s p" by (simp add: response_bytes_def)
  moreover have "f = ResponseFrame s p" using f by (simp only: p_def)
  ultimately show ?thesis using lp n16 by (intro exI [of _ s] exI [of _ p]) simp
qed

text \<open>
  C4. The host's response decoder and the endpoint's response encoder are exact inverses: a
  byte string decodes to a frame if and only if it is the encoding of that frame, whose
  envelope is then version 1 with a payload of less than 64 KiB. In particular no byte string
  that is not the encoding of a response is accepted, and none has two readings.
\<close>

theorem decode_response_iff_encode:
  "decode_response bs = Inr f \<longleftrightarrow>
     f = ResponseFrame (rs_status f) (rs_payload f) \<and> length (rs_payload f) < 2 ^ 16 \<and>
     encode_response f = Inr bs"
proof
  assume "decode_response bs = Inr f"
  from decode_response_Inr [OF this] encode_response_eq
  show "f = ResponseFrame (rs_status f) (rs_payload f) \<and> length (rs_payload f) < 2 ^ 16 \<and> encode_response f = Inr bs"
    by (auto simp: ResponseFrame_def)
next
  assume r: "f = ResponseFrame (rs_status f) (rs_payload f) \<and> length (rs_payload f) < 2 ^ 16 \<and> encode_response f = Inr bs"
  then have "encode_response f = Inr (response_bytes (rs_status f) (rs_payload f))"
    using encode_response_eq by metis
  with r have "bs = response_bytes (rs_status f) (rs_payload f)" by simp
  with r decode_response_bytes show "decode_response bs = Inr f" by metis
qed

end
