(* ===== verification/Lsc_Request.thy ===== *)
theory Lsc_Request
  imports Lsc_Codec
begin

text \<open>
  The request payloads of \<open>sim/lsc1_transaction.py\<close>: the host-side builders
  (lines 381-506), the decoded request and the endpoint's payload decoder (lines 869-980).
  A locale states what a wire field is (its reader accepts exactly what its writer lays out)
  and is interpreted on the four fields the payloads use; on it rests the theorem that the
  decoder accepts exactly the payloads the builders produce.
\<close>

section \<open>What a payload field promises\<close>

locale wire_field =
  fixes rd :: "reader \<Rightarrow> ('a \<times> reader) res" and put :: "'a \<Rightarrow> bytes res"
    and enc :: "'a \<Rightarrow> bytes" and ok :: "'a \<Rightarrow> bool"
  assumes read_iff:
      "rd (reader_at pre post) = Inr (v, r') \<longleftrightarrow>
         ok v \<and> (\<exists>post'. post = enc v @ post' \<and> r' = reader_at (pre @ enc v) post')"
    and read_raises: "rd r = Inl e \<Longrightarrow> wire_fault e"
    and put_ok: "ok v \<Longrightarrow> put v = Inr (enc v)"
begin

lemma read_enc: "ok v \<Longrightarrow> rd (reader_at pre (enc v @ post)) = Inr (v, reader_at (pre @ enc v) post)"
  by (simp add: read_iff)

lemma bind_iff:
  "bindE (rd (reader_at pre post)) f = Inr y \<longleftrightarrow>
     (\<exists>v post'. ok v \<and> post = enc v @ post' \<and> f (v, reader_at (pre @ enc v) post') = Inr y)"
  by (auto simp: bindE_eq_Inr read_iff)

lemma many_iff:
  "rd_many n rd (reader_at pre post) = Inr (vs, r') \<longleftrightarrow>
     length vs = n \<and> (\<forall>v\<in>set vs. ok v) \<and>
     (\<exists>post'. post = concat (map enc vs) @ post' \<and> r' = reader_at (pre @ concat (map enc vs)) post')"
proof (induction n arbitrary: pre post vs)
  case 0
  then show ?case by auto
next
  case (Suc n)
  show ?case
  proof (cases vs)
    case Nil
    then show ?thesis by (auto simp: bindE_eq_Inr)
  next
    case (Cons w ws)
    then show ?thesis by (auto simp: bind_iff bindE_eq_Inr [of "rd_many _ _ _"] Suc.IH)
  qed
qed

lemma many_enc:
  "length vs = n \<Longrightarrow> \<forall>v\<in>set vs. ok v \<Longrightarrow>
     rd_many n rd (reader_at pre (concat (map enc vs) @ post)) = Inr (vs, reader_at (pre @ concat (map enc vs)) post)"
  by (simp add: many_iff)

lemmas encs = read_enc read_enc [where post = "[]", simplified] many_enc many_enc [where post = "[]", simplified]

lemma bind_many_iff:
  "bindE (rd_many n rd (reader_at pre post)) f = Inr y \<longleftrightarrow>
     (\<exists>vs post'. length vs = n \<and> (\<forall>v\<in>set vs. ok v) \<and> post = concat (map enc vs) @ post' \<and>
        f (vs, reader_at (pre @ concat (map enc vs)) post') = Inr y)"
  by (auto simp: bindE_eq_Inr many_iff)

lemma many_raises: "rd_many n rd r = Inl e \<Longrightarrow> wire_fault e"
  by (rule rd_many_raises [of rd n r e]) (rule read_raises)

lemma put_many: "\<forall>v\<in>set vs. ok v \<Longrightarrow> catE (map put vs) = Inr (concat (map enc vs))"
  by (induction vs) (simp_all add: put_ok)

end

lemma rd_take_at_iff:
  "rd_take n (reader_at pre post) = Inr (bs, r') \<longleftrightarrow>
     length bs = n \<and> (\<exists>post'. post = bs @ post' \<and> r' = reader_at (pre @ bs) post')"
  by (auto simp: rd_take_at intro!: exI [of _ "drop n post"])

lemma le_int_iff: "length bs = n \<Longrightarrow> le_int bs = v \<longleftrightarrow> fits (8 * n) v \<and> bs = to_le n v"
  using le_int_to_le_fits [of n v] to_le_le_int_len [of bs n] fits_le_int [of bs "8 * n"] by auto

lemma rd_int_at_iff:
  assumes "\<And>r. rd r = bindE (rd_take n r) (\<lambda>(bs, r). Inr (le_int bs, r))"
  shows "rd (reader_at pre post) = Inr (v, r') \<longleftrightarrow>
    fits (8 * n) v \<and> (\<exists>post'. post = to_le n v @ post' \<and> r' = reader_at (pre @ to_le n v) post')"
proof
  assume "rd (reader_at pre post) = Inr (v, r')"
  then show "fits (8 * n) v \<and> (\<exists>post'. post = to_le n v @ post' \<and> r' = reader_at (pre @ to_le n v) post')"
    by (auto simp: assms bindE_eq_Inr rd_take_at_iff le_int_iff)
next
  assume "fits (8 * n) v \<and> (\<exists>post'. post = to_le n v @ post' \<and> r' = reader_at (pre @ to_le n v) post')"
  then show "rd (reader_at pre post) = Inr (v, r')"
    by (auto simp: assms le_int_to_le_fits)
qed

lemma rd_u8_take: "rd_u8 r = bindE (rd_take 1 r) (\<lambda>(bs, r). Inr (le_int bs, r))"
  by (rule sum.exhaust [of "rd_take 1 r"])
    (auto simp: rd_u8_def length_Suc_conv dest!: rd_take_length)

interpretation wf8: wire_field rd_u8 u8 "to_le 1" "fits 8"
  using rd_int_at_iff [OF rd_u8_take]
  by unfold_locales (simp_all add: reader_raises prim_fits)

interpretation wf32: wire_field rd_u32 u32le "to_le 4" "fits 32"
  using rd_int_at_iff [OF rd_u32_def]
  by unfold_locales (simp_all add: reader_raises prim_fits)

interpretation wf128: wire_field rd_f128 f128le "to_le 16" "fits 128"
  using rd_int_at_iff [OF rd_f128_def]
  by unfold_locales (simp_all add: reader_raises prim_fits)

lemma rd_cell_at_iff:
  "rd_cell (reader_at pre post) = Inr (c, r') \<longleftrightarrow>
     cell_ok c \<and> (\<exists>post'. post = cell_bytes c @ post' \<and> r' = reader_at (pre @ cell_bytes c) post')"
proof
  assume "rd_cell (reader_at pre post) = Inr (c, r')"
  then obtain p v r1 where p: "rd_u8 (reader_at pre post) = Inr (p, r1)"
    and v: "rd_f128 r1 = Inr (v, r')" and p1: "p \<le> 1" and z: "p = 0 \<longrightarrow> v = 0"
    and c: "c = Cell (p \<noteq> 0) v"
    by (auto simp: rd_cell_def bindE_eq_Inr split: if_splits)
  have "p = (if p \<noteq> 0 then 1 else 0)" using p p1 by (auto simp: wf8.read_iff fits_def)
  with p v z c show "cell_ok c \<and> (\<exists>post'. post = cell_bytes c @ post' \<and> r' = reader_at (pre @ cell_bytes c) post')"
    by (auto simp: wf8.read_iff wf128.read_iff cell_bytes_def cell_ok_def)
next
  assume "cell_ok c \<and> (\<exists>post'. post = cell_bytes c @ post' \<and> r' = reader_at (pre @ cell_bytes c) post')"
  then show "rd_cell (reader_at pre post) = Inr (c, r')" by auto
qed

interpretation wfcell: wire_field rd_cell encode_cell cell_bytes cell_ok
  by unfold_locales (simp_all add: rd_cell_at_iff reader_raises encode_cell_eq cell_ok_def)

lemmas read_iffs =
  wf8.read_iff wf32.read_iff wf128.read_iff wfcell.read_iff wf32.many_iff wfcell.many_iff

lemmas read_encs = wf8.encs wf32.encs wf128.encs wfcell.encs

lemmas read_binds =
  wf8.bind_iff wf32.bind_iff wf128.bind_iff wfcell.bind_iff wf32.bind_many_iff wfcell.bind_many_iff

section \<open>The builders\<close>

definition transaction_preamble :: "int \<Rightarrow> int \<Rightarrow> int \<Rightarrow> profile \<Rightarrow> bytes res" where
  "transaction_preamble txn_id pc fp prof =
     catE [u32le txn_id, u32le pc, u32le fp, u8 (profile_code prof), u8 0]"

definition build_frame :: "opcode \<Rightarrow> bytes res \<Rightarrow> request_frame res" where
  "build_frame op payload = bindE payload (\<lambda>p. Inr (RequestFrame op p))"

definition build_binary_op ::
  "opcode \<Rightarrow> int \<Rightarrow> int \<Rightarrow> int \<Rightarrow> profile \<Rightarrow> int list \<Rightarrow> cell list \<Rightarrow> cell \<Rightarrow> request_frame res" where
  "build_binary_op op txn_id pc fp prof offsets cells proposed_inverse =
     build_frame op (catE
       ([transaction_preamble txn_id pc fp prof] @ map u32le offsets @ map encode_cell cells
        @ (if op = OP_MUL_NATIVE then [encode_cell proposed_inverse] else [])))"

definition build_set_constant ::
  "int \<Rightarrow> int \<Rightarrow> int \<Rightarrow> profile \<Rightarrow> int \<Rightarrow> int \<Rightarrow> cell \<Rightarrow> request_frame res" where
  "build_set_constant txn_id pc fp prof offset constant c =
     build_frame OP_SET_CONSTANT (catE
       [transaction_preamble txn_id pc fp prof, u32le offset, f128le constant, encode_cell c])"

definition build_deref ::
  "opcode \<Rightarrow> int \<Rightarrow> int \<Rightarrow> int \<Rightarrow> profile \<Rightarrow> int \<Rightarrow> int \<Rightarrow> int \<Rightarrow> cell \<Rightarrow> int \<Rightarrow> cell \<Rightarrow> cell
    \<Rightarrow> request_frame res" where
  "build_deref op txn_id pc fp prof alpha beta gamma pointer base target local =
     build_frame op (catE
       [transaction_preamble txn_id pc fp prof, u32le alpha, u32le beta, u32le gamma,
        encode_cell pointer, u32le base, encode_cell target, encode_cell local])"

definition build_jump ::
  "int \<Rightarrow> int \<Rightarrow> int \<Rightarrow> profile \<Rightarrow> int list \<Rightarrow> cell list \<Rightarrow> bool \<Rightarrow> int \<Rightarrow> int \<Rightarrow> cell
    \<Rightarrow> request_frame res" where
  "build_jump txn_id pc fp prof offsets cells taken dest_pc dest_fp proposed_inverse =
     build_frame OP_JUMP (catE
       ([transaction_preamble txn_id pc fp prof] @ map u32le offsets @ map encode_cell cells
        @ [u8 (if taken then 1 else 0), u32le dest_pc, u32le dest_fp, encode_cell proposed_inverse]))"

definition build_blake3 ::
  "int \<Rightarrow> int \<Rightarrow> int \<Rightarrow> profile \<Rightarrow> int list \<Rightarrow> int \<Rightarrow> int \<Rightarrow> int \<Rightarrow> cell list \<Rightarrow> cell list
    \<Rightarrow> cell list \<Rightarrow> request_frame res" where
  "build_blake3 txn_id pc fp prof message_offsets cv_offset out_offset metadata
      message_cells cv_cells out_cells =
     build_frame OP_BLAKE3_REQUEST (catE
       ([transaction_preamble txn_id pc fp prof] @ map u32le message_offsets
        @ [u32le cv_offset, u32le out_offset, f128le metadata]
        @ map encode_cell message_cells @ map encode_cell cv_cells @ map encode_cell out_cells))"

definition build_negotiate :: "int \<Rightarrow> int \<Rightarrow> profile \<Rightarrow> int \<Rightarrow> request_frame res" where
  "build_negotiate version_min version_max prof host_features =
     build_frame OP_NEGOTIATE (catE
       [u8 version_min, u8 version_max, u8 (profile_code prof), u32le host_features])"

definition build_service_response ::
  "int \<Rightarrow> int \<Rightarrow> int \<times> int \<Rightarrow> service_kind \<Rightarrow> request_frame res" where
  "build_service_response txn_id service_id digest kind =
     build_frame OP_SERVICE_RESPONSE (catE
       [u32le txn_id, u32le service_id, u8 (service_kind_code kind), u8 0,
        f128le (fst digest), f128le (snd digest)])"

definition build_retire :: "int \<Rightarrow> int \<Rightarrow> request_frame res" where
  "build_retire txn_id result_crc = build_frame OP_RETIRE (catE [u32le txn_id, u32le result_crc])"

definition build_status_query :: "request_frame res" where
  "build_status_query = Inr (RequestFrame OP_STATUS_QUERY [])"

section \<open>The decoded request\<close>

record decoded_request =
  dq_opcode :: opcode
  dq_txn_id :: int
  dq_pc :: int
  dq_fp :: int
  dq_profile :: profile
  dq_offsets :: "int list"
  dq_cells :: "cell list"
  dq_constant :: int
  dq_base :: int
  dq_taken :: bool
  dq_dest_pc :: int
  dq_dest_fp :: int
  dq_proposed_inverse :: cell
  dq_message_offsets :: "int list"
  dq_cv_offset :: int
  dq_out_offset :: int
  dq_metadata :: int
  dq_service_id :: int
  dq_service_kind :: int
  dq_digest :: "int \<times> int"
  dq_result_crc :: int
  dq_version_min :: int
  dq_version_max :: int
  dq_host_features :: int

definition DecodedRequest :: "opcode \<Rightarrow> decoded_request" where
  "DecodedRequest op =
     \<lparr>dq_opcode = op, dq_txn_id = 0, dq_pc = 0, dq_fp = 0, dq_profile = DEFAULT_PROFILE,
      dq_offsets = [], dq_cells = [], dq_constant = 0, dq_base = 0, dq_taken = False,
      dq_dest_pc = 0, dq_dest_fp = 0, dq_proposed_inverse = ABSENT, dq_message_offsets = [],
      dq_cv_offset = 0, dq_out_offset = 0, dq_metadata = 0, dq_service_id = 0,
      dq_service_kind = 0, dq_digest = (0, 0), dq_result_crc = 0, dq_version_min = 0,
      dq_version_max = 0, dq_host_features = 0\<rparr>"

text \<open>A profile byte other than the two codes is \<open>BAD_PROFILE\<close>.\<close>

definition read_preamble :: "reader \<Rightarrow> decoded_request \<Rightarrow> (decoded_request \<times> reader) res" where
  "read_preamble r d =
     bindE (rd_u32 r) (\<lambda>(txn_id, r).
     bindE (rd_u32 r) (\<lambda>(pc, r).
     bindE (rd_u32 r) (\<lambda>(fp, r).
     bindE (rd_u8 r) (\<lambda>(prof, r).
       case profile_of prof of
         None \<Rightarrow> Inl (fault BAD_PROFILE)
       | Some p \<Rightarrow>
           bindE (rd_u8 r) (\<lambda>(reserved, r).
             if reserved \<noteq> 0 then Inl (protocol_fault BAD_FLAGS 1)
             else Inr (d\<lparr>dq_txn_id := txn_id, dq_pc := pc, dq_fp := fp, dq_profile := p\<rparr>, r))))))"

text \<open>\<open>decode_request_payload\<close>, one definition per branch of its \<open>if\<close> chain.\<close>

definition decode_binary :: "opcode \<Rightarrow> reader \<Rightarrow> decoded_request \<Rightarrow> (decoded_request \<times> reader) res" where
  "decode_binary op r d =
     bindE (read_preamble r d) (\<lambda>(d, r).
     bindE (rd_many 3 rd_u32 r) (\<lambda>(offsets, r).
     bindE (rd_many 3 rd_cell r) (\<lambda>(cells, r).
       let d = d\<lparr>dq_offsets := offsets, dq_cells := cells\<rparr>
       in if op = OP_MUL_NATIVE
          then bindE (rd_cell r) (\<lambda>(inverse, r). Inr (d\<lparr>dq_proposed_inverse := inverse\<rparr>, r))
          else Inr (d, r))))"

definition decode_set :: "reader \<Rightarrow> decoded_request \<Rightarrow> (decoded_request \<times> reader) res" where
  "decode_set r d =
     bindE (read_preamble r d) (\<lambda>(d, r).
     bindE (rd_u32 r) (\<lambda>(offset, r).
     bindE (rd_f128 r) (\<lambda>(constant, r).
     bindE (rd_cell r) (\<lambda>(c, r).
       Inr (d\<lparr>dq_offsets := [offset], dq_constant := constant, dq_cells := [c]\<rparr>, r)))))"

definition decode_deref :: "reader \<Rightarrow> decoded_request \<Rightarrow> (decoded_request \<times> reader) res" where
  "decode_deref r d =
     bindE (read_preamble r d) (\<lambda>(d, r).
     bindE (rd_many 3 rd_u32 r) (\<lambda>(offsets, r).
     bindE (rd_cell r) (\<lambda>(pointer, r).
     bindE (rd_u32 r) (\<lambda>(base, r).
     bindE (rd_cell r) (\<lambda>(target, r).
     bindE (rd_cell r) (\<lambda>(local, r).
       Inr (d\<lparr>dq_offsets := offsets, dq_base := base, dq_cells := [pointer, target, local]\<rparr>, r)))))))"

definition decode_jump :: "reader \<Rightarrow> decoded_request \<Rightarrow> (decoded_request \<times> reader) res" where
  "decode_jump r d =
     bindE (read_preamble r d) (\<lambda>(d, r).
     bindE (rd_many 3 rd_u32 r) (\<lambda>(offsets, r).
     bindE (rd_many 3 rd_cell r) (\<lambda>(cells, r).
     bindE (rd_u8 r) (\<lambda>(taken, r).
       if taken > 1 then Inl (protocol_fault BAD_BRANCH_PROPOSAL 3)
       else
         bindE (rd_u32 r) (\<lambda>(dest_pc, r).
         bindE (rd_u32 r) (\<lambda>(dest_fp, r).
         bindE (rd_cell r) (\<lambda>(inverse, r).
           Inr (d\<lparr>dq_offsets := offsets, dq_cells := cells, dq_taken := (taken \<noteq> 0),
                  dq_dest_pc := dest_pc, dq_dest_fp := dest_fp,
                  dq_proposed_inverse := inverse\<rparr>, r))))))))"

definition decode_blake3 :: "reader \<Rightarrow> decoded_request \<Rightarrow> (decoded_request \<times> reader) res" where
  "decode_blake3 r d =
     bindE (read_preamble r d) (\<lambda>(d, r).
     bindE (rd_many 4 rd_u32 r) (\<lambda>(offsets, r).
     bindE (rd_u32 r) (\<lambda>(cv_offset, r).
     bindE (rd_u32 r) (\<lambda>(out_offset, r).
     bindE (rd_f128 r) (\<lambda>(metadata, r).
     bindE (rd_many 8 rd_cell r) (\<lambda>(cells, r).
       Inr (d\<lparr>dq_message_offsets := offsets, dq_cv_offset := cv_offset,
              dq_out_offset := out_offset, dq_metadata := metadata, dq_cells := cells\<rparr>, r)))))))"

definition decode_negotiate :: "reader \<Rightarrow> decoded_request \<Rightarrow> (decoded_request \<times> reader) res" where
  "decode_negotiate r d =
     bindE (rd_u8 r) (\<lambda>(version_min, r).
     bindE (rd_u8 r) (\<lambda>(version_max, r).
     bindE (rd_u8 r) (\<lambda>(prof, r).
       case profile_of prof of
         None \<Rightarrow> Inl (fault BAD_PROFILE)
       | Some p \<Rightarrow>
           bindE (rd_u32 r) (\<lambda>(host_features, r).
             Inr (d\<lparr>dq_profile := p, dq_version_min := version_min, dq_version_max := version_max,
                    dq_host_features := host_features\<rparr>, r)))))"

definition decode_service_response :: "reader \<Rightarrow> decoded_request \<Rightarrow> (decoded_request \<times> reader) res" where
  "decode_service_response r d =
     bindE (rd_u32 r) (\<lambda>(txn_id, r).
     bindE (rd_u32 r) (\<lambda>(service_id, r).
     bindE (rd_u8 r) (\<lambda>(kind, r).
     bindE (rd_u8 r) (\<lambda>(reserved, r).
       if reserved \<noteq> 0 then Inl (protocol_fault BAD_FLAGS 2)
       else
         bindE (rd_f128 r) (\<lambda>(digest0, r).
         bindE (rd_f128 r) (\<lambda>(digest1, r).
           Inr (d\<lparr>dq_txn_id := txn_id, dq_service_id := service_id, dq_service_kind := kind,
                  dq_digest := (digest0, digest1)\<rparr>, r)))))))"

definition decode_retire :: "reader \<Rightarrow> decoded_request \<Rightarrow> (decoded_request \<times> reader) res" where
  "decode_retire r d =
     bindE (rd_u32 r) (\<lambda>(txn_id, r).
     bindE (rd_u32 r) (\<lambda>(result_crc, r).
       Inr (d\<lparr>dq_txn_id := txn_id, dq_result_crc := result_crc\<rparr>, r)))"

definition decode_request_payload :: "opcode \<Rightarrow> bytes \<Rightarrow> decoded_request res" where
  "decode_request_payload op payload =
     (let r = Reader payload; d = DecodedRequest op in
      bindE
        (if op = OP_XOR \<or> op = OP_MUL_NATIVE then decode_binary op r d
         else if op = OP_SET_CONSTANT then decode_set r d
         else if op = OP_DEREF_CELL \<or> op = OP_DEREF_PC \<or> op = OP_DEREF_FP then decode_deref r d
         else if op = OP_JUMP then decode_jump r d
         else if op = OP_BLAKE3_REQUEST then decode_blake3 r d
         else if op = OP_NEGOTIATE then decode_negotiate r d
         else if op = OP_SERVICE_RESPONSE then decode_service_response r d
         else if op = OP_RETIRE then decode_retire r d
         else if op = OP_STATUS_QUERY then Inr (d, r)
         else Inl (fault BAD_OPCODE))
        (\<lambda>(d, r). bindE (rd_done r) (\<lambda>_. Inr d)))"

definition available_txn_id :: "opcode \<Rightarrow> bytes \<Rightarrow> int" where
  "available_txn_id op payload =
     (if op = OP_NEGOTIATE \<or> op = OP_STATUS_QUERY then 0 else le_int (take 4 payload))"

section \<open>The decoder accepts exactly what the builders lay out\<close>

text \<open>The builder call that produces a decoded request.\<close>

definition rebuild :: "decoded_request \<Rightarrow> request_frame res" where
  "rebuild d = (case dq_opcode d of
       OP_SET_CONSTANT \<Rightarrow> build_set_constant (dq_txn_id d) (dq_pc d) (dq_fp d) (dq_profile d)
         (dq_offsets d ! 0) (dq_constant d) (dq_cells d ! 0)
     | OP_JUMP \<Rightarrow> build_jump (dq_txn_id d) (dq_pc d) (dq_fp d) (dq_profile d) (dq_offsets d)
         (dq_cells d) (dq_taken d) (dq_dest_pc d) (dq_dest_fp d) (dq_proposed_inverse d)
     | OP_BLAKE3_REQUEST \<Rightarrow> build_blake3 (dq_txn_id d) (dq_pc d) (dq_fp d) (dq_profile d)
         (dq_message_offsets d) (dq_cv_offset d) (dq_out_offset d) (dq_metadata d)
         (take 4 (dq_cells d)) (pyslice 4 6 (dq_cells d)) (drop 6 (dq_cells d))
     | OP_NEGOTIATE \<Rightarrow> build_negotiate (dq_version_min d) (dq_version_max d) (dq_profile d)
         (dq_host_features d)
     | OP_SERVICE_RESPONSE \<Rightarrow> build_frame OP_SERVICE_RESPONSE (catE
         [u32le (dq_txn_id d), u32le (dq_service_id d), u8 (dq_service_kind d), u8 0,
          f128le (fst (dq_digest d)), f128le (snd (dq_digest d))])
     | OP_RETIRE \<Rightarrow> build_retire (dq_txn_id d) (dq_result_crc d)
     | OP_STATUS_QUERY \<Rightarrow> build_status_query
     | op \<Rightarrow> (if op = OP_XOR \<or> op = OP_MUL_NATIVE
         then build_binary_op op (dq_txn_id d) (dq_pc d) (dq_fp d) (dq_profile d) (dq_offsets d)
           (dq_cells d) (dq_proposed_inverse d)
         else build_deref op (dq_txn_id d) (dq_pc d) (dq_fp d) (dq_profile d)
           (dq_offsets d ! 0) (dq_offsets d ! 1) (dq_offsets d ! 2) (dq_cells d ! 0) (dq_base d)
           (dq_cells d ! 1) (dq_cells d ! 2)))"

definition preamble_bytes :: "decoded_request \<Rightarrow> bytes" where
  "preamble_bytes d = to_le 4 (dq_txn_id d) @ to_le 4 (dq_pc d) @ to_le 4 (dq_fp d)
     @ to_le 1 (profile_code (dq_profile d)) @ to_le 1 0"

definition preamble_ok :: "decoded_request \<Rightarrow> bool" where
  "preamble_ok d \<longleftrightarrow> fits 32 (dq_txn_id d) \<and> fits 32 (dq_pc d) \<and> fits 32 (dq_fp d)"

abbreviation u32s :: "int list \<Rightarrow> bytes" where
  "u32s vs \<equiv> concat (map (to_le 4) vs)"

abbreviation cells_bytes :: "cell list \<Rightarrow> bytes" where
  "cells_bytes cs \<equiv> concat (map cell_bytes cs)"

text \<open>The layout of each payload, and what the fields of a decoded request satisfy.\<close>

definition payload_of :: "decoded_request \<Rightarrow> bytes" where
  "payload_of d = (case dq_opcode d of
       OP_SET_CONSTANT \<Rightarrow> preamble_bytes d @ to_le 4 (dq_offsets d ! 0) @ to_le 16 (dq_constant d)
         @ cell_bytes (dq_cells d ! 0)
     | OP_JUMP \<Rightarrow> preamble_bytes d @ u32s (dq_offsets d) @ cells_bytes (dq_cells d)
         @ to_le 1 (if dq_taken d then 1 else 0) @ to_le 4 (dq_dest_pc d) @ to_le 4 (dq_dest_fp d)
         @ cell_bytes (dq_proposed_inverse d)
     | OP_BLAKE3_REQUEST \<Rightarrow> preamble_bytes d @ u32s (dq_message_offsets d) @ to_le 4 (dq_cv_offset d)
         @ to_le 4 (dq_out_offset d) @ to_le 16 (dq_metadata d) @ cells_bytes (dq_cells d)
     | OP_NEGOTIATE \<Rightarrow> to_le 1 (dq_version_min d) @ to_le 1 (dq_version_max d)
         @ to_le 1 (profile_code (dq_profile d)) @ to_le 4 (dq_host_features d)
     | OP_SERVICE_RESPONSE \<Rightarrow> to_le 4 (dq_txn_id d) @ to_le 4 (dq_service_id d)
         @ to_le 1 (dq_service_kind d) @ to_le 1 0
         @ to_le 16 (fst (dq_digest d)) @ to_le 16 (snd (dq_digest d))
     | OP_RETIRE \<Rightarrow> to_le 4 (dq_txn_id d) @ to_le 4 (dq_result_crc d)
     | OP_STATUS_QUERY \<Rightarrow> []
     | OP_XOR \<Rightarrow> preamble_bytes d @ u32s (dq_offsets d) @ cells_bytes (dq_cells d)
     | OP_MUL_NATIVE \<Rightarrow> preamble_bytes d @ u32s (dq_offsets d) @ cells_bytes (dq_cells d)
         @ cell_bytes (dq_proposed_inverse d)
     | _ \<Rightarrow> preamble_bytes d @ u32s (dq_offsets d) @ cell_bytes (dq_cells d ! 0)
         @ to_le 4 (dq_base d) @ cell_bytes (dq_cells d ! 1) @ cell_bytes (dq_cells d ! 2))"

text \<open>The fields an opcode does not carry keep their defaults.\<close>

definition dq_defaults :: "decoded_request \<Rightarrow> bool" where
  "dq_defaults d = (let e = DecodedRequest (dq_opcode d);
       t = e\<lparr>dq_txn_id := dq_txn_id d, dq_pc := dq_pc d, dq_fp := dq_fp d, dq_profile := dq_profile d\<rparr>
     in d = (case dq_opcode d of
       OP_SET_CONSTANT \<Rightarrow> t\<lparr>dq_offsets := dq_offsets d, dq_constant := dq_constant d, dq_cells := dq_cells d\<rparr>
     | OP_JUMP \<Rightarrow> t\<lparr>dq_offsets := dq_offsets d, dq_cells := dq_cells d, dq_taken := dq_taken d,
         dq_dest_pc := dq_dest_pc d, dq_dest_fp := dq_dest_fp d,
         dq_proposed_inverse := dq_proposed_inverse d\<rparr>
     | OP_BLAKE3_REQUEST \<Rightarrow> t\<lparr>dq_message_offsets := dq_message_offsets d, dq_cv_offset := dq_cv_offset d,
         dq_out_offset := dq_out_offset d, dq_metadata := dq_metadata d, dq_cells := dq_cells d\<rparr>
     | OP_NEGOTIATE \<Rightarrow> e\<lparr>dq_profile := dq_profile d, dq_version_min := dq_version_min d,
         dq_version_max := dq_version_max d, dq_host_features := dq_host_features d\<rparr>
     | OP_SERVICE_RESPONSE \<Rightarrow> e\<lparr>dq_txn_id := dq_txn_id d, dq_service_id := dq_service_id d,
         dq_service_kind := dq_service_kind d, dq_digest := dq_digest d\<rparr>
     | OP_RETIRE \<Rightarrow> e\<lparr>dq_txn_id := dq_txn_id d, dq_result_crc := dq_result_crc d\<rparr>
     | OP_STATUS_QUERY \<Rightarrow> e
     | OP_XOR \<Rightarrow> t\<lparr>dq_offsets := dq_offsets d, dq_cells := dq_cells d\<rparr>
     | OP_MUL_NATIVE \<Rightarrow> t\<lparr>dq_offsets := dq_offsets d, dq_cells := dq_cells d,
         dq_proposed_inverse := dq_proposed_inverse d\<rparr>
     | _ \<Rightarrow> t\<lparr>dq_offsets := dq_offsets d, dq_base := dq_base d, dq_cells := dq_cells d\<rparr>))"

text \<open>What the decoder guarantees of the fields it returns.\<close>

definition dq_fields_ok :: "decoded_request \<Rightarrow> bool" where
  "dq_fields_ok d \<longleftrightarrow> fits 32 (dq_txn_id d) \<and> fits 32 (dq_pc d) \<and> fits 32 (dq_fp d)
     \<and> (\<forall>v\<in>set (dq_offsets d). fits 32 v) \<and> (\<forall>c\<in>set (dq_cells d). cell_ok c)
     \<and> fits 128 (dq_constant d) \<and> fits 32 (dq_base d) \<and> fits 32 (dq_dest_pc d)
     \<and> fits 32 (dq_dest_fp d) \<and> cell_ok (dq_proposed_inverse d)
     \<and> (\<forall>v\<in>set (dq_message_offsets d). fits 32 v) \<and> fits 32 (dq_cv_offset d)
     \<and> fits 32 (dq_out_offset d) \<and> fits 128 (dq_metadata d) \<and> fits 32 (dq_service_id d)
     \<and> fits 8 (dq_service_kind d) \<and> fits 128 (fst (dq_digest d)) \<and> fits 128 (snd (dq_digest d))
     \<and> fits 32 (dq_result_crc d) \<and> fits 8 (dq_version_min d) \<and> fits 8 (dq_version_max d)
     \<and> fits 32 (dq_host_features d)"

definition dq_lengths :: "decoded_request \<Rightarrow> bool" where
  "dq_lengths d = (case dq_opcode d of
       OP_SET_CONSTANT \<Rightarrow> length (dq_offsets d) = 1 \<and> length (dq_cells d) = 1
     | OP_BLAKE3_REQUEST \<Rightarrow> length (dq_message_offsets d) = 4 \<and> length (dq_cells d) = 8
     | op \<Rightarrow> (op \<in> set INSTRUCTION_OPCODES \<longrightarrow> length (dq_offsets d) = 3 \<and> length (dq_cells d) = 3))"

definition dq_wf :: "decoded_request \<Rightarrow> bool" where
  "dq_wf d \<longleftrightarrow> dq_defaults d \<and> dq_fields_ok d \<and> dq_lengths d"

lemma length_u32s [simp]: "length (u32s vs) = 4 * length vs"
  by (induction vs) simp_all

lemma length_cells_bytes [simp]: "length (cells_bytes cs) = 17 * length cs"
  by (induction cs) simp_all

lemma length_preamble_bytes [simp]: "length (preamble_bytes d) = 14"
  by (simp add: preamble_bytes_def)

lemma payload_of_length: "dq_lengths d \<Longrightarrow> length (payload_of d) = REQUEST_PAYLOAD_BYTES (dq_opcode d)"
  by (cases "dq_opcode d") (simp_all add: payload_of_def dq_lengths_def INSTRUCTION_OPCODES_def)

lemma read_preamble_iff:
  "read_preamble (reader_at pre post) d = Inr (d', r') \<longleftrightarrow>
     preamble_ok d' \<and> (\<exists>t pc fp prof. d' = d\<lparr>dq_txn_id := t, dq_pc := pc, dq_fp := fp, dq_profile := prof\<rparr>) \<and>
     (\<exists>post'. post = preamble_bytes d' @ post' \<and> r' = reader_at (pre @ preamble_bytes d') post')"
  (is "?L \<longleftrightarrow> ?R")
proof
  assume ?L
  then show ?R
    by (auto simp: read_preamble_def read_binds raise_case_iff profile_of_iff preamble_bytes_def preamble_ok_def)
next
  assume ?R
  then show ?L
    by (auto simp: read_preamble_def wf8.read_enc wf32.read_enc preamble_bytes_def preamble_ok_def)
qed

lemma preamble_bind_iff:
  "bindE (read_preamble (reader_at pre post) d) f = Inr y \<longleftrightarrow>
     (\<exists>d' post'. preamble_ok d' \<and> (\<exists>t pc fp prof. d' = d\<lparr>dq_txn_id := t, dq_pc := pc, dq_fp := fp, dq_profile := prof\<rparr>) \<and>
        post = preamble_bytes d' @ post' \<and> f (d', reader_at (pre @ preamble_bytes d') post') = Inr y)"
  unfolding bindE_eq_Inr split_paired_Ex read_preamble_iff by blast

lemmas decode_defs = decode_request_payload_def decode_binary_def decode_set_def decode_deref_def
  decode_jump_def decode_blake3_def decode_negotiate_def decode_service_response_def decode_retire_def

lemma decode_request_payload_Inr:
  assumes "decode_request_payload op p = Inr d"
  shows "dq_opcode d = op \<and> dq_wf d \<and> p = payload_of d"
  using assms
  by (cases op; simp add: decode_defs bindE_assoc preamble_bind_iff read_binds raise_case_iff
      profile_of_iff Let_def Reader_at case_prod_beta rd_done_at_iff bindE_eq_Inr [where m = "rd_done _"])
    (safe; simp add: dq_wf_def dq_defaults_def dq_fields_ok_def dq_lengths_def INSTRUCTION_OPCODES_def
      payload_of_def DecodedRequest_def preamble_ok_def preamble_bytes_def)+

lemma read_preamble_bytes [simp]:
  "preamble_ok e \<Longrightarrow> read_preamble (reader_at pre (preamble_bytes e @ post)) d =
     Inr (d\<lparr>dq_txn_id := dq_txn_id e, dq_pc := dq_pc e, dq_fp := dq_fp e, dq_profile := dq_profile e\<rparr>,
       reader_at (pre @ preamble_bytes e) post)"
  by (auto simp: read_preamble_iff preamble_bytes_def preamble_ok_def)

lemma decode_payload_of:
  assumes "dq_wf d"
  shows "decode_request_payload (dq_opcode d) (payload_of d) = Inr d"
proof -
  have def: "dq_defaults d" and ok: "dq_fields_ok d" and len: "dq_lengths d" using assms by (simp_all add: dq_wf_def)
  have p: "preamble_ok d" using ok by (simp add: dq_fields_ok_def preamble_ok_def)
  show ?thesis
    using ok len p def [unfolded dq_defaults_def Let_def, symmetric]
    by (cases "dq_opcode d"; cases "dq_taken d")
      (simp_all add: dq_fields_ok_def decode_defs Let_def payload_of_def dq_lengths_def
        INSTRUCTION_OPCODES_def Reader_at read_encs list_1 list_3)
qed


lemma transaction_preamble_eq:
  "preamble_ok d \<Longrightarrow> transaction_preamble (dq_txn_id d) (dq_pc d) (dq_fp d) (dq_profile d) = Inr (preamble_bytes d)"
  by (simp add: transaction_preamble_def preamble_ok_def preamble_bytes_def prim_fits)

lemma u32s_3: "length xs = 3 \<Longrightarrow> u32s xs = to_le 4 (xs!0) @ to_le 4 (xs ! Suc 0) @ to_le 4 (xs!2)"
  by (auto simp: numeral_eq_Suc length_Suc_conv)

lemma cells_bytes_8: "length xs = 8 \<Longrightarrow> cells_bytes (take 4 xs) @ cells_bytes (pyslice 4 6 xs) @ cells_bytes (drop 6 xs) = cells_bytes xs"
  by (auto simp: numeral_eq_Suc length_Suc_conv pyslice_def)

lemmas build_defs = build_frame_def build_binary_op_def build_set_constant_def build_deref_def
  build_jump_def build_blake3_def build_negotiate_def build_service_response_def build_retire_def
  build_status_query_def

lemma rebuild_payload:
  assumes "dq_wf d"
  shows "rebuild d = Inr (RequestFrame (dq_opcode d) (payload_of d))"
proof -
  have ok: "dq_fields_ok d" and len: "dq_lengths d" using assms by (simp_all add: dq_wf_def)
  have p: "preamble_ok d" using ok by (simp add: dq_fields_ok_def preamble_ok_def)
  have t: "x \<in> set (take 4 (dq_cells d)) \<Longrightarrow> cell_ok x" "x \<in> set (pyslice 4 6 (dq_cells d)) \<Longrightarrow> cell_ok x"
    "x \<in> set (drop 6 (dq_cells d)) \<Longrightarrow> cell_ok x" "x \<in> set (dq_cells d) \<Longrightarrow> cell_ok x" for x
    using ok by (auto simp: dq_fields_ok_def pyslice_def dest: in_set_takeD in_set_dropD)
  have n: "i < length (dq_cells d) \<Longrightarrow> cell_ok (dq_cells d ! i)" "i < length (dq_offsets d) \<Longrightarrow> fits 32 (dq_offsets d ! i)" for i
    using ok by (simp_all add: dq_fields_ok_def)
  show ?thesis
    using ok len
    by (cases "dq_opcode d")
      (simp_all add: dq_fields_ok_def dq_lengths_def INSTRUCTION_OPCODES_def rebuild_def build_defs
        transaction_preamble_eq [OF p] catE_append wf32.put_many wfcell.put_many t n wfcell.put_ok
        prim_fits payload_of_def u32s_3 cells_bytes_8)
qed

lemma read_preamble_raises: "read_preamble r d = Inl e \<Longrightarrow> wire_fault e"
  by (auto simp: read_preamble_def bindE_eq_Inl dest: reader_raises split: prod.splits if_splits option.splits)

lemma decode_raises: "decode_request_payload op p = Inl e \<Longrightarrow> wire_fault e"
  by (cases op)
    (auto simp: decode_defs bindE_eq_Inl Let_def
      dest: reader_raises read_preamble_raises wf32.many_raises wfcell.many_raises
      split: prod.splits if_splits option.splits)

text \<open>
  C3. The endpoint's payload decoder and the host's request builders are exact inverses, for
  every opcode: a payload decodes to a request if and only if the request is well-formed
  (each field in its wire range, an absent cell with the value zero, fields the opcode does
  not carry at their defaults) and the builder called on its fields produces that payload.
  So no two payloads decode to one request, and a malformed cell, profile, flag or length is
  never accepted.
\<close>

theorem decode_request_iff_build:
  "decode_request_payload op p = Inr d \<longleftrightarrow>
     dq_opcode d = op \<and> dq_wf d \<and> rebuild d = Inr (RequestFrame op p)"
proof
  assume "decode_request_payload op p = Inr d"
  from decode_request_payload_Inr [OF this]
  show "dq_opcode d = op \<and> dq_wf d \<and> rebuild d = Inr (RequestFrame op p)"
    by (auto simp: rebuild_payload)
next
  assume r: "dq_opcode d = op \<and> dq_wf d \<and> rebuild d = Inr (RequestFrame op p)"
  then have "p = payload_of d" by (auto simp: rebuild_payload RequestFrame_def)
  with r show "decode_request_payload op p = Inr d" using decode_payload_of by blast
qed

lemma decode_request_length:
  "decode_request_payload op p = Inr d \<Longrightarrow> length p = REQUEST_PAYLOAD_BYTES op"
  using decode_request_payload_Inr payload_of_length unfolding dq_wf_def by blast

end
