(* ===== verification/Gf128.thy ===== *)
theory Gf128
  imports Lsc_Wire
begin

text \<open>
  The field arithmetic of \<open>sim/lsc1_transaction.py\<close> and its algebra. The first part is
  the code: multiplication by the generator, the bit-serial product, the square-and-multiply
  pointer encoding and checked addition. The second part is the abstract structure the code
  implements: the type \<open>gf128\<close> of 128-bit polynomials with addition XOR and
  multiplication modulo \<open>x^128 + x^7 + x^2 + x + 1\<close>, shown to be a commutative ring, and
  the homomorphism between the two. Facts about the code are then ring algebra.
\<close>

section \<open>The code\<close>

definition field_xtime :: "int \<Rightarrow> int" where
  "field_xtime value =
     (let doubled = push_bit 1 value AND MASK128
      in if drop_bit 127 value \<noteq> 0 then doubled XOR REDUCTION_LOW else doubled)"

definition field_mul :: "int \<Rightarrow> int \<Rightarrow> int" where
  "field_mul left right =
     fst (fold (\<lambda>b (accumulator, term).
                  (if drop_bit b right AND 1 \<noteq> 0 then accumulator XOR term else accumulator,
                   field_xtime term))
            [0..<128] (0, left AND MASK128))"

definition field_encode :: "int \<Rightarrow> int res" where
  "field_encode index =
     (if index < 0 \<or> index \<ge> INDEX_LIMIT then Inl (fault INDEX_RANGE)
      else Inr (fold (\<lambda>b result.
                  let result = field_mul result result
                  in if drop_bit b index AND 1 \<noteq> 0 then field_xtime result else result)
            (rev [0..<INDEX_BITS]) 1))"

definition checked_add :: "int \<Rightarrow> int \<Rightarrow> int res" where
  "checked_add left right =
     (let total = left + right in if total > U32_MAX then Inl (fault U32_OVERFLOW) else Inr total)"

lemma checked_add_Inr: "checked_add a b = Inr c \<longleftrightarrow> c = a + b \<and> a + b < 2 ^ 32"
  by (auto simp: checked_add_def Let_def U32_MAX_def split: if_splits)

section \<open>The ring\<close>

typedef gf128 = "UNIV :: 128 word set"
  morphisms gf_rep Gf ..

setup_lifting type_definition_gf128

lemma gf_eqI: "(\<And>i. i < 128 \<Longrightarrow> bit (gf_rep a) i = bit (gf_rep b) i) \<Longrightarrow> a = b"
  by (rule gf_rep_inject [THEN iffD1], rule bit_word_eqI) simp

instantiation gf128 :: ab_group_add
begin

lift_definition zero_gf128 :: gf128 is 0 .
lift_definition plus_gf128 :: "gf128 \<Rightarrow> gf128 \<Rightarrow> gf128" is "(XOR)" .
lift_definition minus_gf128 :: "gf128 \<Rightarrow> gf128 \<Rightarrow> gf128" is "(XOR)" .
lift_definition uminus_gf128 :: "gf128 \<Rightarrow> gf128" is "\<lambda>a. a" .

instance
  by standard (transfer, simp add: ac_simps)+

end

lemma gf_double [simp]: "(a :: gf128) + a = 0"
  by transfer simp

lemma gf_minus: "(a :: gf128) - b = a + b"
  by transfer simp

lemma gf_add_left_cancel2 [simp]: "(a :: gf128) + (a + b) = b"
  by (simp flip: add.assoc)

lift_definition gbit :: "gf128 \<Rightarrow> nat \<Rightarrow> bool" is bit .

lemma gbit_simps [simp]:
  "gbit (a + b) i \<longleftrightarrow> gbit a i \<noteq> gbit b i"
  "\<not> gbit 0 i"
  by (transfer; simp add: bit_xor_iff)+

lemma gbit_eqI: "(\<And>i. i < 128 \<Longrightarrow> gbit a i = gbit b i) \<Longrightarrow> a = b"
  by (rule gf_eqI) (simp add: gbit.rep_eq)

lift_definition xt :: "gf128 \<Rightarrow> gf128" is
  "\<lambda>a. push_bit 1 a XOR (if bit a 127 then 0x87 else 0)" .

lemma xt_add: "xt (a + b) = xt a + xt b"
proof (transfer, goal_cases)
  case (1 a b)
  have e: "push_bit 1 (a XOR b) = push_bit 1 a XOR push_bit 1 b" by (rule push_bit_xor)
  show ?case unfolding e bit_xor_iff by (auto simp: ac_simps xor.left_commute)
qed

lemma xt_0 [simp]: "xt 0 = 0"
  by transfer simp

lemma xt_pow_add: "(xt ^^ n) (a + b) = (xt ^^ n) a + (xt ^^ n) b"
  by (induction n) (simp_all add: xt_add)

lemma xt_pow_0 [simp]: "(xt ^^ n) 0 = 0"
  by (induction n) simp_all

lemma xt_pow_sum: "(xt ^^ n) (sum f A) = (\<Sum>i\<in>A. (xt ^^ n) (f i))"
  by (induction A rule: infinite_finite_induct) (simp_all add: xt_pow_add)

instantiation gf128 :: "{one, times}"
begin

lift_definition one_gf128 :: gf128 is 1 .

definition times_gf128 :: "gf128 \<Rightarrow> gf128 \<Rightarrow> gf128" where
  "times_gf128 a b = (\<Sum>i<128. if gbit b i then (xt ^^ i) a else 0)"

instance ..

end

text \<open>The powers of the generator below \<open>x^128\<close> are the bits.\<close>

lemma xt_pow_1: "i < 128 \<Longrightarrow> (xt ^^ i) 1 = Gf (push_bit i 1)"
proof (induction i)
  case 0
  then show ?case by (simp add: one_gf128_def)
next
  case (Suc i)
  have nb: "\<not> bit (push_bit i 1 :: 128 word) 127"
    using Suc.prems by (simp add: bit_simps)
  have "(xt ^^ Suc i) 1 = xt (Gf (push_bit i 1))" using Suc by simp
  also have "\<dots> = Gf (push_bit 1 (push_bit i 1))"
    by (simp add: xt.abs_eq nb del: push_bit_push_bit push_bit_of_1)
  finally show ?case by (simp add: mult.commute)
qed

lemma gbit_xt_pow_1: "i < 128 \<Longrightarrow> gbit ((xt ^^ i) 1) j \<longleftrightarrow> j = i"
  by (simp add: xt_pow_1 gbit.abs_eq bit_simps) auto

lemma times_basis: "i < 128 \<Longrightarrow> a * (xt ^^ i) 1 = (xt ^^ i) a"
  by (simp add: times_gf128_def gbit_xt_pow_1 sum.delta cong: if_cong)

lemma gbit_sum: "finite A \<Longrightarrow> gbit (sum f A) j \<longleftrightarrow> odd (card {i \<in> A. gbit (f i) j})"
proof (induction A rule: finite_induct)
  case empty
  then show ?case by simp
next
  case (insert x A)
  have "{i \<in> insert x A. gbit (f i) j} = (if gbit (f x) j then insert x {i \<in> A. gbit (f i) j} else {i \<in> A. gbit (f i) j})"
    by auto
  with insert show ?case by simp
qed

lemma basis_expansion: "b = (\<Sum>i<128. if gbit b i then (xt ^^ i) 1 else 0)"
proof (rule gbit_eqI)
  fix j :: nat
  assume j: "j < 128"
  have "{i \<in> {..<128}. gbit (if gbit b i then (xt ^^ i) 1 else 0) j} = (if gbit b j then {j} else {})"
    using j by (auto simp: gbit_xt_pow_1 split: if_splits)
  then show "gbit b j = gbit (\<Sum>i<128. if gbit b i then (xt ^^ i) 1 else 0) j"
    by (simp add: gbit_sum)
qed

text \<open>Two additive functions that agree on the powers of the generator are equal.\<close>

lemma additive_sum:
  assumes add: "\<And>a b. f (a + b) = f a + (f b :: gf128)"
  shows "f (sum g A) = (\<Sum>i\<in>A. f (g i))"
proof -
  have "f 0 = f 0 + f 0" using add [of 0 0] by simp
  then have z: "f 0 = 0" by simp
  show ?thesis by (induction A rule: infinite_finite_induct) (simp_all add: z add)
qed

lemma additive_ext:
  assumes f: "\<And>a b. f (a + b) = f a + (f b :: gf128)" and g: "\<And>a b. g (a + b) = g a + (g b :: gf128)"
    and basis: "\<And>i. i < 128 \<Longrightarrow> f ((xt ^^ i) 1) = g ((xt ^^ i) 1)"
  shows "f b = g b"
proof -
  have z: "f 0 = 0" "g 0 = 0" using f [of 0 0] g [of 0 0] by simp_all
  have "f b = (\<Sum>i<128. f (if gbit b i then (xt ^^ i) 1 else 0))"
    using additive_sum [of f, OF f] basis_expansion [of b] by metis
  also have "\<dots> = (\<Sum>i<128. g (if gbit b i then (xt ^^ i) 1 else 0))"
    by (rule sum.cong) (simp_all add: basis z)
  also have "\<dots> = g b"
    using additive_sum [of g, OF g] basis_expansion [of b] by metis
  finally show ?thesis .
qed

lemma times_add_right: "a * (b + c) = a * b + a * (c :: gf128)"
  unfolding times_gf128_def
  by (subst sum.distrib [symmetric], rule sum.cong) auto

lemma times_add_left: "(a + b) * c = a * c + b * (c :: gf128)"
  unfolding times_gf128_def
  by (subst sum.distrib [symmetric], rule sum.cong) (auto simp: xt_pow_add)

lemma gf_one_times: "1 * a = (a :: gf128)"
  using basis_expansion [of a] by (simp add: times_gf128_def)

lemma gf_times_one: "a * 1 = (a :: gf128)"
  using times_basis [of 0 a] by simp

lemma xt_pow_128_1: "(xt ^^ 128) 1 = (xt ^^ 7) 1 + (xt ^^ 2) 1 + xt 1 + 1"
proof -
  have "(xt ^^ 128) 1 = xt ((xt ^^ 127) 1)"
    using funpow_simps_right(2) [of 127 xt] by (simp add: numeral_eq_Suc)
  also have "\<dots> = xt (Gf (push_bit 127 1))" by (simp add: xt_pow_1)
  also have "\<dots> = Gf 0x87" by (simp add: xt.abs_eq bit_simps Gf_inject)
  also have "\<dots> = Gf (push_bit 7 1) + Gf (push_bit 2 1) + Gf (push_bit 1 1) + Gf 1"
    by (simp add: plus_gf128.abs_eq)
  also have "\<dots> = (xt ^^ 7) 1 + (xt ^^ 2) 1 + (xt ^^ 1) 1 + (xt ^^ 0) 1"
    by (simp only: xt_pow_1) simp
  finally show ?thesis by simp
qed

lemma xt_pow_128: "(xt ^^ 128) a = (xt ^^ 7) a + (xt ^^ 2) a + xt a + a"
proof (rule additive_ext [of "xt ^^ 128" "\<lambda>a. (xt ^^ 7) a + (xt ^^ 2) a + xt a + a"])
  fix i :: nat
  have comm: "(xt ^^ m) ((xt ^^ i) 1) = (xt ^^ i) ((xt ^^ m) 1)" for m
    by (simp flip: funpow_add o_apply [of "xt ^^ _" "xt ^^ _"] add: add.commute)
  show "(xt ^^ 128) ((xt ^^ i) 1) = (xt ^^ 7) ((xt ^^ i) 1) + (xt ^^ 2) ((xt ^^ i) 1) + xt ((xt ^^ i) 1) + (xt ^^ i) 1"
    by (simp only: comm xt_pow_128_1 xt_pow_add funpow_swap1)
qed (simp_all add: xt_pow_add xt_add ac_simps)

lemma times_xt: "a * xt b = xt (a * b)"
proof (rule additive_ext [of "\<lambda>b. a * xt b" "\<lambda>b. xt (a * b)"])
  fix i :: nat
  assume i: "i < 128"
  show "a * xt ((xt ^^ i) 1) = xt (a * (xt ^^ i) 1)"
  proof (cases "i = 127")
    case True
    have "xt ((xt ^^ 127) 1) = (xt ^^ 7) 1 + (xt ^^ 2) 1 + (xt ^^ 1) 1 + (xt ^^ 0) (1 :: gf128)"
      using xt_pow_128_1 by (simp add: numeral_eq_Suc)
    moreover have "xt ((xt ^^ 127) a) = (xt ^^ 7) a + (xt ^^ 2) a + (xt ^^ 1) a + (xt ^^ 0) a"
      using xt_pow_128 [of a] by (simp add: numeral_eq_Suc)
    ultimately show ?thesis using True by (simp add: times_add_right times_basis gf_times_one times_basis [of 1 a, simplified])
  next
    case False
    then have "Suc i < 128" using i by simp
    then show ?thesis using times_basis [of "Suc i" a] times_basis [OF i, of a] by simp
  qed
qed (simp_all add: times_add_right xt_add)

lemma times_xt_pow: "a * (xt ^^ n) b = (xt ^^ n) (a * b)"
  by (induction n) (simp_all add: times_xt)

lemma gf_times_assoc: "(a * b) * c = a * (b * (c :: gf128))"
proof (rule additive_ext [of "\<lambda>c. (a * b) * c" "\<lambda>c. a * (b * c)"])
  fix i :: nat
  show "a * b * (xt ^^ i) 1 = a * (b * (xt ^^ i) 1)"
    by (simp add: times_xt_pow gf_times_one)
qed (simp_all add: times_add_right)

lemma gf_times_commute: "a * b = b * (a :: gf128)"
proof (rule additive_ext [of "\<lambda>b. a * b" "\<lambda>b. b * a"])
  fix i :: nat
  assume i: "i < 128"
  show "a * (xt ^^ i) 1 = (xt ^^ i) 1 * a"
  proof (rule additive_ext [of "\<lambda>a. a * (xt ^^ i) 1" "\<lambda>a. (xt ^^ i) 1 * a"])
    fix j :: nat
    have "(xt ^^ i) ((xt ^^ j) 1) = (xt ^^ j) ((xt ^^ i) (1 :: gf128))"
      by (simp flip: funpow_add o_apply [of "xt ^^ _" "xt ^^ _"] add: add.commute)
    then show "(xt ^^ j) 1 * (xt ^^ i) 1 = (xt ^^ i) 1 * ((xt ^^ j) 1 :: gf128)"
      by (simp add: times_xt_pow gf_times_one)
  qed (simp_all add: times_add_right times_add_left)
qed (simp_all add: times_add_right times_add_left)

instance gf128 :: comm_ring_1
proof
  fix a b c :: gf128
  show "(0 :: gf128) \<noteq> 1" by transfer simp
  show "a * b * c = a * (b * c)" by (rule gf_times_assoc)
  show "a * b = b * a" by (rule gf_times_commute)
  show "1 * a = a" by (rule gf_one_times)
  show "(a + b) * c = a * c + b * c" by (rule times_add_left)
qed

text \<open>The generator \<open>g = x\<close>.\<close>

definition gen :: gf128 where "gen = xt 1"

lemma xt_eq_gen: "xt a = gen * a"
  using times_xt [of a 1] by (simp add: gen_def mult.commute)

lemma xt_pow_gen: "(xt ^^ n) a = gen ^ n * a"
  by (induction n) (simp_all add: xt_eq_gen mult.assoc)

section \<open>The code computes in the ring\<close>

definition of_gf :: "gf128 \<Rightarrow> int" where
  "of_gf a = uint (gf_rep a)"

definition to_gf :: "int \<Rightarrow> gf128" where
  "to_gf v = Gf (word_of_int v)"

lemma to_of_gf [simp]: "to_gf (of_gf a) = a"
  by (simp add: to_gf_def of_gf_def gf_rep_inverse)

lemma of_to_gf: "of_gf (to_gf v) = take_bit 128 v"
  by (simp add: to_gf_def of_gf_def Gf_inverse uint_word_of_int take_bit_eq_mod)

lemma of_to_gf_fits [simp]: "fits 128 v \<Longrightarrow> of_gf (to_gf v) = v"
  by (simp add: of_to_gf fits_take_bit_iff)

lemma fits_of_gf [simp]: "fits 128 (of_gf a)"
  using uint_lt2p [of "gf_rep a"] by (simp add: of_gf_def fits_def)

lemma of_gf_inject [simp]: "of_gf a = of_gf b \<longleftrightarrow> a = b"
  by (metis to_of_gf)

lemma to_gf_inject: "fits 128 v \<Longrightarrow> fits 128 w \<Longrightarrow> to_gf v = to_gf w \<longleftrightarrow> v = w"
  by (metis of_to_gf_fits)

lemma bit_of_gf: "bit (of_gf a) i \<longleftrightarrow> gbit a i"
  by (auto simp: of_gf_def gbit.rep_eq bit_uint_iff dest: bit_imp_le_length)

lemma gbit_to_gf: "gbit (to_gf v) i \<longleftrightarrow> i < 128 \<and> bit v i"
  by (simp add: to_gf_def gbit.abs_eq bit_word_of_int_iff)

lemma of_gf_xor: "of_gf a XOR of_gf b = of_gf (a + b)"
  by (rule bit_eqI) (simp add: bit_xor_iff bit_of_gf)

lemma of_gf_01 [simp]: "of_gf 0 = 0" "of_gf 1 = 1"
  by (simp_all add: of_gf_def zero_gf128.rep_eq one_gf128.rep_eq)

lemma to_gf_01 [simp]: "to_gf 0 = 0" "to_gf 1 = 1"
  by (metis of_gf_01 to_of_gf)+

lemma to_gf_xor: "to_gf (v XOR w) = to_gf v + to_gf w"
  by (rule gbit_eqI) (simp add: gbit_to_gf bit_xor_iff)

lemma and_MASK128: "v AND MASK128 = take_bit 128 v"
  by (simp add: MASK128_def take_bit_eq_mask mask_eq_exp_minus_1)

lemma gbit_bound: "gbit a i \<Longrightarrow> i < 128"
  by (metis bit_of_gf fits_bit fits_of_gf)

lemma gbit_xt: "gbit (xt a) i \<longleftrightarrow> i < 128 \<and> ((i > 0 \<and> gbit a (i - 1)) \<noteq> (gbit a 127 \<and> bit (0x87 :: int) i))"
proof (transfer, goal_cases)
  case (1 a i)
  have len: "bit (a :: 128 word) k \<Longrightarrow> k < 128" for k by (auto dest: bit_imp_le_length)
  have lit: "bit (0x87 :: 128 word) i \<longleftrightarrow> i < 128 \<and> bit (0x87 :: int) i"
    by (simp only: bit_numeral_word_iff) simp
  have p: "bit (push_bit 1 a) i \<longleftrightarrow> i < 128 \<and> i > 0 \<and> bit a (i - 1)"
    unfolding bit_push_bit_iff by (auto dest: len simp: Suc_le_eq)
  show ?case unfolding bit_xor_iff p using lit by (auto dest: len)
qed

lemma field_xtime_of_gf: "field_xtime (of_gf a) = of_gf (xt a)"
proof (rule bit_eqI)
  fix i
  have hi: "drop_bit 127 (of_gf a) \<noteq> 0 \<longleftrightarrow> gbit a 127"
  proof
    assume "drop_bit 127 (of_gf a) \<noteq> 0"
    then obtain k where "bit (drop_bit 127 (of_gf a)) k" by (metis bit_0_eq bit_eqI bot_apply bot_boolE)
    then have "gbit a (127 + k)" by (simp add: bit_drop_bit_eq bit_of_gf)
    with gbit_bound [OF this] show "gbit a 127" by simp
  next
    assume "gbit a 127"
    then have "bit (drop_bit 127 (of_gf a)) 0" by (simp add: bit_drop_bit_eq bit_of_gf)
    then show "drop_bit 127 (of_gf a) \<noteq> 0" by (metis bit_0_eq bot_apply bot_boolE)
  qed
  have small: "bit (135 :: int) i \<Longrightarrow> i < 128"
    using fits_bit [of 128 "135" i] by (simp add: fits_def)
  show "bit (field_xtime (of_gf a)) i = bit (of_gf (xt a)) i"
  proof (cases "gbit a 127")
    case True
    then show ?thesis
      using small unfolding field_xtime_def Let_def hi and_MASK128 bit_of_gf gbit_xt REDUCTION_LOW_def
        if_P [OF True] bit_xor_iff bit_take_bit_iff bit_push_bit_iff possible_bit_def
      by (cases i) auto
  next
    case False
    then show ?thesis
      unfolding field_xtime_def Let_def hi and_MASK128 bit_of_gf gbit_xt REDUCTION_LOW_def
        if_not_P [OF False] bit_xor_iff bit_take_bit_iff bit_push_bit_iff possible_bit_def
      by (cases i) auto
  qed
qed

lemma bit_test: "drop_bit b (v :: int) AND 1 = 0 \<longleftrightarrow> \<not> bit v b"
  by (simp add: and_one_eq bit_iff_odd_drop_bit odd_iff_mod_2_eq_one)

lemma field_mul_fold:
  "fold (\<lambda>b (acc, term). (if drop_bit b (r :: int) AND 1 \<noteq> 0 then acc XOR term else acc, field_xtime term))
     [0..<n] (0, of_gf a) =
   (of_gf (\<Sum>i<n. if bit r i then (xt ^^ i) a else 0), of_gf ((xt ^^ n) a))"
  by (induction n) (simp_all add: bit_test field_xtime_of_gf of_gf_xor)

lemma field_mul_gf: "field_mul l r = of_gf (to_gf l * to_gf r)"
proof -
  have "field_mul l r = of_gf (\<Sum>i<128. if bit r i then (xt ^^ i) (to_gf l) else 0)"
    unfolding field_mul_def and_MASK128 of_to_gf [symmetric] field_mul_fold by simp
  also have "(\<Sum>i<128. if bit r i then (xt ^^ i) (to_gf l) else 0) = to_gf l * to_gf r"
    unfolding times_gf128_def by (rule sum.cong) (simp_all add: gbit_to_gf)
  finally show ?thesis .
qed

lemma fits_field_mul [simp]: "fits 128 (field_mul l r)"
  by (simp add: field_mul_gf)

lemma field_xtime_gf: "fits 128 v \<Longrightarrow> field_xtime v = of_gf (gen * to_gf v)"
  using field_xtime_of_gf [of "to_gf v"] by (simp add: xt_eq_gen)

text \<open>Square-and-multiply.\<close>

lemma field_encode_fold:
  "fold (\<lambda>b result. let result = field_mul result result
            in if bit index b then field_xtime result else result)
     (rev [0..<n]) (of_gf a) = of_gf (a ^ 2 ^ n * gen ^ nat (take_bit n index))"
proof (induction n arbitrary: a)
  case 0
  then show ?case by simp
next
  case (Suc n)
  have sq: "field_mul (of_gf a) (of_gf a) = of_gf (a ^ 2)"
    by (simp add: field_mul_gf power2_eq_square)
  have tb: "nat (take_bit (Suc n) index) = (if bit index n then 2 ^ n else 0) + nat (take_bit n index)"
    by (simp add: take_bit_Suc_from_most nat_add_distrib nat_power_eq)
  show ?case
  proof (cases "bit index n")
    case True
    have "field_xtime (of_gf (a ^ 2)) = of_gf (gen * a ^ 2)" by (simp add: field_xtime_of_gf xt_eq_gen)
    then show ?thesis using True
      by (simp add: sq Suc.IH tb power_mult_distrib power_add ac_simps flip: power_mult)
  next
    case False
    then show ?thesis by (simp add: sq Suc.IH tb flip: power_mult)
  qed
qed

lemma field_encode_gf:
  "field_encode i = (if 0 \<le> i \<and> i < 2 ^ 16 then Inr (of_gf (gen ^ nat i)) else Inl (fault INDEX_RANGE))"
proof (cases "0 \<le> i \<and> i < 2 ^ 16")
  case True
  then have "take_bit 16 i = i" by (simp add: take_bit_int_eq_self_iff)
  then show ?thesis
    using True field_encode_fold [of i INDEX_BITS 1] unfolding field_encode_def wire_constants bit_test not_not by simp
next
  case False
  then show ?thesis by (auto simp: field_encode_def wire_constants)
qed

lemma xtime_pow_gf: "(field_xtime ^^ n) 1 = of_gf (gen ^ n)"
  by (induction n) (simp_all add: field_xtime_of_gf xt_eq_gen)

end
