(* ===== verification/Write_Once.thy ===== *)
theory Write_Once
  imports Lsc_Prelude
begin

text \<open>
  The interface of a write-once memory, which three components provide: the private frame of
  the endpoint, the memory of the host and the memory of the reference machine. A store is
  seen through \<open>view\<close>, the partial map of its written cells; \<open>known\<close> says which addresses
  the store can be asked about.
\<close>

section \<open>The interface\<close>

locale write_once_store =
  fixes view :: "'s \<Rightarrow> int \<Rightarrow> int option"
    and known :: "'s \<Rightarrow> int \<Rightarrow> bool"
    and put :: "int \<Rightarrow> int \<Rightarrow> 's \<Rightarrow> 'e + 's"
  assumes write_ok: "known s a \<Longrightarrow> fits 128 v \<Longrightarrow> view s a = None \<or> view s a = Some v \<Longrightarrow>
      \<exists>s'. put a v s = Inr s' \<and> view s' = (view s)(a \<mapsto> v) \<and> known s' = known s"
    and write_conflict: "known s a \<Longrightarrow> fits 128 v \<Longrightarrow> view s a = Some w \<Longrightarrow> w \<noteq> v \<Longrightarrow>
      \<exists>e. put a v s = Inl e"

text \<open>A batch of writes, in order, up to the first conflict.\<close>

fun write_batch :: "(int \<Rightarrow> int \<Rightarrow> 's \<Rightarrow> 'e + 's) \<Rightarrow> (int \<times> int) list \<Rightarrow> 's \<Rightarrow> 'e + 's" where
  "write_batch put [] s = Inr s"
| "write_batch put ((a, v) # ws) s = bindE (put a v s) (write_batch put ws)"

text \<open>A batch that agrees with a map, at every address it writes.\<close>

definition batch_agrees :: "(int \<times> int) list \<Rightarrow> (int \<Rightarrow> int option) \<Rightarrow> bool" where
  "batch_agrees ws m \<longleftrightarrow> (\<forall>(a, v) \<in> set ws. m a = Some v)"

context write_once_store begin

lemma write_Inr:
  assumes "known s a" "fits 128 v" "put a v s = Inr s'"
  shows "view s' = (view s)(a \<mapsto> v)" "known s' = known s" "view s a = None \<or> view s a = Some v"
proof -
  show c: "view s a = None \<or> view s a = Some v"
    using write_conflict [OF assms(1,2)] assms(3) by (cases "view s a") auto
  show "view s' = (view s)(a \<mapsto> v)" "known s' = known s"
    using write_ok [OF assms(1,2) c] assms(3) by auto
qed

lemma write_iff:
  "known s a \<Longrightarrow> fits 128 v \<Longrightarrow> (\<exists>s'. put a v s = Inr s') \<longleftrightarrow> view s a = None \<or> view s a = Some v"
  using write_Inr(3) write_ok by blast

lemma write_extends:
  assumes "known s a" "fits 128 v" "put a v s = Inr s'"
  shows "view s \<subseteq>\<^sub>m view s'" "view s' a = Some v"
  using write_Inr [OF assms] by (auto simp: map_le_def dom_def)

lemma write_below:
  "known s a \<Longrightarrow> fits 128 v \<Longrightarrow> put a v s = Inr s' \<Longrightarrow> view s \<subseteq>\<^sub>m m \<Longrightarrow> m a = Some v \<Longrightarrow> view s' \<subseteq>\<^sub>m m"
  using write_Inr(1) by (auto simp: map_le_def)

text \<open>Reading back what was written, and writing it again.\<close>

lemma write_again:
  assumes "known s a" "fits 128 v" "put a v s = Inr s'"
  shows "\<exists>s''. put a v s' = Inr s'' \<and> view s'' = view s'"
proof -
  have "known s' a" "view s' a = Some v" using write_Inr [OF assms] assms(1) by auto
  from write_ok [OF this(1) assms(2)] this(2) show ?thesis by (auto simp: map_upd_triv)
qed

lemma batch_Inr:
  assumes "\<forall>(a, v) \<in> set ws. known s a \<and> fits 128 v" "write_batch put ws s = Inr s'"
  shows "view s \<subseteq>\<^sub>m view s' \<and> known s' = known s \<and> batch_agrees ws (view s') \<and>
    view s' = view s ++ map_of (rev ws)"
  using assms
proof (induction ws arbitrary: s)
  case Nil
  then show ?case by (simp add: batch_agrees_def)
next
  case (Cons p ws)
  obtain a v where p: "p = (a, v)" by force
  with Cons.prems obtain t where t: "put a v s = Inr t" "write_batch put ws t = Inr s'" "known s a" "fits 128 v"
    by (auto simp: bindE_eq_Inr)
  note w = write_Inr [OF t(3,4,1)] and x = write_extends [OF t(3,4,1)]
  have ih: "view t \<subseteq>\<^sub>m view s' \<and> known s' = known t \<and> batch_agrees ws (view s') \<and> view s' = view t ++ map_of (rev ws)"
    by (rule Cons.IH [OF _ t(2)]) (use Cons.prems(1) w(2) in auto)
  moreover have "view t ++ map_of (rev ws) = view s ++ map_of (rev (p # ws))"
    by (simp add: p w(1) map_add_upd_left map_add_assoc)
  moreover have "view s' a = Some v" using ih x by (metis domI map_le_def)
  ultimately show ?case using w x by (auto simp: batch_agrees_def p intro: map_le_trans)
qed

text \<open>
  A batch succeeds exactly when some map extends the store and agrees with every write; the
  store then becomes the least such map, so that the order of the writes does not matter.
\<close>

lemma batch_iff:
  assumes "\<forall>(a, v) \<in> set ws. known s a \<and> fits 128 v"
  shows "(\<exists>s'. write_batch put ws s = Inr s') \<longleftrightarrow> (\<exists>m. view s \<subseteq>\<^sub>m m \<and> batch_agrees ws m)"
proof
  show "\<exists>s'. write_batch put ws s = Inr s' \<Longrightarrow> \<exists>m. view s \<subseteq>\<^sub>m m \<and> batch_agrees ws m"
    using batch_Inr [OF assms] by blast
  assume "\<exists>m. view s \<subseteq>\<^sub>m m \<and> batch_agrees ws m"
  then obtain m where "view s \<subseteq>\<^sub>m m" "batch_agrees ws m" by blast
  then show "\<exists>s'. write_batch put ws s = Inr s'"
    using assms
  proof (induction ws arbitrary: s)
    case Nil
    then show ?case by simp
  next
    case (Cons p ws)
    obtain a v where p: "p = (a, v)" by force
    have k: "known s a" "fits 128 v" and m: "m a = Some v" using Cons.prems(2,3) by (auto simp: p batch_agrees_def)
    have "view s a = None \<or> view s a = Some v" using Cons.prems(1) m by (metis domIff map_le_def)
    with write_ok [OF k] obtain t where t: "put a v s = Inr t" "known t = known s" by blast
    have "view t \<subseteq>\<^sub>m m" using write_below [OF k t(1) Cons.prems(1) m] .
    with Cons.IH [OF this] Cons.prems(2,3) t show ?case by (auto simp: p batch_agrees_def)
  qed
qed

lemma batch_order:
  assumes "\<forall>(a, v) \<in> set ws. known s a \<and> fits 128 v" "set ws' = set ws" "write_batch put ws s = Inr s'"
  shows "\<exists>s''. write_batch put ws' s = Inr s'' \<and> view s'' = view s'"
proof -
  have k': "\<forall>(a, v) \<in> set ws'. known s a \<and> fits 128 v" using assms(1,2) by simp
  note b = batch_Inr [OF assms(1,3)]
  then have "view s \<subseteq>\<^sub>m view s' \<and> batch_agrees ws' (view s')" using assms(2) by (metis batch_agrees_def)
  then obtain s'' where s'': "write_batch put ws' s = Inr s''" using batch_iff [OF k'] by blast
  note b' = batch_Inr [OF k' s'']
  have "view s'' x = view s' x" for x
  proof (cases "x \<in> fst ` set ws")
    case True
    then obtain v where "(x, v) \<in> set ws" by auto
    moreover have "batch_agrees ws (view s')" "batch_agrees ws' (view s'')" using b b' by blast+
    ultimately have "view s' x = Some v" "view s'' x = Some v" unfolding batch_agrees_def assms(2) by blast+
    then show ?thesis by simp
  next
    case False
    then have "map_of (rev ws) x = None" "map_of (rev ws') x = None" using assms(2) by (simp_all add: map_of_eq_None_iff)
    with b b' show ?thesis by (simp add: map_add_def)
  qed
  with s'' show ?thesis by blast
qed

end

section \<open>Two stores side by side\<close>

text \<open>
  Two providers of the interface that agree on what is written stay in agreement: a write
  succeeds in both or in neither.
\<close>

locale write_once_pair =
  A: write_once_store view1 known1 put1 + B: write_once_store view2 known2 put2
  for view1 :: "'s \<Rightarrow> int \<Rightarrow> int option" and known1 put1 and view2 :: "'t \<Rightarrow> int \<Rightarrow> int option" and known2 put2
begin

lemma write_sim:
  assumes "view1 s = view2 t" "known1 s a" "known2 t a" "fits 128 v"
  shows "(case put1 a v s of Inr s' \<Rightarrow> (\<exists>t'. put2 a v t = Inr t' \<and> view1 s' = view2 t') | Inl e \<Rightarrow> (\<exists>e'. put2 a v t = Inl e'))"
proof (cases "put1 a v s")
  case (Inl e)
  then have "\<not> (view2 t a = None \<or> view2 t a = Some v)" using A.write_iff [OF assms(2,4)] assms(1) by auto
  then have "\<nexists>t'. put2 a v t = Inr t'" using B.write_iff [OF assms(3,4)] by blast
  with Inl show ?thesis by (cases "put2 a v t") auto
next
  case (Inr s')
  note w = A.write_Inr [OF assms(2,4) Inr]
  with B.write_ok [OF assms(3,4)] assms(1) Inr show ?thesis by auto
qed

text \<open>Where the stores only need to agree on some addresses, the written one among them.\<close>

lemma write_sim_on:
  assumes "\<forall>x\<in>A. view1 s x = view2 t x" "a \<in> A" "known1 s a" "known2 t a" "fits 128 v" "put1 a v s = Inr s'"
  shows "\<exists>t'. put2 a v t = Inr t' \<and> (\<forall>x\<in>A. view1 s' x = view2 t' x) \<and> view2 t' = (view2 t)(a \<mapsto> v) \<and> known2 t' = known2 t"
proof -
  note w = A.write_Inr [OF assms(3,5,6)]
  then have "view2 t a = None \<or> view2 t a = Some v" using assms(1,2) by auto
  from B.write_ok [OF assms(4,5) this] obtain t' where
    "put2 a v t = Inr t'" "view2 t' = (view2 t)(a \<mapsto> v)" "known2 t' = known2 t" by blast
  with w assms(1) show ?thesis by auto
qed

end

end
