(* ===== verification/Lsc_Transition.thy ===== *)
theory Lsc_Transition
  imports Lsc_Request Gf128 Write_Once
begin

text \<open>
  The scalar transition of \<open>sim/lsc1_transaction.py\<close> (lines 512-863): the result records
  and their encoders, the private write-once \<open>_Frame\<close>, the index check and the five
  \<open>_execute_*\<close> routines with \<open>_resume_blake3\<close>. A routine works on a
  \<open>StagedTransaction\<close> its caller owns. The caller drops the object when the routine raises,
  so an \<open>_execute_*\<close> routine is a function to the new object or the exception;
  \<open>_resume_blake3\<close> works on the endpoint's own object and returns it in both cases.
\<close>

section \<open>Result records\<close>

record cell_write =
  wr_address :: int
  wr_value :: int

definition Write :: "int \<Rightarrow> int \<Rightarrow> cell_write" where
  "Write a v = \<lparr>wr_address = a, wr_value = v\<rparr>"

definition encode_write :: "cell_write \<Rightarrow> bytes res" where
  "encode_write w = catE [u32le (wr_address w), f128le (wr_value w)]"

record deferred_equality =
  df_target :: int
  df_local :: int

definition DeferredEquality :: "int \<Rightarrow> int \<Rightarrow> deferred_equality" where
  "DeferredEquality t l = \<lparr>df_target = t, df_local = l\<rparr>"

definition encode_deferred :: "deferred_equality \<Rightarrow> bytes res" where
  "encode_deferred d = catE [u32le (df_target d), u32le (df_local d)]"

record service_request =
  sv_service_id :: int
  sv_kind :: service_kind
  sv_message :: "int list"
  sv_chaining_value :: "int \<times> int"
  sv_metadata :: int

definition encode_service_request :: "service_request \<Rightarrow> int \<Rightarrow> bytes res" where
  "encode_service_request s txn_id =
     catE ([u32le txn_id, u32le (sv_service_id s), u8 (service_kind_code (sv_kind s)), u8 0]
       @ map f128le (sv_message s)
       @ map f128le [fst (sv_chaining_value s), snd (sv_chaining_value s)]
       @ [f128le (sv_metadata s)])"

section \<open>The private frame\<close>

text \<open>\<open>_Frame\<close>: a dict of cells and the list of writes; a missing key is a \<open>KeyError\<close>.\<close>

record frame =
  fr_cells :: "int \<Rightarrow> cell option"
  fr_writes :: "cell_write list"

definition Frame :: frame where
  "Frame = \<lparr>fr_cells = (\<lambda>_. None), fr_writes = []\<rparr>"

definition fr_supply :: "int \<Rightarrow> cell \<Rightarrow> frame \<Rightarrow> frame res" where
  "fr_supply address c f =
     (case fr_cells f address of
        Some existing \<Rightarrow>
          if existing \<noteq> c then Inl (fault ALIAS_INCONSISTENT)
          else Inr (f\<lparr>fr_cells := (fr_cells f)(address := Some c)\<rparr>)
      | None \<Rightarrow> Inr (f\<lparr>fr_cells := (fr_cells f)(address := Some c)\<rparr>))"

definition fr_cell :: "frame \<Rightarrow> int \<Rightarrow> cell res" where
  "fr_cell f address = (case fr_cells f address of None \<Rightarrow> Inl KeyError | Some c \<Rightarrow> Inr c)"

definition fr_present :: "frame \<Rightarrow> int \<Rightarrow> bool res" where
  "fr_present f address = bindE (fr_cell f address) (\<lambda>c. Inr (cell_present c))"

definition fr_read :: "frame \<Rightarrow> int \<Rightarrow> int res" where
  "fr_read f address =
     bindE (fr_cell f address) (\<lambda>c. Inr (if cell_present c then cell_value c else 0))"

definition fr_write_once :: "int \<Rightarrow> int \<Rightarrow> frame \<Rightarrow> frame res" where
  "fr_write_once address v f =
     bindE (fr_cell f address) (\<lambda>c.
       if cell_present c then
         (if cell_value c \<noteq> v then Inl (fault WRITE_CONFLICT) else Inr f)
       else Inr (f\<lparr>fr_cells := (fr_cells f)(address := Some (Cell True v)),
                   fr_writes := fr_writes f @ [Write address v]\<rparr>))"

text \<open>\<open>for address, cell in zip(addresses, cells): frame.supply(address, cell)\<close>.\<close>

fun fr_supply_all :: "(int \<times> cell) list \<Rightarrow> frame \<Rightarrow> frame res" where
  "fr_supply_all [] f = Inr f"
| "fr_supply_all ((a, c) # rest) f = bindE (fr_supply a c f) (fr_supply_all rest)"

section \<open>The staged transaction\<close>

record staged_transaction =
  st_txn_id :: int
  st_opcode :: opcode
  st_profile :: profile
  st_pc :: int
  st_fp :: int
  st_next_pc :: int
  st_next_fp :: int
  st_writes :: "cell_write list"
  st_deferred :: "deferred_equality list"
  st_accesses :: "int list"
  st_service :: "service_request option"
  st_execute_cycles :: int
  st_result_crc :: int
  st_pending_frame :: "frame option"

definition StagedTransaction :: "int \<Rightarrow> opcode \<Rightarrow> profile \<Rightarrow> int \<Rightarrow> int \<Rightarrow> staged_transaction" where
  "StagedTransaction txn_id op prof pc fp =
     \<lparr>st_txn_id = txn_id, st_opcode = op, st_profile = prof, st_pc = pc, st_fp = fp,
      st_next_pc = 0, st_next_fp = 0, st_writes = [], st_deferred = [], st_accesses = [],
      st_service = None, st_execute_cycles = 0, st_result_crc = 0, st_pending_frame = None\<rparr>"

definition result_payload :: "staged_transaction \<Rightarrow> bytes res" where
  "result_payload s =
     catE ([u32le (st_txn_id s), u32le (st_next_pc s), u32le (st_next_fp s),
            u8 (int (length (st_writes s)))] @ map encode_write (st_writes s)
       @ [u8 (int (length (st_deferred s)))] @ map encode_deferred (st_deferred s)
       @ [u8 (int (length (st_accesses s)))] @ map u32le (st_accesses s))"

definition result_payload_bytes :: "nat \<Rightarrow> nat \<Rightarrow> nat \<Rightarrow> nat" where
  "result_payload_bytes writes deferred accesses =
     12 + 1 + writes * WRITE_BYTES + 1 + deferred * DEFERRED_BYTES + 1 + accesses * ACCESS_BYTES"

section \<open>Budget assumptions\<close>

record budget_assumptions =
  ba_beat :: int
  ba_field_mul :: int
  ba_field_xor :: int
  ba_xtime :: int
  ba_compare :: int
  ba_decode :: int

definition ASSUMPTIONS :: budget_assumptions where
  "ASSUMPTIONS = \<lparr>ba_beat = 1, ba_field_mul = 128, ba_field_xor = 1, ba_xtime = 1,
     ba_compare = 1, ba_decode = 2\<rparr>"

definition encode_index :: "budget_assumptions \<Rightarrow> int" where
  "encode_index b = int INDEX_BITS * ba_field_mul b + int INDEX_BITS * ba_xtime b"

section \<open>The transition\<close>

definition verify_index :: "int \<Rightarrow> int \<Rightarrow> int res" where
  "verify_index base pointer =
     (if base \<ge> INDEX_LIMIT then Inl (fault INDEX_RANGE)
      else bindE (field_encode base) (\<lambda>e.
        if e \<noteq> pointer then Inl (fault BAD_POINTER) else Inr (encode_index ASSUMPTIONS)))"

text \<open>\<open>xs[i]\<close> on a tuple or list.\<close>

definition nthE :: "'a list \<Rightarrow> nat \<Rightarrow> 'a res" where
  "nthE xs i = (if i < length xs then Inr (xs ! i) else Inl IndexError)"

text \<open>
  The common start of \<open>_execute_binary\<close> and \<open>_execute_jump\<close>: the three operand addresses and
  the frame with their cells supplied.
\<close>

definition operands :: "decoded_request \<Rightarrow> staged_transaction \<Rightarrow> (frame \<times> int \<times> int \<times> int) res" where
  "operands request staged =
     bindE (mapE (checked_add (st_fp staged)) (dq_offsets request)) (\<lambda>addresses.
     bindE (fr_supply_all (zip addresses (dq_cells request)) Frame) (\<lambda>frame.
       case addresses of [a, b, c] \<Rightarrow> Inr (frame, a, b, c) | _ \<Rightarrow> Inl ValueError))"

text \<open>
  \<open>_execute_binary\<close>: first the profile check and the back-solve of one absent operand
  (lines 680-701), on the frame with the three cells supplied; it returns the frame and the
  cycles spent.
\<close>

definition back_solve :: "decoded_request \<Rightarrow> int \<Rightarrow> int \<Rightarrow> int \<Rightarrow> frame \<Rightarrow> (frame \<times> int) res" where
  "back_solve request address_a address_b address_c frame =
     bindE (fr_present frame address_a) (\<lambda>present_a.
     bindE (fr_present frame address_b) (\<lambda>present_b.
       if dq_profile request = FORWARD_ONLY then
         (if \<not> present_a \<or> \<not> present_b then Inl (fault UNSUPPORTED_IN_PROFILE)
          else Inr (frame, 0))
       else
         bindE (fr_present frame address_c) (\<lambda>present_c.
           if present_c \<and> present_a \<noteq> present_b then
             let known_address = (if \<not> present_a then address_b else address_a);
                 missing_address = (if \<not> present_a then address_a else address_b) in
             bindE (fr_read frame known_address) (\<lambda>known.
               if dq_opcode request = OP_XOR then
                 bindE (fr_read frame address_c) (\<lambda>result.
                 bindE (fr_write_once missing_address (result XOR known) frame) (\<lambda>frame.
                   Inr (frame, ba_field_xor ASSUMPTIONS)))
               else if known = 0 then Inl (fault MUL_BACKSOLVE_ZERO)
               else if \<not> cell_present (dq_proposed_inverse request) then
                 Inl (protocol_fault BAD_INVERSE 1)
               else
                 let inverse = cell_value (dq_proposed_inverse request) in
                 if field_mul known inverse \<noteq> 1 then Inl (protocol_fault BAD_INVERSE 2)
                 else
                   bindE (fr_read frame address_c) (\<lambda>result.
                   bindE (fr_write_once missing_address (field_mul result inverse) frame) (\<lambda>frame.
                     Inr (frame, 2 * ba_field_mul ASSUMPTIONS))))
           else Inr (frame, 0))))"

text \<open>Then the forward step (lines 703-716).\<close>

definition execute_binary :: "decoded_request \<Rightarrow> staged_transaction \<Rightarrow> staged_transaction res" where
  "execute_binary request staged =
     bindE (operands request staged) (\<lambda>(frame, address_a, address_b, address_c).
     bindE (back_solve request address_a address_b address_c frame) (\<lambda>(frame, cycles).
     bindE (fr_read frame address_a) (\<lambda>left.
     bindE (fr_read frame address_b) (\<lambda>right.
     bindE (fr_write_once address_c
              (if dq_opcode request = OP_XOR then left XOR right else field_mul left right) frame)
       (\<lambda>frame.
     bindE (checked_add (st_pc staged) 1) (\<lambda>next_pc.
       Inr (staged\<lparr>st_writes := fr_writes frame,
                   st_accesses := [address_a, address_b, address_c],
                   st_next_pc := next_pc, st_next_fp := st_fp staged,
                   st_execute_cycles := cycles
                     + (if dq_opcode request = OP_XOR then ba_field_xor ASSUMPTIONS
                        else ba_field_mul ASSUMPTIONS)\<rparr>)))))))"

definition execute_set :: "decoded_request \<Rightarrow> staged_transaction \<Rightarrow> staged_transaction res" where
  "execute_set request staged =
     bindE (nthE (dq_offsets request) 0) (\<lambda>offset.
     bindE (checked_add (st_fp staged) offset) (\<lambda>address.
     bindE (nthE (dq_cells request) 0) (\<lambda>c.
     bindE (fr_supply address c Frame) (\<lambda>frame.
     bindE (fr_write_once address (dq_constant request) frame) (\<lambda>frame.
     bindE (checked_add (st_pc staged) 1) (\<lambda>next_pc.
       Inr (staged\<lparr>st_writes := fr_writes frame, st_accesses := [address],
                   st_next_pc := next_pc, st_next_fp := st_fp staged,
                   st_execute_cycles := 0\<rparr>)))))))"

text \<open>\<open>_execute_deref\<close>: first its cell mode, on the frame with the three cells supplied.\<close>

definition deref_cell ::
  "decoded_request \<Rightarrow> int \<Rightarrow> int \<Rightarrow> frame \<Rightarrow> (frame \<times> deferred_equality list \<times> int) res" where
  "deref_cell request target_address local_address frame =
     bindE (fr_present frame target_address) (\<lambda>has_target.
     bindE (fr_present frame local_address) (\<lambda>has_local.
     bindE (fr_read frame target_address) (\<lambda>target.
     bindE (fr_read frame local_address) (\<lambda>local.
       if dq_profile request = FORWARD_ONLY then
         (if \<not> has_local then Inl (fault UNSUPPORTED_IN_PROFILE)
          else if has_target \<and> target \<noteq> local then Inl (fault DEREF_MISMATCH)
          else bindE (fr_write_once target_address local frame) (\<lambda>frame.
                 Inr (frame, [], ba_compare ASSUMPTIONS)))
       else if has_target \<and> has_local then
         (if target \<noteq> local then Inl (fault DEREF_MISMATCH)
          else Inr (frame, [], ba_compare ASSUMPTIONS))
       else if has_target then
         bindE (fr_write_once local_address target frame) (\<lambda>frame. Inr (frame, [], 0))
       else if has_local then
         bindE (fr_write_once target_address local frame) (\<lambda>frame. Inr (frame, [], 0))
       else Inr (frame, [DeferredEquality target_address local_address], 0)))))"

definition execute_deref :: "decoded_request \<Rightarrow> staged_transaction \<Rightarrow> staged_transaction res" where
  "execute_deref request staged =
     bindE (case dq_offsets request of [a, b, c] \<Rightarrow> Inr (a, b, c) | _ \<Rightarrow> Inl ValueError)
       (\<lambda>(alpha, beta, gamma).
        bindE (checked_add (st_fp staged) alpha) (\<lambda>pointer_address.
        bindE (checked_add (st_fp staged) gamma) (\<lambda>local_address.
        bindE (nthE (dq_cells request) 0) (\<lambda>pointer_cell.
        bindE (fr_supply pointer_address pointer_cell Frame) (\<lambda>frame.
        bindE (fr_read frame pointer_address) (\<lambda>pointer.
        bindE (verify_index (dq_base request) pointer) (\<lambda>cycles.
        bindE (checked_add (dq_base request) beta) (\<lambda>target_address.
        bindE (nthE (dq_cells request) 1) (\<lambda>target_cell.
        bindE (fr_supply target_address target_cell frame) (\<lambda>frame.
        bindE (nthE (dq_cells request) 2) (\<lambda>local_cell.
        bindE (fr_supply local_address local_cell frame) (\<lambda>frame.
        bindE
          (if dq_opcode request = OP_DEREF_CELL then
             deref_cell request target_address local_address frame
           else if dq_opcode request = OP_DEREF_PC then
             bindE (checked_add (st_pc staged) 2) (\<lambda>return_pc.
             bindE (field_encode return_pc) (\<lambda>v.
             bindE (fr_write_once target_address v frame) (\<lambda>frame.
               Inr (frame, [], encode_index ASSUMPTIONS))))
           else
             bindE (field_encode (st_fp staged)) (\<lambda>v.
             bindE (fr_write_once target_address v frame) (\<lambda>frame.
               Inr (frame, [], encode_index ASSUMPTIONS))))
          (\<lambda>(frame, deferred, extra).
        bindE (checked_add (st_pc staged) 1) (\<lambda>next_pc.
          Inr (staged\<lparr>st_writes := fr_writes frame, st_deferred := deferred,
                      st_accesses := [pointer_address, target_address, local_address],
                      st_next_pc := next_pc, st_next_fp := st_fp staged,
                      st_execute_cycles := cycles + extra\<rparr>)))))))))))))))"

definition execute_jump :: "decoded_request \<Rightarrow> staged_transaction \<Rightarrow> staged_transaction res" where
  "execute_jump request staged =
     bindE (operands request staged) (\<lambda>(frame, condition_address, destination_address, frame_address).
     bindE (fr_read frame condition_address) (\<lambda>condition.
     bindE (fr_read frame destination_address) (\<lambda>destination.
     bindE (fr_read frame frame_address) (\<lambda>new_frame.
     let taken = (condition \<noteq> 0); witness = dq_proposed_inverse request in
     if taken \<noteq> dq_taken request then Inl (protocol_fault BAD_BRANCH_PROPOSAL 1)
     else
       bindE
         (if taken then
            (if \<not> cell_present witness \<or> field_mul condition (cell_value witness) \<noteq> 1
             then Inl (fault BAD_INVERSE)
             else
               bindE (verify_index (dq_dest_pc request) destination) (\<lambda>cycles_pc.
               bindE (verify_index (dq_dest_fp request) new_frame) (\<lambda>cycles_fp.
                 Inr (dq_dest_pc request, dq_dest_fp request,
                      ba_field_mul ASSUMPTIONS + cycles_pc + cycles_fp))))
          else if cell_present witness \<and> cell_value witness \<noteq> 0
          then Inl (protocol_fault BAD_INVERSE 3)
          else if dq_dest_pc request \<noteq> 0 \<or> dq_dest_fp request \<noteq> 0
          then Inl (protocol_fault BAD_BRANCH_PROPOSAL 2)
          else bindE (checked_add (st_pc staged) 1) (\<lambda>next_pc. Inr (next_pc, st_fp staged, 0)))
         (\<lambda>(next_pc, next_fp, extra).
           Inr (staged\<lparr>st_next_pc := next_pc, st_next_fp := next_fp,
                       st_writes := fr_writes frame,
                       st_accesses := [condition_address, destination_address, frame_address],
                       st_execute_cycles := ba_compare ASSUMPTIONS + extra\<rparr>))))))"

definition blake3_addresses :: "decoded_request \<Rightarrow> staged_transaction \<Rightarrow> int list res" where
  "blake3_addresses request staged =
     bindE (mapE (checked_add (st_fp staged)) (dq_message_offsets request)) (\<lambda>message.
     bindE (checked_add (st_fp staged) (dq_cv_offset request)) (\<lambda>cv_base.
     bindE (checked_add (st_fp staged) (dq_out_offset request)) (\<lambda>out_base.
     bindE (checked_add cv_base 1) (\<lambda>cv_next.
     bindE (checked_add out_base 1) (\<lambda>out_next.
       Inr (message @ [cv_base, cv_next, out_base, out_next]))))))"

text \<open>
  The flags test \<open>flags & ~0x7F\<close> of the source is \<open>drop_bit 7 flags \<noteq> 0\<close> on the
  non-negative integer \<open>flags\<close>, written with \<open>NOT\<close> as in the source.
\<close>

definition execute_blake3 ::
  "decoded_request \<Rightarrow> staged_transaction \<Rightarrow> int \<Rightarrow> staged_transaction res" where
  "execute_blake3 request staged service_id =
     (let block_len = drop_bit 64 (dq_metadata request) AND 0xFFFFFFFF;
          flags = drop_bit 96 (dq_metadata request) in
      if block_len > 64 \<or> flags AND NOT 0x7F \<noteq> 0 then Inl (fault BAD_SERVICE)
      else
        bindE (blake3_addresses request staged) (\<lambda>addresses.
        bindE (fr_supply_all (zip addresses (dq_cells request)) Frame) (\<lambda>frame.
        if st_pc staged = INDEX_LIMIT - 1 then Inl (fault INDEX_RANGE)
        else
          bindE (checked_add (st_pc staged) 1) (\<lambda>next_pc.
          bindE (mapE (fr_read frame) (take 4 addresses)) (\<lambda>message.
          bindE (bindE (nthE addresses 4) (fr_read frame)) (\<lambda>cv0.
          bindE (bindE (nthE addresses 5) (fr_read frame)) (\<lambda>cv1.
            Inr (staged\<lparr>st_accesses := addresses, st_next_pc := next_pc,
                        st_next_fp := st_fp staged, st_execute_cycles := 0,
                        st_service := Some \<lparr>sv_service_id = service_id,
                          sv_kind = BLAKE3_COMPRESS, sv_message = message,
                          sv_chaining_value = (cv0, cv1), sv_metadata = dq_metadata request\<rparr>,
                        st_pending_frame := Some frame\<rparr>))))))))"

text \<open>
  \<open>_resume_blake3\<close> writes into the frame the staged transaction keeps, so a conflict on the
  second digest word leaves the first one written there.
\<close>

definition resume_blake3 ::
  "staged_transaction \<Rightarrow> int \<times> int \<Rightarrow> unit res \<times> staged_transaction" where
  "resume_blake3 staged digest =
     (case st_pending_frame staged of
        None \<Rightarrow> (Inl (protocol_fault BAD_SERVICE 4), staged)
      | Some frame \<Rightarrow>
          (case bindE (nthE (st_accesses staged) 6) (\<lambda>out0.
                bindE (nthE (st_accesses staged) 7) (\<lambda>out1. Inr (out0, out1))) of
             Inl e \<Rightarrow> (Inl e, staged)
           | Inr (out0, out1) \<Rightarrow>
               (case fr_write_once out0 (fst digest) frame of
                  Inl e \<Rightarrow> (Inl e, staged)
                | Inr frame1 \<Rightarrow>
                    (case fr_write_once out1 (snd digest) frame1 of
                       Inl e \<Rightarrow> (Inl e, staged\<lparr>st_pending_frame := Some frame1\<rparr>)
                     | Inr frame2 \<Rightarrow>
                         (Inr (), staged\<lparr>st_pending_frame := Some frame2,
                                         st_writes := fr_writes frame2, st_service := None\<rparr>)))))"

section \<open>The frame is a write-once store\<close>

lemma fr_cell_iff [raise_simps]: "fr_cell f a = Inr c \<longleftrightarrow> fr_cells f a = Some c" "fr_cell f a = Inl e \<longleftrightarrow> fr_cells f a = None \<and> e = KeyError"
  by (auto simp: fr_cell_def split: option.splits)

definition fr_view :: "frame \<Rightarrow> int \<Rightarrow> int option" where
  "fr_view f a = (case fr_cells f a of None \<Rightarrow> None
     | Some c \<Rightarrow> if cell_present c then Some (cell_value c) else None)"

definition fr_known :: "frame \<Rightarrow> int \<Rightarrow> bool" where
  "fr_known f a \<longleftrightarrow> fr_cells f a \<noteq> None"

text \<open>A cell that was never written reads as zero.\<close>

definition read0 :: "(int \<Rightarrow> int option) \<Rightarrow> int \<Rightarrow> int" where
  "read0 m a = (case m a of None \<Rightarrow> 0 | Some v \<Rightarrow> v)"

lemma fr_read_iff [simp]: "fr_known f a \<Longrightarrow> fr_read f a = Inr (read0 (fr_view f) a)"
  by (auto simp: fr_known_def fr_read_def fr_cell_def fr_view_def read0_def)

lemma fr_present_iff [simp]: "fr_known f a \<Longrightarrow> fr_present f a = Inr (fr_view f a \<noteq> None)"
  by (auto simp: fr_known_def fr_present_def fr_cell_def fr_view_def)

lemma fr_write_once_iff:
  "fr_known f a \<Longrightarrow> fr_write_once a v f =
     (case fr_view f a of
        None \<Rightarrow> Inr (f\<lparr>fr_cells := (fr_cells f)(a \<mapsto> Cell True v), fr_writes := fr_writes f @ [Write a v]\<rparr>)
      | Some w \<Rightarrow> if w = v then Inr f else Inl (fault WRITE_CONFLICT))"
  by (auto simp: fr_known_def fr_write_once_def fr_cell_def fr_view_def)

lemma fr_write_once_Inr:
  assumes "fr_write_once a v f = Inr f'"
  shows "fr_known f a" "fr_known f' = fr_known f" "fr_view f' = (fr_view f)(a \<mapsto> v)"
    "fr_view f a = None \<or> fr_view f a = Some v"
    "fr_writes f' = fr_writes f @ (if fr_view f a = None then [Write a v] else [])"
proof -
  show k: "fr_known f a" using assms by (auto simp: fr_write_once_def fr_known_def bindE_eq_Inr fr_cell_iff)
  show "fr_known f' = fr_known f" "fr_view f' = (fr_view f)(a \<mapsto> v)"
    "fr_view f a = None \<or> fr_view f a = Some v"
    "fr_writes f' = fr_writes f @ (if fr_view f a = None then [Write a v] else [])"
    using assms k by (auto simp: fr_write_once_iff fun_eq_iff fr_known_def fr_view_def split: option.splits if_splits)
qed

lemma fr_write_once_raises: "fr_known f a \<Longrightarrow> fr_write_once a v f = Inl e \<Longrightarrow> e = fault WRITE_CONFLICT"
  by (auto simp: fr_write_once_iff split: option.splits if_splits)

text \<open>The frame provides the write-once interface.\<close>

interpretation frame_store: write_once_store fr_view fr_known fr_write_once
proof unfold_locales
  fix s a v
  assume k: "fr_known s a" and c: "fr_view s a = None \<or> fr_view s a = Some v"
  then obtain f' where "fr_write_once a v s = Inr f'" by (auto simp: fr_write_once_iff)
  with fr_write_once_Inr [OF this] show "\<exists>s'. fr_write_once a v s = Inr s' \<and> fr_view s' = (fr_view s)(a \<mapsto> v) \<and> fr_known s' = fr_known s"
    by blast
qed (simp add: fr_write_once_iff)

lemma fr_supply_Inr:
  assumes "fr_supply a c f = Inr f'"
  shows "fr_cells f' = (fr_cells f)(a \<mapsto> c)" "fr_writes f' = fr_writes f"
    "fr_cells f a = None \<or> fr_cells f a = Some c"
  using assms by (auto simp: fr_supply_def split: option.splits if_splits)

lemma fr_supply_raises: "fr_supply a c f = Inl e \<Longrightarrow> e = fault ALIAS_INCONSISTENT"
  by (auto simp: fr_supply_def split: option.splits if_splits)

lemma fr_supply_all_Inr:
  "fr_supply_all ps f = Inr f' \<Longrightarrow>
     fr_writes f' = fr_writes f \<and> (\<forall>(a, c) \<in> set ps. fr_cells f' a = Some c) \<and>
     (\<forall>a. a \<notin> fst ` set ps \<longrightarrow> fr_cells f' a = fr_cells f a) \<and>
     (\<forall>a c. fr_cells f a = Some c \<longrightarrow> fr_cells f' a = Some c)"
proof (induction ps arbitrary: f)
  case Nil
  then show ?case by simp
next
  case (Cons p ps)
  obtain a c where p: "p = (a, c)" by force
  from Cons.prems obtain g where g: "fr_supply a c f = Inr g" "fr_supply_all ps g = Inr f'"
    by (auto simp: p bindE_eq_Inr)
  note s = fr_supply_Inr [OF g(1)] and ih = Cons.IH [OF g(2)]
  have "fr_cells f' x = Some y" if "fr_cells f x = Some y" for x y
    using that s ih by (cases "x = a") auto
  moreover have "fr_cells f' a = Some c" using s(1) ih by simp
  ultimately show ?case using s ih by (auto simp: p image_iff)
qed

lemma fr_supply_all_raises: "fr_supply_all ps f = Inl e \<Longrightarrow> e = fault ALIAS_INCONSISTENT"
  by (induction ps f rule: fr_supply_all.induct) (auto simp: bindE_eq_Inl dest: fr_supply_raises)

text \<open>
  What every frame of a transition satisfies: cells in range, and the writes are at distinct
  addresses and hold what the cells now hold.
\<close>

definition frame_inv :: "frame \<Rightarrow> bool" where
  "frame_inv f \<longleftrightarrow>
     (\<forall>a c. fr_cells f a = Some c \<longrightarrow> fits 32 a \<and> cell_ok c) \<and>
     distinct (map wr_address (fr_writes f)) \<and>
     (\<forall>w\<in>set (fr_writes f). fr_cells f (wr_address w) = Some (Cell True (wr_value w)))"

lemma frame_inv_Frame [simp]: "frame_inv Frame"
  by (simp add: frame_inv_def Frame_def)

text \<open>The memory the host supplied: what the frame shows without its own writes.\<close>

definition fr_base :: "frame \<Rightarrow> int \<Rightarrow> int option" where
  "fr_base f a = (if a \<in> wr_address ` set (fr_writes f) then None else fr_view f a)"

definition writes_map :: "cell_write list \<Rightarrow> int \<Rightarrow> int option" where
  "writes_map ws = map_of (map (\<lambda>w. (wr_address w, wr_value w)) ws)"

lemma Write_simps [simp]: "wr_address (Write a v) = a" "wr_value (Write a v) = v"
  by (simp_all add: Write_def)

lemma frame_inv_write:
  assumes inv: "frame_inv f" and w: "fr_write_once a v f = Inr f'" and v: "fits 128 v"
  shows "frame_inv f'" "fr_base f' = fr_base f"
proof -
  note k = fr_write_once_Inr [OF w]
  have f': "f' = (if fr_view f a = None then f\<lparr>fr_cells := (fr_cells f)(a \<mapsto> Cell True v), fr_writes := fr_writes f @ [Write a v]\<rparr> else f)"
    using w k(1) by (auto simp: fr_write_once_iff split: option.splits if_splits)
  have fresh: "a \<notin> wr_address ` set (fr_writes f)" if "fr_view f a = None"
    using inv that by (auto simp: frame_inv_def fr_view_def split: option.splits if_splits)
  have a: "fits 32 a" using inv k(1) by (auto simp: frame_inv_def fr_known_def)
  show "frame_inv f'"
  proof (cases "fr_view f a = None")
    case True
    with fresh inv v a f' show ?thesis by (auto simp: frame_inv_def)
  next
    case False
    with inv f' show ?thesis by simp
  qed
  show "fr_base f' = fr_base f"
    using k fresh by (cases "fr_view f a = None") (auto simp: fr_base_def fun_eq_iff)
qed

lemma frame_view_base:
  assumes "frame_inv f"
  shows "fr_view f = fr_base f ++ writes_map (fr_writes f)"
proof
  fix a
  have d: "distinct (map wr_address (fr_writes f))" using assms by (simp add: frame_inv_def)
  then have m: "writes_map (fr_writes f) a = Some v \<longleftrightarrow> (\<exists>w\<in>set (fr_writes f). wr_address w = a \<and> wr_value w = v)" for v
    unfolding writes_map_def by (subst map_of_eq_Some_iff) (auto simp: o_def)
  show "fr_view f a = (fr_base f ++ writes_map (fr_writes f)) a"
  proof (cases "\<exists>w\<in>set (fr_writes f). wr_address w = a")
    case True
    then obtain w where w: "w \<in> set (fr_writes f)" "wr_address w = a" by blast
    then have "writes_map (fr_writes f) a = Some (wr_value w)" using m by blast
    moreover have "fr_cells f a = Some (Cell True (wr_value w))" using assms w by (auto simp: frame_inv_def)
    ultimately show ?thesis by (simp add: fr_view_def)
  next
    case False
    then have "writes_map (fr_writes f) a = None" using m by (meson not_None_eq)
    with False show ?thesis by (auto simp: map_add_def fr_base_def)
  qed
qed

lemma frame_inv_supply:
  assumes "frame_inv f" "fr_supply a c f = Inr f'" "fits 32 a" "cell_ok c"
  shows "frame_inv f'"
  using assms fr_supply_Inr [OF assms(2)] by (auto simp: frame_inv_def split: if_splits)

lemma frame_inv_supply_all:
  "frame_inv f \<Longrightarrow> fr_supply_all ps f = Inr f' \<Longrightarrow> \<forall>(a, c)\<in>set ps. fits 32 a \<and> cell_ok c \<Longrightarrow> frame_inv f'"
  by (induction ps f rule: fr_supply_all.induct) (auto simp: bindE_eq_Inr dest: frame_inv_supply)

section \<open>What a transition produces\<close>

text \<open>The memory a list of supplied cells describes.\<close>

definition cells_view :: "(int \<times> cell) list \<Rightarrow> int \<Rightarrow> int option" where
  "cells_view ps a = (case map_of ps a of None \<Rightarrow> None
     | Some c \<Rightarrow> if cell_present c then Some (cell_value c) else None)"

lemma checked_add_fits: "checked_add a b = Inr c \<Longrightarrow> 0 \<le> a \<Longrightarrow> 0 \<le> b \<Longrightarrow> fits 32 c \<and> c = a + b"
  by (auto simp: checked_add_Inr fits_def)

lemma checked_add_raises: "checked_add a b = Inl e \<Longrightarrow> e = fault U32_OVERFLOW"
  by (auto simp: checked_add_def Let_def split: if_splits)

lemma mapE_checked_add:
  assumes "mapE (checked_add fp) offs = Inr addrs" "0 \<le> fp" "\<forall>v\<in>set offs. fits 32 v"
  shows "addrs = map ((+) fp) offs" "\<forall>a\<in>set addrs. fits 32 a"
proof -
  have len: "length addrs = length offs" and nth: "\<forall>i<length offs. checked_add fp (offs ! i) = Inr (addrs ! i)"
    using assms(1) by (simp_all add: mapE_eq_Inr)
  have "addrs ! i = fp + offs ! i \<and> fits 32 (addrs ! i)" if "i < length offs" for i
    using nth assms(2,3) that checked_add_fits fits_nonneg nth_mem by (metis (no_types))
  with len show "addrs = map ((+) fp) offs" "\<forall>a\<in>set addrs. fits 32 a"
    by (auto intro: nth_equalityI simp: set_conv_nth)
qed

lemma mapE_raises: "(\<And>x e. f x = Inl e \<Longrightarrow> P e) \<Longrightarrow> mapE f xs = Inl e \<Longrightarrow> P e"
  by (induction xs) (auto simp: bindE_eq_Inl)

lemma supply_frame:
  assumes s: "fr_supply_all (zip addrs cs) Frame = Inr f" and len: "length addrs = length cs"
    and a: "\<forall>a\<in>set addrs. fits 32 a" and c: "\<forall>c\<in>set cs. cell_ok c"
  shows "frame_inv f" "fr_writes f = []" "fr_view f = cells_view (zip addrs cs)"
    "\<forall>a\<in>set addrs. fr_known f a" "fr_base f = fr_view f"
proof -
  note i = fr_supply_all_Inr [OF s]
  show "frame_inv f" using a c
    by (intro frame_inv_supply_all [OF frame_inv_Frame s]) (auto dest: set_zip_leftD set_zip_rightD)
  show w: "fr_writes f = []" using i by (simp add: Frame_def)
  have keys: "fst ` set (zip addrs cs) = set addrs"
    using map_fst_zip [OF len] by (metis set_map)
  show "\<forall>a\<in>set addrs. fr_known f a"
  proof
    fix a assume "a \<in> set addrs"
    then obtain c where "(a, c) \<in> set (zip addrs cs)" using keys by force
    with i show "fr_known f a" by (auto simp: fr_known_def)
  qed
  have "fr_cells f a = map_of (zip addrs cs) a" for a
  proof (cases "a \<in> set addrs")
    case True
    then obtain c where m: "map_of (zip addrs cs) a = Some c"
      using keys by (metis map_of_eq_None_iff not_Some_eq)
    with map_of_SomeD [OF this] i show ?thesis by auto
  next
    case False
    then have "map_of (zip addrs cs) a = None" using keys by (simp add: map_of_eq_None_iff)
    moreover have "fr_cells f a = fr_cells Frame a" using i False keys by blast
    ultimately show ?thesis by (simp add: Frame_def)
  qed
  then show "fr_view f = cells_view (zip addrs cs)"
    by (simp add: fun_eq_iff fr_view_def cells_view_def)
  show "fr_base f = fr_view f" by (simp add: fun_eq_iff fr_base_def w)
qed

lemma fits_read0: "frame_inv f \<Longrightarrow> fits 128 (read0 (fr_view f) a)"
  by (auto simp: frame_inv_def read0_def fr_view_def cell_ok_def split: option.splits if_splits)

text \<open>A frame reached from another by write-once writes.\<close>

definition frame_ext :: "frame \<Rightarrow> frame \<Rightarrow> nat \<Rightarrow> bool" where
  "frame_ext f g n \<longleftrightarrow> frame_inv g \<and> fr_base g = fr_base f \<and> fr_known g = fr_known f \<and>
     fr_view f \<subseteq>\<^sub>m fr_view g \<and> length (fr_writes g) \<le> length (fr_writes f) + n"

lemma frame_ext_refl: "frame_inv f \<Longrightarrow> frame_ext f f n"
  by (simp add: frame_ext_def)

lemma frame_ext_trans: "frame_ext f g m \<Longrightarrow> frame_ext g h n \<Longrightarrow> frame_ext f h (m + n)"
  by (auto simp: frame_ext_def intro: map_le_trans)

lemma frame_ext_write:
  "frame_inv f \<Longrightarrow> fr_write_once a v f = Inr g \<Longrightarrow> fits 128 v \<Longrightarrow> frame_ext f g (Suc 0)"
  using fr_write_once_Inr [of a v f g] frame_inv_write [of f a v g]
  by (auto simp: frame_ext_def map_le_def split: if_splits)

lemma frame_ext_mono: "frame_ext f g m \<Longrightarrow> m \<le> n \<Longrightarrow> frame_ext f g n"
  by (auto simp: frame_ext_def)

text \<open>The back-solve.\<close>

lemma back_solve_Inr:
  assumes inv: "frame_inv f" and k: "fr_known f a" "fr_known f b" "fr_known f c"
    and r: "back_solve d a b c f = Inr (g, n)"
  shows "frame_ext f g 1" "n = 0 \<or> n = 1 \<or> n = 256" "n = 0 \<longrightarrow> g = f"
    "fr_view f c = None \<longrightarrow> g = f"
  using r k inv
  by (auto simp: back_solve_def bindE_eq_Inr Let_def ASSUMPTIONS_def fits_read0 frame_ext_refl
      intro!: frame_ext_write fits_xor fits_read0 fits_field_mul split: if_splits)

lemma back_solve_raises:
  assumes k: "fr_known f a" "fr_known f b" "fr_known f c" and r: "back_solve d a b c f = Inl e"
  shows "wire_fault e"
  using r k
  by (auto simp: back_solve_def bindE_eq_Inl Let_def dest: fr_write_once_raises [rotated] split: if_splits)


text \<open>A decided transition that the endpoint can put on the wire.\<close>

definition staged_ok :: "staged_transaction \<Rightarrow> bool" where
  "staged_ok s \<longleftrightarrow> fits 32 (st_txn_id s) \<and> fits 32 (st_next_pc s) \<and> fits 32 (st_next_fp s)
     \<and> length (st_writes s) \<le> 2 \<and> distinct (map wr_address (st_writes s))
     \<and> (\<forall>w\<in>set (st_writes s). fits 32 (wr_address w) \<and> fits 128 (wr_value w))
     \<and> length (st_deferred s) \<le> 1
     \<and> (\<forall>x\<in>set (st_deferred s). fits 32 (df_target x) \<and> fits 32 (df_local x))
     \<and> length (st_accesses s) \<le> 8 \<and> (\<forall>a\<in>set (st_accesses s). fits 32 a)"

definition write_bytes :: "cell_write \<Rightarrow> bytes" where
  "write_bytes w = to_le 4 (wr_address w) @ to_le 16 (wr_value w)"

definition deferred_bytes :: "deferred_equality \<Rightarrow> bytes" where
  "deferred_bytes x = to_le 4 (df_target x) @ to_le 4 (df_local x)"

definition result_bytes :: "staged_transaction \<Rightarrow> bytes" where
  "result_bytes s = to_le 4 (st_txn_id s) @ to_le 4 (st_next_pc s) @ to_le 4 (st_next_fp s)
     @ to_le 1 (int (length (st_writes s))) @ concat (map write_bytes (st_writes s))
     @ to_le 1 (int (length (st_deferred s))) @ concat (map deferred_bytes (st_deferred s))
     @ to_le 1 (int (length (st_accesses s))) @ u32s (st_accesses s)"

lemma catE_map_ok: "\<forall>x\<in>set xs. f x = Inr (g x) \<Longrightarrow> catE (map f xs) = Inr (concat (map g xs))"
  by (induction xs) simp_all

lemma encode_write_ok: "fits 32 (wr_address w) \<Longrightarrow> fits 128 (wr_value w) \<Longrightarrow> encode_write w = Inr (write_bytes w)"
  by (simp add: encode_write_def prim_fits write_bytes_def)

lemma encode_deferred_ok: "fits 32 (df_target x) \<Longrightarrow> fits 32 (df_local x) \<Longrightarrow> encode_deferred x = Inr (deferred_bytes x)"
  by (simp add: encode_deferred_def prim_fits deferred_bytes_def)

lemma result_payload_ok:
  assumes "staged_ok s"
  shows "result_payload s = Inr (result_bytes s)"
proof -
  have n: "fits 8 (int (length (st_writes s)))" "fits 8 (int (length (st_deferred s)))" "fits 8 (int (length (st_accesses s)))"
    using assms by (auto simp: staged_ok_def fits_def)
  have "catE (map encode_write (st_writes s)) = Inr (concat (map write_bytes (st_writes s)))"
    "catE (map encode_deferred (st_deferred s)) = Inr (concat (map deferred_bytes (st_deferred s)))"
    "catE (map u32le (st_accesses s)) = Inr (u32s (st_accesses s))"
    using assms by (auto intro!: catE_map_ok simp: staged_ok_def encode_write_ok encode_deferred_ok prim_fits)
  with n assms show ?thesis
    by (simp add: result_payload_def catE_append prim_fits result_bytes_def staged_ok_def)
qed

lemma length_concat_const: "\<forall>x\<in>set xs. length (f x) = n \<Longrightarrow> length (concat (map f xs)) = length xs * n"
  by (induction xs) simp_all

lemma length_result_bytes:
  "length (result_bytes s) = result_payload_bytes (length (st_writes s)) (length (st_deferred s)) (length (st_accesses s))"
  by (simp add: result_bytes_def result_payload_bytes_def length_concat_const [of _ write_bytes 20]
      length_concat_const [of _ deferred_bytes 8] write_bytes_def deferred_bytes_def wire_constants)

lemma result_bytes_small: "staged_ok s \<Longrightarrow> length (result_bytes s) \<le> 95"
  by (simp add: length_result_bytes result_payload_bytes_def staged_ok_def wire_constants)

text \<open>The fields a transition takes over, and its frame.\<close>

lemma frame_writes_ok:
  assumes "frame_inv f"
  shows "distinct (map wr_address (fr_writes f))"
    "\<forall>w\<in>set (fr_writes f). fits 32 (wr_address w) \<and> fits 128 (wr_value w)"
  using assms by (auto simp: frame_inv_def) (metis cell_ok_Cell(1))+

lemma offsets_3: "length xs = 3 \<Longrightarrow> \<exists>a b c. xs = [a, b, c]"
  by (auto simp: numeral_eq_Suc length_Suc_conv)

text \<open>A computation that raises nothing but \<open>ProtocolFault\<close>.\<close>

definition only_faults :: "'a res \<Rightarrow> bool" where
  "only_faults m \<longleftrightarrow> (\<forall>e. m = Inl e \<longrightarrow> wire_fault e)"

lemma only_faults_bind:
  "only_faults m \<Longrightarrow> (\<And>x. m = Inr x \<Longrightarrow> only_faults (f x)) \<Longrightarrow> only_faults (bindE m f)"
  by (cases m) (auto simp: only_faults_def)

lemma only_faults_simps [simp]:
  "only_faults (Inr x)"
  "only_faults (Inl e) \<longleftrightarrow> wire_fault e"
  by (simp_all add: only_faults_def)

lemma only_faults_checked_add [simp]: "only_faults (checked_add a b)"
  by (auto simp: only_faults_def dest: checked_add_raises)

lemma only_faults_mapE: "(\<And>x. x \<in> set xs \<Longrightarrow> only_faults (f x)) \<Longrightarrow> only_faults (mapE f xs)"
  by (induction xs) (auto intro!: only_faults_bind)

lemma only_faults_addresses [simp]: "only_faults (mapE (checked_add fp) xs)"
  by (rule only_faults_mapE) simp

lemma only_faults_frame [simp]:
  "only_faults (fr_supply a c f)" "only_faults (fr_supply_all ps f)"
  "fr_known f a \<Longrightarrow> only_faults (fr_write_once a v f)"
  "fr_known f a \<Longrightarrow> only_faults (fr_read f a)"
  "fr_known f a \<Longrightarrow> only_faults (fr_present f a)"
  by (auto simp: only_faults_def dest: fr_supply_raises fr_supply_all_raises fr_write_once_raises)

lemma only_faults_field_encode [simp]: "only_faults (field_encode i)"
  by (auto simp: only_faults_def field_encode_def split: if_splits)

lemma only_faults_verify_index [simp]: "only_faults (verify_index b p)"
  by (auto simp: verify_index_def intro!: only_faults_bind)

text \<open>The operands of a three-address instruction.\<close>

definition shape_3 :: "decoded_request \<Rightarrow> bool" where
  "shape_3 d \<longleftrightarrow> dq_fields_ok d \<and> length (dq_offsets d) = 3 \<and> length (dq_cells d) = 3"

definition operands_ok :: "decoded_request \<Rightarrow> staged_transaction \<Rightarrow> frame \<Rightarrow> int \<Rightarrow> int \<Rightarrow> int \<Rightarrow> bool" where
  "operands_ok d t f a b c \<longleftrightarrow>
     map ((+) (st_fp t)) (dq_offsets d) = [a, b, c] \<and> (\<forall>x\<in>{a, b, c}. fits 32 x \<and> fr_known f x) \<and>
     frame_inv f \<and> fr_writes f = [] \<and> fr_base f = fr_view f \<and>
     fr_view f = cells_view (zip [a, b, c] (dq_cells d))"

lemma case_list_3 [raise_simps]:
  "(case xs of [a, b, c] \<Rightarrow> Inr (f a b c) | _ \<Rightarrow> Inl e) = Inr y \<longleftrightarrow> (\<exists>a b c. xs = [a, b, c] \<and> y = f a b c)"
  by (auto split: list.splits)

lemma operands_Inr:
  assumes r: "operands d t = Inr (f, a, b, c)" and ok: "shape_3 d" and t: "0 \<le> st_fp t"
  shows "operands_ok d t f a b c"
proof -
  have len: "length (dq_offsets d) = 3" "length (dq_cells d) = 3" "\<forall>v\<in>set (dq_offsets d). fits 32 v" "\<forall>c\<in>set (dq_cells d). cell_ok c"
    using ok by (simp_all add: shape_3_def dq_fields_ok_def)
  from r have addrs: "mapE (checked_add (st_fp t)) (dq_offsets d) = Inr [a, b, c]"
    and f: "fr_supply_all (zip [a, b, c] (dq_cells d)) Frame = Inr f"
    by (auto simp: operands_def bindE_eq_Inr case_list_3)
  note m = mapE_checked_add [OF addrs t len(3)]
  from supply_frame [OF f _ m(2) len(4)] len m show ?thesis by (auto simp: operands_ok_def)
qed

lemma operands_raises:
  assumes "shape_3 d" shows "only_faults (operands d t)"
proof -
  have "only_faults (case xs of [a, b, c] \<Rightarrow> Inr (f, a, b, c) | _ \<Rightarrow> Inl ValueError)"
    if "mapE (checked_add (st_fp t)) (dq_offsets d) = Inr xs" for xs f
    using offsets_3 [of xs] mapE_length [OF that] assms by (auto simp: shape_3_def)
  note core = this
  show ?thesis unfolding operands_def by (intro only_faults_bind core) simp_all
qed

text \<open>\<open>_execute_binary\<close>.\<close>

lemma execute_binary_Inr:
  assumes r: "execute_binary d t = Inr s" and ok: "shape_3 d" and t: "0 \<le> st_pc t" "fits 32 (st_fp t)"
  obtains f a b c g n h where
    "operands_ok d t f a b c" "back_solve d a b c f = Inr (g, n)"
    "frame_ext f g 1" "frame_ext g h 1"
    "fr_write_once c (if dq_opcode d = OP_XOR then read0 (fr_view g) a XOR read0 (fr_view g) b
       else field_mul (read0 (fr_view g) a) (read0 (fr_view g) b)) g = Inr h"
    "fits 32 (st_pc t + 1)"
    "s = t\<lparr>st_writes := fr_writes h, st_accesses := [a, b, c], st_next_pc := st_pc t + 1, st_next_fp := st_fp t,
           st_execute_cycles := n + (if dq_opcode d = OP_XOR then 1 else 128)\<rparr>"
proof -
  from r obtain f a b c g n h npc where
    f: "operands d t = Inr (f, a, b, c)" and g: "back_solve d a b c f = Inr (g, n)"
    and h: "bindE (fr_read g a) (\<lambda>left. bindE (fr_read g b) (\<lambda>right.
        fr_write_once c (if dq_opcode d = OP_XOR then left XOR right else field_mul left right) g)) = Inr h"
    and npc: "checked_add (st_pc t) 1 = Inr npc"
    and s: "s = t\<lparr>st_writes := fr_writes h, st_accesses := [a, b, c], st_next_pc := npc, st_next_fp := st_fp t,
       st_execute_cycles := n + (if dq_opcode d = OP_XOR then ba_field_xor ASSUMPTIONS else ba_field_mul ASSUMPTIONS)\<rparr>"
    by (auto simp: execute_binary_def bindE_eq_Inr)
  have o: "operands_ok d t f a b c" by (rule operands_Inr [OF f ok fits_nonneg [OF t(2)]])
  then have k: "frame_inv f" "fr_known f a" "fr_known f b" "fr_known f c" by (simp_all add: operands_ok_def)
  note bs = back_solve_Inr(1) [OF k g]
  then have kg: "fr_known g a" "fr_known g b" "frame_inv g" using k by (simp_all add: frame_ext_def)
  define v where "v = (if dq_opcode d = OP_XOR then read0 (fr_view g) a XOR read0 (fr_view g) b
       else field_mul (read0 (fr_view g) a) (read0 (fr_view g) b))"
  have hw: "fr_write_once c v g = Inr h" using h kg by (simp add: v_def)
  have "fits 128 v" using fits_read0 [OF kg(3)] by (simp add: v_def)
  note he = frame_ext_write [OF kg(3) hw this]
  have p: "fits 32 (st_pc t + 1)" "npc = st_pc t + 1" using checked_add_fits [OF npc] t(1) by auto
  show thesis
    by (rule that [of f a b c g n h]) (use o g bs he hw p s in \<open>simp_all add: v_def ASSUMPTIONS_def\<close>)
qed

lemma execute_binary_raises:
  assumes ok: "shape_3 d" and t: "0 \<le> st_fp t"
  shows "only_faults (execute_binary d t)"
proof -
  have "only_faults (back_solve d a b c f) \<and>
      (\<forall>g n. back_solve d a b c f = Inr (g, n) \<longrightarrow> fr_known g a \<and> fr_known g b \<and> fr_known g c)"
    if "operands d t = Inr (f, a, b, c)" for f a b c
  proof -
    have k: "frame_inv f" "fr_known f a" "fr_known f b" "fr_known f c"
      using operands_Inr [OF that ok t] by (simp_all add: operands_ok_def)
    show ?thesis
      using back_solve_raises [OF k(2-4)] back_solve_Inr(1) [OF k] k(2-4)
      by (auto simp: only_faults_def frame_ext_def)
  qed
  then show ?thesis
    unfolding execute_binary_def
    by (auto intro!: only_faults_bind operands_raises [OF ok])
qed

text \<open>\<open>_execute_set\<close>.\<close>

lemma nthE_simps [simp]: "i < length xs \<Longrightarrow> nthE xs i = Inr (xs ! i)"
  by (simp add: nthE_def)

lemma frame_inv_supplied:
  assumes "fr_supply a c Frame = Inr f" "fits 32 a" "cell_ok c"
  shows "frame_inv f" "fr_known f a" "fr_writes f = []" "fr_view f = cells_view [(a, c)]" "fr_base f = fr_view f"
proof -
  have "fr_supply_all (zip [a] [c]) Frame = Inr f" using assms by simp
  from supply_frame [OF this] assms
  show "frame_inv f" "fr_known f a" "fr_writes f = []" "fr_view f = cells_view [(a, c)]" "fr_base f = fr_view f" by simp_all
qed

definition shape_1 :: "decoded_request \<Rightarrow> bool" where
  "shape_1 d \<longleftrightarrow> dq_fields_ok d \<and> length (dq_offsets d) = 1 \<and> length (dq_cells d) = 1"

lemma execute_set_Inr:
  assumes r: "execute_set d t = Inr s" and ok: "shape_1 d" and t: "0 \<le> st_pc t" "fits 32 (st_fp t)"
  obtains a f h where
    "a = st_fp t + dq_offsets d ! 0" "fits 32 a" "fr_known f a" "frame_inv f" "fr_writes f = []" "fr_base f = fr_view f"
    "fr_view f = cells_view [(a, dq_cells d ! 0)]" "frame_ext f h 1"
    "fr_write_once a (dq_constant d) f = Inr h" "fits 32 (st_pc t + 1)"
    "s = t\<lparr>st_writes := fr_writes h, st_accesses := [a], st_next_pc := st_pc t + 1, st_next_fp := st_fp t,
           st_execute_cycles := 0\<rparr>"
proof -
  have len: "fits 32 (dq_offsets d ! 0)" "cell_ok (dq_cells d ! 0)" "fits 128 (dq_constant d)"
    using ok by (simp_all add: shape_1_def dq_fields_ok_def)
  from r ok obtain a f h npc where a: "checked_add (st_fp t) (dq_offsets d ! 0) = Inr a"
    and f: "fr_supply a (dq_cells d ! 0) Frame = Inr f" and h: "fr_write_once a (dq_constant d) f = Inr h"
    and npc: "checked_add (st_pc t) 1 = Inr npc"
    and s: "s = t\<lparr>st_writes := fr_writes h, st_accesses := [a], st_next_pc := npc, st_next_fp := st_fp t,
           st_execute_cycles := 0\<rparr>"
    by (auto simp: execute_set_def bindE_eq_Inr shape_1_def)
  note a' = checked_add_fits [OF a fits_nonneg [OF t(2)] fits_nonneg [OF len(1)]]
  note p = checked_add_fits [OF npc t(1)]
  note fi = frame_inv_supplied [OF f conjunct1 [OF a'] len(2)]
  show thesis
    by (rule that [of a f h]) (use a' p fi h s frame_ext_write [OF fi(1) h len(3)] in auto)
qed

lemma execute_set_raises:
  assumes "shape_1 d" shows "only_faults (execute_set d t)"
  unfolding execute_set_def
  using assms by (auto intro!: only_faults_bind simp: shape_1_def fr_known_def dest: fr_supply_Inr)


text \<open>\<open>_verify_index\<close> and \<open>_execute_deref\<close>.\<close>

lemma verify_index_Inr:
  "verify_index base p = Inr n \<longleftrightarrow> 0 \<le> base \<and> base < 2 ^ 16 \<and> p = of_gf (gen ^ nat base) \<and> n = 2064"
  by (auto simp: verify_index_def field_encode_gf bindE_eq_Inr wire_constants encode_index_def ASSUMPTIONS_def)

lemma field_encode_fits: "field_encode i = Inr v \<Longrightarrow> fits 128 v"
  by (auto simp: field_encode_gf split: if_splits)

lemma deref_cell_Inr:
  assumes r: "deref_cell d ta la f = Inr (g, df, n)" and inv: "frame_inv f" and k: "fr_known f ta" "fr_known f la"
  shows "frame_ext f g 1" "df = [] \<or> (df = [DeferredEquality ta la] \<and> g = f \<and> fr_view f ta = None \<and> fr_view f la = None)"
  using r k inv
  by (auto simp: deref_cell_def bindE_eq_Inr Let_def fits_read0 frame_ext_refl
      intro!: frame_ext_write fits_read0 split: if_splits)

lemma deref_cell_raises: "fr_known f ta \<Longrightarrow> fr_known f la \<Longrightarrow> only_faults (deref_cell d ta la f)"
  unfolding deref_cell_def by (auto intro!: only_faults_bind)

definition deref_body :: "decoded_request \<Rightarrow> staged_transaction \<Rightarrow> int \<Rightarrow> int \<Rightarrow> frame \<Rightarrow> (frame \<times> deferred_equality list \<times> int) res" where
  "deref_body d t ta la f =
     (if dq_opcode d = OP_DEREF_CELL then deref_cell d ta la f
      else if dq_opcode d = OP_DEREF_PC then
        bindE (checked_add (st_pc t) 2) (\<lambda>return_pc.
        bindE (field_encode return_pc) (\<lambda>v.
        bindE (fr_write_once ta v f) (\<lambda>f. Inr (f, [], encode_index ASSUMPTIONS))))
      else
        bindE (field_encode (st_fp t)) (\<lambda>v.
        bindE (fr_write_once ta v f) (\<lambda>f. Inr (f, [], encode_index ASSUMPTIONS))))"

lemma deref_body_Inr:
  assumes r: "deref_body d t ta la f = Inr (g, df, n)" and inv: "frame_inv f" and k: "fr_known f ta" "fr_known f la"
  shows "frame_ext f g 1" "df = [] \<or> (df = [DeferredEquality ta la] \<and> g = f \<and> fr_view f ta = None \<and> fr_view f la = None)"
  using r deref_cell_Inr [OF _ inv k] inv
  by (auto simp: deref_body_def bindE_eq_Inr intro!: frame_ext_write dest: field_encode_fits split: if_splits)

lemma deref_body_raises: "fr_known f ta \<Longrightarrow> fr_known f la \<Longrightarrow> only_faults (deref_body d t ta la f)"
  unfolding deref_body_def by (auto intro!: only_faults_bind deref_cell_raises)

lemma deref_frame:
  assumes "shape_3 d" "0 \<le> st_fp t" "dq_offsets d = [alpha, beta, gamma]"
    "checked_add (st_fp t) alpha = Inr pa" "checked_add (st_fp t) gamma = Inr la"
    "fr_supply pa (dq_cells d ! 0) Frame = Inr f0" "checked_add (dq_base d) beta = Inr ta"
    "fr_supply ta (dq_cells d ! 1) f0 = Inr f1" "fr_supply la (dq_cells d ! 2) f1 = Inr f"
  shows "pa = st_fp t + alpha" "ta = dq_base d + beta" "la = st_fp t + gamma" "\<forall>x\<in>{pa, ta, la}. fits 32 x \<and> fr_known f x"
    "frame_inv f" "fr_writes f = []" "fr_base f = fr_view f" "fr_view f = cells_view (zip [pa, ta, la] (dq_cells d))"
    "fr_known f0 pa" "read0 (fr_view f0) pa = read0 (fr_view f) pa"
proof -
  have w: "fits 32 alpha" "fits 32 beta" "fits 32 gamma" "fits 32 (dq_base d)" "\<forall>c\<in>set (dq_cells d). cell_ok c" "length (dq_cells d) = 3"
    using assms(1,3) by (auto simp: shape_3_def dq_fields_ok_def)
  show a: "pa = st_fp t + alpha" "ta = dq_base d + beta" "la = st_fp t + gamma"
    using checked_add_fits [OF assms(4)] checked_add_fits [OF assms(5)] checked_add_fits [OF assms(7)] w assms(2)
    by (auto simp: fits_def)
  have fa: "\<forall>a\<in>set [pa, ta, la]. fits 32 a"
    using checked_add_fits [OF assms(4)] checked_add_fits [OF assms(5)] checked_add_fits [OF assms(7)] w assms(2)
    by (auto simp: fits_def)
  obtain c0 c1 c2 where c: "dq_cells d = [c0, c1, c2]" using offsets_3 [OF w(6)] by blast
  have "fr_supply_all (zip [pa, ta, la] (dq_cells d)) Frame = Inr f" using assms(6,8,9) by (simp add: c)
  from supply_frame [OF this _ fa w(5)] w(6) fa
  show "\<forall>x\<in>{pa, ta, la}. fits 32 x \<and> fr_known f x"
    "frame_inv f" "fr_writes f = []" "fr_base f = fr_view f" "fr_view f = cells_view (zip [pa, ta, la] (dq_cells d))" by auto
  note s0 = fr_supply_Inr [OF assms(6)] and s1 = fr_supply_Inr [OF assms(8)] and s2 = fr_supply_Inr [OF assms(9)]
  show "fr_known f0 pa" using s0 by (simp add: fr_known_def)
  have "fr_cells f pa = fr_cells f0 pa" using s0 s1 s2 by (auto split: if_splits)
  then show "read0 (fr_view f0) pa = read0 (fr_view f) pa" by (simp add: read0_def fr_view_def)
qed

lemma execute_deref_Inr:
  assumes r: "execute_deref d t = Inr s" and ok: "shape_3 d" and t: "0 \<le> st_pc t" "fits 32 (st_fp t)"
  obtains pa ta la f g df n where
    "pa = st_fp t + dq_offsets d ! 0" "ta = dq_base d + dq_offsets d ! 1" "la = st_fp t + dq_offsets d ! 2"
    "\<forall>x\<in>{pa, ta, la}. fits 32 x \<and> fr_known f x" "frame_inv f" "fr_writes f = []" "fr_base f = fr_view f"
    "fr_view f = cells_view (zip [pa, ta, la] (dq_cells d))"
    "0 \<le> dq_base d" "dq_base d < 2 ^ 16" "read0 (fr_view f) pa = of_gf (gen ^ nat (dq_base d))"
    "deref_body d t ta la f = Inr (g, df, n)" "fits 32 (st_pc t + 1)"
    "s = t\<lparr>st_writes := fr_writes g, st_deferred := df, st_accesses := [pa, ta, la],
           st_next_pc := st_pc t + 1, st_next_fp := st_fp t, st_execute_cycles := 2064 + n\<rparr>"
proof -
  from r obtain alpha beta gamma pa la f0 p n0 ta f1 f g df n npc where
    offs: "dq_offsets d = [alpha, beta, gamma]" and pa: "checked_add (st_fp t) alpha = Inr pa"
    and la: "checked_add (st_fp t) gamma = Inr la"
    and f0: "bindE (nthE (dq_cells d) 0) (\<lambda>c. fr_supply pa c Frame) = Inr f0"
    and p: "fr_read f0 pa = Inr p" and n0: "verify_index (dq_base d) p = Inr n0"
    and ta: "checked_add (dq_base d) beta = Inr ta"
    and f1: "bindE (nthE (dq_cells d) 1) (\<lambda>c. fr_supply ta c f0) = Inr f1"
    and f: "bindE (nthE (dq_cells d) 2) (\<lambda>c. fr_supply la c f1) = Inr f"
    and g: "deref_body d t ta la f = Inr (g, df, n)" and npc: "checked_add (st_pc t) 1 = Inr npc"
    and s: "s = t\<lparr>st_writes := fr_writes g, st_deferred := df, st_accesses := [pa, ta, la],
           st_next_pc := npc, st_next_fp := st_fp t, st_execute_cycles := n0 + n\<rparr>"
    by (auto simp: execute_deref_def deref_body_def [symmetric] bindE_eq_Inr case_list_3)
  have cells: "nthE (dq_cells d) 0 = Inr (dq_cells d ! 0)" "nthE (dq_cells d) 1 = Inr (dq_cells d ! 1)"
    "nthE (dq_cells d) 2 = Inr (dq_cells d ! 2)" using ok by (simp_all add: shape_3_def)
  note fr = deref_frame [OF ok fits_nonneg [OF t(2)] offs pa la f0 [unfolded cells bindE_simps] ta
      f1 [unfolded cells bindE_simps] f [unfolded cells bindE_simps]]
  have "p = read0 (fr_view f) pa" using p fr(9,10) by simp
  moreover note checked_add_fits [OF npc t(1)]
  ultimately show thesis using fr offs n0 g s unfolding verify_index_Inr
    by (intro that [of pa ta la f g df n]) auto
qed

lemma execute_deref_raises:
  assumes ok: "shape_3 d" and t: "0 \<le> st_fp t"
  shows "only_faults (execute_deref d t)"
proof -
  obtain alpha beta gamma where offs: "dq_offsets d = [alpha, beta, gamma]"
    using offsets_3 [of "dq_offsets d"] ok unfolding shape_3_def by blast
  have cells: "nthE (dq_cells d) 0 = Inr (dq_cells d ! 0)" "nthE (dq_cells d) 1 = Inr (dq_cells d ! 1)"
    "nthE (dq_cells d) 2 = Inr (dq_cells d ! 2)" using ok by (simp_all add: shape_3_def)
  have "only_faults (deref_body d t ta la f)"
    if "checked_add (st_fp t) alpha = Inr pa" "checked_add (st_fp t) gamma = Inr la"
      "fr_supply pa (dq_cells d ! 0) Frame = Inr f0" "checked_add (dq_base d) beta = Inr ta"
      "fr_supply ta (dq_cells d ! 1) f0 = Inr f1" "fr_supply la (dq_cells d ! 2) f1 = Inr f" for pa la f0 ta f1 f
    using deref_frame(4) [OF ok t offs that] by (intro deref_body_raises) simp_all
  note core = this
  have k: "fr_known f a" if "fr_supply a c Frame = Inr f" for a c f
    using fr_supply_Inr [OF that] by (simp add: fr_known_def)
  show ?thesis
    unfolding execute_deref_def offs deref_body_def [symmetric] cells bindE_simps list.case prod.case
    by (intro only_faults_bind; (rule core, assumption+)?; (rule only_faults_frame(4), rule k, assumption)?;
      (simp split: prod.split)?) (auto intro!: only_faults_bind)
qed


text \<open>\<open>_execute_jump\<close>.\<close>

lemma execute_jump_Inr:
  assumes r: "execute_jump d t = Inr s" and ok: "shape_3 d" and t: "0 \<le> st_pc t" "fits 32 (st_fp t)"
  obtains f a b c n where
    "operands_ok d t f a b c" "read0 (fr_view f) a \<noteq> 0 \<longleftrightarrow> dq_taken d"
    "if dq_taken d then
       cell_present (dq_proposed_inverse d) \<and> field_mul (read0 (fr_view f) a) (cell_value (dq_proposed_inverse d)) = 1 \<and>
       0 \<le> dq_dest_pc d \<and> dq_dest_pc d < 2 ^ 16 \<and> read0 (fr_view f) b = of_gf (gen ^ nat (dq_dest_pc d)) \<and>
       0 \<le> dq_dest_fp d \<and> dq_dest_fp d < 2 ^ 16 \<and> read0 (fr_view f) c = of_gf (gen ^ nat (dq_dest_fp d)) \<and>
       st_next_pc s = dq_dest_pc d \<and> st_next_fp s = dq_dest_fp d
     else (cell_present (dq_proposed_inverse d) \<longrightarrow> cell_value (dq_proposed_inverse d) = 0) \<and>
       dq_dest_pc d = 0 \<and> dq_dest_fp d = 0 \<and> fits 32 (st_pc t + 1) \<and>
       st_next_pc s = st_pc t + 1 \<and> st_next_fp s = st_fp t"
    "st_txn_id s = st_txn_id t \<and> st_writes s = [] \<and> st_accesses s = [a, b, c] \<and> st_deferred s = st_deferred t \<and>
       st_service s = st_service t \<and> st_pending_frame s = st_pending_frame t"
proof -
  from r obtain f a b c where f: "operands d t = Inr (f, a, b, c)"
    by (auto simp: execute_jump_def bindE_eq_Inr)
  have o: "operands_ok d t f a b c" by (rule operands_Inr [OF f ok fits_nonneg [OF t(2)]])
  then have k: "fr_known f a" "fr_known f b" "fr_known f c" "fr_writes f = []" by (simp_all add: operands_ok_def)
  have ca: "checked_add (st_pc t) 1 = Inr npc \<longleftrightarrow> fits 32 (st_pc t + 1) \<and> npc = st_pc t + 1" for npc
    using t(1) by (auto simp: checked_add_Inr fits_def)
  show thesis
    by (rule that [of f a b c], rule o)
      (use r k f in \<open>auto simp: execute_jump_def Let_def bindE_eq_Inr verify_index_Inr ca split: if_splits\<close>)
qed

lemma execute_jump_raises:
  assumes ok: "shape_3 d" and t: "0 \<le> st_fp t"
  shows "only_faults (execute_jump d t)"
proof -
  have "fr_known f a \<and> fr_known f b \<and> fr_known f c" if "operands d t = Inr (f, a, b, c)" for f a b c
    using operands_Inr [OF that ok t] by (simp add: operands_ok_def)
  then show ?thesis
    unfolding execute_jump_def Let_def
    by (auto intro!: only_faults_bind operands_raises [OF ok])
qed

text \<open>\<open>_execute_blake3\<close> and \<open>_resume_blake3\<close>.\<close>

definition shape_8 :: "decoded_request \<Rightarrow> bool" where
  "shape_8 d \<longleftrightarrow> dq_fields_ok d \<and> length (dq_message_offsets d) = 4 \<and> length (dq_cells d) = 8"

lemma blake3_addresses_Inr:
  assumes r: "blake3_addresses d t = Inr addrs" and ok: "shape_8 d" and t: "fits 32 (st_fp t)"
  shows "length addrs = 8" "\<forall>a\<in>set addrs. fits 32 a"
    "addrs = map ((+) (st_fp t)) (dq_message_offsets d @ [dq_cv_offset d, dq_cv_offset d + 1, dq_out_offset d, dq_out_offset d + 1])"
proof -
  have w: "\<forall>v\<in>set (dq_message_offsets d). fits 32 v" "fits 32 (dq_cv_offset d)" "fits 32 (dq_out_offset d)" "length (dq_message_offsets d) = 4"
    using ok by (simp_all add: shape_8_def dq_fields_ok_def)
  from r obtain ms cv out cv1 out1 where
    m: "mapE (checked_add (st_fp t)) (dq_message_offsets d) = Inr ms" and
    cv: "checked_add (st_fp t) (dq_cv_offset d) = Inr cv" and out: "checked_add (st_fp t) (dq_out_offset d) = Inr out"
    and cv1: "checked_add cv 1 = Inr cv1" and out1: "checked_add out 1 = Inr out1" and a: "addrs = ms @ [cv, cv1, out, out1]"
    by (auto simp: blake3_addresses_def bindE_eq_Inr)
  note nn = fits_nonneg [OF t]
  note ms = mapE_checked_add [OF m nn w(1)]
  note 1 = checked_add_fits [OF cv nn fits_nonneg [OF w(2)]] and 2 = checked_add_fits [OF out nn fits_nonneg [OF w(3)]]
  have 3: "fits 32 cv1 \<and> cv1 = cv + 1" "fits 32 out1 \<and> out1 = out + 1"
    using checked_add_fits [OF cv1] checked_add_fits [OF out1] 1 2 fits_nonneg by auto
  show "length addrs = 8" "\<forall>a\<in>set addrs. fits 32 a"
    "addrs = map ((+) (st_fp t)) (dq_message_offsets d @ [dq_cv_offset d, dq_cv_offset d + 1, dq_out_offset d, dq_out_offset d + 1])"
    using a ms 1 2 3 w(4) by (auto simp: ac_simps)
qed

lemma execute_blake3_Inr:
  assumes r: "execute_blake3 d t sid = Inr s" and ok: "shape_8 d" and t: "0 \<le> st_pc t" "fits 32 (st_fp t)"
  obtains addrs f where
    "length addrs = 8" "\<forall>a\<in>set addrs. fits 32 a \<and> fr_known f a" "frame_inv f" "fr_writes f = []" "fr_base f = fr_view f"
    "fr_view f = cells_view (zip addrs (dq_cells d))"
    "addrs = map ((+) (st_fp t)) (dq_message_offsets d @ [dq_cv_offset d, dq_cv_offset d + 1, dq_out_offset d, dq_out_offset d + 1])"
    "drop_bit 64 (dq_metadata d) AND 0xFFFFFFFF \<le> 64" "drop_bit 96 (dq_metadata d) AND NOT 0x7F = 0"
    "st_pc t \<noteq> 65535" "fits 32 (st_pc t + 1)"
    "s = t\<lparr>st_accesses := addrs, st_next_pc := st_pc t + 1, st_next_fp := st_fp t, st_execute_cycles := 0,
           st_service := Some \<lparr>sv_service_id = sid, sv_kind = BLAKE3_COMPRESS,
             sv_message = map (read0 (fr_view f)) (take 4 addrs),
             sv_chaining_value = (read0 (fr_view f) (addrs ! 4), read0 (fr_view f) (addrs ! 5)),
             sv_metadata = dq_metadata d\<rparr>,
           st_pending_frame := Some f\<rparr>"
proof -
  from r obtain addrs f npc ms cv0 cv1 where
    guard: "drop_bit 64 (dq_metadata d) AND 0xFFFFFFFF \<le> 64" "drop_bit 96 (dq_metadata d) AND NOT 0x7F = 0"
    and addrs: "blake3_addresses d t = Inr addrs" and f: "fr_supply_all (zip addrs (dq_cells d)) Frame = Inr f"
    and pc: "st_pc t \<noteq> 65535" and npc: "checked_add (st_pc t) 1 = Inr npc"
    and ms: "mapE (fr_read f) (take 4 addrs) = Inr ms" and cv0: "bindE (nthE addrs 4) (fr_read f) = Inr cv0"
    and cv1: "bindE (nthE addrs 5) (fr_read f) = Inr cv1"
    and s: "s = t\<lparr>st_accesses := addrs, st_next_pc := npc, st_next_fp := st_fp t, st_execute_cycles := 0,
           st_service := Some \<lparr>sv_service_id = sid, sv_kind = BLAKE3_COMPRESS, sv_message = ms,
             sv_chaining_value = (cv0, cv1), sv_metadata = dq_metadata d\<rparr>, st_pending_frame := Some f\<rparr>"
    by (auto simp: execute_blake3_def Let_def bindE_eq_Inr wire_constants split: if_splits)
  note a = blake3_addresses_Inr [OF addrs ok t(2)]
  have cells: "\<forall>c\<in>set (dq_cells d). cell_ok c" "length addrs = length (dq_cells d)"
    using ok a by (simp_all add: shape_8_def dq_fields_ok_def)
  note fr = supply_frame [OF f cells(2) a(2) cells(1)]
  have p: "fits 32 (st_pc t + 1)" "npc = st_pc t + 1" using checked_add_fits [OF npc] t(1) by auto
  have "\<forall>i<length (take 4 addrs). ms ! i = read0 (fr_view f) (take 4 addrs ! i)" "length ms = length (take 4 addrs)"
    using ms fr(4) a(1) by (auto simp: mapE_eq_Inr)
  then have m: "ms = map (read0 (fr_view f)) (take 4 addrs)" by (intro nth_equalityI) simp_all
  have c: "cv0 = read0 (fr_view f) (addrs ! 4)" "cv1 = read0 (fr_view f) (addrs ! 5)"
    using cv0 cv1 fr(4) a(1) by simp_all
  show thesis by (rule that [of addrs f]) (use guard a fr p m c s pc in auto)
qed

lemma blake3_addresses_raises: "only_faults (blake3_addresses d t)"
  unfolding blake3_addresses_def by (intro only_faults_bind) simp_all

lemma execute_blake3_raises:
  assumes ok: "shape_8 d" and t: "fits 32 (st_fp t)"
  shows "only_faults (execute_blake3 d t sid)"
proof -
  have core: "only_faults (mapE (fr_read f) (take 4 addrs))" "only_faults (bindE (nthE addrs 4) (fr_read f))"
      "only_faults (bindE (nthE addrs 5) (fr_read f))"
    if addrs: "blake3_addresses d t = Inr addrs" and f: "fr_supply_all (zip addrs (dq_cells d)) Frame = Inr f" for addrs f
  proof -
    note a = blake3_addresses_Inr [OF addrs ok t]
    have cells: "\<forall>c\<in>set (dq_cells d). cell_ok c" "length addrs = length (dq_cells d)"
      using ok a by (simp_all add: shape_8_def dq_fields_ok_def)
    note fr = supply_frame [OF f cells(2) a(2) cells(1)]
    show "only_faults (mapE (fr_read f) (take 4 addrs))"
      by (rule only_faults_mapE) (use fr(4) in_set_takeD in fastforce)
    show "only_faults (bindE (nthE addrs 4) (fr_read f))" "only_faults (bindE (nthE addrs 5) (fr_read f))"
      using fr(4) a(1) by simp_all
  qed
  show ?thesis unfolding execute_blake3_def Let_def
    by (auto intro!: only_faults_bind blake3_addresses_raises core)
qed

end
