(* ===== verification/Lsc_Endpoint.thy ===== *)
theory Lsc_Endpoint
  imports Lsc_Transition
begin

text \<open>
  \<open>Lsc1Endpoint\<close> of \<open>sim/lsc1_transaction.py\<close> (lines 986-1302): the byte lane, framing,
  and the transaction state machine. A method returns its outcome and the object it leaves
  behind, also when it raises: the handlers mutate \<open>self\<close> before the last call that can
  raise, and \<open>_dispatch\<close> catches \<open>ProtocolFault\<close> without undoing anything.
\<close>

section \<open>State\<close>

record endpoint =
  ep_state :: txn_state
  ep_profile :: profile
  ep_committed_pc :: int
  ep_committed_fp :: int
  ep_state_valid :: bool
  ep_retire_seq :: int
  ep_service_seq :: int
  ep_last_status :: status
  ep_last_fault :: status
  ep_staged :: "staged_transaction option"
  ep_rx :: bytes
  ep_tx :: bytes
  ep_expected :: nat
  ep_done :: bool
  ep_abort_count :: int

text \<open>\<open>__init__\<close> and \<open>_reset\<close> produce the same object.\<close>

definition ep_reset :: endpoint where
  "ep_reset =
     \<lparr>ep_state = IDLE, ep_profile = DEFAULT_PROFILE, ep_committed_pc = 0, ep_committed_fp = 0,
      ep_state_valid = False, ep_retire_seq = 0, ep_service_seq = 0, ep_last_status = OK,
      ep_last_fault = OK, ep_staged = None, ep_rx = [], ep_tx = [], ep_expected = 0,
      ep_done = False, ep_abort_count = 0\<rparr>"

definition ep_discard :: "endpoint \<Rightarrow> endpoint" where
  "ep_discard e = e\<lparr>ep_state := IDLE, ep_staged := None\<rparr>"

definition ep_abort :: "endpoint \<Rightarrow> endpoint" where
  "ep_abort e =
     e\<lparr>ep_state := IDLE, ep_staged := None, ep_rx := [], ep_tx := [], ep_expected := 0,
       ep_done := False, ep_last_status := ABORTED, ep_last_fault := ABORTED,
       ep_abort_count := ep_abort_count e + 1\<rparr>"

section \<open>Pins\<close>

record pins =
  pn_rx_ready :: bool
  pn_tx_valid :: bool
  pn_tx_data :: int
  pn_busy :: bool
  pn_fault :: bool
  pn_done_pulse :: bool

record lane_record =
  ln_pins :: pins
  ln_rx_committed :: bool
  ln_tx_committed :: bool

definition ep_pins :: "endpoint \<Rightarrow> pins" where
  "ep_pins e =
     \<lparr>pn_rx_ready = (ep_tx e = []), pn_tx_valid = (ep_tx e \<noteq> []),
      pn_tx_data = (if ep_tx e \<noteq> [] then uint (ep_tx e ! 0) else 0),
      pn_busy = ((ep_tx e \<noteq> [] \<or> ep_rx e \<noteq> []) \<or> ep_state e \<noteq> IDLE),
      pn_fault = (status_code (ep_last_status e) \<ge> 0x80), pn_done_pulse = ep_done e\<rparr>"

section \<open>Responses\<close>

definition ep_emit :: "response_frame \<Rightarrow> (endpoint, exn, unit) routine" where
  "ep_emit response e =
     (let e = e\<lparr>ep_last_status := rs_status response\<rparr>;
          e = (if status_code (rs_status response) \<ge> 0x80
               then e\<lparr>ep_last_fault := rs_status response\<rparr> else e)
      in case encode_response response of
           Inl x \<Rightarrow> (Inl x, e)
         | Inr bs \<Rightarrow> (Inr (), e\<lparr>ep_tx := ep_tx e @ bs\<rparr>))"

definition ep_fault :: "status \<Rightarrow> int \<Rightarrow> int \<Rightarrow> (endpoint, exn, unit) routine" where
  "ep_fault s txn_id detail e =
     thenM (liftM (catE [u32le txn_id, u8 detail]) e) (\<lambda>payload e.
       ep_emit (ResponseFrame s payload) e)"

section \<open>Transaction handling\<close>

text \<open>\<open>_STATE_CODES\<close>.\<close>

fun state_code :: "txn_state \<Rightarrow> int" where
  "state_code IDLE = 0x00"
| "state_code RESULT_PENDING = 0x01"
| "state_code SERVICE_PENDING = 0x02"

definition handle_negotiate :: "decoded_request \<Rightarrow> (endpoint, exn, unit) routine" where
  "handle_negotiate request e =
     (if ep_state e \<noteq> IDLE then (Inl (fault BAD_STATE), e)
      else if \<not> (dq_version_min request \<le> PROTOCOL_VERSION \<and> PROTOCOL_VERSION \<le> dq_version_max request)
      then (Inl (fault BAD_VERSION), e)
      else
        let e = e\<lparr>ep_profile := dq_profile request\<rparr> in
        thenM (liftM (catE [u8 PROTOCOL_VERSION, u8 (profile_code (ep_profile e)),
            u16le (int MAX_PAYLOAD_BYTES), u8 (int INDEX_BITS), u8 0, u32le DEVICE_FEATURES,
            u32le DEVICE_ID]) e)
          (\<lambda>payload e. ep_emit (ResponseFrame OK payload) e))"

definition handle_status_query :: "(endpoint, exn, unit) routine" where
  "handle_status_query e =
     thenM (liftM (catE [u8 (state_code (ep_state e)),
         u32le (case ep_staged e of None \<Rightarrow> 0 | Some s \<Rightarrow> st_txn_id s),
         u8 (status_code (ep_last_status e)), u32le (ep_retire_seq e),
         u8 (status_code (ep_last_fault e)), u32le (ep_committed_pc e),
         u32le (ep_committed_fp e), u8 (if ep_state_valid e then 1 else 0)]) e)
       (\<lambda>payload e. ep_emit (ResponseFrame INFO payload) e)"

definition finish_transaction :: "staged_transaction \<Rightarrow> (endpoint, exn, unit) routine" where
  "finish_transaction staged e =
     thenM (liftM (result_payload staged) e) (\<lambda>payload e.
       ep_emit (ResponseFrame OK payload)
         (e\<lparr>ep_staged := Some (staged\<lparr>st_result_crc := crc32 payload\<rparr>), ep_state := RESULT_PENDING\<rparr>))"

text \<open>
  The dispatch of \<open>_handle_instruction\<close> on the opcode (lines 1223-1235): the new staged
  transaction, and the number of service identifiers consumed.
\<close>

definition execute :: "decoded_request \<Rightarrow> staged_transaction \<Rightarrow> int \<Rightarrow> (staged_transaction \<times> int) res" where
  "execute request staged service_seq =
     (let op = dq_opcode request in
      if op = OP_XOR \<or> op = OP_MUL_NATIVE then
        bindE (execute_binary request staged) (\<lambda>s. Inr (s, service_seq))
      else if op = OP_SET_CONSTANT then
        bindE (execute_set request staged) (\<lambda>s. Inr (s, service_seq))
      else if op = OP_DEREF_CELL \<or> op = OP_DEREF_PC \<or> op = OP_DEREF_FP then
        bindE (execute_deref request staged) (\<lambda>s. Inr (s, service_seq))
      else if op = OP_JUMP then
        bindE (execute_jump request staged) (\<lambda>s. Inr (s, service_seq))
      else if service_seq \<ge> 0xFFFFFFFE then Inl (fault BAD_SERVICE)
      else bindE (execute_blake3 request staged (service_seq + 1)) (\<lambda>s. Inr (s, service_seq + 1)))"

definition handle_instruction :: "decoded_request \<Rightarrow> (endpoint, exn, unit) routine" where
  "handle_instruction request e =
     (if ep_state e \<noteq> IDLE then (Inl (fault BAD_STATE), e)
      else if dq_profile request \<noteq> ep_profile e then (Inl (fault BAD_PROFILE), e)
      else if ep_state_valid e \<and>
              (dq_pc request, dq_fp request) \<noteq> (ep_committed_pc e, ep_committed_fp e)
      then (Inl (fault STATE_MISMATCH), e)
      else if dq_pc request \<ge> INDEX_LIMIT \<or> dq_fp request \<ge> INDEX_LIMIT
      then (Inl (fault INDEX_RANGE), e)
      else
        let staged = StagedTransaction (dq_txn_id request) (dq_opcode request)
                       (dq_profile request) (dq_pc request) (dq_fp request) in
        thenM (liftM (execute request staged (ep_service_seq e)) e) (\<lambda>(staged, service_seq) e.
          let e = e\<lparr>ep_service_seq := service_seq, ep_staged := Some staged\<rparr> in
          case st_service staged of
            Some service \<Rightarrow>
              thenM (liftM (encode_service_request service (st_txn_id staged))
                       (e\<lparr>ep_state := SERVICE_PENDING\<rparr>))
                (\<lambda>payload e. ep_emit (ResponseFrame SERVICE_REQUIRED payload) e)
          | None \<Rightarrow> finish_transaction staged e))"

definition handle_service_response :: "decoded_request \<Rightarrow> (endpoint, exn, unit) routine" where
  "handle_service_response request e =
     (case ep_staged e of
        None \<Rightarrow> (Inl (fault BAD_STATE), e)
      | Some staged \<Rightarrow>
          if ep_state e \<noteq> SERVICE_PENDING then (Inl (fault BAD_STATE), e)
          else case st_service staged of
            None \<Rightarrow> (Inl AssertionError, e)
          | Some service \<Rightarrow>
              if dq_txn_id request \<noteq> st_txn_id staged \<or>
                 dq_service_id request \<noteq> sv_service_id service
              then (Inl (protocol_fault BAD_SERVICE 1), e)
              else if dq_service_kind request \<noteq> service_kind_code (sv_kind service)
              then (Inl (protocol_fault BAD_SERVICE 2), e)
              else
                case resume_blake3 staged (dq_digest request) of
                  (Inl (ProtocolFault s d), staged) \<Rightarrow>
                    (Inl (ProtocolFault s d), ep_discard (e\<lparr>ep_staged := Some staged\<rparr>))
                | (Inl x, staged) \<Rightarrow> (Inl x, e\<lparr>ep_staged := Some staged\<rparr>)
                | (Inr u, staged) \<Rightarrow> finish_transaction staged (e\<lparr>ep_staged := Some staged\<rparr>))"

definition handle_retire :: "decoded_request \<Rightarrow> (endpoint, exn, unit) routine" where
  "handle_retire request e =
     (case ep_staged e of
        None \<Rightarrow> (Inl (fault BAD_STATE), e)
      | Some staged \<Rightarrow>
          if ep_state e \<noteq> RESULT_PENDING then (Inl (fault BAD_STATE), e)
          else if dq_txn_id request \<noteq> st_txn_id staged \<or> dq_result_crc request \<noteq> st_result_crc staged
          then
            let detail = (if dq_txn_id request \<noteq> st_txn_id staged then 1 else 2)
            in (Inl (protocol_fault RETIRE_MISMATCH detail), ep_discard e)
          else
            let e = e\<lparr>ep_committed_pc := st_next_pc staged, ep_committed_fp := st_next_fp staged,
                      ep_state_valid := True, ep_retire_seq := ep_retire_seq e + 1,
                      ep_state := IDLE, ep_staged := None, ep_done := True\<rparr> in
            thenM (liftM (catE [u32le (dq_txn_id request), u32le (ep_retire_seq e),
                u32le (ep_committed_pc e), u32le (ep_committed_fp e)]) e)
              (\<lambda>payload e. ep_emit (ResponseFrame RETIRED payload) e))"

definition handle :: "decoded_request \<Rightarrow> (endpoint, exn, unit) routine" where
  "handle request =
     (if dq_opcode request = OP_NEGOTIATE then handle_negotiate request
      else if dq_opcode request = OP_STATUS_QUERY then handle_status_query
      else if dq_opcode request = OP_SERVICE_RESPONSE then handle_service_response request
      else if dq_opcode request = OP_RETIRE then handle_retire request
      else handle_instruction request)"

section \<open>Framing\<close>

text \<open>The request inside the \<open>try\<close> of \<open>_dispatch\<close>, and its handler.\<close>

definition dispatch_payload :: "opcode \<Rightarrow> bytes \<Rightarrow> (endpoint, exn, unit) routine" where
  "dispatch_payload op payload e =
     (case decode_request_payload op payload of
        Inl x \<Rightarrow> catchM (Inl x, e)
          (\<lambda>x. case x of ProtocolFault s d \<Rightarrow> Some (ep_fault s 0 d) | _ \<Rightarrow> None)
      | Inr decoded \<Rightarrow> catchM (handle decoded e)
          (\<lambda>x. case x of ProtocolFault s d \<Rightarrow> Some (ep_fault s (dq_txn_id decoded) d) | _ \<Rightarrow> None))"

definition ep_dispatch :: "bytes \<Rightarrow> (endpoint, exn, unit) routine" where
  "ep_dispatch frame e =
     (let len = nat (le_int (pyslice 4 6 frame));
          body = take (REQUEST_HEADER_BYTES + len) frame in
      if le_int (drop (length frame - CRC_BYTES) frame) \<noteq> crc32 body then ep_fault BAD_CRC 0 0 e
      else if uint (frame ! 1) \<noteq> PROTOCOL_VERSION then ep_fault BAD_VERSION 0 0 e
      else if uint (frame ! 3) \<noteq> 0 then ep_fault BAD_FLAGS 0 0 e
      else case opcode_of (uint (frame ! 2)) of
        None \<Rightarrow> ep_fault BAD_OPCODE 0 0 e
      | Some op \<Rightarrow>
          let payload = drop REQUEST_HEADER_BYTES body in
          if len \<noteq> REQUEST_PAYLOAD_BYTES op
          then ep_fault BAD_LENGTH (available_txn_id op payload) 2 e
          else dispatch_payload op payload e)"

definition ep_accept :: "byte \<Rightarrow> (endpoint, exn, unit) routine" where
  "ep_accept b e =
     (if ep_rx e = [] then
        (if uint b \<noteq> SOF_REQUEST then ep_fault BAD_SOF 0 0 e
         else (Inr (), e\<lparr>ep_rx := [b], ep_expected := 0\<rparr>))
      else
        let e = e\<lparr>ep_rx := ep_rx e @ [b]\<rparr>;
            len = nat (le_int (pyslice 4 6 (ep_rx e))) in
        if length (ep_rx e) = REQUEST_HEADER_BYTES \<and> len > MAX_PAYLOAD_BYTES
        then ep_fault BAD_LENGTH 0 1 (e\<lparr>ep_rx := []\<rparr>)
        else
          let e = (if length (ep_rx e) = REQUEST_HEADER_BYTES
                   then e\<lparr>ep_expected := REQUEST_HEADER_BYTES + len + CRC_BYTES\<rparr> else e) in
          if ep_expected e \<noteq> 0 \<and> length (ep_rx e) = ep_expected e
          then ep_dispatch (ep_rx e) (e\<lparr>ep_rx := [], ep_expected := 0\<rparr>)
          else (Inr (), e))"

section \<open>One clock edge\<close>

definition ep_step :: "int \<Rightarrow> bool \<Rightarrow> bool \<Rightarrow> bool \<Rightarrow> bool \<Rightarrow> (endpoint, exn, lane_record) routine" where
  "ep_step rx_data rx_valid tx_ready abort reset_n e =
     (let pins = ep_pins e in
      if \<not> reset_n then
        (Inr \<lparr>ln_pins = pins, ln_rx_committed = False, ln_tx_committed = False\<rparr>, ep_reset)
      else if abort then
        (Inr \<lparr>ln_pins = pins, ln_rx_committed = False, ln_tx_committed = False\<rparr>, ep_abort e)
      else
        let e = e\<lparr>ep_done := False\<rparr>;
            rx_committed = (rx_valid \<and> pn_rx_ready pins);
            tx_committed = (pn_tx_valid pins \<and> tx_ready);
            e = (if tx_committed then e\<lparr>ep_tx := tl (ep_tx e)\<rparr> else e) in
        thenM (if rx_committed then ep_accept (word_of_int rx_data) e else (Inr (), e))
          (\<lambda>_ e. (Inr \<lparr>ln_pins = pins, ln_rx_committed = rx_committed,
                       ln_tx_committed = tx_committed\<rparr>, e)))"

section \<open>The endpoint after a response\<close>

definition responded :: "status \<Rightarrow> bytes \<Rightarrow> endpoint \<Rightarrow> endpoint" where
  "responded s p e =
     e\<lparr>ep_last_status := s, ep_last_fault := (if is_fault s then s else ep_last_fault e),
       ep_tx := ep_tx e @ response_bytes s p\<rparr>"

lemma ep_emit_ok: "length p < 2 ^ 16 \<Longrightarrow> ep_emit (ResponseFrame s p) e = (Inr (), responded s p e)"
  using encode_response_eq [of p s]
  by (simp add: ep_emit_def responded_def is_fault_def Let_def ResponseFrame_def)

definition fault_payload :: "int \<Rightarrow> int \<Rightarrow> bytes" where
  "fault_payload txn_id detail = to_le 4 txn_id @ to_le 1 detail"

lemma ep_fault_ok:
  "fits 32 txn_id \<Longrightarrow> fits 8 detail \<Longrightarrow>
     ep_fault s txn_id detail e = (Inr (), responded s (fault_payload txn_id detail) e)"
  using ep_emit_ok [of "fault_payload txn_id detail" s e]
  by (simp add: ep_fault_def prim_fits liftM_def fault_payload_def)

lemma responded_simps [simp]:
  "ep_state (responded s p e) = ep_state e" "ep_profile (responded s p e) = ep_profile e"
  "ep_committed_pc (responded s p e) = ep_committed_pc e" "ep_committed_fp (responded s p e) = ep_committed_fp e"
  "ep_state_valid (responded s p e) = ep_state_valid e" "ep_retire_seq (responded s p e) = ep_retire_seq e"
  "ep_service_seq (responded s p e) = ep_service_seq e" "ep_last_status (responded s p e) = s"
  "ep_last_fault (responded s p e) = (if is_fault s then s else ep_last_fault e)"
  "ep_staged (responded s p e) = ep_staged e" "ep_rx (responded s p e) = ep_rx e"
  "ep_tx (responded s p e) = ep_tx e @ response_bytes s p" "ep_expected (responded s p e) = ep_expected e"
  "ep_done (responded s p e) = ep_done e" "ep_abort_count (responded s p e) = ep_abort_count e"
  by (simp_all add: responded_def)

section \<open>The staged transactions the endpoint holds\<close>

definition decided :: "staged_transaction \<Rightarrow> bool" where
  "decided s \<longleftrightarrow> staged_ok s \<and> st_service s = None \<and> st_next_pc s \<le> 2 ^ 16 \<and> st_next_fp s < 2 ^ 16
     \<and> st_result_crc s = crc32 (result_bytes s)"

definition suspended :: "staged_transaction \<Rightarrow> bool" where
  "suspended s \<longleftrightarrow> staged_ok s \<and> st_next_pc s < 2 ^ 16 \<and> st_next_fp s < 2 ^ 16
     \<and> (\<exists>f sv. st_pending_frame s = Some f \<and> frame_inv f \<and> fr_writes f = []
          \<and> length (st_accesses s) = 8 \<and> (\<forall>a\<in>set (st_accesses s). fr_known f a)
          \<and> st_writes s = [] \<and> st_deferred s = []
          \<and> st_service s = Some sv \<and> fits 32 (sv_service_id sv) \<and> length (sv_message sv) = 4
          \<and> (\<forall>v\<in>set (sv_message sv). fits 128 v) \<and> fits 128 (fst (sv_chaining_value sv))
          \<and> fits 128 (snd (sv_chaining_value sv)) \<and> fits 128 (sv_metadata sv))"

definition service_bytes :: "service_request \<Rightarrow> int \<Rightarrow> bytes" where
  "service_bytes sv txn_id = to_le 4 txn_id @ to_le 4 (sv_service_id sv) @ to_le 1 (service_kind_code (sv_kind sv)) @ to_le 1 0
     @ concat (map (to_le 16) (sv_message sv)) @ to_le 16 (fst (sv_chaining_value sv))
     @ to_le 16 (snd (sv_chaining_value sv)) @ to_le 16 (sv_metadata sv)"

lemma fits_8_kind [simp]: "fits 8 (service_kind_code k)"
  by (cases k) (simp add: fits_def)

lemma encode_service_request_ok:
  assumes "fits 32 txn_id" "fits 32 (sv_service_id sv)" "\<forall>v\<in>set (sv_message sv). fits 128 v"
    "fits 128 (fst (sv_chaining_value sv))" "fits 128 (snd (sv_chaining_value sv))" "fits 128 (sv_metadata sv)"
  shows "encode_service_request sv txn_id = Inr (service_bytes sv txn_id)"
  using assms by (simp add: encode_service_request_def prim_fits wf128.put_many catE_append service_bytes_def)

lemma length_service_bytes: "length (sv_message sv) = 4 \<Longrightarrow> length (service_bytes sv txn_id) = 122"
  by (simp add: service_bytes_def length_concat_const [of _ "to_le 16" 16])

text \<open>Every routine the opcode dispatch can call, on a decoded instruction.\<close>

lemma dq_shapes:
  assumes "dq_wf d" "dq_opcode d \<in> set INSTRUCTION_OPCODES"
  shows "dq_opcode d = OP_SET_CONSTANT \<Longrightarrow> shape_1 d" "dq_opcode d = OP_BLAKE3_REQUEST \<Longrightarrow> shape_8 d"
    "dq_opcode d \<noteq> OP_SET_CONSTANT \<Longrightarrow> dq_opcode d \<noteq> OP_BLAKE3_REQUEST \<Longrightarrow> shape_3 d"
  using assms by (auto simp: dq_wf_def dq_lengths_def shape_1_def shape_3_def shape_8_def INSTRUCTION_OPCODES_def)

definition fresh_staged :: "decoded_request \<Rightarrow> staged_transaction" where
  "fresh_staged d = StagedTransaction (dq_txn_id d) (dq_opcode d) (dq_profile d) (dq_pc d) (dq_fp d)"

lemma fresh_staged_simps [simp]:
  "st_txn_id (fresh_staged d) = dq_txn_id d" "st_pc (fresh_staged d) = dq_pc d" "st_fp (fresh_staged d) = dq_fp d"
  "st_writes (fresh_staged d) = []" "st_deferred (fresh_staged d) = []" "st_service (fresh_staged d) = None"
  "st_accesses (fresh_staged d) = []" "st_pending_frame (fresh_staged d) = None"
  "st_opcode (fresh_staged d) = dq_opcode d" "st_profile (fresh_staged d) = dq_profile d"
  "st_next_pc (fresh_staged d) = 0" "st_next_fp (fresh_staged d) = 0" "st_result_crc (fresh_staged d) = 0"
  "st_execute_cycles (fresh_staged d) = 0"
  by (simp_all add: fresh_staged_def StagedTransaction_def)

lemma execute_raises:
  assumes "dq_wf d" "dq_opcode d \<in> set INSTRUCTION_OPCODES"
  shows "only_faults (execute d (fresh_staged d) n)"
proof -
  have "fits 32 (dq_fp d)" using assms by (simp add: dq_wf_def dq_fields_ok_def)
  then have fp: "fits 32 (st_fp (fresh_staged d))" "0 \<le> st_fp (fresh_staged d)" by (simp_all add: fits_nonneg)
  from dq_shapes [OF assms] fp show ?thesis
    by (auto simp: execute_def Let_def intro!: only_faults_bind execute_binary_raises execute_set_raises
        execute_deref_raises execute_jump_raises execute_blake3_raises)
      (use assms in \<open>simp_all add: INSTRUCTION_OPCODES_def\<close>)
qed

lemma staged_okI:
  assumes "frame_ext f h n" "n \<le> 2" "fr_writes f = []" "st_writes s = fr_writes h" "fits 32 (st_txn_id s)"
    "fits 32 (st_next_pc s)" "fits 32 (st_next_fp s)" "length (st_accesses s) \<le> 8" "\<forall>a\<in>set (st_accesses s). fits 32 a"
    "length (st_deferred s) \<le> 1" "\<forall>x\<in>set (st_deferred s). fits 32 (df_target x) \<and> fits 32 (df_local x)"
  shows "staged_ok s"
  using assms frame_writes_ok [of h] by (auto simp: staged_ok_def frame_ext_def)

lemma execute_Inr:
  assumes r: "execute d (fresh_staged d) n = Inr (s, m)" and ok: "dq_wf d" "dq_opcode d \<in> set INSTRUCTION_OPCODES"
    and pc: "dq_pc d < 2 ^ 16" "dq_fp d < 2 ^ 16" and n: "0 \<le> n"
  shows "st_txn_id s = dq_txn_id d" "m = (if dq_opcode d = OP_BLAKE3_REQUEST then n + 1 else n)"
    "if dq_opcode d = OP_BLAKE3_REQUEST then suspended s \<and> n < 0xFFFFFFFE
     else staged_ok s \<and> st_service s = None \<and> st_next_pc s \<le> 2 ^ 16 \<and> st_next_fp s < 2 ^ 16"
proof -
  have w: "fits 32 (dq_fp d)" "fits 32 (dq_pc d)" "fits 32 (dq_txn_id d)"
    using ok by (simp_all add: dq_wf_def dq_fields_ok_def)
  then have "0 \<le> dq_pc d" by (simp add: fits_nonneg)
  then have t: "0 \<le> st_pc (fresh_staged d)" "fits 32 (st_fp (fresh_staged d))" using w by simp_all
  note sh = dq_shapes [OF ok]
  have "st_txn_id s = dq_txn_id d \<and> m = n \<and> staged_ok s \<and> st_service s = None \<and> st_next_pc s \<le> 2 ^ 16 \<and> st_next_fp s < 2 ^ 16"
    if nb: "dq_opcode d \<noteq> OP_BLAKE3_REQUEST"
  proof -
    consider "dq_opcode d = OP_XOR \<or> dq_opcode d = OP_MUL_NATIVE" | "dq_opcode d = OP_SET_CONSTANT"
      | "dq_opcode d = OP_DEREF_CELL \<or> dq_opcode d = OP_DEREF_PC \<or> dq_opcode d = OP_DEREF_FP" | "dq_opcode d = OP_JUMP"
      using ok nb by (auto simp: INSTRUCTION_OPCODES_def)
    then show ?thesis
    proof cases
      case 1
      then have r1: "execute_binary d (fresh_staged d) = Inr s" "m = n" and s3: "shape_3 d"
        using r sh by (auto simp: execute_def bindE_eq_Inr)
      from execute_binary_Inr [OF r1(1) s3 t] obtain f a b c g k h where
        o: "operands_ok d (fresh_staged d) f a b c" and ext: "frame_ext f g 1" "frame_ext g h 1"
        and p: "fits 32 (dq_pc d + 1)"
        and s: "s = (fresh_staged d)\<lparr>st_writes := fr_writes h, st_accesses := [a, b, c], st_next_pc := dq_pc d + 1,
           st_next_fp := dq_fp d, st_execute_cycles := k\<rparr>"
        by (metis fresh_staged_simps(2,3))
      have "frame_ext f h 2" using frame_ext_trans [OF ext] by (simp add: numeral_2_eq_2)
      then have "staged_ok s" by (rule staged_okI) (use o p s w in \<open>auto simp: operands_ok_def\<close>)
      with r1 s pc show ?thesis by simp
    next
      case 2
      then have r1: "execute_set d (fresh_staged d) = Inr s" "m = n" and s3: "shape_1 d"
        using r sh by (auto simp: execute_def bindE_eq_Inr)
      from execute_set_Inr [OF r1(1) s3 t] obtain a f h where
        fa: "fits 32 a" "fr_writes f = []" and ext: "frame_ext f h 1" and p: "fits 32 (dq_pc d + 1)"
        and s: "s = (fresh_staged d)\<lparr>st_writes := fr_writes h, st_accesses := [a], st_next_pc := dq_pc d + 1,
           st_next_fp := dq_fp d, st_execute_cycles := 0\<rparr>"
        by (metis fresh_staged_simps(2,3))
      have "staged_ok s" by (rule staged_okI [OF ext]) (use fa p s w in auto)
      with r1 s pc show ?thesis by simp
    next
      case 3
      then have r1: "execute_deref d (fresh_staged d) = Inr s" "m = n" and s3: "shape_3 d"
        using r sh by (auto simp: execute_def bindE_eq_Inr)
      from execute_deref_Inr [OF r1(1) s3 t] obtain pa ta la f g df k where
        fa: "\<forall>x\<in>{pa, ta, la}. fits 32 x \<and> fr_known f x" "frame_inv f" "fr_writes f = []"
        and b: "deref_body d (fresh_staged d) ta la f = Inr (g, df, k)" and p: "fits 32 (dq_pc d + 1)"
        and s: "s = (fresh_staged d)\<lparr>st_writes := fr_writes g, st_deferred := df, st_accesses := [pa, ta, la],
           st_next_pc := dq_pc d + 1, st_next_fp := dq_fp d, st_execute_cycles := 2064 + k\<rparr>"
        by (metis fresh_staged_simps(2,3))
      note bi = deref_body_Inr [OF b fa(2)]
      have "staged_ok s"
        by (rule staged_okI [of f g 1]) (use bi fa p s w in \<open>auto simp: DeferredEquality_def\<close>)
      with r1 s pc show ?thesis by simp
    next
      case 4
      then have r1: "execute_jump d (fresh_staged d) = Inr s" "m = n" and s3: "shape_3 d"
        using r sh by (auto simp: execute_def bindE_eq_Inr)
      obtain f a b c where
        o: "operands_ok d (fresh_staged d) f a b c"
        and c: "if dq_taken d then 0 \<le> dq_dest_pc d \<and> dq_dest_pc d < 2 ^ 16 \<and> 0 \<le> dq_dest_fp d \<and> dq_dest_fp d < 2 ^ 16 \<and>
            st_next_pc s = dq_dest_pc d \<and> st_next_fp s = dq_dest_fp d
          else fits 32 (dq_pc d + 1) \<and> st_next_pc s = dq_pc d + 1 \<and> st_next_fp s = dq_fp d"
        and q: "st_txn_id s = dq_txn_id d" "st_writes s = []" "st_deferred s = []" "st_service s = None" "st_accesses s = [a, b, c]"
        by (rule execute_jump_Inr [OF r1(1) s3 t]) (rule that; simp split: if_splits)
      have f: "fits 32 (st_next_pc s)" "fits 32 (st_next_fp s)" "st_next_pc s \<le> 2 ^ 16" "st_next_fp s < 2 ^ 16"
        using c pc w by (auto simp: fits_def split: if_splits)
      have "staged_ok s" using f q o w by (simp add: staged_ok_def operands_ok_def)
      with r1 q f show ?thesis by simp
    qed
  qed
  moreover have "st_txn_id s = dq_txn_id d \<and> m = n + 1 \<and> suspended s \<and> n < 0xFFFFFFFE"
    if b: "dq_opcode d = OP_BLAKE3_REQUEST"
  proof -
    have r1: "execute_blake3 d (fresh_staged d) (n + 1) = Inr s" "m = n + 1" "n < 0xFFFFFFFE" and s3: "shape_8 d"
      using r sh b by (auto simp: execute_def bindE_eq_Inr split: if_splits)
    from execute_blake3_Inr [OF r1(1) s3 t] obtain addrs f where
      a: "length addrs = 8" "\<forall>a\<in>set addrs. fits 32 a \<and> fr_known f a" "frame_inv f" "fr_writes f = []"
      and p: "dq_pc d \<noteq> 65535" "fits 32 (dq_pc d + 1)"
      and s: "s = (fresh_staged d)\<lparr>st_accesses := addrs, st_next_pc := dq_pc d + 1, st_next_fp := dq_fp d, st_execute_cycles := 0,
           st_service := Some \<lparr>sv_service_id = n + 1, sv_kind = BLAKE3_COMPRESS,
             sv_message = map (read0 (fr_view f)) (take 4 addrs),
             sv_chaining_value = (read0 (fr_view f) (addrs ! 4), read0 (fr_view f) (addrs ! 5)),
             sv_metadata = dq_metadata d\<rparr>,
           st_pending_frame := Some f\<rparr>"
      by (metis fresh_staged_simps(2,3))
    have ok': "staged_ok s" by (rule staged_okI [OF frame_ext_refl [OF a(3)], of 0]) (use a p s w in auto)
    have "fits 32 (n + 1)" using r1(3) n by (simp add: fits_def)
    moreover have "fits 128 (dq_metadata d)" using ok by (simp add: dq_wf_def dq_fields_ok_def)
    ultimately have "suspended s"
      using a p s pc ok' fits_read0 [OF a(3)] by (auto simp: suspended_def)
    with r1 s show ?thesis by simp
  qed
  ultimately show "st_txn_id s = dq_txn_id d" "m = (if dq_opcode d = OP_BLAKE3_REQUEST then n + 1 else n)"
    "if dq_opcode d = OP_BLAKE3_REQUEST then suspended s \<and> n < 0xFFFFFFFE
     else staged_ok s \<and> st_service s = None \<and> st_next_pc s \<le> 2 ^ 16 \<and> st_next_fp s < 2 ^ 16"
    by auto
qed

lemma resume_blake3_suspended:
  assumes s: "suspended s" and dg: "fits 128 (fst dg)" "fits 128 (snd dg)"
  obtains s' where "resume_blake3 s dg = (Inr (), s')" "staged_ok s'" "st_service s' = None" "st_txn_id s' = st_txn_id s"
      "st_next_pc s' = st_next_pc s" "st_next_fp s' = st_next_fp s"
  | s' where "resume_blake3 s dg = (Inl (fault WRITE_CONFLICT), s')"
proof -
  obtain f where f: "st_pending_frame s = Some f" "frame_inv f" "fr_writes f = []" "length (st_accesses s) = 8"
    "\<forall>a\<in>set (st_accesses s). fr_known f a" using s by (auto simp: suspended_def)
  have k: "fr_known f (st_accesses s ! 6)" "fr_known f (st_accesses s ! 7)" using f by simp_all
  show thesis
  proof (cases "fr_write_once (st_accesses s ! 6) (fst dg) f")
    case (Inl e)
    with fr_write_once_raises [OF k(1) Inl] f show thesis
      by (intro that(2) [of s]) (simp add: resume_blake3_def)
  next
    case g: (Inr g)
    note ge = frame_ext_write [OF f(2) g dg(1)]
    then have gi: "frame_inv g" and kg: "fr_known g (st_accesses s ! 7)" using k by (simp_all add: frame_ext_def)
    show thesis
    proof (cases "fr_write_once (st_accesses s ! 7) (snd dg) g")
      case (Inl e)
      with fr_write_once_raises [OF kg Inl] f g show thesis
        by (intro that(2) [of "s\<lparr>st_pending_frame := Some g\<rparr>"]) (simp add: resume_blake3_def)
    next
      case h: (Inr h)
      have "frame_ext f h (Suc 0 + Suc 0)" by (rule frame_ext_trans [OF ge frame_ext_write [OF gi h dg(2)]])
      then have "staged_ok (s\<lparr>st_pending_frame := Some h, st_writes := fr_writes h, st_service := None\<rparr>)"
        by (rule staged_okI) (use s f in \<open>auto simp: suspended_def staged_ok_def\<close>)
      with f g h show thesis
        by (intro that(1) [of "s\<lparr>st_pending_frame := Some h, st_writes := fr_writes h, st_service := None\<rparr>"])
          (simp_all add: resume_blake3_def)
    qed
  qed
qed

lemma ep_discard_simps [simp]:
  "ep_rx (ep_discard e) = ep_rx e" "ep_tx (ep_discard e) = ep_tx e" "ep_expected (ep_discard e) = ep_expected e"
  "ep_last_status (ep_discard e) = ep_last_status e" "ep_state (ep_discard e) = IDLE" "ep_staged (ep_discard e) = None"
  "ep_committed_pc (ep_discard e) = ep_committed_pc e" "ep_committed_fp (ep_discard e) = ep_committed_fp e"
  "ep_state_valid (ep_discard e) = ep_state_valid e" "ep_retire_seq (ep_discard e) = ep_retire_seq e"
  "ep_profile (ep_discard e) = ep_profile e" "ep_service_seq (ep_discard e) = ep_service_seq e"
  by (simp_all add: ep_discard_def)

section \<open>Committed state and staged transaction\<close>

text \<open>The scalar state the endpoint has committed.\<close>

definition committed :: "endpoint \<Rightarrow> int \<times> int \<times> bool \<times> int" where
  "committed e = (ep_committed_pc e, ep_committed_fp e, ep_state_valid e, ep_retire_seq e)"

definition transaction :: "endpoint \<Rightarrow> txn_state \<times> staged_transaction option" where
  "transaction e = (ep_state e, ep_staged e)"

lemma committed_simps [simp]:
  "committed (responded s p e) = committed e" "committed (ep_discard e) = committed e"
  "committed (e\<lparr>ep_profile := x1\<rparr>) = committed e" "committed (e\<lparr>ep_staged := x2\<rparr>) = committed e"
  "committed (e\<lparr>ep_state := x3\<rparr>) = committed e" "committed (e\<lparr>ep_service_seq := x4\<rparr>) = committed e"
  "committed (e\<lparr>ep_rx := x5\<rparr>) = committed e" "committed (e\<lparr>ep_tx := x6\<rparr>) = committed e"
  "committed (e\<lparr>ep_expected := x7\<rparr>) = committed e" "committed (e\<lparr>ep_done := x8\<rparr>) = committed e"
  "committed (e\<lparr>ep_last_status := x9\<rparr>) = committed e" "committed (e\<lparr>ep_last_fault := y1\<rparr>) = committed e"
  by (simp_all add: committed_def)

lemma transaction_simps [simp]:
  "transaction (responded s p e) = transaction e"
  "transaction (e\<lparr>ep_profile := x1\<rparr>) = transaction e" "transaction (e\<lparr>ep_service_seq := x4\<rparr>) = transaction e"
  "transaction (e\<lparr>ep_rx := x5\<rparr>) = transaction e" "transaction (e\<lparr>ep_tx := x6\<rparr>) = transaction e"
  "transaction (e\<lparr>ep_expected := x7\<rparr>) = transaction e" "transaction (e\<lparr>ep_done := x8\<rparr>) = transaction e"
  "transaction (e\<lparr>ep_last_status := x9\<rparr>) = transaction e" "transaction (e\<lparr>ep_last_fault := y1\<rparr>) = transaction e"
  by (simp_all add: transaction_def)

text \<open>
  The effect of a frame answered with a fault: nothing is committed, and the staged
  transaction stays unless the frame was the service response of a conflicting digest or a
  mismatched \<open>RETIRE\<close>, which discard it.
\<close>

definition rejected :: "status \<Rightarrow> endpoint \<Rightarrow> endpoint \<Rightarrow> bool" where
  "rejected s e e' \<longleftrightarrow> committed e' = committed e \<and>
     (transaction e' = transaction e \<or>
      transaction e' = (IDLE, None) \<and>
        (s = WRITE_CONFLICT \<and> ep_state e = SERVICE_PENDING \<or> s = RETIRE_MISMATCH \<and> ep_state e = RESULT_PENDING))"

lemma rejected_refl [simp]: "rejected s e e"
  by (simp add: rejected_def)

lemma rejected_responded [simp]: "rejected s e (responded t p e') = rejected s e e'"
  by (simp add: rejected_def)

lemma rejected_discard:
  "s = WRITE_CONFLICT \<and> ep_state e = SERVICE_PENDING \<or> s = RETIRE_MISMATCH \<and> ep_state e = RESULT_PENDING \<Longrightarrow>
     rejected s e (ep_discard (e\<lparr>ep_staged := x\<rparr>)) \<and> rejected s e (ep_discard e)"
  by (simp add: rejected_def transaction_def)

section \<open>The invariant\<close>

text \<open>
  The transaction half: the state names what is staged, what is staged is a transition the
  endpoint can put on the wire and retire, and the committed state and the counters are in
  range. The lane half: the partial request and the length it announced.
\<close>

definition core_inv :: "endpoint \<Rightarrow> bool" where
  "core_inv e \<longleftrightarrow>
     (case ep_state e of
        IDLE \<Rightarrow> ep_staged e = None
      | RESULT_PENDING \<Rightarrow> (\<exists>s. ep_staged e = Some s \<and> decided s)
      | SERVICE_PENDING \<Rightarrow> (\<exists>s. ep_staged e = Some s \<and> suspended s))
     \<and> 0 \<le> ep_committed_pc e \<and> ep_committed_pc e \<le> 2 ^ 16
     \<and> 0 \<le> ep_committed_fp e \<and> ep_committed_fp e < 2 ^ 16
     \<and> 0 \<le> ep_retire_seq e \<and> ep_retire_seq e < 2 ^ 32 \<and> (ep_state_valid e \<longleftrightarrow> ep_retire_seq e > 0)
     \<and> 0 \<le> ep_service_seq e \<and> ep_service_seq e \<le> 0xFFFFFFFE
     \<and> (ep_last_fault e = OK \<or> is_fault (ep_last_fault e))"

definition announced :: "bytes \<Rightarrow> nat" where
  "announced rx = nat (le_int (pyslice 4 6 rx))"

definition lane_inv :: "endpoint \<Rightarrow> bool" where
  "lane_inv e \<longleftrightarrow>
     (ep_rx e \<noteq> [] \<longrightarrow> ep_tx e = [] \<and> hd (ep_rx e) = 0xA1 \<and>
        (if length (ep_rx e) < 6 then ep_expected e = 0
         else announced (ep_rx e) \<le> 256 \<and> ep_expected e = 10 + announced (ep_rx e) \<and>
              length (ep_rx e) < ep_expected e))
     \<and> (ep_rx e = [] \<longrightarrow> ep_expected e = 0)"

definition ep_inv :: "endpoint \<Rightarrow> bool" where
  "ep_inv e \<longleftrightarrow> core_inv e \<and> lane_inv e"

lemma ep_inv_reset: "ep_inv ep_reset"
  by (simp add: ep_inv_def core_inv_def lane_inv_def ep_reset_def)

text \<open>What a handler leaves behind: an answer on the lane, or a fault to answer.\<close>

definition handled :: "endpoint \<Rightarrow> unit res \<Rightarrow> endpoint \<Rightarrow> bool" where
  "handled e r e' \<longleftrightarrow> core_inv e' \<and> ep_rx e' = ep_rx e \<and> ep_expected e' = ep_expected e \<and>
     (case r of
        Inl x \<Rightarrow> (\<exists>s d. x = ProtocolFault s d \<and> wire_fault x \<and> rejected s e e') \<and> ep_tx e' = ep_tx e \<and>
          ep_last_status e' = ep_last_status e
      | Inr u \<Rightarrow> \<exists>s p. length p \<le> 122 \<and> \<not> is_fault s \<and> ep_tx e' = ep_tx e @ response_bytes s p \<and> ep_last_status e' = s)"

lemma core_inv_responded: "core_inv e \<Longrightarrow> core_inv (responded s p e)"
  by (auto simp: core_inv_def split: txn_state.splits)

lemma handled_emit:
  "core_inv e' \<Longrightarrow> ep_rx e' = ep_rx e \<Longrightarrow> ep_expected e' = ep_expected e \<Longrightarrow> ep_tx e' = ep_tx e \<Longrightarrow>
     length p \<le> 122 \<Longrightarrow> \<not> is_fault s \<Longrightarrow> handled e (Inr u) (responded s p e')"
  by (auto simp: handled_def core_inv_responded)

lemma handled_refuse:
  "core_inv e' \<Longrightarrow> ep_rx e' = ep_rx e \<Longrightarrow> ep_expected e' = ep_expected e \<Longrightarrow> ep_tx e' = ep_tx e \<Longrightarrow>
     ep_last_status e' = ep_last_status e \<Longrightarrow> wire_fault x \<Longrightarrow> (\<And>s d. x = ProtocolFault s d \<Longrightarrow> rejected s e e') \<Longrightarrow>
     handled e (Inl x) e'"
  by (auto simp: handled_def wire_fault_def)

lemma core_inv_fields:
  assumes "core_inv e"
  shows "fits 32 (ep_committed_pc e)" "fits 32 (ep_committed_fp e)" "fits 32 (ep_retire_seq e)"
    "fits 32 (case ep_staged e of None \<Rightarrow> 0 | Some s \<Rightarrow> st_txn_id s)"
  using assms
  by (auto simp: core_inv_def fits_def decided_def suspended_def staged_ok_def
      split: txn_state.splits option.splits)

lemma core_inv_discard: "core_inv e \<Longrightarrow> core_inv (ep_discard e)"
  by (auto simp: core_inv_def ep_discard_def)

lemma handle_negotiate_handled:
  assumes "core_inv e" "handle_negotiate d e = (r, e')"
  shows "handled e r e'"
proof -
  have "core_inv (e\<lparr>ep_profile := p\<rparr>)" for p using assms(1) by (simp add: core_inv_def split: txn_state.splits)
  moreover have "fits 8 (1 :: int)" "fits 16 256" "fits 8 16" "fits 32 7" "fits 32 0x4C534331"
    by (simp_all add: fits_def)
  ultimately show ?thesis using assms
    by (auto simp: handle_negotiate_def Let_def prim_fits wire_constants liftM_def ep_emit_ok
        split: if_splits intro!: handled_emit handled_refuse)
qed

lemma state_code_fits [simp]: "fits 8 (state_code s)"
  by (cases s) (simp_all add: fits_def)

lemma handle_status_query_handled:
  assumes "core_inv e" "handle_status_query e = (r, e')"
  shows "handled e r e'"
  using assms core_inv_fields [OF assms(1)]
  by (auto simp: handle_status_query_def prim_fits liftM_def ep_emit_ok intro!: handled_emit split: if_splits)

lemma finish_transaction_ok:
  assumes "staged_ok s"
  shows "finish_transaction s e = (Inr (), responded OK (result_bytes s)
    (e\<lparr>ep_staged := Some (s\<lparr>st_result_crc := crc32 (result_bytes s)\<rparr>), ep_state := RESULT_PENDING\<rparr>))"
  using result_bytes_small [OF assms]
  by (simp add: finish_transaction_def result_payload_ok [OF assms] liftM_def ep_emit_ok)

lemma decided_crc:
  assumes "staged_ok s" "st_service s = None" "st_next_pc s \<le> 2 ^ 16" "st_next_fp s < 2 ^ 16"
  shows "decided (s\<lparr>st_result_crc := crc32 (result_bytes s)\<rparr>)"
  using assms by (simp add: decided_def staged_ok_def result_bytes_def)

lemma handle_instruction_handled:
  assumes inv: "core_inv e" and ok: "dq_wf d" "dq_opcode d \<in> set INSTRUCTION_OPCODES"
    and r: "handle_instruction d e = (r, e')"
  shows "handled e r e'"
proof -
  consider (refused) s where "e' = e" "r = Inl (fault s)" "is_fault s"
    | (run) "ep_state e = IDLE" "dq_pc d < 2 ^ 16" "dq_fp d < 2 ^ 16"
      "thenM (liftM (execute d (fresh_staged d) (ep_service_seq e)) e) (\<lambda>(staged, service_seq) e.
          let e = e\<lparr>ep_service_seq := service_seq, ep_staged := Some staged\<rparr> in
          case st_service staged of
            Some service \<Rightarrow>
              thenM (liftM (encode_service_request service (st_txn_id staged))
                       (e\<lparr>ep_state := SERVICE_PENDING\<rparr>))
                (\<lambda>payload e. ep_emit (ResponseFrame SERVICE_REQUIRED payload) e)
          | None \<Rightarrow> finish_transaction staged e) = (r, e')"
    using r by (auto simp: handle_instruction_def fresh_staged_def wire_constants Let_def split: if_splits)
  then show ?thesis
  proof cases
    case refused
    with inv show ?thesis by (auto intro!: handled_refuse)
  next
    case run
    show ?thesis
    proof (cases "execute d (fresh_staged d) (ep_service_seq e)")
      case (Inl x)
      with run execute_raises [OF ok] inv show ?thesis
        by (auto simp: only_faults_def liftM_def intro!: handled_refuse)
    next
      case (Inr p)
      then obtain s m where x: "execute d (fresh_staged d) (ep_service_seq e) = Inr (s, m)" by (cases p) auto
      have n: "0 \<le> ep_service_seq e" using inv by (simp add: core_inv_def)
      note i = execute_Inr [OF x ok run(2,3) n]
      show ?thesis
      proof (cases "dq_opcode d = OP_BLAKE3_REQUEST")
        case True
        with i have s: "suspended s" "ep_service_seq e < 0xFFFFFFFE" "m = ep_service_seq e + 1" by simp_all
        then obtain sv where sv: "st_service s = Some sv" "encode_service_request sv (st_txn_id s) = Inr (service_bytes sv (st_txn_id s))"
          "length (service_bytes sv (st_txn_id s)) = 122"
          by (auto simp: suspended_def staged_ok_def intro!: encode_service_request_ok length_service_bytes)
        have "core_inv (e\<lparr>ep_service_seq := m, ep_staged := Some s, ep_state := SERVICE_PENDING\<rparr>)"
          using inv s by (simp add: core_inv_def)
        with run(4) x sv show ?thesis
          by (auto simp: liftM_def Let_def ep_emit_ok intro!: handled_emit)
      next
        case False
        with i have s: "staged_ok s" "st_service s = None" "st_next_pc s \<le> 2 ^ 16" "st_next_fp s < 2 ^ 16" "m = ep_service_seq e"
          by simp_all
        have "core_inv (e\<lparr>ep_service_seq := m, ep_staged := Some (s\<lparr>st_result_crc := crc32 (result_bytes s)\<rparr>), ep_state := RESULT_PENDING\<rparr>)"
          using inv s decided_crc [OF s(1-4)] by (simp add: core_inv_def)
        with run(4) x s result_bytes_small [OF s(1)] show ?thesis
          by (auto simp: liftM_def Let_def finish_transaction_ok intro!: handled_emit)
      qed
    qed
  qed
qed

lemma handle_service_response_handled:
  assumes inv: "core_inv e" and ok: "dq_wf d" and r: "handle_service_response d e = (r, e')"
  shows "handled e r e'"
proof -
  have dg: "fits 128 (fst (dq_digest d))" "fits 128 (snd (dq_digest d))"
    using ok by (simp_all add: dq_wf_def dq_fields_ok_def)
  consider (refused) x where "e' = e" "r = Inl x" "wire_fault x"
    | (run) s where "ep_state e = SERVICE_PENDING" "ep_staged e = Some s" "suspended s"
      "(case resume_blake3 s (dq_digest d) of
          (Inl (ProtocolFault st x), s) \<Rightarrow> (Inl (ProtocolFault st x), ep_discard (e\<lparr>ep_staged := Some s\<rparr>))
        | (Inl x, s) \<Rightarrow> (Inl x, e\<lparr>ep_staged := Some s\<rparr>)
        | (Inr u, s) \<Rightarrow> finish_transaction s (e\<lparr>ep_staged := Some s\<rparr>)) = (r, e')"
  proof (cases "ep_state e = SERVICE_PENDING")
    case True
    then obtain s where s: "ep_staged e = Some s" "suspended s" using inv by (auto simp: core_inv_def)
    then obtain sv where "st_service s = Some sv" by (auto simp: suspended_def)
    with that True s r show ?thesis
      by (auto simp: handle_service_response_def split: if_splits)
  next
    case False
    with that r show ?thesis by (auto simp: handle_service_response_def split: option.splits)
  qed
  then show ?thesis
  proof cases
    case refused
    with inv show ?thesis by (auto intro!: handled_refuse)
  next
    case run
    show ?thesis
    proof (rule resume_blake3_suspended [OF run(3) dg])
      fix s' assume s': "resume_blake3 s (dq_digest d) = (Inr (), s')" "staged_ok s'" "st_service s' = None"
        "st_next_pc s' = st_next_pc s" "st_next_fp s' = st_next_fp s"
      have "decided (s'\<lparr>st_result_crc := crc32 (result_bytes s')\<rparr>)"
        using s' run(3) by (intro decided_crc) (simp_all add: suspended_def)
      then have "core_inv (e\<lparr>ep_staged := Some (s'\<lparr>st_result_crc := crc32 (result_bytes s')\<rparr>), ep_state := RESULT_PENDING\<rparr>)"
        using inv by (simp add: core_inv_def)
      with run(4) s' result_bytes_small [OF s'(2)] show ?thesis
        by (auto simp: finish_transaction_ok intro!: handled_emit)
    next
      fix s' assume s': "resume_blake3 s (dq_digest d) = (Inl (fault WRITE_CONFLICT), s')"
      have "core_inv (ep_discard (e\<lparr>ep_staged := Some s'\<rparr>))"
        using core_inv_discard [OF inv] by (simp add: ep_discard_def)
      with run(1,4) s' show ?thesis by (auto intro!: handled_refuse simp: rejected_discard)
    qed
  qed
qed

text \<open>The transaction a \<open>RETIRE\<close> names is the one that is staged.\<close>

definition matches_staged :: "decoded_request \<Rightarrow> endpoint \<Rightarrow> bool" where
  "matches_staged d e \<longleftrightarrow> ep_state e = RESULT_PENDING \<and>
     (\<exists>s. ep_staged e = Some s \<and> dq_txn_id d = st_txn_id s \<and> dq_result_crc d = st_result_crc s)"

lemma handle_retire_handled:
  assumes inv: "core_inv e" and ok: "dq_wf d" and seq: "ep_retire_seq e < 2 ^ 32 - 1 \<or> \<not> matches_staged d e" and r: "handle_retire d e = (r, e')"
  shows "handled e r e'"
proof -
  have t: "fits 32 (dq_txn_id d)" using ok by (simp add: dq_wf_def dq_fields_ok_def)
  consider (refused) "e' = e" "r = Inl (fault BAD_STATE)"
    | (mismatch) x where "e' = ep_discard e" "r = Inl (ProtocolFault RETIRE_MISMATCH x)" "x = 1 \<or> x = 2" "ep_state e = RESULT_PENDING"
    | (commit) s where "ep_staged e = Some s" "decided s" "matches_staged d e"
      "let e = e\<lparr>ep_committed_pc := st_next_pc s, ep_committed_fp := st_next_fp s,
                      ep_state_valid := True, ep_retire_seq := ep_retire_seq e + 1,
                      ep_state := IDLE, ep_staged := None, ep_done := True\<rparr> in
            thenM (liftM (catE [u32le (dq_txn_id d), u32le (ep_retire_seq e),
                u32le (ep_committed_pc e), u32le (ep_committed_fp e)]) e)
              (\<lambda>payload e. ep_emit (ResponseFrame RETIRED payload) e) = (r, e')"
  proof (cases "ep_state e = RESULT_PENDING")
    case True
    then obtain s where s: "ep_staged e = Some s" "decided s" using inv by (auto simp: core_inv_def)
    with that True r show ?thesis
      by (auto simp: handle_retire_def matches_staged_def Let_def split: if_splits)
  next
    case False
    with that r show ?thesis by (auto simp: handle_retire_def split: option.splits)
  qed
  then show ?thesis
  proof cases
    case refused
    with inv show ?thesis by (auto intro!: handled_refuse)
  next
    case mismatch
    with core_inv_discard [OF inv] show ?thesis by (auto intro!: handled_refuse simp: rejected_discard)
  next
    case commit
    have s: "fits 32 (st_next_pc s)" "fits 32 (st_next_fp s)" "fits 32 (ep_retire_seq e + 1)"
      "0 \<le> st_next_pc s" "0 \<le> st_next_fp s" "st_next_pc s \<le> 2 ^ 16" "st_next_fp s < 2 ^ 16"
      using commit(2,3) inv seq by (auto simp: decided_def staged_ok_def core_inv_def fits_def)
    have "core_inv (e\<lparr>ep_committed_pc := st_next_pc s, ep_committed_fp := st_next_fp s,
                      ep_state_valid := True, ep_retire_seq := ep_retire_seq e + 1,
                      ep_state := IDLE, ep_staged := None, ep_done := True\<rparr>)"
      using inv s by (simp add: core_inv_def fits_def)
    with commit(4) s t show ?thesis
      by (auto simp: Let_def liftM_def prim_fits ep_emit_ok intro!: handled_emit)
  qed
qed

lemma handle_handled:
  assumes inv: "core_inv e" and ok: "dq_wf d" and r: "handle d e = (r, e')"
    and seq: "ep_retire_seq e < 2 ^ 32 - 1 \<or> \<not> (dq_opcode d = OP_RETIRE \<and> matches_staged d e)"
  shows "handled e r e'"
proof -
  have "dq_opcode d \<in> {OP_NEGOTIATE, OP_STATUS_QUERY, OP_SERVICE_RESPONSE, OP_RETIRE} \<or> dq_opcode d \<in> set INSTRUCTION_OPCODES"
    by (cases "dq_opcode d") (simp_all add: INSTRUCTION_OPCODES_def)
  with r show ?thesis
    using handle_negotiate_handled [OF inv] handle_status_query_handled [OF inv] handle_instruction_handled [OF inv ok]
      handle_service_response_handled [OF inv ok] handle_retire_handled [OF inv ok] seq
    by (auto simp: handle_def INSTRUCTION_OPCODES_def split: if_splits)
qed

section \<open>Every byte is answered or stored\<close>

definition responds :: "endpoint \<Rightarrow> endpoint \<Rightarrow> bool" where
  "responds e e' \<longleftrightarrow> core_inv e' \<and> (is_fault (ep_last_status e') \<longrightarrow> rejected (ep_last_status e') e e') \<and> ep_rx e' = ep_rx e \<and> ep_expected e' = ep_expected e \<and>
     (\<exists>p. length p \<le> 122 \<and> ep_tx e' = ep_tx e @ response_bytes (ep_last_status e') p)"

lemma ep_fault_responds:
  "core_inv e \<Longrightarrow> fits 32 t \<Longrightarrow> fits 8 x \<Longrightarrow> \<exists>e'. ep_fault s t x e = (Inr (), e') \<and> responds e e'"
  by (auto simp: ep_fault_ok responds_def core_inv_responded fault_payload_def intro!: exI [of _ "fault_payload t x"])

lemma handled_answer:
  assumes h: "handled e r e'" and t: "fits 32 t"
  shows "\<exists>e''. catchM (r, e') (\<lambda>x. case x of ProtocolFault s d \<Rightarrow> Some (ep_fault s t d) | _ \<Rightarrow> None) = (Inr (), e'') \<and> responds e e''"
proof (cases r)
  case (Inl x)
  then obtain s d where x: "x = ProtocolFault s d" "fits 8 d" "is_fault s" "rejected s e e'"
    and e': "core_inv e'" "ep_tx e' = ep_tx e" "ep_rx e' = ep_rx e" "ep_expected e' = ep_expected e"
    using h by (auto simp: handled_def fits_def)
  with Inl t show ?thesis
    by (auto simp: ep_fault_ok responds_def core_inv_responded fault_payload_def
        intro!: exI [of _ "fault_payload t d"])
next
  case (Inr u)
  with h show ?thesis by (auto simp: handled_def responds_def)
qed

lemma dispatch_payload_responds:
  assumes inv: "core_inv e"
    and seq: "\<And>d. decode_request_payload op p = Inr d \<Longrightarrow> dq_opcode d = OP_RETIRE \<Longrightarrow> matches_staged d e \<Longrightarrow> ep_retire_seq e < 2 ^ 32 - 1"
  shows "\<exists>e'. dispatch_payload op p e = (Inr (), e') \<and> responds e e'"
proof (cases "decode_request_payload op p")
  case (Inl x)
  then have "wire_fault x" by (rule decode_raises)
  with inv have "handled e (Inl x) e" by (auto intro!: handled_refuse)
  from handled_answer [OF this, of 0] Inl show ?thesis by (simp add: dispatch_payload_def)
next
  case (Inr d)
  then have "dq_wf d" using decode_request_payload_Inr by blast
  moreover then have "fits 32 (dq_txn_id d)" by (simp add: dq_wf_def dq_fields_ok_def)
  moreover obtain r e1 where r: "handle d e = (r, e1)" by force
  ultimately show ?thesis
    using handled_answer [OF handle_handled [OF inv _ r]] seq [OF Inr] Inr by (auto simp: dispatch_payload_def)
qed

lemma available_txn_id_fits: "fits 32 (available_txn_id op p)"
  by (simp add: available_txn_id_def fits_le_int)

text \<open>A frame that gets as far as retiring the staged transaction.\<close>

definition retiring :: "bytes \<Rightarrow> endpoint \<Rightarrow> bool" where
  "retiring f e \<longleftrightarrow>
     (let body = take (REQUEST_HEADER_BYTES + announced f) f in
      le_int (drop (length f - CRC_BYTES) f) = crc32 body \<and> uint (f ! 1) = PROTOCOL_VERSION \<and> uint (f ! 3) = 0 \<and>
      (\<exists>op d. opcode_of (uint (f ! 2)) = Some op \<and> decode_request_payload op (drop REQUEST_HEADER_BYTES body) = Inr d \<and>
         dq_opcode d = OP_RETIRE \<and> matches_staged d e))"

lemma retiring_rx [simp]: "retiring f (e\<lparr>ep_rx := x, ep_expected := n\<rparr>) = retiring f e" "retiring f (e\<lparr>ep_done := b\<rparr>) = retiring f e"
  "retiring f (e\<lparr>ep_done := b, ep_tx := t\<rparr>) = retiring f e"
  by (simp_all add: retiring_def matches_staged_def)

lemma ep_dispatch_room:
  assumes inv: "core_inv e" and seq: "ep_retire_seq e < 2 ^ 32 - 1 \<or> \<not> retiring f e"
  shows "\<exists>e'. ep_dispatch f e = (Inr (), e') \<and> responds e e'"
proof -
  have "fits 8 (2 :: int)" by (simp add: fits_def)
  then show ?thesis
    using seq unfolding ep_dispatch_def retiring_def announced_def [symmetric] Let_def
    by (auto simp: available_txn_id_fits intro!: ep_fault_responds [OF inv] dispatch_payload_responds [OF inv]
        split: option.split)
qed

lemma ep_dispatch_responds:
  assumes "core_inv e" "ep_retire_seq e < 2 ^ 32 - 1"
  shows "\<exists>e'. ep_dispatch f e = (Inr (), e') \<and> responds e e'"
  using ep_dispatch_room [OF assms(1), of f] assms(2) by blast

lemma responds_lane:
  "responds e e' \<Longrightarrow> ep_rx e = [] \<Longrightarrow> ep_expected e = 0 \<Longrightarrow> ep_inv e'"
  by (simp add: responds_def ep_inv_def lane_inv_def)

lemma announced_append: "6 \<le> length rx \<Longrightarrow> announced (rx @ ys) = announced rx"
  by (simp add: announced_def pyslice_def)

text \<open>A stretch of bytes that is a whole frame, by its own length field.\<close>

definition complete_frame :: "bytes \<Rightarrow> bool" where
  "complete_frame f \<longleftrightarrow> length f = 10 + announced f \<and> hd f = 0xA1"

lemma ep_accept_total:
  assumes inv: "ep_inv e" and tx: "ep_tx e = []" and seq: "ep_retire_seq e < 2 ^ 32 - 1 \<or> \<not> (complete_frame (ep_rx e @ [b]) \<and> retiring (ep_rx e @ [b]) e)"
  shows "\<exists>e'. ep_accept b e = (Inr (), e') \<and> ep_inv e'"
proof -
  have core: "core_inv e" and lane: "lane_inv e" using inv by (simp_all add: ep_inv_def)
  have core': "core_inv (e\<lparr>ep_rx := rx, ep_expected := n\<rparr>)" for rx n
    using core by (simp add: core_inv_def split: txn_state.splits)
  have seq': "ep_retire_seq (e\<lparr>ep_rx := [], ep_expected := 0\<rparr>) < 2 ^ 32 - 1 \<or> \<not> retiring (ep_rx e @ [b]) (e\<lparr>ep_rx := [], ep_expected := 0\<rparr>)"
    if "complete_frame (ep_rx e @ [b])" using seq that by simp
  have f: "\<exists>e'. ep_fault s 0 x e0 = (Inr (), e') \<and> ep_inv e'"
    if "fits 8 x" "core_inv e0" "ep_rx e0 = []" "ep_expected e0 = 0" for s x e0
    using ep_fault_responds [OF that(2) fits_0 that(1)] responds_lane that by blast
  show ?thesis
  proof (cases "ep_rx e = []")
    case True
    show ?thesis
    proof (cases "uint b = 0xA1")
      case True': True
      then have "b = 0xA1" by (intro word_uint_eqI) simp
      with True True' core' [of 0 "[b]"] tx show ?thesis
        by (simp add: ep_accept_def wire_constants ep_inv_def lane_inv_def)
    next
      case False
      with True lane f [OF _ core] show ?thesis
        by (simp add: ep_accept_def wire_constants lane_inv_def)
    qed
  next
    case False
    define rx where "rx = ep_rx e @ [b]"
    define n where "n = (if length rx = 6 then 10 + announced rx else ep_expected e)"
    have hd: "rx \<noteq> []" "hd rx = 0xA1" using lane False by (simp_all add: lane_inv_def rx_def)
    have acc: "ep_accept b e =
        (if length rx = 6 \<and> announced rx > 256 then ep_fault BAD_LENGTH 0 1 (e\<lparr>ep_rx := []\<rparr>)
         else if n \<noteq> 0 \<and> length rx = n then ep_dispatch rx (e\<lparr>ep_rx := [], ep_expected := 0\<rparr>)
         else (Inr (), e\<lparr>ep_rx := rx, ep_expected := n\<rparr>))"
      using False by (simp add: ep_accept_def wire_constants Let_def rx_def n_def announced_def add.commute)
    show ?thesis
    proof (cases "length rx = 6 \<and> announced rx > 256")
      case True
      then have "ep_expected e = 0" using lane False by (simp add: lane_inv_def rx_def)
      moreover have "core_inv (e\<lparr>ep_rx := []\<rparr>)" using core by (simp add: core_inv_def split: txn_state.splits)
      ultimately show ?thesis using True f [of 1 "e\<lparr>ep_rx := []\<rparr>"] by (simp add: acc)
    next
      case short: False
      show ?thesis
      proof (cases "n \<noteq> 0 \<and> length rx = n")
        case True
        have "length rx = 10 + announced rx"
        proof (cases "length (ep_rx e) < 6")
          case True': True
          then have "ep_expected e = 0" using lane False by (simp add: lane_inv_def)
          with True show ?thesis by (simp add: n_def split: if_splits)
        next
          case long: False
          then have "announced rx = announced (ep_rx e)" by (simp add: rx_def announced_append)
          moreover have "n = ep_expected e" using long by (simp add: n_def rx_def)
          ultimately show ?thesis using True long lane False by (simp add: lane_inv_def)
        qed
        then have "complete_frame rx" using hd by (simp add: complete_frame_def)
        from ep_dispatch_room [OF core' seq', folded rx_def, OF this]
        show ?thesis using True short responds_lane [of "e\<lparr>ep_rx := [], ep_expected := 0\<rparr>"]
          by (fastforce simp: acc)
      next
        case wait: False
        have "if length rx < 6 then n = 0 else announced rx \<le> 256 \<and> n = 10 + announced rx \<and> length rx < n"
        proof (cases "length (ep_rx e) < 6")
          case True
          with lane False short wait show ?thesis by (auto simp: lane_inv_def n_def rx_def)
        next
          case long: False
          then have "announced rx = announced (ep_rx e)" by (simp add: rx_def announced_append)
          with long lane False wait show ?thesis by (auto simp: lane_inv_def n_def rx_def)
        qed
        then have "lane_inv (e\<lparr>ep_rx := rx, ep_expected := n\<rparr>)"
          using hd tx by (simp add: lane_inv_def split: if_splits)
        moreover have "ep_accept b e = (Inr (), e\<lparr>ep_rx := rx, ep_expected := n\<rparr>)"
          unfolding acc if_not_P [OF short] if_not_P [OF wait] by (rule refl)
        ultimately show ?thesis using core' [of n rx] unfolding ep_inv_def by blast
      qed
    qed
  qed
qed

lemma ep_inv_abort: "ep_inv e \<Longrightarrow> ep_inv (ep_abort e)"
  by (simp add: ep_inv_def core_inv_def lane_inv_def ep_abort_def)

lemma core_inv_lane: "core_inv (e\<lparr>ep_done := x\<rparr>) = core_inv e" "core_inv (e\<lparr>ep_tx := t\<rparr>) = core_inv e"
  by (simp_all add: core_inv_def split: txn_state.splits)

lemma ep_step_room:
  assumes inv: "ep_inv e"
    and seq: "ep_retire_seq e < 2 ^ 32 - 1 \<or> \<not> (reset_n \<and> \<not> abort \<and> rx_valid \<and> ep_tx e = [] \<and>
      complete_frame (ep_rx e @ [word_of_int rx_data]) \<and> retiring (ep_rx e @ [word_of_int rx_data]) e)"
  shows "\<exists>r e'. ep_step rx_data rx_valid tx_ready abort reset_n e = (Inr r, e') \<and> ep_inv e'"
proof (cases "\<not> reset_n \<or> abort")
  case True
  with inv show ?thesis by (auto simp: ep_step_def Let_def ep_inv_reset ep_inv_abort)
next
  case False
  define e1 where "e1 = (if ep_tx e \<noteq> [] \<and> tx_ready then e\<lparr>ep_done := False, ep_tx := tl (ep_tx e)\<rparr> else e\<lparr>ep_done := False\<rparr>)"
  have inv1: "ep_inv e1"
    using inv by (auto simp: ep_inv_def e1_def core_inv_lane lane_inv_def)
  have "ep_retire_seq e1 < 2 ^ 32 - 1 \<or> \<not> (complete_frame (ep_rx e1 @ [word_of_int rx_data]) \<and> retiring (ep_rx e1 @ [word_of_int rx_data]) e1)" if "rx_valid" "ep_tx e = []"
    using seq that False by (auto simp: e1_def)
  moreover have "ep_tx e1 = []" if "ep_tx e = []" using that by (simp add: e1_def)
  ultimately have "\<exists>e'. (if rx_valid \<and> ep_tx e = [] then ep_accept (word_of_int rx_data) e1 else (Inr (), e1)) = (Inr (), e') \<and> ep_inv e'"
    using ep_accept_total [OF inv1] inv1 by auto
  with False show ?thesis
    by (auto simp: ep_step_def ep_pins_def Let_def e1_def split: if_splits)
qed

lemma ep_step_inv:
  assumes "ep_inv e" "ep_retire_seq e < 2 ^ 32 - 1"
  shows "\<exists>r e'. ep_step rx_data rx_valid tx_ready abort reset_n e = (Inr r, e') \<and> ep_inv e'"
  by (rule ep_step_room) (use assms in simp_all)

end
