(* ===== verification/Lsc_Safety.thy ===== *)
theory Lsc_Safety
  imports Lsc_Endpoint
begin

text \<open>
  The safety of \<open>Lsc1Endpoint\<close>: which clock edges can commit, what a refused frame leaves
  alone, that corruption is detected, and the reachable states. The component lemmas follow
  the calls of the code, from a response to a handler, the dispatcher, the byte receiver and
  the clock edge.
\<close>

section \<open>What a frame can change\<close>

lemma ep_emit_keeps:
  "ep_emit f e = (r, e') \<Longrightarrow> committed e' = committed e \<and> transaction e' = transaction e"
  by (auto simp: ep_emit_def Let_def split: sum.splits if_splits)

lemma ep_fault_keeps:
  "ep_fault s t d e = (r, e') \<Longrightarrow> committed e' = committed e \<and> transaction e' = transaction e"
  by (auto simp: ep_fault_def thenM_def liftM_def split: sum.splits dest: ep_emit_keeps)

lemma then_emit_keeps:
  "thenM (liftM m e) (\<lambda>p e. ep_emit (ResponseFrame s p) e) = (r, e') \<Longrightarrow>
     committed e' = committed e \<and> transaction e' = transaction e"
  by (auto simp: thenM_def liftM_def split: sum.splits dest: ep_emit_keeps)

lemma thenM_liftM: "thenM (liftM m e) f = (case m of Inl x \<Rightarrow> (Inl x, e) | Inr y \<Rightarrow> f y e)"
  by (simp add: liftM_def thenM_def split: sum.split)

lemma finish_keeps: "finish_transaction s e = (r, e') \<Longrightarrow> committed e' = committed e"
  by (auto simp: finish_transaction_def thenM_def liftM_def split: sum.splits dest!: ep_emit_keeps)

lemma handle_committed:
  assumes inv: "core_inv e" and r: "handle d e = (r, e')"
  shows "committed e' = committed e \<or>
    (\<exists>s. ep_state e = RESULT_PENDING \<and> ep_staged e = Some s \<and> decided s \<and> dq_opcode d = OP_RETIRE \<and>
       dq_txn_id d = st_txn_id s \<and> dq_result_crc d = crc32 (result_bytes s) \<and>
       committed e' = (st_next_pc s, st_next_fp s, True, ep_retire_seq e + 1) \<and> transaction e' = (IDLE, None))"
proof -
  have neg: "committed e' = committed e" if "handle_negotiate d e = (r, e')"
    using that by (auto simp: handle_negotiate_def Let_def split: if_splits dest!: then_emit_keeps)
  have query: "committed e' = committed e" if "handle_status_query e = (r, e')"
    using that by (auto simp: handle_status_query_def dest!: then_emit_keeps)
  have instr: "committed e' = committed e" if "handle_instruction d e = (r, e')"
    using that
    by (auto simp: handle_instruction_def Let_def thenM_liftM [of "execute _ _ _"]
        split: if_splits sum.splits prod.splits option.splits dest!: then_emit_keeps finish_keeps)
  have serv: "committed e' = committed e" if "handle_service_response d e = (r, e')"
    using that
    by (auto simp: handle_service_response_def split: option.splits if_splits sum.splits prod.splits exn.splits
        dest!: finish_keeps)
  have ret: "committed e' = committed e \<or>
    (\<exists>s. ep_state e = RESULT_PENDING \<and> ep_staged e = Some s \<and> decided s \<and>
       dq_txn_id d = st_txn_id s \<and> dq_result_crc d = crc32 (result_bytes s) \<and>
       committed e' = (st_next_pc s, st_next_fp s, True, ep_retire_seq e + 1) \<and> transaction e' = (IDLE, None))"
    if "handle_retire d e = (r, e')"
  proof (cases "ep_state e = RESULT_PENDING")
    case True
    then obtain s where s: "ep_staged e = Some s" "decided s" using inv by (auto simp: core_inv_def)
    with True that show ?thesis
      by (auto simp: handle_retire_def Let_def decided_def split: if_splits dest!: then_emit_keeps)
        (auto simp: committed_def transaction_def)
  next
    case False
    with that show ?thesis by (auto simp: handle_retire_def split: option.splits)
  qed
  show ?thesis
    using r neg query instr serv ret unfolding handle_def by (auto split: if_splits)
qed

text \<open>A frame that passes the envelope checks is the encoding of its opcode and payload.\<close>

lemma frame_envelope:
  assumes len: "length f = 10 + announced f" and sof: "hd f = 0xA1" and ver: "uint (f ! 1) = 1" and fl: "uint (f ! 3) = 0"
    and op: "opcode_of (uint (f ! 2)) = Some op"
    and crc: "le_int (drop (length f - 4) f) = crc32 (take (6 + announced f) f)"
  shows "f = request_bytes op (drop 6 (take (6 + announced f) f))"
proof -
  define n where "n = announced f"
  define p where "p = drop 6 (take (6 + n) f)"
  have l: "length f = 10 + n" using len by (simp add: n_def)
  have lp: "length p = n" using l by (simp add: p_def)
  have sl: "length (pyslice 4 6 f) = 2" using l by simp
  have "int n = le_int (pyslice 4 6 f)" by (simp add: n_def announced_def)
  then have nb: "pyslice 4 6 f = to_le 2 (int (length p))" using to_le_le_int_len [OF sl] lp by simp
  have f0: "f ! 0 = 0xA1" using sof l by (cases f) auto
  have b: "f ! 1 = 1" "f ! 3 = 0" "f ! 2 = word_of_int (opcode_code op)"
    using ver fl opcode_of_Some [OF op, symmetric] by (auto intro: word_uint_eqI)
  have "p @ drop (6 + n) f = drop 6 f"
    using append_take_drop_id [of n "drop 6 f"] by (simp add: p_def drop_take add.commute)
  then have split: "f = request_body op p @ drop (6 + n) f"
    using split_header_6 [of f] l nb f0 b by (simp add: request_body_def)
  then have t: "take (6 + n) f = request_body op p"
    using lp by (metis append_eq_conv_conj length_bodies(1))
  have "drop (6 + n) f = to_le 4 (crc32 (request_body op p))"
    using crc t to_le_le_int_len [of "drop (6 + n) f" 4] l by (simp add: n_def)
  with split show ?thesis by (simp add: request_bytes_def p_def n_def)
qed

lemma dispatch_payload_committed:
  assumes inv: "core_inv e" and r: "dispatch_payload op p e = (r, e')"
  shows "committed e' = committed e \<or>
    (\<exists>s. ep_state e = RESULT_PENDING \<and> ep_staged e = Some s \<and> op = OP_RETIRE \<and>
       p = to_le 4 (st_txn_id s) @ to_le 4 (crc32 (result_bytes s)) \<and>
       committed e' = (st_next_pc s, st_next_fp s, True, ep_retire_seq e + 1) \<and> transaction e' = (IDLE, None))"
proof (cases "decode_request_payload op p")
  case (Inl x)
  with r show ?thesis by (auto simp: dispatch_payload_def split: exn.splits dest: ep_fault_keeps)
next
  case (Inr d)
  obtain r1 e1 where h: "handle d e = (r1, e1)" by force
  have "committed e' = committed e1 \<and> transaction e' = transaction e1"
    using r Inr h by (cases r1) (auto simp: dispatch_payload_def split: exn.splits dest: ep_fault_keeps)
  with handle_committed [OF inv h] decode_request_payload_Inr [OF Inr] show ?thesis
    by (auto simp: payload_of_def)
qed

lemma ep_dispatch_committed:
  assumes inv: "core_inv e" and f: "length f = 10 + announced f" "hd f = 0xA1" and r: "ep_dispatch f e = (r, e')"
  shows "committed e' = committed e \<or>
    (\<exists>s. ep_state e = RESULT_PENDING \<and> ep_staged e = Some s \<and>
       f = request_bytes OP_RETIRE (to_le 4 (st_txn_id s) @ to_le 4 (crc32 (result_bytes s))) \<and>
       committed e' = (st_next_pc s, st_next_fp s, True, ep_retire_seq e + 1) \<and> transaction e' = (IDLE, None))"
proof -
  consider s t x where "ep_fault s t x e = (r, e')"
    | op where "dispatch_payload op (drop 6 (take (6 + announced f) f)) e = (r, e')"
        "f = request_bytes op (drop 6 (take (6 + announced f) f))"
    using r f frame_envelope [OF f]
    by (auto simp: ep_dispatch_def Let_def wire_constants announced_def [symmetric] split: if_splits option.splits)
  then show ?thesis
  proof cases
    case 1
    then show ?thesis by (auto dest: ep_fault_keeps)
  next
    case (2 op)
    with dispatch_payload_committed [OF inv 2(1)] show ?thesis by metis
  qed
qed

text \<open>The byte that completes a frame hands the whole frame to the dispatcher.\<close>

lemma ep_accept_cases:
  assumes lane: "lane_inv e" and r: "ep_accept b e = (r, e')"
  obtains (faulted) s x e0 where "ep_fault s 0 x e0 = (r, e')" "committed e0 = committed e" "transaction e0 = transaction e"
  | (stored) "r = Inr ()" "committed e' = committed e" "transaction e' = transaction e" "ep_tx e' = ep_tx e"
  | (complete) "length (ep_rx e @ [b]) = 10 + announced (ep_rx e @ [b])" "hd (ep_rx e @ [b]) = 0xA1"
      "ep_dispatch (ep_rx e @ [b]) (e\<lparr>ep_rx := [], ep_expected := 0\<rparr>) = (r, e')"
proof (cases "ep_rx e = []")
  case True
  with r that(1,2) show ?thesis by (auto simp: ep_accept_def split: if_splits)
next
  case False
  define rx where "rx = ep_rx e @ [b]"
  define n where "n = (if length rx = 6 then 10 + announced rx else ep_expected e)"
  have hd: "hd rx = 0xA1" using lane False by (simp add: lane_inv_def rx_def)
  have acc: "ep_accept b e =
      (if length rx = 6 \<and> announced rx > 256 then ep_fault BAD_LENGTH 0 1 (e\<lparr>ep_rx := []\<rparr>)
       else if n \<noteq> 0 \<and> length rx = n then ep_dispatch rx (e\<lparr>ep_rx := [], ep_expected := 0\<rparr>)
       else (Inr (), e\<lparr>ep_rx := rx, ep_expected := n\<rparr>))"
    using False by (simp add: ep_accept_def wire_constants Let_def rx_def n_def announced_def add.commute)
  have "length rx = 10 + announced rx" if "n \<noteq> 0" "length rx = n"
  proof (cases "length (ep_rx e) < 6")
    case True
    then have x: "ep_expected e = 0" using lane False by (simp add: lane_inv_def)
    show ?thesis
    proof (cases "length rx = 6")
      case True
      then have "n = 10 + announced rx" by (simp add: n_def)
      with that(2) show ?thesis by simp
    next
      case False
      then have "n = 0" using x by (simp add: n_def)
      with that(1) show ?thesis by simp
    qed
  next
    case long: False
    then have a: "announced rx = announced (ep_rx e)" by (simp add: rx_def announced_append)
    have "ep_expected e = 10 + announced (ep_rx e)" using long lane False by (simp add: lane_inv_def)
    moreover have "n = ep_expected e" using long by (simp add: n_def rx_def)
    ultimately show ?thesis using that(2) a by simp
  qed
  note full = this
  consider "length rx = 6 \<and> announced rx > 256" | "\<not> (length rx = 6 \<and> announced rx > 256)" "n \<noteq> 0 \<and> length rx = n"
    | "\<not> (length rx = 6 \<and> announced rx > 256)" "\<not> (n \<noteq> 0 \<and> length rx = n)" by blast
  then show ?thesis
  proof cases
    case 1
    from r [unfolded acc if_P [OF 1]] show ?thesis by (rule that(1)) simp_all
  next
    case 2
    from r [unfolded acc if_not_P [OF 2(1)] if_P [OF 2(2)]] full 2 hd show ?thesis
      by (intro that(3)) (simp_all add: rx_def)
  next
    case 3
    from r [unfolded acc if_not_P [OF 3(1)] if_not_P [OF 3(2)]] show ?thesis by (intro that(2)) auto
  qed
qed

lemma ep_step_cases:
  assumes r: "ep_step rx_data rx_valid tx_ready abort True e = (r, e')"
  obtains (aborted) "abort" "e' = ep_abort e"
  | (no_byte) "\<not> abort" "\<not> (rx_valid \<and> ep_tx e = [])" "committed e' = committed e" "transaction e' = transaction e"
      "ep_last_status e' = ep_last_status e"
  | (byte) r1 where "\<not> abort" "rx_valid" "ep_tx e = []" "ep_accept (word_of_int rx_data) (e\<lparr>ep_done := False\<rparr>) = (r1, e')"
proof (cases "abort \<or> \<not> (rx_valid \<and> ep_tx e = [])")
  case True
  with r that(1,2) show ?thesis by (auto simp: ep_step_def ep_pins_def Let_def split: if_splits)
next
  case False
  obtain r1 e1 where a: "ep_accept (word_of_int rx_data) (e\<lparr>ep_done := False\<rparr>) = (r1, e1)" by force
  with False r have "e' = e1" by (cases r1) (auto simp: ep_step_def ep_pins_def Let_def)
  with a False that(3) show ?thesis by blast
qed

lemma lane_inv_done: "lane_inv (e\<lparr>ep_done := x\<rparr>) = lane_inv e"
  by (simp add: lane_inv_def)

lemma core_inv_rx: "core_inv (e\<lparr>ep_rx := x, ep_expected := n\<rparr>) = core_inv e"
  by (simp add: core_inv_def split: txn_state.splits)

lemma commit_only_by_matching_retire:
  assumes inv: "ep_inv e" and r: "ep_step rx_data rx_valid tx_ready abort True e = (r, e')"
  shows "committed e' = committed e \<or>
    (\<exists>s. \<not> abort \<and> rx_valid \<and> ep_tx e = [] \<and> ep_state e = RESULT_PENDING \<and> ep_staged e = Some s \<and>
       ep_rx e @ [word_of_int rx_data] =
         request_bytes OP_RETIRE (to_le 4 (st_txn_id s) @ to_le 4 (crc32 (result_bytes s))) \<and>
       committed e' = (st_next_pc s, st_next_fp s, True, ep_retire_seq e + 1) \<and>
       transaction e' = (IDLE, None))"
  using r
proof (cases rule: ep_step_cases)
  case aborted
  then show ?thesis by (simp add: ep_abort_def committed_def)
next
  case no_byte
  then show ?thesis by simp
next
  case (byte r1)
  have lane: "lane_inv (e\<lparr>ep_done := False\<rparr>)" using inv by (simp add: ep_inv_def lane_inv_done)
  from lane byte(4) show ?thesis
  proof (cases rule: ep_accept_cases)
    case (faulted s x e0)
    then show ?thesis by (auto dest: ep_fault_keeps)
  next
    case stored
    then show ?thesis by simp
  next
    case complete
    have "core_inv (e\<lparr>ep_done := False, ep_rx := [], ep_expected := 0\<rparr>)"
      using inv by (simp add: ep_inv_def core_inv_rx core_inv_lane)
    from ep_dispatch_committed [OF this complete(1,2) complete(3)] byte show ?thesis
      by auto
  qed
qed

text \<open>
  C5. A frame the endpoint refuses does not disturb the transaction it already decided: when a
  clock edge ends with a fault response, nothing was committed and the staged transaction is
  unchanged, except for the two refusals that discard it by design, the \<open>RETIRE\<close> that
  does not match and the service digest that conflicts with a written cell.
\<close>

theorem fault_keeps_transaction:
  assumes inv: "ep_inv e" and seq: "ep_retire_seq e < 2 ^ 32 - 1"
    and r: "ep_step rx_data rx_valid tx_ready False True e = (r, e')"
    and f: "ep_tx e = []" "ep_tx e' \<noteq> []" "is_fault (ep_last_status e')"
  shows "committed e' = committed e \<and>
    (transaction e' = transaction e \<or>
     transaction e' = (IDLE, None) \<and>
       (ep_last_status e' = RETIRE_MISMATCH \<and> ep_state e = RESULT_PENDING \<or>
        ep_last_status e' = WRITE_CONFLICT \<and> ep_state e = SERVICE_PENDING))"
proof -
  have "rejected (ep_last_status e') e e'"
    using r
  proof (cases rule: ep_step_cases)
    case aborted
    then show ?thesis by simp
  next
    case no_byte
    then show ?thesis by (simp add: rejected_def)
  next
    case (byte r1)
    have lane: "lane_inv (e\<lparr>ep_done := False\<rparr>)" using inv by (simp add: ep_inv_def lane_inv_done)
    from lane byte(4) show ?thesis
    proof (cases rule: ep_accept_cases)
      case (faulted s x e0)
      then show ?thesis by (auto simp: rejected_def dest: ep_fault_keeps)
    next
      case stored
      then show ?thesis by (simp add: rejected_def)
    next
      case complete
      let ?e = "e\<lparr>ep_done := False, ep_rx := [], ep_expected := 0\<rparr>"
      have c: "core_inv ?e" using inv by (simp add: ep_inv_def core_inv_rx core_inv_lane)
      have s: "ep_retire_seq ?e < 2 ^ 32 - 1" using seq by simp
      from ep_dispatch_responds [OF c s, of "ep_rx e @ [word_of_int rx_data]"] complete(3) f(3)
      have "rejected (ep_last_status e') ?e e'" by (auto simp: responds_def)
      then show ?thesis by (simp add: rejected_def)
    qed
  qed
  then show ?thesis by (auto simp: rejected_def)
qed

text \<open>
  Corruption of the body of a request in one window of at most four bytes that leaves its length
  field alone fails the CRC check.
\<close>

lemma window_fails_crc:
  assumes f: "request_body op p = pre @ w1 @ post" and w: "length w1 = length w2" "length w1 \<le> 4" "w1 \<noteq> w2"
    and len: "announced (pre @ w2 @ post) = length p"
  shows "ep_dispatch (pre @ w2 @ post @ to_le 4 (crc32 (request_body op p))) e =
    (Inr (), responded BAD_CRC (fault_payload 0 0) e)"
proof -
  let ?b = "pre @ w2 @ post" and ?c = "to_le 4 (crc32 (request_body op p))"
  have lb: "length ?b = 6 + length p" using arg_cong [OF f, of length] w(1) by simp
  have a: "announced (?b @ ?c) = length p" using len lb announced_append [of ?b ?c] by simp
  have "crc32 ?b \<noteq> crc32 (request_body op p)" using crc32_window [OF w(1,2,3), of pre post] f by simp
  then have "le_int (drop (length (?b @ ?c) - 4) (?b @ ?c)) \<noteq> crc32 (take (6 + announced (?b @ ?c)) (?b @ ?c))"
    unfolding a using lb by simp
  then show ?thesis
    by (simp add: ep_dispatch_def wire_constants Let_def ep_fault_ok announced_def [symmetric])
qed

section \<open>A well-formed frame reaches its handler\<close>

lemma announced_request: "length p < 2 ^ 16 \<Longrightarrow> announced (request_bytes op p) = length p"
  by (simp add: announced_def request_bytes_def request_body_def pyslice_def fits_def)

lemma request_bytes_nth [simp]:
  "request_bytes op p ! Suc 0 = 1" "request_bytes op p ! 2 = word_of_int (opcode_code op)" "request_bytes op p ! 3 = 0"
  by (simp_all add: request_bytes_def request_body_def)

lemma ep_dispatch_request:
  assumes "length p = REQUEST_PAYLOAD_BYTES op"
  shows "ep_dispatch (request_bytes op p) e = dispatch_payload op p e"
proof -
  have l: "length p < 2 ^ 16" using assms payload_bytes_le [of op] by (simp add: MAX_PAYLOAD_BYTES_def)
  have t: "take (6 + length p) (request_bytes op p) = request_body op p"
    "drop (6 + length p) (request_bytes op p) = to_le 4 (crc32 (request_body op p))"
    by (simp_all add: request_bytes_def)
  have d: "drop 6 (request_body op p) = p" by (simp add: request_body_def)
  show ?thesis
    using announced_request [OF l, of op]
    by (simp add: ep_dispatch_def wire_constants Let_def announced_def [symmetric] t d assms [symmetric])
qed

lemma dispatch_payload_decoded:
  "dq_wf d \<Longrightarrow> dispatch_payload (dq_opcode d) (payload_of d) e =
     catchM (handle d e) (\<lambda>x. case x of ProtocolFault s i \<Rightarrow> Some (ep_fault s (dq_txn_id d) i) | _ \<Rightarrow> None)"
  by (simp add: dispatch_payload_def decode_payload_of)

lemma ep_accept_last:
  assumes lane: "lane_inv e" and f: "ep_rx e @ [b] = f" "length f = 10 + announced f" "announced f \<le> 256"
  shows "ep_accept b e = ep_dispatch f (e\<lparr>ep_rx := [], ep_expected := 0\<rparr>)"
proof -
  have ne: "ep_rx e \<noteq> []" using f(1,2) by (cases "ep_rx e") auto
  have ge: "9 \<le> length (ep_rx e)" using f(1,2) by (cases f rule: rev_cases) auto
  then have "announced f = announced (ep_rx e)" using f(1) announced_append [of "ep_rx e" "[b]"] by auto
  moreover have "ep_expected e = 10 + announced (ep_rx e)" using lane ne ge by (simp add: lane_inv_def)
  ultimately have x: "ep_expected e = length f" using f(2) by simp
  have n6: "length f \<noteq> 6" "f \<noteq> []" using f(2) by auto
  show ?thesis
    using ne x n6 f(1) by (simp add: ep_accept_def wire_constants Let_def)
qed

text \<open>The frame that retires a staged transaction.\<close>

definition retire_frame :: "staged_transaction \<Rightarrow> bytes" where
  "retire_frame s = request_bytes OP_RETIRE (to_le 4 (st_txn_id s) @ to_le 4 (crc32 (result_bytes s)))"

lemma retire_dispatch:
  assumes s: "ep_state e = RESULT_PENDING" "ep_staged e = Some s" "decided s" and r: "ep_dispatch (retire_frame s) e = (r, e')"
  shows "committed e' = (st_next_pc s, st_next_fp s, True, ep_retire_seq e + 1) \<and> transaction e' = (IDLE, None)"
proof -
  define d where "d = (DecodedRequest OP_RETIRE)\<lparr>dq_txn_id := st_txn_id s, dq_result_crc := crc32 (result_bytes s)\<rparr>"
  have "fits 32 (st_txn_id s)" using s(3) by (simp add: decided_def staged_ok_def)
  then have wf: "dq_wf d"
    by (simp add: d_def dq_wf_def dq_defaults_def dq_fields_ok_def dq_lengths_def DecodedRequest_def INSTRUCTION_OPCODES_def)
  have p: "payload_of d = to_le 4 (st_txn_id s) @ to_le 4 (crc32 (result_bytes s))" "dq_opcode d = OP_RETIRE"
    by (simp_all add: d_def payload_of_def DecodedRequest_def)
  have "ep_dispatch (retire_frame s) e = dispatch_payload (dq_opcode d) (payload_of d) e"
    unfolding retire_frame_def p by (rule ep_dispatch_request) simp
  also have "\<dots> = catchM (handle d e) (\<lambda>x. case x of ProtocolFault st i \<Rightarrow> Some (ep_fault st (dq_txn_id d) i) | _ \<Rightarrow> None)"
    by (rule dispatch_payload_decoded [OF wf])
  finally have r': "catchM (handle d e) (\<lambda>x. case x of ProtocolFault st i \<Rightarrow> Some (ep_fault st (dq_txn_id d) i) | _ \<Rightarrow> None) = (r, e')"
    using r by simp
  define e1 where "e1 = e\<lparr>ep_committed_pc := st_next_pc s, ep_committed_fp := st_next_fp s,
      ep_state_valid := True, ep_retire_seq := ep_retire_seq e + 1, ep_state := IDLE, ep_staged := None, ep_done := True\<rparr>"
  have m: "dq_txn_id d = st_txn_id s" "dq_result_crc d = st_result_crc s"
    using s(3) by (simp_all add: d_def DecodedRequest_def decided_def)
  obtain r2 e2 where h: "handle d e = (r2, e2)" by force
  then have h2: "thenM (liftM (catE [u32le (dq_txn_id d), u32le (ep_retire_seq e1),
        u32le (ep_committed_pc e1), u32le (ep_committed_fp e1)]) e1)
      (\<lambda>payload e. ep_emit (ResponseFrame RETIRED payload) e) = (r2, e2)"
    using s(1,2) m p(2) by (simp add: handle_def handle_retire_def Let_def e1_def)
  from then_emit_keeps [OF this]
  have "committed e2 = committed e1 \<and> transaction e2 = transaction e1" .
  moreover have "committed e' = committed e2 \<and> transaction e' = transaction e2"
    using r' h by (cases r2) (auto split: exn.splits dest: ep_fault_keeps)
  ultimately show ?thesis by (simp add: e1_def committed_def transaction_def)
qed


lemma retire_frame_shape: "length (retire_frame s) = 10 + announced (retire_frame s)" "announced (retire_frame s) = 8"
  by (simp_all add: retire_frame_def announced_request)

text \<open>
  C1. The committed scalar state \<open>(pc, fp)\<close>, its validity and the retirement counter move on
  one event exactly: the last byte of the \<open>RETIRE\<close> frame that names the staged transaction
  and the CRC-32 of the result the endpoint itself decided. They then become that result's
  \<open>(next_pc, next_fp)\<close> and the counter advances by one. No other byte, stall, abort or
  malformed frame moves them.
\<close>

theorem commit_iff_matching_retire:
  assumes inv: "ep_inv e" and r: "ep_step rx_data rx_valid tx_ready abort True e = (r, e')"
  shows "committed e' =
    (case ep_staged e of
       Some s \<Rightarrow>
         if \<not> abort \<and> rx_valid \<and> ep_tx e = [] \<and> ep_state e = RESULT_PENDING \<and>
            ep_rx e @ [word_of_int rx_data] = retire_frame s
         then (st_next_pc s, st_next_fp s, True, ep_retire_seq e + 1) else committed e
     | None \<Rightarrow> committed e)"
proof (cases "\<exists>s. \<not> abort \<and> rx_valid \<and> ep_tx e = [] \<and> ep_state e = RESULT_PENDING \<and> ep_staged e = Some s \<and>
            ep_rx e @ [word_of_int rx_data] = retire_frame s")
  case True
  then obtain s where s: "\<not> abort" "rx_valid" "ep_tx e = []" "ep_state e = RESULT_PENDING" "ep_staged e = Some s"
    "ep_rx e @ [word_of_int rx_data] = retire_frame s" by blast
  let ?e = "e\<lparr>ep_done := False, ep_rx := [], ep_expected := 0\<rparr>"
  have d: "decided s" using inv s by (simp add: ep_inv_def core_inv_def)
  have lane: "lane_inv (e\<lparr>ep_done := False\<rparr>)" using inv by (simp add: ep_inv_def lane_inv_done)
  have "ep_accept (word_of_int rx_data) (e\<lparr>ep_done := False\<rparr>) = ep_dispatch (retire_frame s) ?e"
    using ep_accept_last [OF lane, of "word_of_int rx_data" "retire_frame s"] s(6) retire_frame_shape by simp
  moreover obtain r1 e1 where "ep_dispatch (retire_frame s) ?e = (r1, e1)" by force
  moreover from retire_dispatch [OF _ _ d this] s
  have "committed e1 = (st_next_pc s, st_next_fp s, True, ep_retire_seq e + 1)" by simp
  ultimately have "committed e' = (st_next_pc s, st_next_fp s, True, ep_retire_seq e + 1)"
    using r s by (cases r1) (auto simp: ep_step_def ep_pins_def Let_def)
  with s show ?thesis by simp
next
  case False
  with commit_only_by_matching_retire [OF inv r] show ?thesis
    by (auto simp: retire_frame_def split: option.split)
qed

section \<open>When an edge raises\<close>

lemma retiring_frame:
  assumes len: "length f = 10 + announced f" and sof: "hd f = 0xA1" and inv: "core_inv e" and r: "retiring f e"
  obtains s where "ep_state e = RESULT_PENDING" "ep_staged e = Some s" "decided s" "f = retire_frame s"
proof -
  let ?p = "drop 6 (take (6 + announced f) f)"
  obtain op d where d: "le_int (drop (length f - 4) f) = crc32 (take (6 + announced f) f)" "uint (f ! 1) = 1" "uint (f ! 3) = 0"
      "opcode_of (uint (f ! 2)) = Some op" "decode_request_payload op ?p = Inr d" "dq_opcode d = OP_RETIRE" "matches_staged d e"
    using r by (auto simp: retiring_def wire_constants Let_def)
  obtain s where s: "ep_state e = RESULT_PENDING" "ep_staged e = Some s" "dq_txn_id d = st_txn_id s" "dq_result_crc d = st_result_crc s"
    using d(7) by (auto simp: matches_staged_def)
  have dec: "decided s" using inv s(1,2) by (simp add: core_inv_def)
  have "f = request_bytes op ?p" by (rule frame_envelope [OF len sof d(2,3,4,1)])
  moreover have "op = OP_RETIRE" "?p = to_le 4 (st_txn_id s) @ to_le 4 (crc32 (result_bytes s))"
    using decode_request_payload_Inr [OF d(5)] d(6) s(3,4) dec by (auto simp: payload_of_def decided_def)
  ultimately have "f = retire_frame s" by (simp add: retire_frame_def)
  with s dec that show thesis by blast
qed

lemma retire_raises:
  assumes s: "ep_state e = RESULT_PENDING" "ep_staged e = Some s" "decided s" and q: "ep_retire_seq e = 2 ^ 32 - 1"
  shows "\<exists>e'. ep_dispatch (retire_frame s) e = (Inl ValueError, e')"
proof -
  define d where "d = (DecodedRequest OP_RETIRE)\<lparr>dq_txn_id := st_txn_id s, dq_result_crc := crc32 (result_bytes s)\<rparr>"
  have t: "fits 32 (st_txn_id s)" using s(3) by (simp add: decided_def staged_ok_def)
  then have wf: "dq_wf d"
    by (simp add: d_def dq_wf_def dq_defaults_def dq_fields_ok_def dq_lengths_def DecodedRequest_def INSTRUCTION_OPCODES_def)
  have p: "payload_of d = to_le 4 (st_txn_id s) @ to_le 4 (crc32 (result_bytes s))" "dq_opcode d = OP_RETIRE"
    by (simp_all add: d_def payload_of_def DecodedRequest_def)
  have m: "dq_txn_id d = st_txn_id s" "dq_result_crc d = st_result_crc s"
    using s(3) by (simp_all add: d_def DecodedRequest_def decided_def)
  have "\<not> fits 32 (2 ^ 32 :: int)" by (simp add: fits_def)
  then have "\<exists>e'. handle d e = (Inl ValueError, e')"
    using s(1,2) q t m p(2) by (simp add: handle_def handle_retire_def Let_def prim_fits liftM_def)
  then obtain e' where h: "handle d e = (Inl ValueError, e')" by blast
  have "ep_dispatch (retire_frame s) e = dispatch_payload (dq_opcode d) (payload_of d) e"
    unfolding retire_frame_def p by (rule ep_dispatch_request) simp
  then show ?thesis by (simp add: dispatch_payload_decoded [OF wf] h catchM_def)
qed

text \<open>
  C2. When a clock edge raises. Whatever is on the pins, an edge from a state in which the
  invariant holds returns its record and keeps the state machine and the byte lane well-formed,
  with one exception: with \<open>2^32 - 1\<close> retirements done, the last byte of the \<open>RETIRE\<close> frame that
  names the staged transaction raises \<open>ValueError\<close>. What that leaves behind is the last property of
  this theory.
\<close>

theorem ep_step_total:
  assumes inv: "ep_inv e"
  shows "if ep_retire_seq e = 2 ^ 32 - 1 \<and> reset_n \<and> \<not> abort \<and> rx_valid \<and> ep_tx e = [] \<and> ep_state e = RESULT_PENDING \<and>
      (\<exists>s. ep_staged e = Some s \<and> ep_rx e @ [word_of_int rx_data] = retire_frame s)
    then \<exists>e'. ep_step rx_data rx_valid tx_ready abort reset_n e = (Inl ValueError, e')
    else \<exists>r e'. ep_step rx_data rx_valid tx_ready abort reset_n e = (Inr r, e') \<and> ep_inv e'"
proof (cases "ep_retire_seq e = 2 ^ 32 - 1 \<and> reset_n \<and> \<not> abort \<and> rx_valid \<and> ep_tx e = [] \<and> ep_state e = RESULT_PENDING \<and>
      (\<exists>s. ep_staged e = Some s \<and> ep_rx e @ [word_of_int rx_data] = retire_frame s)")
  case True
  then obtain s where s: "ep_retire_seq e = 2 ^ 32 - 1" "reset_n" "\<not> abort" "rx_valid" "ep_tx e = []" "ep_state e = RESULT_PENDING"
    "ep_staged e = Some s" "ep_rx e @ [word_of_int rx_data] = retire_frame s" by blast
  let ?e = "e\<lparr>ep_done := False, ep_rx := [], ep_expected := 0\<rparr>"
  have d: "decided s" using inv s by (simp add: ep_inv_def core_inv_def)
  have lane: "lane_inv (e\<lparr>ep_done := False\<rparr>)" using inv by (simp add: ep_inv_def lane_inv_done)
  have a: "ep_accept (word_of_int rx_data) (e\<lparr>ep_done := False\<rparr>) = ep_dispatch (retire_frame s) ?e"
    using ep_accept_last [OF lane, of "word_of_int rx_data" "retire_frame s"] s(8) retire_frame_shape by simp
  obtain e' where "ep_dispatch (retire_frame s) ?e = (Inl ValueError, e')" using retire_raises [of ?e s] s d by auto
  with a s have "\<exists>e'. ep_step rx_data rx_valid tx_ready abort reset_n e = (Inl ValueError, e')"
    by (auto simp: ep_step_def ep_pins_def Let_def)
  with True show ?thesis by simp
next
  case False
  have core: "core_inv e" and lane: "lane_inv e" and top: "ep_retire_seq e < 2 ^ 32" using inv by (simp_all add: ep_inv_def core_inv_def)
  let ?f = "ep_rx e @ [word_of_int rx_data]"
  have "ep_retire_seq e < 2 ^ 32 - 1 \<or> \<not> (reset_n \<and> \<not> abort \<and> rx_valid \<and> ep_tx e = [] \<and> complete_frame ?f \<and> retiring ?f e)"
  proof (rule ccontr)
    assume "\<not> ?thesis"
    then have c: "ep_retire_seq e = 2 ^ 32 - 1" "reset_n" "\<not> abort" "rx_valid" "ep_tx e = []" "complete_frame ?f" "retiring ?f e" using top by simp_all
    then obtain s where "ep_state e = RESULT_PENDING" "ep_staged e = Some s" "?f = retire_frame s"
      using retiring_frame [OF _ _ core c(7)] by (auto simp: complete_frame_def)
    with c False show False by simp
  qed
  from ep_step_room [OF inv this] show ?thesis unfolding if_not_P [OF False] .
qed

section \<open>Reachable states\<close>

text \<open>
  The clock edges of one power-up: any inputs on the pins, as long as the retirement counter
  has room for one more.
\<close>

inductive ep_trans :: "endpoint \<Rightarrow> endpoint \<Rightarrow> bool" where
  edge: "ep_retire_seq e < 2 ^ 32 - 1 \<Longrightarrow> ep_step rx_data rx_valid tx_ready abort reset_n e = (r, e') \<Longrightarrow> ep_trans e e'"

definition ep_reachable :: "endpoint \<Rightarrow> bool" where
  "ep_reachable e \<longleftrightarrow> ep_trans\<^sup>*\<^sup>* ep_reset e"

lemma ep_trans_inv:
  assumes "ep_trans e e'" "ep_inv e"
  shows "ep_inv e'"
  using assms(1)
proof cases
  case (edge rx_data rx_valid tx_ready abort reset_n r)
  with ep_step_inv [OF assms(2), of rx_data rx_valid tx_ready abort reset_n] show ?thesis by auto
qed

lemma ep_reachable_inv: "ep_reachable e \<Longrightarrow> ep_inv e"
  unfolding ep_reachable_def by (induction rule: rtranclp_induct) (auto simp: ep_inv_reset intro: ep_trans_inv)

lemma staged_writes_ok:
  "ep_inv e \<Longrightarrow> ep_staged e = Some s \<Longrightarrow> staged_ok s"
  by (auto simp: ep_inv_def core_inv_def decided_def suspended_def split: txn_state.splits)

text \<open>
  C6. In every state the endpoint can reach, whatever arrived on its pins, the state register
  names what is staged, and a staged transition is one the host can apply: at most two
  writes at distinct addresses with values below \<open>2^128\<close>, at most one deferred equality, a
  next state inside the index window (a next \<open>pc\<close> of \<open>2^16\<close> being the one exception), and
  the recorded CRC is the CRC-32 of exactly the result payload that was sent.
\<close>

theorem reachable_staged_transition:
  assumes "ep_reachable e"
  shows "(ep_state e = IDLE \<longleftrightarrow> ep_staged e = None) \<and>
    (\<forall>s. ep_staged e = Some s \<longrightarrow>
       length (st_writes s) \<le> 2 \<and> distinct (map wr_address (st_writes s)) \<and>
       (\<forall>w\<in>set (st_writes s). fits 32 (wr_address w) \<and> fits 128 (wr_value w)) \<and>
       length (st_deferred s) \<le> 1 \<and> st_next_pc s \<le> 2 ^ 16 \<and> st_next_fp s < 2 ^ 16 \<and>
       (ep_state e = RESULT_PENDING \<longrightarrow>
          (\<exists>p. result_payload s = Inr p \<and> st_result_crc s = crc32 p)) \<and>
       (ep_state e = SERVICE_PENDING \<longrightarrow> st_writes s = [] \<and> st_service s \<noteq> None))"
proof -
  have inv: "core_inv e" using ep_reachable_inv [OF assms] by (simp add: ep_inv_def)
  show ?thesis
  proof (cases "ep_state e")
    case IDLE
    with inv show ?thesis by (simp add: core_inv_def)
  next
    case RESULT_PENDING
    then obtain s where s: "ep_staged e = Some s" "decided s" using inv by (auto simp: core_inv_def)
    then have "result_payload s = Inr (result_bytes s)" by (simp add: decided_def result_payload_ok)
    with s RESULT_PENDING show ?thesis by (simp add: decided_def staged_ok_def)
  next
    case SERVICE_PENDING
    then obtain s where s: "ep_staged e = Some s" "suspended s" using inv by (auto simp: core_inv_def)
    then have "st_writes s = []" "st_service s \<noteq> None" by (auto simp: suspended_def)
    with s SERVICE_PENDING show ?thesis by (simp add: suspended_def staged_ok_def)
  qed
qed

section \<open>What the protocol does not promise\<close>

text \<open>
  C39. A retired transition that leaves \<open>pc\<close> at \<open>2^16\<close> ends the session: from then on every
  instruction request is refused, with \<open>BAD_PROFILE\<close>, \<open>STATE_MISMATCH\<close> or \<open>INDEX_RANGE\<close>,
  and the endpoint is unchanged, so that only a reset makes progress possible again. Only
  \<open>_execute_blake3\<close> refuses to decide such a transition.
\<close>

theorem pc_limit_wedges:
  assumes e: "ep_state e = IDLE" "ep_state_valid e" "ep_committed_pc e = 2 ^ 16"
  shows "\<exists>s \<in> {BAD_PROFILE, STATE_MISMATCH, INDEX_RANGE}. handle_instruction d e = (Inl (fault s), e)"
  using e by (auto simp: handle_instruction_def wire_constants)

text \<open>
  \<open>STATUS_QUERY\<close> reports without touching the transaction, the committed state, the
  profile or the counters; the one register it overwrites is the last status, so that it
  also clears the \<open>FAULT\<close> pin of an earlier fault.
\<close>

theorem status_query_only_clears_last_status:
  assumes inv: "core_inv e"
  shows "\<exists>p. handle_status_query e = (Inr (), e\<lparr>ep_last_status := INFO, ep_tx := ep_tx e @ response_bytes INFO p\<rparr>) \<and>
    length p = 20 \<and>
    (ep_tx e = [] \<longrightarrow> \<not> pn_fault (ep_pins (snd (handle_status_query e))))"
proof -
  let ?p = "to_le 1 (state_code (ep_state e)) @ to_le 4 (case ep_staged e of None \<Rightarrow> 0 | Some s \<Rightarrow> st_txn_id s)
    @ to_le 1 (status_code (ep_last_status e)) @ to_le 4 (ep_retire_seq e) @ to_le 1 (status_code (ep_last_fault e))
    @ to_le 4 (ep_committed_pc e) @ to_le 4 (ep_committed_fp e) @ to_le 1 (if ep_state_valid e then 1 else 0)"
  have "handle_status_query e = (Inr (), responded INFO ?p e)"
    using core_inv_fields [OF inv]
    by (simp add: handle_status_query_def prim_fits liftM_def ep_emit_ok)
  moreover have "responded INFO ?p e = e\<lparr>ep_last_status := INFO, ep_tx := ep_tx e @ response_bytes INFO ?p\<rparr>"
    by (simp add: responded_def)
  ultimately show ?thesis by (intro exI [of _ ?p]) (simp add: ep_pins_def)
qed

text \<open>
  C40. The retirement counter is not bounded by the endpoint: with \<open>2^32 - 1\<close> retirements done
  the next matching \<open>RETIRE\<close> commits the transition and then raises \<open>ValueError\<close> while
  encoding its answer, so no response is sent for a committed transition.
\<close>

theorem retire_counter_overflow:
  assumes e: "ep_state e = RESULT_PENDING" "ep_staged e = Some s" "ep_retire_seq e = 2 ^ 32 - 1"
    and d: "dq_txn_id d = st_txn_id s" "dq_result_crc d = st_result_crc s" "fits 32 (st_txn_id s)"
  shows "\<exists>e'. handle_retire d e = (Inl ValueError, e') \<and>
    committed e' = (st_next_pc s, st_next_fp s, True, 2 ^ 32) \<and> ep_tx e' = ep_tx e"
proof -
  have "\<not> fits 32 (2 ^ 32 :: int)" by (simp add: fits_def)
  then show ?thesis
    using e d by (simp add: handle_retire_def Let_def prim_fits liftM_def committed_def)
qed

end
