(* ===== verification/Lsc_Drive.thy ===== *)
theory Lsc_Drive
  imports Lsc_Safety
begin

text \<open>
  The host-side driver over the byte lane, \<open>drive\<close>: it pushes a frame under repeating stall
  patterns and collects one response. The loop of \<open>drive\<close> is bounded by \<open>max_cycles\<close>, which
  is the recursion argument of \<open>drive_loop\<close>.
\<close>

section \<open>The driver\<close>

fun drive_loop :: "nat \<Rightarrow> bytes \<Rightarrow> int list \<Rightarrow> int list \<Rightarrow> nat \<Rightarrow> bytes \<Rightarrow> int \<Rightarrow> int \<Rightarrow> int
    \<Rightarrow> (endpoint, exn, bytes \<times> int) routine" where
  "drive_loop 0 frame rx_pattern tx_pattern sent response rx_hold tx_hold cycles e = (Inl RuntimeError, e)"
| "drive_loop (Suc n) frame rx_pattern tx_pattern sent response rx_hold tx_hold cycles e =
     thenM (ep_step (if sent < length frame then uint (frame ! sent) else 0)
              (sent < length frame \<and> rx_hold = 0) (tx_hold = 0) False True e) (\<lambda>record e.
       let cycles = cycles + 1;
           (sent, rx_hold) =
             (if ln_rx_committed record then (sent + 1, rx_pattern ! ((sent + 1) mod length rx_pattern))
              else if rx_hold \<noteq> 0 then (sent, rx_hold - 1) else (sent, rx_hold));
           (response, tx_hold) =
             (if ln_tx_committed record
              then (response @ [word_of_int (pn_tx_data (ln_pins record))],
                    tx_pattern ! ((length response + 1) mod length tx_pattern))
              else if tx_hold \<noteq> 0 then (response, tx_hold - 1) else (response, tx_hold))
       in if sent = length frame \<and> response \<noteq> [] \<and> \<not> pn_tx_valid (ep_pins e)
          then (Inr (response, cycles), e)
          else drive_loop n frame rx_pattern tx_pattern sent response rx_hold tx_hold cycles e)"

text \<open>\<open>list(gaps or [0])\<close>.\<close>

definition gap_pattern :: "int list option \<Rightarrow> int list" where
  "gap_pattern gaps = (case gaps of None \<Rightarrow> [0] | Some [] \<Rightarrow> [0] | Some ps \<Rightarrow> ps)"

definition drive :: "bytes \<Rightarrow> int list option \<Rightarrow> int list option \<Rightarrow> nat \<Rightarrow> (endpoint, exn, bytes \<times> int) routine" where
  "drive frame rx_gaps tx_gaps max_cycles =
     (let rx_pattern = gap_pattern rx_gaps; tx_pattern = gap_pattern tx_gaps
      in drive_loop max_cycles frame rx_pattern tx_pattern 0 [] (rx_pattern ! 0) (tx_pattern ! 0) 0)"

section \<open>One clock edge of the driven lane\<close>

text \<open>The endpoint between two exchanges.\<close>

definition quiet :: "endpoint \<Rightarrow> bool" where
  "quiet e \<longleftrightarrow> ep_rx e = [] \<and> ep_tx e = [] \<and> ep_expected e = 0 \<and> \<not> ep_done e"

text \<open>A frame of the length its header announces.\<close>

definition well_framed :: "bytes \<Rightarrow> bool" where
  "well_framed f \<longleftrightarrow> f \<noteq> [] \<and> hd f = 0xA1 \<and> length f = 10 + announced f \<and> announced f \<le> 256"

text \<open>The endpoint after the first \<open>k\<close> bytes of a frame.\<close>

definition receiving :: "bytes \<Rightarrow> nat \<Rightarrow> endpoint \<Rightarrow> endpoint" where
  "receiving f k e = e\<lparr>ep_rx := take k f, ep_expected := (if 6 \<le> k then length f else 0)\<rparr>"

lemma receiving_0: "quiet e \<Longrightarrow> receiving f 0 e = e"
  by (simp add: receiving_def quiet_def)

lemma well_framed_long: "well_framed f \<Longrightarrow> 10 \<le> length f"
  by (simp add: well_framed_def)

lemma announced_take: "6 \<le> k \<Longrightarrow> k \<le> length f \<Longrightarrow> announced (take k f) = announced f"
  using announced_append [of "take k f" "drop k f"] by simp

lemma receiving_Suc:
  assumes f: "well_framed f" and k: "k + 1 < length f" and e: "quiet e"
  shows "ep_accept (f ! k) (receiving f k e) = (Inr (), receiving f (k + 1) e)"
proof (cases "k = 0")
  case True
  with f have "f ! k = 0xA1" by (metis well_framed_def hd_conv_nth)
  moreover have "take (Suc 0) f = [f ! 0]" using k by (cases f) simp_all
  ultimately show ?thesis using True e by (simp add: ep_accept_def receiving_def wire_constants quiet_def)
next
  case False
  have t: "take k f @ [f ! k] = take (k + 1) f" using k by (simp add: take_Suc_conv_app_nth)
  have ne: "f \<noteq> []" using k by auto
  have a: "announced (take 6 f) = announced f" using well_framed_long [OF f] by (simp add: announced_take)
  show ?thesis
    using False k e f a ne
    by (auto simp: ep_accept_def receiving_def wire_constants quiet_def Let_def t [simplified] announced_def [symmetric]
        well_framed_def)
qed

lemma receiving_last:
  assumes f: "well_framed f" and k: "k + 1 = length f" and e: "quiet e"
  shows "ep_accept (f ! k) (receiving f k e) = ep_dispatch f e"
proof -
  have t: "take k f @ [f ! k] = f" using k by (metis take_Suc_conv_app_nth Suc_eq_plus1 lessI take_all order_refl)
  have k6: "6 \<le> k" "take k f \<noteq> []" using well_framed_long [OF f] k by auto
  have e': "(receiving f k e)\<lparr>ep_rx := [], ep_expected := 0\<rparr> = e" using e by (simp add: receiving_def quiet_def)
  have "ep_rx (receiving f k e) = take k f" "ep_expected (receiving f k e) = length f" using k6 by (simp_all add: receiving_def)
  then show ?thesis using k k6 t e' well_framed_long [OF f]
    by (simp add: ep_accept_def wire_constants Let_def)
qed

lemma receiving_tx [simp]: "ep_tx (receiving f k e) = ep_tx e" "ep_done (receiving f k e) = ep_done e"
  by (simp_all add: receiving_def)

lemma step_idle:
  assumes "quiet e"
  shows "ep_step x False tr False True (receiving f k e) =
    (Inr \<lparr>ln_pins = ep_pins (receiving f k e), ln_rx_committed = False, ln_tx_committed = False\<rparr>, receiving f k e)"
proof -
  have d [simp]: "(receiving f k e)\<lparr>ep_done := False\<rparr> = receiving f k e" using assms by (simp add: receiving_def quiet_def)
  from assms show ?thesis by (simp add: ep_step_def ep_pins_def Let_def quiet_def)
qed

lemma step_byte:
  assumes "quiet e"
  shows "ep_step (uint b) True tr False True (receiving f k e) =
    thenM (ep_accept b (receiving f k e))
      (\<lambda>_ e'. (Inr \<lparr>ln_pins = ep_pins (receiving f k e), ln_rx_committed = True, ln_tx_committed = False\<rparr>, e'))"
proof -
  have d [simp]: "(receiving f k e)\<lparr>ep_done := False\<rparr> = receiving f k e" using assms by (simp add: receiving_def quiet_def)
  from assms show ?thesis by (simp add: ep_step_def ep_pins_def Let_def quiet_def)
qed

lemma step_send:
  assumes "ep_tx e = b # bs"
  shows "ep_step x False tr False True e =
    (Inr \<lparr>ln_pins = ep_pins e, ln_rx_committed = False, ln_tx_committed = tr\<rparr>,
     e\<lparr>ep_done := False, ep_tx := if tr then bs else b # bs\<rparr>)"
  using assms by (simp add: ep_step_def ep_pins_def Let_def)

section \<open>The two phases of an exchange\<close>

text \<open>The clock edges that \<open>n\<close> items take under a stall pattern, from item \<open>i\<close> on.\<close>

fun lane_cost :: "int list \<Rightarrow> nat \<Rightarrow> nat \<Rightarrow> int" where
  "lane_cost p i 0 = 0"
| "lane_cost p i (Suc n) = 1 + p ! (i mod length p) + lane_cost p (i + 1) n"

definition gaps_ok :: "int list \<Rightarrow> bool" where
  "gaps_ok p \<longleftrightarrow> p \<noteq> [] \<and> (\<forall>g\<in>set p. 0 \<le> g)"

lemma gaps_ok_nth: "gaps_ok p \<Longrightarrow> 0 \<le> p ! (i mod length p)"
  by (simp add: gaps_ok_def)

lemma lane_cost_nonneg: "gaps_ok p \<Longrightarrow> 0 \<le> lane_cost p i n"
  by (induction n arbitrary: i) (simp_all add: gaps_ok_nth add_nonneg_nonneg)


definition settled :: "endpoint \<Rightarrow> endpoint \<Rightarrow> bool" where
  "settled e e' \<longleftrightarrow> e' = e \<or> e' = e\<lparr>ep_done := False\<rparr>"

lemma send_hold:
  assumes "ep_tx e \<noteq> []"
  shows "\<exists>rh' e'. settled e e' \<and> drive_loop (h + m) f rp tp (length f) resp rh (int h) c e =
    drive_loop m f rp tp (length f) resp rh' 0 (c + int h) e'"
  using assms
proof (induction h arbitrary: rh c e)
  case 0
  then show ?case by (auto simp: settled_def)
next
  case (Suc h)
  then obtain b bs where b: "ep_tx e = b # bs" by (cases "ep_tx e") auto
  have v: "pn_tx_valid (ep_pins (e\<lparr>ep_done := False\<rparr>))" by (simp add: ep_pins_def b)
  let ?rh = "if rh \<noteq> 0 then rh - 1 else rh" and ?e = "e\<lparr>ep_done := False\<rparr>"
  have u [simp]: "e\<lparr>ep_done := False, ep_tx := b # bs\<rparr> = ?e" using b by (cases e) simp
  have "drive_loop (Suc h + m) f rp tp (length f) resp rh (int (Suc h)) c e =
      drive_loop (h + m) f rp tp (length f) resp ?rh (int h) (c + 1) ?e"
    using step_send [OF b, of 0 False] v by (simp add: Let_def)
  moreover obtain rh' e' where "settled ?e e'" "drive_loop (h + m) f rp tp (length f) resp ?rh (int h) (c + 1) ?e =
      drive_loop m f rp tp (length f) resp rh' 0 (c + 1 + int h) e'" using Suc.IH [of ?e ?rh "c + 1"] b by auto
  moreover have "settled e e'" if "settled ?e e'" using that by (auto simp: settled_def)
  ultimately show ?case by (metis add.assoc add.commute of_nat_Suc)
qed

lemma send_phase:
  assumes "ep_tx e = ts" "ts \<noteq> []" "gaps_ok tp" "0 \<le> t"
    "t + 1 + lane_cost tp (length resp + 1) (length ts - 1) \<le> int m"
  shows "drive_loop m f rp tp (length f) resp rh t c e =
    (Inr (resp @ ts, c + t + 1 + lane_cost tp (length resp + 1) (length ts - 1)), e\<lparr>ep_tx := [], ep_done := False\<rparr>)"
  using assms
proof (induction ts arbitrary: resp rh t c e m)
  case Nil
  then show ?case by simp
next
  case (Cons b bs)
  have l: "0 \<le> lane_cost tp (length resp + 1) (length bs)" by (rule lane_cost_nonneg [OF Cons.prems(3)])
  define h where "h = nat t"
  have h: "t = int h" using Cons.prems(4) by (simp add: h_def)
  with Cons.prems(5) l have "h + 1 \<le> m" by simp
  then obtain k where k: "m = h + Suc k" by (metis add.commute add.left_commute le_Suc_ex plus_1_eq_Suc)
  obtain rh' e' where e': "settled e e'" "drive_loop (h + Suc k) f rp tp (length f) resp rh t c e =
      drive_loop (Suc k) f rp tp (length f) resp rh' 0 (c + t) e'"
    using send_hold [of e h "Suc k" f rp tp resp rh c] Cons.prems(1) h by auto
  let ?e = "e'\<lparr>ep_done := False, ep_tx := bs\<rparr>"
  have tx: "ep_tx e' = b # bs" using e'(1) Cons.prems(1) by (auto simp: settled_def)
  have st: "?e = e\<lparr>ep_tx := bs, ep_done := False\<rparr>" using e'(1) by (auto simp: settled_def)
  have p: "pn_tx_data (ep_pins e') = uint b" using tx by (simp add: ep_pins_def)
  have v: "pn_tx_valid (ep_pins ?e) = (bs \<noteq> [])" by (simp add: ep_pins_def)
  have step: "drive_loop (Suc k) f rp tp (length f) resp rh' 0 (c + t) e' =
      (if bs = [] then (Inr (resp @ [b], c + t + 1), ?e)
       else drive_loop k f rp tp (length f) (resp @ [b]) (if rh' \<noteq> 0 then rh' - 1 else rh')
              (tp ! ((length resp + 1) mod length tp)) (c + t + 1) ?e)"
    using step_send [OF tx, of 0 True] p v by (simp add: Let_def)
  show ?case
  proof (cases "bs = []")
    case True
    with step e' k st show ?thesis by simp
  next
    case False
    then obtain n where n: "length bs = Suc n" by (cases bs) auto
    have "tp ! ((length resp + 1) mod length tp) + 1 + lane_cost tp (length (resp @ [b]) + 1) (length bs - 1) \<le> int k"
      using Cons.prems(5) k h n by simp
    from Cons.IH [OF _ False Cons.prems(3) gaps_ok_nth [OF Cons.prems(3)] this, of ?e] step False e' k st n
    show ?thesis by (simp add: algebra_simps)
  qed
qed


lemma take_next: "0 \<le> t \<Longrightarrow> 0 \<le> r \<Longrightarrow> max 0 ((if t \<noteq> 0 then t - 1 else t) - r) = max 0 (t - (r + 1 :: int))"
  by auto

lemma receive_phase:
  assumes f: "well_framed f" and e: "quiet e" and d: "ep_dispatch f e = (Inr (), e1)" "ep_tx e1 \<noteq> []" and g: "gaps_ok rp"
  shows "k < length f \<Longrightarrow> 0 \<le> h \<Longrightarrow> 0 \<le> t \<Longrightarrow> h + 1 + lane_cost rp (k + 1) (length f - k - 1) \<le> int m \<Longrightarrow>
    \<exists>rh. drive_loop m f rp tp k [] h t c (receiving f k e) =
      drive_loop (m - nat (h + 1 + lane_cost rp (k + 1) (length f - k - 1))) f rp tp (length f) [] rh
        (max 0 (t - (h + 1 + lane_cost rp (k + 1) (length f - k - 1))))
        (c + (h + 1 + lane_cost rp (k + 1) (length f - k - 1))) e1"
proof (induction m arbitrary: k h t c)
  case 0
  then show ?case using lane_cost_nonneg [OF g, of "k + 1" "length f - k - 1"] by simp
next
  case (Suc m)
  define r where "r = lane_cost rp (k + 1) (length f - k - 1)"
  have r0: "0 \<le> r" unfolding r_def by (rule lane_cost_nonneg [OF g])
  let ?t = "if t \<noteq> 0 then t - 1 else t"
  have t0: "0 \<le> ?t" using Suc.prems(3) by simp
  show ?case
  proof (cases "h = 0")
    case False
    have st: "drive_loop (Suc m) f rp tp k [] h t c (receiving f k e) =
        drive_loop m f rp tp k [] (h - 1) ?t (c + 1) (receiving f k e)"
      using step_idle [OF e, of "uint (f ! k)" "t = 0" f k] False Suc.prems(1) by (simp add: Let_def)
    have "0 \<le> h - 1" "h - 1 + 1 + lane_cost rp (k + 1) (length f - k - 1) \<le> int m"
      using False Suc.prems(2,4) by simp_all
    from Suc.IH [OF Suc.prems(1) this(1) t0 this(2), of "c + 1"]
    obtain rh where "drive_loop m f rp tp k [] (h - 1) ?t (c + 1) (receiving f k e) =
        drive_loop (m - nat (h - 1 + 1 + r)) f rp tp (length f) [] rh (max 0 (?t - (h - 1 + 1 + r))) (c + 1 + (h - 1 + 1 + r)) e1"
      unfolding r_def by blast
    moreover have "m - nat (h - 1 + 1 + r) = Suc m - nat (h + 1 + r)" using Suc.prems(2) False r0 by simp
    moreover have "c + 1 + (h - 1 + 1 + r) = c + (h + 1 + r)" by simp
    moreover have "max 0 (?t - (h - 1 + 1 + r)) = max 0 (t - (h + 1 + r))" using take_next [OF Suc.prems(3), of "h + r"] Suc.prems(2) r0 by (simp add: algebra_simps)
    ultimately show ?thesis using st unfolding r_def by metis
  next
    case True
    let ?h = "rp ! ((k + 1) mod length rp)"
    show ?thesis
    proof (cases "k + 1 < length f")
      case more: True
      obtain j where j: "length f - k - 1 = Suc j" "length f - (k + 1) - 1 = j" using more by (cases "length f - k - 1") auto
      define s where "s = lane_cost rp (k + 1 + 1) j"
      have rs: "r = 1 + ?h + s" unfolding r_def j s_def by simp
      have st: "drive_loop (Suc m) f rp tp k [] h t c (receiving f k e) =
          drive_loop m f rp tp (k + 1) [] ?h ?t (c + 1) (receiving f (k + 1) e)"
        using step_byte [OF e, of "f ! k" "t = 0" f k] receiving_Suc [OF f more e] True Suc.prems(1) more by (simp add: Let_def)
      have "?h + 1 + lane_cost rp (k + 1 + 1) (length f - (k + 1) - 1) \<le> int m"
        using Suc.prems(4) True rs unfolding r_def j s_def by simp
      from Suc.IH [OF more gaps_ok_nth [OF g] t0 this, of "c + 1"]
      obtain rh where "drive_loop m f rp tp (k + 1) [] ?h ?t (c + 1) (receiving f (k + 1) e) =
          drive_loop (m - nat (?h + 1 + s)) f rp tp (length f) [] rh (max 0 (?t - (?h + 1 + s))) (c + 1 + (?h + 1 + s)) e1"
        unfolding j s_def by blast
      moreover have "m - nat (?h + 1 + s) = Suc m - nat (h + 1 + r)" using True r0 rs by simp
      moreover have "c + 1 + (?h + 1 + s) = c + (h + 1 + r)" using True rs by simp
      moreover have "max 0 (?t - (?h + 1 + s)) = max 0 (t - (h + 1 + r))"
        using take_next [OF Suc.prems(3), of "?h + 1 + s"] True rs r0 by (simp add: algebra_simps)
      ultimately show ?thesis using st unfolding r_def by metis
    next
      case last: False
      with Suc.prems(1) have l: "k + 1 = length f" by simp
      then have "r = 0" by (simp add: r_def)
      moreover have "drive_loop (Suc m) f rp tp k [] h t c (receiving f k e) =
          drive_loop m f rp tp (length f) [] ?h ?t (c + 1) e1"
        using step_byte [OF e, of "f ! k" "t = 0" f k] receiving_last [OF f l e] True d l by (simp add: Let_def)
      moreover have "max 0 (t - 1) = ?t" using Suc.prems(3) by auto
      ultimately show ?thesis using True unfolding r_def by auto
    qed
  qed
qed

section \<open>The exchange\<close>

definition exchange_cycles :: "int list \<Rightarrow> int list \<Rightarrow> nat \<Rightarrow> nat \<Rightarrow> int" where
  "exchange_cycles rp tp n m =
     lane_cost rp 0 n + max 0 (tp ! 0 - lane_cost rp 0 n) + lane_cost tp 0 m - tp ! 0"

lemma lane_cost_Suc: "0 < n \<Longrightarrow> lane_cost p 0 n = p ! 0 + 1 + lane_cost p 1 (n - 1)"
  by (cases n) simp_all

lemma lane_cost_no_gaps [simp]: "lane_cost [0] i n = int n"
  by (induction n arbitrary: i) simp_all

lemma gap_pattern_ok: "(\<forall>ps. gaps = Some ps \<longrightarrow> (\<forall>g\<in>set ps. 0 \<le> g)) \<Longrightarrow> gaps_ok (gap_pattern gaps)"
  by (auto simp: gap_pattern_def gaps_ok_def split: option.splits list.splits)

lemma drive_exchange:
  assumes f: "well_framed f" and e: "quiet e" and d: "ep_dispatch f e = (Inr (), e1)" "ep_tx e1 \<noteq> []"
    and g: "gaps_ok (gap_pattern rx_gaps)" "gaps_ok (gap_pattern tx_gaps)"
    and m: "exchange_cycles (gap_pattern rx_gaps) (gap_pattern tx_gaps) (length f) (length (ep_tx e1)) \<le> int max_cycles"
  shows "drive f rx_gaps tx_gaps max_cycles e =
    (Inr (ep_tx e1, exchange_cycles (gap_pattern rx_gaps) (gap_pattern tx_gaps) (length f) (length (ep_tx e1))),
     e1\<lparr>ep_tx := [], ep_done := False\<rparr>)"
proof -
  let ?rp = "gap_pattern rx_gaps" and ?tp = "gap_pattern tx_gaps"
  define R where "R = lane_cost ?rp 0 (length f)"
  define T where "T = max 0 (?tp ! 0 - R)"
  have f0: "0 < length f" using well_framed_long [OF f] by linarith
  have n0: "0 \<le> ?rp ! 0" "0 \<le> ?tp ! 0" using gaps_ok_nth [OF g(1), of 0] gaps_ok_nth [OF g(2), of 0] by simp_all
  have R: "?rp ! 0 + 1 + lane_cost ?rp (0 + 1) (length f - 0 - 1) = R"
    using lane_cost_Suc [OF f0, of ?rp] by (simp add: R_def)
  have S: "T + 1 + lane_cost ?tp (length ([] :: byte list) + 1) (length (ep_tx e1) - 1) = T + lane_cost ?tp 0 (length (ep_tx e1)) - ?tp ! 0"
    using lane_cost_Suc [of "length (ep_tx e1)" ?tp] d(2) by simp
  have pos: "0 \<le> R" "0 \<le> lane_cost ?tp 1 (length (ep_tx e1) - 1)" unfolding R_def by (simp_all add: lane_cost_nonneg g)
  have X: "exchange_cycles ?rp ?tp (length f) (length (ep_tx e1)) = R + (T + lane_cost ?tp 0 (length (ep_tx e1)) - ?tp ! 0)"
    by (simp add: exchange_cycles_def R_def T_def)
  have Rm: "R \<le> int max_cycles" using m X S pos unfolding T_def by simp
  obtain rh where 1: "drive_loop max_cycles f ?rp ?tp 0 [] (?rp ! 0) (?tp ! 0) 0 (receiving f 0 e) =
      drive_loop (max_cycles - nat R) f ?rp ?tp (length f) [] rh T R e1"
    using receive_phase [OF f e d g(1) f0 n0, of max_cycles ?tp 0] Rm unfolding R T_def by auto
  have "T + 1 + lane_cost ?tp (length ([] :: byte list) + 1) (length (ep_tx e1) - 1) \<le> int (max_cycles - nat R)"
    using m X S Rm pos by (simp add: nat_le_iff)
  from send_phase [OF refl d(2) g(2) _ this, of f ?rp rh R] 1 S X
  show ?thesis by (simp add: drive_def Let_def receiving_0 [OF e] T_def algebra_simps)
qed


lemma lane_cost_mono: "gaps_ok p \<Longrightarrow> m \<le> n \<Longrightarrow> lane_cost p i m \<le> lane_cost p i n"
proof (induction n arbitrary: i m)
  case 0
  then show ?case by simp
next
  case (Suc n)
  then show ?case using lane_cost_nonneg [OF Suc.prems(1), of i "Suc n"] by (cases m) simp_all
qed

lemma exchange_cycles_mono:
  "gaps_ok tp \<Longrightarrow> m \<le> k \<Longrightarrow> exchange_cycles rp tp n m \<le> exchange_cycles rp tp n k"
  using lane_cost_mono [of tp m k 0] by (simp add: exchange_cycles_def)

lemma exchange_cycles_no_gaps: "exchange_cycles [0] [0] n m = int (n + m)"
  by (simp add: exchange_cycles_def)

lemma ep_inv_settled: "ep_inv e \<Longrightarrow> ep_inv (e\<lparr>ep_tx := [], ep_done := x\<rparr>)"
  by (auto simp: ep_inv_def core_inv_lane lane_inv_def)

lemma dispatch_quiet:
  assumes "ep_inv e" "quiet e" "ep_retire_seq e < 2 ^ 32 - 1"
  obtains e1 p where "ep_dispatch f e = (Inr (), e1)" "ep_inv e1" "ep_rx e1 = []" "ep_expected e1 = 0" "length p \<le> 122"
    "ep_tx e1 = response_bytes (ep_last_status e1) p"
proof -
  have "core_inv e" using assms(1) by (simp add: ep_inv_def)
  from ep_dispatch_responds [OF this assms(3), of f] obtain e1 where
    e1: "ep_dispatch f e = (Inr (), e1)" "responds e e1" by blast
  from responds_lane [OF e1(2)] assms(2) have "ep_inv e1" by (simp add: quiet_def)
  with e1 that assms(2) show thesis by (auto simp: responds_def quiet_def)
qed

text \<open>
  C7. An exchange over the byte lane always ends with one response frame, and neither the
  response nor the endpoint it leaves depends on the input stalls and the output
  backpressure: both are those of the dispatcher run once on the whole frame. The number of
  clock edges is known exactly from the two stall patterns, and the endpoint is ready for
  the next exchange.
\<close>

theorem drive_stall_independent:
  assumes e: "ep_inv e" "quiet e" "ep_retire_seq e < 2 ^ 32 - 1" and f: "well_framed f"
    and g: "gaps_ok (gap_pattern rx_gaps)" "gaps_ok (gap_pattern tx_gaps)"
    and m: "exchange_cycles (gap_pattern rx_gaps) (gap_pattern tx_gaps) (length f) 131 \<le> int max_cycles"
  shows "\<exists>p e1. ep_dispatch f e = (Inr (), e1) \<and> length p \<le> 122 \<and>
    drive f rx_gaps tx_gaps max_cycles e =
      (Inr (response_bytes (ep_last_status e1) p,
            exchange_cycles (gap_pattern rx_gaps) (gap_pattern tx_gaps) (length f) (9 + length p)),
       e1\<lparr>ep_tx := [], ep_done := False\<rparr>) \<and>
    ep_inv (e1\<lparr>ep_tx := [], ep_done := False\<rparr>) \<and> quiet (e1\<lparr>ep_tx := [], ep_done := False\<rparr>)"
proof -
  obtain e1 p where e1: "ep_dispatch f e = (Inr (), e1)" "ep_inv e1" "ep_rx e1 = []" "ep_expected e1 = 0"
    and p: "length p \<le> 122" "ep_tx e1 = response_bytes (ep_last_status e1) p"
    using dispatch_quiet [OF e, of f] by metis
  have l: "length (ep_tx e1) = 9 + length p" using p by (simp add: response_bytes_def response_body_def)
  then have "ep_tx e1 \<noteq> []" by auto
  moreover have "exchange_cycles (gap_pattern rx_gaps) (gap_pattern tx_gaps) (length f) (length (ep_tx e1)) \<le> int max_cycles"
    using exchange_cycles_mono [OF g(2), of "length (ep_tx e1)" 131 "gap_pattern rx_gaps" "length f"] m p(1) l by linarith
  ultimately have "drive f rx_gaps tx_gaps max_cycles e = (Inr (ep_tx e1, exchange_cycles (gap_pattern rx_gaps) (gap_pattern tx_gaps) (length f)
      (length (ep_tx e1))), e1\<lparr>ep_tx := [], ep_done := False\<rparr>)"
    by (rule drive_exchange [OF f e(2) e1(1) _ g])
  moreover have "quiet (e1\<lparr>ep_tx := [], ep_done := False\<rparr>)" using e1 by (simp add: quiet_def)
  ultimately show ?thesis using e1 p l ep_inv_settled [OF e1(2)] by metis
qed

section \<open>A corrupted frame on the lane\<close>

text \<open>
  C35. Corruption of a request on the lane, in one window of at most four consecutive bytes of its
  body, that leaves the start byte and the announced length as they were is always detected: whatever
  state the endpoint is in between two frames, and however the lane stalls, the exchange returns the
  \<open>BAD_CRC\<close> response and only the two status registers of the endpoint have changed. A changed start
  byte or length is outside this statement: the first is another fault, the second makes the endpoint
  wait for another number of bytes.
\<close>

theorem corrupted_frame_answered_bad_crc:
  assumes e: "quiet e" and p: "length p = REQUEST_PAYLOAD_BYTES op"
    and b: "request_body op p = pre @ w1 @ post" and w: "length w1 = length w2" "length w1 \<le> 4" "w1 \<noteq> w2"
    and sof: "hd (pre @ w2 @ post) = 0xA1" and len: "announced (pre @ w2 @ post) = length p"
    and g: "gaps_ok (gap_pattern rx_gaps)" "gaps_ok (gap_pattern tx_gaps)"
    and m: "exchange_cycles (gap_pattern rx_gaps) (gap_pattern tx_gaps) (10 + length p) 14 \<le> int max_cycles"
  shows "drive (pre @ w2 @ post @ to_le 4 (crc32 (request_body op p))) rx_gaps tx_gaps max_cycles e =
    (Inr (response_bytes BAD_CRC (fault_payload 0 0),
          exchange_cycles (gap_pattern rx_gaps) (gap_pattern tx_gaps) (10 + length p) 14),
     e\<lparr>ep_last_status := BAD_CRC, ep_last_fault := BAD_CRC\<rparr>)"
proof -
  let ?f = "pre @ w2 @ post @ to_le 4 (crc32 (request_body op p))"
  have l: "length (pre @ w2 @ post) = 6 + length p" using arg_cong [OF b, of length] w(1) by simp
  then have a: "announced ?f = length p" using len announced_append [of "pre @ w2 @ post" "to_le 4 (crc32 (request_body op p))"] by simp
  have lf: "length ?f = 10 + length p" using l by simp
  have ne: "pre @ w2 @ post \<noteq> []" using l by (metis add_is_0 list.size(3) zero_neq_numeral)
  have h: "hd ?f = hd (pre @ w2 @ post)" using hd_append2 [OF ne, of "to_le 4 (crc32 (request_body op p))"] by simp
  have f: "well_framed ?f"
    unfolding well_framed_def using a lf h sof p payload_bytes_le [of op] by (auto simp: MAX_PAYLOAD_BYTES_def)
  note d = window_fails_crc [OF b w len, of e]
  have t: "ep_tx (responded BAD_CRC (fault_payload 0 0) e) = response_bytes BAD_CRC (fault_payload 0 0)"
    using e by (simp add: responded_def quiet_def)
  have lt: "length (response_bytes BAD_CRC (fault_payload 0 0)) = 14" by (simp add: response_bytes_def response_body_def fault_payload_def)
  have n: "ep_tx (responded BAD_CRC (fault_payload 0 0) e) \<noteq> []" unfolding t using lt by (metis list.size(3) zero_neq_numeral)
  have c: "exchange_cycles (gap_pattern rx_gaps) (gap_pattern tx_gaps) (length ?f) (length (ep_tx (responded BAD_CRC (fault_payload 0 0) e))) \<le> int max_cycles"
    using m unfolding t lt lf .
  have s: "(responded BAD_CRC (fault_payload 0 0) e)\<lparr>ep_tx := [], ep_done := False\<rparr> = e\<lparr>ep_last_status := BAD_CRC, ep_last_fault := BAD_CRC\<rparr>"
    using e by (simp add: responded_def quiet_def)
  show ?thesis using drive_exchange [OF f e d n g c] unfolding t lt lf s .
qed

section \<open>Exchanges reach states\<close>

lemma ep_reachable_step:
  "ep_reachable e \<Longrightarrow> ep_retire_seq e < 2 ^ 32 - 1 \<Longrightarrow> ep_step x v tr ab rn e = (r, e') \<Longrightarrow> ep_reachable e'"
  unfolding ep_reachable_def by (meson ep_trans.edge rtranclp.rtrancl_into_rtrancl)

lemma receiving_reachable:
  assumes "ep_reachable e" "ep_retire_seq e < 2 ^ 32 - 1" "quiet e" "well_framed f"
  shows "k < length f \<Longrightarrow> ep_reachable (receiving f k e)"
proof (induction k)
  case 0
  with assms show ?case by (simp add: receiving_0)
next
  case (Suc k)
  then have k: "k + 1 < length f" by simp
  have "ep_step (uint (f ! k)) True False False True (receiving f k e) =
      (Inr \<lparr>ln_pins = ep_pins (receiving f k e), ln_rx_committed = True, ln_tx_committed = False\<rparr>, receiving f (Suc k) e)"
    using step_byte [OF assms(3), of "f ! k" False f k] receiving_Suc [OF assms(4) k assms(3)] by simp
  moreover have "ep_retire_seq (receiving f k e) < 2 ^ 32 - 1" using assms(2) by (simp add: receiving_def)
  ultimately show ?case using Suc.IH k by (metis Suc_eq_plus1 Suc_lessD ep_reachable_step)
qed

lemma dispatch_reachable:
  assumes "ep_reachable e" "ep_retire_seq e < 2 ^ 32 - 1" "quiet e" "well_framed f" "ep_dispatch f e = (Inr (), e1)"
  shows "ep_reachable e1"
proof -
  obtain k where k: "k + 1 = length f" "k < length f" using well_framed_long [OF assms(4)] by (cases "length f") auto
  have "ep_step (uint (f ! k)) True False False True (receiving f k e) =
      (Inr \<lparr>ln_pins = ep_pins (receiving f k e), ln_rx_committed = True, ln_tx_committed = False\<rparr>, e1)"
    using step_byte [OF assms(3), of "f ! k" False f k] receiving_last [OF assms(4) k(1) assms(3)] assms(5) by simp
  moreover have "ep_retire_seq (receiving f k e) < 2 ^ 32 - 1" using assms(2) by (simp add: receiving_def)
  ultimately show ?thesis using receiving_reachable [OF assms(1-4) k(2)] by (metis ep_reachable_step)
qed

lemma request_well_framed: "length p = REQUEST_PAYLOAD_BYTES op \<Longrightarrow> well_framed (request_bytes op p)"
  using payload_bytes_le [of op] announced_request [of p op]
  by (simp add: well_framed_def MAX_PAYLOAD_BYTES_def) (simp add: request_bytes_def request_body_def)

end
