(* ===== verification/Lsc_Budget.thy ===== *)
theory Lsc_Budget
  imports Lsc_Endpoint
begin

text \<open>
  The byte and cycle budgets: worst-case accounting of one opcode, and the proof that no
  transition exceeds it.
\<close>

record budget_entry =
  bg_opcode :: opcode
  bg_profile :: profile
  bg_request_bytes :: nat
  bg_result_bytes :: nat
  bg_service_bytes :: nat
  bg_execute_cycles :: int

definition round_trip_cycles :: "budget_entry \<Rightarrow> int" where
  "round_trip_cycles b =
     int (bg_request_bytes b) * ba_beat ASSUMPTIONS
     + ba_decode ASSUMPTIONS
     + bg_execute_cycles b
     + int (bg_result_bytes b) * ba_beat ASSUMPTIONS
     + int (bg_service_bytes b) * ba_beat ASSUMPTIONS
     + int (request_frame_bytes OP_RETIRE) * ba_beat ASSUMPTIONS
     + ba_decode ASSUMPTIONS
     + int (response_frame_bytes 16) * ba_beat ASSUMPTIONS"

text \<open>\<open>_WORST_SHAPE\<close>: writes, deferred equalities and accesses of each instruction.\<close>

definition WORST_SHAPE :: "opcode \<Rightarrow> (nat \<times> nat \<times> nat) res" where
  "WORST_SHAPE op =
     (case op of
        OP_XOR \<Rightarrow> Inr (2, 0, 3)
      | OP_MUL_NATIVE \<Rightarrow> Inr (2, 0, 3)
      | OP_SET_CONSTANT \<Rightarrow> Inr (1, 0, 1)
      | OP_DEREF_CELL \<Rightarrow> Inr (1, 0, 3)
      | OP_DEREF_PC \<Rightarrow> Inr (1, 0, 3)
      | OP_DEREF_FP \<Rightarrow> Inr (1, 0, 3)
      | OP_JUMP \<Rightarrow> Inr (0, 0, 3)
      | OP_BLAKE3_REQUEST \<Rightarrow> Inr (2, 0, 8)
      | _ \<Rightarrow> Inl KeyError)"

definition worst_execute_cycles :: "opcode \<Rightarrow> profile \<Rightarrow> int" where
  "worst_execute_cycles op prof =
     (let backsolving = (prof = INTERPRETER_COMPAT); enc = encode_index ASSUMPTIONS in
      if op = OP_XOR then (if backsolving then 2 * ba_field_xor ASSUMPTIONS else ba_field_xor ASSUMPTIONS)
      else if op = OP_MUL_NATIVE then
        (if backsolving then 3 * ba_field_mul ASSUMPTIONS else ba_field_mul ASSUMPTIONS)
      else if op = OP_SET_CONSTANT then 0
      else if op = OP_DEREF_CELL then enc + ba_compare ASSUMPTIONS
      else if op = OP_DEREF_PC \<or> op = OP_DEREF_FP then 2 * enc
      else if op = OP_JUMP then ba_compare ASSUMPTIONS + ba_field_mul ASSUMPTIONS + 2 * enc
      else 0)"

definition budget :: "opcode \<Rightarrow> profile \<Rightarrow> budget_entry res" where
  "budget op prof =
     bindE (WORST_SHAPE op) (\<lambda>(writes, deferred, accesses).
       Inr \<lparr>bg_opcode = op, bg_profile = prof, bg_request_bytes = request_frame_bytes op,
            bg_result_bytes = response_frame_bytes (result_payload_bytes writes deferred accesses),
            bg_service_bytes = (if op = OP_BLAKE3_REQUEST
              then response_frame_bytes 122 + request_frame_bytes OP_SERVICE_RESPONSE else 0),
            bg_execute_cycles = worst_execute_cycles op prof\<rparr>)"

definition budget_table :: "profile \<Rightarrow> budget_entry list res" where
  "budget_table prof = mapE (\<lambda>op. budget op prof) INSTRUCTION_OPCODES"

section \<open>The size of a result frame\<close>

lemma result_frame_bytes:
  "length (response_bytes st (result_bytes s)) =
     response_frame_bytes (result_payload_bytes (length (st_writes s)) (length (st_deferred s)) (length (st_accesses s)))"
  by (simp add: length_result_bytes response_frame_bytes_def response_bytes_def response_body_def wire_constants)


section \<open>Every transition stays inside its budget\<close>

lemma back_solve_cycles:
  assumes r: "back_solve d a b c f = Inr (g, n)" and k: "frame_inv f" "fr_known f a" "fr_known f b" "fr_known f c"
  shows "n \<le> (if dq_profile d = FORWARD_ONLY then 0 else if dq_opcode d = OP_XOR then 1 else 256)"
proof -
  have "n = 0" if "dq_profile d = FORWARD_ONLY"
    using r that k by (simp add: back_solve_def split: if_splits)
  moreover have "n \<noteq> 256" if "dq_opcode d = OP_XOR"
    using r that k by (auto simp: back_solve_def Let_def bindE_eq_Inr ASSUMPTIONS_def split: if_splits)
  ultimately show ?thesis using back_solve_Inr(2) [OF k r] by auto
qed

lemma deref_cell_cost:
  assumes "deref_cell d ta la f = Inr (g, df, n)" "frame_inv f" "fr_writes f = []" "fr_known f ta" "fr_known f la"
  shows "n \<le> 1" "df = [] \<or> g = f"
  using assms by (auto simp: deref_cell_def bindE_eq_Inr ASSUMPTIONS_def split: if_splits)

lemma deref_body_cost:
  assumes "deref_body d t ta la f = Inr (g, df, n)" "frame_inv f" "fr_writes f = []" "fr_known f ta" "fr_known f la"
  shows "n \<le> (if dq_opcode d = OP_DEREF_CELL then 1 else 2064)" "length (fr_writes g) + length df \<le> 1"
proof -
  show "n \<le> (if dq_opcode d = OP_DEREF_CELL then 1 else 2064)"
    using assms deref_cell_cost [of d ta la f g df n]
    by (auto simp: deref_body_def bindE_eq_Inr encode_index_def ASSUMPTIONS_def wire_constants split: if_splits)
  show "length (fr_writes g) + length df \<le> 1"
    using deref_body_Inr [OF assms(1,2,4,5)] assms(3) by (auto simp: frame_ext_def)
qed

lemma jump_cycles:
  assumes "execute_jump d t = Inr s"
  shows "st_execute_cycles s \<le> 4257"
  using assms
  by (auto simp: execute_jump_def bindE_eq_Inr Let_def verify_index_def encode_index_def ASSUMPTIONS_def wire_constants split: if_splits)

lemma profile_cases: "p \<noteq> FORWARD_ONLY \<longleftrightarrow> p = INTERPRETER_COMPAT"
  by (cases p) simp_all

lemma execute_cost:
  assumes r: "execute d (fresh_staged d) n = Inr (s, m)" and ok: "dq_wf d" "dq_opcode d \<in> set INSTRUCTION_OPCODES"
  shows "st_execute_cycles s \<le> worst_execute_cycles (dq_opcode d) (dq_profile d)"
    "WORST_SHAPE (dq_opcode d) = Inr (w, df, a) \<Longrightarrow>
       length (st_accesses s) \<le> a \<and> (st_service s = None \<longrightarrow> 20 * length (st_writes s) + 8 * length (st_deferred s) \<le> 20 * w + 8 * df)"
proof -
  have w: "fits 32 (dq_fp d)" "fits 32 (dq_pc d)" using ok by (simp_all add: dq_wf_def dq_fields_ok_def)
  then have t: "0 \<le> st_pc (fresh_staged d)" "fits 32 (st_fp (fresh_staged d))" by (simp_all add: fits_nonneg)
  note sh = dq_shapes [OF ok]
  note cost = worst_execute_cycles_def encode_index_def ASSUMPTIONS_def WORST_SHAPE_def wire_constants Let_def
  consider "dq_opcode d = OP_XOR \<or> dq_opcode d = OP_MUL_NATIVE" | "dq_opcode d = OP_SET_CONSTANT"
    | "dq_opcode d = OP_DEREF_CELL \<or> dq_opcode d = OP_DEREF_PC \<or> dq_opcode d = OP_DEREF_FP" | "dq_opcode d = OP_JUMP"
    | "dq_opcode d = OP_BLAKE3_REQUEST"
    using ok by (auto simp: INSTRUCTION_OPCODES_def)
  then have "st_execute_cycles s \<le> worst_execute_cycles (dq_opcode d) (dq_profile d) \<and>
    (WORST_SHAPE (dq_opcode d) = Inr (w, df, a) \<longrightarrow>
       length (st_accesses s) \<le> a \<and> (st_service s = None \<longrightarrow> 20 * length (st_writes s) + 8 * length (st_deferred s) \<le> 20 * w + 8 * df))"
  proof cases
    case 1
    then have r1: "execute_binary d (fresh_staged d) = Inr s" and s3: "shape_3 d"
      using r sh by (auto simp: execute_def bindE_eq_Inr)
    obtain f x y z g k h where o: "operands_ok d (fresh_staged d) f x y z" and bs: "back_solve d x y z f = Inr (g, k)"
      and ext: "frame_ext f g 1" "frame_ext g h 1"
      and s: "s = (fresh_staged d)\<lparr>st_writes := fr_writes h, st_accesses := [x, y, z], st_next_pc := st_pc (fresh_staged d) + 1,
        st_next_fp := st_fp (fresh_staged d), st_execute_cycles := k + (if dq_opcode d = OP_XOR then 1 else 128)\<rparr>"
      by (rule execute_binary_Inr [OF r1 s3 t])
    have "length (fr_writes h) \<le> 2" using ext o by (simp add: frame_ext_def operands_ok_def)
    with back_solve_cycles [OF bs] o 1 s profile_cases [of "dq_profile d"] show ?thesis by (auto simp: cost operands_ok_def split: if_splits)
  next
    case 2
    then have r1: "execute_set d (fresh_staged d) = Inr s" and s3: "shape_1 d"
      using r sh by (auto simp: execute_def bindE_eq_Inr)
    obtain x f h where e: "fr_writes f = []" "frame_ext f h 1" and s: "s = (fresh_staged d)\<lparr>st_writes := fr_writes h, st_accesses := [x],
        st_next_pc := st_pc (fresh_staged d) + 1, st_next_fp := st_fp (fresh_staged d), st_execute_cycles := 0\<rparr>"
      by (rule execute_set_Inr [OF r1 s3 t])
    then have "length (fr_writes h) \<le> 1" by (simp add: frame_ext_def)
    with 2 s show ?thesis by (auto simp: cost)
  next
    case 3
    then have r1: "execute_deref d (fresh_staged d) = Inr s" and s3: "shape_3 d"
      using r sh by (auto simp: execute_def bindE_eq_Inr)
    obtain pa ta la f g dd k where f: "\<forall>x\<in>{pa, ta, la}. fits 32 x \<and> fr_known f x" "frame_inv f" "fr_writes f = []"
      and b: "deref_body d (fresh_staged d) ta la f = Inr (g, dd, k)"
      and s: "s = (fresh_staged d)\<lparr>st_writes := fr_writes g, st_deferred := dd, st_accesses := [pa, ta, la],
        st_next_pc := st_pc (fresh_staged d) + 1, st_next_fp := st_fp (fresh_staged d), st_execute_cycles := 2064 + k\<rparr>"
      by (rule execute_deref_Inr [OF r1 s3 t])
    from deref_body_cost [OF b f(2,3)] f(1) 3 s show ?thesis by (auto simp: cost)
  next
    case 4
    then have r1: "execute_jump d (fresh_staged d) = Inr s" and s3: "shape_3 d"
      using r sh by (auto simp: execute_def bindE_eq_Inr)
    obtain x y z where "st_writes s = []" "st_accesses s = [x, y, z]" "st_deferred s = []"
      by (rule execute_jump_Inr [OF r1 s3 t]) (rule that; simp)
    with jump_cycles [OF r1] 4 show ?thesis by (auto simp: cost)
  next
    case 5
    then have r1: "execute_blake3 d (fresh_staged d) (n + 1) = Inr s" and s3: "shape_8 d"
      using r sh by (auto simp: execute_def bindE_eq_Inr split: if_splits)
    have "st_execute_cycles s = 0 \<and> length (st_accesses s) = 8 \<and> st_service s \<noteq> None"
      by (rule execute_blake3_Inr [OF r1 s3 t]) simp
    with 5 show ?thesis by (auto simp: cost)
  qed
  then show "st_execute_cycles s \<le> worst_execute_cycles (dq_opcode d) (dq_profile d)"
    "WORST_SHAPE (dq_opcode d) = Inr (w, df, a) \<Longrightarrow>
       length (st_accesses s) \<le> a \<and> (st_service s = None \<longrightarrow> 20 * length (st_writes s) + 8 * length (st_deferred s) \<le> 20 * w + 8 * df)"
    by auto
qed

lemma resume_blake3_size:
  assumes s: "suspended s" and r: "resume_blake3 s dg = (Inr (), s')" and dg: "fits 128 (fst dg)" "fits 128 (snd dg)"
  shows "length (st_writes s') \<le> 2" "st_deferred s' = []" "length (st_accesses s') = 8"
proof -
  obtain f where f: "st_pending_frame s = Some f" "frame_inv f" "fr_writes f = []" "length (st_accesses s) = 8" "st_deferred s = []"
    using s by (auto simp: suspended_def)
  show "length (st_writes s') \<le> 2" "st_deferred s' = []" "length (st_accesses s') = 8"
    using r f frame_ext_write [OF f(2) _ dg(1)] frame_ext_write [OF _ _ dg(2)]
    by (auto simp: resume_blake3_def frame_ext_def split: sum.splits) fastforce
qed

text \<open>
  C8. No transition exceeds its budget: for every instruction the endpoint decides, the field
  and compare cycles it accounts are within \<open>execute_cycles\<close> of its budget entry, and the frame
  that answers it is within \<open>result_bytes\<close>; a suspended \<open>BLAKE3\<close> announces itself in a frame
  that is, with the service response, exactly \<open>service_bytes\<close>, and once resumed answers within
  \<open>result_bytes\<close> too.
\<close>

theorem budget_covers_transition:
  assumes r: "execute d (fresh_staged d) n = Inr (s, m)" and ok: "dq_wf d" "dq_opcode d \<in> set INSTRUCTION_OPCODES"
    and pc: "dq_pc d < 2 ^ 16" "dq_fp d < 2 ^ 16" and n: "0 \<le> n" and b: "budget (dq_opcode d) (dq_profile d) = Inr b"
  shows "st_execute_cycles s \<le> bg_execute_cycles b \<and>
    (case st_service s of
       None \<Rightarrow> bg_service_bytes b = 0 \<and> length (response_bytes OK (result_bytes s)) \<le> bg_result_bytes b
     | Some sv \<Rightarrow>
         length (response_bytes SERVICE_REQUIRED (service_bytes sv (st_txn_id s))) + request_frame_bytes OP_SERVICE_RESPONSE
           = bg_service_bytes b \<and>
         (\<forall>dg s'. fits 128 (fst dg) \<longrightarrow> fits 128 (snd dg) \<longrightarrow> resume_blake3 s dg = (Inr (), s') \<longrightarrow>
            length (response_bytes OK (result_bytes s')) \<le> bg_result_bytes b))"
proof -
  obtain w df a where sh: "WORST_SHAPE (dq_opcode d) = Inr (w, df, a)"
    and b': "b = \<lparr>bg_opcode = dq_opcode d, bg_profile = dq_profile d, bg_request_bytes = request_frame_bytes (dq_opcode d),
            bg_result_bytes = response_frame_bytes (result_payload_bytes w df a),
            bg_service_bytes = (if dq_opcode d = OP_BLAKE3_REQUEST
              then response_frame_bytes 122 + request_frame_bytes OP_SERVICE_RESPONSE else 0),
            bg_execute_cycles = worst_execute_cycles (dq_opcode d) (dq_profile d)\<rparr>"
    using b by (auto simp: budget_def bindE_eq_Inr)
  note c = execute_cost(1) [OF r ok] execute_cost(2) [OF r ok sh]
  note i = execute_Inr(3) [OF r ok pc n]
  show ?thesis
  proof (cases "dq_opcode d = OP_BLAKE3_REQUEST")
    case False
    with i have "st_service s = None" by simp
    with c False show ?thesis
      by (simp add: b' result_frame_bytes length_result_bytes response_frame_bytes_def result_payload_bytes_def wire_constants)
  next
    case True
    with i have sus: "suspended s" by simp
    then obtain sv where sv: "st_service s = Some sv" "length (sv_message sv) = 4" by (auto simp: suspended_def)
    have shape: "w = 2" "df = 0" "a = 8" using sh True by (simp_all add: WORST_SHAPE_def)
    have "length (response_bytes OK (result_bytes s')) \<le> bg_result_bytes b"
      if "fits 128 (fst dg)" "fits 128 (snd dg)" "resume_blake3 s dg = (Inr (), s')" for dg s'
      using resume_blake3_size [OF sus that(3,1,2)] shape
      by (simp add: b' result_frame_bytes length_result_bytes response_frame_bytes_def result_payload_bytes_def wire_constants)
    with c(1) sv True show ?thesis
      by (simp add: b' length_service_bytes response_bytes_def response_body_def response_frame_bytes_def wire_constants)
  qed
qed

end
