(* ===== verification/Lsc_Examples.thy ===== *)
theory Lsc_Examples
  imports Lsc_Drive Lsc_Budget
begin

text \<open>
  A concrete session: \<open>SET_CONSTANT m[fp + 2] = 5\<close> as transaction 7 from the reset state, and
  the endpoint at the points the witnesses need. The CRCs stay symbolic.
\<close>

definition ex_staged :: staged_transaction where
  "ex_staged = \<lparr>st_txn_id = 7, st_opcode = OP_SET_CONSTANT, st_profile = INTERPRETER_COMPAT, st_pc = 0, st_fp = 0,
     st_next_pc = 1, st_next_fp = 0, st_writes = [Write 2 5], st_deferred = [], st_accesses = [2], st_service = None,
     st_execute_cycles = 0, st_result_crc = 0, st_pending_frame = None\<rparr>"

definition ex_decided :: staged_transaction where
  "ex_decided = ex_staged\<lparr>st_result_crc := crc32 (result_bytes ex_staged)\<rparr>"

definition ex_pending :: endpoint where
  "ex_pending = ep_reset\<lparr>ep_state := RESULT_PENDING, ep_staged := Some ex_decided\<rparr>"

text \<open>All of the matching \<open>RETIRE\<close> frame but its last byte has arrived.\<close>

definition ex_retiring :: endpoint where
  "ex_retiring = ex_pending\<lparr>ep_rx := butlast (retire_frame ex_decided), ep_expected := 18\<rparr>"

lemma ex_decided_ok: "decided ex_decided" "st_txn_id ex_decided = 7" "st_next_pc ex_decided = 1" "st_next_fp ex_decided = 0"
proof -
  have "staged_ok ex_staged" by (simp add: staged_ok_def ex_staged_def fits_def)
  then show "decided ex_decided" unfolding ex_decided_def
    by (rule decided_crc) (simp_all add: ex_staged_def)
qed (simp_all add: ex_decided_def ex_staged_def)

lemma ex_pending_inv: "ep_inv ex_pending"
  using ex_decided_ok by (simp add: ep_inv_def core_inv_def lane_inv_def ex_pending_def ep_reset_def)

lemma ex_retire_split: "butlast (retire_frame s) @ [last (retire_frame s)] = retire_frame s"
proof -
  have "retire_frame s \<noteq> []" using retire_frame_shape [of s] by auto
  then show ?thesis by simp
qed

lemma ex_retiring_inv: "ep_inv ex_retiring"
proof -
  let ?f = "retire_frame ex_decided"
  have l: "length ?f = 18" using retire_frame_shape [of ex_decided] by simp
  have "announced (butlast ?f) = 8"
    using announced_append [of "butlast ?f" "[last ?f]"] l retire_frame_shape(2) [of ex_decided] by (simp add: ex_retire_split)
  moreover have "length (butlast ?f) = 17" by (simp add: l)
  then have "butlast ?f \<noteq> []" by (metis list.size(3) zero_neq_numeral)
  moreover have "hd (butlast ?f) = 0xA1" by (simp add: retire_frame_def request_bytes_def request_body_def butlast_append)
  ultimately show ?thesis
    using ex_pending_inv l by (simp add: ep_inv_def core_inv_def lane_inv_def ex_retiring_def ex_pending_def ep_reset_def)
qed

text \<open>The same state with the retirement counter at its limit.\<close>

definition ex_full :: endpoint where
  "ex_full = ex_retiring\<lparr>ep_state_valid := True, ep_retire_seq := 2 ^ 32 - 1\<rparr>"

lemma ex_full_inv: "ep_inv ex_full"
  using ex_retiring_inv by (auto simp: ex_full_def ep_inv_def core_inv_def lane_inv_def split: txn_state.splits)

lemma ep_step_total_witness:
  "(\<exists>r e'. ep_step 0xA1 True False False True ex_pending = (Inr r, e') \<and> ep_inv e') \<and>
   (\<exists>e'. ep_step (uint (last (retire_frame ex_decided))) True False False True ex_full = (Inl ValueError, e'))"
proof
  show "\<exists>r e'. ep_step 0xA1 True False False True ex_pending = (Inr r, e') \<and> ep_inv e'"
    using ep_step_total [OF ex_pending_inv, where rx_data = "0xA1" and rx_valid = True and tx_ready = False and abort = False and reset_n = True]
    by (simp add: ex_pending_def ep_reset_def)
  have "ep_tx ex_full = []" "ep_state ex_full = RESULT_PENDING" "ep_staged ex_full = Some ex_decided" "ep_retire_seq ex_full = 2 ^ 32 - 1"
    "ep_rx ex_full @ [word_of_int (uint (last (retire_frame ex_decided)))] = retire_frame ex_decided"
    by (simp_all add: ex_full_def ex_retiring_def ex_pending_def ep_reset_def ex_retire_split)
  then show "\<exists>e'. ep_step (uint (last (retire_frame ex_decided))) True False False True ex_full = (Inl ValueError, e')"
    using ep_step_total [OF ex_full_inv, where rx_data = "uint (last (retire_frame ex_decided))" and rx_valid = True
        and tx_ready = False and abort = False and reset_n = True] by simp
qed

lemma commit_iff_matching_retire_witness:
  "\<exists>r e'. ep_step (uint (last (retire_frame ex_decided))) True False False True ex_retiring = (r, e') \<and>
     committed e' = (1, 0, True, 1)"
proof -
  obtain r e' where r: "ep_step (uint (last (retire_frame ex_decided))) True False False True ex_retiring = (r, e')" by force
  have "ep_tx ex_retiring = []" "ep_state ex_retiring = RESULT_PENDING" "ep_staged ex_retiring = Some ex_decided"
    "ep_retire_seq ex_retiring = 0" "ep_rx ex_retiring = butlast (retire_frame ex_decided)"
    by (simp_all add: ex_retiring_def ex_pending_def ep_reset_def)
  with commit_iff_matching_retire [OF ex_retiring_inv r] r ex_decided_ok show ?thesis
    by (simp add: ex_retire_split)
qed


lemma fault_keeps_transaction_witness:
  "committed (snd (ep_step 0 True False False True ex_pending)) = committed ex_pending \<and>
   ep_tx (snd (ep_step 0 True False False True ex_pending)) \<noteq> [] \<and>
   (transaction (snd (ep_step 0 True False False True ex_pending)) = (RESULT_PENDING, Some ex_decided) \<or>
    transaction (snd (ep_step 0 True False False True ex_pending)) = (IDLE, None) \<and>
       (ep_last_status (snd (ep_step 0 True False False True ex_pending)) = RETIRE_MISMATCH \<and> ep_state ex_pending = RESULT_PENDING \<or>
        ep_last_status (snd (ep_step 0 True False False True ex_pending)) = WRITE_CONFLICT \<and> ep_state ex_pending = SERVICE_PENDING))"
proof -
  obtain r e' where s: "ep_step 0 True False False True ex_pending = (r, e')" by force
  have "ep_tx e' = response_bytes BAD_SOF (fault_payload 0 0)" "ep_last_status e' = BAD_SOF"
    using s by (simp_all add: ep_step_def Let_def ep_pins_def ex_pending_def ep_reset_def ep_accept_def wire_constants ep_fault_ok)
      (auto simp: responded_def)
  moreover have "response_bytes BAD_SOF (fault_payload 0 0) \<noteq> []" by (simp add: response_bytes_def response_body_def)
  ultimately have t: "ep_tx e' \<noteq> []" "is_fault (ep_last_status e')" by simp_all
  have e: "ep_retire_seq ex_pending < 2 ^ 32 - 1" "ep_tx ex_pending = []" "transaction ex_pending = (RESULT_PENDING, Some ex_decided)"
    by (simp_all add: ex_pending_def ep_reset_def transaction_def)
  from fault_keeps_transaction [OF ex_pending_inv e(1) s e(2) t] t s e(3) show ?thesis by simp
qed

lemma corrupted_frame_answered_bad_crc_witness:
  "drive ([0xA1, 1] @ [0x12] @ [0, 0, 0] @ to_le 4 (crc32 (request_body OP_STATUS_QUERY []))) (Some [3, 0]) None 1000 ex_pending =
     (Inr (response_bytes BAD_CRC (fault_payload 0 0), exchange_cycles [3, 0] [0] 10 14),
      ex_pending\<lparr>ep_last_status := BAD_CRC, ep_last_fault := BAD_CRC\<rparr>)"
proof -
  have b: "request_body OP_STATUS_QUERY [] = [0xA1, 1] @ [0x13] @ [0, 0, 0]" by (simp add: request_body_def numeral_2_eq_2)
  have q: "quiet ex_pending" by (simp add: quiet_def ex_pending_def ep_reset_def)
  have m: "exchange_cycles (gap_pattern (Some [3, 0])) (gap_pattern None) (10 + length ([] :: bytes)) 14 \<le> int 1000"
    by code_simp
  have g: "gap_pattern (Some [3, 0]) = [3, 0]" "gap_pattern None = [0]" by (simp_all add: gap_pattern_def)
  show ?thesis
    using corrupted_frame_answered_bad_crc [OF q _ b _ _ _ _ _ _ _ m, of "[0x12]"] by (simp add: g gaps_ok_def announced_def pyslice_def)
qed

lemma crc32_window_detects_witness:
  "crc32 ([0x4C] @ [0x53, 0x43] @ [0x31]) \<noteq> crc32 ([0x4C] @ [0x53, 0x44] @ [0x31])"
  by (rule crc32_window_detects) simp_all

text \<open>The session is over after the transition at \<open>pc = 2^16 - 1\<close>.\<close>

definition ex_wedged :: endpoint where
  "ex_wedged = ep_reset\<lparr>ep_state_valid := True, ep_committed_pc := 2 ^ 16, ep_retire_seq := 1\<rparr>"

lemma pc_limit_wedges_witness:
  "\<exists>s \<in> {BAD_PROFILE, STATE_MISMATCH, INDEX_RANGE}.
     handle_instruction ((DecodedRequest OP_SET_CONSTANT)\<lparr>dq_pc := 2 ^ 16\<rparr>) ex_wedged = (Inl (fault s), ex_wedged)"
  by (rule pc_limit_wedges) (simp_all add: ex_wedged_def ep_reset_def)

lemma status_query_only_clears_last_status_witness:
  "\<exists>p. handle_status_query (ex_pending\<lparr>ep_last_status := BAD_CRC\<rparr>) =
      (Inr (), ex_pending\<lparr>ep_last_status := INFO, ep_tx := response_bytes INFO p\<rparr>) \<and> length p = 20 \<and>
    pn_fault (ep_pins (ex_pending\<lparr>ep_last_status := BAD_CRC\<rparr>)) \<and>
    \<not> pn_fault (ep_pins (snd (handle_status_query (ex_pending\<lparr>ep_last_status := BAD_CRC\<rparr>))))"
proof -
  have t: "ep_tx (ex_pending\<lparr>ep_last_status := BAD_CRC\<rparr>) = []" "ep_tx ex_pending = []" by (simp_all add: ex_pending_def ep_reset_def)
  have "core_inv (ex_pending\<lparr>ep_last_status := BAD_CRC\<rparr>)"
    using ex_pending_inv by (simp add: ep_inv_def core_inv_def ex_pending_def)
  from status_query_only_clears_last_status [OF this] t show ?thesis
    by (auto simp: ep_pins_def)
qed

lemma retire_counter_overflow_witness:
  "\<exists>e'. handle_retire ((DecodedRequest OP_RETIRE)\<lparr>dq_txn_id := 7, dq_result_crc := st_result_crc ex_decided\<rparr>)
         (ex_pending\<lparr>ep_state_valid := True, ep_retire_seq := 2 ^ 32 - 1\<rparr>) = (Inl ValueError, e') \<and>
     committed e' = (1, 0, True, 2 ^ 32) \<and> ep_tx e' = []"
proof -
  have t: "ep_tx (ex_pending\<lparr>ep_state_valid := True, ep_retire_seq := 2 ^ 32 - 1\<rparr>) = []" by (simp add: ex_pending_def ep_reset_def)
  show ?thesis
    using retire_counter_overflow [of "ex_pending\<lparr>ep_state_valid := True, ep_retire_seq := 2 ^ 32 - 1\<rparr>" ex_decided
      "(DecodedRequest OP_RETIRE)\<lparr>dq_txn_id := 7, dq_result_crc := st_result_crc ex_decided\<rparr>"]
      ex_decided_ok t
    by (simp add: ex_pending_def DecodedRequest_def) (simp add: fits_def)
qed

text \<open>The request of the session, as the host sends it and as the endpoint decodes it.\<close>

definition ex_request :: decoded_request where
  "ex_request = (DecodedRequest OP_SET_CONSTANT)\<lparr>dq_txn_id := 7, dq_profile := INTERPRETER_COMPAT,
     dq_offsets := [2], dq_cells := [ABSENT], dq_constant := 5\<rparr>"

lemma ex_request_wf: "dq_wf ex_request" "dq_opcode ex_request = OP_SET_CONSTANT" "dq_txn_id ex_request = 7" "dq_pc ex_request = 0"
  "dq_fp ex_request = 0" "dq_profile ex_request = INTERPRETER_COMPAT" 
  by (simp_all add: ex_request_def dq_wf_def dq_defaults_def dq_fields_ok_def dq_lengths_def DecodedRequest_def INSTRUCTION_OPCODES_def
     cell_ok_def ABSENT_def Cell_def fits_def)

lemma ex_execute: "execute ex_request (fresh_staged ex_request) n = Inr (ex_staged, n)"
  by (simp add: execute_def execute_set_def ex_request_def DecodedRequest_def fresh_staged_def StagedTransaction_def nthE_def
      checked_add_def fr_supply_def fr_write_once_def Frame_def ABSENT_def Cell_def ex_staged_def Write_def fits_def
      U32_MAX_def fr_cell_def)


definition ex_frame :: bytes where
  "ex_frame = request_bytes OP_SET_CONSTANT (payload_of ex_request)"

lemma ex_frame_ok: "well_framed ex_frame"
  unfolding ex_frame_def
  by (rule request_well_framed) (simp add: payload_of_def ex_request_def DecodedRequest_def cell_bytes_def ABSENT_def Cell_def)

lemma ex_staged_ok: "staged_ok ex_staged"
  by (simp add: staged_ok_def ex_staged_def fits_def)

lemma lane_cost_constant: "lane_cost [g] i n = int n * (1 + g)"
  by (induction n arbitrary: i) (simp_all add: algebra_simps)

lemma ex_length: "length ex_frame = 61"
  by (simp add: ex_frame_def payload_of_def ex_request_def DecodedRequest_def cell_bytes_def ABSENT_def Cell_def)

lemma ex_dispatch:
  "ep_dispatch ex_frame ep_reset = (Inr (), responded OK (result_bytes ex_staged) ex_pending)"
proof -
  have p: "length (payload_of ex_request) = REQUEST_PAYLOAD_BYTES OP_SET_CONSTANT"
    by (simp add: payload_of_def ex_request_def DecodedRequest_def cell_bytes_def ABSENT_def Cell_def)
  have f: "fresh_staged ex_request = StagedTransaction 7 OP_SET_CONSTANT INTERPRETER_COMPAT 0 0"
    by (simp add: fresh_staged_def ex_request_wf)
  have n: "st_service ex_staged = None" by (simp add: ex_staged_def)
  have h: "handle ex_request ep_reset = (Inr (), responded OK (result_bytes ex_staged) ex_pending)"
    using ex_execute [of 0, unfolded f]
    by (simp add: handle_def ex_request_wf handle_instruction_def ep_reset_def DEFAULT_PROFILE_def wire_constants liftM_def n
        finish_transaction_ok [OF ex_staged_ok] ex_pending_def ex_decided_def)
  show ?thesis
    unfolding ex_frame_def ep_dispatch_request [OF p]
    using dispatch_payload_decoded [OF ex_request_wf(1), of ep_reset] h by (simp add: ex_request_wf)
qed

lemma ex_reset_quiet: "ep_reachable ep_reset" "quiet ep_reset" "ep_retire_seq ep_reset < 2 ^ 32 - 1"
  by (simp_all add: ep_reachable_def) (simp_all add: quiet_def ep_reset_def)

lemma reachable_staged_transition_witness:
  "ep_staged (responded OK (result_bytes ex_staged) ex_pending) = Some ex_decided \<and>
   (\<exists>p. result_payload ex_decided = Inr p \<and> st_result_crc ex_decided = crc32 p)"
proof -
  have "ep_reachable (responded OK (result_bytes ex_staged) ex_pending)"
    by (rule dispatch_reachable [OF ex_reset_quiet(1,3,2) ex_frame_ok ex_dispatch])
  from reachable_staged_transition [OF this] show ?thesis
    by (simp add: ex_pending_def)
qed

lemma drive_stall_independent_witness:
  "\<exists>p e1. ep_dispatch ex_frame ep_reset = (Inr (), e1) \<and>
    drive ex_frame (Some [3]) (Some [2]) 100000 ep_reset =
      (Inr (response_bytes (ep_last_status e1) p, exchange_cycles [3] [2] 61 (9 + length p)),
       e1\<lparr>ep_tx := [], ep_done := False\<rparr>)"
proof -
  have c: "exchange_cycles (gap_pattern (Some [3])) (gap_pattern (Some [2])) (length ex_frame) 131 \<le> int 100000"
    by (simp add: ex_length gap_pattern_def exchange_cycles_def lane_cost_constant)
  have g: "gaps_ok (gap_pattern (Some [3]))" "gaps_ok (gap_pattern (Some [2]))" by (simp_all add: gap_pattern_def gaps_ok_def)
  from drive_stall_independent [OF ep_inv_reset ex_reset_quiet(2,3) ex_frame_ok g c] show ?thesis
    unfolding ex_length by (auto simp: gap_pattern_def)
qed

lemma budget_covers_transition_witness:
  "st_execute_cycles ex_staged \<le> 0 \<and> length (response_bytes OK (result_bytes ex_staged)) \<le> 48"
proof -
  have e: "execute ex_request (fresh_staged ex_request) 0 = Inr (ex_staged, 0)" by (rule ex_execute)
  have o: "dq_opcode ex_request \<in> set INSTRUCTION_OPCODES" by (simp add: ex_request_wf INSTRUCTION_OPCODES_def)
  have p: "dq_pc ex_request < 2 ^ 16" "dq_fp ex_request < 2 ^ 16" by (simp_all add: ex_request_wf)
  have b: "budget (dq_opcode ex_request) (dq_profile ex_request) =
     Inr \<lparr>bg_opcode = OP_SET_CONSTANT, bg_profile = INTERPRETER_COMPAT, bg_request_bytes = 61, bg_result_bytes = 48, bg_service_bytes = 0,
       bg_execute_cycles = 0\<rparr>"
    unfolding ex_request_wf by code_simp
  from budget_covers_transition [OF e ex_request_wf(1) o p order_refl b] show ?thesis by (simp add: ex_staged_def)
qed

end
