(* ===== verification/Gf_Inverse.thy ===== *)
theory Gf_Inverse
  imports Gf128
begin

text \<open>
  Inverses. The proof that every non-zero element of the ring has one is by computation on
  polynomials: the generator is a fixed point of the 128-fold squaring, so that
  \<open>a ^ 2 ^ 128 = a\<close> for all \<open>a\<close>, and 0 and 1 are the only elements equal to their square.
\<close>

section \<open>Squaring\<close>

lemma gf_square_add: "(a + b) ^ 2 = a ^ 2 + (b :: gf128) ^ 2"
proof -
  have "2 * a * b = (a + a) * b" by (simp only: mult_2)
  then show ?thesis by (simp add: power2_sum)
qed

lemma gf_frob_add: "(a + b) ^ 2 ^ n = a ^ 2 ^ n + (b :: gf128) ^ 2 ^ n"
  by (induction n) (simp_all add: power_mult mult.commute [of 2] gf_square_add)

lemma gen_pow_128: "gen ^ 128 = 1 + gen + gen ^ 2 + gen ^ 7"
  using xt_pow_128_1 by (simp add: xt_pow_gen xt_eq_gen ac_simps)

section \<open>Polynomials as bit lists\<close>

text \<open>The value in the ring of a polynomial given by its coefficients, lowest first.\<close>

fun ev :: "bool list \<Rightarrow> gf128" where
  "ev [] = 0"
| "ev (b # bs) = (if b then 1 else 0) + gen * ev bs"

fun addl :: "bool list \<Rightarrow> bool list \<Rightarrow> bool list" where
  "addl [] ys = ys"
| "addl (x # xs) [] = x # xs"
| "addl (x # xs) (y # ys) = (x \<noteq> y) # addl xs ys"

fun spread :: "bool list \<Rightarrow> bool list" where
  "spread [] = []"
| "spread (b # bs) = b # False # spread bs"

definition mul87 :: "bool list \<Rightarrow> bool list" where
  "mul87 h = addl (addl h (False # h)) (addl (False # False # h) (False # False # False # False # False # False # False # h))"

fun splitl :: "nat \<Rightarrow> bool list \<Rightarrow> bool list \<times> bool list" where
  "splitl 0 xs = ([], xs)"
| "splitl (Suc n) [] = ([], [])"
| "splitl (Suc n) (x # xs) = (case splitl n xs of (a, b) \<Rightarrow> (x # a, b))"

definition fold128 :: "bool list \<Rightarrow> bool list" where
  "fold128 v = (case splitl 128 v of (lo, hi) \<Rightarrow> addl lo (mul87 hi))"

definition squarel :: "bool list \<Rightarrow> bool list" where
  "squarel v = fold128 (fold128 (spread v))"

definition genl :: "bool list" where "genl = False # True # replicate 126 False"

fun squares :: "nat \<Rightarrow> bool list \<Rightarrow> bool list" where
  "squares 0 v = v"
| "squares (Suc n) v = squares n (squarel v)"


lemma ev_addl: "ev (addl xs ys) = ev xs + ev ys"
  by (induction xs ys rule: addl.induct) (auto simp: algebra_simps)

lemma ev_spread: "ev (spread v) = (ev v) ^ 2"
  proof (induction v)
  case (Cons b v)
  have "ev (spread (b # v)) = (if b then 1 else 0) ^ 2 + (gen * ev v) ^ 2"
    using Cons by (simp add: power_mult_distrib power2_eq_square mult.assoc)
  then show ?case by (simp only: gf_square_add ev.simps)
qed simp

lemma ev_mul87: "ev (mul87 h) = gen ^ 128 * ev h"
  unfolding gen_pow_128 by (simp add: mul87_def ev_addl algebra_simps power_numeral_reduce)

lemma ev_splitl: "splitl n v = (lo, hi) \<Longrightarrow> ev v = ev lo + gen ^ n * ev hi"
  by (induction n v arbitrary: lo hi rule: splitl.induct) (auto simp: algebra_simps split: prod.splits)

lemma ev_fold128: "ev (fold128 v) = ev v"
  by (auto simp: fold128_def ev_addl ev_mul87 ev_splitl split: prod.split)

lemma ev_squarel: "ev (squarel v) = (ev v) ^ 2"
  by (simp add: squarel_def ev_fold128 ev_spread)

lemma ev_squares: "ev (squares n v) = ev v ^ 2 ^ n"
  by (induction n arbitrary: v) (simp_all add: ev_squarel flip: power_mult)

lemma ev_replicate_False [simp]: "ev (replicate n False) = 0"
  by (induction n) simp_all

lemma ev_genl: "ev genl = gen"
  by (simp add: genl_def)

lemma squares_128: "squares 128 genl = genl"
  by code_simp

lemma gen_frob: "gen ^ 2 ^ 128 = gen"
  using ev_squares [of 128 genl] by (simp only: squares_128 ev_genl)

lemma gf_frob_128: "a ^ 2 ^ 128 = (a :: gf128)"
proof (rule additive_ext [of "\<lambda>a. a ^ 2 ^ 128" "\<lambda>a. a"])
  fix i :: nat
  have "(gen ^ i) ^ 2 ^ 128 = (gen ^ 2 ^ 128) ^ i" by (simp only: power_mult [symmetric] mult.commute)
  then show "(xt ^^ i) 1 ^ 2 ^ 128 = (xt ^^ i) 1" by (simp only: xt_pow_gen gen_frob mult_1_right)
qed (rule gf_frob_add, rule refl)


section \<open>Idempotents\<close>

text \<open>
  A linear functional of the coordinates as the list of the coordinates it adds, and the
  squaring of a list of them: coordinate \<open>j\<close> of the square of an element is the functional
  at position \<open>j\<close> of its coordinates.
\<close>

fun par :: "(int \<Rightarrow> bool) \<Rightarrow> int list \<Rightarrow> bool" where
  "par x [] = False"
| "par x (i # is) = (x i \<noteq> par x is)"

fun symd :: "int list \<Rightarrow> int list \<Rightarrow> int list" where
  "symd [] ys = ys"
| "symd (x # xs) [] = x # xs"
| "symd (x # xs) (y # ys) =
     (if x < y then x # symd xs (y # ys) else if y < x then y # symd (x # xs) ys else symd xs ys)"

fun addr :: "int list list \<Rightarrow> int list list \<Rightarrow> int list list" where
  "addr [] ys = ys"
| "addr (x # xs) [] = x # xs"
| "addr (x # xs) (y # ys) = symd x y # addr xs ys"

fun spreadr :: "int list list \<Rightarrow> int list list" where
  "spreadr [] = []"
| "spreadr (b # bs) = b # [] # spreadr bs"

definition mul87r :: "int list list \<Rightarrow> int list list" where
  "mul87r h = addr (addr h ([] # h)) (addr ([] # [] # h) ([] # [] # [] # [] # [] # [] # [] # h))"

fun splitr :: "nat \<Rightarrow> int list list \<Rightarrow> int list list \<times> int list list" where
  "splitr 0 xs = ([], xs)"
| "splitr (Suc n) [] = ([], [])"
| "splitr (Suc n) (x # xs) = (case splitr n xs of (a, b) \<Rightarrow> (x # a, b))"

definition fold128r :: "int list list \<Rightarrow> int list list" where
  "fold128r v = (case splitr 128 v of (lo, hi) \<Rightarrow> addr lo (mul87r hi))"

definition squarer :: "int list list \<Rightarrow> int list list" where
  "squarer v = fold128r (fold128r (spreadr v))"

lemma par_symd: "par x (symd r s) = (par x r \<noteq> par x s)"
  by (induction r s rule: symd.induct) auto

lemma par_addr: "map (par x) (addr xs ys) = addl (map (par x) xs) (map (par x) ys)"
  by (induction xs ys rule: addr.induct) (simp_all add: par_symd)

lemma par_spreadr: "map (par x) (spreadr v) = spread (map (par x) v)"
  by (induction v) simp_all

lemma par_mul87r: "map (par x) (mul87r h) = mul87 (map (par x) h)"
  by (simp add: mul87r_def mul87_def par_addr)

lemma par_splitr: "splitl n (map (par x) v) = (case splitr n v of (a, b) \<Rightarrow> (map (par x) a, map (par x) b))"
  by (induction n v rule: splitr.induct) (auto split: prod.splits)

lemma par_fold128r: "map (par x) (fold128r v) = fold128 (map (par x) v)"
  by (simp add: fold128r_def fold128_def par_splitr par_addr par_mul87r split: prod.split)

lemma par_squarer: "map (par x) (squarer v) = squarel (map (par x) v)"
  by (simp add: squarer_def squarel_def par_fold128r par_spreadr)

text \<open>The coordinates of an element as such a list.\<close>

definition coords :: "int list list" where
  "coords = map (\<lambda>i. [i]) [0..127]"

definition rows :: "int list list" where
  "rows = addr coords (squarer coords)"

fun combine :: "nat list \<Rightarrow> int list list \<Rightarrow> int list" where
  "combine [] rs = []"
| "combine (j # js) rs = symd (rs ! j) (combine js rs)"

text \<open>
  An elimination: each entry names a coordinate and the rows whose sum involves, besides it,
  only coordinates already known to be zero.
\<close>

fun eliminate :: "(int \<times> nat list) list \<Rightarrow> int list list \<Rightarrow> int list \<Rightarrow> bool" where
  "eliminate [] rs zeros \<longleftrightarrow> (\<forall>i\<in>set [1..127]. i \<in> set zeros)"
| "eliminate ((i, js) # steps) rs zeros \<longleftrightarrow>
     list_all (\<lambda>j. j < 128) js \<and>
     filter (\<lambda>v. v \<notin> set zeros) (combine js rs) = [i] \<and> eliminate steps rs (i # zeros)"

definition elimination :: "(int \<times> nat list) list" where
  "elimination = [
    (97, [3, 5, 6, 9, 10, 11, 12, 15, 17, 18, 20, 21, 22, 23, 24, 25, 29, 30, 33, 34, 35, 36, 37, 39, 40,
     42, 44, 45, 46, 47, 48, 50, 51, 53, 55, 57, 58, 60, 61, 63, 66, 67, 68, 70, 72, 73, 74, 77, 78, 80, 81,
     83, 84, 88, 89, 90, 92, 94, 95, 96, 97, 99, 100, 102, 105, 106, 107, 109, 110, 111, 113, 114, 116, 117,
     119, 120, 122, 123, 125, 126]), (102, [3, 6, 11, 12, 13, 22, 24, 26, 27, 44, 45, 48, 52, 54, 59, 65,
     83, 85, 87, 88, 89, 90, 91, 96, 103, 104, 108, 111, 117, 118, 125]), (108, [1, 2, 4, 7, 8, 9, 13, 14,
     15, 16, 17, 18, 25, 26, 27, 28, 29, 30, 32, 33, 34, 36, 37, 39, 49, 50, 52, 53, 54, 56, 58, 59, 60, 64,
     65, 66, 67, 68, 69, 71, 72, 74, 75, 78, 79, 83, 85, 87, 97, 98, 100, 103, 104, 105, 106, 107, 108, 109,
     112, 113, 115, 116, 118, 119, 120, 121, 125]), (123, [0, 7, 14, 21, 27, 28, 35, 42, 49, 53, 54, 55, 56,
     61, 63, 67, 70, 81, 84, 87, 95, 98, 99, 101, 105, 106, 107, 108, 110, 112, 113, 121, 122, 123, 126]),
     (105, [0, 7, 13, 14, 15, 17, 23, 26, 28, 29, 30, 31, 34, 39, 41, 43, 45, 46, 47, 51, 52, 56, 58, 60,
     61, 62, 63, 68, 69, 78, 82, 85, 86, 90, 92, 94, 95, 97, 102, 104, 107, 109, 112, 115, 116, 117, 120,
     121, 122, 123, 124, 125, 126]), (116, [0, 7, 11, 14, 22, 27, 28, 29, 33, 35, 39, 41, 43, 44, 45, 47,
     51, 54, 55, 56, 57, 58, 63, 66, 67, 69, 70, 71, 77, 78, 82, 86, 87, 88, 90, 91, 93, 94, 99, 102, 103,
     105, 108, 110, 111, 112, 114, 116, 117, 126]), (82, [9, 11, 13, 15, 18, 19, 21, 22, 26, 30, 33, 36, 38,
     39, 42, 43, 44, 45, 51, 52, 55, 60, 65, 66, 67, 69, 72, 75, 76, 78, 79, 81, 83, 84, 85, 86, 88, 90, 91,
     95, 97, 99, 101, 102, 103, 104, 105, 109, 110, 119, 120, 121]), (98, [0, 1, 2, 4, 8, 11, 16, 17, 19,
     22, 25, 29, 32, 34, 35, 37, 38, 43, 44, 49, 50, 55, 58, 61, 63, 64, 67, 68, 70, 71, 74, 76, 83, 85, 86,
     88, 89, 93, 98, 100, 103, 107, 110, 115, 116, 117, 121, 122, 123, 125, 126]), (117, [9, 15, 18, 19, 25,
     30, 35, 36, 38, 50, 55, 60, 61, 65, 70, 71, 72, 73, 76, 79, 83, 89, 97, 99, 100, 101, 103, 105, 109,
     110, 111, 113, 120, 122, 123]), (109, [9, 11, 13, 15, 18, 19, 21, 22, 26, 30, 33, 36, 38, 39, 42, 44,
     45, 52, 55, 60, 65, 66, 67, 69, 72, 75, 76, 78, 79, 81, 83, 84, 88, 89, 90, 91, 95, 99, 101, 104, 105,
     107, 109, 110, 119, 120, 121]), (80, [9, 15, 18, 25, 30, 31, 36, 39, 41, 47, 50, 55, 60, 61, 62, 65,
     71, 72, 78, 82, 83, 87, 89, 94, 95, 97, 100, 103, 105, 107, 109, 110, 119, 120, 121, 122, 123, 124,
     125]), (94, [13, 19, 25, 26, 27, 29, 31, 37, 38, 39, 41, 47, 49, 50, 52, 54, 57, 58, 62, 67, 74, 75,
     76, 78, 81, 82, 85, 87, 89, 91, 93, 94, 95, 97, 98, 100, 104, 108, 109, 114, 116, 117, 119, 121, 124,
     125]), (104, [41, 47, 49, 55, 81, 82, 85, 87, 91, 94, 98, 101, 103, 107, 109, 110, 113, 119]), (103,
     [13, 19, 25, 26, 29, 31, 38, 39, 43, 45, 49, 50, 52, 57, 58, 61, 62, 67, 75, 76, 77, 78, 79, 83, 86,
     89, 90, 91, 93, 95, 98, 99, 100, 103, 104, 111, 113, 114, 116, 117, 122, 123, 124, 125]), (101, [13,
     19, 25, 26, 31, 38, 43, 45, 50, 52, 55, 61, 62, 67, 76, 77, 79, 85, 86, 90, 95, 99, 100, 104, 107, 109,
     110, 111, 122, 123, 124, 125]), (93, [49, 55, 85, 91, 93, 98, 101, 103, 105, 107, 109, 110, 111]), (79,
     [25, 31, 49, 50, 61, 62, 73, 85, 89, 91, 95, 97, 98, 100, 101, 122, 123, 124, 125]), (95, [95, 105,
     111, 113, 119]), (107, [95, 101, 107]), (70, [13, 26, 31, 43, 45, 52, 62, 67, 77, 83, 85, 86, 89, 90,
     93, 97, 99, 103, 104, 105, 121, 124, 125]), (88, [49, 61, 85, 91, 97, 98, 105, 121, 122, 123]), (92,
     [57, 89, 95, 107, 109, 111, 114, 115, 119]), (90, [43, 45, 83, 85, 86, 90]), (66, [21, 33, 37, 42, 66,
     71, 74, 77, 79, 84, 85]), (99, [93, 99, 105]), (119, [95, 111]), (76, [31, 62, 121, 124, 125]), (68,
     [9, 18, 21, 36, 37, 42, 65, 71, 72, 73, 74, 79, 81, 84, 85]), (72, [17, 34, 68, 69, 81]), (71, [21, 37,
     42, 74, 79, 84, 85]), (86, [43, 85, 86]), (78, [39, 78, 83]), (74, [37, 74, 79]), (91, [61, 121, 122,
     123]), (118, [97, 103, 109]), (115, [109]), (120, [119]), (114, [107]), (113, [105]), (112, [97]),
     (111, [95]), (110, [93]), (89, [89]), (87, [87]), (106, [91]), (85, [85]), (83, [83]), (84, [41, 81,
     82]), (81, [81]), (77, [77]), (75, [75]), (100, [79]), (73, [73]), (69, [69]), (67, [67]), (127, [63,
     126]), (96, [71]), (6, [3, 6, 65, 125]), (122, [117]), (125, [123]), (126, [125]), (30, [15, 30]),
     (121, [115]), (65, [65]), (32, [0, 64]), (58, [116]), (56, [112]), (54, [108]), (52, [104]), (50,
     [100]), (48, [96]), (46, [92]), (44, [88]), (42, [84]), (40, [80]), (38, [76]), (36, [72]), (34, [68]),
     (28, [56]), (26, [52]), (24, [48]), (22, [44]), (20, [40]), (18, [36]), (16, [32]), (14, [28]), (12,
     [24]), (10, [20]), (8, [16]), (5, [5]), (3, [3]), (4, [1, 2, 4]), (64, [0]), (2, [1, 2]), (1, [1]),
     (62, [121, 124]), (60, [120, 121]), (61, [61]), (59, [59]), (57, [57]), (55, [55]), (53, [53]), (51,
     [51]), (49, [49]), (47, [47]), (45, [45]), (43, [43]), (41, [41]), (39, [39]), (37, [37]), (35, [35]),
     (33, [33]), (31, [31]), (29, [29]), (27, [27]), (25, [25]), (23, [23]), (21, [21]), (19, [19]), (17,
     [17]), (15, [15]), (13, [13]), (11, [11]), (9, [9]), (7, [7]), (63, [126]), (124, [121])
  ]"

lemma elimination_ok: "eliminate elimination rows []"
  by code_simp


lemma combine_zero:
  "\<forall>j < 128. \<not> par x (rs ! j) \<Longrightarrow> list_all (\<lambda>j. j < 128) js \<Longrightarrow> \<not> par x (combine js rs)"
  by (induction js) (simp_all add: par_symd)

lemma par_filter: "\<forall>v. \<not> P v \<longrightarrow> \<not> x v \<Longrightarrow> par x (filter P r) = par x r"
  by (induction r) auto

lemma eliminate_zero:
  "eliminate steps rs zeros \<Longrightarrow> \<forall>j < 128. \<not> par x (rs ! j) \<Longrightarrow> \<forall>z\<in>set zeros. \<not> x z \<Longrightarrow>
     \<forall>i\<in>{1..127}. \<not> x i"
proof (induction steps rs zeros rule: eliminate.induct)
  case (1 rs zeros)
  then show ?case by auto
next
  case (2 i js steps rs zeros)
  have "par x [i] = par x (combine js rs)"
    using 2(2,4) par_filter [of "\<lambda>v. v \<notin> set zeros" x "combine js rs"]
    by auto
  moreover have "\<not> par x (combine js rs)" using 2(2,3) by (intro combine_zero) simp_all
  ultimately have "\<not> x i" by simp
  with 2 show ?case by simp
qed

lemma length_square_coords: "length (squarer coords) = 128" "length coords = 128"
  by code_simp+

lemma addr_nth: "length xs = length ys \<Longrightarrow> i < length ys \<Longrightarrow> addr xs ys ! i = symd (xs ! i) (ys ! i)"
  by (induction xs ys arbitrary: i rule: addr.induct) (auto simp: nth_Cons split: nat.splits)

lemma gbit_gen_pow: "i < 128 \<Longrightarrow> gbit (gen ^ i) j \<longleftrightarrow> j = i"
  using gbit_xt_pow_1 [of i j] by (simp add: xt_pow_gen)

lemma gbit_gen_ev:
  "n + length v \<le> 128 \<Longrightarrow> gbit (gen ^ n * ev v) j \<longleftrightarrow> n \<le> j \<and> j < n + length v \<and> v ! (j - n)"
proof (induction v arbitrary: n)
  case (Cons b v)
  have "gen ^ n * ev (b # v) = (if b then gen ^ n else 0) + gen ^ Suc n * ev v" by (simp add: algebra_simps)
  moreover have "gbit (gen ^ Suc n * ev v) j \<longleftrightarrow> Suc n \<le> j \<and> j < Suc n + length v \<and> v ! (j - Suc n)"
    using Cons.IH [of "Suc n"] Cons.prems by (simp del: power_Suc)
  moreover have "n < 128" using Cons.prems by simp
  ultimately show ?case
    by (cases "j \<le> n") (auto simp: gbit_gen_pow nth_Cons')
qed simp

lemma gbit_ev: "length v = 128 \<Longrightarrow> j < 128 \<Longrightarrow> gbit (ev v) j \<longleftrightarrow> v ! j"
  using gbit_gen_ev [of 0 v j] by simp

lemma gf_idempotent:
  fixes e :: gf128
  assumes "e ^ 2 = e"
  shows "e = 0 \<or> e = 1"
proof -
  define x where "x i = gbit e (nat i)" for i
  let ?v = "map (par x) coords"
  have nth: "?v ! j = gbit e j" if "j < 128" for j
    using that by (simp add: coords_def x_def nth_upto)
  have "ev ?v = e"
    by (rule gbit_eqI) (simp add: gbit_ev length_square_coords nth del: map_map nth_map)
  moreover have "ev (squarel ?v) = ev ?v ^ 2" by (rule ev_squarel)
  ultimately have sq: "ev (map (par x) (squarer coords)) = e" using assms by (simp only: par_squarer)
  have "\<not> par x (rows ! j)" if j: "j < 128" for j
  proof -
    have "map (par x) (squarer coords) ! j = gbit e j"
      using gbit_ev [of "map (par x) (squarer coords)" j] j sq by (simp add: length_square_coords)
    with nth [OF j] have "par x (squarer coords ! j) = par x (coords ! j)" using j by (simp add: length_square_coords)
    then show ?thesis using j by (simp add: rows_def addr_nth length_square_coords par_symd)
  qed
  then have z: "\<forall>i\<in>{1..127}. \<not> x i" by (intro eliminate_zero [OF elimination_ok]) simp_all
  have "\<not> gbit e j" if "0 < j" "j < 128" for j
    using bspec [OF z, of "int j"] that by (simp add: x_def)
  then have "e = (if gbit e 0 then 1 else 0)"
    by (intro gbit_eqI) (metis gbit_simps(2) gbit_simps(1) gr0I gbit_gen_pow power_0 zero_less_numeral)
  then show ?thesis by metis
qed

section \<open>The field\<close>

lemma gf_unit:
  assumes "a \<noteq> (0 :: gf128)"
  shows "a * a ^ (2 ^ 128 - 2) = 1"
proof -
  define m :: nat where "m = 2 ^ 128 - 2"
  have n: "(2 :: nat) ^ 128 = Suc (Suc m)" by (simp add: m_def)
  have f: "a * (a * a ^ m) = a" using gf_frob_128 [of a] by (simp only: n power_Suc)
  have "(a * a ^ m) ^ 2 = a * (a * a ^ m) * a ^ m" by (simp add: power2_eq_square ac_simps)
  with f have "(a * a ^ m) ^ 2 = a * a ^ m" by simp
  then have "a * a ^ m = 0 \<or> a * a ^ m = 1" by (rule gf_idempotent)
  with f assms have "a * a ^ m = 1" by auto
  then show ?thesis by (simp only: m_def)
qed

instantiation gf128 :: field
begin

definition inverse_gf128 :: "gf128 \<Rightarrow> gf128" where
  "inverse_gf128 a = (if a = 0 then 0 else a ^ (2 ^ 128 - 2))"

definition divide_gf128 :: "gf128 \<Rightarrow> gf128 \<Rightarrow> gf128" where
  "divide_gf128 a b = a * inverse b"

instance
proof
  fix a b :: gf128
  show "a \<noteq> 0 \<Longrightarrow> inverse a * a = 1" using gf_unit [of a] by (simp add: inverse_gf128_def mult.commute)
  show "a div b = a * inverse b" by (rule divide_gf128_def)
  show "inverse (0 :: gf128) = 0" by (simp add: inverse_gf128_def)
qed

end

end
