(* ===== verification/Host_Memory.thy ===== *)
theory Host_Memory
  imports Lsc_Transition Gf_Inverse
begin

text \<open>
  The state the host owns, \<open>host/memory.py\<close>: the write-once memory with its access counts and
  deferred equalities, the tables of powers of the generator, and the inverse witness. The
  exceptions of \<open>host/errors.py\<close> are constructors of \<open>exn\<close>.
\<close>

definition MASK :: int where "MASK = push_bit 128 1 - 1"

lemma and_MASK: "v AND MASK = take_bit 128 v"
  by (simp add: MASK_def take_bit_eq_mask mask_eq_exp_minus_1)

lemma and_MASK_fits [simp]: "fits 128 v \<Longrightarrow> v AND MASK = v"
  by (metis and_MASK fits_take_bit_iff)

section \<open>The inverse witness\<close>

text \<open>
  The loop of \<open>field_inverse\<close> over the exponent bits: \<open>n\<close> iterations from bit \<open>k\<close> on.
\<close>

fun inverse_loop :: "nat \<Rightarrow> nat \<Rightarrow> int \<Rightarrow> int \<Rightarrow> int" where
  "inverse_loop 0 k result square = result"
| "inverse_loop (Suc n) k result square =
     (let result = (if k \<noteq> 0 then field_mul result square else result);
          square = field_mul square square
      in inverse_loop n (k + 1) result square)"

definition field_inverse :: "int \<Rightarrow> int res" where
  "field_inverse v = (if v = 0 then Inl ZeroDivisionError else Inr (inverse_loop 128 0 1 v))"

section \<open>The pointer map\<close>

record pointer_map =
  pm_forward :: "int list"
  pm_reverse :: "int \<Rightarrow> int option"

definition PointerMap :: pointer_map where
  "PointerMap = \<lparr>pm_forward = [1], pm_reverse = [1 \<mapsto> 0]\<rparr>"

text \<open>\<open>d.setdefault(k, v)\<close>.\<close>

definition setdefault :: "('k \<Rightarrow> 'v option) \<Rightarrow> 'k \<Rightarrow> 'v \<Rightarrow> 'k \<Rightarrow> 'v option" where
  "setdefault d k v = (case d k of None \<Rightarrow> d(k \<mapsto> v) | Some _ \<Rightarrow> d)"

text \<open>One iteration of the loop of \<open>_grow\<close>, and the loop run \<open>n\<close> times.\<close>

definition pm_extend :: "pointer_map \<Rightarrow> pointer_map" where
  "pm_extend pm =
     (let v = field_xtime (last (pm_forward pm)) in
      pm\<lparr>pm_reverse := setdefault (pm_reverse pm) v (int (length (pm_forward pm))),
         pm_forward := pm_forward pm @ [v]\<rparr>)"

definition pm_grow :: "int \<Rightarrow> (pointer_map, exn, unit) routine" where
  "pm_grow index pm =
     (if index \<ge> INDEX_LIMIT then (Inl UnsupportedCapability, pm)
      else (Inr (), (pm_extend ^^ nat (index + 1 - int (length (pm_forward pm)))) pm))"

text \<open>\<open>xs[i]\<close> with Python's negative indices.\<close>

definition pyindex :: "'a list \<Rightarrow> int \<Rightarrow> 'a res" where
  "pyindex xs i =
     (if 0 \<le> i \<and> i < int (length xs) then Inr (xs ! nat i)
      else if i < 0 \<and> - i \<le> int (length xs) then Inr (xs ! nat (int (length xs) + i))
      else Inl IndexError)"

definition pm_encode :: "int \<Rightarrow> (pointer_map, exn, int) routine" where
  "pm_encode index pm =
     thenM (pm_grow index pm) (\<lambda>_ pm. liftM (pyindex (pm_forward pm) index) pm)"

definition index_of :: "int \<Rightarrow> (pointer_map, exn, int) routine" where
  "index_of pointer pm =
     (case pm_reverse pm pointer of
        Some i \<Rightarrow> (Inr i, pm)
      | None \<Rightarrow>
          thenM (pm_grow (INDEX_LIMIT - 1) pm) (\<lambda>_ pm.
            case pm_reverse pm pointer of
              None \<Rightarrow> (Inl UnsupportedCapability, pm)
            | Some i \<Rightarrow> (Inr i, pm)))"

section \<open>The memory\<close>

record host_memory =
  hm_cells :: "int \<Rightarrow> int option"
  hm_access_counts :: "int \<Rightarrow> int option"
  hm_deferred :: "(int \<times> int) list"
  hm_pointers :: pointer_map

definition HostMemory :: "(int \<Rightarrow> int option) \<Rightarrow> (int \<times> int) list \<Rightarrow> host_memory" where
  "HostMemory cells deferred =
     \<lparr>hm_cells = cells, hm_access_counts = (\<lambda>_. None), hm_deferred = deferred, hm_pointers = PointerMap\<rparr>"

definition with_public_input :: "int \<Rightarrow> int \<Rightarrow> host_memory" where
  "with_public_input first second = HostMemory [0 \<mapsto> first AND MASK, 1 \<mapsto> second AND MASK] []"

definition hm_written :: "host_memory \<Rightarrow> int \<Rightarrow> bool" where
  "hm_written m address \<longleftrightarrow> hm_cells m address \<noteq> None"

definition hm_read :: "host_memory \<Rightarrow> int \<Rightarrow> int option" where
  "hm_read m address = hm_cells m address"

definition hm_cell :: "host_memory \<Rightarrow> int \<Rightarrow> cell" where
  "hm_cell m address = (case hm_cells m address of None \<Rightarrow> ABSENT | Some v \<Rightarrow> Cell True v)"

definition prevalidate_write :: "host_memory \<Rightarrow> int \<Rightarrow> int \<Rightarrow> unit res" where
  "prevalidate_write m address v =
     (case hm_cells m address of
        Some existing \<Rightarrow> if existing \<noteq> v then Inl WriteOnceViolation else Inr ()
      | None \<Rightarrow> Inr ())"

definition apply_write :: "int \<Rightarrow> int \<Rightarrow> (host_memory, exn, unit) routine" where
  "apply_write address v m =
     (case hm_cells m address of
        Some existing \<Rightarrow>
          if existing \<noteq> v then (Inl WriteOnceViolation, m)
          else (Inr (), m\<lparr>hm_cells := (hm_cells m)(address \<mapsto> v AND MASK)\<rparr>)
      | None \<Rightarrow> (Inr (), m\<lparr>hm_cells := (hm_cells m)(address \<mapsto> v AND MASK)\<rparr>))"

definition count_access :: "int \<Rightarrow> host_memory \<Rightarrow> host_memory" where
  "count_access address m =
     m\<lparr>hm_access_counts := (hm_access_counts m)(address \<mapsto>
         (case hm_access_counts m address of None \<Rightarrow> 0 | Some n \<Rightarrow> n) + 1)\<rparr>"

definition record_deferred :: "int \<Rightarrow> int \<Rightarrow> host_memory \<Rightarrow> host_memory" where
  "record_deferred target local m = m\<lparr>hm_deferred := hm_deferred m @ [(target, local)]\<rparr>"

text \<open>
  \<open>resolve_deferred\<close>: one pass of the inner loop over the pending pairs, which returns the pairs
  still open and the number resolved, then the outer loop.
\<close>

fun resolve_pass :: "(int \<times> int) list \<Rightarrow> (host_memory, exn, (int \<times> int) list \<times> nat) routine" where
  "resolve_pass [] m = (Inr ([], 0), m)"
| "resolve_pass ((target, local) # rest) m =
     (case (hm_cells m target, hm_cells m local) of
        (None, None) \<Rightarrow>
          thenM (resolve_pass rest m) (\<lambda>(still_open, resolved) m. (Inr ((target, local) # still_open, resolved), m))
      | (None, Some right) \<Rightarrow>
          thenM (apply_write target right m) (\<lambda>_ m.
          thenM (resolve_pass rest m) (\<lambda>(still_open, resolved) m. (Inr (still_open, resolved + 1), m)))
      | (Some left, None) \<Rightarrow>
          thenM (apply_write local left m) (\<lambda>_ m.
          thenM (resolve_pass rest m) (\<lambda>(still_open, resolved) m. (Inr (still_open, resolved + 1), m)))
      | (Some left, Some right) \<Rightarrow>
          if left \<noteq> right then (Inl WriteOnceViolation, m) else resolve_pass rest m)"

lemma resolve_pass_shorter:
  "resolve_pass pending m = (Inr (still_open, resolved), m') \<Longrightarrow> length still_open + resolved \<le> length pending"
  by (induction pending m arbitrary: still_open resolved m' rule: resolve_pass.induct)
    (fastforce simp: thenM_eq split: option.splits if_splits prod.splits sum.splits)+

function resolve_loop :: "(int \<times> int) list \<Rightarrow> (host_memory, exn, (int \<times> int) list) routine" where
  "resolve_loop pending m =
     (case resolve_pass pending m of
        (Inl e, m) \<Rightarrow> (Inl e, m)
      | (Inr (still_open, resolved), m) \<Rightarrow>
          if resolved = 0 then (Inr still_open, m\<lparr>hm_deferred := still_open\<rparr>)
          else resolve_loop still_open m)"
  by pat_completeness auto

termination
  by (relation "measure (\<lambda>(pending, m). length pending)") (auto dest: resolve_pass_shorter [OF sym])

declare resolve_loop.simps [simp del]

definition resolve_deferred :: "(host_memory, exn, (int \<times> int) list) routine" where
  "resolve_deferred m = resolve_loop (hm_deferred m) m"

definition memory_image :: "nat \<Rightarrow> host_memory \<Rightarrow> int list" where
  "memory_image n m = map (\<lambda>address. case hm_cells m (int address) of None \<Rightarrow> 0 | Some v \<Rightarrow> v) [0..<n]"


section \<open>The inverse the host proposes\<close>

lemma inverse_loop_gf:
  assumes "0 < k"
  shows "inverse_loop n k (of_gf r) (of_gf s) = of_gf (r * s ^ (2 ^ n - 1))"
  using assms
proof (induction n arbitrary: k r s)
  case (Suc n)
  have e: "2 ^ Suc n - 1 = Suc (2 * (2 ^ n - 1 :: nat))" by (induction n) auto
  have "inverse_loop (Suc n) k (of_gf r) (of_gf s) = inverse_loop n (k + 1) (of_gf (r * s)) (of_gf (s * s))"
    using Suc.prems by (simp add: Let_def field_mul_gf)
  also have "\<dots> = of_gf (r * s * (s * s) ^ (2 ^ n - 1))" by (rule Suc.IH) simp
  also have "r * s * (s * s) ^ (2 ^ n - 1) = r * s ^ (2 ^ Suc n - 1)"
    unfolding e by (simp add: power_mult power2_eq_square mult.assoc)
  finally show ?case .
qed simp

lemma field_inverse_gf:
  assumes "fits 128 v" "v \<noteq> 0"
  shows "field_inverse v = Inr (of_gf (inverse (to_gf v)))"
proof -
  have nz: "to_gf v \<noteq> 0" using assms to_gf_inject [of v 0] by simp
  have n: "(128 :: nat) = Suc 127" by simp
  have e: "2 * (2 ^ 127 - 1) = (2 ^ 128 - 2 :: nat)" by simp
  have s: "field_mul v v = of_gf (to_gf v * to_gf v)" by (rule field_mul_gf)
  have "inverse_loop 128 0 1 v = inverse_loop 127 1 (of_gf 1) (of_gf (to_gf v * to_gf v))"
    by (simp only: n inverse_loop.simps Let_def s of_gf_01) simp
  also have "\<dots> = of_gf (1 * (to_gf v * to_gf v) ^ (2 ^ 127 - 1))" by (rule inverse_loop_gf) simp
  also have "1 * (to_gf v * to_gf v) ^ (2 ^ 127 - 1) = to_gf v ^ (2 ^ 128 - 2)"
    by (simp only: mult_1_left power2_eq_square [symmetric] power_mult [symmetric] e)
  finally show ?thesis using assms(2) nz by (simp only: field_inverse_def inverse_gf128_def if_False)
qed

lemma field_mul_one_iff:
  assumes "fits 128 v" "fits 128 w"
  shows "field_mul v w = 1 \<longleftrightarrow> v \<noteq> 0 \<and> w = of_gf (inverse (to_gf v))"
proof -
  have "field_mul v w = 1 \<longleftrightarrow> to_gf v * to_gf w = 1" by (metis field_mul_gf of_gf_01(2) of_gf_inject)
  also have "\<dots> \<longleftrightarrow> to_gf v \<noteq> 0 \<and> to_gf w = inverse (to_gf v)"
    by (metis inverse_unique left_inverse mult.commute mult_zero_left zero_neq_one)
  also have "\<dots> \<longleftrightarrow> v \<noteq> 0 \<and> w = of_gf (inverse (to_gf v))"
    using assms to_gf_inject [of v 0] by (metis fits_0 of_to_gf_fits to_gf_01(1) to_of_gf)
  finally show ?thesis .
qed

text \<open>
  C9. The inverse witness: for every non-zero field element the host's \<open>field_inverse\<close> computes
  the one value the endpoint's test \<open>known * proposed == 1\<close> accepts; no other 128-bit
  value passes it, and for zero the host raises and the test accepts nothing.
\<close>

theorem field_inverse_accepted:
  assumes "fits 128 v"
  shows "case field_inverse v of
      Inr w \<Rightarrow> fits 128 w \<and> (\<forall>u. fits 128 u \<longrightarrow> (field_mul v u = 1 \<longleftrightarrow> u = w))
    | Inl e \<Rightarrow> e = ZeroDivisionError \<and> (\<forall>u. fits 128 u \<longrightarrow> field_mul v u \<noteq> 1)"
proof (cases "v = 0")
  case True
  then show ?thesis using field_mul_one_iff [OF assms] by (simp add: field_inverse_def)
next
  case False
  then show ?thesis using field_mul_one_iff [OF assms] by (simp add: field_inverse_gf [OF assms])
qed

section \<open>The memory is a write-once store\<close>

definition hm_put :: "int \<Rightarrow> int \<Rightarrow> host_memory \<Rightarrow> host_memory res" where
  "hm_put a v m = (case apply_write a v m of (Inl e, _) \<Rightarrow> Inl e | (Inr _, m') \<Rightarrow> Inr m')"

interpretation host_store: write_once_store hm_cells "\<lambda>_ _. True" hm_put
  by unfold_locales (auto simp: hm_put_def apply_write_def)

lemma apply_write_iff:
  "fits 128 v \<Longrightarrow> apply_write a v m =
     (if hm_cells m a = None \<or> hm_cells m a = Some v then (Inr (), m\<lparr>hm_cells := (hm_cells m)(a \<mapsto> v)\<rparr>)
      else (Inl WriteOnceViolation, m))"
  by (auto simp: apply_write_def split: option.splits)

lemma prevalidate_write_iff: "prevalidate_write m a v = Inr () \<longleftrightarrow> hm_cells m a = None \<or> hm_cells m a = Some v"
  by (auto simp: prevalidate_write_def split: option.splits)

definition cells_ok :: "host_memory \<Rightarrow> bool" where
  "cells_ok m \<longleftrightarrow> (\<forall>a v. hm_cells m a = Some v \<longrightarrow> fits 128 v)"

lemma cells_ok_put: "cells_ok m \<Longrightarrow> fits 128 v \<Longrightarrow> cells_ok (m\<lparr>hm_cells := (hm_cells m)(a \<mapsto> v)\<rparr>)"
  by (simp add: cells_ok_def)

lemma cells_okD: "cells_ok m \<Longrightarrow> hm_cells m a = Some v \<Longrightarrow> fits 128 v"
  by (simp add: cells_ok_def)

lemma apply_write_free:
  "cells_ok m \<Longrightarrow> hm_cells m a = None \<Longrightarrow> hm_cells m b = Some v \<Longrightarrow>
     apply_write a v m = (Inr (), m\<lparr>hm_cells := (hm_cells m)(a \<mapsto> v)\<rparr>)"
  by (simp add: apply_write_iff cells_okD)

section \<open>Deferred equalities\<close>

text \<open>The next pass over the pairs, without the exceptions that cannot occur.\<close>

lemma resolve_pass_Cons:
  assumes "cells_ok m"
  shows "resolve_pass ((t, l) # rest) m =
    (case (hm_cells m t, hm_cells m l) of
        (None, None) \<Rightarrow> thenM (resolve_pass rest m) (\<lambda>(s, r) m. (Inr ((t, l) # s, r), m))
      | (None, Some v) \<Rightarrow> thenM (resolve_pass rest (m\<lparr>hm_cells := (hm_cells m)(t \<mapsto> v)\<rparr>)) (\<lambda>(s, r) m. (Inr (s, r + 1), m))
      | (Some v, None) \<Rightarrow> thenM (resolve_pass rest (m\<lparr>hm_cells := (hm_cells m)(l \<mapsto> v)\<rparr>)) (\<lambda>(s, r) m. (Inr (s, r + 1), m))
      | (Some v, Some w) \<Rightarrow> if v \<noteq> w then (Inl WriteOnceViolation, m) else resolve_pass rest m)"
  using assms by (auto simp: apply_write_free split: option.splits)

declare resolve_pass.simps(2) [simp del]

text \<open>A map that contains the written cells and satisfies the equalities.\<close>

definition solves :: "(int \<times> int) list \<Rightarrow> host_memory \<Rightarrow> (int \<Rightarrow> int option) \<Rightarrow> bool" where
  "solves pending m M \<longleftrightarrow> hm_cells m \<subseteq>\<^sub>m M \<and> (\<forall>(t, l) \<in> set pending. M t = M l)"

lemma solves_put:
  "solves ((t, l) # rest) m M \<Longrightarrow> hm_cells m l = Some v \<Longrightarrow> solves rest (m\<lparr>hm_cells := (hm_cells m)(t \<mapsto> v)\<rparr>) M"
  "solves ((t, l) # rest) m M \<Longrightarrow> hm_cells m t = Some v \<Longrightarrow> solves rest (m\<lparr>hm_cells := (hm_cells m)(l \<mapsto> v)\<rparr>) M"
  "solves ((t, l) # rest) m M \<Longrightarrow> solves rest m M"
  by (auto simp: solves_def map_le_def dom_def)

text \<open>What a pass leaves: an extension of the memory in which every pair is settled or still open.\<close>

definition pass_ok :: "(int \<times> int) list \<Rightarrow> host_memory \<Rightarrow> (int \<times> int) list \<Rightarrow> nat \<Rightarrow> host_memory \<Rightarrow> bool" where
  "pass_ok pending m open_pairs resolved m' \<longleftrightarrow>
     cells_ok m' \<and> m' = m\<lparr>hm_cells := hm_cells m'\<rparr> \<and> hm_cells m \<subseteq>\<^sub>m hm_cells m' \<and> set open_pairs \<subseteq> set pending \<and>
     (\<forall>(t, l) \<in> set pending. (t, l) \<in> set open_pairs \<or> (\<exists>v. hm_cells m' t = Some v \<and> hm_cells m' l = Some v)) \<and>
     (resolved = 0 \<longrightarrow> hm_cells m' = hm_cells m \<and> (\<forall>(t, l) \<in> set open_pairs. hm_cells m t = None \<and> hm_cells m l = None))"

lemma pass_ok_pair:
  "pass_ok pending m s r m' \<Longrightarrow> (t, l) \<in> set pending \<Longrightarrow>
     (t, l) \<in> set s \<or> (\<exists>v. hm_cells m' t = Some v \<and> hm_cells m' l = Some v)"
  "pass_ok pending m s 0 m' \<Longrightarrow> (t, l) \<in> set s \<Longrightarrow> hm_cells m' t = None \<and> hm_cells m' l = None"
  by (auto simp: pass_ok_def)

lemma resolve_pass_ok:
  "cells_ok m \<Longrightarrow> resolve_pass pending m = (Inr (open_pairs, resolved), m') \<Longrightarrow> pass_ok pending m open_pairs resolved m'"
proof (induction pending arbitrary: m open_pairs resolved)
  case Nil
  then show ?case by (simp add: pass_ok_def)
next
  case (Cons p rest)
  obtain t l where p: "p = (t, l)" by force
  note step = resolve_pass_Cons [OF Cons.prems(1), of t l rest]
  have put: "pass_ok (p # rest) m open_pairs resolved m'"
    if "resolved = Suc r" "resolve_pass rest (m\<lparr>hm_cells := (hm_cells m)(a \<mapsto> v)\<rparr>) = (Inr (open_pairs, r), m')"
      "hm_cells m a = None" "hm_cells m b = Some v" "{a, b} = {t, l}" for a b v r
  proof -
    have "pass_ok rest (m\<lparr>hm_cells := (hm_cells m)(a \<mapsto> v)\<rparr>) open_pairs r m'"
      using Cons.IH [OF cells_ok_put [OF Cons.prems(1) cells_okD [OF Cons.prems(1) that(4)]] that(2)] .
    moreover from this have "hm_cells m' a = Some v" "hm_cells m' b = Some v"
      using that(3,4) by (auto simp: pass_ok_def map_le_def dom_def split: if_splits)
    moreover have "hm_cells m \<subseteq>\<^sub>m (hm_cells m)(a \<mapsto> v)" using that(3) by (simp add: map_le_def dom_def)
    ultimately show ?thesis using that(1,5) by (auto simp: pass_ok_def p doubleton_eq_iff intro: map_le_trans)
  qed
  show ?case
  proof (cases "hm_cells m t"; cases "hm_cells m l")
    assume n: "hm_cells m t = None" "hm_cells m l = None"
    with Cons.prems(2) step obtain s where s: "resolve_pass rest m = (Inr (s, resolved), m')" "open_pairs = (t, l) # s"
      by (auto simp: p thenM_Inr_iff)
    with Cons.IH [OF Cons.prems(1) s(1)] n show ?thesis by (auto simp: pass_ok_def p)
  next
    fix v
    assume n: "hm_cells m t = None" "hm_cells m l = Some v"
    with Cons.prems(2) step show ?thesis
      by (intro put [of "resolved - 1" t v l]) (auto simp: p thenM_Inr_iff)
  next
    fix v
    assume n: "hm_cells m t = Some v" "hm_cells m l = None"
    with Cons.prems(2) step show ?thesis
      by (intro put [of "resolved - 1" l v t]) (auto simp: p thenM_Inr_iff)
  next
    fix v w
    assume n: "hm_cells m t = Some v" "hm_cells m l = Some w"
    with Cons.prems(2) step have e: "v = w" "resolve_pass rest m = (Inr (open_pairs, resolved), m')"
      by (auto simp: p split: if_splits)
    have ok: "pass_ok rest m open_pairs resolved m'" by (rule Cons.IH [OF Cons.prems(1) e(2)])
    then have "hm_cells m' t = Some v" "hm_cells m' l = Some v"
      using n e(1) by (auto simp: pass_ok_def map_le_def dom_def)
    with ok show ?thesis by (auto simp: pass_ok_def p)
  qed
qed

lemma resolve_pass_solvable:
  "cells_ok m \<Longrightarrow> solves pending m M \<Longrightarrow> \<exists>s r m'. resolve_pass pending m = (Inr (s, r), m') \<and> hm_cells m' \<subseteq>\<^sub>m M"
proof (induction pending arbitrary: m)
  case Nil
  then show ?case by (simp add: solves_def)
next
  case (Cons p rest)
  obtain t l where p: "p = (t, l)" by force
  note step = resolve_pass_Cons [OF Cons.prems(1), of t l rest]
  note sol = solves_put [of t l rest m M] Cons.prems(2) [unfolded p]
  have put: "\<exists>s r m'. resolve_pass rest (m\<lparr>hm_cells := (hm_cells m)(a \<mapsto> v)\<rparr>) = (Inr (s, r), m') \<and> hm_cells m' \<subseteq>\<^sub>m M"
    if "hm_cells m b = Some v" "solves rest (m\<lparr>hm_cells := (hm_cells m)(a \<mapsto> v)\<rparr>) M" for a b v
    using Cons.IH [OF cells_ok_put [OF Cons.prems(1) cells_okD [OF Cons.prems(1) that(1)]] that(2)] .
  show ?case
  proof (cases "hm_cells m t"; cases "hm_cells m l")
    assume "hm_cells m t = None" "hm_cells m l = None"
    with Cons.IH [OF Cons.prems(1) sol(3)] sol(4) step show ?thesis by (auto simp: p)
  next
    fix v
    assume "hm_cells m t = None" "hm_cells m l = Some v"
    with put [OF _ sol(1)] sol(4) step show ?thesis by (fastforce simp: p)
  next
    fix v
    assume "hm_cells m t = Some v" "hm_cells m l = None"
    with put [OF _ sol(2)] sol(4) step show ?thesis by (fastforce simp: p)
  next
    fix v w
    assume n: "hm_cells m t = Some v" "hm_cells m l = Some w"
    then have "M t = Some v" "M l = Some w" using sol(4) by (auto simp: solves_def map_le_def dom_def)
    then have "v = w" using sol(4) by (simp add: solves_def)
    with n Cons.IH [OF Cons.prems(1) sol(3)] sol(4) step show ?thesis by (auto simp: p)
  qed
qed


lemma resolve_pass_raises:
  "cells_ok m \<Longrightarrow> resolve_pass pending m = (Inl e, m') \<Longrightarrow> e = WriteOnceViolation"
proof (induction pending arbitrary: m)
  case Nil
  then show ?case by simp
next
  case (Cons p rest)
  obtain t l where p: "p = (t, l)" by force
  note ih = Cons.IH [OF Cons.prems(1)] Cons.IH [OF cells_ok_put [OF Cons.prems(1) cells_okD [OF Cons.prems(1)]]]
  from resolve_pass_Cons [OF Cons.prems(1), of t l rest] Cons.prems(2) show ?case
    by (auto simp: p thenM_eq split: option.splits if_splits sum.splits prod.splits dest: ih)
qed

text \<open>The relation between the memory before and after the whole resolution.\<close>

definition resolved_ok :: "(int \<times> int) list \<Rightarrow> host_memory \<Rightarrow> (int \<times> int) list \<Rightarrow> host_memory \<Rightarrow> bool" where
  "resolved_ok pending m open_pairs m' \<longleftrightarrow>
     cells_ok m' \<and> m' = m\<lparr>hm_cells := hm_cells m', hm_deferred := open_pairs\<rparr> \<and> set open_pairs \<subseteq> set pending \<and>
     solves pending m (hm_cells m') \<and> (\<forall>(t, l) \<in> set open_pairs. hm_cells m' t = None \<and> hm_cells m' l = None)"

lemma resolved_ok_trans:
  assumes "pass_ok pending m s r m1" "resolved_ok s m1 open_pairs m'"
  shows "resolved_ok pending m open_pairs m'"
proof -
  have e: "hm_cells m \<subseteq>\<^sub>m hm_cells m'" using assms by (auto simp: pass_ok_def resolved_ok_def solves_def intro: map_le_trans)
  have "hm_cells m' t = hm_cells m' l" if tl: "(t, l) \<in> set pending" for t l
  proof (cases "(t, l) \<in> set s")
    case True
    then show ?thesis using assms(2) by (auto simp: resolved_ok_def solves_def)
  next
    case False
    then obtain v where "hm_cells m1 t = Some v" "hm_cells m1 l = Some v" using tl pass_ok_pair(1) [OF assms(1)] by blast
    moreover have "hm_cells m1 \<subseteq>\<^sub>m hm_cells m'" using assms(2) by (simp add: resolved_ok_def solves_def)
    ultimately show ?thesis by (metis domI map_le_def)
  qed
  moreover have "m' = m\<lparr>hm_cells := hm_cells m', hm_deferred := open_pairs\<rparr>"
  proof -
    obtain c1 c2 where "m1 = m\<lparr>hm_cells := c1\<rparr>" "m' = m1\<lparr>hm_cells := c2, hm_deferred := open_pairs\<rparr>"
      using assms unfolding pass_ok_def resolved_ok_def by blast
    then show ?thesis by simp
  qed
  ultimately show ?thesis using e assms by (auto simp: resolved_ok_def solves_def pass_ok_def)
qed

lemma resolve_loop_ok:
  "cells_ok m \<Longrightarrow> resolve_loop pending m = (Inr open_pairs, m') \<Longrightarrow> resolved_ok pending m open_pairs m'"
proof (induction pending m arbitrary: open_pairs m' rule: resolve_loop.induct)
  case (1 pending m)
  from 1(3) obtain s r m1 where p: "resolve_pass pending m = (Inr (s, r), m1)"
    and e: "(if r = 0 then (Inr s, m1\<lparr>hm_deferred := s\<rparr>) else resolve_loop s m1) = (Inr open_pairs, m')"
    by (subst (asm) resolve_loop.simps) (auto split: prod.splits sum.splits)
  note ok = resolve_pass_ok [OF 1(2) p]
  show ?case
  proof (cases "r = 0")
    case True
    with e ok have "hm_cells m1 = hm_cells m" "m' = m1\<lparr>hm_deferred := s\<rparr>" "open_pairs = s" by (auto simp: pass_ok_def)
    moreover have "cells_ok m'" using ok calculation(2) by (simp add: pass_ok_def cells_ok_def)
    moreover have "m' = m\<lparr>hm_cells := hm_cells m', hm_deferred := s\<rparr>" using ok calculation by (simp add: pass_ok_def)
    moreover have "hm_cells m1 t = hm_cells m1 l" if "(t, l) \<in> set pending" for t l
      using pass_ok_pair [OF ok [unfolded True]] that by (metis)
    moreover have "set s \<subseteq> set pending" using ok by (simp add: pass_ok_def)
    ultimately show ?thesis using pass_ok_pair(2) [OF ok [unfolded True]] by (auto simp: resolved_ok_def solves_def)
  next
    case False
    have "cells_ok m1" using ok by (simp add: pass_ok_def)
    from 1(1) [OF p [symmetric] refl refl False this] e False have "resolved_ok s m1 open_pairs m'" by simp
    with ok show ?thesis by (rule resolved_ok_trans)
  qed
qed

lemma resolve_loop_solvable:
  "cells_ok m \<Longrightarrow> solves pending m M \<Longrightarrow> \<exists>s m'. resolve_loop pending m = (Inr s, m') \<and> hm_cells m' \<subseteq>\<^sub>m M"
proof (induction pending m rule: resolve_loop.induct)
  case (1 pending m)
  from resolve_pass_solvable [OF 1(2,3)] obtain s r m1 where
    p: "resolve_pass pending m = (Inr (s, r), m1)" and b: "hm_cells m1 \<subseteq>\<^sub>m M" by blast
  note ok = resolve_pass_ok [OF 1(2) p]
  show ?case
  proof (cases "r = 0")
    case True
    with p b show ?thesis by (subst resolve_loop.simps) simp
  next
    case False
    have "cells_ok m1" "solves s m1 M" using ok b 1(3) by (auto simp: pass_ok_def solves_def)
    from 1(1) [OF p [symmetric] refl refl False this] p False show ?thesis
      by (subst resolve_loop.simps) simp
  qed
qed

lemma resolve_loop_raises:
  "cells_ok m \<Longrightarrow> resolve_loop pending m = (Inl e, m') \<Longrightarrow> e = WriteOnceViolation"
proof (induction pending m rule: resolve_loop.induct)
  case (1 pending m)
  show ?case
  proof (cases "resolve_pass pending m")
    case (Pair x m1)
    show ?thesis
    proof (cases x)
      case (Inl e')
      with Pair 1(3) have "e' = e" by (subst (asm) resolve_loop.simps) simp
      with resolve_pass_raises [OF 1(2)] Pair Inl show ?thesis by blast
    next
      case (Inr y)
      obtain s r where y: "y = (s, r)" by force
      have p: "resolve_pass pending m = (Inr (s, r), m1)" using Pair Inr y by simp
      note ok = resolve_pass_ok [OF 1(2) p]
      have "r \<noteq> 0" "resolve_loop s m1 = (Inl e, m')" using 1(3) p by (subst (asm) resolve_loop.simps, simp split: if_splits)+
      with 1(1) [OF p [symmetric] refl refl] ok show ?thesis by (simp add: pass_ok_def)
    qed
  qed
qed

text \<open>
  C11. \<open>resolve_deferred\<close> always ends and computes the least solution: if some extension of the
  written cells satisfies every deferred equality (two unwritten cells count as equal), it
  succeeds, the memory becomes the least such extension, and the pairs it returns and keeps
  are exactly open, with neither side written. If there is none it raises
  \<open>WriteOnceViolation\<close>.
\<close>

theorem resolve_deferred_least:
  assumes "cells_ok m"
  shows "case resolve_deferred m of
      (Inr open_pairs, m') \<Rightarrow>
        hm_deferred m' = open_pairs \<and> set open_pairs \<subseteq> set (hm_deferred m) \<and>
        (\<forall>(t, l) \<in> set open_pairs. hm_cells m' t = None \<and> hm_cells m' l = None) \<and>
        solves (hm_deferred m) m (hm_cells m') \<and> (\<forall>M. solves (hm_deferred m) m M \<longrightarrow> hm_cells m' \<subseteq>\<^sub>m M) \<and>
        hm_access_counts m' = hm_access_counts m \<and> hm_pointers m' = hm_pointers m
    | (Inl e, m') \<Rightarrow> e = WriteOnceViolation \<and> (\<nexists>M. solves (hm_deferred m) m M)"
proof (cases "resolve_deferred m")
  case (Pair r m')
  show ?thesis
  proof (cases r)
    case (Inl e)
    with Pair resolve_loop_raises [OF assms] resolve_loop_solvable [OF assms] show ?thesis
      by (fastforce simp: resolve_deferred_def)
  next
    case (Inr s)
    with Pair have l: "resolve_loop (hm_deferred m) m = (Inr s, m')" by (simp add: resolve_deferred_def)
    note ok = resolve_loop_ok [OF assms l]
    have least: "hm_cells m' \<subseteq>\<^sub>m M" if "solves (hm_deferred m) m M" for M
      using resolve_loop_solvable [OF assms that] l by simp
    obtain c where "m' = m\<lparr>hm_cells := c, hm_deferred := s\<rparr>" using ok unfolding resolved_ok_def by blast
    then have "hm_access_counts m' = hm_access_counts m" "hm_pointers m' = hm_pointers m" "hm_deferred m' = s" by simp_all
    with Pair Inr ok least show ?thesis by (auto simp: resolved_ok_def)
  qed
qed


section \<open>The pointer map finds what the endpoint verifies\<close>

text \<open>The reachable pointer maps are the tables of the first \<open>n + 1\<close> powers of the generator.\<close>

definition pm_table :: "nat \<Rightarrow> pointer_map" where
  "pm_table n = (pm_extend ^^ n) PointerMap"

definition pm_ok :: "pointer_map \<Rightarrow> bool" where
  "pm_ok pm \<longleftrightarrow> (\<exists>n < 2 ^ 16. pm = pm_table n)"

text \<open>The index of a power: the least exponent.\<close>

definition is_index :: "int \<Rightarrow> nat \<Rightarrow> bool" where
  "is_index p i \<longleftrightarrow> of_gf (gen ^ i) = p \<and> (\<forall>j < i. of_gf (gen ^ j) \<noteq> p)"

lemma is_index_unique: "is_index p i \<Longrightarrow> is_index p j \<Longrightarrow> i = j"
  by (metis is_index_def linorder_neqE_nat)

lemma is_index_exists: "of_gf (gen ^ i) = p \<Longrightarrow> \<exists>j\<le>i. is_index p j"
  using LeastI [of "\<lambda>j. of_gf (gen ^ j) = p" i] Least_le [of "\<lambda>j. of_gf (gen ^ j) = p" i]
    not_less_Least [of _ "\<lambda>j. of_gf (gen ^ j) = p"] unfolding is_index_def by blast

lemma pm_table_forward: "pm_forward (pm_table n) = map (\<lambda>i. of_gf (gen ^ i)) [0..<Suc n]"
proof (induction n)
  case 0
  then show ?case by (simp add: pm_table_def PointerMap_def)
next
  case (Suc n)
  have "field_xtime (of_gf (gen ^ n)) = of_gf (gen ^ Suc n)" by (simp add: field_xtime_gf)
  with Suc show ?case by (simp add: pm_table_def pm_extend_def Let_def)
qed

lemma pm_table_reverse: "pm_reverse (pm_table n) p = Some i \<longleftrightarrow> 0 \<le> i \<and> i \<le> int n \<and> is_index p (nat i)"
proof (induction n arbitrary: p i)
  case 0
  have "is_index p 0 \<longleftrightarrow> p = 1" by (auto simp: is_index_def)
  then show ?case by (auto simp: pm_table_def PointerMap_def)
next
  case (Suc n)
  let ?v = "of_gf (gen ^ Suc n)"
  have v: "field_xtime (last (pm_forward (pm_table n))) = ?v" by (simp add: pm_table_forward field_xtime_gf)
  have len: "length (pm_forward (pm_table n)) = Suc n" by (simp add: pm_table_forward)
  have t: "pm_reverse (pm_table (Suc n)) = setdefault (pm_reverse (pm_table n)) ?v (int (Suc n))"
    using v len by (simp add: pm_table_def pm_extend_def Let_def)
  show ?case
  proof (cases "pm_reverse (pm_table n) ?v")
    case (Some j)
    then have j: "j \<le> int n" "is_index ?v (nat j)" by (simp_all add: Suc.IH)
    then have "nat j \<noteq> Suc n" by auto
    with is_index_unique [OF j(2)] have "\<not> is_index ?v (Suc n)" by blast
    then have "\<not> is_index p (Suc n)" by (auto simp: is_index_def)
    then have "0 \<le> i \<and> i \<le> int (Suc n) \<and> is_index p (nat i) \<longleftrightarrow> 0 \<le> i \<and> i \<le> int n \<and> is_index p (nat i)"
      by (cases "i = int (Suc n)") (auto simp: nat_add_distrib)
    moreover have "pm_reverse (pm_table (Suc n)) = pm_reverse (pm_table n)" by (simp only: t setdefault_def Some option.case)
    ultimately show ?thesis by (simp only: Suc.IH)
  next
    case None
    have "is_index ?v (Suc n)"
    proof (rule ccontr)
      assume "\<not> is_index ?v (Suc n)"
      with is_index_exists [of "Suc n" ?v] obtain j where "j \<le> n" "is_index ?v j" by (metis le_SucE)
      then have "pm_reverse (pm_table n) ?v = Some (int j)" by (simp add: Suc.IH)
      with None show False by simp
    qed
    then have u: "is_index ?v (nat i) \<longleftrightarrow> nat i = Suc n" for i
      using is_index_unique [of ?v "nat i" "Suc n"] by auto
    have t': "pm_reverse (pm_table (Suc n)) = (pm_reverse (pm_table n))(?v \<mapsto> int (Suc n))"
      by (simp only: t setdefault_def None option.case)
    have w: "\<not> is_index p (Suc n)" if "p \<noteq> ?v" using that by (auto simp: is_index_def)
    show ?thesis
    proof (cases "p = ?v")
      case True
      with t' u [of i] show ?thesis by auto
    next
      case False
      have "0 \<le> i \<and> i \<le> int (Suc n) \<and> is_index p (nat i) \<longleftrightarrow> 0 \<le> i \<and> i \<le> int n \<and> is_index p (nat i)"
      proof (cases "i = int (Suc n)")
        case True
        then have "nat i = Suc n" by simp
        with w [OF False] True show ?thesis by simp
      qed auto
      then show ?thesis by (simp only: t' fun_upd_other [OF False] Suc.IH)
    qed
  qed
qed


lemma pm_table_length [simp]: "length (pm_forward (pm_table n)) = Suc n"
  by (simp add: pm_table_forward)

lemma pm_extend_table: "(pm_extend ^^ k) (pm_table n) = pm_table (k + n)"
  by (simp add: pm_table_def funpow_add)

lemma pm_ok_new: "pm_ok PointerMap"
  by (auto simp: pm_ok_def pm_table_def intro!: exI [of _ 0])

lemma pm_ok_table: "n < 2 ^ 16 \<Longrightarrow> pm_ok (pm_table n)"
  unfolding pm_ok_def by blast

lemma pm_grow_table:
  assumes "n < 2 ^ 16"
  shows "pm_grow index (pm_table n) =
    (if index \<ge> 2 ^ 16 then (Inl UnsupportedCapability, pm_table n) else (Inr (), pm_table (max n (nat index))))"
proof (cases "index \<ge> 2 ^ 16")
  case False
  have "nat (index + 1 - int (Suc n)) + n = max n (nat index)" by (simp add: max_def) linarith
  with False show ?thesis by (simp add: pm_grow_def wire_constants pm_extend_table del: of_nat_Suc)
qed (simp add: pm_grow_def wire_constants)

lemma pm_encode_spec:
  assumes "pm_ok pm" "0 \<le> i"
  obtains pm' where "pm_ok pm'"
    "pm_encode i pm = (if i < 2 ^ 16 then Inr (of_gf (gen ^ nat i)) else Inl UnsupportedCapability, pm')"
proof -
  obtain n where n: "n < 2 ^ 16" "pm = pm_table n" using assms(1) by (auto simp: pm_ok_def)
  show thesis
  proof (cases "i < 2 ^ 16")
    case True
    let ?m = "max n (nat i)"
    have "?m < 2 ^ 16" using True n(1) assms(2) by (auto simp: nat_less_iff)
    moreover have "pyindex (pm_forward (pm_table ?m)) i = Inr (of_gf (gen ^ nat i))"
      using assms(2) by (simp add: pyindex_def pm_table_forward nth_append del: upt_Suc) (auto simp: nth_append less_Suc_eq_le max_def nat_le_iff)
    ultimately show thesis
      using True n assms(2) by (intro that [of "pm_table ?m"]) (auto simp: pm_ok_def pm_encode_def pm_grow_table liftM_def intro!: exI [of _ ?m])
  next
    case False
    with n assms(1) show thesis by (intro that [of pm]) (auto simp: pm_encode_def pm_grow_table)
  qed
qed

lemma index_of_table:
  assumes "n < 2 ^ 16"
  shows "index_of p (pm_table n) =
    (case pm_reverse (pm_table n) p of Some i \<Rightarrow> (Inr i, pm_table n)
     | None \<Rightarrow> (case pm_reverse (pm_table 65535) p of
         None \<Rightarrow> (Inl UnsupportedCapability, pm_table 65535) | Some i \<Rightarrow> (Inr i, pm_table 65535)))"
  using assms by (cases "pm_reverse (pm_table n) p") (simp_all add: index_of_def pm_grow_table wire_constants max_def)

text \<open>
  C12. The index the host looks up for a pointer is one the endpoint accepts when it re-encodes
  it, and the least one; and the lookup fails, with \<open>UnsupportedCapability\<close>, exactly for the
  pointers no index below \<open>2^16\<close> encodes to, which the endpoint would refuse for every
  index. The tables stay tables of the powers of the generator.
\<close>

theorem index_of_verified:
  assumes "pm_ok pm"
  shows "\<exists>r pm'. index_of p pm = (r, pm') \<and> pm_ok pm' \<and>
    (case r of
       Inr i \<Rightarrow> verify_index i p = Inr (encode_index ASSUMPTIONS) \<and> (\<forall>j < i. \<forall>n. verify_index j p \<noteq> Inr n)
     | Inl e \<Rightarrow> e = UnsupportedCapability \<and> (\<forall>j n. verify_index j p \<noteq> Inr n))"
proof -
  obtain n where n: "n < 2 ^ 16" "pm = pm_table n" using assms by (auto simp: pm_ok_def)
  have found: "verify_index i p = Inr (encode_index ASSUMPTIONS) \<and> (\<forall>j < i. \<forall>n. verify_index j p \<noteq> Inr n)"
    if i: "pm_reverse (pm_table k) p = Some i" and k: "k < 2 ^ 16" for i k
  proof -
    have "0 \<le> i" "i < 2 ^ 16" and ix: "is_index p (nat i)" using i k by (auto simp: pm_table_reverse)
    moreover have "verify_index j p \<noteq> Inr c" if "j < i" for j c
    proof
      assume "verify_index j p = Inr c"
      then have j: "0 \<le> j" "of_gf (gen ^ nat j) = p" by (auto simp: verify_index_Inr)
      then have "nat j < nat i" using that by linarith
      with j(2) ix show False unfolding is_index_def by blast
    qed
    ultimately show ?thesis using ix
      by (simp add: verify_index_Inr is_index_def encode_index_def ASSUMPTIONS_def wire_constants)
  qed
  have "verify_index j p \<noteq> Inr c" if none: "pm_reverse (pm_table 65535) p = None" for j c
  proof
    assume "verify_index j p = Inr c"
    then have j: "0 \<le> j" "j < 2 ^ 16" "of_gf (gen ^ nat j) = p" by (auto simp: verify_index_Inr)
    from is_index_exists [OF j(3)] obtain i where "i \<le> nat j" "is_index p i" by blast
    with j have "pm_reverse (pm_table 65535) p = Some (int i)" by (simp add: pm_table_reverse)
    with none show False by simp
  qed
  moreover have "pm_ok (pm_table 65535)" "pm_ok (pm_table n)" by (rule pm_ok_table; use n in simp)+
  ultimately show ?thesis using n found [of n] found [of 65535]
    by (auto simp: index_of_table split: option.split)
qed

end
