(* ===== verification/Host_Examples.thy ===== *)
theory Host_Examples
  imports Host_Memory
begin

text \<open>Witnesses for the host memory: two deferred equalities that close in a chain.\<close>

definition ex_memory :: host_memory where
  "ex_memory = HostMemory [1 \<mapsto> 9] [(3, 2), (2, 1)]"

lemma resolve_deferred_least_witness:
  "case resolve_deferred ex_memory of
      (Inr open_pairs, m') \<Rightarrow> open_pairs = [] \<and> hm_cells m' 2 = Some 9 \<and> hm_cells m' 3 = Some 9
    | (Inl e, m') \<Rightarrow> False"
proof -
  have ok: "cells_ok ex_memory" by (simp add: cells_ok_def ex_memory_def HostMemory_def fits_def)
  have sol: "solves (hm_deferred ex_memory) ex_memory [1 \<mapsto> 9, 2 \<mapsto> 9, 3 \<mapsto> 9]"
    by (simp add: solves_def ex_memory_def HostMemory_def map_le_def)
  have c: "hm_cells ex_memory 1 = Some 9" "hm_deferred ex_memory = [(3, 2), (2, 1)]" by (simp_all add: ex_memory_def HostMemory_def)
  note r = resolve_deferred_least [OF ok]
  show ?thesis
  proof (cases "resolve_deferred ex_memory")
    case (Pair x m')
    show ?thesis
    proof (cases x)
      case (Inl e)
      with Pair r sol show ?thesis by auto
    next
      case (Inr s)
      with Pair r have s: "set s \<subseteq> {(3, 2), (2, 1)}" "\<forall>(t, l) \<in> set s. hm_cells m' t = None \<and> hm_cells m' l = None"
        "solves (hm_deferred ex_memory) ex_memory (hm_cells m')" by (simp_all add: c)
      then have v: "hm_cells m' 1 = Some 9" "hm_cells m' 2 = Some 9" "hm_cells m' 3 = Some 9"
        by (auto simp: solves_def c map_le_def) (metis c(1) domI)+
      with s have "s = []" by (cases s) auto
      with Pair Inr v show ?thesis by simp
    qed
  qed
qed

lemma index_of_verified_witness:
  "\<exists>r pm'. index_of 2 PointerMap = (r, pm') \<and> pm_ok pm' \<and>
    (case r of
       Inr i \<Rightarrow> verify_index i 2 = Inr (encode_index ASSUMPTIONS) \<and> (\<forall>j < i. \<forall>n. verify_index j 2 \<noteq> Inr n)
     | Inl e \<Rightarrow> e = UnsupportedCapability \<and> (\<forall>j n. verify_index j 2 \<noteq> Inr n))"
  by (rule index_of_verified) (rule pm_ok_new)


lemma field_inverse_accepted_witness:
  "case field_inverse 2 of
      Inr w \<Rightarrow> fits 128 w \<and> (\<forall>u. fits 128 u \<longrightarrow> (field_mul 2 u = 1 \<longleftrightarrow> u = w))
    | Inl e \<Rightarrow> e = ZeroDivisionError \<and> (\<forall>u. fits 128 u \<longrightarrow> field_mul 2 u \<noteq> 1)"
  by (rule field_inverse_accepted) (simp add: fits_def)

end
