(* ===== verification/Field_Models.thy ===== *)
theory Field_Models
  imports Lsc_Transition
begin

text \<open>
  The other field multipliers of the repository, which the models of the packet executor, of
  the scalar oracle, of the streaming ALU and of LSC-1u carry for themselves: bit-serial with
  one reduction per step, or a carry-less product followed by long reduction, at any width.
  All of them are the multiplication of the transaction model.
\<close>

section \<open>The reference models of sim/model.py\<close>

definition mul_by_x :: "int \<Rightarrow> nat \<Rightarrow> int \<Rightarrow> int res" where
  "mul_by_x v width reduction_low =
     (if v < 0 \<or> v \<ge> push_bit width 1 then Inl ValueError
      else
        let carry = drop_bit (width - 1) v AND 1;
            shifted = push_bit 1 v AND (push_bit width 1 - 1)
        in Inr (shifted XOR (if carry \<noteq> 0 then reduction_low else 0)))"

text \<open>The loop of \<open>gf_mul_bitserial\<close> from bit \<open>i\<close> on, for \<open>n\<close> more bits.\<close>

fun bitserial_loop :: "nat \<Rightarrow> nat \<Rightarrow> int \<Rightarrow> nat \<Rightarrow> int \<Rightarrow> int \<Rightarrow> int \<Rightarrow> int res" where
  "bitserial_loop 0 i b width reduction_low acc shifted = Inr acc"
| "bitserial_loop (Suc n) i b width reduction_low acc shifted =
     (let acc = (if drop_bit i b AND 1 \<noteq> 0 then acc XOR shifted else acc) in
      bindE (mul_by_x shifted width reduction_low) (\<lambda>shifted.
        bitserial_loop n (i + 1) b width reduction_low acc shifted))"

definition gf_mul_bitserial :: "int \<Rightarrow> int \<Rightarrow> nat \<Rightarrow> int \<Rightarrow> int res" where
  "gf_mul_bitserial a b width reduction_low =
     (let mask = push_bit width 1 - 1 in
      if \<not> (0 \<le> a \<and> a \<le> mask \<and> 0 \<le> b \<and> b \<le> mask) then Inl ValueError
      else bitserial_loop width 0 b width reduction_low 0 a)"

text \<open>
  The two loops that \<open>gf_mul_polynomial\<close>, the oracle's and the packet executor's \<open>multiply\<close>
  share: the carry-less product over the low \<open>n\<close> bits, and the long reduction that clears the
  degrees \<open>w + n - 1\<close> down to \<open>w\<close>.
\<close>

fun carryless :: "nat \<Rightarrow> int \<Rightarrow> int \<Rightarrow> int" where
  "carryless 0 a b = 0"
| "carryless (Suc n) a b =
     (let product = carryless n a b in if drop_bit n b AND 1 \<noteq> 0 then product XOR push_bit n a else product)"

fun long_reduce :: "nat \<Rightarrow> nat \<Rightarrow> int \<Rightarrow> int \<Rightarrow> int" where
  "long_reduce 0 width modulus product = product"
| "long_reduce (Suc n) width modulus product =
     long_reduce n width modulus
       (if drop_bit (width + n) product AND 1 \<noteq> 0 then product XOR push_bit n modulus else product)"

definition gf_mul_polynomial :: "int \<Rightarrow> int \<Rightarrow> nat \<Rightarrow> int \<Rightarrow> int res" where
  "gf_mul_polynomial a b width reduction_low =
     (let mask = push_bit width 1 - 1 in
      if \<not> (0 \<le> a \<and> a \<le> mask \<and> 0 \<le> b \<and> b \<le> mask) then Inl ValueError
      else
        let modulus = push_bit width 1 OR reduction_low
        in Inr (long_reduce (width - 1) width modulus (carryless width a b) AND mask))"

section \<open>The model of LSC-1u\<close>

fun lsc1u_loop :: "nat \<Rightarrow> int \<Rightarrow> int \<Rightarrow> int \<Rightarrow> int" where
  "lsc1u_loop 0 result a b = result"
| "lsc1u_loop (Suc n) result a b =
     (let result = (if b AND 1 \<noteq> 0 then result XOR a else result);
          b = drop_bit 1 b;
          a = (push_bit 1 a AND (push_bit 128 1 - 1)) XOR (if drop_bit 127 a \<noteq> 0 then 0x87 else 0)
      in lsc1u_loop n result a b)"

definition gf128_mul :: "int \<Rightarrow> int \<Rightarrow> int" where
  "gf128_mul a b = lsc1u_loop 128 0 a b"

definition lsc1u_execute :: "int \<Rightarrow> bytes \<Rightarrow> bytes res" where
  "lsc1u_execute opcode payload =
     (if opcode = 0x03 \<and> length payload = 16 then Inr payload
      else if opcode = 0x01 \<and> length payload = 32 then
        Inr (map (\<lambda>k. payload ! (2 * k) XOR payload ! (2 * k + 1)) [0..<16])
      else if opcode = 0x02 \<and> length payload = 32 then
        (let a = le_int (take 16 payload); b = le_int (drop 16 payload)
         in Inr (to_le 16 (gf128_mul a b)))
      else Inl ValueError)"

section \<open>Long reduction is repeated reduction by one degree\<close>

text \<open>Multiplication by \<open>x\<close> modulo \<open>x^width + low\<close>, without the range check.\<close>

definition xtimes :: "nat \<Rightarrow> int \<Rightarrow> int \<Rightarrow> int" where
  "xtimes w low v = take_bit w (push_bit 1 v) XOR (if bit v (w - 1) then low else 0)"

lemma fits_xtimes: "fits w low \<Longrightarrow> fits w (xtimes w low v)"
  by (simp add: xtimes_def)

lemma mask_take_bit: "v AND (push_bit w 1 - 1) = take_bit w (v :: int)"
  by (simp add: take_bit_eq_mask mask_eq_exp_minus_1)

lemma mul_by_x_eq: "fits w v \<Longrightarrow> mul_by_x v w low = Inr (xtimes w low v)"
  unfolding mul_by_x_def mask_take_bit bit_test Let_def xtimes_def by (auto simp: fits_def)

lemma bit_double [simp]: "bit (v * 2 :: int) k \<longleftrightarrow> 0 < k \<and> bit v (k - 1)"
  using bit_push_bit_iff [of 1 v k] by (auto simp: Suc_le_eq)

lemma bit_fits: "fits n v \<Longrightarrow> n \<le> k \<Longrightarrow> \<not> bit v k"
  using fits_bit by fastforce

lemma fits_push_bit: "fits n v \<Longrightarrow> fits (k + n) (push_bit k v)"
  by (auto simp: fits_def push_bit_eq_mult power_add mult.commute)

definition modulus_of :: "nat \<Rightarrow> int \<Rightarrow> int" where
  "modulus_of w low = push_bit w 1 OR low"

lemma bit_modulus: "fits w low \<Longrightarrow> bit (modulus_of w low) k \<longleftrightarrow> k = w \<or> bit low k"
  by (auto simp: modulus_of_def bit_simps)

lemma fits_modulus: "fits w low \<Longrightarrow> fits (Suc w) (modulus_of w low)"
  by (rule fitsI_bit) (auto simp: bit_modulus dest: fits_bit, simp add: modulus_of_def fits_def)

text \<open>One degree of the long reduction.\<close>

definition clear_degree :: "nat \<Rightarrow> nat \<Rightarrow> int \<Rightarrow> int \<Rightarrow> int" where
  "clear_degree w n low p = (if bit p (w + n) then p XOR push_bit n (modulus_of w low) else p)"

lemma long_reduce_Suc: "long_reduce (Suc n) w (modulus_of w low) p = long_reduce n w (modulus_of w low) (clear_degree w n low p)"
  by (simp add: clear_degree_def bit_test)

lemma clear_degree_fits:
  assumes "fits w low" "fits (Suc (w + n)) p"
  shows "fits (w + n) (clear_degree w n low p)"
proof (rule fitsI_bit)
  show "0 \<le> clear_degree w n low p"
    using assms fits_modulus [OF assms(1)] by (auto simp: clear_degree_def fits_def)
  fix k assume b: "bit (clear_degree w n low p) k"
  have "k < Suc (w + n)"
    using b fits_bit [OF assms(2), of k] fits_bit [OF fits_modulus [OF assms(1)], of "k - n"]
    by (auto simp: clear_degree_def bit_simps split: if_splits)
  moreover have "k \<noteq> w + n" using b by (auto simp: clear_degree_def bit_simps bit_modulus assms(1) split: if_splits)
  ultimately show "k < w + n" by simp
qed

lemma clear_degree_id: "fits (w + n) p \<Longrightarrow> clear_degree w n low p = p"
  by (simp add: clear_degree_def bit_fits)

lemma clear_degree_xor: "clear_degree w n low (p XOR q) = clear_degree w n low p XOR clear_degree w n low q"
  by (rule bit_eqI) (auto simp: clear_degree_def bit_simps)

lemma long_reduce_xor:
  "long_reduce n w (modulus_of w low) (p XOR q) = long_reduce n w (modulus_of w low) p XOR long_reduce n w (modulus_of w low) q"
  by (induction n arbitrary: p q) (simp_all add: long_reduce_Suc clear_degree_xor del: long_reduce.simps(2))

lemma fits_mono': "fits m v \<Longrightarrow> m \<le> n \<Longrightarrow> fits n v"
  by (rule fits_mono)

lemma long_reduce_id: "fits w p \<Longrightarrow> long_reduce n w (modulus_of w low) p = p"
  by (induction n) (simp_all add: long_reduce_Suc clear_degree_id fits_mono del: long_reduce.simps(2))

lemma clear_degree_push: "clear_degree w (Suc n) low (push_bit 1 p) = push_bit 1 (clear_degree w n low p)"
  by (rule bit_eqI) (auto simp: clear_degree_def bit_simps)

lemma long_reduce_push:
  assumes "fits w low" "0 < w"
  shows "fits (w + n) p \<Longrightarrow>
    long_reduce (Suc n) w (modulus_of w low) (push_bit 1 p) = xtimes w low (long_reduce n w (modulus_of w low) p)"
proof (induction n arbitrary: p)
  case 0
  have "clear_degree w 0 low (push_bit 1 p) = xtimes w low p"
  proof (rule bit_eqI)
    fix k
    show "bit (clear_degree w 0 low (push_bit 1 p)) k = bit (xtimes w low p) k"
      using assms 0 fits_bit [of w p "k - 1"] fits_bit [OF assms(1), of k]
      by (cases "k = w"; cases "k < w") (auto simp: clear_degree_def xtimes_def bit_simps bit_modulus)
  qed
  then show ?case by (simp add: long_reduce_Suc del: long_reduce.simps(2)) 
next
  case (Suc n)
  then have "fits (w + n) (clear_degree w n low p)" by (intro clear_degree_fits assms) simp
  from Suc.IH [OF this] show ?case
    by (simp only: long_reduce_Suc [of "Suc n"] clear_degree_push) (simp only: long_reduce_Suc [of n w low p])
qed

lemma long_reduce_push_bit:
  assumes "fits w low" "0 < w" "fits w a"
  shows "i \<le> n \<Longrightarrow> long_reduce n w (modulus_of w low) (push_bit i a) = (xtimes w low ^^ i) a"
proof (induction i arbitrary: n)
  case 0
  then show ?case by (simp add: long_reduce_id assms)
next
  case (Suc i)
  then obtain m where m: "n = Suc m" "i \<le> m" by (cases n) auto
  have "fits (w + m) (push_bit i a)" using fits_push_bit [OF assms(3), of i] m(2) fits_mono by (metis add.commute add_le_mono1)
  from long_reduce_push [OF assms(1,2) this] Suc.IH [OF m(2)] m(1) show ?case
    by (simp add: del: long_reduce.simps(2))
qed

text \<open>The sum both algorithms compute.\<close>

fun xtimes_sum :: "nat \<Rightarrow> int \<Rightarrow> int \<Rightarrow> int \<Rightarrow> nat \<Rightarrow> int" where
  "xtimes_sum w low a b 0 = 0"
| "xtimes_sum w low a b (Suc n) = xtimes_sum w low a b n XOR (if bit b n then (xtimes w low ^^ n) a else 0)"

lemma fits_xtimes_pow: "fits w low \<Longrightarrow> fits w a \<Longrightarrow> fits w ((xtimes w low ^^ n) a)"
  by (induction n) (simp_all add: fits_xtimes)

lemma fits_xtimes_sum: "fits w low \<Longrightarrow> fits w a \<Longrightarrow> fits w (xtimes_sum w low a b n)"
  by (induction n) (simp_all add: fits_xtimes_pow)

lemma long_reduce_carryless:
  assumes "fits w low" "0 < w" "fits w a" "n \<le> Suc m"
  shows "long_reduce m w (modulus_of w low) (carryless n a b) = xtimes_sum w low a b n"
  using assms(4)
proof (induction n)
  case 0
  then show ?case by (simp add: long_reduce_id)
next
  case (Suc n)
  then show ?case using long_reduce_push_bit [OF assms(1-3), of n m]
    by (simp add: bit_test long_reduce_xor del: long_reduce.simps(2))
qed

lemma bitserial_loop_sum:
  assumes "fits w low" "fits w a"
  shows "bitserial_loop n i b w low (xtimes_sum w low a b i) ((xtimes w low ^^ i) a) = Inr (xtimes_sum w low a b (i + n))"
proof (induction n arbitrary: i)
  case (Suc n)
  have "(if drop_bit i b AND 1 \<noteq> 0 then xtimes_sum w low a b i XOR (xtimes w low ^^ i) a else xtimes_sum w low a b i)
      = xtimes_sum w low a b (i + 1)" by (simp add: bit_test)
  moreover have "mul_by_x ((xtimes w low ^^ i) a) w low = Inr ((xtimes w low ^^ (i + 1)) a)"
    by (simp add: mul_by_x_eq fits_xtimes_pow assms)
  ultimately show ?case using Suc.IH [of "i + 1"] by (simp only: bitserial_loop.simps Let_def bindE_simps) simp
qed simp


section \<open>The equivalences\<close>

lemma in_range: "0 \<le> a \<and> a \<le> push_bit w 1 - 1 \<longleftrightarrow> fits w (a :: int)"
  by (auto simp: fits_def)

lemma gf_mul_bitserial_eq:
  "fits w low \<Longrightarrow> gf_mul_bitserial a b w low =
     (if fits w a \<and> fits w b then Inr (xtimes_sum w low a b w) else Inl ValueError)"
  using bitserial_loop_sum [of w low a w 0 b] in_range [of a w] in_range [of b w]
  by (auto simp: gf_mul_bitserial_def Let_def)

lemma gf_mul_polynomial_eq:
  assumes "fits w low" "0 < w"
  shows "gf_mul_polynomial a b w low =
     (if fits w a \<and> fits w b then Inr (xtimes_sum w low a b w) else Inl ValueError)"
proof -
  have "long_reduce (w - 1) w (push_bit w 1 OR low) (carryless w a b) AND (push_bit w 1 - 1) = xtimes_sum w low a b w"
    if "fits w a"
  proof -
    have "long_reduce (w - 1) w (modulus_of w low) (carryless w a b) = xtimes_sum w low a b w"
      by (rule long_reduce_carryless) (use assms that in simp_all)
    moreover have "take_bit w (xtimes_sum w low a b w) = xtimes_sum w low a b w"
      using fits_xtimes_sum [OF assms(1) that, of b w] by (simp only: fits_take_bit_iff)
    ultimately show ?thesis by (simp only: modulus_of_def [symmetric] mask_take_bit)
  qed
  then show ?thesis using in_range [of a w] in_range [of b w] by (simp only: gf_mul_polynomial_def Let_def) auto
qed

text \<open>
  C10. The bit-serial multiplier, the algorithm of the hardware, agrees with the independent
  carry-less product followed by long reduction: for every field width, every reduction
  polynomial of that degree and all operands, the two return the same product, and they
  reject the same operands.
\<close>

theorem bitserial_is_polynomial:
  assumes "0 < width" "fits width reduction_low"
  shows "gf_mul_bitserial a b width reduction_low = gf_mul_polynomial a b width reduction_low"
  using gf_mul_bitserial_eq [OF assms(2)] gf_mul_polynomial_eq [OF assms(2,1)] by simp

lemma xtimes_128: "fits 128 v \<Longrightarrow> xtimes 128 0x87 v = field_xtime v"
proof -
  assume v: "fits 128 v"
  have "0 \<le> drop_bit 127 v" "drop_bit 127 v < 2" using v by (auto simp: fits_def drop_bit_eq_div div_less_iff_less_mult)
  then have "drop_bit 127 v = 0 \<or> drop_bit 127 v = 1" by linarith
  then have "drop_bit 127 v \<noteq> 0 \<longleftrightarrow> bit v 127" by (auto simp: bit_iff_odd_drop_bit)
  then show ?thesis
    by (auto simp: xtimes_def field_xtime_def Let_def and_MASK128 REDUCTION_LOW_def)
qed

lemma xtimes_sum_128:
  assumes "fits 128 a"
  shows "xtimes_sum 128 0x87 a b 128 = field_mul a b"
proof -
  have p: "(xtimes 128 0x87 ^^ n) a = of_gf ((xt ^^ n) (to_gf a))" for n
  proof (induction n)
    case (Suc n)
    have "xtimes 128 0x87 (of_gf ((xt ^^ n) (to_gf a))) = field_xtime (of_gf ((xt ^^ n) (to_gf a)))"
      by (rule xtimes_128) simp
    with Suc show ?case by (simp add: field_xtime_of_gf)
  qed (simp add: assms)
  have "xtimes_sum 128 0x87 a b n = of_gf (\<Sum>i<n. if bit b i then (xt ^^ i) (to_gf a) else 0)" for n
    by (induction n) (simp_all add: p of_gf_xor)
  moreover have "field_mul a b = of_gf (\<Sum>i<128. if bit b i then (xt ^^ i) (to_gf a) else 0)"
    unfolding field_mul_def and_MASK128 of_to_gf [symmetric] field_mul_fold by simp
  ultimately show ?thesis by simp
qed

lemma long_multiply_field_mul:
  assumes "fits 128 a"
  shows "long_reduce 127 128 (push_bit 128 1 OR 0x87) (carryless 128 a b) = field_mul a b"
proof -
  have "fits 128 (0x87 :: int)" by (simp add: fits_def)
  then have "long_reduce 127 128 (modulus_of 128 0x87) (carryless 128 a b) = xtimes_sum 128 0x87 a b 128"
    by (rule long_reduce_carryless) (simp_all add: assms)
  then show ?thesis by (simp only: modulus_of_def xtimes_sum_128 [OF assms])
qed

lemma lsc1u_loop_eq:
  "fits 128 a \<Longrightarrow> lsc1u_loop n (of_gf r) a (drop_bit i b) =
     of_gf (r + (\<Sum>k<n. if bit b (i + k) then (xt ^^ k) (to_gf a) else 0))"
proof (induction n arbitrary: r a i)
  case (Suc n)
  have x: "(push_bit 1 a AND (push_bit 128 1 - 1)) XOR (if drop_bit 127 a \<noteq> 0 then 0x87 else 0) = field_xtime a"
    by (simp add: field_xtime_def Let_def MASK128_def REDUCTION_LOW_def)
  have a: "a = of_gf (to_gf a)" using Suc.prems by simp
  have f: "fits 128 (field_xtime a)" using Suc.prems by (simp add: field_xtime_gf)
  have g: "to_gf (field_xtime a) = xt (to_gf a)" using Suc.prems by (simp add: field_xtime_gf xt_eq_gen)
  have b: "(if drop_bit i b AND 1 \<noteq> 0 then of_gf r XOR a else of_gf r) = of_gf (if bit b i then r + to_gf a else r)"
    by (subst a) (simp add: bit_test of_gf_xor)
  have d: "drop_bit 1 (drop_bit i b) = drop_bit (i + 1) b" by (simp add: add.commute)
  have s: "(\<Sum>k<Suc n. if bit b (i + k) then (xt ^^ k) (to_gf a) else 0) =
      (if bit b i then to_gf a else 0) + (\<Sum>k<n. if bit b (i + 1 + k) then (xt ^^ k) (xt (to_gf a)) else 0)"
    by (simp only: sum.lessThan_Suc_shift) (simp add: funpow_Suc_right del: funpow.simps cong: if_cong)
  show ?case
    using Suc.IH [OF f, of "if bit b i then r + to_gf a else r" "i + 1"]
    by (simp only: lsc1u_loop.simps Let_def x b d g s) (simp add: add.assoc)
qed simp

lemma multipliers_128:
  assumes "fits 128 a" "fits 128 b"
  shows "gf_mul_bitserial a b 128 REDUCTION_LOW = Inr (field_mul a b) \<and>
    gf_mul_polynomial a b 128 REDUCTION_LOW = Inr (field_mul a b) \<and> gf128_mul a b = field_mul a b"
proof -
  have l: "fits 128 (0x87 :: int)" by (simp add: fits_def)
  have "gf128_mul a b = of_gf (\<Sum>k<128. if bit b k then (xt ^^ k) (to_gf a) else 0)"
    using lsc1u_loop_eq [OF assms(1), of 128 0 0 b] by (simp only: gf128_mul_def of_gf_01 drop_bit_0 id_apply) simp
  moreover have "field_mul a b = of_gf (\<Sum>k<128. if bit b k then (xt ^^ k) (to_gf a) else 0)"
    unfolding field_mul_def and_MASK128 of_to_gf [symmetric] field_mul_fold by simp
  ultimately show ?thesis
    using assms gf_mul_bitserial_eq [OF l] gf_mul_polynomial_eq [OF l] xtimes_sum_128 [OF assms(1), of b]
    by (simp add: REDUCTION_LOW_def)
qed

text \<open>
  The three multipliers the repository carries besides \<open>field_mul\<close> compute it on every pair
  of field elements: the two of \<open>sim/model.py\<close> at their default width and polynomial, and the
  one of the LSC-1u model.
\<close>

theorem multipliers_agree:
  assumes "fits 128 a" "fits 128 b"
  shows "gf_mul_bitserial a b 128 REDUCTION_LOW = Inr (field_mul a b) \<and>
    gf_mul_polynomial a b 128 REDUCTION_LOW = Inr (field_mul a b) \<and> gf128_mul a b = field_mul a b"
  using assms by (rule multipliers_128)

lemma bitserial_is_polynomial_witness:
  "gf_mul_bitserial 5 6 4 3 = gf_mul_polynomial 5 6 4 3 \<and> gf_mul_bitserial 5 6 4 3 = Inr 13"
proof
  show "gf_mul_bitserial 5 6 4 3 = gf_mul_polynomial 5 6 4 3"
    by (rule bitserial_is_polynomial) (simp_all add: fits_def)
  show "gf_mul_bitserial 5 6 4 3 = Inr 13" by code_simp
qed

lemma multipliers_agree_witness:
  "gf_mul_bitserial 2 3 128 REDUCTION_LOW = Inr (field_mul 2 3) \<and>
   gf_mul_polynomial 2 3 128 REDUCTION_LOW = Inr (field_mul 2 3) \<and> gf128_mul 2 3 = field_mul 2 3"
  by (rule multipliers_agree) (simp_all add: fits_def)

end
