(* ===== verification/Gf_Order.thy ===== *)
theory Gf_Order
  imports Gf_Inverse
begin

text \<open>
  The powers of the generator that the machine uses as pointers, \<open>gen^0\<close> to
  \<open>gen^65535\<close>, are distinct: a pointer names one index. The order of \<open>gen\<close> divides
  \<open>2^128 - 1 = (2^64 - 1) (2^64 + 1)\<close> and does not divide \<open>2^64 - 1\<close>, and \<open>2^64 + 1\<close> has no
  divisor below \<open>2^16\<close>.
\<close>

section \<open>The divisors of 2^64 + 1\<close>

definition F6 :: nat where "F6 = 2 ^ 64 + 1"

text \<open>The least divisor above one behaves as a prime number.\<close>

definition least_divisor :: "nat \<Rightarrow> bool" where
  "least_divisor p \<longleftrightarrow> 1 < p \<and> p dvd F6 \<and> (\<forall>q. 1 < q \<and> q dvd F6 \<longrightarrow> p \<le> q)"

lemma least_divisor_coprime:
  assumes p: "least_divisor p" and x: "0 < x" "x < p"
  shows "coprime p x"
proof (rule ccontr)
  assume "\<not> coprime p x"
  then have g: "gcd p x \<noteq> 1" by (simp add: coprime_iff_gcd_eq_1)
  moreover have "gcd p x \<noteq> 0" using x by simp
  ultimately have "1 < gcd p x" by linarith
  moreover have "gcd p x dvd F6" using p by (meson dvd_trans gcd_dvd1 least_divisor_def)
  ultimately have "p \<le> gcd p x" using p by (simp add: least_divisor_def)
  moreover have "gcd p x \<le> x" using x by (simp add: gcd_le2_nat)
  ultimately show False using x by simp
qed

lemma least_divisor_fact: "least_divisor p \<Longrightarrow> n < p \<Longrightarrow> coprime p (fact n :: nat)"
  by (induction n) (auto intro: least_divisor_coprime simp: coprime_mult_right_iff simp del: mult_Suc)

lemma least_divisor_binomial:
  assumes p: "least_divisor p" and k: "0 < k" "k < p"
  shows "p dvd p choose k"
proof -
  have "p > 0" using p by (simp add: least_divisor_def)
  then have "p dvd fact p" by (simp add: dvd_fact)
  moreover have "fact k * fact (p - k) * (p choose k) = (fact p :: nat)" using k by (simp add: binomial_fact_lemma)
  ultimately have "p dvd fact k * fact (p - k) * (p choose k)" by simp
  moreover have "coprime p (fact k * fact (p - k) :: nat)"
    using least_divisor_fact [OF p] k by simp
  ultimately show ?thesis by (simp add: coprime_dvd_mult_right_iff)
qed

lemma least_divisor_fermat:
  assumes p: "least_divisor p"
  shows "p dvd 2 ^ p - 2"
proof -
  have p1: "1 < p" using p by (simp add: least_divisor_def)
  have s: "(2::nat) ^ p = (\<Sum>k\<le>p. p choose k)" by (rule choose_row_sum [symmetric])
  have "{..p} = insert 0 (insert p {0<..<p})" using p1 by auto
  then have "(\<Sum>k\<le>p. p choose k) = 2 + (\<Sum>k\<in>{0<..<p}. p choose k)" using p1 by simp
  with s have "2 ^ p - 2 = (\<Sum>k\<in>{0<..<p}. p choose k)" by simp
  moreover have "p dvd (\<Sum>k\<in>{0<..<p}. p choose k)"
    by (rule dvd_sum) (use least_divisor_binomial [OF p] in auto)
  ultimately show ?thesis by simp
qed

lemma F6_odd: "odd F6"
  by (simp add: F6_def)

lemma pow_mod_mult: "2 ^ a mod p = (1::nat) \<Longrightarrow> 1 < p \<Longrightarrow> 2 ^ (a * x) mod p = 1"
  by (metis mod_less power_mod power_mult power_one)

lemma pow_mod_gcd:
  assumes "2 ^ a mod p = (1::nat)" "2 ^ b mod p = 1" "a \<noteq> 0" "1 < p"
  shows "2 ^ gcd a b mod p = 1"
proof -
  obtain x y where xy: "a * x = b * y + gcd a b" using bezout_nat [OF assms(3)] by blast
  have "1 = 2 ^ (b * y) * 2 ^ gcd a b mod p"
    using pow_mod_mult [OF assms(1,4), of x] by (simp add: xy power_add)
  also have "\<dots> = 1 * 2 ^ gcd a b mod p"
    using pow_mod_mult [OF assms(2,4), of y] by (metis mod_mult_left_eq)
  finally show ?thesis by simp
qed

lemma numeral_power_128: "(128::nat) = 2 ^ 7"
  by simp

lemma least_divisor_128:
  assumes p: "least_divisor p"
  shows "128 dvd p - 1"
proof -
  have p1: "1 < p" "p dvd F6" using p by (simp_all add: least_divisor_def)
  then have odd: "odd p" using F6_odd dvd_trans by blast
  have "2 ^ p - 2 = 2 * ((2::nat) ^ (p - 1) - 1)" using p1 by (cases p) simp_all
  then have "p dvd 2 * ((2::nat) ^ (p - 1) - 1)" using least_divisor_fermat [OF p] by simp
  moreover have "coprime p 2" using odd by simp
  ultimately have "p dvd (2::nat) ^ (p - 1) - 1" by (simp add: coprime_dvd_mult_right_iff)
  then have m1: "2 ^ (p - 1) mod p = 1" using p1 by (metis One_nat_def Suc_leI mod_less mod_eq_dvd_iff_nat zero_less_numeral zero_less_power)
  have "F6 dvd (2::nat) ^ 128 - 1" unfolding F6_def by simp
  then have "p dvd (2::nat) ^ 128 - 1" using p1 dvd_trans by blast
  then have m2: "2 ^ 128 mod p = 1" using p1 by (metis One_nat_def Suc_leI mod_less mod_eq_dvd_iff_nat zero_less_numeral zero_less_power)
  define g where "g = gcd 128 (p - 1)"
  have m3: "2 ^ g mod p = 1" unfolding g_def by (rule pow_mod_gcd [OF m2 m1]) (use p1 in simp_all)
  have "g dvd 128" by (simp add: g_def)
  then obtain h where h: "128 = g * h" by blast
  have "h = 1"
  proof (rule ccontr)
    assume "h \<noteq> 1"
    have "even h"
    proof (rule ccontr)
      assume "odd h"
      then have "coprime h (2 ^ 7)" by (simp only: coprime_power_right_iff) simp
      moreover have "h dvd 2 ^ 7" using h by (metis dvd_triv_right numeral_power_128)
      ultimately show False using \<open>h \<noteq> 1\<close> by (meson coprime_common_divisor dvd_refl nat_dvd_1_iff_1)
    qed
    then obtain k where "h = 2 * k" by blast
    with h have "64 = g * k" by simp
    then have "2 ^ 64 mod p = 1" using pow_mod_mult [OF m3 p1(1), of k] by simp
    then have "F6 mod p = 2 mod p" unfolding F6_def by (metis mod_add_left_eq one_add_one)
    then have "p dvd 2" using p1 by (simp add: mod_0_imp_dvd dvd_imp_mod_0)
    then have "p \<le> 2" by (simp add: dvd_imp_le)
    with p1 odd show False by (auto simp: le_Suc_eq numeral_2_eq_2)
  qed
  with h have "g = 128" by simp
  then show ?thesis unfolding g_def by (metis gcd_dvd2)
qed

text \<open>That leaves few candidates below \<open>2^16\<close>, and none of them divides.\<close>

fun candidates :: "nat \<Rightarrow> int \<Rightarrow> int list" where
  "candidates 0 p = []"
| "candidates (Suc n) p = p # candidates n (p + 128)"

fun none_divides :: "int list \<Rightarrow> bool" where
  "none_divides [] \<longleftrightarrow> True"
| "none_divides (p # ps) \<longleftrightarrow> (if 18446744073709551617 mod p = 0 then False else none_divides ps)"

lemma candidates_checked_1: "none_divides (candidates 171 129)"
  by code_simp

lemma candidates_checked_2: "none_divides (candidates 170 22017)"
  by code_simp

lemma candidates_checked_3: "none_divides (candidates 170 43777)"
  by code_simp

lemma none_divides_D: "none_divides ps \<Longrightarrow> p \<in> set ps \<Longrightarrow> 18446744073709551617 mod p \<noteq> 0"
  by (induction ps) (auto split: if_splits)

lemma candidates_in: "i < n \<Longrightarrow> p + 128 * int i \<in> set (candidates n p)"
proof (induction n p arbitrary: i rule: candidates.induct)
  case (2 n p)
  show ?case using "2.IH" [of "i - 1"] "2.prems" by (cases i) (auto simp: algebra_simps)
qed simp

lemma no_candidate:
  assumes "1 \<le> m" "m < 512"
  shows "18446744073709551617 mod (128 * int m + 1) \<noteq> 0"
proof -
  consider "m < 172" | "172 \<le> m" "m < 342" | "342 \<le> m" "m < 512" using assms by linarith
  then have "128 * int m + 1 \<in> set (candidates 171 129) \<union> set (candidates 170 22017) \<union> set (candidates 170 43777)"
  proof cases
    case 1
    then show ?thesis using candidates_in [of "m - 1" 171 129] assms by (auto simp: of_nat_diff add.commute)
  next
    case 2
    then show ?thesis using candidates_in [of "m - 172" 170 22017] by (auto simp: of_nat_diff add.commute)
  next
    case 3
    then show ?thesis using candidates_in [of "m - 342" 170 43777] by (auto simp: of_nat_diff add.commute)
  qed
  then show ?thesis
    by (elim UnE) (erule none_divides_D [OF candidates_checked_1] none_divides_D [OF candidates_checked_2]
        none_divides_D [OF candidates_checked_3])+
qed

lemma F6_divisor:
  assumes "1 < q" "q dvd F6"
  shows "65536 \<le> q"
proof -
  define p where "p = (LEAST q. 1 < q \<and> q dvd F6)"
  have p: "least_divisor p" unfolding least_divisor_def p_def
    using LeastI [of "\<lambda>q. 1 < q \<and> q dvd F6" q] Least_le [of "\<lambda>q. 1 < q \<and> q dvd F6"] assms by simp
  have "65536 \<le> p"
  proof (rule ccontr)
    assume small: "\<not> 65536 \<le> p"
    obtain m where "p - 1 = 128 * m" using least_divisor_128 [OF p] by blast
    moreover have "1 < p" "p dvd F6" using p by (simp_all add: least_divisor_def)
    ultimately have "p = 128 * m + 1" "1 \<le> m" "m < 512" using small by auto
    with no_candidate [of m] have "18446744073709551617 mod int p \<noteq> 0" by (simp add: add.commute)
    moreover have "int F6 mod int p = 0" using \<open>p dvd F6\<close> by (simp flip: zmod_int)
    ultimately show False by (simp add: F6_def)
  qed
  also have "p \<le> q" using p assms by (simp add: least_divisor_def)
  finally show ?thesis .
qed

section \<open>The order of the generator\<close>

lemma squares_64: "length (squares 64 genl) = 128" "squares 64 genl \<noteq> genl"
  by code_simp+

lemma length_genl: "length genl = 128"
  by (simp add: genl_def)

lemma gen_frob_64: "gen ^ 2 ^ 64 \<noteq> gen"
proof
  assume "gen ^ 2 ^ 64 = gen"
  then have e: "ev (squares 64 genl) = ev genl" by (simp add: ev_squares ev_genl)
  obtain j where j: "j < 128" "squares 64 genl ! j \<noteq> genl ! j"
    using squares_64 nth_equalityI [of "squares 64 genl" genl] length_genl by force
  then show False using e gbit_ev squares_64(1) length_genl by metis
qed

lemma gen_nonzero: "gen \<noteq> 0"
proof
  assume g: "gen = 0"
  have "gen ^ 2 ^ 64 = gen" unfolding g by (rule zero_power) simp
  with gen_frob_64 show False by blast
qed

lemma gen_pow_pred: "gen ^ 2 ^ n = gen \<Longrightarrow> gen ^ (2 ^ n - 1) = 1"
proof -
  assume g: "gen ^ 2 ^ n = gen"
  have "gen * gen ^ (2 ^ n - 1) = gen ^ Suc (2 ^ n - 1)" by (rule power_Suc [symmetric])
  also have "Suc (2 ^ n - 1) = 2 ^ n" by simp
  also have "gen ^ 2 ^ n = gen * 1" using g by simp
  finally show ?thesis using gen_nonzero by (metis mult_left_cancel)
qed

lemma gen_order:
  assumes k: "0 < k" "k < 65536"
  shows "gen ^ k \<noteq> 1"
proof
  assume g: "gen ^ k = 1"
  have g128: "gen ^ (2 ^ 128 - 1) = 1" by (rule gen_pow_pred [OF gen_frob])
  define d where "d = gcd k (2 ^ 128 - 1)"
  obtain x y where "k * x = (2 ^ 128 - 1) * y + d" using bezout_nat [of k] k d_def by blast
  then have "gen ^ (k * x) = gen ^ ((2 ^ 128 - 1) * y) * gen ^ d" by (simp only: power_add)
  then have gd: "gen ^ d = 1" by (simp only: power_mult g g128) simp
  have "d \<le> k" using k by (simp add: d_def gcd_le1_nat)
  have "coprime d F6"
  proof (rule ccontr)
    assume "\<not> coprime d F6"
    then have "gcd d F6 \<noteq> 1" by (simp add: coprime_iff_gcd_eq_1)
    moreover have "gcd d F6 \<noteq> 0" by (simp add: F6_def)
    ultimately have "1 < gcd d F6" by linarith
    then have "65536 \<le> gcd d F6" by (rule F6_divisor) simp
    moreover have "gcd d F6 \<le> d" using k by (simp add: d_def gcd_le1_nat)
    ultimately show False using k \<open>d \<le> k\<close> by simp
  qed
  moreover have "d dvd F6 * (2 ^ 64 - 1)"
  proof -
    have "F6 * (2 ^ 64 - 1) = 2 ^ 128 - 1" by (simp add: F6_def)
    then show ?thesis unfolding d_def by (metis gcd_dvd2)
  qed
  ultimately have "d dvd 2 ^ 64 - 1" by (simp add: coprime_dvd_mult_right_iff)
  then obtain z where "2 ^ 64 - 1 = d * z" by blast
  then have "gen ^ (2 ^ 64 - 1) = 1" by (simp only: power_mult gd) simp
  then have "gen ^ Suc (2 ^ 64 - 1) = gen" by (simp only: power_Suc) simp
  then show False using gen_frob_64 by simp
qed

lemma gen_pow_inj:
  assumes "i < 65536" "j < 65536" "gen ^ i = gen ^ j"
  shows "i = j"
proof -
  have *: "i = j" if "i \<le> j" "j < 65536" "gen ^ i = gen ^ j" for i j
  proof -
    have "gen ^ i * gen ^ (j - i) = gen ^ (i + (j - i))" by (rule power_add [symmetric])
    also have "\<dots> = gen ^ i * 1" using that by simp
    finally have "gen ^ i * gen ^ (j - i) = gen ^ i * 1" .
    then have "gen ^ (j - i) = 1" using mult_left_cancel [OF power_not_zero [OF gen_nonzero, of i]] by blast
    then have "\<not> 0 < j - i" using gen_order [of "j - i"] that by force
    with that show ?thesis by linarith
  qed
  show ?thesis using assms * [of i j] * [of j i] by (cases "i \<le> j") auto
qed

end
