(* ===== verification/Scalar_Oracle.thy ===== *)
theory Scalar_Oracle
  imports Field_Models Host_Memory Gf_Order Lsc_Endpoint
begin

text \<open>
  The reference machine of \<open>sim/scalar_step_oracle.py\<close>: its own field arithmetic, a
  write-once memory, program counter and frame pointer, and the step of the frozen scalar
  runner. A step mutates the machine and may raise half-way, so it is a routine: the machine
  it leaves behind is part of the result in both cases.
\<close>

section \<open>Faults and arithmetic\<close>

text \<open>
  \<open>Fault\<close> with its message; the other two constructors are Python's own exceptions, raised by
  an instruction tuple of the wrong length and by a dictionary look-up.
\<close>

datatype oracle_exn = OracleFault string | OracleValueError | OracleKeyError

definition or_xtime :: "int \<Rightarrow> int" where
  "or_xtime value = (push_bit 1 value AND MASK) XOR (if drop_bit 127 value \<noteq> 0 then 0x87 else 0)"

definition or_multiply :: "int \<Rightarrow> int \<Rightarrow> int" where
  "or_multiply left right =
     long_reduce 127 128 (push_bit 128 1 OR 0x87) (carryless 128 left right) AND MASK"

definition or_encode :: "int \<Rightarrow> int" where
  "or_encode index = (or_xtime ^^ nat index) 1"

definition or_checked_add :: "int \<Rightarrow> int \<Rightarrow> oracle_exn + int" where
  "or_checked_add left right =
     (let value = left + right
      in if value > U32_MAX then Inl (OracleFault ''u32_overflow'') else Inr value)"

text \<open>The square-and-multiply loop of \<open>inverse\<close>.\<close>

function inverse_while :: "int \<Rightarrow> int \<Rightarrow> nat \<Rightarrow> int" where
  "inverse_while result base exponent =
     (if exponent = 0 then result
      else
        let result = (if exponent mod 2 = 1 then or_multiply result base else result);
            base = or_multiply base base
        in inverse_while result base (exponent div 2))"
  by auto
termination by (relation "measure (\<lambda>(_, _, e). e)") auto

declare inverse_while.simps [simp del]

definition or_inverse :: "int \<Rightarrow> int" where
  "or_inverse value = (if value = 0 then 0 else inverse_while 1 value (2 ^ 128 - 2))"

text \<open>The loop of \<open>reverse\<close> with \<open>n\<close> candidates left.\<close>

fun reverse_loop :: "nat \<Rightarrow> int \<Rightarrow> int \<Rightarrow> int \<Rightarrow> oracle_exn + int" where
  "reverse_loop 0 index candidate value = Inl (OracleFault ''invalid_g_power'')"
| "reverse_loop (Suc n) index candidate value =
     (if candidate = value then Inr index
      else reverse_loop n (index + 1) (or_xtime candidate) value)"

definition or_reverse :: "int \<Rightarrow> nat \<Rightarrow> oracle_exn + int" where
  "or_reverse value limit = reverse_loop limit 0 1 value"

section \<open>The machine\<close>

record machine =
  mc_memory :: "int \<Rightarrow> int option"
  mc_written :: "int set"
  mc_pc :: int
  mc_fp :: int
  mc_cycles :: int

type_synonym 'a on_machine = "machine \<Rightarrow> (oracle_exn + 'a) \<times> machine"

definition mc_with_public_input :: "int \<Rightarrow> int \<Rightarrow> machine" where
  "mc_with_public_input first second =
     \<lparr>mc_memory = [0 \<mapsto> first, 1 \<mapsto> second], mc_written = {0, 1}, mc_pc = 0, mc_fp = 0, mc_cycles = 0\<rparr>"

definition mc_read :: "machine \<Rightarrow> int \<Rightarrow> int" where
  "mc_read m address =
     (if address \<in> mc_written m
      then (case mc_memory m address of None \<Rightarrow> 0 | Some v \<Rightarrow> v) else 0)"

definition mc_write_once :: "int \<Rightarrow> int \<Rightarrow> unit on_machine" where
  "mc_write_once address value m =
     (let value = value AND MASK;
          store = m\<lparr>mc_memory := (mc_memory m)(address \<mapsto> value),
                    mc_written := insert address (mc_written m)\<rparr>
      in if address \<in> mc_written m then
           (case mc_memory m address of
              None \<Rightarrow> (Inl OracleKeyError, m)
            | Some old \<Rightarrow>
                if old \<noteq> value then (Inl (OracleFault ''write_conflict''), m) else (Inr (), store))
         else (Inr (), store))"

definition mc_local :: "machine \<Rightarrow> int \<Rightarrow> oracle_exn + int" where
  "mc_local m offset = or_checked_add (mc_fp m) offset"

text \<open>
  Unpacking a generator of locals into three names: the generator is asked for a fourth value,
  so a longer tuple still computes that one.
\<close>

definition mc_locals3 :: "machine \<Rightarrow> int list \<Rightarrow> oracle_exn + (int \<times> int \<times> int)" where
  "mc_locals3 m args =
     bindE (mapE (mc_local m) (take 4 args)) (\<lambda>xs.
       case xs of [a, b, c] \<Rightarrow> Inr (a, b, c) | _ \<Rightarrow> Inl OracleValueError)"

definition mc_advance :: "unit on_machine" where
  "mc_advance m =
     thenM (or_checked_add (mc_pc m) 1, m) (\<lambda>pc m. (Inr (), m\<lparr>mc_pc := pc\<rparr>))"

section \<open>One step\<close>

definition mc_set :: "int list \<Rightarrow> unit on_machine" where
  "mc_set args m =
     (case args of
        [offset, value] \<Rightarrow>
          thenM (mc_local m offset, m) (\<lambda>address m.
          thenM (mc_write_once address value m) (\<lambda>_ m.
            mc_advance m))
      | _ \<Rightarrow> (Inl OracleValueError, m))"

text \<open>
  The branches for \<open>xor\<close> and \<open>mul\<close> differ in how an absent input is solved from the result and
  the known input (the division may raise), and in the operation.
\<close>

definition mc_fill :: "(int \<Rightarrow> int \<Rightarrow> oracle_exn + int) \<Rightarrow> int \<Rightarrow> int \<Rightarrow> int \<Rightarrow> unit on_machine" where
  "mc_fill solve a b c m =
     (let absent_a = (a \<notin> mc_written m); absent_b = (b \<notin> mc_written m) in
      if c \<in> mc_written m \<and> absent_a \<noteq> absent_b then
        let known = (if absent_a then b else a);
            missing = (if absent_a then a else b)
        in thenM (solve (mc_read m c) (mc_read m known), m) (mc_write_once missing)
      else (Inr (), m))"

definition mc_binary ::
  "(int \<Rightarrow> int \<Rightarrow> oracle_exn + int) \<Rightarrow> (int \<Rightarrow> int \<Rightarrow> int) \<Rightarrow> int list \<Rightarrow> unit on_machine" where
  "mc_binary solve operate args m =
     thenM (mc_locals3 m args, m) (\<lambda>(a, b, c) m.
     thenM (mc_fill solve a b c m) (\<lambda>_ m.
     thenM (mc_write_once c (operate (mc_read m a) (mc_read m b)) m) (\<lambda>_ m. mc_advance m)))"

definition mc_xor :: "int list \<Rightarrow> unit on_machine" where
  "mc_xor = mc_binary (\<lambda>result known. Inr (result XOR known)) (\<lambda>left right. left XOR right)"

definition mc_mul :: "int list \<Rightarrow> unit on_machine" where
  "mc_mul = mc_binary
     (\<lambda>result known.
        if known = 0 then Inl (OracleFault ''mul_backsolve_zero_divisor'')
        else Inr (or_multiply result (or_inverse known)))
     or_multiply"

definition mc_deref :: "bool \<Rightarrow> int list \<Rightarrow> unit on_machine" where
  "mc_deref deref_pc args m =
     (case args of
        [alpha, beta, gamma] \<Rightarrow>
          thenM (mc_local m alpha, m) (\<lambda>pointer_address m.
          let pointer = mc_read m pointer_address in
          thenM (or_reverse pointer (2 ^ 16), m) (\<lambda>base m.
          thenM (or_checked_add base beta, m) (\<lambda>target m.
          thenM
            (if deref_pc then bindE (or_checked_add (mc_pc m) 2) (\<lambda>pc. Inr (or_encode pc))
             else Inr (or_encode (mc_fp m)), m) (\<lambda>value m.
          thenM (mc_write_once target value m) (\<lambda>_ m. mc_advance m)))))
      | _ \<Rightarrow> (Inl OracleValueError, m))"

definition mc_jump :: "int list \<Rightarrow> unit on_machine" where
  "mc_jump args m =
     thenM (mc_locals3 m args, m) (\<lambda>(condition, destination, frame) m.
       if mc_read m condition = 0 then mc_advance m
       else
         thenM (or_reverse (mc_read m destination) (2 ^ 16), m) (\<lambda>pc m.
         let m = m\<lparr>mc_pc := pc\<rparr> in
         thenM (or_reverse (mc_read m frame) (2 ^ 16), m) (\<lambda>fp m.
           (Inr (), m\<lparr>mc_fp := fp\<rparr>))))"

text \<open>An instruction is a tuple: its opcode and the arguments.\<close>

definition mc_step :: "string \<times> int list \<Rightarrow> unit on_machine" where
  "mc_step instruction m =
     (let (opcode, args) = instruction in
      thenM
        (if opcode = ''set'' then mc_set args m
         else if opcode = ''xor'' then mc_xor args m
         else if opcode = ''mul'' then mc_mul args m
         else if opcode = ''deref_pc'' \<or> opcode = ''deref_fp'' then mc_deref (opcode = ''deref_pc'') args m
         else if opcode = ''jump'' then mc_jump args m
         else (Inl (OracleFault (''unsupported_opcode:'' @ opcode)), m))
        (\<lambda>_ m. (Inr (), m\<lparr>mc_cycles := mc_cycles m + 1\<rparr>)))"

text \<open>
  The loop of \<open>run\<close> may not end (a program can jump in a circle), so it is a partial function:
  \<open>None\<close> is a run that does not return.
\<close>

partial_function (option) mc_run_loop :: "(string \<times> int list) list \<Rightarrow> machine \<Rightarrow> ((oracle_exn + unit) \<times> machine) option" where
  "mc_run_loop program m =
     (if mc_pc m = int (length program) - 1 then Some (Inr (), m)
      else if mc_pc m \<ge> int (length program) then Some (Inl (OracleFault ''pc_out_of_range''), m)
      else
        case mc_step (program ! nat (mc_pc m)) m of
          (Inl e, m) \<Rightarrow> Some (Inl e, m)
        | (Inr _, m) \<Rightarrow> mc_run_loop program m)"

definition mc_run :: "(string \<times> int list) list \<Rightarrow> int \<times> int \<Rightarrow> (oracle_exn + machine) option" where
  "mc_run program public_input =
     (if length program = 0 \<or> int (length program) AND (int (length program) - 1) \<noteq> 0
      then Some (Inl (OracleFault ''bytecode_not_power_of_two''))
      else
        case mc_run_loop program (mc_with_public_input (fst public_input) (snd public_input)) of
          None \<Rightarrow> None
        | Some (Inl e, m) \<Rightarrow> Some (Inl e)
        | Some (Inr _, m) \<Rightarrow>
            Some (if mc_fp m \<noteq> 0 then Inl (OracleFault ''bad_halt_state'') else Inr m))"

section \<open>Its arithmetic is the field\<close>

lemma or_xtime_of_gf: "or_xtime (of_gf a) = of_gf (gen * a)"
proof -
  have "or_xtime (of_gf a) = field_xtime (of_gf a)"
    by (simp add: or_xtime_def field_xtime_def MASK_def MASK128_def REDUCTION_LOW_def Let_def)
  then show ?thesis by (simp add: field_xtime_of_gf xt_eq_gen)
qed

lemma or_encode_gf: "0 \<le> i \<Longrightarrow> or_encode i = of_gf (gen ^ nat i)"
proof -
  have "(or_xtime ^^ n) 1 = of_gf (gen ^ n)" for n
    by (induction n) (use or_xtime_of_gf of_gf_01 in \<open>simp_all\<close>)
  then show ?thesis by (simp add: or_encode_def)
qed

lemma or_multiply_eq: "fits 128 a \<Longrightarrow> or_multiply a b = field_mul a b"
  using long_multiply_field_mul [of a b] by (simp add: or_multiply_def)

lemma or_multiply_gf: "or_multiply (of_gf a) (of_gf b) = of_gf (a * b)"
  by (simp add: or_multiply_eq field_mul_gf)

lemma inverse_while_gf: "inverse_while (of_gf r) (of_gf b) e = of_gf (r * b ^ e)"
proof (induction "of_gf r" "of_gf b" e arbitrary: r b rule: inverse_while.induct)
  case (1 e)
  show ?case
  proof (cases "e = 0")
    case True
    then show ?thesis by (simp add: inverse_while.simps)
  next
    case False
    have "b ^ e = b ^ (2 * (e div 2) + e mod 2)" by simp
    also have "\<dots> = (b * b) ^ (e div 2) * b ^ (e mod 2)" by (simp only: power_add power_mult power2_eq_square)
    finally have e: "b ^ e = (if e mod 2 = 1 then b else 1) * (b * b) ^ (e div 2)"
      by (cases "e mod 2 = 1") simp_all
    show ?thesis
      apply (subst inverse_while.simps)
      using False 1 [OF False, where r = "if e mod 2 = 1 then r * b else r" and b = "b * b"]
      apply (simp add: or_multiply_gf Let_def e mult.assoc)
      done
  qed
qed

lemma or_inverse_gf:
  assumes "fits 128 v" "v \<noteq> 0"
  shows "or_inverse v = of_gf (inverse (to_gf v))"
proof -
  have nz: "to_gf v \<noteq> 0" using assms to_gf_inject [of v 0] by simp
  have "or_inverse v = inverse_while (of_gf 1) (of_gf (to_gf v)) (2 ^ 128 - 2)"
    using assms by (simp only: or_inverse_def if_False of_to_gf_fits of_gf_01)
  then show ?thesis using nz by (simp only: inverse_while_gf inverse_gf128_def if_False mult_1_left)
qed

lemma reverse_loop_gf:
  "reverse_loop n (int k) (of_gf (gen ^ k)) p = Inr i \<Longrightarrow>
     int k \<le> i \<and> i < int (k + n) \<and> p = of_gf (gen ^ nat i)"
proof (induction n arbitrary: k)
  case (Suc n)
  have k1: "int k + 1 = int (Suc k)" by simp
  show ?case using Suc.prems Suc.IH [of "Suc k"]
    by (auto simp: or_xtime_of_gf k1 simp flip: power_Suc split: if_splits)
qed simp

lemma reverse_loop_complete:
  assumes "k \<le> i" "i < k + n" "i < 65536"
  shows "reverse_loop n (int k) (of_gf (gen ^ k)) (of_gf (gen ^ i)) = Inr (int i)"
  using assms(1,2)
proof (induction n arbitrary: k)
  case (Suc n)
  have k1: "int k + 1 = int (Suc k)" by simp
  show ?case
  proof (cases "k = i")
    case False
    then have "gen ^ k \<noteq> gen ^ i" using gen_pow_inj [of k i] Suc.prems assms(3) by linarith
    moreover have "reverse_loop n (int (Suc k)) (of_gf (gen ^ Suc k)) (of_gf (gen ^ i)) = Inr (int i)"
      using False Suc.prems by (intro Suc.IH) simp_all
    ultimately show ?thesis by (simp add: or_xtime_of_gf k1)
  qed simp
qed simp

lemma or_reverse_iff: "or_reverse p (2 ^ 16) = Inr i \<longleftrightarrow> 0 \<le> i \<and> i < 2 ^ 16 \<and> p = of_gf (gen ^ nat i)"
proof
  assume "or_reverse p (2 ^ 16) = Inr i"
  then show "0 \<le> i \<and> i < 2 ^ 16 \<and> p = of_gf (gen ^ nat i)"
    using reverse_loop_gf [of "2 ^ 16" 0 p i] by (simp add: or_reverse_def)
next
  assume "0 \<le> i \<and> i < 2 ^ 16 \<and> p = of_gf (gen ^ nat i)"
  then show "or_reverse p (2 ^ 16) = Inr i"
    using reverse_loop_complete [of 0 "nat i" "2 ^ 16"] by (auto simp: or_reverse_def)
qed

lemma or_checked_add_iff: "or_checked_add a b = Inr c \<longleftrightarrow> c = a + b \<and> a + b < 2 ^ 32"
  by (auto simp: or_checked_add_def Let_def U32_MAX_def split: if_splits)

section \<open>Its memory is a write-once store\<close>

definition mc_view :: "machine \<Rightarrow> int \<Rightarrow> int option" where
  "mc_view m a = (if a \<in> mc_written m then mc_memory m a else None)"

text \<open>Every written cell is in the dictionary, in range.\<close>

definition mc_ok :: "machine \<Rightarrow> bool" where
  "mc_ok m \<longleftrightarrow> (\<forall>a\<in>mc_written m. \<exists>v. mc_memory m a = Some v \<and> fits 128 v)"

definition mc_put :: "int \<Rightarrow> int \<Rightarrow> machine \<Rightarrow> oracle_exn + machine" where
  "mc_put a v m = (case mc_write_once a v m of (Inl e, _) \<Rightarrow> Inl e | (Inr _, m') \<Rightarrow> Inr m')"

definition mc_knows :: "machine \<Rightarrow> int \<Rightarrow> bool" where
  "mc_knows m a \<longleftrightarrow> (a \<in> mc_written m \<longrightarrow> mc_memory m a \<noteq> None)"

interpretation machine_store: write_once_store mc_view mc_knows mc_put
proof unfold_locales
  fix s a v
  assume "mc_knows s a" and v: "fits 128 v" and c: "mc_view s a = None \<or> mc_view s a = Some v"
  then show "\<exists>s'. mc_put a v s = Inr s' \<and> mc_view s' = (mc_view s)(a \<mapsto> v) \<and> mc_knows s' = mc_knows s"
    by (auto simp: mc_put_def mc_write_once_def mc_view_def mc_knows_def Let_def fun_eq_iff split: option.splits)
next
  fix s a v w
  assume "mc_knows s a" "fits 128 v" "mc_view s a = Some w" "w \<noteq> v"
  then show "\<exists>e. mc_put a v s = Inl e"
    by (auto simp: mc_put_def mc_write_once_def mc_view_def Let_def split: if_splits)
qed

interpretation frame_machine: write_once_pair fr_view fr_known fr_write_once mc_view mc_knows mc_put ..

lemma mc_read_view: "mc_read m a = read0 (mc_view m) a"
  by (simp add: mc_read_def read0_def mc_view_def)

lemma mc_view_None: "mc_ok m \<Longrightarrow> mc_view m a = None \<longleftrightarrow> a \<notin> mc_written m"
  by (auto simp: mc_view_def mc_ok_def)

lemma mc_write_once_keeps:
  assumes "mc_write_once a v m = (r, m')"
  shows "mc_pc m' = mc_pc m" "mc_fp m' = mc_fp m" "mc_cycles m' = mc_cycles m" "mc_ok m \<Longrightarrow> mc_ok m'"
  using assms by (auto simp: mc_write_once_def Let_def mc_ok_def and_MASK split: if_splits option.splits)

section \<open>The endpoint refines the reference machine\<close>

text \<open>The host prepared a request from the machine's state: its cells are the machine's.\<close>

definition mc_cell :: "machine \<Rightarrow> int \<Rightarrow> cell" where
  "mc_cell m a = (case mc_view m a of None \<Rightarrow> ABSENT | Some v \<Rightarrow> Cell True v)"

definition request_addresses :: "decoded_request \<Rightarrow> int list" where
  "request_addresses d =
     (if dq_opcode d \<in> {OP_DEREF_CELL, OP_DEREF_PC, OP_DEREF_FP}
      then [dq_fp d + dq_offsets d ! 0, dq_base d + dq_offsets d ! 1, dq_fp d + dq_offsets d ! 2]
      else map ((+) (dq_fp d)) (dq_offsets d))"

definition prepared_from :: "machine \<Rightarrow> decoded_request \<Rightarrow> bool" where
  "prepared_from m d \<longleftrightarrow> mc_ok m \<and> mc_pc m = dq_pc d \<and> mc_fp m = dq_fp d
     \<and> dq_cells d = map (mc_cell m) (request_addresses d)"

definition oracle_instruction :: "decoded_request \<Rightarrow> string \<times> int list" where
  "oracle_instruction d = (case dq_opcode d of
       OP_SET_CONSTANT \<Rightarrow> (''set'', dq_offsets d @ [dq_constant d])
     | OP_XOR \<Rightarrow> (''xor'', dq_offsets d)
     | OP_MUL_NATIVE \<Rightarrow> (''mul'', dq_offsets d)
     | OP_DEREF_PC \<Rightarrow> (''deref_pc'', dq_offsets d)
     | OP_DEREF_FP \<Rightarrow> (''deref_fp'', dq_offsets d)
     | OP_JUMP \<Rightarrow> (''jump'', dq_offsets d)
     | _ \<Rightarrow> (''unsupported'', []))"

text \<open>The endpoint's frame follows the machine, which has applied the frame's writes.\<close>

definition follows :: "int set \<Rightarrow> machine \<Rightarrow> frame \<Rightarrow> machine \<Rightarrow> bool" where
  "follows A m0 f m \<longleftrightarrow> frame_inv f \<and> mc_ok m \<and> mc_pc m = mc_pc m0 \<and> mc_fp m = mc_fp m0
     \<and> mc_cycles m = mc_cycles m0 \<and> (\<forall>x\<in>A. fr_known f x \<and> fr_view f x = mc_view m x)
     \<and> mc_view m = mc_view m0 ++ writes_map (fr_writes f)"

lemma writes_map_snoc: "a \<notin> wr_address ` set ws \<Longrightarrow> writes_map (ws @ [Write a v]) = (writes_map ws)(a \<mapsto> v)"
proof -
  assume "a \<notin> wr_address ` set ws"
  then have "writes_map ws a = None" by (auto simp: writes_map_def map_of_eq_None_iff)
  then show ?thesis by (auto simp: writes_map_def map_add_def fun_eq_iff split: option.splits)
qed

lemma follows_write:
  assumes f: "follows A m0 f m" and w: "fr_write_once a v f = Inr g" and v: "fits 128 v" and a: "a \<in> A"
  obtains m' where "mc_write_once a v m = (Inr (), m')" "follows A m0 g m'"
proof -
  note k = fr_write_once_Inr [OF w] and i = frame_inv_write [OF _ w v]
  have inv: "frame_inv f" and ok: "mc_ok m" and same: "\<forall>x\<in>A. fr_view f x = mc_view m x" and known: "\<forall>x\<in>A. fr_known f x"
    and view: "mc_view m = mc_view m0 ++ writes_map (fr_writes f)"
    using f by (simp_all add: follows_def)
  have "mc_knows m a" using ok by (auto simp: mc_knows_def mc_ok_def)
  from frame_machine.write_sim_on [OF same a k(1) this v w] obtain m' where
    m': "mc_put a v m = Inr m'" "\<forall>x\<in>A. fr_view g x = mc_view m' x" "mc_view m' = (mc_view m)(a \<mapsto> v)" by blast
  then have put: "mc_write_once a v m = (Inr (), m')" by (auto simp: mc_put_def split: prod.splits sum.splits)
  have "mc_view m' = mc_view m0 ++ writes_map (fr_writes g)"
  proof (cases "fr_view f a = None")
    case True
    then have "a \<notin> wr_address ` set (fr_writes f)"
      using inv by (auto simp: frame_inv_def fr_view_def split: option.splits if_splits)
    then show ?thesis using True m'(3) view k(5) by (simp add: writes_map_snoc)
  next
    case False
    then have "mc_view m a = Some v" using same k(4) a by auto
    moreover have "fr_writes g = fr_writes f" using False k(5) by simp
    ultimately show ?thesis using m'(3) view by (simp add: map_upd_triv)
  qed
  then have "follows A m0 g m'" using f m'(2) i(1) [OF inv] mc_write_once_keeps [OF put] known k(2) by (simp add: follows_def)
  with put show thesis by (rule that)
qed

lemma follows_read:
  assumes "follows A m0 f m" "a \<in> A"
  shows "mc_read m a = read0 (fr_view f) a" "a \<in> mc_written m \<longleftrightarrow> fr_view f a \<noteq> None" "fits 128 (mc_read m a)" "fr_known f a"
  using assms mc_view_None [of m a] fits_read0 [of f a] by (auto simp: follows_def mc_read_view read0_def)

lemma cells_view_machine: "cells_view (zip as (map (mc_cell m) as)) a = (if a \<in> set as then mc_view m a else None)"
  by (auto simp: cells_view_def map_of_zip_map mc_cell_def ABSENT_def split: option.splits)

lemma follows_start:
  assumes "prepared_from m d" "fr_view f = cells_view (zip (request_addresses d) (dq_cells d))" "frame_inv f" "fr_writes f = []"
    "\<forall>x\<in>set (request_addresses d). fr_known f x"
  shows "follows (set (request_addresses d)) m f m"
  using assms by (auto simp: follows_def prepared_from_def cells_view_machine writes_map_def)

text \<open>The forward write and the step of the program counter.\<close>

lemma mc_advance_Inr: "fits 32 (mc_pc m + 1) \<Longrightarrow> mc_advance m = (Inr (), m\<lparr>mc_pc := mc_pc m + 1\<rparr>)"
  by (simp add: mc_advance_def or_checked_add_def U32_MAX_def fits_def)

definition oracle_solve :: "opcode \<Rightarrow> int \<Rightarrow> int \<Rightarrow> oracle_exn + int" where
  "oracle_solve op result known =
     (if op = OP_XOR then Inr (result XOR known)
      else if known = 0 then Inl (OracleFault ''mul_backsolve_zero_divisor'')
      else Inr (or_multiply result (or_inverse known)))"

definition oracle_combine :: "opcode \<Rightarrow> int \<Rightarrow> int \<Rightarrow> int" where
  "oracle_combine op left right = (if op = OP_XOR then left XOR right else or_multiply left right)"

lemma follows_back_solve:
  assumes f: "follows A m0 f m" and k: "a \<in> A" "b \<in> A" "c \<in> A"
    and r: "back_solve d a b c f = Inr (g, n)" and ok: "dq_fields_ok d"
  obtains m' where "mc_fill (oracle_solve (dq_opcode d)) a b c m = (Inr (), m')" "follows A m0 g m'"
proof -
  note ra = follows_read [OF f k(1)] and rb = follows_read [OF f k(2)] and rc = follows_read [OF f k(3)]
  define x where "x = (if fr_view f a = None then a else b)"
  define y where "y = (if fr_view f a = None then b else a)"
  have kx: "x \<in> A" "y \<in> A" using k by (simp_all add: x_def y_def)
  note ry = follows_read [OF f kx(2)]
  note known = ra(4) rb(4) rc(4) ry(4) follows_read(4) [OF f kx(1)]
  show thesis
  proof (cases "fr_view f c \<noteq> None \<and> (fr_view f a = None) \<noteq> (fr_view f b = None)")
    case False
    then have "g = f" using r known by (auto simp: back_solve_def Let_def bindE_eq_Inr split: if_splits)
    moreover have "mc_fill (oracle_solve (dq_opcode d)) a b c m = (Inr (), m)"
      using False ra(2) rb(2) rc(2) by (auto simp: mc_fill_def Let_def)
    ultimately show thesis using f by (intro that) simp_all
  next
    case True
    have fill: "mc_fill (oracle_solve (dq_opcode d)) a b c m =
        thenM (oracle_solve (dq_opcode d) (mc_read m c) (mc_read m y), m) (mc_write_once x)"
      using True ra(2) rb(2) rc(2) by (simp add: mc_fill_def Let_def x_def y_def)
    obtain v where v: "fr_write_once x v f = Inr g" "fits 128 v"
      "oracle_solve (dq_opcode d) (mc_read m c) (mc_read m y) = Inr v"
    proof (cases "dq_opcode d = OP_XOR")
      case xor: True
      show thesis
        by (rule that [of "mc_read m c XOR mc_read m y"])
          (use r known True xor rc ry in \<open>auto simp: back_solve_def Let_def bindE_eq_Inr oracle_solve_def x_def y_def split: if_splits\<close>)
    next
      case mul: False
      define w where "w = cell_value (dq_proposed_inverse d)"
      have fw: "fits 128 w" using ok by (simp add: dq_fields_ok_def cell_ok_def w_def)
      have one: "mc_read m y \<noteq> 0" "field_mul (mc_read m y) w = 1" "fr_write_once x (field_mul (mc_read m c) w) f = Inr g"
        using r known True mul rc ry unfolding w_def
        by (auto simp: back_solve_def Let_def bindE_eq_Inr x_def y_def split: if_splits)
      then have "w = or_inverse (mc_read m y)"
        using field_mul_one_iff [OF ry(3) fw] or_inverse_gf [OF ry(3)] by simp
      with one mul rc(3) show thesis by (intro that) (auto simp: oracle_solve_def or_multiply_eq)
    qed
    from follows_write [OF f v(1,2) kx(1)] v(3) fill that show thesis by force
  qed
qed

lemma mc_locals3_map:
  assumes "mc_fp m = fp" "map ((+) fp) offs = [a, b, c]" "fits 32 a" "fits 32 b" "fits 32 c"
  shows "mc_locals3 m offs = Inr (a, b, c)"
proof -
  obtain x y z where o: "offs = [x, y, z]" using assms(2) by auto
  show ?thesis using assms unfolding o
    by (simp add: mc_locals3_def mc_local_def or_checked_add_def U32_MAX_def fits_def Let_def)
qed

text \<open>The result of a step: the machine follows the endpoint's writes and next state.\<close>

definition steps_to :: "machine \<Rightarrow> staged_transaction \<Rightarrow> (oracle_exn + unit) \<times> machine \<Rightarrow> bool" where
  "steps_to m s r \<longleftrightarrow> (case r of
       (Inl _, _) \<Rightarrow> False
     | (Inr _, m') \<Rightarrow> mc_ok m' \<and> mc_pc m' = st_next_pc s \<and> mc_fp m' = st_next_fp s
         \<and> mc_cycles m' = mc_cycles m \<and> mc_view m' = mc_view m ++ writes_map (st_writes s))"

lemma mc_update_simps [simp]:
  "mc_view (m\<lparr>mc_pc := pc\<rparr>) = mc_view m" "mc_view (m\<lparr>mc_fp := fp\<rparr>) = mc_view m" "mc_view (m\<lparr>mc_cycles := n\<rparr>) = mc_view m"
  "mc_ok (m\<lparr>mc_pc := pc\<rparr>) = mc_ok m" "mc_ok (m\<lparr>mc_fp := fp\<rparr>) = mc_ok m" "mc_ok (m\<lparr>mc_cycles := n\<rparr>) = mc_ok m"
  by (simp_all add: mc_view_def [abs_def] mc_ok_def cong: if_cong)

lemma fresh_state_ok: "dq_fields_ok d \<Longrightarrow> 0 \<le> st_pc (fresh_staged d)" "dq_fields_ok d \<Longrightarrow> fits 32 (st_fp (fresh_staged d))"
  unfolding dq_fields_ok_def fresh_staged_simps by (blast dest: fits_nonneg)+

lemma follows_advance:
  assumes "follows A m0 f m" "fits 32 (mc_pc m0 + 1)" "st_next_pc s = mc_pc m0 + 1" "st_next_fp s = mc_fp m0" "st_writes s = fr_writes f"
  shows "steps_to m0 s (mc_advance m)"
  using assms by (simp add: follows_def mc_advance_Inr steps_to_def)

lemma mc_binary_op: "oracle_instruction d = (if dq_opcode d = OP_XOR then (''xor'', dq_offsets d) else (''mul'', dq_offsets d)) \<Longrightarrow>
    (if dq_opcode d = OP_XOR then mc_xor else mc_mul) = mc_binary (oracle_solve (dq_opcode d)) (oracle_combine (dq_opcode d))"
  by (auto simp: mc_xor_def mc_mul_def oracle_solve_def [abs_def] oracle_combine_def [abs_def])

lemma binary_refines:
  assumes r: "execute_binary d (fresh_staged d) = Inr s" and ok: "shape_3 d" and p: "prepared_from m d"
    and op: "dq_opcode d \<in> {OP_XOR, OP_MUL_NATIVE}"
  shows "steps_to m s (mc_binary (oracle_solve (dq_opcode d)) (oracle_combine (dq_opcode d)) (dq_offsets d) m)"
proof -
  have fo: "dq_fields_ok d" using ok by (simp add: shape_3_def)
  then have t: "0 \<le> st_pc (fresh_staged d)" "fits 32 (st_fp (fresh_staged d))" by (rule fresh_state_ok)+
  obtain f a b c g n h where o: "operands_ok d (fresh_staged d) f a b c" and g: "back_solve d a b c f = Inr (g, n)"
    and h: "fr_write_once c (if dq_opcode d = OP_XOR then read0 (fr_view g) a XOR read0 (fr_view g) b
       else field_mul (read0 (fr_view g) a) (read0 (fr_view g) b)) g = Inr h"
    and pc: "fits 32 (st_pc (fresh_staged d) + 1)"
    and s: "s = (fresh_staged d)\<lparr>st_writes := fr_writes h, st_accesses := [a, b, c], st_next_pc := st_pc (fresh_staged d) + 1,
       st_next_fp := st_fp (fresh_staged d), st_execute_cycles := n + (if dq_opcode d = OP_XOR then 1 else 128)\<rparr>"
    by (rule execute_binary_Inr [OF r ok t])
  have addrs: "request_addresses d = [a, b, c]" using o op by (auto simp: request_addresses_def operands_ok_def)
  have fits: "fits 32 a" "fits 32 b" "fits 32 c"
    using o by (simp_all add: operands_ok_def)
  have mp: "mc_pc m = dq_pc d" "mc_fp m = dq_fp d" using p by (simp_all add: prepared_from_def)
  have f0: "follows {a, b, c} m f m"
    using follows_start [OF p, of f] o addrs by (simp add: operands_ok_def)
  have abc: "a \<in> {a, b, c}" "b \<in> {a, b, c}" "c \<in> {a, b, c}" by simp_all
  obtain m1 where m1: "mc_fill (oracle_solve (dq_opcode d)) a b c m = (Inr (), m1)" "follows {a, b, c} m g m1"
    by (rule follows_back_solve [OF f0 abc g fo])
  note ra = follows_read [OF m1(2) abc(1)] and rb = follows_read [OF m1(2) abc(2)]
  have h': "fr_write_once c (oracle_combine (dq_opcode d) (mc_read m1 a) (mc_read m1 b)) g = Inr h"
    using h ra rb by (auto simp: oracle_combine_def or_multiply_eq split: if_splits)
  have v: "fits 128 (oracle_combine (dq_opcode d) (mc_read m1 a) (mc_read m1 b))"
    using ra(3) rb(3) by (simp add: oracle_combine_def or_multiply_eq)
  obtain m2 where m2: "mc_write_once c (oracle_combine (dq_opcode d) (mc_read m1 a) (mc_read m1 b)) m1 = (Inr (), m2)" "follows {a, b, c} m h m2"
    by (rule follows_write [OF m1(2) h' v abc(3)])
  have "mc_locals3 m (dq_offsets d) = Inr (a, b, c)"
    using o fits by (intro mc_locals3_map [OF mp(2)]) (simp_all add: operands_ok_def)
  then have "mc_binary (oracle_solve (dq_opcode d)) (oracle_combine (dq_opcode d)) (dq_offsets d) m = mc_advance m2"
    using m1(1) m2(1) by (simp add: mc_binary_def)
  moreover have "steps_to m s (mc_advance m2)"
    by (rule follows_advance [OF m2(2)]) (use pc s mp in simp_all)
  ultimately show ?thesis by simp
qed

lemma set_refines:
  assumes r: "execute_set d (fresh_staged d) = Inr s" and ok: "shape_1 d" and p: "prepared_from m d"
    and op: "dq_opcode d = OP_SET_CONSTANT"
  shows "steps_to m s (mc_set (dq_offsets d @ [dq_constant d]) m)"
proof -
  have fo: "dq_fields_ok d" "fits 128 (dq_constant d)" using ok by (simp_all add: shape_1_def dq_fields_ok_def)
  obtain off where off: "dq_offsets d = [off]" using ok by (auto simp: shape_1_def length_Suc_conv)
  obtain a f h where a: "a = st_fp (fresh_staged d) + dq_offsets d ! 0" "fits 32 a" "fr_known f a"
    and f: "frame_inv f" "fr_writes f = []" "fr_view f = cells_view [(a, dq_cells d ! 0)]"
    and h: "fr_write_once a (dq_constant d) f = Inr h" and pc: "fits 32 (st_pc (fresh_staged d) + 1)"
    and s: "s = (fresh_staged d)\<lparr>st_writes := fr_writes h, st_accesses := [a], st_next_pc := st_pc (fresh_staged d) + 1,
       st_next_fp := st_fp (fresh_staged d), st_execute_cycles := 0\<rparr>"
    by (rule execute_set_Inr [OF r ok fresh_state_ok [OF fo(1)]])
  have addrs: "request_addresses d = [a]" using a op by (simp add: request_addresses_def off)
  have cells: "dq_cells d = [dq_cells d ! 0]" using ok by (auto simp: shape_1_def length_Suc_conv)
  have mp: "mc_pc m = dq_pc d" "mc_fp m = dq_fp d" using p by (simp_all add: prepared_from_def)
  have "fr_view f = cells_view (zip (request_addresses d) (dq_cells d))" by (subst cells) (simp add: f(3) addrs)
  from follows_start [OF p this f(1,2)] have "follows {a} m f m" using a(3) by (simp add: addrs)
  from follows_write [OF this h fo(2)] obtain m' where m': "mc_write_once a (dq_constant d) m = (Inr (), m')" "follows {a} m h m'" by blast
  have "mc_local m off = Inr a" using a mp by (simp add: mc_local_def or_checked_add_iff off fits_def)
  then have "mc_set (dq_offsets d @ [dq_constant d]) m = mc_advance m'" using m'(1) by (simp add: mc_set_def off)
  moreover have "steps_to m s (mc_advance m')"
    by (rule follows_advance [OF m'(2)]) (use pc s mp in simp_all)
  ultimately show ?thesis by simp
qed

lemma deref_refines:
  assumes r: "execute_deref d (fresh_staged d) = Inr s" and ok: "shape_3 d" and p: "prepared_from m d"
    and op: "dq_opcode d \<in> {OP_DEREF_PC, OP_DEREF_FP}"
  shows "steps_to m s (mc_deref (dq_opcode d = OP_DEREF_PC) (dq_offsets d) m)"
proof -
  have fo: "dq_fields_ok d" using ok by (simp add: shape_3_def)
  then have t: "0 \<le> st_pc (fresh_staged d)" "fits 32 (st_fp (fresh_staged d))" by (rule fresh_state_ok)+
  obtain alpha beta gamma where off: "dq_offsets d = [alpha, beta, gamma]"
    using offsets_3 [of "dq_offsets d"] ok unfolding shape_3_def by blast
  obtain pa ta la f g df n where a: "pa = st_fp (fresh_staged d) + dq_offsets d ! 0" "ta = dq_base d + dq_offsets d ! 1" "la = st_fp (fresh_staged d) + dq_offsets d ! 2"
    and k: "\<forall>x\<in>{pa, ta, la}. fits 32 x \<and> fr_known f x" and f: "frame_inv f" "fr_writes f = []"
    and view: "fr_view f = cells_view (zip [pa, ta, la] (dq_cells d))"
    and base: "0 \<le> dq_base d" "dq_base d < 2 ^ 16" "read0 (fr_view f) pa = of_gf (gen ^ nat (dq_base d))"
    and g: "deref_body d (fresh_staged d) ta la f = Inr (g, df, n)" and pc: "fits 32 (st_pc (fresh_staged d) + 1)"
    and s: "s = (fresh_staged d)\<lparr>st_writes := fr_writes g, st_deferred := df, st_accesses := [pa, ta, la],
           st_next_pc := st_pc (fresh_staged d) + 1, st_next_fp := st_fp (fresh_staged d), st_execute_cycles := 2064 + n\<rparr>"
    by (rule execute_deref_Inr [OF r ok t])
  have addrs: "request_addresses d = [pa, ta, la]" using a op by (auto simp: request_addresses_def off)
  have mp: "mc_pc m = dq_pc d" "mc_fp m = dq_fp d" using p by (simp_all add: prepared_from_def)
  have f0: "follows {pa, ta, la} m f m"
    using follows_start [OF p, of f] view f k addrs by simp
  define i where "i = (if dq_opcode d = OP_DEREF_PC then dq_pc d + 2 else dq_fp d)"
  have v: "0 \<le> i" "i < 2 ^ 16" "fr_write_once ta (of_gf (gen ^ nat i)) f = Inr g"
    using g op by (auto simp: deref_body_def bindE_eq_Inr checked_add_Inr field_encode_gf i_def split: if_splits)
  obtain m' where m': "mc_write_once ta (of_gf (gen ^ nat i)) m = (Inr (), m')" "follows {pa, ta, la} m g m'"
    by (rule follows_write [OF f0 v(3)]) simp_all
  have val: "(if dq_opcode d = OP_DEREF_PC then bindE (or_checked_add (mc_pc m) 2) (\<lambda>pc. Inr (or_encode pc)) else Inr (or_encode (mc_fp m)))
      = Inr (of_gf (gen ^ nat i))"
    using v(1,2) op mp by (auto simp: i_def or_encode_gf or_checked_add_def U32_MAX_def Let_def)
  have "mc_local m alpha = Inr pa" using a mp k by (simp add: mc_local_def or_checked_add_iff off fits_def)
  moreover have "or_reverse (mc_read m pa) (2 ^ 16) = Inr (dq_base d)"
    using base follows_read(1) [OF f0, of pa] unfolding or_reverse_iff by simp
  moreover have "or_checked_add (dq_base d) beta = Inr ta" using a k by (simp add: or_checked_add_iff off fits_def)
  ultimately have "mc_deref (dq_opcode d = OP_DEREF_PC) (dq_offsets d) m = mc_advance m'"
    using m'(1) by (simp add: mc_deref_def off val)
  moreover have "steps_to m s (mc_advance m')"
    by (rule follows_advance [OF m'(2)]) (use pc s mp in simp_all)
  ultimately show ?thesis by simp
qed

lemma jump_refines:
  assumes r: "execute_jump d (fresh_staged d) = Inr s" and ok: "shape_3 d" and p: "prepared_from m d" and op: "dq_opcode d = OP_JUMP"
  shows "steps_to m s (mc_jump (dq_offsets d) m)"
proof -
  have fo: "dq_fields_ok d" using ok by (simp add: shape_3_def)
  then have t: "0 \<le> st_pc (fresh_staged d)" "fits 32 (st_fp (fresh_staged d))" by (rule fresh_state_ok)+
  obtain f a b c where o: "operands_ok d (fresh_staged d) f a b c" and taken: "read0 (fr_view f) a \<noteq> 0 \<longleftrightarrow> dq_taken d"
    and nxt: "if dq_taken d then
       cell_present (dq_proposed_inverse d) \<and> field_mul (read0 (fr_view f) a) (cell_value (dq_proposed_inverse d)) = 1 \<and>
       0 \<le> dq_dest_pc d \<and> dq_dest_pc d < 2 ^ 16 \<and> read0 (fr_view f) b = of_gf (gen ^ nat (dq_dest_pc d)) \<and>
       0 \<le> dq_dest_fp d \<and> dq_dest_fp d < 2 ^ 16 \<and> read0 (fr_view f) c = of_gf (gen ^ nat (dq_dest_fp d)) \<and>
       st_next_pc s = dq_dest_pc d \<and> st_next_fp s = dq_dest_fp d
     else (cell_present (dq_proposed_inverse d) \<longrightarrow> cell_value (dq_proposed_inverse d) = 0) \<and>
       dq_dest_pc d = 0 \<and> dq_dest_fp d = 0 \<and> fits 32 (st_pc (fresh_staged d) + 1) \<and>
       st_next_pc s = st_pc (fresh_staged d) + 1 \<and> st_next_fp s = st_fp (fresh_staged d)"
    and w: "st_writes s = []"
    by (rule execute_jump_Inr [OF r ok t]) blast
  have addrs: "request_addresses d = [a, b, c]" using o op by (auto simp: request_addresses_def operands_ok_def)
  have mp: "mc_pc m = dq_pc d" "mc_fp m = dq_fp d" "mc_ok m" using p by (simp_all add: prepared_from_def)
  have f0: "follows {a, b, c} m f m"
    using follows_start [OF p, of f] o addrs by (simp add: operands_ok_def)
  note rd = follows_read(1) [OF f0, of a] follows_read(1) [OF f0, of b] follows_read(1) [OF f0, of c]
  have l: "mc_locals3 m (dq_offsets d) = Inr (a, b, c)"
    using o by (intro mc_locals3_map [OF mp(2)]) (simp_all add: operands_ok_def)
  show ?thesis
  proof (cases "dq_taken d")
    case True
    then have "or_reverse (mc_read m b) (2 ^ 16) = Inr (dq_dest_pc d)" "or_reverse (mc_read m c) (2 ^ 16) = Inr (dq_dest_fp d)"
      using nxt rd unfolding or_reverse_iff by simp_all
    moreover have "mc_read (m\<lparr>mc_pc := dq_dest_pc d\<rparr>) c = mc_read m c" by (simp add: mc_read_view)
    ultimately show ?thesis using True taken nxt rd l w mp(3)
      by (simp add: mc_jump_def steps_to_def writes_map_def)
  next
    case False
    then show ?thesis using taken nxt rd l w mp by (simp add: mc_jump_def mc_advance_Inr steps_to_def writes_map_def)
  qed
qed

lemma execute_refines:
  assumes wf: "dq_wf d" and op: "dq_opcode d \<in> {OP_SET_CONSTANT, OP_XOR, OP_MUL_NATIVE, OP_DEREF_PC, OP_DEREF_FP, OP_JUMP}"
    and p: "prepared_from m d" and r: "execute d (fresh_staged d) n = Inr (s, n')"
  obtains m' where "mc_step (oracle_instruction d) m = (Inr (), m')" "mc_ok m'"
    "mc_pc m' = st_next_pc s" "mc_fp m' = st_next_fp s" "mc_view m' = mc_view m ++ writes_map (st_writes s)"
proof -
  have ins: "dq_opcode d \<in> set INSTRUCTION_OPCODES" using op by (auto simp: INSTRUCTION_OPCODES_def)
  note sh = dq_shapes [OF wf ins]
  define body where "body = (case dq_opcode d of
       OP_SET_CONSTANT \<Rightarrow> mc_set (dq_offsets d @ [dq_constant d]) m
     | OP_XOR \<Rightarrow> mc_xor (dq_offsets d) m
     | OP_MUL_NATIVE \<Rightarrow> mc_mul (dq_offsets d) m
     | OP_JUMP \<Rightarrow> mc_jump (dq_offsets d) m
     | _ \<Rightarrow> mc_deref (dq_opcode d = OP_DEREF_PC) (dq_offsets d) m)"
  have st: "mc_step (oracle_instruction d) m = thenM body (\<lambda>_ m. (Inr (), m\<lparr>mc_cycles := mc_cycles m + 1\<rparr>))"
    using op by (auto simp: mc_step_def oracle_instruction_def body_def Let_def)
  have "steps_to m s body"
  proof (cases "dq_opcode d")
    case OP_SET_CONSTANT
    then show ?thesis using r sh set_refines [OF _ _ p] by (auto simp: execute_def bindE_eq_Inr body_def)
  next
    case OP_XOR
    then show ?thesis using r sh binary_refines [OF _ _ p]
      by (auto simp: execute_def bindE_eq_Inr body_def mc_xor_def oracle_solve_def [abs_def] oracle_combine_def [abs_def])
  next
    case OP_MUL_NATIVE
    then show ?thesis using r sh binary_refines [OF _ _ p]
      by (auto simp: execute_def bindE_eq_Inr body_def mc_mul_def oracle_solve_def [abs_def] oracle_combine_def [abs_def])
  next
    case OP_DEREF_PC
    then show ?thesis using r sh deref_refines [OF _ _ p] by (auto simp: execute_def bindE_eq_Inr body_def)
  next
    case OP_DEREF_FP
    then show ?thesis using r sh deref_refines [OF _ _ p] by (auto simp: execute_def bindE_eq_Inr body_def)
  next
    case OP_JUMP
    then show ?thesis using r sh jump_refines [OF _ _ p] by (auto simp: execute_def bindE_eq_Inr body_def)
  qed (use op in auto)
  then obtain m' where m': "body = (Inr (), m')" "mc_ok m'" "mc_pc m' = st_next_pc s" "mc_fp m' = st_next_fp s"
    "mc_view m' = mc_view m ++ writes_map (st_writes s)"
    by (cases body) (auto simp: steps_to_def split: sum.splits)
  show thesis
    by (rule that [of "m'\<lparr>mc_cycles := mc_cycles m' + 1\<rparr>"]) (use m' st in simp_all)
qed

section \<open>Runs never change a written cell\<close>

definition mc_safe :: "machine \<Rightarrow> bool" where
  "mc_safe m \<longleftrightarrow> (\<forall>a. mc_knows m a)"

definition mc_extends :: "machine \<Rightarrow> machine \<Rightarrow> bool" where
  "mc_extends m m' \<longleftrightarrow> mc_safe m \<longrightarrow> mc_safe m' \<and> mc_view m \<subseteq>\<^sub>m mc_view m'"

lemma mc_extends_refl [simp]: "mc_extends m m"
  by (simp add: mc_extends_def)

lemma mc_extends_trans: "mc_extends m m1 \<Longrightarrow> mc_extends m1 m2 \<Longrightarrow> mc_extends m m2"
  by (auto simp: mc_extends_def intro: map_le_trans)

lemma mc_extends_update [simp]:
  "mc_extends m (m\<lparr>mc_pc := pc\<rparr>)" "mc_extends m (m\<lparr>mc_fp := fp\<rparr>)" "mc_extends m (m\<lparr>mc_cycles := n\<rparr>)"
  by (simp_all add: mc_extends_def mc_safe_def mc_knows_def)

lemma mc_extends_write [simp]: "mc_extends m (snd (mc_write_once a v m))"
  by (auto simp: mc_write_once_def mc_extends_def mc_safe_def mc_knows_def mc_view_def map_le_def Let_def split: option.splits)

lemma mc_extends_then:
  assumes "mc_extends m (snd r)" "\<And>x s. mc_extends s (snd (f x s))"
  shows "mc_extends m (snd (thenM r f))"
  using assms by (cases r; cases "fst r") (auto intro: mc_extends_trans)

lemma mc_extends_advance [simp]: "mc_extends m (snd (mc_advance m))"
  unfolding mc_advance_def by (rule mc_extends_then) simp_all

lemma mc_extends_step: "mc_extends m (snd (mc_step i m))"
proof -
  have fill: "mc_extends m (snd (mc_fill solve a b c m))" for solve a b c m
    by (auto simp: mc_fill_def Let_def intro!: mc_extends_then)
  have bin: "mc_extends m (snd (mc_binary solve operate args m))" for solve operate args m
    unfolding mc_binary_def by (auto intro!: mc_extends_then fill split: prod.split)
  have set: "mc_extends m (snd (mc_set args m))" for args m
    by (auto simp: mc_set_def intro!: mc_extends_then split: list.split)
  have deref: "mc_extends m (snd (mc_deref b args m))" for b args m
    by (auto simp: mc_deref_def Let_def intro!: mc_extends_then split: list.split)
  have jump: "mc_extends m (snd (mc_jump args m))" for args m
    unfolding mc_jump_def Let_def
    by (auto intro!: mc_extends_then split: prod.split)
  obtain opcode args where i: "i = (opcode, args)" by force
  have "mc_extends m (snd (mc_xor args m))" "mc_extends m (snd (mc_mul args m))" by (simp_all add: mc_xor_def mc_mul_def bin)
  then show ?thesis
    unfolding mc_step_def Let_def i prod.case
    by (intro mc_extends_then if_split [where P = "\<lambda>r. mc_extends m (snd r)", THEN iffD2] conjI impI)
      (assumption | rule set deref jump | simp)+
qed

lemma mc_run_loop_Some:
  assumes "mc_run_loop program m = Some res"
  shows "mc_safe m \<longrightarrow> mc_safe (snd res) \<and> mc_view m \<subseteq>\<^sub>m mc_view (snd res) \<and> (fst res = Inr () \<longrightarrow> mc_pc (snd res) = int (length program) - 1)"
  using assms
proof (induction program m res rule: mc_run_loop.raw_induct [rotated, consumes 1, case_names step])
  case (step loop program m res)
  show ?case
  proof
    assume safe: "mc_safe m"
    obtain q m1 where st: "mc_step (program ! nat (mc_pc m)) m = (q, m1)" by force
    then have e: "mc_safe m1" "mc_view m \<subseteq>\<^sub>m mc_view m1"
      using mc_extends_step [of m "program ! nat (mc_pc m)"] safe by (simp_all add: mc_extends_def)
    show "mc_safe (snd res) \<and> mc_view m \<subseteq>\<^sub>m mc_view (snd res) \<and> (fst res = Inr () \<longrightarrow> mc_pc (snd res) = int (length program) - 1)"
    proof (cases "mc_pc m = int (length program) - 1 \<or> mc_pc m \<ge> int (length program) \<or> (\<exists>x. q = Inl x)")
      case True
      then show ?thesis using step(2) safe e by (auto simp: st split: if_splits sum.splits)
    next
      case False
      then obtain u where q: "q = Inr u" by (cases q) auto
      then have "loop program m1 = Some res" using step(2) False by (auto simp: st split: if_splits)
      from step(1) [OF this] e show ?thesis by (auto intro: map_le_trans)
    qed
  qed
qed

lemma run_halts:
  assumes "mc_run program (first, second) = Some (Inr m)"
  shows "mc_pc m = int (length program) - 1 \<and> mc_fp m = 0 \<and> mc_view m 0 = Some first \<and> mc_view m 1 = Some second"
proof -
  from assms have l: "mc_run_loop program (mc_with_public_input first second) = Some (Inr (), m)" and fp: "mc_fp m = 0"
    by (auto simp: mc_run_def split: if_splits option.splits sum.splits)
  have "mc_safe (mc_with_public_input first second)"
    by (simp add: mc_safe_def mc_knows_def mc_with_public_input_def)
  with mc_run_loop_Some [OF l] have "mc_view (mc_with_public_input first second) \<subseteq>\<^sub>m mc_view m" "mc_pc m = int (length program) - 1"
    by simp_all
  moreover have "mc_view (mc_with_public_input first second) 0 = Some first" "mc_view (mc_with_public_input first second) 1 = Some second"
    by (simp_all add: mc_view_def mc_with_public_input_def)
  ultimately show ?thesis using fp by (metis domI map_le_def)
qed

section \<open>Properties\<close>

text \<open>
  C13. The endpoint refines the reference machine of \<open>sim/scalar_step_oracle.py\<close>. Take a
  well-formed request that the host prepared from a machine's state (same program counter and
  frame pointer, the supplied cells are the machine's). When the endpoint accepts it, under
  either profile, the machine's own step succeeds, and it reaches the program counter and frame
  pointer the endpoint computed and the memory extended by exactly the endpoint's writes: the
  proposals in the request (inverse, pointer index, branch destination) cannot make the
  endpoint compute anything else.
\<close>

theorem endpoint_refines_oracle:
  assumes "dq_wf d" "dq_opcode d \<in> {OP_SET_CONSTANT, OP_XOR, OP_MUL_NATIVE, OP_DEREF_PC, OP_DEREF_FP, OP_JUMP}"
    and "prepared_from m d" and "execute d (fresh_staged d) n = Inr (s, n')"
  shows "\<exists>m'. mc_step (oracle_instruction d) m = (Inr (), m') \<and> mc_ok m' \<and>
    mc_pc m' = st_next_pc s \<and> mc_fp m' = st_next_fp s \<and> mc_view m' = mc_view m ++ writes_map (st_writes s)"
  by (rule execute_refines [OF assms]) blast

text \<open>
  The exhaustive search of the reference machine and the index check of the endpoint agree:
  the search over \<open>2^16\<close> candidates returns an index exactly when the endpoint accepts that
  index for the pointer. A pointer therefore has at most one acceptable index.
\<close>

theorem index_search_iff_verified: "or_reverse p (2 ^ 16) = Inr i \<longleftrightarrow> verify_index i p = Inr 2064"
  unfolding or_reverse_iff verify_index_Inr by blast

text \<open>
  The reference machine's inverse, by square and multiply with its own multiplication, is
  the inverse the host proposes to the endpoint.
\<close>

theorem oracle_inverse_is_host_inverse:
  assumes "fits 128 v" "v \<noteq> 0"
  shows "field_inverse v = Inr (or_inverse v)"
  using field_inverse_gf [OF assms] or_inverse_gf [OF assms] by simp

text \<open>
  C14. A run of the reference machine that returns without a fault stops at the last
  instruction with frame pointer zero, and the two public input words are still in memory:
  whatever the program, no step overwrites a written cell.
\<close>

theorem run_keeps_public_input:
  assumes "mc_run program (first, second) = Some (Inr m)"
  shows "mc_pc m = int (length program) - 1 \<and> mc_fp m = 0 \<and> mc_view m 0 = Some first \<and> mc_view m 1 = Some second"
  using assms by (rule run_halts)

section \<open>Examples\<close>

definition oracle_example :: machine where
  "oracle_example = \<lparr>mc_memory = [11 \<mapsto> 3, 12 \<mapsto> 5], mc_written = {11, 12}, mc_pc = 7, mc_fp = 10, mc_cycles = 0\<rparr>"

text \<open>An XOR whose first operand is absent: both sides solve for it.\<close>

definition request_example :: decoded_request where
  "request_example = (DecodedRequest OP_XOR)\<lparr>dq_pc := 7, dq_fp := 10, dq_profile := INTERPRETER_COMPAT,
     dq_offsets := [0, 1, 2], dq_cells := [ABSENT, Cell True 3, Cell True 5]\<rparr>"

lemma request_example_wf: "dq_wf request_example" "prepared_from oracle_example request_example"
  by (simp_all add: request_example_def oracle_example_def dq_wf_def dq_defaults_def dq_fields_ok_def dq_lengths_def DecodedRequest_def
    INSTRUCTION_OPCODES_def fits_def ABSENT_def cell_ok_def prepared_from_def mc_ok_def request_addresses_def mc_cell_def mc_view_def Let_def)

lemma request_example_executes:
  "\<exists>s. execute request_example (fresh_staged request_example) 0 = Inr (s, 0) \<and> st_writes s = [Write 10 6] \<and> st_next_pc s = 8"
  by (simp add: execute_def request_example_def DecodedRequest_def execute_binary_def operands_def checked_add_def U32_MAX_def Let_def
    Frame_def fr_supply_def ABSENT_def back_solve_def fr_present_def fr_read_def fr_cell_def fr_write_once_def fresh_staged_def
    StagedTransaction_def)

lemma endpoint_refines_oracle_witness:
  "\<exists>s m'. execute request_example (fresh_staged request_example) 0 = Inr (s, 0) \<and>
     mc_step (''xor'', [0, 1, 2]) oracle_example = (Inr (), m') \<and> mc_view m' 10 = Some 6 \<and> mc_pc m' = 8"
proof -
  obtain s where s: "execute request_example (fresh_staged request_example) 0 = Inr (s, 0)" "st_writes s = [Write 10 6]" "st_next_pc s = 8"
    using request_example_executes by blast
  have op: "dq_opcode request_example \<in> {OP_SET_CONSTANT, OP_XOR, OP_MUL_NATIVE, OP_DEREF_PC, OP_DEREF_FP, OP_JUMP}"
    and i: "oracle_instruction request_example = (''xor'', [0, 1, 2])"
    by (simp_all add: request_example_def DecodedRequest_def oracle_instruction_def)
  from endpoint_refines_oracle [OF request_example_wf(1) op request_example_wf(2) s(1)] i s(2,3)
  have "\<exists>m'. mc_step (''xor'', [0, 1, 2]) oracle_example = (Inr (), m') \<and> mc_view m' 10 = Some 6 \<and> mc_pc m' = 8"
    by (auto simp: writes_map_def)
  with s(1) show ?thesis by blast
qed

lemma oracle_inverse_is_host_inverse_witness: "field_inverse 2 = Inr (or_inverse 2)"
  by (rule oracle_inverse_is_host_inverse) (simp_all add: fits_def)

text \<open>Four instructions: write a cell and fall through to the last one.\<close>

definition program_example :: "(string \<times> int list) list" where
  "program_example = [(''set'', [2, 9]), (''xor'', [2, 2, 3]), (''set'', [4, 1]), (''set'', [0, 0])]"

lemma run_keeps_public_input_witness:
  "\<exists>m. mc_run program_example (5, 6) = Some (Inr m) \<and> mc_pc m = 3 \<and> mc_view m 0 = Some 5"
proof -
  obtain m where "mc_run program_example (5, 6) = Some (Inr m)"
    by (simp add: program_example_def mc_run_def mc_with_public_input_def mc_run_loop.simps mc_step_def mc_set_def mc_xor_def mc_binary_def
      mc_locals3_def mc_local_def or_checked_add_def U32_MAX_def Let_def mc_fill_def mc_write_once_def mc_advance_def mc_read_def MASK_def)
  from this run_keeps_public_input [OF this] show ?thesis by (auto simp: program_example_def)
qed

end
