(* ===== verification/Blake3_Service.thy ===== *)
theory Blake3_Service
  imports Lsc_Endpoint
begin

text \<open>
  The external BLAKE3 compression service of \<open>host/blake3_service.py\<close>: the bound request and
  response with their encodings, the compression function, and the replay and retry guard
  \<open>ModelServiceAdapter\<close>. The service that computes a digest is a parameter: a routine on a
  state of its own, since a retry may answer differently.
\<close>

section \<open>Conversions that raise\<close>

text \<open>\<open>value.to_bytes(n, "little")\<close> and \<open>bytes((v,))\<close>.\<close>

definition to_bytes :: "nat \<Rightarrow> int \<Rightarrow> bytes res" where
  "to_bytes n v = (if fits (8 * n) v then Inr (to_le n v) else Inl OverflowError)"

definition byte_of :: "int \<Rightarrow> bytes res" where
  "byte_of v = (if fits 8 v then Inr [word_of_int v] else Inl ValueError)"

section \<open>Service messages\<close>

definition SCHEMA_VERSION :: int where "SCHEMA_VERSION = 1"
definition KNOWN_FLAGS :: int where "KNOWN_FLAGS = 0x7F"
definition SERVICE_REQUIRED_BYTES :: nat where "SERVICE_REQUIRED_BYTES = 131"
definition SERVICE_RESPONSE_BYTES :: nat where "SERVICE_RESPONSE_BYTES = 53"

datatype service_status = SVC_OK | TRANSIENT_FAILURE | PERMANENT_FAILURE

fun service_status_code :: "service_status \<Rightarrow> int" where
  "service_status_code SVC_OK = 0"
| "service_status_code TRANSIENT_FAILURE = 1"
| "service_status_code PERMANENT_FAILURE = 2"

definition service_status_of :: "int \<Rightarrow> service_status option" where
  "service_status_of n = find (\<lambda>s. service_status_code s = n) [SVC_OK, TRANSIENT_FAILURE, PERMANENT_FAILURE]"

record service_key =
  sk_session_epoch :: int
  sk_txn_id :: int
  sk_service_id :: int
  sk_kind :: int

text \<open>The \<open>__post_init__\<close> checks make construction fallible.\<close>

definition ServiceKey :: "int \<Rightarrow> int \<Rightarrow> int \<Rightarrow> int \<Rightarrow> service_key res" where
  "ServiceKey session_epoch txn_id service_id kind =
     (if \<not> (0 < session_epoch \<and> session_epoch < 2 ^ 64) then Inl ServiceSemanticError
      else if \<not> (0 \<le> txn_id \<and> txn_id < 2 ^ 32) then Inl ServiceSemanticError
      else if \<not> (0 \<le> service_id \<and> service_id < 2 ^ 32) then Inl ServiceSemanticError
      else if \<not> (0 \<le> kind \<and> kind < 2 ^ 8) then Inl ServiceSemanticError
      else Inr \<lparr>sk_session_epoch = session_epoch, sk_txn_id = txn_id, sk_service_id = service_id, sk_kind = kind\<rparr>)"

record service_required =
  sq_key :: service_key
  sq_message :: bytes
  sq_chaining_value :: bytes
  sq_counter :: int
  sq_block_len :: int
  sq_flags :: int

definition ServiceRequired :: "service_key \<Rightarrow> bytes \<Rightarrow> bytes \<Rightarrow> int \<Rightarrow> int \<Rightarrow> int \<Rightarrow> service_required res" where
  "ServiceRequired key message chaining_value counter block_len flags =
     (if length message \<noteq> 64 \<or> length chaining_value \<noteq> 32 then Inl ServiceSemanticError
      else if \<not> (0 \<le> counter \<and> counter < 2 ^ 64) then Inl ServiceSemanticError
      else if \<not> (0 \<le> block_len \<and> block_len \<le> 64) then Inl ServiceSemanticError
      else if flags AND NOT KNOWN_FLAGS \<noteq> 0 then Inl ServiceSemanticError
      else if sk_kind key \<noteq> service_kind_code BLAKE3_COMPRESS then Inl ServiceSemanticError
      else Inr \<lparr>sq_key = key, sq_message = message, sq_chaining_value = chaining_value,
                sq_counter = counter, sq_block_len = block_len, sq_flags = flags\<rparr>)"

definition encode_required :: "service_required \<Rightarrow> bytes res" where
  "encode_required r =
     catE [byte_of SCHEMA_VERSION, to_bytes 8 (sk_session_epoch (sq_key r)),
           to_bytes 4 (sk_txn_id (sq_key r)), to_bytes 4 (sk_service_id (sq_key r)),
           byte_of (sk_kind (sq_key r)), byte_of 0, Inr (sq_message r), Inr (sq_chaining_value r),
           to_bytes 8 (sq_counter r), to_bytes 4 (sq_block_len r), to_bytes 4 (sq_flags r)]"

text \<open>\<open>int.from_bytes(payload[i:j], "little")\<close>.\<close>

definition le_slice :: "nat \<Rightarrow> nat \<Rightarrow> bytes \<Rightarrow> int" where
  "le_slice i j payload = le_int (pyslice i j payload)"

definition decode_required :: "bytes \<Rightarrow> service_required res" where
  "decode_required payload =
     (if length payload \<noteq> SERVICE_REQUIRED_BYTES then Inl ServiceSemanticError
      else if uint (payload ! 0) \<noteq> SCHEMA_VERSION \<or> payload ! 18 \<noteq> 0 then Inl ServiceSemanticError
      else
        bindE (ServiceKey (le_slice 1 9 payload) (le_slice 9 13 payload) (le_slice 13 17 payload) (uint (payload ! 17)))
          (\<lambda>key. ServiceRequired key (pyslice 19 83 payload) (pyslice 83 115 payload)
             (le_slice 115 123 payload) (le_slice 123 127 payload) (le_slice 127 131 payload)))"

definition required_from_v1 :: "bytes \<Rightarrow> int \<Rightarrow> service_required res" where
  "required_from_v1 payload session_epoch =
     (if length payload \<noteq> 122 \<or> payload ! 9 \<noteq> 0 then Inl ServiceSemanticError
      else
        let metadata = pyslice 106 122 payload in
        bindE (ServiceKey session_epoch (le_slice 0 4 payload) (le_slice 4 8 payload) (uint (payload ! 8)))
          (\<lambda>key. ServiceRequired key (pyslice 10 74 payload) (pyslice 74 106 payload)
             (le_slice 0 8 metadata) (le_slice 8 12 metadata) (le_slice 12 16 metadata)))"

record service_response =
  sp_key :: service_key
  sp_status :: service_status
  sp_digest :: bytes

definition ServiceResponse :: "service_key \<Rightarrow> service_status \<Rightarrow> bytes \<Rightarrow> service_response res" where
  "ServiceResponse key st digest =
     (if length digest \<noteq> 32 then Inl ServiceSemanticError
      else Inr \<lparr>sp_key = key, sp_status = st, sp_digest = digest\<rparr>)"

definition encode_service_reply :: "service_response \<Rightarrow> bytes res" where
  "encode_service_reply r =
     catE [byte_of SCHEMA_VERSION, to_bytes 8 (sk_session_epoch (sp_key r)),
           to_bytes 4 (sk_txn_id (sp_key r)), to_bytes 4 (sk_service_id (sp_key r)),
           byte_of (sk_kind (sp_key r)), byte_of (service_status_code (sp_status r)),
           to_bytes 2 32, Inr (sp_digest r)]"

definition decode_service_reply :: "bytes \<Rightarrow> service_response res" where
  "decode_service_reply payload =
     (if length payload \<noteq> SERVICE_RESPONSE_BYTES then Inl ServiceSemanticError
      else if uint (payload ! 0) \<noteq> SCHEMA_VERSION \<or> le_slice 19 21 payload \<noteq> 32 then Inl ServiceSemanticError
      else
        case service_status_of (uint (payload ! 18)) of
          None \<Rightarrow> Inl ServiceSemanticError
        | Some st \<Rightarrow>
            bindE (ServiceKey (le_slice 1 9 payload) (le_slice 9 13 payload) (le_slice 13 17 payload) (uint (payload ! 17)))
              (\<lambda>key. ServiceResponse key st (pyslice 21 53 payload)))"

section \<open>The compression function\<close>

definition IV :: "int list" where
  "IV = [0x6A09E667, 0xBB67AE85, 0x3C6EF372, 0xA54FF53A, 0x510E527F, 0x9B05688C, 0x1F83D9AB, 0x5BE0CD19]"

definition PERM :: "nat list" where
  "PERM = [2, 6, 3, 10, 7, 0, 4, 13, 1, 11, 12, 5, 9, 14, 15, 8]"

definition rotr32 :: "int \<Rightarrow> nat \<Rightarrow> int" where
  "rotr32 v count = (drop_bit count v OR push_bit (32 - count) v) AND 0xFFFFFFFF"

definition g_mix :: "nat \<Rightarrow> nat \<Rightarrow> nat \<Rightarrow> nat \<Rightarrow> int \<Rightarrow> int \<Rightarrow> int list \<Rightarrow> int list" where
  "g_mix a b c d x y state =
     (let state = state[a := (state ! a + state ! b + x) AND 0xFFFFFFFF];
          state = state[d := rotr32 (state ! d XOR state ! a) 16];
          state = state[c := (state ! c + state ! d) AND 0xFFFFFFFF];
          state = state[b := rotr32 (state ! b XOR state ! c) 12];
          state = state[a := (state ! a + state ! b + y) AND 0xFFFFFFFF];
          state = state[d := rotr32 (state ! d XOR state ! a) 8];
          state = state[c := (state ! c + state ! d) AND 0xFFFFFFFF];
          state = state[b := rotr32 (state ! b XOR state ! c) 7]
      in state)"

text \<open>One of the seven rounds, on the message words \<open>m\<close> the schedule selects.\<close>

definition round_mix :: "int list \<Rightarrow> int list \<Rightarrow> int list" where
  "round_mix m state =
     (let state = g_mix 0 4 8 12 (m ! 0) (m ! 1) state;
          state = g_mix 1 5 9 13 (m ! 2) (m ! 3) state;
          state = g_mix 2 6 10 14 (m ! 4) (m ! 5) state;
          state = g_mix 3 7 11 15 (m ! 6) (m ! 7) state;
          state = g_mix 0 5 10 15 (m ! 8) (m ! 9) state;
          state = g_mix 1 6 11 12 (m ! 10) (m ! 11) state;
          state = g_mix 2 7 8 13 (m ! 12) (m ! 13) state;
          state = g_mix 3 4 9 14 (m ! 14) (m ! 15) state
      in state)"

fun rounds :: "nat \<Rightarrow> int list \<Rightarrow> nat list \<Rightarrow> int list \<Rightarrow> int list" where
  "rounds 0 words schedule state = state"
| "rounds (Suc n) words schedule state =
     rounds n words (map (\<lambda>i. schedule ! i) PERM) (round_mix (map (\<lambda>i. words ! i) schedule) state)"

text \<open>\<open>[int.from_bytes(data[i:i + 4], "little") for i in range(0, 4 * n, 4)]\<close>.\<close>

definition words_of :: "nat \<Rightarrow> bytes \<Rightarrow> int list" where
  "words_of n data = map (\<lambda>k. le_slice (4 * k) (4 * k + 4) data) [0..<n]"

definition compress :: "service_required \<Rightarrow> bytes" where
  "compress r =
     (let cv = words_of 8 (sq_chaining_value r);
          words = words_of 16 (sq_message r);
          state = cv @ take 4 IV @
            [sq_counter r AND 0xFFFFFFFF, drop_bit 32 (sq_counter r), sq_block_len r, sq_flags r];
          state = rounds 7 words [0..<16] state
      in concat (map (\<lambda>i. to_le 4 ((state ! i XOR state ! (i + 8)) AND 0xFFFFFFFF)) [0..<8]))"

section \<open>The replay guard\<close>

record service_adapter =
  ad_session_epoch :: int
  ad_used_epochs :: "int set"
  ad_max_retries :: nat
  ad_outstanding :: "service_key option"
  ad_outstanding_request :: "service_required option"
  ad_completed :: "service_key set"

definition ModelServiceAdapter :: "int \<Rightarrow> int \<Rightarrow> service_adapter res" where
  "ModelServiceAdapter session_epoch max_retries =
     (if \<not> (0 < session_epoch \<and> session_epoch < 2 ^ 64) then Inl ValueError
      else if max_retries < 0 then Inl ValueError
      else Inr \<lparr>ad_session_epoch = session_epoch, ad_used_epochs = {session_epoch},
                ad_max_retries = nat max_retries, ad_outstanding = None, ad_outstanding_request = None,
                ad_completed = {}\<rparr>)"

definition accept_required :: "bytes \<Rightarrow> (service_adapter, exn, service_required) routine" where
  "accept_required payload a =
     thenM (required_from_v1 payload (ad_session_epoch a), a) (\<lambda>request a.
       case ad_outstanding a of
         Some key \<Rightarrow>
           if sq_key request \<noteq> key then (Inl ServiceSemanticError, a)
           else if Some request \<noteq> ad_outstanding_request a then (Inl ServiceSemanticError, a)
           else (Inr request, a)
       | None \<Rightarrow>
           if sq_key request \<in> ad_completed a then (Inl ServiceSemanticError, a)
           else (Inr request, a\<lparr>ad_outstanding := Some (sq_key request),
                               ad_outstanding_request := Some request\<rparr>))"

text \<open>
  The retry loop with \<open>n\<close> attempts left. Only \<open>ServiceInfrastructureError\<close> is retried.
\<close>

fun compute_loop :: "nat \<Rightarrow> (service_required \<Rightarrow> 'w \<Rightarrow> bytes res \<times> 'w) \<Rightarrow> service_required
    \<Rightarrow> 'w \<Rightarrow> service_response res \<times> 'w" where
  "compute_loop 0 service request w = (Inl AssertionError, w)"
| "compute_loop (Suc n) service request w =
     (case service request w of
        (Inl ServiceInfrastructureError, w) \<Rightarrow>
          if n = 0 then (Inl ServiceInfrastructureError, w) else compute_loop n service request w
      | (Inl e, w) \<Rightarrow> (Inl e, w)
      | (Inr digest, w) \<Rightarrow>
          if length digest \<noteq> 32 then (Inl ServiceSemanticError, w)
          else (ServiceResponse (sq_key request) SVC_OK digest, w))"

definition compute :: "service_adapter \<Rightarrow> service_required \<Rightarrow> (service_required \<Rightarrow> 'w \<Rightarrow> bytes res \<times> 'w)
    \<Rightarrow> 'w \<Rightarrow> service_response res \<times> 'w" where
  "compute a request service w =
     (if Some request \<noteq> ad_outstanding_request a then (Inl ServiceSemanticError, w)
      else compute_loop (ad_max_retries a + 1) service request w)"

definition to_v1 :: "service_adapter \<Rightarrow> service_response \<Rightarrow> request_frame res" where
  "to_v1 a response =
     (if Some (sp_key response) \<noteq> ad_outstanding a then Inl ServiceSemanticError
      else if sp_status response \<noteq> SVC_OK then Inl ServiceSemanticError
      else
        let digest = (le_int (take 16 (sp_digest response)), le_int (drop 16 (sp_digest response))) in
        case service_kind_of (sk_kind (sp_key response)) of
          None \<Rightarrow> Inl ValueError
        | Some kind \<Rightarrow>
            build_service_response (sk_txn_id (sp_key response)) (sk_service_id (sp_key response)) digest kind)"

definition ad_complete :: "service_key \<Rightarrow> (service_adapter, exn, unit) routine" where
  "ad_complete key a =
     (if Some key \<noteq> ad_outstanding a then (Inl ServiceSemanticError, a)
      else (Inr (), a\<lparr>ad_completed := insert key (ad_completed a), ad_outstanding := None,
                      ad_outstanding_request := None\<rparr>))"

definition ad_abort :: "service_adapter \<Rightarrow> service_adapter" where
  "ad_abort a =
     (case ad_outstanding a of None \<Rightarrow> a | Some key \<Rightarrow> a\<lparr>ad_completed := insert key (ad_completed a)\<rparr>)
       \<lparr>ad_outstanding := None, ad_outstanding_request := None\<rparr>"

definition ad_reset :: "int \<Rightarrow> (service_adapter, exn, unit) routine" where
  "ad_reset new_session_epoch a =
     (if \<not> (0 < new_session_epoch \<and> new_session_epoch < 2 ^ 64) then (Inl ValueError, a)
      else if new_session_epoch \<in> ad_used_epochs a then (Inl ValueError, a)
      else (Inr (), a\<lparr>ad_used_epochs := insert new_session_epoch (ad_used_epochs a),
                      ad_session_epoch := new_session_epoch, ad_outstanding := None,
                      ad_outstanding_request := None, ad_completed := {}\<rparr>))"

section \<open>Fixed layouts\<close>

lemma pyslice_chain: "i \<le> j \<Longrightarrow> drop i xs = pyslice i j xs @ drop j xs"
  by (metis append_take_drop_id drop_drop le_add_diff_inverse2 pyslice_def)



lemma nth_chain: "i < length xs \<Longrightarrow> drop i xs = xs ! i # drop (Suc i) xs"
  by (simp add: Cons_nth_drop_Suc)

lemma to_bytes_slice: "i \<le> j \<Longrightarrow> j \<le> length xs \<Longrightarrow> n = j - i \<Longrightarrow> to_bytes n (le_slice i j xs) = Inr (pyslice i j xs)"
  by (simp add: to_bytes_def le_slice_def fits_le_int to_le_le_int_len)

lemma byte_of_uint [simp]: "byte_of (uint b) = Inr [b]"
  by (simp add: byte_of_def)

lemma byte_of_0 [simp]: "byte_of 0 = Inr [0]"
  by (simp add: byte_of_def)

lemma to_bytes_Inr: "to_bytes n v = Inr bs \<longleftrightarrow> fits (8 * n) v \<and> bs = to_le n v"
  by (auto simp: to_bytes_def)

lemma byte_of_Inr: "byte_of v = Inr bs \<longleftrightarrow> fits 8 v \<and> bs = [word_of_int v]"
  by (auto simp: byte_of_def)

lemma ServiceKey_iff:
  "ServiceKey e t s k = Inr key \<longleftrightarrow> 0 < e \<and> fits 64 e \<and> fits 32 t \<and> fits 32 s \<and> fits 8 k \<and>
     key = \<lparr>sk_session_epoch = e, sk_txn_id = t, sk_service_id = s, sk_kind = k\<rparr>"
  by (auto simp: ServiceKey_def fits_def)

text \<open>What the constructors establish.\<close>

definition key_ok :: "service_key \<Rightarrow> bool" where
  "key_ok k \<longleftrightarrow> 0 < sk_session_epoch k \<and> fits 64 (sk_session_epoch k) \<and> fits 32 (sk_txn_id k)
     \<and> fits 32 (sk_service_id k) \<and> fits 8 (sk_kind k)"

definition required_ok :: "service_required \<Rightarrow> bool" where
  "required_ok r \<longleftrightarrow> key_ok (sq_key r) \<and> sk_kind (sq_key r) = 1 \<and> length (sq_message r) = 64
     \<and> length (sq_chaining_value r) = 32 \<and> fits 64 (sq_counter r) \<and> 0 \<le> sq_block_len r \<and> sq_block_len r \<le> 64
     \<and> fits 7 (sq_flags r)"

definition reply_ok :: "service_response \<Rightarrow> bool" where
  "reply_ok r \<longleftrightarrow> key_ok (sp_key r) \<and> length (sp_digest r) = 32"

lemma flags_iff: "f AND NOT KNOWN_FLAGS = 0 \<longleftrightarrow> fits 7 f"
proof -
  have "f AND NOT KNOWN_FLAGS = f AND NOT (mask 7)" by (simp add: KNOWN_FLAGS_def mask_eq_exp_minus_1)
  also have "\<dots> = 0 \<longleftrightarrow> take_bit 7 f = f"
    by (auto simp: bit_eq_iff bit_simps)
  finally show ?thesis by (simp add: fits_take_bit_iff)
qed

lemma ServiceRequired_iff:
  "key_ok k \<Longrightarrow> ServiceRequired k m cv c b f = Inr r \<longleftrightarrow> required_ok r \<and>
     r = \<lparr>sq_key = k, sq_message = m, sq_chaining_value = cv, sq_counter = c, sq_block_len = b, sq_flags = f\<rparr>"
  by (auto simp: ServiceRequired_def required_ok_def flags_iff fits_def)

lemma ServiceKey_ok: "ServiceKey e t s k = Inr key \<Longrightarrow> key_ok key"
  by (auto simp: ServiceKey_iff key_ok_def)

definition required_bytes :: "service_required \<Rightarrow> bytes" where
  "required_bytes r = 1 # to_le 8 (sk_session_epoch (sq_key r)) @ to_le 4 (sk_txn_id (sq_key r)) @ to_le 4 (sk_service_id (sq_key r))
     @ word_of_int (sk_kind (sq_key r)) # 0 # sq_message r @ sq_chaining_value r @ to_le 8 (sq_counter r)
     @ to_le 4 (sq_block_len r) @ to_le 4 (sq_flags r)"

lemma encode_required_ok: "required_ok r \<Longrightarrow> encode_required r = Inr (required_bytes r)"
  by (auto simp: encode_required_def required_bytes_def required_ok_def key_ok_def to_bytes_def byte_of_def SCHEMA_VERSION_def fits_def)

lemma decode_required_bytes:
  assumes "required_ok r"
  shows "decode_required (required_bytes r) = Inr r"
proof -
  have f: "fits 32 (sq_block_len r)" "fits 32 (sq_flags r)" using assms fits_mono [of 7 "sq_flags r" 32] by (auto simp: required_ok_def fits_def)
  have k: "ServiceKey (sk_session_epoch (sq_key r)) (sk_txn_id (sq_key r)) (sk_service_id (sq_key r)) (sk_kind (sq_key r)) = Inr (sq_key r)"
    using assms by (simp add: ServiceKey_iff required_ok_def key_ok_def)
  have q: "ServiceRequired (sq_key r) (sq_message r) (sq_chaining_value r) (sq_counter r) (sq_block_len r) (sq_flags r) = Inr r"
    using assms by (subst ServiceRequired_iff) (simp_all add: required_ok_def)
  show ?thesis using assms f k q
    by (simp add: decode_required_def required_bytes_def required_ok_def key_ok_def SERVICE_REQUIRED_BYTES_def SCHEMA_VERSION_def
        le_slice_def pyslice_def nth_append nth_Cons' le_int_to_le fits_def)
qed

lemma decode_required_Inr:
  assumes "decode_required p = Inr r"
  shows "required_ok r" "p = required_bytes r"
proof -
  from assms obtain key where len: "length p = 131" and v: "uint (p ! 0) = 1" "p ! 18 = 0"
    and k: "ServiceKey (le_slice 1 9 p) (le_slice 9 13 p) (le_slice 13 17 p) (uint (p ! 17)) = Inr key"
    and r: "ServiceRequired key (pyslice 19 83 p) (pyslice 83 115 p) (le_slice 115 123 p) (le_slice 123 127 p) (le_slice 127 131 p) = Inr r"
    by (auto simp: decode_required_def bindE_eq_Inr SERVICE_REQUIRED_BYTES_def SCHEMA_VERSION_def split: if_splits)
  note ko = ServiceKey_ok [OF k]
  from r show "required_ok r" unfolding ServiceRequired_iff [OF ko] by blast
  have s: "to_le n (le_slice i j p) = pyslice i j p" if "i \<le> j" "j \<le> 131" "n = j - i" for n i j
    using that len by (simp add: le_slice_def to_le_le_int_len)
  have p0: "p ! 0 = 1" using v(1) by (metis uint_1_eq word_uint_eqI)
  have "p = p ! 0 # pyslice 1 9 p @ pyslice 9 13 p @ pyslice 13 17 p @ p ! 17 # p ! 18 # pyslice 19 83 p @ pyslice 83 115 p
     @ pyslice 115 123 p @ pyslice 123 127 p @ pyslice 127 131 p"
  proof -
    have "p = drop 0 p" by simp
    also have "drop 0 p = p ! 0 # drop 1 p" using nth_chain [of 0 p] len by simp
    also have "drop 1 p = pyslice 1 9 p @ drop 9 p" by (rule pyslice_chain) simp
    also have "drop 9 p = pyslice 9 13 p @ drop 13 p" by (rule pyslice_chain) simp
    also have "drop 13 p = pyslice 13 17 p @ drop 17 p" by (rule pyslice_chain) simp
    also have "drop 17 p = p ! 17 # drop 18 p" using nth_chain [of 17 p] len by simp
    also have "drop 18 p = p ! 18 # drop 19 p" using nth_chain [of 18 p] len by simp
    also have "drop 19 p = pyslice 19 83 p @ drop 83 p" by (rule pyslice_chain) simp
    also have "drop 83 p = pyslice 83 115 p @ drop 115 p" by (rule pyslice_chain) simp
    also have "drop 115 p = pyslice 115 123 p @ drop 123 p" by (rule pyslice_chain) simp
    also have "drop 123 p = pyslice 123 127 p @ drop 127 p" by (rule pyslice_chain) simp
    also have "drop 127 p = pyslice 127 131 p" using len by (simp add: pyslice_def)
    finally show ?thesis .
  qed
  then show "p = required_bytes r"
    using r k v p0 by (simp add: ServiceRequired_iff ko ServiceKey_iff required_bytes_def s)
qed

lemma decode_required_iff: "decode_required p = Inr r \<longleftrightarrow> required_ok r \<and> encode_required r = Inr p"
  using decode_required_Inr decode_required_bytes encode_required_ok by (metis sum.inject(2))

definition reply_bytes :: "service_response \<Rightarrow> bytes" where
  "reply_bytes r = 1 # to_le 8 (sk_session_epoch (sp_key r)) @ to_le 4 (sk_txn_id (sp_key r)) @ to_le 4 (sk_service_id (sp_key r))
     @ word_of_int (sk_kind (sp_key r)) # word_of_int (service_status_code (sp_status r)) # to_le 2 32 @ sp_digest r"

lemma service_status_code_fits [simp]: "fits 8 (service_status_code s)"
  by (cases s) (simp_all add: fits_def)

lemma service_status_of_iff: "service_status_of n = Some s \<longleftrightarrow> n = service_status_code s"
  by (cases s) (auto simp: service_status_of_def split: if_splits)

lemma encode_reply_ok: "reply_ok r \<Longrightarrow> encode_service_reply r = Inr (reply_bytes r)"
  by (cases "sp_status r") (auto simp: encode_service_reply_def reply_bytes_def reply_ok_def key_ok_def to_bytes_def byte_of_def SCHEMA_VERSION_def fits_def)

lemma decode_reply_bytes:
  assumes "reply_ok r"
  shows "decode_service_reply (reply_bytes r) = Inr r"
proof -
  have k: "ServiceKey (sk_session_epoch (sp_key r)) (sk_txn_id (sp_key r)) (sk_service_id (sp_key r)) (sk_kind (sp_key r)) = Inr (sp_key r)"
    using assms by (simp add: ServiceKey_iff reply_ok_def key_ok_def)
  have c: "service_status_code (sp_status r) mod 256 = service_status_code (sp_status r)" by (cases "sp_status r") simp_all
  have st: "service_status_of (service_status_code (sp_status r)) = Some (sp_status r)" by (simp add: service_status_of_iff)
  show ?thesis using assms k c st
    by (simp add: decode_service_reply_def reply_bytes_def reply_ok_def key_ok_def SERVICE_RESPONSE_BYTES_def SCHEMA_VERSION_def
        le_slice_def pyslice_def nth_append nth_Cons' le_int_to_le fits_def ServiceResponse_def)
qed

lemma decode_reply_Inr:
  assumes "decode_service_reply p = Inr r"
  shows "reply_ok r" "p = reply_bytes r"
proof -
  from assms obtain st key where len: "length p = 53" and v: "uint (p ! 0) = 1" "le_slice 19 21 p = 32"
    and st: "uint (p ! 18) = service_status_code st"
    and k: "ServiceKey (le_slice 1 9 p) (le_slice 9 13 p) (le_slice 13 17 p) (uint (p ! 17)) = Inr key"
    and r: "r = \<lparr>sp_key = key, sp_status = st, sp_digest = pyslice 21 53 p\<rparr>"
    by (auto simp: decode_service_reply_def bindE_eq_Inr SERVICE_RESPONSE_BYTES_def SCHEMA_VERSION_def service_status_of_iff
        ServiceResponse_def split: if_splits option.splits)
  show "reply_ok r" using r len ServiceKey_ok [OF k] by (simp add: reply_ok_def)
  have s: "to_le n (le_slice i j p) = pyslice i j p" if "i \<le> j" "j \<le> 53" "n = j - i" for n i j
    using that len by (simp add: le_slice_def to_le_le_int_len)
  have p0: "p ! 0 = 1" using v(1) by (metis uint_1_eq word_uint_eqI)
  have p18: "p ! 18 = word_of_int (service_status_code st)" using st by (metis word_of_int_uint)
  have p19: "pyslice 19 21 p = to_le 2 32" using s [of 19 21 2] v(2) by simp
  have "p = p ! 0 # pyslice 1 9 p @ pyslice 9 13 p @ pyslice 13 17 p @ p ! 17 # p ! 18 # pyslice 19 21 p @ pyslice 21 53 p"
  proof -
    have "p = drop 0 p" by simp
    also have "drop 0 p = p ! 0 # drop 1 p" using nth_chain [of 0 p] len by simp
    also have "drop 1 p = pyslice 1 9 p @ drop 9 p" by (rule pyslice_chain) simp
    also have "drop 9 p = pyslice 9 13 p @ drop 13 p" by (rule pyslice_chain) simp
    also have "drop 13 p = pyslice 13 17 p @ drop 17 p" by (rule pyslice_chain) simp
    also have "drop 17 p = p ! 17 # drop 18 p" using nth_chain [of 17 p] len by simp
    also have "drop 18 p = p ! 18 # drop 19 p" using nth_chain [of 18 p] len by simp
    also have "drop 19 p = pyslice 19 21 p @ drop 21 p" by (rule pyslice_chain) simp
    also have "drop 21 p = pyslice 21 53 p" using len by (simp add: pyslice_def)
    finally show ?thesis .
  qed
  then show "p = reply_bytes r"
    using r k p0 p18 p19 by (simp add: ServiceKey_iff reply_bytes_def s)
qed

lemma decode_reply_iff: "decode_service_reply p = Inr r \<longleftrightarrow> reply_ok r \<and> encode_service_reply r = Inr p"
  using decode_reply_Inr decode_reply_bytes encode_reply_ok by (metis sum.inject(2))

section \<open>The compression function in word arithmetic\<close>

text \<open>
  The compression function as its specification gives it: 32-bit words, modular addition,
  rotation, and a permutation of the message words between the rounds.
\<close>

definition mix32 :: "nat \<Rightarrow> nat \<Rightarrow> nat \<Rightarrow> nat \<Rightarrow> 32 word \<Rightarrow> 32 word \<Rightarrow> 32 word list \<Rightarrow> 32 word list" where
  "mix32 a b c d x y v =
     (let v = v[a := v ! a + v ! b + x]; v = v[d := word_rotr 16 (v ! d XOR v ! a)];
          v = v[c := v ! c + v ! d]; v = v[b := word_rotr 12 (v ! b XOR v ! c)];
          v = v[a := v ! a + v ! b + y]; v = v[d := word_rotr 8 (v ! d XOR v ! a)];
          v = v[c := v ! c + v ! d]; v = v[b := word_rotr 7 (v ! b XOR v ! c)]
      in v)"

definition round32 :: "32 word list \<Rightarrow> 32 word list \<Rightarrow> 32 word list" where
  "round32 m v = fold (\<lambda>(k, a, b, c, d). mix32 a b c d (m ! (2 * k)) (m ! (2 * k + 1)))
     [(0, 0, 4, 8, 12), (1, 1, 5, 9, 13), (2, 2, 6, 10, 14), (3, 3, 7, 11, 15),
      (4, 0, 5, 10, 15), (5, 1, 6, 11, 12), (6, 2, 7, 8, 13), (7, 3, 4, 9, 14)] v"

fun rounds32 :: "nat \<Rightarrow> 32 word list \<Rightarrow> 32 word list \<Rightarrow> 32 word list" where
  "rounds32 0 m v = v"
| "rounds32 (Suc n) m v = rounds32 n (map ((!) m) PERM) (round32 m v)"

definition compress32 :: "32 word list \<Rightarrow> 32 word list \<Rightarrow> 64 word \<Rightarrow> 32 word \<Rightarrow> 32 word \<Rightarrow> 32 word list" where
  "compress32 h m t b d =
     (let v = rounds32 7 m (h @ map word_of_int (take 4 IV) @ [ucast t, ucast (drop_bit 32 t), b, d])
      in map (\<lambda>i. v ! i XOR v ! (i + 8)) [0..<8])"

lemma and_word32: "v AND 0xFFFFFFFF = take_bit 32 (v :: int)"
  by (simp add: take_bit_eq_mask mask_eq_exp_minus_1)

lemma uint_add32: "(uint u + uint v + uint w) AND 0xFFFFFFFF = uint (u + v + w :: 32 word)"
  "(uint u + uint v) AND 0xFFFFFFFF = uint (u + v :: 32 word)"
  by (simp_all add: and_word32 uint_word_ariths take_bit_eq_mod mod_simps)

lemma xor_uint32: "(uint u XOR uint v) AND 0xFFFFFFFF = uint (u XOR v :: 32 word)"
proof -
  have "take_bit 32 (uint (u XOR v)) = uint (u XOR v)" using uint_lt2p [of "u XOR v"] by (intro take_bit_int_eq_self) simp_all
  then show ?thesis by (simp only: and_word32 unsigned_xor_eq)
qed

lemma rotr32_uint:
  assumes "0 < n" "n < 32"
  shows "rotr32 (uint w) n = uint (word_rotr n (w :: 32 word))"
proof (rule bit_eqI)
  fix i
  have high: "\<not> bit (uint w) k" if "32 \<le> k" for k using that by (simp add: bit_uint_iff)
  show "bit (rotr32 (uint w) n) i = bit (uint (word_rotr n w)) i"
  proof (cases "i < 32")
    case True
    show ?thesis
    proof (cases "i + n < 32")
      case t: True
      then show ?thesis using True assms
        by (auto simp: rotr32_def and_word32 bit_take_bit_iff bit_or_iff bit_drop_bit_eq bit_push_bit_iff bit_uint_iff bit_word_rotr_iff add.commute)
    next
      case False
      then have "(i + n) mod 32 = i - (32 - n)" using True assms by (simp add: mod_if)
      then show ?thesis using True False assms high [of "n + i"]
        by (auto simp: rotr32_def and_word32 bit_take_bit_iff bit_or_iff bit_drop_bit_eq bit_push_bit_iff bit_uint_iff bit_word_rotr_iff)
    qed
  next
    case False
    then show ?thesis by (simp add: rotr32_def and_word32 bit_take_bit_iff bit_uint_iff bit_or_iff)
  qed
qed

lemma g_mix_uint:
  assumes "length v = 16" "a < 16" "b < 16" "c < 16" "d < 16"
  shows "g_mix a b c d (uint x) (uint y) (map uint v) = map uint (mix32 a b c d x y v)"
  using assms
  by (simp add: g_mix_def mix32_def Let_def uint_add32 rotr32_uint nth_list_update map_update [symmetric] flip: unsigned_xor_eq)

lemma length_mix32 [simp]: "length (mix32 a b c d x y v) = length v"
  by (simp add: mix32_def Let_def)

lemma round_mix_uint:
  assumes "length v = 16" "length m = 16"
  shows "round_mix (map uint m) (map uint v) = map uint (round32 m v)" "length (round32 m v) = 16"
  using assms by (simp_all add: round_mix_def round32_def g_mix_uint numeral_3_eq_3 [symmetric])

lemma PERM_less: "i \<in> set PERM \<Longrightarrow> i < 16" "length PERM = 16"
  by (auto simp: PERM_def)

lemma rounds_uint:
  assumes "length w = 16" "length schedule = 16" "\<forall>i\<in>set schedule. i < 16" "length v = 16"
  shows "rounds n (map uint w) schedule (map uint v) = map uint (rounds32 n (map ((!) w) schedule) v)
    \<and> length (rounds32 n (map ((!) w) schedule) v) = 16"
  using assms(2-)
proof (induction n arbitrary: schedule v)
  case (Suc n)
  define sched where "sched = map ((!) schedule) PERM"
  have s: "length sched = 16" "\<forall>i\<in>set sched. i < 16"
    using Suc.prems PERM_less by (auto simp: sched_def)
  have m: "map ((!) (map uint w)) schedule = map uint (map ((!) w) schedule)"
    using Suc.prems assms(1) by simp
  have p: "map ((!) (map ((!) w) schedule)) PERM = map ((!) w) sched"
    using Suc.prems PERM_less by (simp add: sched_def)
  have r: "round_mix (map uint (map ((!) w) schedule)) (map uint v) = map uint (round32 (map ((!) w) schedule) v)"
    "length (round32 (map ((!) w) schedule) v) = 16"
    by (rule round_mix_uint; use Suc.prems in simp)+
  show ?case
    unfolding rounds.simps rounds32.simps m r(1) p sched_def [symmetric] by (rule Suc.IH [OF s r(2)])
qed simp

lemma words_of_uint: "length bs = 4 * n \<Longrightarrow> words_of n bs = map uint (map (\<lambda>v. word_of_int v :: 32 word) (words_of n bs))"
proof -
  assume len: "length bs = 4 * n"
  have "uint (word_of_int v :: 32 word) = v" if "v \<in> set (words_of n bs)" for v
  proof -
    from that obtain k where k: "k < n" "v = le_slice (4 * k) (4 * k + 4) bs" by (auto simp: words_of_def)
    then have "fits 32 v" unfolding k(2) le_slice_def by (intro fits_le_int) (use len k(1) in simp)
    then show ?thesis by (simp add: uint_word_of_int fits_def)
  qed
  then show ?thesis by (simp add: map_idI)
qed

lemma length_words_of [simp]: "length (words_of n bs) = n"
  by (simp add: words_of_def)

text \<open>The chaining value \<open>compress\<close> computes, as the byte string of the specification's words.\<close>

definition blake3_bytes :: "service_required \<Rightarrow> bytes" where
  "blake3_bytes r = concat (map (\<lambda>w. to_le 4 (uint w))
     (compress32 (map word_of_int (words_of 8 (sq_chaining_value r))) (map word_of_int (words_of 16 (sq_message r)))
        (word_of_int (sq_counter r)) (word_of_int (sq_block_len r)) (word_of_int (sq_flags r))))"

lemma compress_words:
  assumes ok: "required_ok r"
  shows "compress r = blake3_bytes r"
proof -
  define h where "h = map (\<lambda>v. word_of_int v :: 32 word) (words_of 8 (sq_chaining_value r))"
  define m where "m = map (\<lambda>v. word_of_int v :: 32 word) (words_of 16 (sq_message r))"
  define t where "t = (word_of_int (sq_counter r) :: 64 word)"
  define v where "v = h @ map word_of_int (take 4 IV) @ [ucast t, ucast (drop_bit 32 t), word_of_int (sq_block_len r), word_of_int (sq_flags r) :: 32 word]"
  have len: "length h = 8" "length m = 16" "length v = 16" by (simp_all add: h_def m_def v_def IV_def)
  have hm: "words_of 8 (sq_chaining_value r) = map uint h" "words_of 16 (sq_message r) = map uint m"
    using ok words_of_uint by (simp_all add: required_ok_def h_def m_def)
  have c: "fits 64 (sq_counter r)" "fits 32 (sq_block_len r)" "fits 32 (sq_flags r)"
    using ok fits_mono [of 7 "sq_flags r" 32] by (auto simp: required_ok_def fits_def)
  have iv: "map uint (map word_of_int (take 4 IV) :: 32 word list) = take 4 IV" by (simp add: IV_def)
  have ut: "uint t = sq_counter r" using c(1) by (simp add: t_def uint_word_of_int fits_def)
  have u1: "uint (ucast t :: 32 word) = sq_counter r AND 0xFFFFFFFF"
    by (simp add: unsigned_ucast_eq ut and_word32)
  have "fits 32 (drop_bit 32 (sq_counter r))"
    using c(1) by (auto simp: fits_def drop_bit_eq_div div_less_iff_less_mult pos_imp_zdiv_nonneg_iff)
  then have u2: "uint (ucast (drop_bit 32 t) :: 32 word) = drop_bit 32 (sq_counter r)"
    by (simp add: unsigned_ucast_eq unsigned_drop_bit_eq ut fits_take_bit_iff take_bit_drop_bit fits_def take_bit_int_eq_self)
  have state: "map uint h @ take 4 IV @ [sq_counter r AND 0xFFFFFFFF, drop_bit 32 (sq_counter r), sq_block_len r, sq_flags r] = map uint v"
    using c(2,3) iv u1 u2 by (simp add: v_def uint_word_of_int fits_def)
  have sch: "map ((!) m) [0..<16] = m" using len(2) by (metis map_nth)
  note rr = rounds_uint [of m "[0..<16]" v 7, unfolded sch]
  define s where "s = rounds32 7 m v"
  have rs: "rounds 7 (map uint m) [0..<16] (map uint v) = map uint s" "length s = 16"
    using rr len by (simp_all add: s_def)
  have x: "(map uint s ! i XOR map uint s ! (i + 8)) AND 0xFFFFFFFF = uint (s ! i XOR s ! (i + 8))" if "i < 8" for i
    using that rs(2) by (simp add: xor_uint32)
  have "compress r = concat (map (\<lambda>i. to_le 4 (uint (s ! i XOR s ! (i + 8)))) [0..<8])"
    unfolding compress_def Let_def hm state rs(1) by (intro arg_cong [of _ _ concat] map_cong refl) (use x in auto)
  then show ?thesis
    by (simp add: blake3_bytes_def compress32_def Let_def h_def [symmetric] m_def [symmetric] t_def [symmetric] v_def [symmetric] s_def [symmetric] comp_def)
qed

section \<open>The endpoint's request reaches the service\<close>

lemma take_to_le: "k \<le> n \<Longrightarrow> take k (to_le n v) = to_le k v"
proof (induction n arbitrary: k v)
  case (Suc n)
  then show ?case by (cases k) simp_all
qed simp

lemma drop_to_le: "k \<le> n \<Longrightarrow> drop k (to_le n v) = to_le (n - k) (v div 256 ^ k)"
proof (induction n arbitrary: k v)
  case (Suc n)
  then show ?case by (cases k) (simp_all add: zdiv_zmult2_eq)
qed simp

lemma metadata_split:
  assumes "fits 128 md"
  shows "le_slice 0 8 (to_le 16 md) = md AND (2 ^ 64 - 1)" "le_slice 8 12 (to_le 16 md) = drop_bit 64 md AND 0xFFFFFFFF"
    "le_slice 12 16 (to_le 16 md) = drop_bit 96 md"
proof -
  have b: "(256::int) ^ 8 = 2 ^ 64" "(256::int) ^ 12 = 2 ^ 96" "(256::int) ^ 4 = 2 ^ 32" by simp_all
  have "0 \<le> drop_bit 96 md" "drop_bit 96 md < 2 ^ 32"
    using assms by (auto simp: fits_def drop_bit_eq_div div_less_iff_less_mult pos_imp_zdiv_nonneg_iff)
  then show "le_slice 12 16 (to_le 16 md) = drop_bit 96 md"
    unfolding le_slice_def pyslice_def by (simp add: drop_to_le take_to_le le_int_to_le drop_bit_eq_div)
  have "le_slice 0 8 (to_le 16 md) = md mod 2 ^ 64" unfolding le_slice_def pyslice_def by (simp add: take_to_le le_int_to_le)
  also have "\<dots> = md AND (2 ^ 64 - 1)" by (simp only: take_bit_eq_mod [symmetric] take_bit_eq_mask mask_eq_exp_minus_1)
  finally show "le_slice 0 8 (to_le 16 md) = md AND (2 ^ 64 - 1)" .
  show "le_slice 8 12 (to_le 16 md) = drop_bit 64 md AND 0xFFFFFFFF"
    unfolding le_slice_def pyslice_def by (simp add: drop_to_le take_to_le le_int_to_le drop_bit_eq_div and_word32 take_bit_eq_mod)
qed

text \<open>The bound request the adapter makes of the endpoint's published operands.\<close>

definition required_of :: "int \<Rightarrow> int \<Rightarrow> service_request \<Rightarrow> service_required" where
  "required_of epoch txn_id sv =
     \<lparr>sq_key = \<lparr>sk_session_epoch = epoch, sk_txn_id = txn_id, sk_service_id = sv_service_id sv,
                 sk_kind = service_kind_code (sv_kind sv)\<rparr>,
      sq_message = concat (map (to_le 16) (sv_message sv)),
      sq_chaining_value = to_le 16 (fst (sv_chaining_value sv)) @ to_le 16 (snd (sv_chaining_value sv)),
      sq_counter = sv_metadata sv AND (2 ^ 64 - 1),
      sq_block_len = drop_bit 64 (sv_metadata sv) AND 0xFFFFFFFF, sq_flags = drop_bit 96 (sv_metadata sv)\<rparr>"

lemma required_of_ok:
  assumes "0 < epoch" "fits 64 epoch" "fits 32 txn_id" "fits 32 (sv_service_id sv)" "length (sv_message sv) = 4"
    and "fits 128 (sv_metadata sv)" "drop_bit 64 (sv_metadata sv) AND 0xFFFFFFFF \<le> 64" "drop_bit 96 (sv_metadata sv) AND NOT 0x7F = 0"
  shows "required_ok (required_of epoch txn_id sv)"
proof -
  have k: "sk_kind (sq_key (required_of epoch txn_id sv)) = 1" by (cases "sv_kind sv") (simp add: required_of_def)
  have m: "length (concat (map (to_le 16) (sv_message sv))) = 64"
    using assms(5) length_concat_const [of "sv_message sv" "to_le 16" 16] by simp
  have "sv_metadata sv AND (2 ^ 64 - 1) = take_bit 64 (sv_metadata sv)" by (simp only: take_bit_eq_mask mask_eq_exp_minus_1)
  then have c: "fits 64 (sv_metadata sv AND (2 ^ 64 - 1))" by (simp only: fits_take_bit)
  have b: "0 \<le> drop_bit 64 (sv_metadata sv) AND 0xFFFFFFFF" by simp
  have f: "fits 7 (drop_bit 96 (sv_metadata sv))" using assms(8) flags_iff [of "drop_bit 96 (sv_metadata sv)"] by (simp add: KNOWN_FLAGS_def)
  show ?thesis unfolding required_ok_def key_ok_def k
    using assms c b f m k by (simp add: required_of_def)
qed

lemma from_v1_service_bytes:
  assumes "required_ok (required_of epoch txn_id sv)" "length (sv_message sv) = 4" "fits 128 (sv_metadata sv)"
  shows "required_from_v1 (service_bytes sv txn_id) epoch = Inr (required_of epoch txn_id sv)"
proof -
  let ?r = "required_of epoch txn_id sv"
  obtain a b c d where m: "sv_message sv = [a, b, c, d]" using assms(2) by (auto simp: numeral_eq_Suc length_Suc_conv)
  have kind: "service_kind_code (sv_kind sv) = 1" by (cases "sv_kind sv") simp
  have k: "ServiceKey epoch txn_id (sv_service_id sv) 1 = Inr (sq_key ?r)"
    using assms(1) kind by (simp add: ServiceKey_iff required_ok_def key_ok_def required_of_def)
  have ko: "key_ok (sq_key ?r)" using assms(1) by (simp add: required_ok_def)
  have q: "ServiceRequired (sq_key ?r) (sq_message ?r) (sq_chaining_value ?r) (sq_counter ?r) (sq_block_len ?r) (sq_flags ?r) = Inr ?r"
    using assms(1) unfolding ServiceRequired_iff [OF ko] by simp
  let ?p = "service_bytes sv txn_id"
  have len: "length ?p = 122" using length_service_bytes [OF assms(2)] .
  have parts: "le_slice 0 4 ?p = txn_id" "le_slice 4 8 ?p = sv_service_id sv" "uint (?p ! 8) = 1" "?p ! 9 = 0"
    "pyslice 10 74 ?p = sq_message ?r" "pyslice 74 106 ?p = sq_chaining_value ?r" "pyslice 106 122 ?p = to_le 16 (sv_metadata sv)"
    using assms(1) kind m
    by (simp_all add: service_bytes_def le_slice_def pyslice_def required_of_def required_ok_def key_ok_def nth_append fits_def)
  show ?thesis
    unfolding required_from_v1_def len parts Let_def k bindE_simps metadata_split [OF assms(3)]
    using q by (simp add: required_of_def)
qed

section \<open>The guard\<close>

definition ad_inv :: "service_adapter \<Rightarrow> bool" where
  "ad_inv a \<longleftrightarrow> 0 < ad_session_epoch a \<and> fits 64 (ad_session_epoch a) \<and> ad_session_epoch a \<in> ad_used_epochs a
     \<and> ad_outstanding a = map_option sq_key (ad_outstanding_request a)
     \<and> (\<forall>r. ad_outstanding_request a = Some r \<longrightarrow> required_ok r \<and> sk_session_epoch (sq_key r) = ad_session_epoch a
            \<and> sq_key r \<notin> ad_completed a)
     \<and> (\<forall>k\<in>ad_completed a. sk_session_epoch k = ad_session_epoch a)"

lemma required_from_v1_ok:
  assumes "required_from_v1 p e = Inr r"
  shows "required_ok r \<and> sk_session_epoch (sq_key r) = e"
proof -
  from assms obtain key where k: "ServiceKey e (le_slice 0 4 p) (le_slice 4 8 p) (uint (p ! 8)) = Inr key"
    and r: "ServiceRequired key (pyslice 10 74 p) (pyslice 74 106 p) (le_slice 0 8 (pyslice 106 122 p))
       (le_slice 8 12 (pyslice 106 122 p)) (le_slice 12 16 (pyslice 106 122 p)) = Inr r"
    by (auto simp: required_from_v1_def Let_def bindE_eq_Inr split: if_splits)
  from r k show ?thesis unfolding ServiceRequired_iff [OF ServiceKey_ok [OF k]] by (auto simp: ServiceKey_iff)
qed

inductive ad_step :: "service_adapter \<Rightarrow> service_adapter \<Rightarrow> bool" where
  accept: "accept_required p a = (r, b) \<Longrightarrow> ad_step a b"
| complete: "ad_complete k a = (r, b) \<Longrightarrow> ad_step a b"
| abort: "ad_step a (ad_abort a)"
| reset: "ad_reset e a = (r, b) \<Longrightarrow> ad_step a b"

inductive ad_reachable :: "service_adapter \<Rightarrow> bool" where
  start: "ModelServiceAdapter e n = Inr a \<Longrightarrow> ad_reachable a"
| step: "ad_reachable a \<Longrightarrow> ad_step a b \<Longrightarrow> ad_reachable b"

inductive_cases ad_stepE: "ad_step a b"

lemma accept_cases:
  assumes "accept_required p a = (r, b)"
  obtains "b = a" "\<forall>q. r = Inr q \<longrightarrow> ad_outstanding_request a = Some q \<and> required_from_v1 p (ad_session_epoch a) = Inr q"
  | q where "r = Inr q" "required_from_v1 p (ad_session_epoch a) = Inr q" "ad_outstanding a = None" "sq_key q \<notin> ad_completed a"
      "b = a\<lparr>ad_outstanding := Some (sq_key q), ad_outstanding_request := Some q\<rparr>"
proof (cases "required_from_v1 p (ad_session_epoch a)")
  case (Inl e)
  with assms show thesis by (intro that(1)) (auto simp: accept_required_def)
next
  case (Inr q)
  show thesis
  proof (cases "ad_outstanding a")
    case None
    show thesis
    proof (cases "sq_key q \<in> ad_completed a")
      case True
      with assms Inr None show thesis by (intro that(1)) (auto simp: accept_required_def)
    next
      case False
      with assms Inr None show thesis by (intro that(2) [of q]) (simp_all add: accept_required_def)
    qed
  next
    case (Some k)
    with assms Inr show thesis by (intro that(1)) (auto simp: accept_required_def split: if_splits)
  qed
qed

lemma ad_step_inv: "ad_step a b \<Longrightarrow> ad_inv a \<Longrightarrow> ad_inv b"
proof (elim ad_stepE)
  fix p r assume "accept_required p a = (r, b)" "ad_inv a"
  then show "ad_inv b"
    by (elim accept_cases) (auto simp: ad_inv_def dest: required_from_v1_ok)
next
  fix k r assume "ad_complete k a = (r, b)" "ad_inv a"
  then show "ad_inv b" by (cases "ad_outstanding_request a") (auto simp: ad_complete_def ad_inv_def split: if_splits)
next
  assume "b = ad_abort a" "ad_inv a"
  then show "ad_inv b" by (cases "ad_outstanding_request a") (auto simp: ad_abort_def ad_inv_def)
next
  fix e r assume "ad_reset e a = (r, b)" "ad_inv a"
  then show "ad_inv b" by (auto simp: ad_reset_def ad_inv_def fits_def split: if_splits)
qed

lemma ad_reachable_inv: "ad_reachable a \<Longrightarrow> ad_inv a"
proof (induction rule: ad_reachable.induct)
  case (start e n a)
  then show ?case by (auto simp: ModelServiceAdapter_def ad_inv_def fits_def split: if_splits)
qed (rule ad_step_inv)

text \<open>A key that can never be outstanding again.\<close>

definition spent :: "service_adapter \<Rightarrow> service_key \<Rightarrow> bool" where
  "spent a k \<longleftrightarrow> k \<in> ad_completed a \<or> (sk_session_epoch k \<in> ad_used_epochs a \<and> sk_session_epoch k \<noteq> ad_session_epoch a)"

lemma spent_step: "ad_step a b \<Longrightarrow> ad_inv a \<Longrightarrow> spent a k \<Longrightarrow> spent b k"
proof (elim ad_stepE)
  fix p r assume "accept_required p a = (r, b)" "ad_inv a" "spent a k"
  then show "spent b k" by (elim accept_cases) (auto simp: spent_def)
next
  fix k' r assume "ad_complete k' a = (r, b)" "spent a k"
  then show "spent b k" by (auto simp: ad_complete_def spent_def split: if_splits)
next
  assume "b = ad_abort a" "spent a k"
  then show "spent b k" by (auto simp: ad_abort_def spent_def split: option.splits)
next
  fix e r assume "ad_reset e a = (r, b)" "ad_inv a" "spent a k"
  then show "spent b k" by (auto simp: ad_reset_def ad_inv_def spent_def split: if_splits)
qed

lemma spent_steps: "ad_step\<^sup>*\<^sup>* a b \<Longrightarrow> ad_inv a \<Longrightarrow> spent a k \<Longrightarrow> ad_inv b \<and> spent b k"
  by (induction rule: rtranclp_induct) (auto intro: ad_step_inv spent_step)

lemma spent_refused: "accept_required p a = (Inr q, b) \<Longrightarrow> ad_inv a \<Longrightarrow> \<not> spent a (sq_key q)"
  by (elim accept_cases) (auto simp: ad_inv_def spent_def dest: required_from_v1_ok)

section \<open>The reply that reaches the endpoint\<close>

definition reply_request :: "service_response \<Rightarrow> decoded_request" where
  "reply_request r = (DecodedRequest OP_SERVICE_RESPONSE)
     \<lparr>dq_txn_id := sk_txn_id (sp_key r), dq_service_id := sk_service_id (sp_key r), dq_service_kind := sk_kind (sp_key r),
      dq_digest := (le_int (take 16 (sp_digest r)), le_int (drop 16 (sp_digest r)))\<rparr>"

lemma to_v1_frame:
  assumes inv: "ad_inv a" and r: "ad_outstanding a = Some (sp_key r)" "sp_status r = SVC_OK" "length (sp_digest r) = 32"
  shows "dq_wf (reply_request r)" "to_v1 a r = Inr (RequestFrame OP_SERVICE_RESPONSE (payload_of (reply_request r)))"
proof -
  from inv r(1) obtain q where q: "required_ok q" "sq_key q = sp_key r" by (cases "ad_outstanding_request a") (auto simp: ad_inv_def)
  then have k: "key_ok (sp_key r)" "sk_kind (sp_key r) = 1" by (auto simp: required_ok_def)
  have dg: "fits 128 (le_int (take 16 (sp_digest r)))" "fits 128 (le_int (drop 16 (sp_digest r)))"
    using r(3) by (simp_all add: fits_le_int)
  show wf: "dq_wf (reply_request r)"
    using k dg by (simp add: reply_request_def dq_wf_def dq_defaults_def dq_fields_ok_def dq_lengths_def DecodedRequest_def key_ok_def
        INSTRUCTION_OPCODES_def Let_def ABSENT_def cell_ok_def)
  have op: "dq_opcode (reply_request r) = OP_SERVICE_RESPONSE" by (simp add: reply_request_def DecodedRequest_def)
  have "to_v1 a r = rebuild (reply_request r)"
    using r k by (simp add: to_v1_def rebuild_def op build_service_response_def service_kind_of_def)
      (simp add: reply_request_def DecodedRequest_def)
  with rebuild_payload [OF wf] show "to_v1 a r = Inr (RequestFrame OP_SERVICE_RESPONSE (payload_of (reply_request r)))"
    by (simp add: op)
qed

lemma to_v1_decodes:
  assumes "ad_inv a" "ad_outstanding a = Some (sp_key r)" "sp_status r = SVC_OK" "length (sp_digest r) = 32"
  obtains frame where "to_v1 a r = Inr frame" "decode_request_payload (rq_opcode frame) (rq_payload frame) = Inr (reply_request r)"
proof -
  note f = to_v1_frame [OF assms]
  have op: "dq_opcode (reply_request r) = OP_SERVICE_RESPONSE" by (simp add: reply_request_def DecodedRequest_def)
  from decode_payload_of [OF f(1)] show thesis
    by (intro that [OF f(2)]) (simp add: op RequestFrame_def)
qed

lemma blake3_published:
  assumes wf: "dq_wf d" "dq_opcode d = OP_BLAKE3_REQUEST" and n: "0 \<le> n" and r: "execute d (fresh_staged d) n = Inr (s, n')"
    and e: "0 < epoch" "fits 64 epoch"
  obtains sv where "st_service s = Some sv" "encode_service_request sv (st_txn_id s) = Inr (service_bytes sv (dq_txn_id d))"
    "required_from_v1 (service_bytes sv (dq_txn_id d)) epoch = Inr (required_of epoch (dq_txn_id d) sv)"
    "sv_service_id sv = n + 1" "sv_metadata sv = dq_metadata d"
proof -
  have ins: "dq_opcode d \<in> set INSTRUCTION_OPCODES" using wf by (simp add: INSTRUCTION_OPCODES_def)
  have r1: "execute_blake3 d (fresh_staged d) (n + 1) = Inr s" "n < 0xFFFFFFFE" and s3: "shape_8 d"
    using r dq_shapes [OF wf(1) ins] wf by (auto simp: execute_def bindE_eq_Inr split: if_splits)
  have fo: "dq_fields_ok d" using wf(1) by (simp add: dq_wf_def)
  then have t: "0 \<le> st_pc (fresh_staged d)" "fits 32 (st_fp (fresh_staged d))" and f: "fits 32 (dq_txn_id d)" "fits 128 (dq_metadata d)"
    unfolding dq_fields_ok_def fresh_staged_simps by (blast dest: fits_nonneg)+
  from execute_blake3_Inr [OF r1(1) s3 t] obtain addrs fr where
    a: "length addrs = 8" "frame_inv fr" and g: "drop_bit 64 (dq_metadata d) AND 0xFFFFFFFF \<le> 64" "drop_bit 96 (dq_metadata d) AND NOT 0x7F = 0"
    and s: "s = (fresh_staged d)\<lparr>st_accesses := addrs, st_next_pc := st_pc (fresh_staged d) + 1, st_next_fp := st_fp (fresh_staged d), st_execute_cycles := 0,
           st_service := Some \<lparr>sv_service_id = n + 1, sv_kind = BLAKE3_COMPRESS,
             sv_message = map (read0 (fr_view fr)) (take 4 addrs),
             sv_chaining_value = (read0 (fr_view fr) (addrs ! 4), read0 (fr_view fr) (addrs ! 5)),
             sv_metadata = dq_metadata d\<rparr>,
           st_pending_frame := Some fr\<rparr>"
    by metis
  define sv where "sv = \<lparr>sv_service_id = n + 1, sv_kind = BLAKE3_COMPRESS,
             sv_message = map (read0 (fr_view fr)) (take 4 addrs),
             sv_chaining_value = (read0 (fr_view fr) (addrs ! 4), read0 (fr_view fr) (addrs ! 5)),
             sv_metadata = dq_metadata d\<rparr>"
  have id: "fits 32 (n + 1)" using r1(2) n by (simp add: fits_def)
  have len: "length (sv_message sv) = 4" using a by (simp add: sv_def)
  have ok: "required_ok (required_of epoch (dq_txn_id d) sv)"
    by (rule required_of_ok [OF e f(1)]) (use id len f g in \<open>simp_all add: sv_def\<close>)
  have "encode_service_request sv (dq_txn_id d) = Inr (service_bytes sv (dq_txn_id d))"
    by (rule encode_service_request_ok [OF f(1)]) (use id f fits_read0 [OF a(2)] in \<open>auto simp: sv_def\<close>)
  moreover have "required_from_v1 (service_bytes sv (dq_txn_id d)) epoch = Inr (required_of epoch (dq_txn_id d) sv)"
    by (rule from_v1_service_bytes [OF ok len]) (use f in \<open>simp add: sv_def\<close>)
  ultimately show thesis by (intro that [of sv]) (use s in \<open>simp_all add: sv_def\<close>)
qed

section \<open>Properties\<close>

text \<open>
  C18. Both service messages have an exact codec: a payload decodes to a message exactly when
  that message satisfies the checks of its constructors and encodes to the payload, so every
  payload has one reading and the decoders accept nothing that an encoder does not produce.
\<close>

theorem service_codec_roundtrip:
  "(decode_required p = Inr q \<longleftrightarrow> required_ok q \<and> encode_required q = Inr p) \<and>
   (decode_service_reply p = Inr r \<longleftrightarrow> reply_ok r \<and> encode_service_reply r = Inr p)"
  by (rule conjI [OF decode_required_iff decode_reply_iff])

text \<open>
  C17. The compression function, written with masked unbounded integers and a permuted index
  schedule, computes the BLAKE3 compression of 32-bit words: modular addition, rotation, and
  a permutation of the message words after each of the seven rounds.
\<close>

theorem compress_is_blake3:
  assumes "required_ok r"
  shows "compress r = blake3_bytes r"
  using assms by (rule compress_words)

text \<open>
  C15. What the endpoint publishes for a BLAKE3 request reaches the service. When the endpoint
  suspends on a well-formed request, its SERVICE_REQUIRED payload encodes, and an adapter with
  nothing outstanding accepts that payload, unless the key was used before in this session,
  and binds exactly the operands, the transaction and the service identifier to its epoch.
\<close>

theorem published_request_accepted:
  assumes "dq_wf d" "dq_opcode d = OP_BLAKE3_REQUEST" "0 \<le> n" "execute d (fresh_staged d) n = Inr (s, n')"
    and "ad_reachable a" "ad_outstanding a = None"
  shows "\<exists>sv p. st_service s = Some sv \<and> encode_service_request sv (st_txn_id s) = Inr p \<and>
    sv_service_id sv = n + 1 \<and> sv_metadata sv = dq_metadata d \<and>
    (let q = required_of (ad_session_epoch a) (dq_txn_id d) sv in
     accept_required p a = (if sq_key q \<in> ad_completed a then (Inl ServiceSemanticError, a)
       else (Inr q, a\<lparr>ad_outstanding := Some (sq_key q), ad_outstanding_request := Some q\<rparr>)))"
proof -
  have "0 < ad_session_epoch a" "fits 64 (ad_session_epoch a)" using ad_reachable_inv [OF assms(5)] by (simp_all add: ad_inv_def)
  from blake3_published [OF assms(1-4) this] obtain sv where sv: "st_service s = Some sv"
    "encode_service_request sv (st_txn_id s) = Inr (service_bytes sv (dq_txn_id d))"
    "required_from_v1 (service_bytes sv (dq_txn_id d)) (ad_session_epoch a) = Inr (required_of (ad_session_epoch a) (dq_txn_id d) sv)"
    "sv_service_id sv = n + 1" "sv_metadata sv = dq_metadata d" by blast
  then show ?thesis using assms(6) by (auto simp: accept_required_def Let_def)
qed

text \<open>
  The reply frame of the outstanding service is exactly what the endpoint can decode: it is
  built without an error, and decodes to the transaction, service identifier, kind and digest
  of the reply.
\<close>

theorem reply_frame_decodes:
  assumes "ad_reachable a" "ad_outstanding a = Some (sp_key r)" "sp_status r = SVC_OK" "length (sp_digest r) = 32"
  shows "\<exists>frame. to_v1 a r = Inr frame \<and>
    decode_request_payload (rq_opcode frame) (rq_payload frame) = Inr (reply_request r)"
  by (rule to_v1_decodes [OF ad_reachable_inv [OF assms(1)] assms(2-4)]) blast

text \<open>
  C16. A service key is used once. After the adapter completed a key, or aborted while it was
  outstanding, no sequence of operations, resets to new epochs included, makes the adapter
  accept a SERVICE_REQUIRED with that key again.
\<close>

theorem spent_key_never_returns:
  assumes "ad_reachable a" "ad_outstanding a = Some k"
    and "ad_complete k a = (Inr (), b) \<or> b = ad_abort a" "ad_step\<^sup>*\<^sup>* b c" "accept_required p c = (Inr q, c')"
  shows "sq_key q \<noteq> k"
proof -
  have b: "ad_inv b" "spent b k"
    using ad_reachable_inv [OF assms(1)] assms(2,3) ad_step_inv [OF ad_step.complete, of k a "Inr ()" b] ad_step_inv [OF ad_step.abort, of a]
    by (auto simp: ad_complete_def ad_abort_def spent_def)
  from spent_steps [OF assms(4) b] spent_refused [OF assms(5)] show ?thesis by blast
qed

section \<open>Examples\<close>

text \<open>The compression of the empty message, as the first and only block of a tree.\<close>

definition empty_block :: service_required where
  "empty_block = \<lparr>sq_key = \<lparr>sk_session_epoch = 1, sk_txn_id = 7, sk_service_id = 1, sk_kind = 1\<rparr>,
     sq_message = replicate 64 0, sq_chaining_value = concat (map (to_le 4) IV), sq_counter = 0, sq_block_len = 0,
     sq_flags = 11\<rparr>"

definition empty_hash :: bytes where
  "empty_hash = [0xaf, 0x13, 0x49, 0xb9, 0xf5, 0xf9, 0xa1, 0xa6, 0xa0, 0x40, 0x4d, 0xea, 0x36, 0xdc, 0xc9, 0x49,
     0x9b, 0xcb, 0x25, 0xc9, 0xad, 0xc1, 0x12, 0xb7, 0xcc, 0x9a, 0x93, 0xca, 0xe4, 0x1f, 0x32, 0x62]"

lemma empty_block_ok: "required_ok empty_block"
  by (simp add: empty_block_def required_ok_def key_ok_def fits_def IV_def)

lemma compress_empty: "compress empty_block = empty_hash"
  by code_simp

lemma compress_is_blake3_witness: "blake3_bytes empty_block = empty_hash"
  using compress_is_blake3 [OF empty_block_ok] compress_empty by simp

definition adapter_example :: service_adapter where
  "adapter_example = \<lparr>ad_session_epoch = 1, ad_used_epochs = {1}, ad_max_retries = 2, ad_outstanding = None,
     ad_outstanding_request = None, ad_completed = {}\<rparr>"

lemma adapter_example_reachable: "ad_reachable adapter_example"
proof (rule ad_reachable.start)
  show "ModelServiceAdapter 1 2 = Inr adapter_example" by (simp add: ModelServiceAdapter_def adapter_example_def)
qed

text \<open>The payload the endpoint publishes for \<open>empty_block\<close>, and the adapter that accepted it.\<close>

definition published_example :: bytes where
  "published_example = to_le 4 7 @ to_le 4 1 @ [1, 0] @ sq_message empty_block @ sq_chaining_value empty_block
     @ to_le 8 0 @ to_le 4 0 @ to_le 4 11"

definition adapter_outstanding :: service_adapter where
  "adapter_outstanding = adapter_example\<lparr>ad_outstanding := Some (sq_key empty_block), ad_outstanding_request := Some empty_block\<rparr>"

lemma published_accepted: "required_from_v1 published_example 1 = Inr empty_block"
  by code_simp

lemma published_second: "required_from_v1 published_example 2 =
    Inr (empty_block\<lparr>sq_key := (sq_key empty_block)\<lparr>sk_session_epoch := 2\<rparr>\<rparr>)"
  by code_simp

lemma accept_example: "accept_required published_example adapter_example = (Inr empty_block, adapter_outstanding)"
  by (simp add: accept_required_def adapter_outstanding_def published_accepted adapter_example_def)

lemma adapter_outstanding_reachable: "ad_reachable adapter_outstanding"
  by (rule ad_reachable.step [OF adapter_example_reachable ad_step.accept [OF accept_example]])

lemma reply_frame_decodes_witness:
  "\<exists>frame. to_v1 adapter_outstanding \<lparr>sp_key = sq_key empty_block, sp_status = SVC_OK, sp_digest = empty_hash\<rparr> = Inr frame \<and>
     decode_request_payload (rq_opcode frame) (rq_payload frame) =
       Inr (reply_request \<lparr>sp_key = sq_key empty_block, sp_status = SVC_OK, sp_digest = empty_hash\<rparr>)"
  by (rule reply_frame_decodes [OF adapter_outstanding_reachable]) (simp_all add: adapter_outstanding_def empty_hash_def)

text \<open>Abort, reset to a new epoch, and publish the same operands again.\<close>

definition adapter_renewed :: service_adapter where
  "adapter_renewed = (ad_abort adapter_outstanding)\<lparr>ad_used_epochs := {2, 1}, ad_session_epoch := 2, ad_completed := {}\<rparr>"

lemma spent_key_never_returns_witness:
  "\<exists>q c. ad_step\<^sup>*\<^sup>* (ad_abort adapter_outstanding) adapter_renewed \<and>
     accept_required published_example adapter_renewed = (Inr q, c) \<and> sq_key q \<noteq> sq_key empty_block"
proof -
  have "ad_reset 2 (ad_abort adapter_outstanding) = (Inr (), adapter_renewed)"
    by (simp add: ad_reset_def adapter_renewed_def ad_abort_def adapter_outstanding_def adapter_example_def)
  then have r: "ad_step\<^sup>*\<^sup>* (ad_abort adapter_outstanding) adapter_renewed" by (intro r_into_rtranclp ad_step.reset)
  have "\<exists>q c. accept_required published_example adapter_renewed = (Inr q, c)"
    by (simp add: accept_required_def adapter_renewed_def ad_abort_def published_second adapter_outstanding_def adapter_example_def)
  then obtain q c where a: "accept_required published_example adapter_renewed = (Inr q, c)" by blast
  have o: "ad_outstanding adapter_outstanding = Some (sq_key empty_block)" by (simp add: adapter_outstanding_def)
  from spent_key_never_returns [OF adapter_outstanding_reachable o disjI2 [OF refl] r a] a r show ?thesis by blast
qed

text \<open>A request with all eight cells present and metadata zero.\<close>

definition blake3_request :: decoded_request where
  "blake3_request = (DecodedRequest OP_BLAKE3_REQUEST)\<lparr>dq_txn_id := 3, dq_profile := INTERPRETER_COMPAT,
     dq_message_offsets := [0, 1, 2, 3], dq_cv_offset := 4, dq_out_offset := 6,
     dq_cells := map (Cell True) [10, 11, 12, 13, 14, 15, 16, 17]\<rparr>"

lemma blake3_request_executes: "\<exists>s. execute blake3_request (fresh_staged blake3_request) 0 = Inr (s, 1)"
  by (simp add: execute_def blake3_request_def DecodedRequest_def execute_blake3_def blake3_addresses_def checked_add_def U32_MAX_def
    Let_def Frame_def fr_supply_def fresh_staged_def StagedTransaction_def wire_constants fr_read_def fr_cell_def nthE_def)

lemma published_request_accepted_witness:
  "\<exists>s sv p q. execute blake3_request (fresh_staged blake3_request) 0 = Inr (s, 1) \<and> st_service s = Some sv \<and>
     encode_service_request sv (st_txn_id s) = Inr p \<and> fst (accept_required p adapter_example) = Inr q \<and> sk_txn_id (sq_key q) = 3"
proof -
  obtain s where s: "execute blake3_request (fresh_staged blake3_request) 0 = Inr (s, 1)" using blake3_request_executes by blast
  have wf: "dq_wf blake3_request" "dq_opcode blake3_request = OP_BLAKE3_REQUEST"
    by (simp_all add: blake3_request_def dq_wf_def dq_defaults_def dq_fields_ok_def dq_lengths_def DecodedRequest_def
        INSTRUCTION_OPCODES_def Let_def ABSENT_def cell_ok_def fits_def)
  have o: "ad_outstanding adapter_example = None" by (simp add: adapter_example_def)
  from published_request_accepted [OF wf _ s adapter_example_reachable o] s show ?thesis
    by (auto simp: adapter_example_def Let_def required_of_def blake3_request_def DecodedRequest_def)
qed

end
