(* ===== verification/Program_Adapter.thy ===== *)
theory Program_Adapter
  imports Lsc_Wire
begin

text \<open>
  The adapter of \<open>host/lean_compiler_adapter.py\<close>: it turns the JSON document the compiler
  export wrote into a validated \<open>Program\<close>. Reading the file and \<open>json.loads\<close> are outside; the
  adapter is a function of the parsed document. A JSON object is the list of its items, a
  number with a fraction or an exponent is seen only through the integer it equals, if any,
  and strings are the ASCII ones.
\<close>

section \<open>Documents\<close>

datatype json =
    JNull | JBool bool | JInt int | JFloat "int option" | JString string
  | JList "json list" | JObject "(string \<times> json) list"

text \<open>\<open>value.get(key, default)\<close> and \<open>value[key]\<close> for a string key.\<close>

definition json_get :: "json \<Rightarrow> string \<Rightarrow> json \<Rightarrow> json res" where
  "json_get v key dflt =
     (case v of
        JObject items \<Rightarrow> Inr (case map_of items key of None \<Rightarrow> dflt | Some x \<Rightarrow> x)
      | _ \<Rightarrow> Inl AttributeError)"

definition json_item :: "json \<Rightarrow> string \<Rightarrow> json res" where
  "json_item v key =
     (case v of
        JObject items \<Rightarrow> (case map_of items key of None \<Rightarrow> Inl KeyError | Some x \<Rightarrow> Inr x)
      | _ \<Rightarrow> Inl TypeError)"

text \<open>\<open>bool(value)\<close>, \<open>len(value)\<close> and iteration.\<close>

fun json_truth :: "json \<Rightarrow> bool" where
  "json_truth JNull = False"
| "json_truth (JBool b) = b"
| "json_truth (JInt i) = (i \<noteq> 0)"
| "json_truth (JFloat v) = (v \<noteq> Some 0)"
| "json_truth (JString s) = (s \<noteq> [])"
| "json_truth (JList xs) = (xs \<noteq> [])"
| "json_truth (JObject items) = (items \<noteq> [])"

fun json_iter :: "json \<Rightarrow> json list res" where
  "json_iter (JString s) = Inr (map (\<lambda>c. JString [c]) s)"
| "json_iter (JList xs) = Inr xs"
| "json_iter (JObject items) = Inr (map (\<lambda>(k, _). JString k) items)"
| "json_iter _ = Inl TypeError"

text \<open>\<open>value == n\<close> for an integer: a boolean equals 0 or 1.\<close>

fun json_eq_int :: "json \<Rightarrow> int \<Rightarrow> bool" where
  "json_eq_int (JBool b) n = (n = (if b then 1 else 0))"
| "json_eq_int (JInt i) n = (i = n)"
| "json_eq_int (JFloat v) n = (v = Some n)"
| "json_eq_int _ n = False"

fun json_hashable :: "json \<Rightarrow> bool" where
  "json_hashable (JList _) = False"
| "json_hashable (JObject _) = False"
| "json_hashable _ = True"

section \<open>Programs\<close>

definition SCHEMA :: string where "SCHEMA = ''leansilicon.host.program/1''"

definition FROZEN_LEANVM_B :: string where
  "FROZEN_LEANVM_B = ''c308034ab78619b39a59d26f3dc60e7df5b52649''"

definition INTEGRATED_OPS :: "string list" where
  "INTEGRATED_OPS = [''Set'', ''Xor'', ''Mul'', ''Deref'', ''Jump'', ''Blake3'']"

definition DEFERRED_OPS :: "string list" where "DEFERRED_OPS = []"

text \<open>The value of an operand after validation.\<close>

datatype operand = OpInt int | OpInts "int list" | OpMode string

record operation =
  op_index :: nat
  op_kind :: string
  op_operands :: "(string \<times> operand) list"

definition integrated :: "operation \<Rightarrow> bool" where
  "integrated op \<longleftrightarrow> op_kind op \<in> set INTEGRATED_OPS"

record program =
  pg_operations :: "operation list"
  pg_pc0 :: int
  pg_fp0 :: int
  pg_fn_ranges :: "json list list"
  pg_source :: json
  pg_upstream_sha :: json
  pg_disassembly :: json
  pg_upstream_execution :: json

definition halt_pc :: "program \<Rightarrow> int" where
  "halt_pc p = int (length (pg_operations p)) - 1"

definition program_at :: "program \<Rightarrow> int \<Rightarrow> operation res" where
  "program_at p pc =
     (if \<not> (0 \<le> pc \<and> pc < int (length (pg_operations p))) then Inl AdapterError
      else Inr (pg_operations p ! nat pc))"

section \<open>Validation\<close>

definition FIELD_OPERANDS :: "string list" where "FIELD_OPERANDS = [''k'', ''metadata'']"

definition U32_OPERANDS :: "string list" where
  "U32_OPERANDS = [''o'', ''a'', ''b'', ''c'', ''alpha'', ''beta'', ''gamma'', ''oc'', ''od'', ''of'', ''cv'', ''out'']"

text \<open>\<open>OPERAND_SCHEMA[kind]\<close>.\<close>

definition OPERAND_SCHEMA :: "string \<Rightarrow> string list option" where
  "OPERAND_SCHEMA = map_of
     [(''Set'', [''o'', ''k'']), (''Xor'', [''a'', ''b'', ''c'']), (''Mul'', [''a'', ''b'', ''c'']),
      (''Deref'', [''alpha'', ''beta'', ''gamma'', ''mode'']), (''Jump'', [''oc'', ''od'', ''of'']),
      (''Blake3'', [''ins'', ''cv'', ''out'', ''metadata''])]"

definition require :: "bool \<Rightarrow> unit res" where
  "require condition = raise_if (\<not> condition) AdapterError"

text \<open>
  \<open>int(text, 16)\<close> after the prefix \<open>0x\<close>, on ASCII text: one underscore may follow the prefix
  and may stand between two digits, and white space may follow the digits.
\<close>

definition hex_digit :: "char \<Rightarrow> int option" where
  "hex_digit c =
     (let n = of_char c :: int in
      if 48 \<le> n \<and> n \<le> 57 then Some (n - 48)
      else if 97 \<le> n \<and> n \<le> 102 then Some (n - 87)
      else if 65 \<le> n \<and> n \<le> 70 then Some (n - 55)
      else None)"

definition is_space :: "char \<Rightarrow> bool" where
  "is_space c \<longleftrightarrow> of_char c \<in> {9, 10, 11, 12, 13, 32 :: int}"

text \<open>The digits with value \<open>acc\<close> so far; \<open>sep\<close> when an underscore was just read.\<close>

fun hex_digits :: "string \<Rightarrow> int \<Rightarrow> bool \<Rightarrow> int res" where
  "hex_digits [] acc sep = (if sep then Inl ValueError else Inr acc)"
| "hex_digits (c # cs) acc sep =
     (case hex_digit c of
        Some d \<Rightarrow> hex_digits cs (16 * acc + d) False
      | None \<Rightarrow>
          if sep then Inl ValueError
          else if c = CHR ''_'' then hex_digits cs acc True
          else if list_all is_space (c # cs) then Inr acc else Inl ValueError)"

definition int_16 :: "string \<Rightarrow> int res" where
  "int_16 text =
     (let cs = drop 2 text;
          cs = (case cs of [] \<Rightarrow> cs | c # rest \<Rightarrow> if c = CHR ''_'' then rest else cs)
      in case cs of
           [] \<Rightarrow> Inl ValueError
         | c # _ \<Rightarrow> if hex_digit c = None then Inl ValueError else hex_digits cs 0 False)"

definition field_literal :: "json \<Rightarrow> int res" where
  "field_literal v =
     (case v of
        JString text \<Rightarrow>
          bindE (require (length text = 34 \<and> take 2 text = ''0x'')) (\<lambda>_.
            case int_16 text of Inl _ \<Rightarrow> Inl AdapterError | Inr n \<Rightarrow> Inr n)
      | _ \<Rightarrow> Inl AdapterError)"

definition u32_operand :: "json \<Rightarrow> int res" where
  "u32_operand v =
     (case v of
        JInt i \<Rightarrow> if \<not> (0 \<le> i \<and> i \<le> 0xFFFFFFFF) then Inl AdapterError else Inr i
      | _ \<Rightarrow> Inl AdapterError)"

text \<open>
  One operand after the schema check: which of the validation loops applies depends on its
  name alone.
\<close>

definition validate_operand :: "string \<times> json \<Rightarrow> (string \<times> operand) res" where
  "validate_operand p =
     (case p of (name, v) \<Rightarrow>
        if name \<in> set FIELD_OPERANDS then bindE (field_literal v) (\<lambda>n. Inr (name, OpInt n))
        else if name \<in> set U32_OPERANDS then bindE (u32_operand v) (\<lambda>n. Inr (name, OpInt n))
        else if name = ''ins'' then
          (case v of
             JList xs \<Rightarrow>
               bindE (require (length xs = 4)) (\<lambda>_.
               bindE (mapE u32_operand xs) (\<lambda>ns. Inr (name, OpInts ns)))
           | _ \<Rightarrow> Inl AdapterError)
        else
          (case v of
             JString m \<Rightarrow> bindE (require (m \<in> {''Cell'', ''Pc'', ''Fp''})) (\<lambda>_. Inr (name, OpMode m))
           | _ \<Rightarrow> Inl AdapterError))"

text \<open>
  One slot of the bytecode: its opcode, its items but for the label and the opcode, and their
  validation. Asking a tuple and then a dict for an opcode that is not a string raises
  \<open>TypeError\<close> only for the types that have no hash.
\<close>

definition slot_kind :: "json \<Rightarrow> string res" where
  "slot_kind kind =
     (case kind of
        JString k \<Rightarrow> if k \<in> set INTEGRATED_OPS \<or> k \<in> set DEFERRED_OPS then Inr k else Inl AdapterError
      | _ \<Rightarrow> if json_hashable kind then Inl AdapterError else Inl TypeError)"

definition slot_operands :: "json \<Rightarrow> (string \<times> json) list" where
  "slot_operands slot = (case slot of JObject items \<Rightarrow> [(key, v) \<leftarrow> items. key \<notin> {''index'', ''op''}] | _ \<Rightarrow> [])"

definition load_slot :: "nat \<Rightarrow> json \<Rightarrow> operation res" where
  "load_slot expected_index slot =
     bindE (json_item slot ''index'') (\<lambda>index.
     bindE (require (json_eq_int index (int expected_index))) (\<lambda>_.
     bindE (json_item slot ''op'') (\<lambda>kind.
     bindE (slot_kind kind) (\<lambda>k.
     bindE (case OPERAND_SCHEMA k of None \<Rightarrow> Inl KeyError | Some names \<Rightarrow> Inr names) (\<lambda>expected_operands.
     let operands = slot_operands slot in
     bindE (require (set (map fst operands) = set expected_operands)) (\<lambda>_.
     bindE (mapE validate_operand operands) (\<lambda>operands.
       Inr \<lparr>op_index = expected_index, op_kind = k, op_operands = operands\<rparr>)))))))"

definition load_program :: "json \<Rightarrow> program res" where
  "load_program document =
     bindE (json_get document ''schema'' JNull) (\<lambda>schema.
     bindE (require (schema = JString SCHEMA)) (\<lambda>_.
     bindE (json_get document ''upstream'' (JObject [])) (\<lambda>upstream.
     bindE (json_get upstream ''sha'' JNull) (\<lambda>sha.
     bindE (require (sha = JString FROZEN_LEANVM_B)) (\<lambda>_.
     bindE (json_item document ''program'') (\<lambda>program.
     bindE (json_item program ''bytecode'') (\<lambda>bytecode.
     bindE (require (json_truth bytecode)) (\<lambda>_.
     bindE (json_iter bytecode) (\<lambda>slots.
     bindE (require (int (length slots) AND (int (length slots) - 1) = 0)) (\<lambda>_.
     bindE (mapE (\<lambda>(i, slot). load_slot i slot) (enumerate 0 slots)) (\<lambda>operations.
     bindE (json_get program ''pc0'' JNull) (\<lambda>pc0. bindE (u32_operand pc0) (\<lambda>pc0.
     bindE (json_get program ''fp0'' JNull) (\<lambda>fp0. bindE (u32_operand fp0) (\<lambda>fp0.
     bindE (require (pc0 < int (length operations))) (\<lambda>_.
     bindE (json_get program ''fn_ranges'' (JList [])) (\<lambda>ranges.
     bindE (bindE (json_iter ranges) (mapE json_iter)) (\<lambda>fn_ranges.
     bindE (json_get document ''source'' (JObject [])) (\<lambda>source. bindE (json_get source ''text'' (JString [])) (\<lambda>source.
     bindE (json_get program ''disassembly'' (JString [])) (\<lambda>disassembly.
     bindE (json_get document ''upstream_execution'' JNull) (\<lambda>upstream_execution.
       Inr \<lparr>pg_operations = operations, pg_pc0 = pc0, pg_fp0 = fp0, pg_fn_ranges = fn_ranges,
            pg_source = source, pg_upstream_sha = sha, pg_disassembly = disassembly,
            pg_upstream_execution = upstream_execution\<rparr>))))))))))))))))))))))"

section \<open>What a loaded program satisfies\<close>

lemma hex_digit_bounds: "hex_digit c = Some d \<Longrightarrow> 0 \<le> d \<and> d < 16"
  by (auto simp: hex_digit_def Let_def split: if_splits)

lemma hex_digits_bounds:
  "hex_digits cs acc sep = Inr n \<Longrightarrow> 0 \<le> acc \<Longrightarrow> 0 \<le> n \<and> n < (acc + 1) * 16 ^ length cs"
proof (induction cs acc sep rule: hex_digits.induct)
  case (2 c cs acc sep)
  show ?case
  proof (cases "hex_digit c")
    case (Some d)
    note d = hex_digit_bounds [OF Some]
    then have "0 \<le> n \<and> n < (16 * acc + d + 1) * 16 ^ length cs"
      using 2 Some by simp
    moreover have "(16 * acc + d + 1) * 16 ^ length cs \<le> (acc + 1) * 16 ^ length (c # cs)"
      using d by (simp add: mult.assoc [symmetric] mult_right_mono)
    ultimately show ?thesis by linarith
  next
    case None
    have "(acc + 1) * 16 ^ length cs \<le> (acc + 1) * 16 ^ length (c # cs)" "acc < (acc + 1) * 16 ^ length (c # cs)"
      using 2 by (simp_all add: mult_left_mono) (smt (verit) mult_le_cancel_left1 one_le_power)
    then show ?thesis using 2 None by (auto split: if_splits)
  qed
qed (auto split: if_splits)

lemma field_literal_fits: "field_literal v = Inr n \<Longrightarrow> fits 128 n"
proof -
  assume "field_literal v = Inr n"
  then obtain t where len: "length t = 34" and n: "int_16 t = Inr n"
    by (auto simp: field_literal_def require_def raise_simps split: json.splits sum.splits)
  then obtain cs where cs: "hex_digits cs 0 False = Inr n" "length cs \<le> 32"
  proof (cases "drop 2 t")
    case Nil
    with n show thesis by (simp add: int_16_def)
  next
    case (Cons a as)
    moreover have "length (drop 2 t) = 32" using len by simp
    ultimately have "length (a # as) = 32" by simp
    then have l: "length as = 31" by simp
    have "\<exists>cs. hex_digits cs 0 False = Inr n \<and> length cs \<le> 32"
    proof (cases "a = CHR ''_''")
      case True
      then have "hex_digits as 0 False = Inr n" using n Cons
        by (cases as) (simp_all add: int_16_def del: hex_digits.simps split: if_splits)
      with l show ?thesis by fastforce
    next
      case False
      then have "hex_digits (a # as) 0 False = Inr n" using n Cons
        by (simp add: int_16_def del: hex_digits.simps split: if_splits)
      with l show ?thesis by fastforce
    qed
    then show thesis using that by blast
  qed
  have "(16 :: int) ^ length cs \<le> 16 ^ 32" using cs(2) by (intro power_increasing) simp_all
  with hex_digits_bounds [OF cs(1)] show ?thesis by (simp add: fits_def)
qed

lemma u32_operand_fits: "u32_operand v = Inr n \<Longrightarrow> fits 32 n"
  by (auto simp: u32_operand_def fits_def split: json.splits if_splits)

text \<open>The value an operand of a given name may have.\<close>

definition operand_ok :: "string \<Rightarrow> operand \<Rightarrow> bool" where
  "operand_ok name v = (case v of
       OpInt n \<Rightarrow> if name \<in> set FIELD_OPERANDS then fits 128 n else name \<in> set U32_OPERANDS \<and> fits 32 n
     | OpInts ns \<Rightarrow> name = ''ins'' \<and> length ns = 4 \<and> (\<forall>n\<in>set ns. fits 32 n)
     | OpMode m \<Rightarrow> name = ''mode'' \<and> m \<in> {''Cell'', ''Pc'', ''Fp''})"

definition operation_ok :: "operation \<Rightarrow> bool" where
  "operation_ok op \<longleftrightarrow> integrated op
     \<and> (\<exists>names. OPERAND_SCHEMA (op_kind op) = Some names \<and> set (map fst (op_operands op)) = set names)
     \<and> (\<forall>(name, v)\<in>set (op_operands op). operand_ok name v)"

definition program_ok :: "program \<Rightarrow> bool" where
  "program_ok p \<longleftrightarrow> (\<exists>k. length (pg_operations p) = 2 ^ k)
     \<and> (\<forall>i<length (pg_operations p). op_index (pg_operations p ! i) = i \<and> operation_ok (pg_operations p ! i))
     \<and> fits 32 (pg_pc0 p) \<and> pg_pc0 p < int (length (pg_operations p)) \<and> fits 32 (pg_fp0 p)"

lemma mapE_set: "mapE f xs = Inr ys \<Longrightarrow> y \<in> set ys \<Longrightarrow> \<exists>x\<in>set xs. f x = Inr y"
  by (metis in_set_conv_nth mapE_eq_Inr)

lemma mapE_u32: "mapE u32_operand xs = Inr ns \<Longrightarrow> length ns = length xs \<and> (\<forall>n\<in>set ns. fits 32 n)"
  using mapE_length mapE_set u32_operand_fits by metis

lemma validate_operand_ok:
  assumes "validate_operand (name, v) = Inr (name', w)" "name \<in> set FIELD_OPERANDS \<union> set U32_OPERANDS \<union> {''ins'', ''mode''}"
  shows "name' = name \<and> operand_ok name w"
proof -
  have disj: "name \<in> set FIELD_OPERANDS \<Longrightarrow> name \<notin> set U32_OPERANDS" by (auto simp: FIELD_OPERANDS_def U32_OPERANDS_def)
  show ?thesis using assms disj field_literal_fits u32_operand_fits
    by (auto simp: validate_operand_def require_def raise_simps operand_ok_def split: if_splits json.splits dest!: mapE_u32)
qed

lemma schema_names: "OPERAND_SCHEMA k = Some names \<Longrightarrow> set names \<subseteq> set FIELD_OPERANDS \<union> set U32_OPERANDS \<union> {''ins'', ''mode''}"
  by (auto simp: OPERAND_SCHEMA_def FIELD_OPERANDS_def U32_OPERANDS_def split: if_splits)

lemma load_slot_Inr:
  assumes "load_slot i slot = Inr op"
  obtains kind k names ops where "slot_kind kind = Inr k" "OPERAND_SCHEMA k = Some names"
    "set (map fst (slot_operands slot)) = set names" "mapE validate_operand (slot_operands slot) = Inr ops"
    "op = \<lparr>op_index = i, op_kind = k, op_operands = ops\<rparr>"
proof -
  from assms obtain kind k where k: "slot_kind kind = Inr k"
    and r: "bindE (case OPERAND_SCHEMA k of None \<Rightarrow> Inl KeyError | Some names \<Rightarrow> Inr names) (\<lambda>expected_operands.
     bindE (require (set (map fst (slot_operands slot)) = set expected_operands)) (\<lambda>_.
     bindE (mapE validate_operand (slot_operands slot)) (\<lambda>operands.
       Inr \<lparr>op_index = i, op_kind = k, op_operands = operands\<rparr>))) = Inr op"
    unfolding load_slot_def Let_def bindE_eq_Inr by blast
  from r obtain names ops where "OPERAND_SCHEMA k = Some names" "set (map fst (slot_operands slot)) = set names"
    "mapE validate_operand (slot_operands slot) = Inr ops" "op = \<lparr>op_index = i, op_kind = k, op_operands = ops\<rparr>"
    by (cases "OPERAND_SCHEMA k") (simp_all add: bindE_eq_Inr require_def raise_if_eq, blast)
  with k show thesis by (rule that)
qed

lemma load_slot_ok:
  assumes "load_slot i slot = Inr op"
  shows "op_index op = i \<and> operation_ok op"
proof -
  define items where "items = slot_operands slot"
  from assms obtain kind k names ops where k: "slot_kind kind = Inr k" and sch: "OPERAND_SCHEMA k = Some names"
    and keys: "set (map fst items) = set names" and ops: "mapE validate_operand items = Inr ops"
    and op: "op = \<lparr>op_index = i, op_kind = k, op_operands = ops\<rparr>"
    unfolding items_def by (rule load_slot_Inr)
  have k: "k \<in> set INTEGRATED_OPS" using k by (auto simp: slot_kind_def DEFERRED_OPS_def split: json.splits if_splits)
  have v: "name \<in> fst ` set items \<Longrightarrow> name \<in> set FIELD_OPERANDS \<union> set U32_OPERANDS \<union> {''ins'', ''mode''}" for name
    using schema_names [OF sch] unfolding keys [symmetric] set_map by blast
  have ok: "operand_ok name w \<and> name \<in> fst ` set items" if "(name, w) \<in> set ops" for name w
  proof -
    from mapE_set [OF ops that] obtain name' x where x: "(name', x) \<in> set items" "validate_operand (name', x) = Inr (name, w)" by fastforce
    then have "name' \<in> fst ` set items" by force
    from validate_operand_ok [OF x(2) v [OF this]] this show ?thesis by simp
  qed
  have "\<exists>w. (name, w) \<in> set ops" if "name \<in> fst ` set items" for name
  proof -
    from that obtain x j where j: "j < length items" "items ! j = (name, x)" by (auto simp: in_set_conv_nth)
    with ops have len: "j < length ops" "validate_operand (name, x) = Inr (ops ! j)" by (auto simp: mapE_eq_Inr)
    obtain n w where nw: "ops ! j = (n, w)" by force
    with len validate_operand_ok [of name x n w] v [OF that] have "n = name" by simp
    with nw len show ?thesis by (metis nth_mem)
  qed
  then have "set (map fst ops) = set names" using ok keys by force
  with op k sch ok show ?thesis by (auto simp: operation_ok_def integrated_def)
qed

lemma power_of_two:
  assumes "0 < n" "int n AND (int n - 1) = 0"
  shows "\<exists>k. n = 2 ^ k"
  using assms
proof (induction n rule: less_induct)
  case (less n)
  show ?case
  proof (cases "even n")
    case True
    then obtain m where m: "n = 2 * m" by blast
    have "int n AND (int n - 1) = 2 * (int m AND (int m - 1))"
    proof -
      have "(2 * int m - 1) div 2 = int m - 1" by linarith
      then show ?thesis by (simp add: m and_int_rec [of "2 * int m"])
    qed
    then obtain k where "m = 2 ^ k" using less.IH [of m] less.prems m by auto
    then have "n = 2 ^ Suc k" by (simp add: m)
    then show ?thesis by blast
  next
    case False
    then obtain m where m: "n = 2 * m + 1" using oddE by blast
    have "int n AND (int n - 1) = 2 * (int m AND int m)"
      by (simp add: m and_int_rec [of "1 + 2 * int m"])
    then have "n = 2 ^ 0" using less.prems m by simp
    then show ?thesis by blast
  qed
qed

lemma load_program_ok:
  assumes "load_program document = Inr p"
  shows "program_ok p"
proof -
  from assms obtain slots ops bytecode where truth: "json_truth bytecode" and slots: "json_iter bytecode = Inr slots"
    and two: "int (length slots) AND (int (length slots) - 1) = 0"
    and ops: "mapE (\<lambda>(i, slot). load_slot i slot) (enumerate 0 slots) = Inr ops"
    and p: "pg_operations p = ops" "fits 32 (pg_pc0 p)" "pg_pc0 p < int (length ops)" "fits 32 (pg_fp0 p)"
    unfolding load_program_def by (auto simp: raise_simps require_def dest!: u32_operand_fits)
  have "0 < length slots" using truth slots by (cases bytecode) auto
  from power_of_two [OF this two] obtain k where k: "length slots = 2 ^ k" by blast
  have len: "length ops = length slots" using mapE_length [OF ops] by simp
  have "op_index (ops ! i) = i \<and> operation_ok (ops ! i)" if "i < length ops" for i
  proof (rule load_slot_ok)
    show "load_slot i (slots ! i) = Inr (ops ! i)" using ops that len by (simp add: mapE_eq_Inr nth_enumerate_eq)
  qed
  with p k len show ?thesis by (auto simp: program_ok_def)
qed

section \<open>The hexadecimal literals\<close>

text \<open>Python's format \<open>#034x\<close> for a value below \<open>2^128\<close>: the prefix and 32 lower-case digits.\<close>

definition hex_char :: "int \<Rightarrow> char" where
  "hex_char d = (if d < 10 then char_of (d + 48) else char_of (d + 87))"

fun hex_string :: "nat \<Rightarrow> int \<Rightarrow> string" where
  "hex_string 0 v = []"
| "hex_string (Suc n) v = hex_char (v div 16 ^ n mod 16) # hex_string n v"

definition hex34 :: "int \<Rightarrow> string" where
  "hex34 v = ''0x'' @ hex_string 32 v"

lemma length_hex_string [simp]: "length (hex_string n v) = n"
  by (induction n) simp_all

lemma hex_digit_char: "0 \<le> d \<Longrightarrow> d < 16 \<Longrightarrow> hex_digit (hex_char d) = Some d"
proof -
  assume "0 \<le> d" "d < 16"
  then have "d = 0 \<or> d = 1 \<or> d = 2 \<or> d = 3 \<or> d = 4 \<or> d = 5 \<or> d = 6 \<or> d = 7 \<or> d = 8 \<or> d = 9 \<or> d = 10
      \<or> d = 11 \<or> d = 12 \<or> d = 13 \<or> d = 14 \<or> d = 15" by presburger
  then show ?thesis by (elim disjE) (simp_all add: hex_digit_def hex_char_def)
qed

lemma hex_digits_string:
  assumes "0 \<le> v"
  shows "0 \<le> acc \<Longrightarrow> hex_digits (hex_string n v) acc False = Inr (acc * 16 ^ n + v mod 16 ^ n)"
proof (induction n arbitrary: acc)
  case (Suc n)
  define d where "d = v div 16 ^ n mod 16"
  have d: "0 \<le> d" "d < 16" by (simp_all add: d_def)
  have "v mod 16 ^ Suc n = v mod 16 ^ n + 16 ^ n * d" unfolding d_def power_Suc2 by (rule zmod_zmult2_eq [THEN trans]) simp_all
  then show ?case using Suc d by (simp add: d_def [symmetric] hex_digit_char algebra_simps)
qed simp

lemma field_literal_hex34: "fits 128 v \<Longrightarrow> field_literal (JString (hex34 v)) = Inr v"
proof -
  assume v: "fits 128 v"
  define d where "d = v div 16 ^ 31 mod 16"
  have d: "hex_digit (hex_char d) = Some d" by (rule hex_digit_char) (simp_all add: d_def)
  have hs: "hex_string 32 v = hex_char d # hex_string 31 v"
    using hex_string.simps(2) [of 31 v] unfolding d_def by (simp del: hex_string.simps)
  have nu: "hex_char d \<noteq> CHR ''_''" using d by (auto simp: hex_digit_def)
  have "hex_digits (hex_string 32 v) 0 False = Inr v"
    using hex_digits_string [of v 0 32] v by (simp add: fits_def del: hex_string.simps)
  then have "int_16 (hex34 v) = Inr v"
    unfolding int_16_def hex34_def using d nu by (simp add: hs del: hex_string.simps)
  then show ?thesis by (simp add: field_literal_def hex34_def require_def)
qed

section \<open>Properties\<close>

text \<open>
  C34. A document that loads is a well-formed program: a power of two of slots, each labelled
  with its position and carrying exactly the operands of an integrated opcode, every operand of
  its type and in its range, and the entry point inside the bytecode.
\<close>

theorem load_validates:
  assumes "load_program document = Inr p"
  shows "program_ok p"
  using assms by (rule load_program_ok)

text \<open>
  The literals the host writes are the literals the adapter reads: the 34-character
  format of a 128-bit value is accepted as a field operand and read back as that value.
\<close>

lemma field_literal_roundtrip:
  assumes "fits 128 v"
  shows "field_literal (JString (hex34 v)) = Inr v"
  using assms by (rule field_literal_hex34)

text \<open>The reader is laxer than the format: underscores and trailing white space are accepted.\<close>

lemma field_literal_lenient:
  "field_literal (JString (''0x_1_0'' @ replicate 28 (CHR '' ''))) = Inr 16"
  by code_simp

section \<open>Examples\<close>

definition document_example :: json where
  "document_example = JObject
     [(''schema'', JString SCHEMA), (''upstream'', JObject [(''sha'', JString FROZEN_LEANVM_B)]),
      (''program'', JObject
         [(''bytecode'', JList
             [JObject [(''index'', JInt 0), (''op'', JString ''Set''), (''o'', JInt 2), (''k'', JString (hex34 9))],
              JObject [(''index'', JInt 1), (''op'', JString ''Xor''), (''a'', JInt 0), (''b'', JInt 1), (''c'', JInt 2)]]),
          (''pc0'', JInt 0), (''fp0'', JInt 0)])]"

definition program_example2 :: program where
  "program_example2 =
     \<lparr>pg_operations =
        [\<lparr>op_index = 0, op_kind = ''Set'', op_operands = [(''o'', OpInt 2), (''k'', OpInt 9)]\<rparr>,
         \<lparr>op_index = 1, op_kind = ''Xor'', op_operands = [(''a'', OpInt 0), (''b'', OpInt 1), (''c'', OpInt 2)]\<rparr>],
      pg_pc0 = 0, pg_fp0 = 0, pg_fn_ranges = [], pg_source = JString [], pg_upstream_sha = JString FROZEN_LEANVM_B,
      pg_disassembly = JString [], pg_upstream_execution = JNull\<rparr>"

lemma document_loads: "load_program document_example = Inr program_example2"
  by code_simp

lemma load_validates_witness: "load_program document_example = Inr program_example2 \<and> program_ok program_example2"
  using document_loads load_validates [OF document_loads] by simp

lemma field_literal_roundtrip_example: "field_literal (JString (hex34 255)) = Inr 255"
  by (rule field_literal_roundtrip) (simp add: fits_def)

end
