(* ===== verification/Host_Runtime.thy ===== *)
theory Host_Runtime
  imports Blake3_Service Program_Adapter Host_Memory Lsc_Drive
begin

text \<open>
  The host runtime of \<open>host/runtime.py\<close>: it prepares one request per instruction from the host
  memory, exchanges it with the endpoint over the byte lane, checks the answer against the
  memory before it retires the transition, and applies it. The endpoint is the model of
  \<open>sim/lsc1_transaction.py\<close>, as in the constructor's default. Two pieces are parameters: the
  BLAKE3 service (a routine on a state of its own) and the SHA-256 that goes into the report.
  A method returns its outcome and the runtime it leaves behind, also when it raises.
\<close>

section \<open>Reports\<close>

record branch =
  br_taken :: bool
  br_dest_pc :: int
  br_dest_fp :: int

record service_report =
  sr_session_epoch :: string
  sr_txn_id :: int
  sr_service_id :: int
  sr_kind :: int
  sr_request_sha256 :: string
  sr_response_sha256 :: string

record step_record =
  sp_index :: int
  sp_txn_id :: int
  sp_source_op :: string
  sp_opcode :: "opcode option"
  sp_pc :: int
  sp_fp :: int
  sp_next_pc :: "int option"
  sp_next_fp :: "int option"
  sp_addresses :: "int list"
  sp_inputs :: "(int \<times> bool \<times> int option) list"
  sp_writes :: "(int \<times> string) list"
  sp_branch :: "branch option"
  sp_deferred :: "(int \<times> int) list"
  sp_accesses :: "int list"
  sp_status_name :: "status option"
  sp_fault :: "status option"
  sp_retire_seq :: "int option"
  sp_lane_cycles :: int
  sp_lane_bytes :: int
  sp_service :: "service_report option"

definition StepRecord :: "int \<Rightarrow> int \<Rightarrow> string \<Rightarrow> opcode option \<Rightarrow> int \<Rightarrow> int \<Rightarrow> step_record" where
  "StepRecord index txn_id source_op op pc fp =
     \<lparr>sp_index = index, sp_txn_id = txn_id, sp_source_op = source_op, sp_opcode = op, sp_pc = pc, sp_fp = fp,
      sp_next_pc = None, sp_next_fp = None, sp_addresses = [], sp_inputs = [], sp_writes = [],
      sp_branch = None, sp_deferred = [], sp_accesses = [], sp_status_name = None, sp_fault = None,
      sp_retire_seq = None, sp_lane_cycles = 0, sp_lane_bytes = 0, sp_service = None\<rparr>"

text \<open>Why a run stopped. The reason is a text; the run's records and terminal are modelled.\<close>

datatype terminal = Halted | Fault_Stop | Unsupported_Stop | Step_Limit

record run_result =
  rr_records :: "step_record list"
  rr_terminal :: terminal

section \<open>Reading responses\<close>

definition FAULT_PAYLOAD_BYTES :: nat where "FAULT_PAYLOAD_BYTES = 5"

definition FRAME_ONLY_FAULTS :: "status set" where
  "FRAME_ONLY_FAULTS =
     {BAD_SOF, BAD_VERSION, BAD_OPCODE, BAD_LENGTH, BAD_CRC, BAD_FLAGS, BAD_STATE, BAD_SERVICE}"

definition RETIRE_DISCARDING_FAULTS :: "status set" where
  "RETIRE_DISCARDING_FAULTS = {RETIRE_MISMATCH}"

definition check_fault_response :: "response_frame \<Rightarrow> int \<Rightarrow> bool \<Rightarrow> unit res" where
  "check_fault_response reply expected_txn_id staged =
     (if status_code (rs_status reply) < 0x80 then Inl ProtocolViolation
      else if length (rs_payload reply) \<noteq> FAULT_PAYLOAD_BYTES then Inl ProtocolViolation
      else
        let echoed = le_slice 0 4 (rs_payload reply) in
        if echoed \<noteq> expected_txn_id then Inl ProtocolViolation
        else if staged then
          (if rs_status reply \<notin> RETIRE_DISCARDING_FAULTS then Inl ProtocolViolation else Inr ())
        else if rs_status reply \<in> FRAME_ONLY_FAULTS then Inl ProtocolViolation
        else Inr ())"

record transition_result =
  tr_txn_id :: int
  tr_next_pc :: int
  tr_next_fp :: int
  tr_writes :: "(int \<times> int) list"
  tr_deferred :: "(int \<times> int) list"
  tr_accesses :: "int list"

text \<open>
  The three loops of \<open>decode_result_payload\<close> have one shape: a count byte at the cursor, then
  that many items of a fixed width, each read at the cursor plus one.
\<close>

fun result_items :: "nat \<Rightarrow> nat \<Rightarrow> (nat \<Rightarrow> 'a) \<Rightarrow> bytes \<Rightarrow> nat \<Rightarrow> ('a list \<times> nat) res" where
  "result_items 0 width item payload cursor = Inr ([], cursor)"
| "result_items (Suc n) width item payload cursor =
     (let base = cursor + 1 in
      if base + width > length payload then Inl ProtocolViolation
      else
        bindE (result_items n width item payload (cursor + width)) (\<lambda>(items, cursor).
          Inr (item base # items, cursor)))"

definition decode_result_payload :: "bytes \<Rightarrow> int option \<Rightarrow> transition_result res" where
  "decode_result_payload payload expected_txn_id =
     (if length payload < 12 then Inl ProtocolViolation
      else
        let txn_id = le_slice 0 4 payload; next_pc = le_slice 4 8 payload; next_fp = le_slice 8 12 payload in
        if expected_txn_id \<noteq> None \<and> Some txn_id \<noteq> expected_txn_id then Inl ProtocolViolation
        else
          let cursor = 12 in
          if cursor \<ge> length payload then Inl ProtocolViolation
          else
            bindE (result_items (nat (uint (payload ! cursor))) WRITE_BYTES
                     (\<lambda>base. (le_slice base (base + 4) payload, le_slice (base + 4) (base + 20) payload))
                     payload cursor) (\<lambda>(writes, cursor).
            let cursor = cursor + 1 in
            if cursor \<ge> length payload then Inl ProtocolViolation
            else
              bindE (result_items (nat (uint (payload ! cursor))) DEFERRED_BYTES
                       (\<lambda>base. (le_slice base (base + 4) payload, le_slice (base + 4) (base + 8) payload))
                       payload cursor) (\<lambda>(deferred, cursor).
              let cursor = cursor + 1 in
              if cursor \<ge> length payload then Inl ProtocolViolation
              else
                bindE (result_items (nat (uint (payload ! cursor))) ACCESS_BYTES
                         (\<lambda>base. le_slice base (base + 4) payload) payload cursor) (\<lambda>(accesses, cursor).
                if cursor + 1 \<noteq> length payload then Inl ProtocolViolation
                else
                  Inr \<lparr>tr_txn_id = txn_id, tr_next_pc = next_pc, tr_next_fp = next_fp,
                       tr_writes = writes, tr_deferred = deferred, tr_accesses = accesses\<rparr>))))"

section \<open>The runtime\<close>

record 'w host_runtime =
  rt_program :: program
  rt_memory :: host_memory
  rt_endpoint :: endpoint
  rt_profile :: profile
  rt_rx_gaps :: "int list option"
  rt_tx_gaps :: "int list option"
  rt_pc :: int
  rt_fp :: int
  rt_txn_id :: int
  rt_step_index :: int
  rt_lane_cycles :: int
  rt_lane_bytes :: int
  rt_faulted :: bool
  rt_service_adapter :: service_adapter
  rt_service_state :: 'w

text \<open>\<open>drive\<close> is called with its default of 100,000 clock edges.\<close>

definition MAX_CYCLES :: nat where "MAX_CYCLES = 100000"

definition rt_exchange :: "request_frame \<Rightarrow> ('w host_runtime, exn, response_frame) routine" where
  "rt_exchange frame rt =
     thenM (encode_request frame, rt) (\<lambda>raw rt.
       let (r, e) = drive raw (rt_rx_gaps rt) (rt_tx_gaps rt) MAX_CYCLES (rt_endpoint rt) in
       thenM (r, rt\<lparr>rt_endpoint := e\<rparr>) (\<lambda>(raw, cycles) rt.
         (decode_response raw, rt\<lparr>rt_lane_cycles := rt_lane_cycles rt + cycles\<rparr>)))"

definition rt_negotiate :: "('w host_runtime, exn, unit) routine" where
  "rt_negotiate rt =
     thenM (build_negotiate PROTOCOL_VERSION PROTOCOL_VERSION (rt_profile rt) 0, rt) (\<lambda>frame rt.
     thenM (rt_exchange frame rt) (\<lambda>reply rt.
       if rs_status reply \<noteq> OK then (Inl (TransactionRejected (rs_status reply) (rs_payload reply)), rt)
       else
         thenM (catE [byte_of PROTOCOL_VERSION, byte_of (profile_code (rt_profile rt)),
             u16le (int MAX_PAYLOAD_BYTES), byte_of (int INDEX_BITS), byte_of 0, u32le DEVICE_FEATURES,
             u32le DEVICE_ID], rt) (\<lambda>expected rt.
           if rs_payload reply \<noteq> expected then (Inl ProtocolViolation, rt) else (Inr (), rt))))"

text \<open>
  The constructor with its arguments; the session epoch is drawn by the caller. An exception
  in it leaves no runtime.
\<close>

definition HostRuntime :: "program \<Rightarrow> host_memory option \<Rightarrow> endpoint option \<Rightarrow> profile \<Rightarrow> int list option
    \<Rightarrow> int list option \<Rightarrow> int \<Rightarrow> 'w \<Rightarrow> 'w host_runtime res" where
  "HostRuntime program memory endpoint prof rx_gaps tx_gaps session_epoch service_state =
     bindE (ModelServiceAdapter session_epoch 2) (\<lambda>adapter.
       case rt_negotiate
         \<lparr>rt_program = program,
          rt_memory = (case memory of None \<Rightarrow> with_public_input 1 0 | Some m \<Rightarrow> m),
          rt_endpoint = (case endpoint of None \<Rightarrow> ep_reset | Some e \<Rightarrow> e), rt_profile = prof,
          rt_rx_gaps = (if rx_gaps = Some [] then None else rx_gaps),
          rt_tx_gaps = (if tx_gaps = Some [] then None else tx_gaps),
          rt_pc = pg_pc0 program, rt_fp = pg_fp0 program, rt_txn_id = 0, rt_step_index = 0,
          rt_lane_cycles = 0, rt_lane_bytes = 0, rt_faulted = False, rt_service_adapter = adapter,
          rt_service_state = service_state\<rparr> of
         (Inl e, _) \<Rightarrow> Inl e
       | (Inr _, rt) \<Rightarrow> Inr rt)"

section \<open>Preparing a request\<close>

text \<open>\<open>operation.operands[name]\<close>, used as an integer, a list or a mode.\<close>

definition op_int :: "operation \<Rightarrow> string \<Rightarrow> int res" where
  "op_int op name = (case map_of (op_operands op) name of
       None \<Rightarrow> Inl KeyError | Some (OpInt n) \<Rightarrow> Inr n | Some _ \<Rightarrow> Inl TypeError)"

definition op_ints :: "operation \<Rightarrow> string \<Rightarrow> int list res" where
  "op_ints op name = (case map_of (op_operands op) name of
       None \<Rightarrow> Inl KeyError | Some (OpInts ns) \<Rightarrow> Inr ns | Some _ \<Rightarrow> Inl TypeError)"

definition op_mode :: "operation \<Rightarrow> string \<Rightarrow> string res" where
  "op_mode op name = (case map_of (op_operands op) name of
       None \<Rightarrow> Inl KeyError | Some (OpMode m) \<Rightarrow> Inr m | Some _ \<Rightarrow> Inl TypeError)"

definition lsc1_opcode :: "string \<Rightarrow> opcode res" where
  "lsc1_opcode name =
     (case map_of [(''Set'', OP_SET_CONSTANT), (''Xor'', OP_XOR), (''Mul'', OP_MUL_NATIVE),
                   (''Cell'', OP_DEREF_CELL), (''Pc'', OP_DEREF_PC), (''Fp'', OP_DEREF_FP)] name of
        None \<Rightarrow> Inl KeyError | Some op \<Rightarrow> Inr op)"

definition rt_cells :: "'w host_runtime \<Rightarrow> int list \<Rightarrow> cell list" where
  "rt_cells rt addresses = map (hm_cell (rt_memory rt)) addresses"

definition rt_inputs :: "'w host_runtime \<Rightarrow> int list \<Rightarrow> (int \<times> bool \<times> int option) list" where
  "rt_inputs rt addresses = map (\<lambda>a. (a, hm_written (rt_memory rt) a, hm_read (rt_memory rt) a)) addresses"

text \<open>A \<open>ProtocolFault\<close> becomes a \<open>PreparationFault\<close> with its status.\<close>

definition host_add :: "int \<Rightarrow> int \<Rightarrow> int res" where
  "host_add left right =
     (case checked_add left right of
        Inl (ProtocolFault s d) \<Rightarrow> Inl (PreparationFault s)
      | Inl e \<Rightarrow> Inl e
      | Inr a \<Rightarrow> Inr a)"

definition rt_address :: "'w host_runtime \<Rightarrow> int \<Rightarrow> int res" where
  "rt_address rt offset = host_add (rt_fp rt) offset"

definition rt_index_of :: "int \<Rightarrow> ('w host_runtime, exn, int) routine" where
  "rt_index_of pointer rt =
     (let (r, pm) = index_of pointer (hm_pointers (rt_memory rt));
          rt = rt\<lparr>rt_memory := (rt_memory rt)\<lparr>hm_pointers := pm\<rparr>\<rparr>
      in (case r of Inl UnsupportedCapability \<Rightarrow> Inl (PreparationFault BAD_POINTER) | _ \<Rightarrow> r, rt))"

definition inverse_witness :: "profile \<Rightarrow> opcode \<Rightarrow> cell list \<Rightarrow> cell res" where
  "inverse_witness prof op cells =
     (if op \<noteq> OP_MUL_NATIVE then Inr ABSENT
      else if prof \<noteq> INTERPRETER_COMPAT then Inr ABSENT
      else case cells of
        [left, right, destination] \<Rightarrow>
          if \<not> cell_present destination \<or> cell_present left = cell_present right then Inr ABSENT
          else
            let known = (if cell_present left then left else right) in
            if cell_value known = 0 then Inr ABSENT
            else bindE (field_inverse (cell_value known)) (\<lambda>v. Inr (Cell True v))
      | _ \<Rightarrow> Inl ValueError)"

type_synonym prepared = "request_frame \<times> int list \<times> branch option"

definition prepare_set :: "operation \<Rightarrow> 'w host_runtime \<Rightarrow> prepared res" where
  "prepare_set op rt =
     bindE (op_int op ''o'') (\<lambda>offset.
     bindE (rt_address rt offset) (\<lambda>address.
     bindE (op_int op ''k'') (\<lambda>constant.
     bindE (build_set_constant (rt_txn_id rt) (rt_pc rt) (rt_fp rt) (rt_profile rt) offset constant
              (hm_cell (rt_memory rt) address)) (\<lambda>frame.
       Inr (frame, [address], None)))))"

definition prepare_deref :: "operation \<Rightarrow> ('w host_runtime, exn, prepared) routine" where
  "prepare_deref op rt =
     thenM (bindE (op_int op ''alpha'') (\<lambda>alpha. bindE (op_int op ''beta'') (\<lambda>beta.
            bindE (op_int op ''gamma'') (\<lambda>gamma. bindE (rt_address rt alpha) (\<lambda>pointer_address.
            case hm_read (rt_memory rt) pointer_address of
              None \<Rightarrow> Inl (PreparationFault BAD_POINTER)
            | Some pointer \<Rightarrow> Inr (alpha, beta, gamma, pointer_address, pointer))))), rt)
       (\<lambda>(alpha, beta, gamma, pointer_address, pointer) rt.
     thenM (rt_index_of pointer rt) (\<lambda>base rt.
       (bindE (host_add base beta) (\<lambda>target_address.
        bindE (rt_address rt gamma) (\<lambda>local_address.
        bindE (op_mode op ''mode'') (\<lambda>mode.
        bindE (lsc1_opcode mode) (\<lambda>opc.
        bindE (build_deref opc (rt_txn_id rt) (rt_pc rt) (rt_fp rt) (rt_profile rt) alpha beta gamma
                 (hm_cell (rt_memory rt) pointer_address) base (hm_cell (rt_memory rt) target_address)
                 (hm_cell (rt_memory rt) local_address)) (\<lambda>frame.
          Inr (frame, [pointer_address, target_address, local_address], None)))))), rt)))"

definition prepare_jump :: "operation \<Rightarrow> ('w host_runtime, exn, prepared) routine" where
  "prepare_jump op rt =
     thenM (bindE (op_int op ''oc'') (\<lambda>oc. bindE (op_int op ''od'') (\<lambda>od. bindE (op_int op ''of'') (\<lambda>of'.
            bindE (mapE (rt_address rt) [oc, od, of']) (\<lambda>addresses. Inr ([oc, od, of'], addresses))))), rt)
       (\<lambda>(offsets, addresses) rt.
     let cells = rt_cells rt addresses;
         condition = (if cell_present (cells ! 0) then cell_value (cells ! 0) else 0);
         taken = (condition \<noteq> 0) in
     thenM
       (if taken then
          (if \<not> cell_present (cells ! 1) \<or> \<not> cell_present (cells ! 2) then (Inl (PreparationFault BAD_POINTER), rt)
           else
             thenM (rt_index_of (cell_value (cells ! 1)) rt) (\<lambda>dest_pc rt.
             thenM (rt_index_of (cell_value (cells ! 2)) rt) (\<lambda>dest_fp rt.
               (bindE (field_inverse condition) (\<lambda>v. Inr (dest_pc, dest_fp, Cell True v)), rt))))
        else (Inr (0, 0, ABSENT), rt))
       (\<lambda>(dest_pc, dest_fp, inverse) rt.
         (bindE (build_jump (rt_txn_id rt) (rt_pc rt) (rt_fp rt) (rt_profile rt) offsets cells taken dest_pc dest_fp inverse)
            (\<lambda>frame. Inr (frame, addresses, Some \<lparr>br_taken = taken, br_dest_pc = dest_pc, br_dest_fp = dest_fp\<rparr>)), rt)))"

definition prepare_blake3 :: "operation \<Rightarrow> 'w host_runtime \<Rightarrow> prepared res" where
  "prepare_blake3 op rt =
     bindE (op_int op ''metadata'') (\<lambda>metadata.
     let block_len = drop_bit 64 metadata AND 0xFFFFFFFF; flags = drop_bit 96 metadata in
     if block_len > 64 \<or> flags AND NOT KNOWN_FLAGS \<noteq> 0 then Inl (PreparationFault BAD_SERVICE)
     else
       bindE (op_ints op ''ins'') (\<lambda>message_offsets.
       bindE (op_int op ''cv'') (\<lambda>cv_offset.
       bindE (op_int op ''out'') (\<lambda>out_offset.
       bindE (mapE (rt_address rt) (message_offsets @ [cv_offset, cv_offset + 1, out_offset, out_offset + 1])) (\<lambda>addresses.
       let cells = rt_cells rt addresses in
       bindE (build_blake3 (rt_txn_id rt) (rt_pc rt) (rt_fp rt) (rt_profile rt) message_offsets cv_offset out_offset metadata
                (take 4 cells) (pyslice 4 6 cells) (pyslice 6 8 cells)) (\<lambda>frame.
         Inr (frame, addresses, None)))))))"

definition prepare_binary :: "operation \<Rightarrow> 'w host_runtime \<Rightarrow> prepared res" where
  "prepare_binary op rt =
     bindE (mapE (op_int op) [''a'', ''b'', ''c'']) (\<lambda>offsets.
     bindE (mapE (rt_address rt) offsets) (\<lambda>addresses.
     let cells = rt_cells rt addresses in
     bindE (lsc1_opcode (op_kind op)) (\<lambda>opc.
     bindE (inverse_witness (rt_profile rt) opc cells) (\<lambda>inverse.
     bindE (build_binary_op opc (rt_txn_id rt) (rt_pc rt) (rt_fp rt) (rt_profile rt) offsets cells inverse) (\<lambda>frame.
       Inr (frame, addresses, None))))))"

definition prepare :: "operation \<Rightarrow> ('w host_runtime, exn, prepared) routine" where
  "prepare op rt =
     (if \<not> integrated op then (Inl UnsupportedCapability, rt)
      else
        let rt = rt\<lparr>rt_txn_id := rt_txn_id rt + 1\<rparr> in
        if op_kind op = ''Set'' then (prepare_set op rt, rt)
        else if op_kind op = ''Deref'' then prepare_deref op rt
        else if op_kind op = ''Jump'' then prepare_jump op rt
        else if op_kind op = ''Blake3'' then (prepare_blake3 op rt, rt)
        else (prepare_binary op rt, rt))"

section \<open>Checking a result\<close>

text \<open>The loop over the proposed writes: conflicts among them, then against the memory.\<close>

fun check_writes :: "(int \<times> int) list \<Rightarrow> (int \<Rightarrow> int option) \<Rightarrow> host_memory \<Rightarrow> unit res" where
  "check_writes [] proposed m = Inr ()"
| "check_writes ((a, v) # ws) proposed m =
     (case proposed a of
        Some prior \<Rightarrow>
          if prior \<noteq> v then Inl ProtocolViolation
          else bindE (prevalidate_write m a v) (\<lambda>_. check_writes ws (proposed(a \<mapsto> v)) m)
      | None \<Rightarrow> bindE (prevalidate_write m a v) (\<lambda>_. check_writes ws (proposed(a \<mapsto> v)) m))"

fun apply_writes :: "(int \<times> int) list \<Rightarrow> (host_memory, exn, unit) routine" where
  "apply_writes [] m = (Inr (), m)"
| "apply_writes ((a, v) # ws) m = thenM (apply_write a v m) (\<lambda>_ m. apply_writes ws m)"

definition record_all :: "(int \<times> int) list \<Rightarrow> host_memory \<Rightarrow> host_memory" where
  "record_all items m = fold (\<lambda>(target, local). record_deferred target local) items m"

definition decode_and_prevalidate :: "bytes \<Rightarrow> int list \<Rightarrow> 'w host_runtime \<Rightarrow> transition_result res" where
  "decode_and_prevalidate payload addresses rt =
     bindE (decode_result_payload payload (Some (rt_txn_id rt))) (\<lambda>result.
     bindE (check_writes (tr_writes result) (\<lambda>_. None) (rt_memory rt)) (\<lambda>_.
     let staged = HostMemory (hm_cells (rt_memory rt)) (hm_deferred (rt_memory rt));
         (r, staged) = apply_writes (tr_writes result) staged in
     bindE r (\<lambda>_.
     bindE (fst (resolve_deferred (record_all (tr_deferred result) staged))) (\<lambda>_.
     let in_frame = set addresses in
     if \<exists>(a, v)\<in>set (tr_writes result). a \<notin> in_frame then Inl ProtocolViolation
     else if \<exists>(target, local)\<in>set (tr_deferred result). target \<notin> in_frame \<or> local \<notin> in_frame then Inl ProtocolViolation
     else if \<exists>a\<in>set (tr_accesses result). a \<notin> in_frame then Inl ProtocolViolation
     else Inr result))))"

section \<open>One step\<close>

text \<open>The reaction to a broken service exchange: pulse ABORT and drop the outstanding key.\<close>

definition service_abort :: "'w host_runtime \<Rightarrow> 'w host_runtime" where
  "service_abort rt =
     rt\<lparr>rt_endpoint := snd (ep_step 0 False False True True (rt_endpoint rt)),
        rt_service_adapter := ad_abort (rt_service_adapter rt)\<rparr>"

definition drop_service :: "'w host_runtime \<Rightarrow> 'w host_runtime" where
  "drop_service rt = rt\<lparr>rt_service_adapter := ad_abort (rt_service_adapter rt)\<rparr>"

text \<open>\<open>try: \<dots> except Exception: abort; raise\<close>, when \<open>b\<close> holds.\<close>

definition aborting :: "bool \<Rightarrow> ('e + 'a) \<times> 'w host_runtime \<Rightarrow> ('e + 'a) \<times> 'w host_runtime" where
  "aborting b r = (case r of (Inl e, rt) \<Rightarrow> (Inl e, if b then service_abort rt else rt) | _ \<Rightarrow> r)"

text \<open>The operands of a SERVICE_REQUIRED are those of the request the host sent.\<close>

definition operands_match :: "service_required \<Rightarrow> decoded_request \<Rightarrow> bool res" where
  "operands_match required sent =
     bindE (catE (map (\<lambda>c. to_bytes 16 (cell_value c)) (take 4 (dq_cells sent)))) (\<lambda>expected_message.
     bindE (catE (map (\<lambda>c. to_bytes 16 (cell_value c)) (pyslice 4 6 (dq_cells sent)))) (\<lambda>expected_chaining_value.
       Inr (sq_message required = expected_message
          \<and> sq_chaining_value required = expected_chaining_value
          \<and> sq_counter required = dq_metadata sent AND (push_bit 64 1 - 1)
          \<and> sq_block_len required = drop_bit 64 (dq_metadata sent) AND 0xFFFFFFFF
          \<and> sq_flags required = drop_bit 96 (dq_metadata sent))))"

definition run_service :: "(bytes \<Rightarrow> string) \<Rightarrow> (service_required \<Rightarrow> 'w \<Rightarrow> bytes res \<times> 'w)
    \<Rightarrow> request_frame \<Rightarrow> bytes \<Rightarrow> ('w host_runtime, exn, service_report \<times> service_key \<times> response_frame) routine" where
  "run_service sha256 service frame payload rt =
     (let (r, adapter) = accept_required payload (rt_service_adapter rt) in
      thenM (r, rt\<lparr>rt_service_adapter := adapter\<rparr>) (\<lambda>required rt.
      if sk_txn_id (sq_key required) \<noteq> rt_txn_id rt then (Inl ServiceSemanticError, rt)
      else
        thenM (bindE (decode_request_payload (rq_opcode frame) (rq_payload frame)) (operands_match required), rt) (\<lambda>match rt.
        if \<not> match then (Inl ServiceSemanticError, rt)
        else
          thenM (encode_required required, rt) (\<lambda>canonical_request rt.
          let (r, w) = compute (rt_service_adapter rt) required service (rt_service_state rt) in
          thenM (r, rt\<lparr>rt_service_state := w\<rparr>) (\<lambda>response rt.
          thenM (encode_service_reply response, rt) (\<lambda>canonical_response rt.
          let report = \<lparr>sr_session_epoch = hex_string 16 (sk_session_epoch (sq_key required)),
                        sr_txn_id = sk_txn_id (sq_key required), sr_service_id = sk_service_id (sq_key required),
                        sr_kind = sk_kind (sq_key required), sr_request_sha256 = sha256 canonical_request,
                        sr_response_sha256 = sha256 canonical_response\<rparr> in
          thenM (to_v1 (rt_service_adapter rt) response, rt) (\<lambda>reply_frame rt.
          thenM (rt_exchange reply_frame rt) (\<lambda>reply rt.
            (Inr (report, sq_key required, reply), rt))))))))) "

text \<open>A refused step: the record keeps the fault and the lane cycles, and the run is over.\<close>

definition faulted :: "step_record \<Rightarrow> status \<Rightarrow> int \<Rightarrow> int \<Rightarrow> ('w host_runtime, exn, step_record) routine" where
  "faulted record st before before_bytes rt =
     (Inr (record\<lparr>sp_status_name := Some st, sp_fault := Some st,
                  sp_lane_cycles := rt_lane_cycles rt - before,
                  sp_lane_bytes := rt_lane_bytes rt - before_bytes\<rparr>), rt\<lparr>rt_faulted := True\<rparr>)"

text \<open>The checks on the RETIRED response (lines 681-697).\<close>

definition check_retired :: "bytes \<Rightarrow> int \<Rightarrow> transition_result \<Rightarrow> unit res" where
  "check_retired payload txn_id result =
     (if length payload \<noteq> 16 then Inl ProtocolViolation
      else if le_slice 0 4 payload \<noteq> txn_id then Inl ProtocolViolation
      else if (le_slice 8 12 payload, le_slice 12 16 payload) \<noteq> (tr_next_pc result, tr_next_fp result)
      then Inl ProtocolViolation
      else Inr ())"

text \<open>Applying a retired transition to the memory (lines 701-709).\<close>

definition apply_transition :: "transition_result \<Rightarrow> (host_memory, exn, unit) routine" where
  "apply_transition result m =
     thenM (apply_writes (tr_writes result) m) (\<lambda>_ m.
     let m = fold count_access (tr_accesses result) m;
         m = record_all (tr_deferred result) m in
     thenM (resolve_deferred m) (\<lambda>_ m. (Inr (), m)))"

definition commit_step :: "step_record \<Rightarrow> transition_result \<Rightarrow> bytes \<Rightarrow> service_key option \<Rightarrow> int \<Rightarrow> int
    \<Rightarrow> ('w host_runtime, exn, step_record) routine" where
  "commit_step record result retired service_key before before_bytes rt =
     (let (r, m) = apply_transition result (rt_memory rt) in
      thenM (r, rt\<lparr>rt_memory := m\<rparr>) (\<lambda>_ rt.
      let rt = rt\<lparr>rt_pc := tr_next_pc result, rt_fp := tr_next_fp result\<rparr>;
          record = record\<lparr>sp_next_pc := Some (tr_next_pc result), sp_next_fp := Some (tr_next_fp result),
            sp_writes := map (\<lambda>(a, v). (a, hex34 v)) (tr_writes result), sp_deferred := tr_deferred result,
            sp_accesses := tr_accesses result, sp_status_name := Some OK,
            sp_retire_seq := Some (le_slice 4 8 retired)\<rparr> in
      thenM (case service_key of
               None \<Rightarrow> (Inr (), rt)
             | Some key \<Rightarrow>
                 let (r, adapter) = ad_complete key (rt_service_adapter rt)
                 in (r, rt\<lparr>rt_service_adapter := adapter\<rparr>)) (\<lambda>_ rt.
        (Inr (record\<lparr>sp_lane_cycles := rt_lane_cycles rt - before,
                     sp_lane_bytes := rt_lane_bytes rt - before_bytes\<rparr>), rt))))"

text \<open>From the reply to an instruction to the retirement (lines 645-731).\<close>

definition retire_step :: "step_record \<Rightarrow> int list \<Rightarrow> response_frame \<Rightarrow> service_key option \<Rightarrow> int \<Rightarrow> int
    \<Rightarrow> ('w host_runtime, exn, step_record) routine" where
  "retire_step record addresses reply service_key before before_bytes rt =
     thenM (aborting (service_key \<noteq> None) (decode_and_prevalidate (rs_payload reply) addresses rt, rt)) (\<lambda>result rt.
     thenM (aborting (service_key \<noteq> None)
              (thenM (build_retire (tr_txn_id result) (crc32 (rs_payload reply)), rt) rt_exchange)) (\<lambda>retire rt.
     if rs_status retire \<noteq> RETIRED then
       thenM (check_fault_response retire (rt_txn_id rt) True, rt) (\<lambda>_ rt.
         faulted record (rs_status retire) before before_bytes
           (if service_key \<noteq> None \<and> rs_status retire = RETIRE_MISMATCH then drop_service rt else rt))
     else
       thenM (check_retired (rs_payload retire) (rt_txn_id rt) result, rt) (\<lambda>_ rt.
         commit_step record result (rs_payload retire) service_key before before_bytes rt)))"

definition rt_step :: "(bytes \<Rightarrow> string) \<Rightarrow> (service_required \<Rightarrow> 'w \<Rightarrow> bytes res \<times> 'w)
    \<Rightarrow> ('w host_runtime, exn, step_record) routine" where
  "rt_step sha256 service rt =
     thenM (program_at (rt_program rt) (rt_pc rt), rt) (\<lambda>operation rt.
     thenM (prepare operation rt) (\<lambda>(frame, addresses, branch) rt.
     let record = (StepRecord (rt_step_index rt) (rt_txn_id rt) (op_kind operation) (Some (rq_opcode frame)) (rt_pc rt) (rt_fp rt))
           \<lparr>sp_addresses := addresses, sp_inputs := rt_inputs rt addresses, sp_branch := branch\<rparr>;
         rt = rt\<lparr>rt_step_index := rt_step_index rt + 1\<rparr>;
         before = rt_lane_cycles rt; before_bytes = rt_lane_bytes rt;
         blake3 = (op_kind operation = ''Blake3'') in
     thenM (aborting blake3 (rt_exchange frame rt)) (\<lambda>reply rt.
     thenM
       (if blake3 \<and> rs_status reply = SERVICE_REQUIRED then
          thenM (aborting True (run_service sha256 service frame (rs_payload reply) rt)) (\<lambda>(report, key, reply) rt.
            (Inr (record\<lparr>sp_service := Some report\<rparr>, Some key, reply), rt))
        else if blake3 \<and> status_code (rs_status reply) < 0x80 then (Inl ProtocolViolation, service_abort rt)
        else (Inr (record, None, reply), rt)) (\<lambda>(record, service_key, reply) rt.
     if rs_status reply \<noteq> OK then
       let rt = (if service_key = None then rt
                 else if rs_status reply \<noteq> WRITE_CONFLICT then service_abort rt else drop_service rt) in
       thenM (check_fault_response reply (rt_txn_id rt) False, rt) (\<lambda>_ rt.
         faulted record (rs_status reply) before before_bytes rt)
     else retire_step record addresses reply service_key before before_bytes rt))))"

text \<open>The loop of \<open>run\<close> with \<open>n\<close> steps left; its exceptions propagate but for two.\<close>

fun rt_run_loop :: "(bytes \<Rightarrow> string) \<Rightarrow> (service_required \<Rightarrow> 'w \<Rightarrow> bytes res \<times> 'w)
    \<Rightarrow> nat \<Rightarrow> step_record list \<Rightarrow> ('w host_runtime, exn, run_result) routine" where
  "rt_run_loop sha256 service 0 records rt = (Inr \<lparr>rr_records = records, rr_terminal = Step_Limit\<rparr>, rt)"
| "rt_run_loop sha256 service (Suc n) records rt =
     (if rt_pc rt = halt_pc (rt_program rt) then
        (Inr \<lparr>rr_records = records, rr_terminal = (if rt_fp rt \<noteq> 0 then Fault_Stop else Halted)\<rparr>, rt)
      else
        case rt_step sha256 service rt of
          (Inl UnsupportedCapability, rt) \<Rightarrow> (Inr \<lparr>rr_records = records, rr_terminal = Unsupported_Stop\<rparr>, rt)
        | (Inl (PreparationFault s), rt) \<Rightarrow>
            (Inr \<lparr>rr_records = records, rr_terminal = Fault_Stop\<rparr>, rt\<lparr>rt_faulted := True\<rparr>)
        | (Inl e, rt) \<Rightarrow> (Inl e, rt)
        | (Inr record, rt) \<Rightarrow>
            let records = records @ [record] in
            if sp_fault record \<noteq> None then (Inr \<lparr>rr_records = records, rr_terminal = Fault_Stop\<rparr>, rt)
            else rt_run_loop sha256 service n records rt)"

definition rt_run :: "(bytes \<Rightarrow> string) \<Rightarrow> (service_required \<Rightarrow> 'w \<Rightarrow> bytes res \<times> 'w)
    \<Rightarrow> nat \<Rightarrow> ('w host_runtime, exn, run_result) routine" where
  "rt_run sha256 service max_steps = rt_run_loop sha256 service max_steps []"

text \<open>\<open>final_state\<close>, without its two sorted listings' order of keys.\<close>

record final_state =
  fs_pc :: int
  fs_fp :: int
  fs_cycles :: int
  fs_lane_cycles :: int
  fs_lane_bytes :: int
  fs_memory :: "string list"
  fs_written :: "int set"
  fs_open_deferred :: "(int \<times> int) list"

definition rt_final_state :: "nat \<Rightarrow> 'w host_runtime \<Rightarrow> final_state" where
  "rt_final_state memory_cells rt =
     \<lparr>fs_pc = rt_pc rt, fs_fp = rt_fp rt, fs_cycles = rt_step_index rt, fs_lane_cycles = rt_lane_cycles rt,
      fs_lane_bytes = rt_lane_bytes rt, fs_memory = map hex34 (memory_image memory_cells (rt_memory rt)),
      fs_written = dom (hm_cells (rt_memory rt)), fs_open_deferred = hm_deferred (rt_memory rt)\<rparr>"

end
