(* ===== verification/Runtime_Safety.thy ===== *)
theory Runtime_Safety
  imports Host_Runtime
begin

text \<open>
  What the host runtime guarantees: it reads back exactly what the endpoint staged, a transition
  it has prevalidated commits, and a step either commits one transition or leaves the memory, the
  program counter and the frame pointer alone.
\<close>

section \<open>The result payload\<close>

lemma result_items_eq:
  assumes "0 < width"
  shows "result_items n width item payload cursor =
    (if n = 0 \<or> cursor + 1 + n * width \<le> length payload
     then Inr (map (\<lambda>i. item (cursor + 1 + i * width)) [0..<n], cursor + n * width) else Inl ProtocolViolation)"
proof (induction n arbitrary: cursor)
  case (Suc n)
  have l: "map (\<lambda>i. item (cursor + 1 + i * width)) [0..<Suc n] =
      item (cursor + 1) # map (\<lambda>i. item (cursor + width + 1 + i * width)) [0..<n]"
    by (simp add: upt_conv_Cons map_Suc_upt [symmetric] comp_def algebra_simps del: upt_Suc)
  have c: "(cursor + 1 + width \<le> length payload \<and> (n = 0 \<or> cursor + width + 1 + n * width \<le> length payload))
      \<longleftrightarrow> cursor + 1 + Suc n * width \<le> length payload"
    by (cases n) auto
  show ?case
    unfolding result_items.simps(2) Let_def Suc.IH l using c
    by (auto simp: algebra_simps not_le split: if_splits)
qed simp

text \<open>The transition the endpoint staged, as the host reads it.\<close>

definition transition_of :: "staged_transaction \<Rightarrow> transition_result" where
  "transition_of s =
     \<lparr>tr_txn_id = st_txn_id s, tr_next_pc = st_next_pc s, tr_next_fp = st_next_fp s,
      tr_writes = map (\<lambda>w. (wr_address w, wr_value w)) (st_writes s),
      tr_deferred = map (\<lambda>x. (df_target x, df_local x)) (st_deferred s), tr_accesses = st_accesses s\<rparr>"

definition tr_ok :: "transition_result \<Rightarrow> bool" where
  "tr_ok r \<longleftrightarrow> fits 32 (tr_txn_id r) \<and> fits 32 (tr_next_pc r) \<and> fits 32 (tr_next_fp r)
     \<and> length (tr_writes r) < 256 \<and> (\<forall>(a, v)\<in>set (tr_writes r). fits 32 a \<and> fits 128 v)
     \<and> length (tr_deferred r) < 256 \<and> (\<forall>(t, l)\<in>set (tr_deferred r). fits 32 t \<and> fits 32 l)
     \<and> length (tr_accesses r) < 256 \<and> (\<forall>a\<in>set (tr_accesses r). fits 32 a)"

definition tr_bytes :: "transition_result \<Rightarrow> bytes" where
  "tr_bytes r = to_le 4 (tr_txn_id r) @ to_le 4 (tr_next_pc r) @ to_le 4 (tr_next_fp r)
     @ word_of_int (int (length (tr_writes r))) # concat (map (\<lambda>(a, v). to_le 4 a @ to_le 16 v) (tr_writes r))
     @ word_of_int (int (length (tr_deferred r))) # concat (map (\<lambda>(t, l). to_le 4 t @ to_le 4 l) (tr_deferred r))
     @ word_of_int (int (length (tr_accesses r))) # concat (map (to_le 4) (tr_accesses r))"

lemma slice_concat:
  assumes "\<forall>x\<in>set xs. length (f x) = w" "i < length xs"
  shows "pyslice (length pre + i * w) (length pre + i * w + w) (pre @ concat (map f xs) @ post) = f (xs ! i)"
proof -
  have d: "drop (i * w) (concat (map f xs) @ post) = f (xs ! i) @ concat (map f (drop (Suc i) xs)) @ post"
    using assms
  proof (induction xs arbitrary: i)
    case (Cons x xs)
    then show ?case by (cases i) simp_all
  qed simp
  have "length (f (xs ! i)) = w" using assms by simp
  moreover have "drop (length pre + i * w) (pre @ concat (map f xs) @ post) = drop (i * w) (concat (map f xs) @ post)" by simp
  ultimately show ?thesis unfolding pyslice_def by (simp only: d) simp
qed

lemma length_pairs: "length (concat (map (\<lambda>(a, v). to_le m a @ to_le n v) xs)) = length xs * (m + n)"
  by (induction xs) auto

lemma length_singles: "length (concat (map (to_le n) xs)) = length xs * n"
  by (induction xs) auto

lemma slice_pair:
  assumes "\<forall>(a, v)\<in>set xs. fits (8 * m) a \<and> fits (8 * n) v" "i < length xs" "b = length pre + i * (m + n)"
    and p: "p = pre @ concat (map (\<lambda>(a, v). to_le m a @ to_le n v) xs) @ post"
  shows "(le_slice b (b + m) p, le_slice (b + m) (b + m + n) p) = xs ! i"
proof -
  let ?f = "\<lambda>(a, v). to_le m a @ to_le n v"
  obtain a v where x: "xs ! i = (a, v)" by force
  have fits: "fits (8 * m) a" "fits (8 * n) v" using assms(1,2) x nth_mem by fastforce+
  have "\<forall>x\<in>set xs. length (?f x) = m + n" by auto
  from slice_concat [OF this assms(2), of pre post] have s: "pyslice b (b + (m + n)) p = to_le m a @ to_le n v"
    by (simp add: p assms(3) x)
  have "pyslice b (b + m) p = take m (pyslice b (b + (m + n)) p)" "pyslice (b + m) (b + m + n) p = drop m (pyslice b (b + (m + n)) p)"
    by (simp_all add: pyslice_def drop_take add.commute)
  then show ?thesis using fits x by (simp add: s le_slice_def fits_def power_mult)
qed

lemma slice_single:
  assumes "\<forall>a\<in>set xs. fits (8 * n) a" "i < length xs" "b = length pre + i * n" "p = pre @ concat (map (to_le n) xs) @ post"
  shows "le_slice b (b + n) p = xs ! i"
proof -
  have "pyslice b (b + n) p = to_le n (xs ! i)" using slice_concat [of xs "to_le n" n i pre post] assms by simp
  moreover have "fits (8 * n) (xs ! i)" using assms by simp
  ultimately show ?thesis by (simp add: le_slice_def fits_def power_mult)
qed


lemma count_byte: "n < 256 \<Longrightarrow> unat (word_of_nat n :: byte) = n"
  by (simp add: unat_of_nat)

lemma le_slice_to_le: "pyslice i j xs = to_le n v \<Longrightarrow> fits (8 * n) v \<Longrightarrow> le_slice i j xs = v"
  by (simp add: le_slice_def fits_def power_mult)

lemma decode_tr_bytes:
  assumes ok: "tr_ok r" and e: "e = None \<or> e = Some (tr_txn_id r)"
  shows "decode_result_payload (tr_bytes r) e = Inr r"
proof -
  let ?p = "tr_bytes r"
  let ?a = "to_le 4 (tr_txn_id r) @ to_le 4 (tr_next_pc r) @ to_le 4 (tr_next_fp r)"
  let ?w = "concat (map (\<lambda>(a, v). to_le 4 a @ to_le 16 v) (tr_writes r))"
  let ?d = "concat (map (\<lambda>(t, l). to_le 4 t @ to_le 4 l) (tr_deferred r))"
  let ?x = "concat (map (to_le 4) (tr_accesses r))"
  define nw where nw: "nw = length (tr_writes r)"
  define nd where nd: "nd = length (tr_deferred r)"
  define na where na: "na = length (tr_accesses r)"
  note n = nw nd na
  let ?b = "\<lambda>n. word_of_int (int n) :: byte"
  have small: "nw < 256" "nd < 256" "na < 256" using ok by (simp_all add: tr_ok_def n)
  have lw: "length ?w = nw * 20" using length_pairs [of 4 16 "tr_writes r"] by (simp add: n)
  have ld: "length ?d = nd * 8" using length_pairs [of 4 4 "tr_deferred r"] by (simp add: n)
  have lx: "length ?x = na * 4" by (simp only: length_singles n)
  have p1: "?p = (?a @ [?b nw]) @ ?w @ ?b nd # ?d @ ?b na # ?x" by (simp add: tr_bytes_def n)
  have p2: "?p = (?a @ [?b nw] @ ?w @ [?b nd]) @ ?d @ ?b na # ?x" by (simp add: tr_bytes_def n)
  have p3: "?p = (?a @ [?b nw] @ ?w @ [?b nd] @ ?d @ [?b na]) @ ?x @ []" by (simp add: tr_bytes_def n)
  have len: "length ?p = 15 + nw * 20 + nd * 8 + na * 4" by (simp add: p1 lw ld lx na)
  have head: "le_slice 0 4 ?p = tr_txn_id r" "le_slice 4 8 ?p = tr_next_pc r" "le_slice 8 12 ?p = tr_next_fp r"
    using ok by (auto intro!: le_slice_to_le [where n = 4] simp: tr_bytes_def pyslice_def tr_ok_def)
  have c1: "nat (uint (?p ! 12)) = nw" using small by (simp add: p1 nth_append count_byte)
  have c2: "nat (uint (?p ! (13 + nw * 20))) = nd" using small by (simp add: p2 nth_append lw count_byte)
  have c3: "nat (uint (?p ! (14 + nw * 20 + nd * 8))) = na"
    using small by (simp add: p3 nth_append lw ld count_byte)
  have i1: "map (\<lambda>i. (le_slice (13 + i * 20) (13 + i * 20 + 4) ?p, le_slice (13 + i * 20 + 4) (13 + i * 20 + 20) ?p)) [0..<nw] = tr_writes r"
    using ok slice_pair [of "tr_writes r" 4 16 _ _ "?a @ [?b nw]" ?p, OF _ _ _ p1]
    by (intro nth_equalityI) (auto simp: n tr_ok_def add.commute)
  have i2: "map (\<lambda>i. (le_slice (14 + nw * 20 + i * 8) (14 + nw * 20 + i * 8 + 4) ?p,
      le_slice (14 + nw * 20 + i * 8 + 4) (14 + nw * 20 + i * 8 + 8) ?p)) [0..<nd] = tr_deferred r"
    using ok slice_pair [of "tr_deferred r" 4 4 _ _ "?a @ [?b nw] @ ?w @ [?b nd]" ?p, OF _ _ _ p2]
    by (intro nth_equalityI) (auto simp: n tr_ok_def add.commute lw)
  have "le_slice (15 + nw * 20 + nd * 8 + i * 4) (15 + nw * 20 + nd * 8 + i * 4 + 4) ?p = tr_accesses r ! i" if "i < na" for i
    by (rule slice_single [OF _ _ _ p3]) (use ok that in \<open>simp_all add: n tr_ok_def lw ld\<close>)
  then have i3: "map (\<lambda>i. le_slice (15 + nw * 20 + nd * 8 + i * 4) (15 + nw * 20 + nd * 8 + i * 4 + 4) ?p) [0..<na] = tr_accesses r"
    by (intro nth_equalityI) (simp_all add: na)
  have r1: "result_items nw 20 (\<lambda>b. (le_slice b (b + 4) ?p, le_slice (b + 4) (b + 20) ?p)) ?p 12 = Inr (tr_writes r, 12 + nw * 20)"
    using i1 by (simp add: result_items_eq len)
  have r2: "result_items nd 8 (\<lambda>b. (le_slice b (b + 4) ?p, le_slice (b + 4) (b + 8) ?p)) ?p (13 + nw * 20) =
      Inr (tr_deferred r, 13 + nw * 20 + nd * 8)"
    using i2 by (simp add: result_items_eq len add.commute add.left_commute)
  have r3: "result_items na 4 (\<lambda>b. le_slice b (b + 4) ?p) ?p (14 + nw * 20 + nd * 8) = Inr (tr_accesses r, 14 + nw * 20 + nd * 8 + na * 4)"
    using i3 by (simp add: result_items_eq len add.commute add.left_commute)
  from e c1 c2 c3 r1 r2 r3 show ?thesis
    unfolding decode_result_payload_def by (elim disjE) (simp_all add: Let_def len head wire_constants add.assoc)
qed

lemma pyslice_join: "i \<le> j \<Longrightarrow> j \<le> k \<Longrightarrow> pyslice i j xs @ pyslice j k xs = pyslice i k xs"
  by (auto simp: le_iff_add pyslice_def take_add add.commute)

lemma concat_slices: "concat (map (\<lambda>i. pyslice (b + i * w) (b + i * w + w) xs) [0..<n]) = pyslice b (b + n * w) xs"
proof (induction n)
  case (Suc n)
  have "pyslice b (b + n * w) xs @ pyslice (b + n * w) (b + n * w + w) xs = pyslice b (b + Suc n * w) xs"
    by (subst pyslice_join) (simp_all add: algebra_simps)
  with Suc show ?case by simp
qed (simp add: pyslice_def)

lemma to_le_slice: "j \<le> length xs \<Longrightarrow> i + n = j \<Longrightarrow> to_le n (le_slice i j xs) = pyslice i j xs"
  by (auto simp: le_slice_def pyslice_def intro!: to_le_le_int_len)

lemma fits_slice: "j \<le> length xs \<Longrightarrow> i + n = j \<Longrightarrow> fits (8 * n) (le_slice i j xs)"
proof -
  assume "j \<le> length xs" "i + n = j"
  then have "length (pyslice i j xs) = n" by (auto simp: pyslice_def)
  then show ?thesis using fits_le_int [of "pyslice i j xs"] by (simp add: le_slice_def)
qed

lemma slice_byte: "i < length xs \<Longrightarrow> word_of_int (int (nat (uint (xs ! i)))) # ys = pyslice i (i + 1) xs @ (ys :: bytes)"
  by (simp add: pyslice_def take_Suc_conv_app_nth Cons_nth_drop_Suc [symmetric])

lemma count_small: "unat (b :: byte) < 256"
proof -
  have "(unat b :: nat) < 2 ^ LENGTH(8)" by (rule unsigned_less)
  then show ?thesis by simp
qed

lemma decode_canonical:
  assumes d: "decode_result_payload p e = Inr r"
  shows "tr_ok r \<and> p = tr_bytes r \<and> (e = None \<or> e = Some (tr_txn_id r))"
proof -
  define nw where nw: "nw = nat (uint (p ! 12))"
  define nd where nd: "nd = nat (uint (p ! (13 + nw * 20)))"
  define na where na: "na = nat (uint (p ! (14 + (nw * 20 + nd * 8))))"
  have l: "12 < length p" using d by (auto simp: decode_result_payload_def Let_def split: if_splits)
  have e: "e = None \<or> e = Some (le_slice 0 4 p)" using d by (auto simp: decode_result_payload_def Let_def split: if_splits)
  have w: "nw = 0 \<or> 13 + nw * 20 \<le> length p"
    using d l e by (auto simp: decode_result_payload_def Let_def bindE_eq_Inr result_items_eq wire_constants nw split: if_splits)
  have len: "length p = 15 + nw * 20 + nd * 8 + na * 4"
    using d l e w
    by (auto simp: decode_result_payload_def Let_def bindE_eq_Inr result_items_eq wire_constants nw nd na add.assoc split: if_splits)
  have r: "r = \<lparr>tr_txn_id = le_slice 0 4 p, tr_next_pc = le_slice 4 8 p, tr_next_fp = le_slice 8 12 p,
      tr_writes = map (\<lambda>i. (le_slice (13 + i * 20) (17 + i * 20) p, le_slice (17 + i * 20) (33 + i * 20) p)) [0..<nw],
      tr_deferred = map (\<lambda>i. (le_slice (14 + nw * 20 + i * 8) (18 + nw * 20 + i * 8) p,
        le_slice (18 + nw * 20 + i * 8) (22 + nw * 20 + i * 8) p)) [0..<nd],
      tr_accesses = map (\<lambda>i. le_slice (15 + nw * 20 + nd * 8 + i * 4) (19 + nw * 20 + nd * 8 + i * 4) p) [0..<na]\<rparr>"
    using d l e w len
    by (auto simp: decode_result_payload_def Let_def bindE_eq_Inr result_items_eq wire_constants nw nd na add.assoc split: if_splits)
  have small: "nw < 256" "nd < 256" "na < 256"
    unfolding nw nd na by (simp_all add: count_small)
  have b: "word_of_nat nw # ys = pyslice 12 13 p @ ys" "word_of_nat nd # ys = pyslice (13 + nw * 20) (14 + nw * 20) p @ ys"
    "word_of_nat na # ys = pyslice (14 + nw * 20 + nd * 8) (15 + nw * 20 + nd * 8) p @ ys" for ys
    unfolding nw nd na using slice_byte [of 12 p ys] slice_byte [of "13 + nw * 20" p ys] slice_byte [of "14 + (nw * 20 + nd * 8)" p ys]
    by (simp_all add: len add.assoc nw nd)
  have cw: "concat (map (\<lambda>i. pyslice (13 + i * 20) (17 + i * 20) p @ pyslice (17 + i * 20) (33 + i * 20) p) [0..<nw])
      = pyslice 13 (13 + nw * 20) p"
    using concat_slices [of 13 20 p nw] by (simp add: pyslice_join add.commute add.left_commute)
  have cd: "concat (map (\<lambda>i. pyslice (14 + nw * 20 + i * 8) (18 + nw * 20 + i * 8) p @ pyslice (18 + nw * 20 + i * 8) (22 + nw * 20 + i * 8) p) [0..<nd])
      = pyslice (14 + nw * 20) (14 + nw * 20 + nd * 8) p"
    using concat_slices [of "14 + nw * 20" 8 p nd] by (simp add: pyslice_join add.commute add.left_commute)
  have ca: "concat (map (\<lambda>i. pyslice (15 + nw * 20 + nd * 8 + i * 4) (19 + nw * 20 + nd * 8 + i * 4) p) [0..<na])
      = pyslice (15 + nw * 20 + nd * 8) (length p) p"
    using concat_slices [of "15 + nw * 20 + nd * 8" 4 p na] by (simp add: len add.commute add.left_commute)
  have mw: "map (\<lambda>(a, v). to_le 4 a @ to_le 16 v) (tr_writes r) =
      map (\<lambda>i. pyslice (13 + i * 20) (17 + i * 20) p @ pyslice (17 + i * 20) (33 + i * 20) p) [0..<nw]"
    using len by (auto simp: r intro!: arg_cong2 [where f = append] to_le_slice)
  have md: "map (\<lambda>(t, l). to_le 4 t @ to_le 4 l) (tr_deferred r) =
      map (\<lambda>i. pyslice (14 + nw * 20 + i * 8) (18 + nw * 20 + i * 8) p @ pyslice (18 + nw * 20 + i * 8) (22 + nw * 20 + i * 8) p) [0..<nd]"
    using len by (auto simp: r intro!: arg_cong2 [where f = append] to_le_slice)
  have ma: "map (to_le 4) (tr_accesses r) = map (\<lambda>i. pyslice (15 + nw * 20 + nd * 8 + i * 4) (19 + nw * 20 + nd * 8 + i * 4) p) [0..<na]"
    using len by (auto simp: r intro!: to_le_slice)
  have h: "to_le 4 (le_slice 0 4 p) = pyslice 0 4 p" "to_le 4 (le_slice 4 8 p) = pyslice 4 8 p" "to_le 4 (le_slice 8 12 p) = pyslice 8 12 p"
    using len by (auto intro!: to_le_slice)
  have n: "length (tr_writes r) = nw" "length (tr_deferred r) = nd" "length (tr_accesses r) = na" by (simp_all add: r)
  have "tr_bytes r = pyslice 0 (length p) p"
    unfolding tr_bytes_def mw md ma cw cd ca n of_int_of_nat_eq b
    using h len by (simp add: r pyslice_join)
  moreover have "tr_ok r"
    unfolding tr_ok_def n using small len by (auto simp: r intro!: fits_slice [where n = 4, simplified] fits_slice [where n = 16, simplified])
  ultimately show ?thesis using e by (simp add: r pyslice_def)

qed


lemma result_payload_tr: "staged_ok s \<Longrightarrow> result_payload s = Inr (tr_bytes (transition_of s)) \<and> tr_ok (transition_of s)"
  by (auto simp: result_payload_ok result_bytes_def tr_bytes_def transition_of_def comp_def staged_ok_def tr_ok_def
      write_bytes_def [abs_def] deferred_bytes_def [abs_def])

text \<open>
  C33. The decoder of results accepts exactly the encodings of well-formed transitions: what it
  returns is determined by the payload, every byte of the payload is accounted for, and a
  transaction id the host expects is the one in the payload; every refusal is the same error.
\<close>

theorem decode_result_exact:
  "case decode_result_payload p e of
     Inr r \<Rightarrow> tr_ok r \<and> p = tr_bytes r \<and> e \<in> {None, Some (tr_txn_id r)}
   | Inl x \<Rightarrow> x = ProtocolViolation \<and> (\<nexists>r. tr_ok r \<and> p = tr_bytes r \<and> e \<in> {None, Some (tr_txn_id r)})"
proof (cases "decode_result_payload p e")
  case (Inl x)
  have "x = ProtocolViolation"
    using Inl by (auto simp: decode_result_payload_def Let_def bindE_eq_Inl result_items_eq wire_constants split: if_splits)
  with Inl show ?thesis using decode_tr_bytes [of _ e] by (cases e) (auto split: sum.splits)
next
  case (Inr r)
  then show ?thesis using decode_canonical [OF Inr] by auto
qed

text \<open>
  The host reads what the endpoint staged: the payload the endpoint builds for a decided
  transition decodes at the host to that transition, and no other payload does.
\<close>

theorem host_reads_staged:
  assumes "staged_ok s"
  shows "\<exists>p. result_payload s = Inr p
      \<and> (\<forall>q. decode_result_payload q (Some (st_txn_id s)) = Inr (transition_of s) \<longleftrightarrow> q = p)"
proof -
  have "decode_result_payload q (Some (st_txn_id s)) = Inr (transition_of s) \<longleftrightarrow> q = tr_bytes (transition_of s)" for q
    using decode_canonical [of q _ "transition_of s"] decode_tr_bytes [of "transition_of s" "Some (st_txn_id s)"]
      result_payload_tr [OF assms] by (auto simp: transition_of_def)
  then show ?thesis using result_payload_tr [OF assms] by blast
qed

section \<open>The memory under a transition\<close>

text \<open>Resolving looks at the cells only, and only ever adds cells.\<close>

lemma resolve_pass_cells:
  "hm_cells n = hm_cells m \<Longrightarrow>
     \<exists>r c. resolve_pass pending m = (r, m\<lparr>hm_cells := c\<rparr>) \<and> resolve_pass pending n = (r, n\<lparr>hm_cells := c\<rparr>) \<and> hm_cells m \<subseteq>\<^sub>m c"
proof (induction pending arbitrary: m n)
  case Nil
  show ?case by (rule exI, rule exI [of _ "hm_cells m"]) (auto simp: resolve_pass.simps simp flip: Nil)
next
  case (Cons p rest)
  obtain t l where p: "p = (t, l)" by force
  have put: "\<exists>r c. thenM (resolve_pass rest (m\<lparr>hm_cells := (hm_cells m)(a \<mapsto> v)\<rparr>)) f = (r, m\<lparr>hm_cells := c\<rparr>)
      \<and> thenM (resolve_pass rest (n\<lparr>hm_cells := (hm_cells m)(a \<mapsto> v)\<rparr>)) f = (r, n\<lparr>hm_cells := c\<rparr>) \<and> hm_cells m \<subseteq>\<^sub>m c"
    if "hm_cells m a = None" "f = (\<lambda>(s, k) m. (Inr (s, k + 1), m))" for a v f
  proof -
    obtain r c where "resolve_pass rest (m\<lparr>hm_cells := (hm_cells m)(a \<mapsto> v)\<rparr>) = (r, m\<lparr>hm_cells := c\<rparr>)"
      "resolve_pass rest (n\<lparr>hm_cells := (hm_cells m)(a \<mapsto> v)\<rparr>) = (r, n\<lparr>hm_cells := c\<rparr>)" "(hm_cells m)(a \<mapsto> v) \<subseteq>\<^sub>m c"
      using Cons.IH [of "n\<lparr>hm_cells := (hm_cells m)(a \<mapsto> v)\<rparr>" "m\<lparr>hm_cells := (hm_cells m)(a \<mapsto> v)\<rparr>"]
      by (simp del: fun_upd_apply) blast
    moreover have "hm_cells m \<subseteq>\<^sub>m (hm_cells m)(a \<mapsto> v)" using that by (auto simp: map_le_def)
    ultimately show ?thesis using that by (cases r) (auto intro!: exI [of _ c] intro: map_le_trans simp del: fun_upd_apply)
  qed
  have same: "\<exists>c. m = m\<lparr>hm_cells := c\<rparr> \<and> n = n\<lparr>hm_cells := c\<rparr> \<and> hm_cells m \<subseteq>\<^sub>m c"
    by (rule exI [of _ "hm_cells m"]) (auto simp flip: Cons.prems)
  from Cons.IH [OF Cons.prems] obtain r c where "resolve_pass rest m = (r, m\<lparr>hm_cells := c\<rparr>)"
      "resolve_pass rest n = (r, n\<lparr>hm_cells := c\<rparr>)" "hm_cells m \<subseteq>\<^sub>m c" by blast
  with same Cons.prems show ?case unfolding p
    by (cases r; cases "hm_cells m t"; cases "hm_cells m l") (auto simp: resolve_pass.simps apply_write_def put)
qed

lemma map_le_Some: "m \<subseteq>\<^sub>m m' \<Longrightarrow> m a = Some v \<Longrightarrow> m' a = Some v"
  by (metis domI map_le_def)

lemma resolve_loop_cells:
  "hm_cells n = hm_cells m \<Longrightarrow>
     \<exists>r c d d'. resolve_loop pending m = (r, m\<lparr>hm_cells := c, hm_deferred := d\<rparr>)
       \<and> resolve_loop pending n = (r, n\<lparr>hm_cells := c, hm_deferred := d'\<rparr>) \<and> hm_cells m \<subseteq>\<^sub>m c"
proof (induction "length pending" arbitrary: pending m n rule: less_induct)
  case less
  obtain r c where p: "resolve_pass pending m = (r, m\<lparr>hm_cells := c\<rparr>)" "resolve_pass pending n = (r, n\<lparr>hm_cells := c\<rparr>)"
    "hm_cells m \<subseteq>\<^sub>m c" using resolve_pass_cells [OF less.prems, of pending] by blast
  show ?case
  proof (cases r)
    case (Inl e)
    have "resolve_loop pending m = (Inl e, m\<lparr>hm_cells := c, hm_deferred := hm_deferred m\<rparr>)"
      "resolve_loop pending n = (Inl e, n\<lparr>hm_cells := c, hm_deferred := hm_deferred n\<rparr>)"
      by (simp_all add: resolve_loop.simps p Inl)
    with p(3) show ?thesis by blast
  next
    case (Inr x)
    obtain s k where x: "x = (s, k)" by force
    show ?thesis
    proof (cases "k = 0")
      case True
      have "resolve_loop pending m = (Inr s, m\<lparr>hm_cells := c, hm_deferred := s\<rparr>)"
        "resolve_loop pending n = (Inr s, n\<lparr>hm_cells := c, hm_deferred := s\<rparr>)"
        by (simp_all add: resolve_loop.simps p Inr x True)
      with p(3) show ?thesis by blast
    next
      case False
      then have l: "length s < length pending" using resolve_pass_shorter [of pending m s k] p(1) Inr x by simp
      obtain r' c' d d' where "resolve_loop s (m\<lparr>hm_cells := c\<rparr>) = (r', m\<lparr>hm_cells := c', hm_deferred := d\<rparr>)"
        "resolve_loop s (n\<lparr>hm_cells := c\<rparr>) = (r', n\<lparr>hm_cells := c', hm_deferred := d'\<rparr>)" "c \<subseteq>\<^sub>m c'"
        using less.hyps [OF l, of "n\<lparr>hm_cells := c\<rparr>" "m\<lparr>hm_cells := c\<rparr>"] by auto
      moreover from this have "resolve_loop pending m = (r', m\<lparr>hm_cells := c', hm_deferred := d\<rparr>)"
        "resolve_loop pending n = (r', n\<lparr>hm_cells := c', hm_deferred := d'\<rparr>)"
        using False by (simp_all add: resolve_loop.simps [of pending] p Inr x)
      ultimately show ?thesis using p(3) map_le_trans by blast
    qed
  qed
qed

lemma apply_writes_cells:
  "hm_cells n = hm_cells m \<Longrightarrow>
     \<exists>r c. apply_writes ws m = (r, m\<lparr>hm_cells := c\<rparr>) \<and> apply_writes ws n = (r, n\<lparr>hm_cells := c\<rparr>)"
proof (induction ws arbitrary: m n)
  case Nil
  show ?case by (rule exI, rule exI [of _ "hm_cells m"]) (auto simp flip: Nil)
next
  case (Cons w ws)
  obtain a v where w: "w = (a, v)" by force
  have same: "\<exists>c. m = m\<lparr>hm_cells := c\<rparr> \<and> n = n\<lparr>hm_cells := c\<rparr>"
    by (rule exI [of _ "hm_cells m"]) (auto simp flip: Cons.prems)
  let ?c = "(hm_cells m)(a \<mapsto> v AND MASK)"
  obtain r c where "apply_writes ws (m\<lparr>hm_cells := ?c\<rparr>) = (r, m\<lparr>hm_cells := c\<rparr>)" "apply_writes ws (n\<lparr>hm_cells := ?c\<rparr>) = (r, n\<lparr>hm_cells := c\<rparr>)"
    using Cons.IH [of "n\<lparr>hm_cells := ?c\<rparr>" "m\<lparr>hm_cells := ?c\<rparr>"] by (simp del: fun_upd_apply) blast
  with same show ?case unfolding w using Cons.prems by (auto simp: apply_write_def split: option.splits)
qed

text \<open>Writes that pass the check extend the memory by exactly themselves.\<close>

lemma checked_writes:
  "check_writes ws proposed m = Inr () \<Longrightarrow> \<forall>(a, v)\<in>set ws. fits 128 v \<Longrightarrow> hm_cells m' = hm_cells m ++ proposed \<Longrightarrow>
     \<exists>c. apply_writes ws m' = (Inr (), m'\<lparr>hm_cells := c\<rparr>) \<and> hm_cells m' \<subseteq>\<^sub>m c \<and> (\<forall>(a, v)\<in>set ws. c a = Some v)"
proof (induction ws arbitrary: proposed m')
  case Nil
  show ?case by (rule exI [of _ "hm_cells m'"]) simp
next
  case (Cons w ws)
  obtain a v where w: "w = (a, v)" by force
  let ?c = "(hm_cells m')(a \<mapsto> v)"
  have a: "hm_cells m' a = None \<or> hm_cells m' a = Some v" "check_writes ws (proposed(a \<mapsto> v)) m = Inr ()" "fits 128 v"
    using Cons.prems by (auto simp: w bindE_eq_Inr prevalidate_write_iff map_add_def split: option.splits if_splits)
  have "hm_cells (m'\<lparr>hm_cells := ?c\<rparr>) = hm_cells m ++ proposed(a \<mapsto> v)" using Cons.prems by (simp del: fun_upd_apply)
  from Cons.IH [OF a(2) _ this] Cons.prems obtain c where
    c: "apply_writes ws (m'\<lparr>hm_cells := ?c\<rparr>) = (Inr (), m'\<lparr>hm_cells := c\<rparr>)" "?c \<subseteq>\<^sub>m c" "\<forall>(a, v)\<in>set ws. c a = Some v"
    by (simp del: fun_upd_apply) blast
  have "hm_cells m' \<subseteq>\<^sub>m ?c" using a(1) by (auto simp: map_le_def)
  with c(2) have "hm_cells m' \<subseteq>\<^sub>m c" by (rule map_le_trans [rotated])
  moreover have "c a = Some v" using c(2) by (auto simp: map_le_def)
  ultimately show ?case using a c by (auto simp: w apply_write_iff simp del: fun_upd_apply)
qed

lemma record_all_fields:
  "record_all items m = m\<lparr>hm_deferred := hm_deferred m @ items\<rparr>"
  by (induction items arbitrary: m) (auto simp: record_all_def record_deferred_def)

lemma count_all_fields: "\<exists>k. fold count_access items m = m\<lparr>hm_access_counts := k\<rparr>"
proof (induction items arbitrary: m)
  case Nil
  show ?case by (rule exI [of _ "hm_access_counts m"]) simp
next
  case (Cons a items)
  obtain k where "count_access a m = m\<lparr>hm_access_counts := k\<rparr>" by (auto simp: count_access_def)
  with Cons [of "m\<lparr>hm_access_counts := k\<rparr>"] show ?case by auto
qed

text \<open>A prevalidated transition commits.\<close>

definition commits :: "transition_result \<Rightarrow> host_memory \<Rightarrow> host_memory \<Rightarrow> bool" where
  "commits result m m' \<longleftrightarrow> apply_transition result m = (Inr (), m') \<and> hm_cells m \<subseteq>\<^sub>m hm_cells m'
     \<and> (\<forall>(a, v)\<in>set (tr_writes result). hm_cells m' a = Some v) \<and> hm_pointers m' = hm_pointers m"

lemma prevalidated:
  assumes v: "decode_and_prevalidate payload addresses rt = Inr result"
  shows "\<exists>m'. commits result (rt_memory rt) m'" "decode_result_payload payload (Some (rt_txn_id rt)) = Inr result"
    "fst ` set (tr_writes result) \<subseteq> set addresses"
proof -
  let ?m = "rt_memory rt"
  let ?n = "HostMemory (hm_cells ?m) (hm_deferred ?m)"
  obtain y n' where y: "apply_writes (tr_writes result) ?n = (y, n')" by force
  have d: "decode_result_payload payload (Some (rt_txn_id rt)) = Inr result"
    using v by (auto simp: decode_and_prevalidate_def bindE_eq_Inr Let_def split_beta split: if_splits)
  have w: "check_writes (tr_writes result) Map.empty ?m = Inr ()"
    and r: "bindE y (\<lambda>_. fst (resolve_deferred (record_all (tr_deferred result) n'))) \<noteq> Inl e"
    and f: "fst ` set (tr_writes result) \<subseteq> set addresses" for e
    using v by (auto simp: decode_and_prevalidate_def d y bindE_eq_Inr Let_def split: if_splits)
  show "decode_result_payload payload (Some (rt_txn_id rt)) = Inr result" by (rule d)
  show "fst ` set (tr_writes result) \<subseteq> set addresses" by (rule f)
  have "\<forall>(a, v)\<in>set (tr_writes result). fits 128 v" using decode_canonical [OF d] by (auto simp: tr_ok_def)
  from checked_writes [OF w this, of ?m] obtain c where
    c: "apply_writes (tr_writes result) ?m = (Inr (), ?m\<lparr>hm_cells := c\<rparr>)" "hm_cells ?m \<subseteq>\<^sub>m c" "\<forall>(a, v)\<in>set (tr_writes result). c a = Some v"
    by auto
  have "hm_cells ?n = hm_cells ?m" by (simp add: HostMemory_def)
  from apply_writes_cells [OF this, of "tr_writes result"] c(1)
  obtain c' where "?m\<lparr>hm_cells := c\<rparr> = ?m\<lparr>hm_cells := c'\<rparr>" "apply_writes (tr_writes result) ?n = (Inr (), ?n\<lparr>hm_cells := c'\<rparr>)"
    by auto
  moreover from this(1) have "c' = c" by (auto dest: arg_cong [of _ _ hm_cells])
  ultimately have n: "apply_writes (tr_writes result) ?n = (Inr (), ?n\<lparr>hm_cells := c\<rparr>)" by simp
  obtain k where k: "fold count_access (tr_accesses result) (?m\<lparr>hm_cells := c\<rparr>) = ?m\<lparr>hm_cells := c, hm_access_counts := k\<rparr>"
    using count_all_fields [of "tr_accesses result" "?m\<lparr>hm_cells := c\<rparr>"] by auto
  let ?p = "hm_deferred ?m @ tr_deferred result"
  let ?m1 = "?m\<lparr>hm_cells := c, hm_access_counts := k, hm_deferred := ?p\<rparr>"
  let ?n1 = "?n\<lparr>hm_cells := c, hm_deferred := ?p\<rparr>"
  obtain x c1 d1 d2 where l: "resolve_loop ?p ?m1 = (x, ?m1\<lparr>hm_cells := c1, hm_deferred := d1\<rparr>)"
    "resolve_loop ?p ?n1 = (x, ?n1\<lparr>hm_cells := c1, hm_deferred := d2\<rparr>)" "c \<subseteq>\<^sub>m c1"
    using resolve_loop_cells [of ?n1 ?m1 ?p] by auto
  have "y = Inr ()" "n' = ?n\<lparr>hm_cells := c\<rparr>" using y n by simp_all
  then have x: "\<exists>y. x = Inr y" using r l(2) by (cases x) (auto simp: record_all_fields resolve_deferred_def HostMemory_def)
  have "apply_transition result ?m = (Inr (), ?m1\<lparr>hm_cells := c1, hm_deferred := d1\<rparr>)"
    using x l(1) by (auto simp: apply_transition_def c(1) Let_def k record_all_fields resolve_deferred_def)
  moreover have "hm_cells ?m \<subseteq>\<^sub>m c1" using c(2) l(3) by (rule map_le_trans)
  moreover have "\<forall>(a, v)\<in>set (tr_writes result). c1 a = Some v" using c(3) map_le_Some [OF l(3)] by auto
  ultimately show "\<exists>m'. commits result ?m m'" by (auto simp: commits_def)
qed

section \<open>A step commits or leaves the state alone\<close>

text \<open>What the exchanges and the service touch, and what preparing a request touches.\<close>

definition talked :: "'w host_runtime \<Rightarrow> 'w host_runtime \<Rightarrow> bool" where
  "talked rt rt' \<longleftrightarrow> (\<exists>e c a w f. rt' = rt\<lparr>rt_endpoint := e, rt_lane_cycles := c,
     rt_service_adapter := a, rt_service_state := w, rt_faulted := f\<rparr>)"

definition prepared_only :: "'w host_runtime \<Rightarrow> 'w host_runtime \<Rightarrow> bool" where
  "prepared_only rt rt' \<longleftrightarrow> (\<exists>t pm. rt' = rt\<lparr>rt_txn_id := t, rt_memory := (rt_memory rt)\<lparr>hm_pointers := pm\<rparr>\<rparr>)"

lemma talked_fields:
  "talked rt rt' \<Longrightarrow> rt_memory rt' = rt_memory rt \<and> rt_pc rt' = rt_pc rt \<and> rt_fp rt' = rt_fp rt
     \<and> rt_txn_id rt' = rt_txn_id rt \<and> rt_program rt' = rt_program rt \<and> rt_step_index rt' = rt_step_index rt"
  by (auto simp: talked_def)

lemma talked_same [simp, intro]:
  "talked rt rt" "talked rt (rt\<lparr>rt_endpoint := e\<rparr>)" "talked rt (rt\<lparr>rt_lane_cycles := c\<rparr>)"
  "talked rt (rt\<lparr>rt_service_adapter := a\<rparr>)" "talked rt (rt\<lparr>rt_service_state := w\<rparr>)" "talked rt (rt\<lparr>rt_faulted := b\<rparr>)"
  by (cases rt; simp add: talked_def)+

lemma talked_trans [trans]: "talked rt rt1 \<Longrightarrow> talked rt1 rt2 \<Longrightarrow> talked rt rt2"
  by (auto simp: talked_def; blast)

lemma talked_thenM:
  "talked rt (snd r) \<Longrightarrow> (\<And>x s. r = (Inr x, s) \<Longrightarrow> talked s (snd (f x s))) \<Longrightarrow> talked rt (snd (thenM r f))"
  by (cases r; cases "fst r") (auto intro: talked_trans)

lemma talked_exchange: "talked rt (snd (rt_exchange frame rt))"
  unfolding rt_exchange_def by (auto intro!: talked_thenM split: prod.split)

lemma talked_exchange': "rt_exchange frame rt = (r, rt') \<Longrightarrow> talked rt rt'"
  using talked_exchange [of rt frame] by simp

lemma talked_abort: "talked rt (service_abort rt)" "talked rt (drop_service rt)"
  by (auto simp: service_abort_def drop_service_def intro: talked_trans)

lemma talked_aborting: "talked rt (snd r) \<Longrightarrow> talked rt (snd (aborting b r))"
  by (auto simp: aborting_def intro: talked_trans talked_abort split: prod.split sum.split)

lemma talked_service: "talked rt (snd (run_service sha256 service frame payload rt))"
  unfolding run_service_def
  by (auto intro!: talked_thenM talked_exchange split: prod.split simp: Let_def)

lemma talked_faulted: "talked rt (snd (faulted record st before bb rt))"
  by (simp add: faulted_def)

text \<open>The key the service step returns is the one outstanding.\<close>

lemma exchange_adapter: "rt_service_adapter (snd (rt_exchange frame rt)) = rt_service_adapter rt"
  by (auto simp: rt_exchange_def thenM_eq split: prod.split sum.split)

lemma exchange_adapter': "rt_exchange frame rt = (r, rt') \<Longrightarrow> rt_service_adapter rt' = rt_service_adapter rt"
  using exchange_adapter [of frame rt] by simp

lemma accept_outstanding: "accept_required payload a = (Inr required, a') \<Longrightarrow> ad_outstanding a' = Some (sq_key required)"
  by (auto simp: accept_required_def thenM_eq split: prod.splits sum.splits option.splits if_splits)

lemma accept_outstanding': "fst (accept_required payload a) = Inr required \<Longrightarrow>
    ad_outstanding (snd (accept_required payload a)) = Some (sq_key required)"
  by (metis accept_outstanding prod.collapse)

lemma service_outstanding:
  "run_service sha256 service frame payload rt = (Inr (report, key, reply), rt') \<Longrightarrow>
     ad_outstanding (rt_service_adapter rt') = Some key"
  unfolding run_service_def
  by (auto simp: thenM_Inr_iff Let_def split_beta split: if_splits dest!: accept_outstanding' exchange_adapter')

lemma prepared_refl [simp]: "prepared_only rt rt"
  unfolding prepared_only_def by (rule exI [of _ "rt_txn_id rt"], rule exI [of _ "hm_pointers (rt_memory rt)"]) simp

lemma prepared_index: "prepared_only rt (snd (rt_index_of p rt))"
  by (cases rt) (auto simp: prepared_only_def rt_index_of_def Let_def split: prod.split sum.split)

lemma prepared_trans [trans]: "prepared_only rt rt1 \<Longrightarrow> prepared_only rt1 rt2 \<Longrightarrow> prepared_only rt rt2"
  by (auto simp: prepared_only_def; blast)

lemma prepared_thenM:
  "prepared_only rt (snd r) \<Longrightarrow> (\<And>x s. r = (Inr x, s) \<Longrightarrow> prepared_only s (snd (f x s))) \<Longrightarrow> prepared_only rt (snd (thenM r f))"
  by (cases r; cases "fst r") (auto intro: prepared_trans)

lemma prepared_prepare: "prepared_only rt (snd (prepare op rt))"
proof -
  have "prepared_only rt (rt\<lparr>rt_txn_id := t\<rparr>)" for t
    unfolding prepared_only_def by (rule exI [of _ t], rule exI [of _ "hm_pointers (rt_memory rt)"]) simp
  moreover have "prepared_only s (snd (prepare_deref op s))" "prepared_only s (snd (prepare_jump op s))" for s
    unfolding prepare_deref_def prepare_jump_def
    by (auto intro!: prepared_thenM prepared_index split: prod.split simp: Let_def)
  ultimately show ?thesis by (auto simp: prepare_def Let_def intro: prepared_trans)
qed


lemma thenM_cases:
  "thenM r f = (y, t) \<Longrightarrow> (\<And>e. r = (Inl e, t) \<Longrightarrow> y = Inl e \<Longrightarrow> P) \<Longrightarrow> (\<And>x s. r = (Inr x, s) \<Longrightarrow> f x s = (y, t) \<Longrightarrow> P) \<Longrightarrow> P"
  by (cases r; cases "fst r") auto

text \<open>The outcome of a step: it raised or the record carries a fault, or it retired a transition.\<close>

definition retired :: "exn + step_record \<Rightarrow> bool" where
  "retired r \<longleftrightarrow> (\<exists>rec. r = Inr rec \<and> sp_fault rec = None)"

definition carried_out :: "'w host_runtime \<Rightarrow> int list \<Rightarrow> 'w host_runtime \<Rightarrow> bool" where
  "carried_out rt addresses rt' \<longleftrightarrow> (\<exists>payload result.
     decode_result_payload payload (Some (rt_txn_id rt)) = Inr result \<and> fst ` set (tr_writes result) \<subseteq> set addresses
     \<and> commits result (rt_memory rt) (rt_memory rt') \<and> rt_pc rt' = tr_next_pc result \<and> rt_fp rt' = tr_next_fp result)"

definition outcome :: "'w host_runtime \<Rightarrow> int list \<Rightarrow> (exn + step_record) \<times> 'w host_runtime \<Rightarrow> bool" where
  "outcome rt addresses r \<longleftrightarrow>
     (if retired (fst r)
      then carried_out rt addresses (snd r) \<and> (\<exists>rec. fst r = Inr rec \<and> sp_addresses rec = addresses)
      else rt_memory (snd r) = rt_memory rt \<and> rt_pc (snd r) = rt_pc rt \<and> rt_fp (snd r) = rt_fp rt)"

lemma outcome_talked: "talked rt rt1 \<Longrightarrow> outcome rt1 addresses r \<Longrightarrow> outcome rt addresses r"
proof -
  assume t: "talked rt rt1" and o: "outcome rt1 addresses r"
  then have "carried_out rt1 addresses s = carried_out rt addresses s" for s by (simp add: carried_out_def talked_fields)
  with o talked_fields [OF t] show ?thesis by (auto simp: outcome_def split: if_splits)
qed

lemma outcome_raise: "talked rt rt1 \<Longrightarrow> outcome rt addresses (Inl e, rt1)"
  by (auto simp: outcome_def retired_def dest: talked_fields)

lemma outcome_faulted: "outcome rt addresses (faulted record st before bb rt)"
  by (simp add: outcome_def faulted_def retired_def)

lemma outcome_thenM:
  assumes "talked rt (snd r)" "\<And>x s. r = (Inr x, s) \<Longrightarrow> outcome s addresses (f x s)"
  shows "outcome rt addresses (thenM r f)"
proof (cases r)
  case (Pair y s)
  with assms show ?thesis by (cases y) (auto intro: outcome_raise outcome_talked)
qed

lemma outcome_commit:
  assumes "decode_result_payload payload (Some (rt_txn_id rt)) = Inr result" "fst ` set (tr_writes result) \<subseteq> set addresses"
    and "commits result (rt_memory rt) m'" "sp_fault record = None" "sp_addresses record = addresses"
    and "key = None \<or> ad_outstanding (rt_service_adapter rt) = key"
  shows "outcome rt addresses (commit_step record result reply key before bb rt)"
proof -
  have "apply_transition result (rt_memory rt) = (Inr (), m')" using assms(3) by (simp add: commits_def)
  with assms show ?thesis
    by (auto simp: commit_step_def Let_def outcome_def retired_def carried_out_def ad_complete_def split: option.splits)
qed


lemma aborting_Inr: "aborting b r = (Inr x, s) \<longleftrightarrow> r = (Inr x, s)"
  by (auto simp: aborting_def split: prod.splits sum.splits)

lemma outcome_retire:
  assumes rec: "sp_fault record = None" "sp_addresses record = addresses"
    and key: "key = None \<or> ad_outstanding (rt_service_adapter rt) = key"
  shows "outcome rt addresses (retire_step record addresses reply key before bb rt)"
  unfolding retire_step_def
proof (rule outcome_thenM, goal_cases)
  case 1
  show ?case by (rule talked_aborting) simp
next
  case (2 result s)
  then have v: "decode_and_prevalidate (rs_payload reply) addresses rt = Inr result" and s: "s = rt" by (auto simp: aborting_Inr)
  from prevalidated [OF v] obtain m' where m: "commits result (rt_memory rt) m'"
    "decode_result_payload (rs_payload reply) (Some (rt_txn_id rt)) = Inr result" "fst ` set (tr_writes result) \<subseteq> set addresses" by blast
  show ?case unfolding s
  proof (rule outcome_thenM, goal_cases)
    case 1
    show ?case by (intro talked_aborting talked_thenM) (auto intro: talked_exchange)
  next
    case (2 retire t)
    then have e: "thenM (build_retire (tr_txn_id result) (crc32 (rs_payload reply)), rt) rt_exchange = (Inr retire, t)"
      by (simp add: aborting_Inr)
    then have t: "talked rt t" "rt_service_adapter t = rt_service_adapter rt"
      by (auto simp: thenM_Inr_iff dest: exchange_adapter' talked_exchange')
    note f = talked_fields [OF t(1)]
    show ?case
    proof (cases "rs_status retire = RETIRED")
      case True
      with m rec key t f show ?thesis by (auto intro!: outcome_thenM outcome_commit [where m' = m'])
    next
      case False
      then show ?thesis by (auto intro!: outcome_thenM outcome_faulted outcome_talked [OF talked_abort(2) outcome_faulted])
    qed
  qed
qed

text \<open>The part of \<open>step\<close> from the reply on, with the service exchange done.\<close>

lemma outcome_reply:
  assumes "sp_fault record = None" "sp_addresses record = addresses" "key = None \<or> ad_outstanding (rt_service_adapter rt) = key"
  shows "outcome rt addresses
    (if rs_status reply \<noteq> OK then
       let rt = (if key = None then rt else if rs_status reply \<noteq> WRITE_CONFLICT then service_abort rt else drop_service rt) in
       thenM (check_fault_response reply (rt_txn_id rt) False, rt) (\<lambda>_ rt. faulted record (rs_status reply) before bb rt)
     else retire_step record addresses reply key before bb rt)"
proof (cases "rs_status reply = OK")
  case True
  then show ?thesis using outcome_retire [OF assms] by simp
next
  case False
  have "outcome s addresses (thenM (check_fault_response reply (rt_txn_id s) False, s)
      (\<lambda>_ rt. faulted record (rs_status reply) before bb rt))" for s :: "'a host_runtime"
    by (intro outcome_thenM) (auto intro: outcome_faulted)
  with False show ?thesis by (auto simp: Let_def intro: outcome_talked [OF talked_abort(1)] outcome_talked [OF talked_abort(2)])
qed

lemma outcome_step:
  assumes "program_at (rt_program rt) (rt_pc rt) = Inr operation" "prepare operation rt = (Inr (frame, addresses, br), rt1)"
  shows "outcome rt1 addresses (rt_step sha256 service rt)"
proof -
  let ?rt = "rt1\<lparr>rt_step_index := rt_step_index rt1 + 1\<rparr>"
  have "carried_out ?rt addresses s = carried_out rt1 addresses s" for s by (simp add: carried_out_def)
  then have o: "outcome ?rt addresses r \<Longrightarrow> outcome rt1 addresses r" for r by (auto simp: outcome_def split: if_splits)
  have s: "(\<forall>rec key reply. r = Inr (rec, key, reply) \<longrightarrow>
      sp_fault rec = None \<and> sp_addresses rec = addresses \<and> (key = None \<or> ad_outstanding (rt_service_adapter s') = key))"
    if "(if b \<and> rs_status reply = SERVICE_REQUIRED then
          thenM (aborting True (run_service sha256 service frame (rs_payload reply) s)) (\<lambda>(report, key, reply) rt.
            (Inr (rec0\<lparr>sp_service := Some report\<rparr>, Some key, reply), rt))
        else if b \<and> status_code (rs_status reply) < 0x80 then (Inl ProtocolViolation, service_abort s)
        else (Inr (rec0, None, reply), s)) = (r, s')" "sp_fault rec0 = None" "sp_addresses rec0 = addresses"
    for b rec0 reply r s s'
    using that by (auto split: if_splits elim!: thenM_cases simp: aborting_Inr dest!: service_outstanding)
  show ?thesis
    unfolding rt_step_def assms thenM_simps prod.case Let_def
  proof (intro o, rule outcome_thenM, goal_cases)
    case 1
    show ?case by (rule talked_aborting) (simp add: talked_exchange)
  next
    case (2 reply t)
    show ?case
    proof (rule outcome_thenM, goal_cases)
      case 1
      show ?case by (auto intro!: talked_thenM talked_aborting talked_service simp: talked_abort)
    next
      case (2 x s')
      obtain rec0 key reply' where x: "x = (rec0, key, reply')" by (cases x)
      have "sp_fault rec0 = None \<and> sp_addresses rec0 = addresses \<and> (key = None \<or> ad_outstanding (rt_service_adapter s') = key)"
        using s [OF 2] x by (simp add: StepRecord_def)
      then show ?case unfolding x prod.case by (intro outcome_reply [unfolded Let_def]) auto
    qed
  qed
qed

text \<open>What a step may leave behind.\<close>

definition same_store :: "host_memory \<Rightarrow> host_memory \<Rightarrow> bool" where
  "same_store m m' \<longleftrightarrow> hm_cells m' = hm_cells m \<and> hm_deferred m' = hm_deferred m \<and> hm_access_counts m' = hm_access_counts m"

definition step_outcome :: "'w host_runtime \<Rightarrow> (exn + step_record) \<times> 'w host_runtime \<Rightarrow> bool" where
  "step_outcome rt r \<longleftrightarrow>
     (if retired (fst r)
      then \<exists>rec m payload result. fst r = Inr rec \<and> same_store (rt_memory rt) m
        \<and> decode_result_payload payload None = Inr result \<and> fst ` set (tr_writes result) \<subseteq> set (sp_addresses rec)
        \<and> commits result m (rt_memory (snd r))
        \<and> rt_pc (snd r) = tr_next_pc result \<and> rt_fp (snd r) = tr_next_fp result
      else same_store (rt_memory rt) (rt_memory (snd r)) \<and> rt_pc (snd r) = rt_pc rt \<and> rt_fp (snd r) = rt_fp rt)"

lemma prepared_fields:
  "prepared_only rt rt1 \<Longrightarrow> same_store (rt_memory rt) (rt_memory rt1) \<and> rt_pc rt1 = rt_pc rt \<and> rt_fp rt1 = rt_fp rt"
  by (auto simp: prepared_only_def same_store_def)

lemma decode_unchecked: "decode_result_payload p e = Inr r \<Longrightarrow> decode_result_payload p None = Inr r"
  using decode_canonical decode_tr_bytes by blast

lemma step_outcomeI:
  assumes "prepared_only rt rt1" "outcome rt1 addresses r"
  shows "step_outcome rt r"
proof (cases "retired (fst r)")
  case True
  with assms obtain rec payload result where "fst r = Inr rec" "sp_addresses rec = addresses"
    "decode_result_payload payload (Some (rt_txn_id rt1)) = Inr result" "fst ` set (tr_writes result) \<subseteq> set addresses"
    "commits result (rt_memory rt1) (rt_memory (snd r))" "rt_pc (snd r) = tr_next_pc result" "rt_fp (snd r) = tr_next_fp result"
    by (auto simp: outcome_def carried_out_def)
  with True prepared_fields [OF assms(1)] show ?thesis
    unfolding step_outcome_def by (auto intro: decode_unchecked)
next
  case False
  with assms(2) prepared_fields [OF assms(1)] show ?thesis by (simp add: outcome_def step_outcome_def)
qed

lemma step_outcome_ok: "step_outcome rt (rt_step sha256 service rt)"
proof (cases "program_at (rt_program rt) (rt_pc rt)")
  case (Inl e)
  then show ?thesis by (simp add: rt_step_def outcome_raise step_outcomeI [OF prepared_refl])
next
  case (Inr operation)
  note at = Inr
  obtain r rt1 where p: "prepare operation rt = (r, rt1)" by force
  then have prep: "prepared_only rt rt1" using prepared_prepare [of rt operation] by simp
  show ?thesis
  proof (cases r)
    case (Inl e)
    with at p show ?thesis by (simp add: rt_step_def outcome_raise step_outcomeI [OF prep])
  next
    case (Inr x)
    obtain frame addresses br where "x = (frame, addresses, br)" by (cases x)
    with Inr p at show ?thesis by (intro step_outcomeI [OF prep] outcome_step) auto
  qed
qed

text \<open>
  C19. A step of the host commits or leaves the state alone, whatever the endpoint and the service
  answer: when it returns a record without a fault, the memory has become what one decoded
  transition makes of it, whose writes are inside the addresses of the request and whose program
  counter and frame pointer the runtime has taken over, and no written cell has changed; when it
  raises or the record carries a fault, no cell, no access count and no deferred equality has
  changed, nor have the program counter and the frame pointer.
\<close>

theorem step_commits_or_keeps: "step_outcome rt (rt_step sha256 service rt)"
  by (rule step_outcome_ok)

lemma step_grows: "hm_cells (rt_memory rt) \<subseteq>\<^sub>m hm_cells (rt_memory (snd (rt_step sha256 service rt)))"
  using step_outcome_ok [of rt sha256 service] by (auto simp: step_outcome_def same_store_def commits_def split: if_splits)

lemma run_loop_grows: "hm_cells (rt_memory rt) \<subseteq>\<^sub>m hm_cells (rt_memory (snd (rt_run_loop sha256 service n records rt)))"
proof (induction n arbitrary: records rt)
  case (Suc n)
  obtain r rt1 where s: "rt_step sha256 service rt = (r, rt1)" by force
  then have g: "hm_cells (rt_memory rt) \<subseteq>\<^sub>m hm_cells (rt_memory rt1)" using step_grows [of rt sha256 service] by simp
  with Suc.IH [of rt1] s show ?case
    by (auto simp: Let_def intro: map_le_trans split: sum.splits exn.splits)
qed simp

text \<open>
  C20. The memory of the host is write-once through a whole run: whatever the endpoint and the
  service answer and however the run ends, every cell written before it holds the same value
  after it.
\<close>

theorem run_write_once:
  "hm_cells (rt_memory rt) \<subseteq>\<^sub>m hm_cells (rt_memory (snd (rt_run sha256 service max_steps rt)))"
  unfolding rt_run_def by (rule run_loop_grows)

section \<open>Concrete instances\<close>

theorem host_reads_staged_witness:
  "\<exists>p. result_payload (StagedTransaction 7 OP_XOR INTERPRETER_COMPAT 2 3) = Inr p
      \<and> (\<forall>q. decode_result_payload q (Some 7) = Inr (transition_of (StagedTransaction 7 OP_XOR INTERPRETER_COMPAT 2 3)) \<longleftrightarrow> q = p)"
  using host_reads_staged [of "StagedTransaction 7 OP_XOR INTERPRETER_COMPAT 2 3"]
  by (simp add: staged_ok_def StagedTransaction_def fits_def)

end
