(* ===== verification/Packet_Executor.thy ===== *)
theory Packet_Executor
  imports Field_Models Lsc_Endpoint
begin

text \<open>
  The packet executor of \<open>sim/packet_executor_model.py\<close>: a second endpoint, written apart from
  the transaction model, for XOR, MUL_NATIVE, SET_CONSTANT and RETIRE only. It has its own
  enumerations, codec, CRC, multiplier, frame memory and byte lane; nothing of the transaction
  model is used in its definitions but the generic lists and loops.
\<close>

section \<open>Vocabulary\<close>

definition PX_VERSION :: int where "PX_VERSION = 1"
definition PX_REQUEST_SOF :: int where "PX_REQUEST_SOF = 0xA1"
definition PX_RESPONSE_SOF :: int where "PX_RESPONSE_SOF = 0x5A"
definition PX_REQUEST_HEADER :: nat where "PX_REQUEST_HEADER = 6"
definition PX_CRC_BYTES :: nat where "PX_CRC_BYTES = 4"
definition PX_MAX_PAYLOAD :: nat where "PX_MAX_PAYLOAD = 256"
definition PX_MAX_REQUEST_BYTES :: nat where
  "PX_MAX_REQUEST_BYTES = PX_REQUEST_HEADER + PX_MAX_PAYLOAD + PX_CRC_BYTES"
definition PX_MASK128 :: int where "PX_MASK128 = push_bit 128 1 - 1"
definition PX_U32_MAX :: int where "PX_U32_MAX = push_bit 32 1 - 1"
definition PX_INDEX_LIMIT :: int where "PX_INDEX_LIMIT = push_bit 16 1"
definition PX_REDUCTION :: int where "PX_REDUCTION = 0x87"

lemmas px_constants = PX_VERSION_def PX_REQUEST_SOF_def PX_RESPONSE_SOF_def PX_REQUEST_HEADER_def
  PX_CRC_BYTES_def PX_MAX_PAYLOAD_def PX_MAX_REQUEST_BYTES_def PX_U32_MAX_def PX_INDEX_LIMIT_def

datatype px_opcode = PX_XOR | PX_MUL_NATIVE | PX_SET_CONSTANT | PX_RETIRE

fun px_opcode_code :: "px_opcode \<Rightarrow> int" where
  "px_opcode_code PX_XOR = 0x01"
| "px_opcode_code PX_MUL_NATIVE = 0x02"
| "px_opcode_code PX_SET_CONSTANT = 0x03"
| "px_opcode_code PX_RETIRE = 0x12"

definition px_opcode_of :: "int \<Rightarrow> px_opcode option" where
  "px_opcode_of c = List.find (\<lambda>op. px_opcode_code op = c) [PX_XOR, PX_MUL_NATIVE, PX_SET_CONSTANT, PX_RETIRE]"

fun PX_PAYLOAD_LENGTH :: "px_opcode \<Rightarrow> nat" where
  "PX_PAYLOAD_LENGTH PX_XOR = 77"
| "PX_PAYLOAD_LENGTH PX_MUL_NATIVE = 94"
| "PX_PAYLOAD_LENGTH PX_SET_CONSTANT = 51"
| "PX_PAYLOAD_LENGTH PX_RETIRE = 8"

datatype px_status = PS_OK | PS_RETIRED | PS_BAD_SOF | PS_BAD_VERSION | PS_BAD_OPCODE | PS_BAD_LENGTH
  | PS_BAD_CRC | PS_BAD_FLAGS | PS_BAD_PROFILE | PS_BAD_STATE | PS_BAD_CELL | PS_U32_OVERFLOW
  | PS_BAD_INVERSE | PS_WRITE_CONFLICT | PS_MUL_BACKSOLVE_ZERO | PS_UNSUPPORTED_IN_PROFILE
  | PS_RETIRE_MISMATCH | PS_ABORTED | PS_STATE_MISMATCH | PS_INDEX_RANGE | PS_ALIAS_INCONSISTENT

fun px_status_code :: "px_status \<Rightarrow> int" where
  "px_status_code PS_OK = 0x00"
| "px_status_code PS_RETIRED = 0x02"
| "px_status_code PS_BAD_SOF = 0x80"
| "px_status_code PS_BAD_VERSION = 0x81"
| "px_status_code PS_BAD_OPCODE = 0x82"
| "px_status_code PS_BAD_LENGTH = 0x83"
| "px_status_code PS_BAD_CRC = 0x84"
| "px_status_code PS_BAD_FLAGS = 0x85"
| "px_status_code PS_BAD_PROFILE = 0x86"
| "px_status_code PS_BAD_STATE = 0x87"
| "px_status_code PS_BAD_CELL = 0x88"
| "px_status_code PS_U32_OVERFLOW = 0x89"
| "px_status_code PS_BAD_INVERSE = 0x8B"
| "px_status_code PS_WRITE_CONFLICT = 0x8C"
| "px_status_code PS_MUL_BACKSOLVE_ZERO = 0x8E"
| "px_status_code PS_UNSUPPORTED_IN_PROFILE = 0x90"
| "px_status_code PS_RETIRE_MISMATCH = 0x92"
| "px_status_code PS_ABORTED = 0x93"
| "px_status_code PS_STATE_MISMATCH = 0x94"
| "px_status_code PS_INDEX_RANGE = 0x95"
| "px_status_code PS_ALIAS_INCONSISTENT = 0x96"

datatype px_profile = PP_FORWARD_ONLY | PP_INTERPRETER_COMPAT

datatype px_phase = PX_IDLE | PX_RESULT_PENDING

text \<open>The exceptions: \<open>PacketFault\<close> with its detail and transaction, and those of Python.\<close>

datatype px_exn = PacketFault px_status int int | PxOverflowError | PxValueError | PxKeyError | PxAssertionError

type_synonym 'a px = "px_exn + 'a"

definition px_raise :: "px_status \<Rightarrow> int \<Rightarrow> 'a px" where
  "px_raise st detail = Inl (PacketFault st (detail AND 0xFF) 0)"

datatype px_cell = PxCell (xc_present: bool) (xc_value: int)

datatype px_write = PxWrite (xw_address: int) (xw_value: int)

record px_staged =
  xs_txn_id :: int
  xs_next_pc :: int
  xs_next_fp :: int
  xs_writes :: "px_write list"
  xs_accesses :: "int list"
  xs_result_crc :: int

record px_pins =
  xp_rx_ready :: bool
  xp_tx_valid :: bool
  xp_tx_data :: int
  xp_busy :: bool
  xp_fault :: bool
  xp_done_pulse :: bool

record px_lane_record =
  xl_pins :: px_pins
  xl_rx_committed :: bool
  xl_tx_committed :: bool

section \<open>Codec and arithmetic\<close>

text \<open>\<open>value.to_bytes(n, "little")\<close>.\<close>

definition px_to_bytes :: "nat \<Rightarrow> int \<Rightarrow> bytes px" where
  "px_to_bytes n v = (if 0 \<le> v \<and> v < 256 ^ n then Inr (to_le n v) else Inl PxOverflowError)"

definition px_u32 :: "int \<Rightarrow> bytes px" where "px_u32 v = px_to_bytes 4 v"

definition px_crc_bit :: "int \<Rightarrow> int" where
  "px_crc_bit register = drop_bit 1 register XOR (if register AND 1 \<noteq> 0 then 0xEDB88320 else 0)"

definition px_crc32 :: "bytes \<Rightarrow> int" where
  "px_crc32 data =
     foldl (\<lambda>register b. (px_crc_bit ^^ 8) (register XOR uint b)) 0xFFFFFFFF data XOR 0xFFFFFFFF"

text \<open>
  The two loops of \<open>multiply\<close> are those of \<open>gf_mul_polynomial\<close> of \<open>sim/model.py\<close>, at width 128.
\<close>

definition px_multiply :: "int \<Rightarrow> int \<Rightarrow> int" where
  "px_multiply left right =
     (let product = carryless 128 left right; modulus = push_bit 128 1 OR PX_REDUCTION
      in long_reduce 127 128 modulus product AND PX_MASK128)"

definition px_checked_add :: "int \<Rightarrow> int \<Rightarrow> int px" where
  "px_checked_add left right =
     (let total = left + right in if total > PX_U32_MAX then px_raise PS_U32_OVERFLOW 0 else Inr total)"

record px_reader =
  xr_payload :: bytes
  xr_position :: nat

definition PxReader :: "bytes \<Rightarrow> px_reader" where
  "PxReader payload = \<lparr>xr_payload = payload, xr_position = 0\<rparr>"

definition xr_take :: "nat \<Rightarrow> px_reader \<Rightarrow> (bytes \<times> px_reader) px" where
  "xr_take count r =
     (let stop = xr_position r + count in
      if stop > length (xr_payload r) then px_raise PS_BAD_LENGTH 0
      else Inr (pyslice (xr_position r) stop (xr_payload r), r\<lparr>xr_position := stop\<rparr>))"

definition xr_u8 :: "px_reader \<Rightarrow> (int \<times> px_reader) px" where
  "xr_u8 r = bindE (xr_take 1 r) (\<lambda>(bs, r). Inr (uint (bs ! 0), r))"

definition xr_u32 :: "px_reader \<Rightarrow> (int \<times> px_reader) px" where
  "xr_u32 r = bindE (xr_take 4 r) (\<lambda>(bs, r). Inr (le_int bs, r))"

definition xr_f128 :: "px_reader \<Rightarrow> (int \<times> px_reader) px" where
  "xr_f128 r = bindE (xr_take 16 r) (\<lambda>(bs, r). Inr (le_int bs, r))"

definition xr_cell :: "px_reader \<Rightarrow> (px_cell \<times> px_reader) px" where
  "xr_cell r =
     bindE (xr_u8 r) (\<lambda>(presence, r).
     bindE (xr_f128 r) (\<lambda>(v, r).
       if presence \<notin> {0, 1} \<or> (presence = 0 \<and> v \<noteq> 0) then px_raise PS_BAD_CELL 0
       else Inr (PxCell (presence \<noteq> 0) v, r)))"

definition xr_finish :: "px_reader \<Rightarrow> unit px" where
  "xr_finish r = (if xr_position r \<noteq> length (xr_payload r) then px_raise PS_BAD_LENGTH 0 else Inr ())"

fun xr_many :: "nat \<Rightarrow> (px_reader \<Rightarrow> ('a \<times> px_reader) px) \<Rightarrow> px_reader \<Rightarrow> ('a list \<times> px_reader) px" where
  "xr_many 0 rd r = Inr ([], r)"
| "xr_many (Suc n) rd r = bindE (rd r) (\<lambda>(x, r). bindE (xr_many n rd r) (\<lambda>(xs, r). Inr (x # xs, r)))"

section \<open>The frame memory\<close>

record px_memory =
  xm_cells :: "int \<Rightarrow> px_cell option"
  xm_writes :: "px_write list"

definition FrameMemory :: px_memory where "FrameMemory = \<lparr>xm_cells = (\<lambda>_. None), xm_writes = []\<rparr>"

definition xm_supply :: "int \<Rightarrow> px_cell \<Rightarrow> px_memory \<Rightarrow> px_memory px" where
  "xm_supply address c m =
     (if xm_cells m address \<noteq> None \<and> xm_cells m address \<noteq> Some c then px_raise PS_ALIAS_INCONSISTENT 0
      else Inr (m\<lparr>xm_cells := (xm_cells m)(address \<mapsto> c)\<rparr>))"

fun xm_supply_all :: "(int \<times> px_cell) list \<Rightarrow> px_memory \<Rightarrow> px_memory px" where
  "xm_supply_all [] m = Inr m"
| "xm_supply_all ((a, c) # rest) m = bindE (xm_supply a c m) (xm_supply_all rest)"

definition xm_at :: "px_memory \<Rightarrow> int \<Rightarrow> px_cell px" where
  "xm_at m address = (case xm_cells m address of None \<Rightarrow> Inl PxKeyError | Some c \<Rightarrow> Inr c)"

definition xm_present :: "px_memory \<Rightarrow> int \<Rightarrow> bool px" where
  "xm_present m address = bindE (xm_at m address) (\<lambda>c. Inr (xc_present c))"

definition xm_read :: "px_memory \<Rightarrow> int \<Rightarrow> int px" where
  "xm_read m address = bindE (xm_at m address) (\<lambda>c. Inr (if xc_present c then xc_value c else 0))"

definition xm_write_once :: "int \<Rightarrow> int \<Rightarrow> px_memory \<Rightarrow> px_memory px" where
  "xm_write_once address v m =
     (let v = v AND PX_MASK128 in
      bindE (xm_at m address) (\<lambda>c.
        if xc_present c then (if xc_value c \<noteq> v then px_raise PS_WRITE_CONFLICT 0 else Inr m)
        else Inr (m\<lparr>xm_cells := (xm_cells m)(address \<mapsto> PxCell True v),
                    xm_writes := xm_writes m @ [PxWrite address v]\<rparr>)))"

section \<open>The executor\<close>

record packet_executor =
  px_state :: px_phase
  px_profile :: px_profile
  px_committed_pc :: int
  px_committed_fp :: int
  px_state_valid :: bool
  px_retire_seq :: int
  px_last_status :: px_status
  px_last_fault :: px_status
  px_staged :: "px_staged option"
  px_rx :: bytes
  px_expected :: nat
  px_tx :: bytes
  px_done :: bool
  px_abort_count :: int

definition px_power_on :: packet_executor where
  "px_power_on =
     \<lparr>px_state = PX_IDLE, px_profile = PP_INTERPRETER_COMPAT, px_committed_pc = 0, px_committed_fp = 0,
      px_state_valid = False, px_retire_seq = 0, px_last_status = PS_OK, px_last_fault = PS_OK,
      px_staged = None, px_rx = [], px_expected = 0, px_tx = [], px_done = False, px_abort_count = 0\<rparr>"

definition px_pins_of :: "packet_executor \<Rightarrow> px_pins" where
  "px_pins_of x =
     \<lparr>xp_rx_ready = (px_tx x = []), xp_tx_valid = (px_tx x \<noteq> []),
      xp_tx_data = (if px_tx x \<noteq> [] then uint (px_tx x ! 0) else 0),
      xp_busy = ((px_rx x \<noteq> [] \<or> px_tx x \<noteq> []) \<or> px_state x \<noteq> PX_IDLE),
      xp_fault = (px_status_code (px_last_status x) \<ge> 0x80), xp_done_pulse = px_done x\<rparr>"

definition px_buffered_bytes :: "packet_executor \<Rightarrow> nat" where
  "px_buffered_bytes x = length (px_rx x)"

definition px_emit :: "px_status \<Rightarrow> bytes \<Rightarrow> (packet_executor, px_exn, unit) routine" where
  "px_emit st payload x =
     thenM (catE [Inr [word_of_int PX_RESPONSE_SOF, word_of_int PX_VERSION, word_of_int (px_status_code st)],
              px_to_bytes 2 (int (length payload)), Inr payload], x) (\<lambda>body x.
     thenM (px_u32 (px_crc32 body), x) (\<lambda>crc x.
     let x = x\<lparr>px_tx := px_tx x @ body @ crc, px_last_status := st\<rparr>
     in (Inr (), if px_status_code st \<ge> 0x80 then x\<lparr>px_last_fault := st\<rparr> else x)))"

definition px_fault :: "px_status \<Rightarrow> int \<Rightarrow> int \<Rightarrow> (packet_executor, px_exn, unit) routine" where
  "px_fault st txn_id detail x =
     thenM (px_u32 txn_id, x) (\<lambda>t x. px_emit st (t @ [word_of_int (detail AND 0xFF)]) x)"

definition px_result_payload :: "px_staged \<Rightarrow> bytes px" where
  "px_result_payload s =
     catE ([px_u32 (xs_txn_id s), px_u32 (xs_next_pc s), px_u32 (xs_next_fp s),
            (if length (xs_writes s) < 256 then Inr [word_of_int (int (length (xs_writes s)))] else Inl PxValueError)]
       @ map (\<lambda>w. catE [px_u32 (xw_address w), px_to_bytes 16 (xw_value w)]) (xs_writes s)
       @ [Inr [0],
          (if length (xs_accesses s) < 256 then Inr [word_of_int (int (length (xs_accesses s)))] else Inl PxValueError)]
       @ map px_u32 (xs_accesses s))"

text \<open>The decoded operands of an instruction.\<close>

datatype px_operands = PxSet int int px_cell | PxBinary "int list" "px_cell list" px_cell

text \<open>From the program counter to \<open>reader.finish()\<close> (lines 411-428).\<close>

definition px_decode :: "px_opcode \<Rightarrow> px_reader \<Rightarrow> (int \<times> int \<times> px_profile \<times> px_operands) px" where
  "px_decode op r =
     bindE (xr_u32 r) (\<lambda>(pc, r).
     bindE (xr_u32 r) (\<lambda>(fp, r).
     bindE (xr_u8 r) (\<lambda>(profile_code, r).
     if profile_code \<notin> {0, 1} then px_raise PS_BAD_PROFILE 0
     else
       let prof = (if profile_code = 0 then PP_FORWARD_ONLY else PP_INTERPRETER_COMPAT) in
       bindE (xr_u8 r) (\<lambda>(reserved, r).
       if reserved \<noteq> 0 then px_raise PS_BAD_FLAGS 1
       else
         bindE
           (if op = PX_SET_CONSTANT then
              bindE (xr_u32 r) (\<lambda>(offset, r).
              bindE (xr_f128 r) (\<lambda>(constant, r).
              bindE (xr_cell r) (\<lambda>(supplied_cell, r).
                Inr (PxSet offset constant supplied_cell, r))))
            else
              bindE (xr_many 3 xr_u32 r) (\<lambda>(offsets, r).
              bindE (xr_many 3 xr_cell r) (\<lambda>(cells, r).
              bindE (if op = PX_MUL_NATIVE then xr_cell r else Inr (PxCell False 0, r)) (\<lambda>(inverse, r).
                Inr (PxBinary offsets cells inverse, r)))))
           (\<lambda>(operands, r). bindE (xr_finish r) (\<lambda>_. Inr (pc, fp, prof, operands)))))))"

text \<open>The guards (lines 430-437).\<close>

definition px_guard :: "packet_executor \<Rightarrow> int \<Rightarrow> int \<Rightarrow> px_profile \<Rightarrow> unit px" where
  "px_guard x pc fp prof =
     (if px_state x \<noteq> PX_IDLE then px_raise PS_BAD_STATE 0
      else if prof \<noteq> px_profile x then px_raise PS_BAD_PROFILE 0
      else if px_state_valid x \<and> (pc, fp) \<noteq> (px_committed_pc x, px_committed_fp x) then px_raise PS_STATE_MISMATCH 0
      else if pc \<ge> PX_INDEX_LIMIT \<or> fp \<ge> PX_INDEX_LIMIT then px_raise PS_INDEX_RANGE 0
      else Inr ())"

text \<open>The back-solve of one absent operand (lines 449-465).\<close>

definition px_back_solve :: "px_opcode \<Rightarrow> px_profile \<Rightarrow> px_cell \<Rightarrow> int \<Rightarrow> int \<Rightarrow> int \<Rightarrow> px_memory \<Rightarrow> px_memory px" where
  "px_back_solve op prof proposed a b c m =
     bindE (xm_present m a) (\<lambda>present_a.
     bindE (xm_present m b) (\<lambda>present_b.
     let absent_a = (\<not> present_a); absent_b = (\<not> present_b) in
     if (absent_a \<or> absent_b) \<and> prof = PP_FORWARD_ONLY then px_raise PS_UNSUPPORTED_IN_PROFILE 0
     else
       bindE (xm_present m c) (\<lambda>present_c.
       if present_c \<and> absent_a \<noteq> absent_b then
         let known_address = (if absent_a then b else a);
             missing_address = (if absent_a then a else b) in
         bindE (xm_read m known_address) (\<lambda>known.
         bindE
           (if op = PX_XOR then bindE (xm_read m c) (\<lambda>r. Inr (r XOR known))
            else if known = 0 then px_raise PS_MUL_BACKSOLVE_ZERO 0
            else if \<not> xc_present proposed \<or> px_multiply known (xc_value proposed) \<noteq> 1
            then px_raise PS_BAD_INVERSE (if \<not> xc_present proposed then 1 else 2)
            else bindE (xm_read m c) (\<lambda>r. Inr (px_multiply r (xc_value proposed))))
           (\<lambda>solved. xm_write_once missing_address solved m))
       else Inr m)))"

text \<open>The transition on the frame (lines 439-472): the memory and the counted accesses.\<close>

fun px_execute :: "px_opcode \<Rightarrow> int \<Rightarrow> px_profile \<Rightarrow> px_operands \<Rightarrow> (px_memory \<times> int list) px" where
  "px_execute op fp prof (PxSet offset constant supplied_cell) =
     bindE (px_checked_add fp offset) (\<lambda>address.
     bindE (xm_supply address supplied_cell FrameMemory) (\<lambda>m.
     bindE (xm_write_once address constant m) (\<lambda>m. Inr (m, [address]))))"
| "px_execute op fp prof (PxBinary offsets cells proposed) =
     bindE (mapE (px_checked_add fp) offsets) (\<lambda>addresses.
     bindE (xm_supply_all (zip addresses cells) FrameMemory) (\<lambda>m.
     let a = addresses ! 0; b = addresses ! 1; c = addresses ! 2 in
     bindE (px_back_solve op prof proposed a b c m) (\<lambda>m.
     bindE (xm_read m a) (\<lambda>left.
     bindE (xm_read m b) (\<lambda>right.
     bindE (xm_write_once c (if op = PX_XOR then left XOR right else px_multiply left right) m) (\<lambda>m.
       Inr (m, addresses)))))))"

text \<open>\<open>except PacketFault as fault: fault.txn_id = txn_id; raise\<close>.\<close>

definition px_with_txn :: "int \<Rightarrow> 'a px \<Rightarrow> 'a px" where
  "px_with_txn txn_id r = (case r of Inl (PacketFault st d _) \<Rightarrow> Inl (PacketFault st d txn_id) | _ \<Rightarrow> r)"

definition px_instruction :: "px_opcode \<Rightarrow> px_reader \<Rightarrow> (packet_executor, px_exn, int) routine" where
  "px_instruction op r x =
     thenM (xr_u32 r, x) (\<lambda>(txn_id, r) x.
     thenM (px_with_txn txn_id
              (bindE (px_decode op r) (\<lambda>(pc, fp, prof, operands).
               bindE (px_guard x pc fp prof) (\<lambda>_.
               bindE (px_execute op fp prof operands) (\<lambda>(m, accesses). Inr (pc, fp, m, accesses))))), x)
       (\<lambda>(pc, fp, m, accesses) x.
     thenM (px_checked_add pc 1, x) (\<lambda>next_pc x.
     let staged = \<lparr>xs_txn_id = txn_id, xs_next_pc = next_pc, xs_next_fp = fp, xs_writes = xm_writes m,
                   xs_accesses = accesses, xs_result_crc = 0\<rparr> in
     thenM (px_result_payload staged, x) (\<lambda>payload x.
     let staged = staged\<lparr>xs_result_crc := px_crc32 payload\<rparr>;
         x = x\<lparr>px_staged := Some staged, px_state := PX_RESULT_PENDING\<rparr> in
     thenM (px_emit PS_OK payload x) (\<lambda>_ x. (Inr txn_id, x))))))"

definition px_retire :: "int \<Rightarrow> int \<Rightarrow> (packet_executor, px_exn, unit) routine" where
  "px_retire txn_id result_crc x =
     (case px_staged x of
        None \<Rightarrow> (px_raise PS_BAD_STATE 0, x)
      | Some staged \<Rightarrow>
          if px_state x \<noteq> PX_RESULT_PENDING then (px_raise PS_BAD_STATE 0, x)
          else if txn_id \<noteq> xs_txn_id staged \<or> result_crc \<noteq> xs_result_crc staged then
            let detail = (if txn_id \<noteq> xs_txn_id staged then 1 else 2)
            in (px_raise PS_RETIRE_MISMATCH detail, x\<lparr>px_state := PX_IDLE, px_staged := None\<rparr>)
          else
            let x = x\<lparr>px_committed_pc := xs_next_pc staged, px_committed_fp := xs_next_fp staged,
                      px_state_valid := True, px_retire_seq := px_retire_seq x + 1,
                      px_state := PX_IDLE, px_staged := None, px_done := True\<rparr> in
            thenM (catE [px_u32 txn_id, px_u32 (px_retire_seq x), px_u32 (px_committed_pc x),
                px_u32 (px_committed_fp x)], x) (\<lambda>payload x. px_emit PS_RETIRED payload x))"

text \<open>The \<open>try\<close> block of \<open>_dispatch\<close> and its handler (lines 392, 396-406).\<close>

definition px_dispatch_payload :: "px_opcode \<Rightarrow> bytes \<Rightarrow> (packet_executor, px_exn, unit) routine" where
  "px_dispatch_payload op payload x =
     (let reader = PxReader payload; txn_id = le_int (take 4 payload);
          handler = (\<lambda>e txn_id x. case e of
             PacketFault st d t \<Rightarrow> px_fault st (if t \<noteq> 0 then t else txn_id) d x
           | _ \<Rightarrow> (Inl e, x)) in
      if op = PX_RETIRE then
        (case bindE (xr_u32 reader) (\<lambda>(txn_id, r). bindE (xr_u32 r) (\<lambda>(result_crc, r).
              bindE (xr_finish r) (\<lambda>_. Inr (txn_id, result_crc)))) of
           Inl e \<Rightarrow> handler e txn_id x
         | Inr (txn_id, result_crc) \<Rightarrow>
             (case px_retire txn_id result_crc x of
                (Inl e, x) \<Rightarrow> handler e txn_id x
              | (Inr u, x) \<Rightarrow> (Inr (), x)))
      else
        (case px_instruction op reader x of
           (Inl e, x) \<Rightarrow> handler e txn_id x
         | (Inr _, x) \<Rightarrow> (Inr (), x)))"

definition px_dispatch :: "bytes \<Rightarrow> (packet_executor, px_exn, unit) routine" where
  "px_dispatch frame x =
     (let len = nat (le_int (pyslice 4 6 frame));
          body = take (PX_REQUEST_HEADER + len) frame in
      if le_int (drop (length frame - 4) frame) \<noteq> px_crc32 body then px_fault PS_BAD_CRC 0 0 x
      else if uint (frame ! 1) \<noteq> PX_VERSION then px_fault PS_BAD_VERSION 0 0 x
      else if uint (frame ! 3) \<noteq> 0 then px_fault PS_BAD_FLAGS 0 0 x
      else case px_opcode_of (uint (frame ! 2)) of
        None \<Rightarrow> px_fault PS_BAD_OPCODE 0 0 x
      | Some op \<Rightarrow>
          let payload = drop PX_REQUEST_HEADER body; txn_id = le_int (take 4 payload) in
          if len \<noteq> PX_PAYLOAD_LENGTH op then px_fault PS_BAD_LENGTH txn_id 2 x
          else px_dispatch_payload op payload x)"

definition px_accept :: "byte \<Rightarrow> (packet_executor, px_exn, unit) routine" where
  "px_accept b x =
     (if px_rx x = [] then
        (if uint b \<noteq> PX_REQUEST_SOF then px_fault PS_BAD_SOF 0 0 x
         else (Inr (), x\<lparr>px_rx := px_rx x @ [b]\<rparr>))
      else if length (px_rx x) \<ge> PX_MAX_REQUEST_BYTES then (Inl PxAssertionError, x)
      else
        let x = x\<lparr>px_rx := px_rx x @ [b]\<rparr>;
            len = nat (le_int (pyslice 4 6 (px_rx x))) in
        if length (px_rx x) = PX_REQUEST_HEADER \<and> len > PX_MAX_PAYLOAD
        then px_fault PS_BAD_LENGTH 0 1 (x\<lparr>px_rx := [], px_expected := 0\<rparr>)
        else
          let x = (if length (px_rx x) = PX_REQUEST_HEADER
                   then x\<lparr>px_expected := PX_REQUEST_HEADER + len + PX_CRC_BYTES\<rparr> else x) in
          if px_expected x \<noteq> 0 \<and> length (px_rx x) = px_expected x
          then px_dispatch (px_rx x) (x\<lparr>px_rx := [], px_expected := 0\<rparr>)
          else (Inr (), x))"

definition px_step :: "int \<Rightarrow> bool \<Rightarrow> bool \<Rightarrow> bool \<Rightarrow> bool \<Rightarrow> (packet_executor, px_exn, px_lane_record) routine" where
  "px_step rx_data rx_valid tx_ready abort reset_n x =
     (let pins = px_pins_of x;
          idle = \<lparr>xl_pins = pins, xl_rx_committed = False, xl_tx_committed = False\<rparr> in
      if \<not> reset_n then (Inr idle, px_power_on)
      else if abort then
        (Inr idle, x\<lparr>px_state := PX_IDLE, px_staged := None, px_rx := [], px_expected := 0, px_tx := [],
                     px_done := False, px_last_status := PS_ABORTED, px_last_fault := PS_ABORTED,
                     px_abort_count := px_abort_count x + 1\<rparr>)
      else
        let x = x\<lparr>px_done := False\<rparr>;
            rx_committed = (rx_valid \<and> xp_rx_ready pins);
            tx_committed = (tx_ready \<and> xp_tx_valid pins);
            x = (if tx_committed then x\<lparr>px_tx := tl (px_tx x)\<rparr> else x) in
        thenM (if rx_committed then px_accept (word_of_int rx_data) x else (Inr (), x))
          (\<lambda>_ x. (Inr \<lparr>xl_pins = pins, xl_rx_committed = rx_committed, xl_tx_committed = tx_committed\<rparr>, x)))"

end
