(* ===== verification/Packet_Sim.thy ===== *)
theory Packet_Sim
  imports Packet_Executor Lsc_Safety
begin

text \<open>
  The packet executor and the transaction model answer alike: the same bytes for the same frames
  of the four opcodes the executor supports, and step for step the same state. The outcomes of
  the two sides are matched operation by operation, from the readers up to the clock edge.
\<close>

section \<open>The translation\<close>

fun px_op :: "px_opcode \<Rightarrow> opcode" where
  "px_op PX_XOR = OP_XOR"
| "px_op PX_MUL_NATIVE = OP_MUL_NATIVE"
| "px_op PX_SET_CONSTANT = OP_SET_CONSTANT"
| "px_op PX_RETIRE = OP_RETIRE"

fun px_st :: "px_status \<Rightarrow> status" where
  "px_st PS_OK = OK"
| "px_st PS_RETIRED = RETIRED"
| "px_st PS_BAD_SOF = BAD_SOF"
| "px_st PS_BAD_VERSION = BAD_VERSION"
| "px_st PS_BAD_OPCODE = BAD_OPCODE"
| "px_st PS_BAD_LENGTH = BAD_LENGTH"
| "px_st PS_BAD_CRC = BAD_CRC"
| "px_st PS_BAD_FLAGS = BAD_FLAGS"
| "px_st PS_BAD_PROFILE = BAD_PROFILE"
| "px_st PS_BAD_STATE = BAD_STATE"
| "px_st PS_BAD_CELL = BAD_CELL"
| "px_st PS_U32_OVERFLOW = U32_OVERFLOW"
| "px_st PS_BAD_INVERSE = BAD_INVERSE"
| "px_st PS_WRITE_CONFLICT = WRITE_CONFLICT"
| "px_st PS_MUL_BACKSOLVE_ZERO = MUL_BACKSOLVE_ZERO"
| "px_st PS_UNSUPPORTED_IN_PROFILE = UNSUPPORTED_IN_PROFILE"
| "px_st PS_RETIRE_MISMATCH = RETIRE_MISMATCH"
| "px_st PS_ABORTED = ABORTED"
| "px_st PS_STATE_MISMATCH = STATE_MISMATCH"
| "px_st PS_INDEX_RANGE = INDEX_RANGE"
| "px_st PS_ALIAS_INCONSISTENT = ALIAS_INCONSISTENT"

fun px_prof :: "px_profile \<Rightarrow> profile" where
  "px_prof PP_FORWARD_ONLY = FORWARD_ONLY"
| "px_prof PP_INTERPRETER_COMPAT = INTERPRETER_COMPAT"

fun px_ph :: "px_phase \<Rightarrow> txn_state" where
  "px_ph PX_IDLE = IDLE"
| "px_ph PX_RESULT_PENDING = RESULT_PENDING"

fun px_exc :: "px_exn \<Rightarrow> exn" where
  "px_exc (PacketFault st d t) = ProtocolFault (px_st st) d"
| "px_exc PxOverflowError = ValueError"
| "px_exc PxValueError = ValueError"
| "px_exc PxKeyError = KeyError"
| "px_exc PxAssertionError = AssertionError"

fun cell_of :: "px_cell \<Rightarrow> cell" where "cell_of (PxCell p v) = Cell p v"

fun write_of :: "px_write \<Rightarrow> cell_write" where "write_of (PxWrite a v) = Write a v"

lemma px_st_code [simp]: "status_code (px_st s) = px_status_code s"
  by (cases s) simp_all

lemma px_op_code [simp]: "opcode_code (px_op op) = px_opcode_code op"
  by (cases op) simp_all

lemma px_op_length: "PX_PAYLOAD_LENGTH op = REQUEST_PAYLOAD_BYTES (px_op op)"
  by (cases op) (simp_all add: wire_constants)

lemma cell_of_simps [simp]: "cell_present (cell_of c) = xc_present c" "cell_value (cell_of c) = xc_value c" "cell_of c = cell_of d \<longleftrightarrow> c = d"
  by (cases c; cases d; simp)+

lemma px_ph_simps [simp]: "px_ph s = IDLE \<longleftrightarrow> s = PX_IDLE" "px_ph s = RESULT_PENDING \<longleftrightarrow> s = PX_RESULT_PENDING" "px_ph s \<noteq> SERVICE_PENDING"
  by (cases s; simp)+

lemma px_prof_simps [simp]: "px_prof p = FORWARD_ONLY \<longleftrightarrow> p = PP_FORWARD_ONLY" "px_prof p = px_prof q \<longleftrightarrow> p = q"
  by (cases p; cases q; simp)+

section \<open>The shared arithmetic\<close>

lemma px_crc32_eq [simp]: "px_crc32 = crc32"
proof -
  have "px_crc_bit = crc32_bit" by (rule ext) (simp add: px_crc_bit_def crc32_bit_def CRC32_POLYNOMIAL_def)
  then show ?thesis by (intro ext) (simp only: px_crc32_def crc32_def crc32_byte_def [abs_def])
qed

lemma px_multiply_eq: "fits 128 a \<Longrightarrow> fits 128 b \<Longrightarrow> px_multiply a b = field_mul a b"
  using multipliers_128 [of a b] by (auto simp: px_multiply_def gf_mul_polynomial_def Let_def PX_REDUCTION_def REDUCTION_LOW_def PX_MASK128_def split: if_splits)

section \<open>Matching outcomes\<close>

definition matches :: "('a \<Rightarrow> 'b \<Rightarrow> bool) \<Rightarrow> 'a px \<Rightarrow> 'b res \<Rightarrow> bool" where
  "matches R r s \<longleftrightarrow> (case (r, s) of
     (Inr x, Inr y) \<Rightarrow> R x y | (Inl e, Inl e') \<Rightarrow> px_exc e = e' | _ \<Rightarrow> False)"

lemma matches_simps [simp]:
  "matches R (Inr x) (Inr y) \<longleftrightarrow> R x y" "matches R (Inl e) (Inl e') \<longleftrightarrow> px_exc e = e'"
  "\<not> matches R (Inr x) (Inl e')" "\<not> matches R (Inl e) (Inr y)"
  by (simp_all add: matches_def)

lemma matches_bind:
  "matches R r s \<Longrightarrow> (\<And>x y. r = Inr x \<Longrightarrow> s = Inr y \<Longrightarrow> R x y \<Longrightarrow> matches S (f x) (g y)) \<Longrightarrow> matches S (bindE r f) (bindE s g)"
  by (cases r; cases s) auto

lemma matches_mono: "matches R r s \<Longrightarrow> (\<And>x y. R x y \<Longrightarrow> S x y) \<Longrightarrow> matches S r s"
  by (cases r; cases s) auto

lemma px_raise_eq: "px_raise st d = Inl (PacketFault st (d mod 256) 0)"
proof -
  have "d AND 0xFF = take_bit 8 d" by (simp add: take_bit_eq_mask mask_eq_exp_minus_1)
  then show ?thesis by (simp add: px_raise_def take_bit_eq_mod)
qed

lemma matches_raise [simp]: "matches R (px_raise st d) (Inl e) \<longleftrightarrow> e = ProtocolFault (px_st st) (d mod 256)" "\<not> matches R (px_raise st d) (Inr y)"
  by (auto simp: px_raise_eq)

section \<open>The codec\<close>

definition same_reader :: "px_reader \<Rightarrow> reader \<Rightarrow> bool" where
  "same_reader r s \<longleftrightarrow> xr_payload r = rd_data s \<and> xr_position r = rd_offset s"

abbreviation with_reader :: "('a \<Rightarrow> 'b \<Rightarrow> bool) \<Rightarrow> 'a \<times> px_reader \<Rightarrow> 'b \<times> reader \<Rightarrow> bool" where
  "with_reader R \<equiv> (\<lambda>(x, r) (y, s). R x y \<and> same_reader r s)"

lemma reader_new: "same_reader (PxReader p) (Reader p)"
  by (simp add: same_reader_def PxReader_def Reader_def)

lemma matches_take: "same_reader r s \<Longrightarrow> matches (with_reader (=)) (xr_take n r) (rd_take n s)"
  by (auto simp: same_reader_def xr_take_def rd_take_def Let_def protocol_fault_def)

lemma matches_u8: "same_reader r s \<Longrightarrow> matches (with_reader (=)) (xr_u8 r) (rd_u8 s)"
  unfolding xr_u8_def rd_u8_def by (rule matches_bind [OF matches_take]) auto

lemma matches_u32: "same_reader r s \<Longrightarrow> matches (with_reader (=)) (xr_u32 r) (rd_u32 s)"
  unfolding xr_u32_def rd_u32_def by (rule matches_bind [OF matches_take]) auto

lemma matches_f128: "same_reader r s \<Longrightarrow> matches (with_reader (=)) (xr_f128 r) (rd_f128 s)"
  unfolding xr_f128_def rd_f128_def by (rule matches_bind [OF matches_take]) auto

abbreviation same_cell :: "px_cell \<Rightarrow> cell \<Rightarrow> bool" where "same_cell c d \<equiv> d = cell_of c"

lemma matches_cell: "same_reader r s \<Longrightarrow> matches (with_reader same_cell) (xr_cell r) (rd_cell s)"
  unfolding xr_cell_def rd_cell_def
  by (rule matches_bind [OF matches_u8], assumption, clarsimp, rule matches_bind [OF matches_f128], assumption)
    (auto dest!: rd_u8_fits simp: fits_def)

lemma matches_many:
  assumes "\<And>r s. same_reader r s \<Longrightarrow> matches (with_reader R) (f r) (g s)"
  shows "same_reader r s \<Longrightarrow> matches (with_reader (list_all2 R)) (xr_many n f r) (rd_many n g s)"
proof (induction n arbitrary: r s)
  case (Suc n)
  have "matches (with_reader (list_all2 R)) (bindE (xr_many n f r') (\<lambda>(xs, r). Inr (x # xs, r))) (bindE (rd_many n g s') (\<lambda>(xs, r). Inr (y # xs, r)))"
    if "same_reader r' s'" "R x y" for r' s' x y
    by (rule matches_bind [OF Suc.IH]) (use that in auto)
  then show ?case by (auto intro!: matches_bind [OF assms [OF Suc.prems]])
qed simp

lemma matches_finish: "same_reader r s \<Longrightarrow> matches (=) (xr_finish r) (rd_done s)"
  by (auto simp: xr_finish_def rd_done_def same_reader_def)

lemma matches_read:
  assumes "matches (with_reader R) r s"
    and "\<And>x r' y s'. r = Inr (x, r') \<Longrightarrow> s = Inr (y, s') \<Longrightarrow> R x y \<Longrightarrow> same_reader r' s' \<Longrightarrow> matches S (f x r') (g y s')"
  shows "matches S (bindE r (\<lambda>(x, r). f x r)) (bindE s (\<lambda>(y, s). g y s))"
  by (rule matches_bind [OF assms(1)]) (auto intro: assms(2))

text \<open>What a decoded instruction is on both sides.\<close>

definition xcell_ok :: "px_cell \<Rightarrow> bool" where "xcell_ok c \<longleftrightarrow> fits 128 (xc_value c)"

fun same_operands :: "px_opcode \<Rightarrow> px_operands \<Rightarrow> decoded_request \<Rightarrow> bool" where
  "same_operands op (PxSet offset constant c) d \<longleftrightarrow>
     op = PX_SET_CONSTANT \<and> dq_offsets d = [offset] \<and> dq_constant d = constant \<and> dq_cells d = [cell_of c]
     \<and> fits 128 constant \<and> xcell_ok c"
| "same_operands op (PxBinary offsets cells proposed) d \<longleftrightarrow>
     (op = PX_XOR \<or> op = PX_MUL_NATIVE) \<and> dq_offsets d = offsets \<and> dq_cells d = map cell_of cells
     \<and> dq_proposed_inverse d = cell_of proposed \<and> length offsets = 3 \<and> length cells = 3
     \<and> (\<forall>c\<in>set cells. xcell_ok c) \<and> xcell_ok proposed"

definition same_request :: "px_opcode \<Rightarrow> int \<Rightarrow> int \<times> int \<times> px_profile \<times> px_operands \<Rightarrow> decoded_request \<Rightarrow> bool" where
  "same_request op txn_id = (\<lambda>(pc, fp, prof, operands) d.
     dq_opcode d = px_op op \<and> dq_txn_id d = txn_id \<and> dq_pc d = pc \<and> dq_fp d = fp \<and> dq_profile d = px_prof prof
     \<and> fits 32 txn_id \<and> fits 32 pc \<and> fits 32 fp \<and> same_operands op operands d)"

lemma profile_of_px: "c = 0 \<or> c = 1 \<Longrightarrow> profile_of c = Some (px_prof (if c = 0 then PP_FORWARD_ONLY else PP_INTERPRETER_COMPAT))"
  "c \<noteq> 0 \<Longrightarrow> c \<noteq> 1 \<Longrightarrow> profile_of c = None"
  by (auto simp: profile_of_def)

lemma matches_profile:
  assumes r: "same_reader r s" and k: "\<And>r s prof. same_reader r s \<Longrightarrow> matches R (f prof r) (g (px_prof prof) s)"
  shows "matches R
    (if code \<notin> {0, 1} then px_raise PS_BAD_PROFILE 0
     else bindE (xr_u8 r) (\<lambda>(reserved, r). if reserved \<noteq> 0 then px_raise PS_BAD_FLAGS 1
       else f (if code = 0 then PP_FORWARD_ONLY else PP_INTERPRETER_COMPAT) r))
    (case profile_of code of
       None \<Rightarrow> Inl (fault BAD_PROFILE)
     | Some p \<Rightarrow> bindE (rd_u8 s) (\<lambda>(reserved, s). if reserved \<noteq> 0 then Inl (protocol_fault BAD_FLAGS 1) else g p s))"
proof (cases "code = 0 \<or> code = 1")
  case True
  have "matches R (bindE (xr_u8 r) (\<lambda>(reserved, r). if reserved \<noteq> 0 then px_raise PS_BAD_FLAGS 1 else f prof r))
     (bindE (rd_u8 s) (\<lambda>(reserved, s). if reserved \<noteq> 0 then Inl (protocol_fault BAD_FLAGS 1) else g (px_prof prof) s))" for prof
    by (rule matches_bind [OF matches_u8 [OF r]]) (auto intro: k)
  with True show ?thesis by (simp only: profile_of_px(1) [OF True]) auto
next
  case False
  then show ?thesis by (simp add: profile_of_px(2))
qed

definition same_header :: "decoded_request \<Rightarrow> decoded_request \<Rightarrow> bool" where
  "same_header d d' \<longleftrightarrow> dq_opcode d' = dq_opcode d \<and> dq_txn_id d' = dq_txn_id d \<and> dq_pc d' = dq_pc d \<and> dq_fp d' = dq_fp d
     \<and> dq_profile d' = dq_profile d"

lemma cell_ok_of: "cell_ok (cell_of c) \<Longrightarrow> xcell_ok c"
  by (cases c) (auto simp: cell_ok_def xcell_ok_def fits_def split: if_splits)

lemma rd_cell_of: "rd_cell s = Inr (cell_of c, t) \<Longrightarrow> xcell_ok c"
  using rd_cell_ok cell_ok_of by blast

lemma matches_set:
  "same_reader r s \<Longrightarrow> matches (with_reader (\<lambda>operands d'. same_operands PX_SET_CONSTANT operands d' \<and> same_header d d'))
    (bindE (xr_u32 r) (\<lambda>(offset, r). bindE (xr_f128 r) (\<lambda>(constant, r). bindE (xr_cell r) (\<lambda>(supplied_cell, r).
       Inr (PxSet offset constant supplied_cell, r)))))
    (bindE (rd_u32 s) (\<lambda>(offset, r). bindE (rd_f128 r) (\<lambda>(constant, r). bindE (rd_cell r) (\<lambda>(c, r).
       Inr (d\<lparr>dq_offsets := [offset], dq_constant := constant, dq_cells := [c]\<rparr>, r)))))"
  apply (rule matches_bind [OF matches_u32], assumption, clarsimp)
  apply (rule matches_bind [OF matches_f128], assumption, clarsimp)
  apply (rule matches_bind [OF matches_cell], assumption, clarsimp)
  apply (auto simp: same_header_def dest: rd_f128_fits rd_cell_ok intro: cell_ok_of)
  done

lemma same_cells: "list_all2 same_cell cs ds \<longleftrightarrow> ds = map cell_of cs"
  by (auto simp: list_all2_conv_all_nth intro!: nth_equalityI)

lemma matches_offsets: "same_reader r s \<Longrightarrow> matches (with_reader (=)) (xr_many n xr_u32 r) (rd_many n rd_u32 s)"
  using matches_many [of "(=)" xr_u32 rd_u32, OF matches_u32] by (simp add: list.rel_eq)

lemma matches_cells: "same_reader r s \<Longrightarrow> matches (with_reader (\<lambda>cs ds. ds = map cell_of cs)) (xr_many n xr_cell r) (rd_many n rd_cell s)"
  using matches_many [of same_cell xr_cell rd_cell, OF matches_cell] by (simp add: same_cells)

lemma matches_binary:
  assumes "same_reader r s" "dq_proposed_inverse d = ABSENT" "op = PX_XOR \<or> op = PX_MUL_NATIVE"
  shows "matches (with_reader (\<lambda>operands d'. same_operands op operands d' \<and> same_header d d'))
    (bindE (xr_many 3 xr_u32 r) (\<lambda>(offsets, r). bindE (xr_many 3 xr_cell r) (\<lambda>(cells, r).
     bindE (if op = PX_MUL_NATIVE then xr_cell r else Inr (PxCell False 0, r)) (\<lambda>(proposed, r).
       Inr (PxBinary offsets cells proposed, r)))))
    (bindE (rd_many 3 rd_u32 s) (\<lambda>(offsets, r). bindE (rd_many 3 rd_cell r) (\<lambda>(cells, r).
       let d = d\<lparr>dq_offsets := offsets, dq_cells := cells\<rparr>
       in if px_op op = OP_MUL_NATIVE then bindE (rd_cell r) (\<lambda>(inverse, r). Inr (d\<lparr>dq_proposed_inverse := inverse\<rparr>, r))
          else Inr (d, r))))"
proof -
  have fin: "matches (with_reader (\<lambda>operands d'. same_operands op operands d' \<and> same_header d d'))
    (bindE (if op = PX_MUL_NATIVE then xr_cell r else Inr (PxCell False 0, r)) (\<lambda>(proposed, r). Inr (PxBinary os cs proposed, r)))
    (let d = d\<lparr>dq_offsets := os, dq_cells := map cell_of cs\<rparr>
       in if px_op op = OP_MUL_NATIVE then bindE (rd_cell s) (\<lambda>(inverse, r). Inr (d\<lparr>dq_proposed_inverse := inverse\<rparr>, r))
          else Inr (d, s))"
    if "same_reader r s" "length os = 3" "length cs = 3" "\<forall>c\<in>set cs. xcell_ok c" for r s os cs
    using assms(3)
  proof
    assume "op = PX_XOR"
    with that assms show ?thesis by (simp add: same_header_def ABSENT_def xcell_ok_def)
  next
    assume "op = PX_MUL_NATIVE"
    with that assms show ?thesis
      by (auto intro!: matches_bind [OF matches_cell] simp: Let_def same_header_def dest: rd_cell_of)
  qed
  have ok: "length cs = 3 \<and> (\<forall>c\<in>set cs. xcell_ok c)" if "rd_many 3 rd_cell t = Inr (map cell_of cs, t')" for t t' cs
    using rd_many_all [where rd = rd_cell and P = cell_ok, OF rd_cell_ok that] by (auto intro: cell_ok_of)
  have cells: "matches (with_reader (\<lambda>operands d'. same_operands op operands d' \<and> same_header d d'))
    (bindE (xr_many 3 xr_cell r) (\<lambda>(cells, r).
     bindE (if op = PX_MUL_NATIVE then xr_cell r else Inr (PxCell False 0, r)) (\<lambda>(proposed, r). Inr (PxBinary os cells proposed, r))))
    (bindE (rd_many 3 rd_cell s) (\<lambda>(cells, r).
       let d = d\<lparr>dq_offsets := os, dq_cells := cells\<rparr>
       in if px_op op = OP_MUL_NATIVE then bindE (rd_cell r) (\<lambda>(inverse, r). Inr (d\<lparr>dq_proposed_inverse := inverse\<rparr>, r))
          else Inr (d, r)))" if "same_reader r s" "length os = 3" for r s os
  proof (rule matches_read [OF matches_cells [OF that(1)]])
    fix cs r' ds s' assume "rd_many 3 rd_cell s = Inr (ds, s')" and r': "same_reader r' s'" and ds: "ds = map cell_of cs"
    then have "length cs = 3 \<and> (\<forall>c\<in>set cs. xcell_ok c)" using ok by blast
    then show "matches (with_reader (\<lambda>operands d'. same_operands op operands d' \<and> same_header d d'))
      (bindE (if op = PX_MUL_NATIVE then xr_cell r' else Inr (PxCell False 0, r')) (\<lambda>(proposed, r). Inr (PxBinary os cs proposed, r)))
      (let d = d\<lparr>dq_offsets := os, dq_cells := ds\<rparr>
       in if px_op op = OP_MUL_NATIVE then bindE (rd_cell s') (\<lambda>(inverse, r). Inr (d\<lparr>dq_proposed_inverse := inverse\<rparr>, r))
          else Inr (d, s'))"
      unfolding ds by (intro fin r' that(2)) auto
  qed
  show ?thesis
  proof (rule matches_read [OF matches_offsets [OF assms(1)]])
    fix os r' os' s' assume o: "rd_many 3 rd_u32 s = Inr (os', s')" "os = os'" "same_reader r' s'"
    have "length os = 3" using rd_many_all [where rd = rd_u32 and P = "fits 32", OF rd_u32_fits o(1)] o(2) by simp
    from cells [OF o(3) this] o(2) show "matches (with_reader (\<lambda>operands d'. same_operands op operands d' \<and> same_header d d'))
      (bindE (xr_many 3 xr_cell r') (\<lambda>(cells, r).
       bindE (if op = PX_MUL_NATIVE then xr_cell r else Inr (PxCell False 0, r)) (\<lambda>(proposed, r). Inr (PxBinary os cells proposed, r))))
      (bindE (rd_many 3 rd_cell s') (\<lambda>(cells, r).
         let d = d\<lparr>dq_offsets := os', dq_cells := cells\<rparr>
         in if px_op op = OP_MUL_NATIVE then bindE (rd_cell r) (\<lambda>(inverse, r). Inr (d\<lparr>dq_proposed_inverse := inverse\<rparr>, r))
            else Inr (d, r)))" by simp
  qed
qed

lemma preamble_chain:
  "bindE (read_preamble s d) (\<lambda>(d, s). g d s) =
    bindE (rd_u32 s) (\<lambda>(txn_id, s). bindE (rd_u32 s) (\<lambda>(pc, s). bindE (rd_u32 s) (\<lambda>(fp, s). bindE (rd_u8 s) (\<lambda>(code, s).
      case profile_of code of
        None \<Rightarrow> Inl (fault BAD_PROFILE)
      | Some p \<Rightarrow> bindE (rd_u8 s) (\<lambda>(reserved, s). if reserved \<noteq> 0 then Inl (protocol_fault BAD_FLAGS 1)
          else g (d\<lparr>dq_txn_id := txn_id, dq_pc := pc, dq_fp := fp, dq_profile := p\<rparr>) s)))))"
  unfolding read_preamble_def bindE_assoc
  by (intro bindE_cong refl) (auto simp: bindE_assoc intro!: bindE_cong split: option.split)

lemma matches_preamble:
  assumes "same_reader r s"
    and "\<And>r s txn_id pc fp prof. same_reader r s \<Longrightarrow> fits 32 txn_id \<Longrightarrow> fits 32 pc \<Longrightarrow> fits 32 fp \<Longrightarrow>
      matches S (f txn_id pc fp prof r) (g (d\<lparr>dq_txn_id := txn_id, dq_pc := pc, dq_fp := fp, dq_profile := px_prof prof\<rparr>) s)"
  shows "matches S
    (bindE (xr_u32 r) (\<lambda>(txn_id, r). bindE (xr_u32 r) (\<lambda>(pc, r). bindE (xr_u32 r) (\<lambda>(fp, r). bindE (xr_u8 r) (\<lambda>(code, r).
       if code \<notin> {0, 1} then px_raise PS_BAD_PROFILE 0
       else bindE (xr_u8 r) (\<lambda>(reserved, r). if reserved \<noteq> 0 then px_raise PS_BAD_FLAGS 1
         else f txn_id pc fp (if code = 0 then PP_FORWARD_ONLY else PP_INTERPRETER_COMPAT) r))))))
    (bindE (read_preamble s d) (\<lambda>(d, s). g d s))"
  unfolding preamble_chain
proof (rule matches_read [OF matches_u32 [OF assms(1)]], rule matches_read [OF matches_u32], assumption,
    rule matches_read [OF matches_u32], assumption, rule matches_read [OF matches_u8], assumption)
  fix t t' r1 s1 pc pc' r2 s2 fp fp' r3 s3 r4 s4 and code code' :: int
  assume "rd_u32 s = Inr (t', s1)" "t = t'" "rd_u32 s1 = Inr (pc', s2)" "pc = pc'" "rd_u32 s2 = Inr (fp', s3)" "fp = fp'" "code = code'"
    and r: "same_reader r4 s4"
  then have fits: "fits 32 t'" "fits 32 pc'" "fits 32 fp'" and eq: "t = t'" "pc = pc'" "fp = fp'" "code = code'"
    by (auto dest: rd_u32_fits)
  show "matches S
    (if code \<notin> {0, 1} then px_raise PS_BAD_PROFILE 0
     else bindE (xr_u8 r4) (\<lambda>(reserved, r). if reserved \<noteq> 0 then px_raise PS_BAD_FLAGS 1
       else f t pc fp (if code = 0 then PP_FORWARD_ONLY else PP_INTERPRETER_COMPAT) r))
    (case profile_of code' of
       None \<Rightarrow> Inl (fault BAD_PROFILE)
     | Some p \<Rightarrow> bindE (rd_u8 s4) (\<lambda>(reserved, s). if reserved \<noteq> 0 then Inl (protocol_fault BAD_FLAGS 1)
         else g (d\<lparr>dq_txn_id := t', dq_pc := pc', dq_fp := fp', dq_profile := p\<rparr>) s))"
    unfolding eq by (rule matches_profile [OF r]) (intro assms(2) fits)
qed

lemma matches_decode:
  assumes op: "op \<noteq> PX_RETIRE"
  shows "matches (\<lambda>(txn_id, x). same_request op txn_id x)
    (bindE (xr_u32 (PxReader p)) (\<lambda>(txn_id, r). bindE (px_decode op r) (\<lambda>x. Inr (txn_id, x)))) (decode_request_payload (px_op op) p)"
proof -
  define B where "B = (if op = PX_SET_CONSTANT
      then (\<lambda>(d :: decoded_request) s. bindE (rd_u32 s) (\<lambda>(offset, r). bindE (rd_f128 r) (\<lambda>(constant, r). bindE (rd_cell r) (\<lambda>(c, r).
             Inr (d\<lparr>dq_offsets := [offset], dq_constant := constant, dq_cells := [c]\<rparr>, r)))))
      else (\<lambda>d s. bindE (rd_many 3 rd_u32 s) (\<lambda>(offsets, r). bindE (rd_many 3 rd_cell r) (\<lambda>(cells, r).
             let d = d\<lparr>dq_offsets := offsets, dq_cells := cells\<rparr>
             in if px_op op = OP_MUL_NATIVE then bindE (rd_cell r) (\<lambda>(inverse, r). Inr (d\<lparr>dq_proposed_inverse := inverse\<rparr>, r))
                else Inr (d, r)))))"
  define P where "P = (if op = PX_SET_CONSTANT
      then (\<lambda>r. bindE (xr_u32 r) (\<lambda>(offset, r). bindE (xr_f128 r) (\<lambda>(constant, r). bindE (xr_cell r) (\<lambda>(supplied_cell, r).
              Inr (PxSet offset constant supplied_cell, r)))))
      else (\<lambda>r. bindE (xr_many 3 xr_u32 r) (\<lambda>(offsets, r). bindE (xr_many 3 xr_cell r) (\<lambda>(cells, r).
              bindE (if op = PX_MUL_NATIVE then xr_cell r else Inr (PxCell False 0, r)) (\<lambda>(proposed, r).
                Inr (PxBinary offsets cells proposed, r))))))"
  have e: "decode_request_payload (px_op op) p =
      bindE (read_preamble (Reader p) (DecodedRequest (px_op op))) (\<lambda>(d, r). bindE (B d r) (\<lambda>(d, r). bindE (rd_done r) (\<lambda>_. Inr d)))"
    using op by (cases op) (simp_all add: decode_request_payload_def decode_set_def decode_binary_def Let_def bindE_assoc split_def B_def)
  have px: "px_decode op r = bindE (xr_u32 r) (\<lambda>(pc, r). bindE (xr_u32 r) (\<lambda>(fp, r). bindE (xr_u8 r) (\<lambda>(code, r).
     if code \<notin> {0, 1} then px_raise PS_BAD_PROFILE 0
     else bindE (xr_u8 r) (\<lambda>(reserved, r).
       if reserved \<noteq> 0 then px_raise PS_BAD_FLAGS 1
       else bindE (P r) (\<lambda>(operands, r). bindE (xr_finish r) (\<lambda>_. Inr (pc, fp, if code = 0 then PP_FORWARD_ONLY else PP_INTERPRETER_COMPAT, operands)))))))" for r
    unfolding px_decode_def Let_def by (cases op) (simp_all add: P_def cong: if_cong)
  have body: "matches (with_reader (\<lambda>operands d'. same_operands op operands d' \<and> same_header d d')) (P r) (B d s)"
    if "same_reader r s" "dq_proposed_inverse d = ABSENT" for r s d
    using matches_set [OF that(1), of d] matches_binary [OF that, of op] op by (cases op) (simp_all add: P_def B_def)
  show ?thesis
    unfolding e
  proof -
    have "bindE (xr_u32 (PxReader p)) (\<lambda>(txn_id, r). bindE (px_decode op r) (\<lambda>x. Inr (txn_id, x))) =
      bindE (xr_u32 (PxReader p)) (\<lambda>(txn_id, r). bindE (xr_u32 r) (\<lambda>(pc, r). bindE (xr_u32 r) (\<lambda>(fp, r). bindE (xr_u8 r) (\<lambda>(code, r).
       if code \<notin> {0, 1} then px_raise PS_BAD_PROFILE 0
       else bindE (xr_u8 r) (\<lambda>(reserved, r). if reserved \<noteq> 0 then px_raise PS_BAD_FLAGS 1
         else (\<lambda>txn_id pc fp prof r. bindE (P r) (\<lambda>(operands, r). bindE (xr_finish r) (\<lambda>_. Inr (txn_id, pc, fp, prof, operands))))
           txn_id pc fp (if code = 0 then PP_FORWARD_ONLY else PP_INTERPRETER_COMPAT) r)))))"
      unfolding px by (auto simp: bindE_assoc px_raise_eq split_beta intro!: bindE_cong)
    moreover have "matches (\<lambda>(txn_id, x). same_request op txn_id x) \<dots>
        (bindE (read_preamble (Reader p) (DecodedRequest (px_op op))) (\<lambda>(d, r). bindE (B d r) (\<lambda>(d, r). bindE (rd_done r) (\<lambda>_. Inr d))))"
    proof (rule matches_preamble [OF reader_new], rule matches_read [OF body], assumption)
      fix r s txn_id pc fp prof operands r' d' s'
      assume "fits 32 txn_id" "fits 32 pc" "fits 32 fp" "same_reader r' s'"
        "same_operands op operands d' \<and> same_header (DecodedRequest (px_op op)\<lparr>dq_txn_id := txn_id, dq_pc := pc, dq_fp := fp, dq_profile := px_prof prof\<rparr>) d'"
      then show "matches (\<lambda>(txn_id, x). same_request op txn_id x) (bindE (xr_finish r') (\<lambda>_. Inr (txn_id, pc, fp, prof, operands)))
          (bindE (rd_done s') (\<lambda>_. Inr d'))"
        by (intro matches_bind [OF matches_finish]) (auto simp: same_request_def same_header_def DecodedRequest_def)
    qed (simp add: DecodedRequest_def)
    ultimately show "matches (\<lambda>(txn_id, x). same_request op txn_id x)
      (bindE (xr_u32 (PxReader p)) (\<lambda>(txn_id, r). bindE (px_decode op r) (\<lambda>x. Inr (txn_id, x))))
      (bindE (read_preamble (Reader p) (DecodedRequest (px_op op))) (\<lambda>(d, r). bindE (B d r) (\<lambda>(d, r). bindE (rd_done r) (\<lambda>_. Inr d))))"
      by simp
  qed
qed

section \<open>The frame and the transition\<close>

definition same_frame :: "px_memory \<Rightarrow> frame \<Rightarrow> bool" where
  "same_frame m f \<longleftrightarrow> fr_cells f = (\<lambda>a. map_option cell_of (xm_cells m a)) \<and> fr_writes f = map write_of (xm_writes m)
     \<and> (\<forall>a c. xm_cells m a = Some c \<longrightarrow> xcell_ok c)"

lemma frame_new: "same_frame FrameMemory Frame"
  by (simp add: same_frame_def FrameMemory_def Frame_def)

lemma matches_supply: "same_frame m f \<Longrightarrow> xcell_ok c \<Longrightarrow> matches same_frame (xm_supply a c m) (fr_supply a (cell_of c) f)"
  by (auto simp: same_frame_def xm_supply_def fr_supply_def split: option.splits)

lemma matches_supply_all:
  "same_frame m f \<Longrightarrow> \<forall>c\<in>set cs. xcell_ok c \<Longrightarrow>
     matches same_frame (xm_supply_all (zip xs cs) m) (fr_supply_all (zip xs (map cell_of cs)) f)"
proof (induction xs arbitrary: cs m f)
  case (Cons a xs)
  show ?case
  proof (cases cs)
    case (Cons c cs')
    with Cons.prems show ?thesis by (auto intro!: matches_bind [OF matches_supply] Cons.IH)
  qed (simp add: Cons.prems)
qed simp

lemma matches_at: "same_frame m f \<Longrightarrow> matches (\<lambda>c d. d = cell_of c \<and> xcell_ok c) (xm_at m a) (fr_cell f a)"
  by (auto simp: same_frame_def xm_at_def fr_cell_def split: option.splits)

lemma matches_present: "same_frame m f \<Longrightarrow> matches (=) (xm_present m a) (fr_present f a)"
  unfolding xm_present_def fr_present_def by (rule matches_bind [OF matches_at]) auto

lemma matches_fread: "same_frame m f \<Longrightarrow> matches (\<lambda>v w. v = w \<and> fits 128 v) (xm_read m a) (fr_read f a)"
  unfolding xm_read_def fr_read_def by (rule matches_bind [OF matches_at]) (auto simp: xcell_ok_def)

lemma px_mask: "fits 128 v \<Longrightarrow> v AND PX_MASK128 = v"
  using and_MASK128 [of v] by (simp add: PX_MASK128_def MASK128_def fits_take_bit_iff)

lemma matches_write: "same_frame m f \<Longrightarrow> fits 128 v \<Longrightarrow> matches same_frame (xm_write_once a v m) (fr_write_once a v f)"
  unfolding xm_write_once_def fr_write_once_def Let_def
  by (rule matches_bind [OF matches_at]) (auto simp: px_mask same_frame_def xcell_ok_def fun_eq_iff)

lemma matches_add: "matches (=) (px_checked_add a b) (checked_add a b)"
  by (auto simp: px_checked_add_def checked_add_def PX_U32_MAX_def U32_MAX_def Let_def)

lemma matches_map:
  assumes "\<And>x. matches (=) (f x) (g x)"
  shows "matches (=) (mapE f xs) (mapE g xs)"
  by (induction xs) (auto intro!: matches_bind [OF assms] elim: matches_bind)

lemma supplied_known:
  "xm_supply_all (zip xs cs) m = Inr m' \<Longrightarrow> length xs = length cs \<Longrightarrow> a \<in> set xs \<or> xm_cells m a \<noteq> None \<Longrightarrow> xm_cells m' a \<noteq> None"
proof (induction xs arbitrary: cs m)
  case (Cons x xs)
  then obtain c cs' where cs: "cs = c # cs'" by (cases cs) auto
  with Cons.prems obtain m1 where m1: "xm_supply x c m = Inr m1" "xm_supply_all (zip xs cs') m1 = Inr m'"
    by (auto simp: bindE_eq_Inr)
  then have "xm_cells m1 = (xm_cells m)(x \<mapsto> c)" by (auto simp: xm_supply_def px_raise_eq split: if_splits)
  with Cons.IH [OF m1(2)] Cons.prems cs show ?case by auto
qed simp

lemma matches_solve:
  assumes f: "same_frame m f" and op: "op = PX_XOR \<or> op = PX_MUL_NATIVE"
    and inv: "dq_opcode d = px_op op" "dq_proposed_inverse d = cell_of proposed" "xcell_ok proposed"
  shows "matches (\<lambda>m (f, k). same_frame m f)
    (bindE (xm_read m known_address) (\<lambda>known.
     bindE
       (if op = PX_XOR then bindE (xm_read m c) (\<lambda>r. Inr (r XOR known))
        else if known = 0 then px_raise PS_MUL_BACKSOLVE_ZERO 0
        else if \<not> xc_present proposed \<or> px_multiply known (xc_value proposed) \<noteq> 1
        then px_raise PS_BAD_INVERSE (if \<not> xc_present proposed then 1 else 2)
        else bindE (xm_read m c) (\<lambda>r. Inr (px_multiply r (xc_value proposed))))
       (\<lambda>solved. xm_write_once missing_address solved m)))
    (bindE (fr_read f known_address) (\<lambda>known.
       if dq_opcode d = OP_XOR then
         bindE (fr_read f c) (\<lambda>result. bindE (fr_write_once missing_address (result XOR known) f) (\<lambda>f.
           Inr (f, ba_field_xor ASSUMPTIONS)))
       else if known = 0 then Inl (fault MUL_BACKSOLVE_ZERO)
       else if \<not> cell_present (dq_proposed_inverse d) then Inl (protocol_fault BAD_INVERSE 1)
       else
         let inverse = cell_value (dq_proposed_inverse d) in
         if field_mul known inverse \<noteq> 1 then Inl (protocol_fault BAD_INVERSE 2)
         else bindE (fr_read f c) (\<lambda>result. bindE (fr_write_once missing_address (field_mul result inverse) f) (\<lambda>f.
           Inr (f, 2 * ba_field_mul ASSUMPTIONS)))))"
proof (rule matches_bind [OF matches_fread [OF f]], goal_cases)
  case (1 k k')
  then have k: "k = k'" "fits 128 k'" by auto
  have put: "matches (\<lambda>m (f, k). same_frame m f) (xm_write_once missing_address v m)
      (bindE (fr_write_once missing_address v f) (\<lambda>f. Inr (f, n)))" if "fits 128 v" for v n
    using matches_write [OF f that, of missing_address]
    by (cases "xm_write_once missing_address v m"; cases "fr_write_once missing_address v f") auto
  have p: "fits 128 (xc_value proposed)" using inv(3) by (simp add: xcell_ok_def)
  have get: "matches (\<lambda>m (f, k). same_frame m f)
      (bindE (bindE (xm_read m c) (\<lambda>r. Inr (g r))) (\<lambda>solved. xm_write_once missing_address solved m))
      (bindE (fr_read f c) (\<lambda>result. bindE (fr_write_once missing_address (h result) f) (\<lambda>f. Inr (f, n))))"
    if "\<And>r. fits 128 r \<Longrightarrow> g r = h r \<and> fits 128 (h r)" for g h n
    unfolding bindE_assoc bindE_simps by (rule matches_bind [OF matches_fread [OF f]]) (use that in \<open>auto intro: put\<close>)
  show ?case
    using op
  proof
    assume "op = PX_XOR"
    with k inv show ?thesis by (auto intro!: get)
  next
    assume "op = PX_MUL_NATIVE"
    with k inv p show ?thesis
      by (auto simp: Let_def px_multiply_eq px_raise_eq intro!: get)
  qed
qed

lemma matches_back_solve:
  assumes f: "same_frame m f" and op: "op = PX_XOR \<or> op = PX_MUL_NATIVE" and c: "xm_cells m c \<noteq> None"
    and d: "dq_opcode d = px_op op" "dq_proposed_inverse d = cell_of proposed" "xcell_ok proposed" "dq_profile d = px_prof prof"
  shows "matches (\<lambda>m (f, k). same_frame m f) (px_back_solve op prof proposed a b c m) (back_solve d a b c f)"
  unfolding px_back_solve_def back_solve_def Let_def
proof (rule matches_bind [OF matches_present [OF f]], rule matches_bind [OF matches_present [OF f]], goal_cases)
  case (1 pa pa' pb pb')
  obtain v where v: "xm_cells m c = Some v" using c by blast
  then have k: "xm_present m c = Inr (xc_present v)" "fr_present f c = Inr (xc_present v)"
    using f by (simp_all add: xm_present_def xm_at_def same_frame_def fr_present_def fr_cell_def)
  show ?case
  proof (cases "prof = PP_FORWARD_ONLY")
    case True
    with 1 d(4) f k show ?thesis by auto
  next
    case False
    then have p: "dq_profile d \<noteq> FORWARD_ONLY" using d(4) by simp
    have pp: "pa' = pa" "pb' = pb" using 1 by simp_all
    show ?thesis
    proof (cases "xc_present v \<and> pa = (\<not> pb)")
      case True
      then have t: "(xc_present v \<and> pa = (\<not> pb)) = True" by auto
      show ?thesis
        unfolding pp k bindE_simps
        by (simp only: False p simp_thms if_False if_True t bindE_simps k) (rule matches_solve [unfolded Let_def, OF f op d(1-3)])
    next
      case t: False
      then have t: "(xc_present v \<and> pa = (\<not> pb)) = False" by auto
      show ?thesis unfolding pp k bindE_simps by (simp only: False p simp_thms if_False t bindE_simps k) (simp add: f)
    qed
  qed
qed

text \<open>What both sides stage.\<close>

definition same_staged :: "px_staged \<Rightarrow> staged_transaction \<Rightarrow> bool" where
  "same_staged x s \<longleftrightarrow> st_txn_id s = xs_txn_id x \<and> st_next_pc s = xs_next_pc x \<and> st_next_fp s = xs_next_fp x
     \<and> st_writes s = map write_of (xs_writes x) \<and> st_accesses s = xs_accesses x \<and> st_deferred s = []
     \<and> st_service s = None \<and> st_result_crc s = xs_result_crc x"

definition staging :: "int \<Rightarrow> int \<Rightarrow> int \<Rightarrow> px_memory \<Rightarrow> int list \<Rightarrow> px_staged" where
  "staging txn_id pc fp m accesses =
     \<lparr>xs_txn_id = txn_id, xs_next_pc = pc + 1, xs_next_fp = fp, xs_writes = xm_writes m, xs_accesses = accesses, xs_result_crc = 0\<rparr>"

lemma mapE_length_eq: "mapE f xs = Inr ys \<Longrightarrow> length ys = length xs"
  by (induction xs arbitrary: ys) (auto simp: bindE_eq_Inr)

lemma length3: "length xs = 3 \<Longrightarrow> xs = [xs ! 0, xs ! 1, xs ! 2]"
  by (auto simp: numeral_3_eq_3 length_Suc_conv)

lemma checked_add_small: "pc < 2 ^ 16 \<Longrightarrow> checked_add pc 1 = Inr (pc + 1)" "pc < 2 ^ 16 \<Longrightarrow> px_checked_add pc 1 = Inr (pc + 1)"
  by (simp_all add: checked_add_def px_checked_add_def U32_MAX_def PX_U32_MAX_def Let_def)

lemma matches_binary_step:
  assumes r: "same_request op txn_id (pc, fp, prof, PxBinary offsets cells proposed) d" and pc: "pc < 2 ^ 16"
  shows "matches (\<lambda>(m, accesses) s. same_staged (staging txn_id pc fp m accesses) s)
    (px_execute op fp prof (PxBinary offsets cells proposed))
    (execute_binary d (StagedTransaction txn_id (dq_opcode d) (dq_profile d) pc fp))"
proof -
  let ?s = "StagedTransaction txn_id (dq_opcode d) (dq_profile d) pc fp"
  have d: "dq_offsets d = offsets" "dq_cells d = map cell_of cells" "length offsets = 3" "length cells = 3" "\<forall>c\<in>set cells. xcell_ok c"
    and inv: "dq_opcode d = px_op op" "dq_proposed_inverse d = cell_of proposed" "xcell_ok proposed" "dq_profile d = px_prof prof"
    and op: "op = PX_XOR \<or> op = PX_MUL_NATIVE"
    using r by (auto simp: same_request_def)
  have s: "st_fp ?s = fp" "st_pc ?s = pc" by (simp_all add: StagedTransaction_def)
  show ?thesis
    unfolding px_execute.simps execute_binary_def operands_def d(1,2) s bindE_assoc
  proof (rule matches_bind [OF matches_map [of "px_checked_add fp" "checked_add fp", OF matches_add]], goal_cases)
    case (1 xs ys)
    then have xs: "length xs = 3" and ys: "ys = xs" using d(3) by (auto dest: mapE_length_eq)
    show ?case unfolding ys
    proof (rule matches_bind [OF matches_supply_all [OF frame_new d(5)]], goal_cases)
    case (1 m f)
    let ?a = "xs ! 0" let ?b = "xs ! 1" let ?c = "xs ! 2"
    have "xm_cells m ?c \<noteq> None" using supplied_known [OF 1(1)] xs d(4) by simp
    then have solve: "matches (\<lambda>m (f, k). same_frame m f) (px_back_solve op prof proposed ?a ?b ?c m) (back_solve d ?a ?b ?c f)"
      by (rule matches_back_solve [OF 1(3) op _ inv])
    have wr: "matches (\<lambda>(m, accesses) s. same_staged (staging txn_id pc fp m accesses) s)
        (bindE (xm_write_once ?c v m') (\<lambda>m. Inr (m, xs)))
        (bindE (fr_write_once ?c w f') (\<lambda>frame. Inr (StagedTransaction txn_id o' (dq_profile d) pc fp\<lparr>st_writes := fr_writes frame, st_accesses := [?a, ?b, ?c],
           st_next_pc := pc + 1, st_next_fp := fp, st_execute_cycles := n\<rparr>)))"
      if "same_frame m' f'" "v = w" "fits 128 w" for m' f' v w n o'
      using that xs length3 [OF xs]
      by (auto intro!: matches_bind [OF matches_write] simp: same_staged_def staging_def StagedTransaction_def same_frame_def)
    have case3: "(case xs of [a, b, c] \<Rightarrow> Inr (f, a, b, c) | _ \<Rightarrow> Inl ValueError) = Inr (f, ?a, ?b, ?c)"
      by (subst length3 [OF xs]) simp
    show ?case
      unfolding case3 bindE_simps prod.case Let_def checked_add_small [OF pc]
    proof (rule matches_bind [OF solve], goal_cases)
      case (1 m' y)
      obtain f' n where y: "y = (f', n)" by force
      with 1 have f': "same_frame m' f'" by simp
      show ?case unfolding y prod.case
        by (rule matches_bind [OF matches_fread [OF f']], rule matches_bind [OF matches_fread [OF f']])
          (use op inv(1) in \<open>auto intro!: wr f' simp: px_multiply_eq simp del: One_nat_def\<close>)
    qed
    qed
  qed
qed

lemma matches_set_step:
  assumes r: "same_request op txn_id (pc, fp, prof, PxSet offset constant c) d" and pc: "pc < 2 ^ 16"
  shows "matches (\<lambda>(m, accesses) s. same_staged (staging txn_id pc fp m accesses) s)
    (px_execute op fp prof (PxSet offset constant c))
    (execute_set d (StagedTransaction txn_id (dq_opcode d) (dq_profile d) pc fp))"
proof -
  have d: "dq_offsets d = [offset]" "dq_cells d = [cell_of c]" "dq_constant d = constant" "fits 128 constant" "xcell_ok c"
    using r by (auto simp: same_request_def)
  have fp: "st_fp (StagedTransaction txn_id (dq_opcode d) (dq_profile d) pc fp) = fp"
    "st_pc (StagedTransaction txn_id (dq_opcode d) (dq_profile d) pc fp) = pc" by (simp_all add: StagedTransaction_def)
  show ?thesis
    unfolding px_execute.simps execute_set_def d nthE_def fp
    apply (simp add: d checked_add_small [OF pc] del: One_nat_def)
    apply (rule matches_bind [OF matches_add])
    apply simp
    apply (rule matches_bind [OF matches_supply [OF frame_new d(5)]])
    apply (rule matches_bind [OF matches_write [OF _ d(4)]])
    apply (auto simp: same_staged_def staging_def StagedTransaction_def same_frame_def)
    done
qed

section \<open>The states\<close>

definition same_outstanding :: "px_staged option \<Rightarrow> staged_transaction option \<Rightarrow> bool" where
  "same_outstanding a b \<longleftrightarrow> rel_option same_staged a b"

definition sim :: "packet_executor \<Rightarrow> endpoint \<Rightarrow> bool" where
  "sim x e \<longleftrightarrow> ep_state e = px_ph (px_state x) \<and> ep_profile e = px_prof (px_profile x)
     \<and> ep_committed_pc e = px_committed_pc x \<and> ep_committed_fp e = px_committed_fp x
     \<and> ep_state_valid e = px_state_valid x \<and> ep_retire_seq e = px_retire_seq x
     \<and> ep_last_status e = px_st (px_last_status x) \<and> ep_last_fault e = px_st (px_last_fault x)
     \<and> same_outstanding (px_staged x) (ep_staged e) \<and> ep_rx e = px_rx x \<and> ep_tx e = px_tx x
     \<and> ep_expected e = px_expected x \<and> ep_done e = px_done x \<and> ep_abort_count e = px_abort_count x"

definition px_responded :: "px_status \<Rightarrow> bytes \<Rightarrow> packet_executor \<Rightarrow> packet_executor" where
  "px_responded st p x =
     x\<lparr>px_tx := px_tx x @ response_bytes (px_st st) p, px_last_status := st,
       px_last_fault := (if px_status_code st \<ge> 0x80 then st else px_last_fault x)\<rparr>"

lemma px_to_bytes_ok: "fits (8 * n) v \<Longrightarrow> px_to_bytes n v = Inr (to_le n v)"
  by (simp add: px_to_bytes_def fits_def power_mult)

lemma px_u32_ok: "fits 32 v \<Longrightarrow> px_u32 v = Inr (to_le 4 v)"
  by (simp add: px_u32_def px_to_bytes_ok)

lemma px_emit_ok: "length p < 2 ^ 16 \<Longrightarrow> px_emit st p x = (Inr (), px_responded st p x)"
  using px_to_bytes_ok [of 2 "int (length p)"]
  by (simp add: px_emit_def px_responded_def Let_def fits_def px_u32_ok px_constants response_bytes_def response_body_def wire_constants)

lemma px_fault_ok:
  "fits 32 t \<Longrightarrow> fits 8 d \<Longrightarrow> px_fault st t d x = (Inr (), px_responded st (fault_payload t d) x)"
proof -
  assume t: "fits 32 t" and d: "fits 8 d"
  have "d AND 0xFF = take_bit 8 d" by (simp add: take_bit_eq_mask mask_eq_exp_minus_1)
  with d have "d AND 0xFF = d" by (simp add: fits_take_bit_iff)
  then show ?thesis using px_emit_ok [of "fault_payload t d" st x]
    by (simp add: px_fault_def px_u32_ok [OF t] fault_payload_def)
qed

lemma sim_responded: "sim x e \<Longrightarrow> sim (px_responded st p x) (responded (px_st st) p e)"
  by (simp add: sim_def px_responded_def is_fault_def)

lemma write_of_simps [simp]: "wr_address (write_of w) = xw_address w" "wr_value (write_of w) = xw_value w"
  by (cases w; simp)+

section \<open>An instruction and a retirement\<close>

lemma px_result_payload_ok:
  assumes s: "same_staged x s" and ok: "staged_ok s"
  shows "px_result_payload x = Inr (result_bytes s)"
proof -
  have w: "px_u32 (xw_address w) = Inr (to_le 4 (xw_address w))" "px_to_bytes 16 (xw_value w) = Inr (to_le 16 (xw_value w))"
    if "w \<in> set (xs_writes x)" for w
  proof -
    have "write_of w \<in> set (st_writes s)" using that s by (simp add: same_staged_def)
    then have "fits 32 (wr_address (write_of w))" "fits 128 (wr_value (write_of w))" using ok by (auto simp: staged_ok_def)
    then show "px_u32 (xw_address w) = Inr (to_le 4 (xw_address w))" "px_to_bytes 16 (xw_value w) = Inr (to_le 16 (xw_value w))"
      by (cases w; simp add: px_u32_ok px_to_bytes_ok)+
  qed
  have "catE (map (\<lambda>w. catE [px_u32 (xw_address w), px_to_bytes 16 (xw_value w)]) (xs_writes x)) =
      Inr (concat (map (\<lambda>w. to_le 4 (xw_address w) @ to_le 16 (xw_value w)) (xs_writes x)))"
    by (rule catE_map_ok) (simp add: w)
  moreover have "map (\<lambda>w. to_le 4 (xw_address w) @ to_le 16 (xw_value w)) (xs_writes x) = map write_bytes (st_writes s)"
    using s by (simp add: same_staged_def write_bytes_def)
  moreover have "catE (map px_u32 (xs_accesses x)) = Inr (u32s (xs_accesses x))"
    by (rule catE_map_ok) (use s ok in \<open>auto simp: same_staged_def staged_ok_def px_u32_ok\<close>)
  ultimately show ?thesis
    using s ok by (simp add: px_result_payload_def result_bytes_def same_staged_def staged_ok_def catE_append px_u32_ok)
qed

lemma matches_execute:
  assumes r: "same_request op txn_id (pc, fp, prof, ops) d" and pc: "pc < 2 ^ 16"
  shows "matches (\<lambda>(m, accesses) (s, k). same_staged (staging txn_id pc fp m accesses) s \<and> k = n)
    (px_execute op fp prof ops) (execute d (fresh_staged d) n)"
proof -
  have f: "fresh_staged d = StagedTransaction txn_id (dq_opcode d) (dq_profile d) pc fp"
    using r by (simp add: fresh_staged_def same_request_def)
  show ?thesis
  proof (cases ops)
    case (PxSet offset k c)
    have "dq_opcode d = OP_SET_CONSTANT" using r by (auto simp: same_request_def PxSet)
    then have "execute d (fresh_staged d) n = bindE (execute_set d (fresh_staged d)) (\<lambda>s. Inr (s, n))" by (simp add: execute_def)
    with matches_set_step [OF r [unfolded PxSet] pc] f show ?thesis
      by (cases "px_execute op fp prof ops"; cases "execute_set d (fresh_staged d)") (auto simp: PxSet)
  next
    case (PxBinary offsets cells proposed)
    have "dq_opcode d = OP_XOR \<or> dq_opcode d = OP_MUL_NATIVE" using r by (auto simp: same_request_def PxBinary)
    then have "execute d (fresh_staged d) n = bindE (execute_binary d (fresh_staged d)) (\<lambda>s. Inr (s, n))" by (simp add: execute_def)
    with matches_binary_step [OF r [unfolded PxBinary] pc] f show ?thesis
      by (cases "px_execute op fp prof ops"; cases "execute_binary d (fresh_staged d)") (auto simp: PxBinary)
  qed
qed

lemma px_guard_handle:
  assumes s: "sim x e" and r: "same_request op txn_id (pc, fp, prof, ops) d"
  shows "(\<exists>st. px_guard x pc fp prof = Inl (PacketFault st 0 0) \<and> handle_instruction d e = (Inl (fault (px_st st)), e))
    \<or> px_guard x pc fp prof = Inr () \<and> px_state x = PX_IDLE \<and> pc < 2 ^ 16 \<and> fp < 2 ^ 16 \<and>
      handle_instruction d e = thenM (liftM (execute d (fresh_staged d) (ep_service_seq e)) e) (\<lambda>(staged, service_seq) e.
          let e = e\<lparr>ep_service_seq := service_seq, ep_staged := Some staged\<rparr> in
          case st_service staged of
            Some service \<Rightarrow>
              thenM (liftM (encode_service_request service (st_txn_id staged)) (e\<lparr>ep_state := SERVICE_PENDING\<rparr>))
                (\<lambda>payload e. ep_emit (ResponseFrame SERVICE_REQUIRED payload) e)
          | None \<Rightarrow> finish_transaction staged e)"
  using s r
  by (auto simp: sim_def same_request_def px_guard_def handle_instruction_def fresh_staged_def px_raise_eq wire_constants px_constants Let_def)

lemma px_exc_fault: "px_exc e = ProtocolFault s k \<Longrightarrow> \<exists>st t. e = PacketFault st k t \<and> px_st st = s"
  by (cases e) auto

definition alike :: "packet_executor \<Rightarrow> int \<Rightarrow> ('a px \<times> packet_executor) \<Rightarrow> ('b res \<times> endpoint) \<Rightarrow> bool" where
  "alike x txn_id p q \<longleftrightarrow> sim (snd p) (snd q) \<and>
     (case (fst p, fst q) of
        (Inr _, Inr _) \<Rightarrow> True
      | (Inl (PacketFault st k t), Inl e) \<Rightarrow> e = ProtocolFault (px_st st) k \<and> t = txn_id \<and> fits 8 k
      | _ \<Rightarrow> False)"

lemma sim_instruction:
  assumes s: "sim x e" and inv: "core_inv e" and op: "op \<noteq> PX_RETIRE"
    and d: "decode_request_payload (px_op op) p = Inr d"
  shows "alike x (dq_txn_id d) (px_instruction op (PxReader p) x) (handle_instruction d e)"
proof -
  obtain txn_id r pc fp prof ops where t: "xr_u32 (PxReader p) = Inr (txn_id, r)" "px_decode op r = Inr (pc, fp, prof, ops)"
    and q: "same_request op txn_id (pc, fp, prof, ops) d"
    using matches_decode [OF op, of p] d
    by (cases "bindE (xr_u32 (PxReader p)) (\<lambda>(txn_id, r). bindE (px_decode op r) (\<lambda>x. Inr (txn_id, x)))")
      (auto simp: bindE_eq_Inr)
  have id: "dq_txn_id d = txn_id" "dq_pc d = pc" "dq_fp d = fp" using q by (auto simp: same_request_def)
  have wf: "dq_wf d" "dq_opcode d = px_op op" using decode_request_payload_Inr [OF d] by auto
  have ins: "dq_opcode d \<in> set INSTRUCTION_OPCODES" "dq_opcode d \<noteq> OP_BLAKE3_REQUEST"
    using op wf by (cases op; simp add: INSTRUCTION_OPCODES_def)+
  from px_guard_handle [OF s q] show ?thesis
  proof (elim disjE exE conjE)
    fix st assume "px_guard x pc fp prof = Inl (PacketFault st 0 0)" "handle_instruction d e = (Inl (fault (px_st st)), e)"
    then show ?thesis by (simp add: px_instruction_def t px_with_txn_def alike_def s id)
  next
    assume g: "px_guard x pc fp prof = Inr ()" "px_state x = PX_IDLE" "pc < 2 ^ 16" "fp < 2 ^ 16"
      and h: "handle_instruction d e = thenM (liftM (execute d (fresh_staged d) (ep_service_seq e)) e) (\<lambda>(staged, service_seq) e.
          let e = e\<lparr>ep_service_seq := service_seq, ep_staged := Some staged\<rparr> in
          case st_service staged of
            Some service \<Rightarrow>
              thenM (liftM (encode_service_request service (st_txn_id staged)) (e\<lparr>ep_state := SERVICE_PENDING\<rparr>))
                (\<lambda>payload e. ep_emit (ResponseFrame SERVICE_REQUIRED payload) e)
          | None \<Rightarrow> finish_transaction staged e)"
    note m = matches_execute [OF q g(3), of "ep_service_seq e"]
    show ?thesis
    proof (cases "execute d (fresh_staged d) (ep_service_seq e)")
      case (Inl y)
      then obtain s k where y: "y = ProtocolFault s k" "fits 8 k"
        using execute_raises [OF wf(1) ins(1), of "ep_service_seq e"] by (auto simp: only_faults_def wire_fault_def fits_def)
      then obtain st t where "px_execute op fp prof ops = Inl (PacketFault st k t)" "px_st st = s"
        using m Inl px_exc_fault by (cases "px_execute op fp prof ops") fastforce+
      with y Inl h g show ?thesis by (auto simp: px_instruction_def t px_with_txn_def alike_def \<open>sim x e\<close> id liftM_def)
    next
      case (Inr y)
      obtain s n where y: "y = (s, n)" by force
      then obtain mem accesses where px: "px_execute op fp prof ops = Inr (mem, accesses)"
        and st: "same_staged (staging txn_id pc fp mem accesses) s" "n = ep_service_seq e"
        using m Inr by (cases "px_execute op fp prof ops") auto
      have "0 \<le> ep_service_seq e" using inv by (simp add: core_inv_def)
      from execute_Inr(3) [OF Inr [unfolded y] wf(1) ins(1) _ _ this] ins(2) g id
      have ok: "staged_ok s" "st_service s = None" by auto
      have small: "length (result_bytes s) < 2 ^ 16" using result_bytes_small [OF ok(1)] by simp
      show ?thesis
        using Inr y h px g st ok small px_result_payload_ok [OF st(1) ok(1)] \<open>sim x e\<close>
        by (auto simp: px_instruction_def t px_with_txn_def checked_add_small alike_def Let_def liftM_def finish_transaction_ok px_emit_ok
            staging_def sim_def same_outstanding_def same_staged_def px_responded_def is_fault_def)
    qed
  qed
qed

lemma sim_retire:
  assumes s: "sim x e" and inv: "core_inv e" and seq: "ep_retire_seq e < 2 ^ 32 - 1" and t: "fits 32 (dq_txn_id d)"
  shows "alike x 0 (px_retire (dq_txn_id d) (dq_result_crc d) x) (handle_retire d e)"
proof (cases "px_staged x")
  case None
  then have "ep_staged e = None" using s by (simp add: sim_def same_outstanding_def)
  with None s show ?thesis by (simp add: px_retire_def handle_retire_def alike_def px_raise_eq)
next
  case (Some a)
  then obtain b where b: "ep_staged e = Some b" "same_staged a b" using s by (cases "ep_staged e") (simp_all add: sim_def same_outstanding_def)
  have st: "ep_state e = px_ph (px_state x)" using s by (simp add: sim_def)
  show ?thesis
  proof (cases "px_state x = PX_RESULT_PENDING \<and> dq_txn_id d = xs_txn_id a \<and> dq_result_crc d = xs_result_crc a")
    case True
    then have "decided b" using inv st b by (simp add: core_inv_def)
    then have f: "fits 32 (xs_next_pc a)" "fits 32 (xs_next_fp a)" using b(2) by (auto simp: decided_def staged_ok_def same_staged_def)
    have n: "fits 32 (px_retire_seq x + 1)" "ep_retire_seq e = px_retire_seq x"
      using inv seq s by (auto simp: core_inv_def fits_def sim_def)
    show ?thesis
      using True Some b s t f n
      by (auto simp: px_retire_def handle_retire_def alike_def Let_def px_u32_ok prim_fits px_emit_ok ep_emit_ok liftM_def
          same_staged_def sim_def same_outstanding_def px_responded_def is_fault_def)
  next
    case False
    have "alike x 0 (px_raise PS_BAD_STATE 0 :: unit px, x) (Inl (fault BAD_STATE) :: unit res, e)"
      "alike x 0 (px_raise PS_RETIRE_MISMATCH (if dq_txn_id d \<noteq> xs_txn_id a then 1 else 2) :: unit px, x\<lparr>px_state := PX_IDLE, px_staged := None\<rparr>)
        (Inl (protocol_fault RETIRE_MISMATCH (if dq_txn_id d \<noteq> st_txn_id b then 1 else 2)) :: unit res, ep_discard e)"
      using s b(2) by (auto simp: alike_def px_raise_eq sim_def same_outstanding_def same_staged_def ep_discard_def fits_def)
    with False Some b st show ?thesis
      by (auto simp: px_retire_def handle_retire_def same_staged_def Let_def)
  qed
qed

section \<open>A frame\<close>

lemma xr_u32_first: "xr_u32 (PxReader p) = Inr (t, r) \<Longrightarrow> t = le_int (take 4 p)"
  by (auto simp: xr_u32_def xr_take_def PxReader_def bindE_eq_Inr Let_def pyslice_def px_raise_eq split: if_splits)

lemma decode_txn_id:
  assumes "decode_request_payload (px_op op) p = Inr d"
  shows "dq_txn_id d = le_int (take 4 p)"
proof (cases "op = PX_RETIRE")
  case True
  with assms show ?thesis
    by (auto simp: decode_request_payload_def decode_retire_def DecodedRequest_def bindE_eq_Inr rd_u32_def rd_take_def Reader_def Let_def
        pyslice_def split: if_splits)
next
  case False
  from matches_decode [OF this, of p] assms obtain t r y where "xr_u32 (PxReader p) = Inr (t, r)" "same_request op t y d"
    by (cases "bindE (xr_u32 (PxReader p)) (\<lambda>(txn_id, r). bindE (px_decode op r) (\<lambda>x. Inr (txn_id, x)))")
      (auto simp: bindE_eq_Inr)
  then show ?thesis by (auto simp: same_request_def dest: xr_u32_first)
qed

lemma alike_answer:
  fixes q :: "unit res \<times> endpoint"
  assumes a: "alike x t p q" and t: "fits 32 t'" and tt: "t = t' \<or> t = 0"
  shows "\<exists>x' e'. (case p of (Inl y, x) \<Rightarrow> (case y of PacketFault st k t \<Rightarrow> px_fault st (if t \<noteq> 0 then t else t') k x | _ \<Rightarrow> (Inl y, x)) | (Inr _, x) \<Rightarrow> (Inr (), x)) = (Inr (), x')
    \<and> catchM q (\<lambda>x. case x of ProtocolFault s d \<Rightarrow> Some (ep_fault s t' d) | _ \<Rightarrow> None) = (Inr (), e') \<and> sim x' e'"
proof -
  obtain r x1 where p: "p = (r, x1)" by force
  obtain r' e1 where q: "q = (r', e1)" by force
  from a have s: "sim x1 e1" by (simp add: alike_def p q)
  show ?thesis
  proof (cases r)
    case (Inl y)
    with a obtain st k where y: "y = PacketFault st k t" "r' = Inl (ProtocolFault (px_st st) k)" "fits 8 k"
      by (auto simp: alike_def p q split: px_exn.splits sum.splits)
    with Inl t tt s show ?thesis
      by (auto simp: p q px_fault_ok ep_fault_ok catchM_def intro: sim_responded)
  next
    case (Inr y)
    with a s show ?thesis by (auto simp: alike_def p q catchM_def split: sum.splits)
  qed
qed

lemma matches_retire:
  "matches (\<lambda>(t, c) d. dq_txn_id d = t \<and> dq_result_crc d = c)
    (bindE (xr_u32 (PxReader p)) (\<lambda>(txn_id, r). bindE (xr_u32 r) (\<lambda>(result_crc, r). bindE (xr_finish r) (\<lambda>_. Inr (txn_id, result_crc)))))
    (decode_request_payload OP_RETIRE p)"
proof -
  have e: "decode_request_payload OP_RETIRE p = bindE (rd_u32 (Reader p)) (\<lambda>(txn_id, r). bindE (rd_u32 r) (\<lambda>(result_crc, r).
      bindE (rd_done r) (\<lambda>_. Inr (DecodedRequest OP_RETIRE\<lparr>dq_txn_id := txn_id, dq_result_crc := result_crc\<rparr>))))"
    by (simp add: decode_request_payload_def decode_retire_def bindE_assoc split_def Let_def)
  show ?thesis unfolding e
    by (rule matches_read [OF matches_u32 [OF reader_new]], rule matches_read [OF matches_u32], assumption,
        rule matches_bind [OF matches_finish], assumption, simp)
qed

lemma sim_dispatch_payload:
  assumes s: "sim x e" and inv: "core_inv e" and seq: "ep_retire_seq e < 2 ^ 32 - 1"
    and d: "decode_request_payload (px_op op) p = Inr d"
  shows "\<exists>x' e'. px_dispatch_payload op p x = (Inr (), x') \<and> dispatch_payload (px_op op) p e = (Inr (), e') \<and> sim x' e'"
proof -
  have t: "dq_txn_id d = le_int (take 4 p)" by (rule decode_txn_id [OF d])
  have t32: "fits 32 (le_int (take 4 p))" by (rule fits_le_int) simp
  have wf: "dq_opcode d = px_op op" using decode_request_payload_Inr [OF d] by auto
  show ?thesis
  proof (cases "op = PX_RETIRE")
    case True
    have h: "handle d = handle_retire d" using wf True by (simp add: handle_def)
    have "bindE (xr_u32 (PxReader p)) (\<lambda>(txn_id, r). bindE (xr_u32 r) (\<lambda>(result_crc, r). bindE (xr_finish r) (\<lambda>_. Inr (txn_id, result_crc)))) =
        Inr (dq_txn_id d, dq_result_crc d)"
      using matches_retire [of p] d True
      by (cases "bindE (xr_u32 (PxReader p)) (\<lambda>(txn_id, r). bindE (xr_u32 r) (\<lambda>(result_crc, r). bindE (xr_finish r) (\<lambda>_. Inr (txn_id, result_crc))))") auto
    with alike_answer [OF sim_retire [OF s inv seq, of d] t32] d True t t32 show ?thesis
      by (simp add: px_dispatch_payload_def dispatch_payload_def h Let_def)
  next
    case False
    have h: "handle d = handle_instruction d" using wf False by (cases op) (simp_all add: handle_def)
    from alike_answer [OF sim_instruction [OF s inv False d] t32] d False t show ?thesis
      by (simp add: px_dispatch_payload_def dispatch_payload_def h Let_def)
  qed
qed


text \<open>
  The frames the two sides have to answer alike: those of the four shared opcodes whose payload
  decodes if its length is right, and those of no opcode at all.
\<close>

definition comparable :: "bytes \<Rightarrow> bool" where
  "comparable frame \<longleftrightarrow>
     (case opcode_of (uint (frame ! 2)) of
        None \<Rightarrow> True
      | Some op \<Rightarrow> op \<in> {OP_XOR, OP_MUL_NATIVE, OP_SET_CONSTANT, OP_RETIRE} \<and>
          (announced frame \<noteq> REQUEST_PAYLOAD_BYTES op \<or>
           (case decode_request_payload op (drop 6 (take (6 + announced frame) frame)) of Inl _ \<Rightarrow> False | Inr _ \<Rightarrow> True)))"

lemma opcode_of_iff: "opcode_of c = Some op \<longleftrightarrow> c = opcode_code op"
  using opcode_of_Some opcode_of_code by blast

lemma px_opcode_of_iff: "px_opcode_of c = Some op \<longleftrightarrow> opcode_of c = Some (px_op op)"
  by (cases op) (auto simp: px_opcode_of_def opcode_of_iff)

lemma px_opcode_of_None: "opcode_of c = None \<Longrightarrow> px_opcode_of c = None"
  using px_opcode_of_iff [of c] by (cases "px_opcode_of c") auto

lemma sim_fault:
  assumes "sim x e" "fits 32 t" "fits 8 k"
  shows "\<exists>x' e'. px_fault st t k x = (Inr (), x') \<and> ep_fault (px_st st) t k e = (Inr (), e') \<and> sim x' e'"
  using assms by (auto simp: px_fault_ok ep_fault_ok intro: sim_responded)

lemma sim_dispatch:
  assumes s: "sim x e" and inv: "core_inv e" and seq: "ep_retire_seq e < 2 ^ 32 - 1" and f: "comparable f"
  shows "\<exists>x' e'. px_dispatch f x = (Inr (), x') \<and> ep_dispatch f e = (Inr (), e') \<and> sim x' e'"
proof -
  note fl = sim_fault [OF s fits_0 fits_0]
  have e0: "px_st PS_BAD_CRC = BAD_CRC" "px_st PS_BAD_VERSION = BAD_VERSION" "px_st PS_BAD_FLAGS = BAD_FLAGS"
    "px_st PS_BAD_OPCODE = BAD_OPCODE" "px_st PS_BAD_LENGTH = BAD_LENGTH" by simp_all
  consider (crc) "le_int (drop (length f - 4) f) \<noteq> crc32 (take (6 + announced f) f)"
    | (version) "le_int (drop (length f - 4) f) = crc32 (take (6 + announced f) f)" "uint (f ! 1) \<noteq> 1"
    | (flags) "le_int (drop (length f - 4) f) = crc32 (take (6 + announced f) f)" "uint (f ! 1) = 1" "uint (f ! 3) \<noteq> 0"
    | (ok) "le_int (drop (length f - 4) f) = crc32 (take (6 + announced f) f)" "uint (f ! 1) = 1" "uint (f ! 3) = 0"
    by blast
  then show ?thesis
  proof cases
    case crc
    with fl [of PS_BAD_CRC] show ?thesis by (simp add: px_dispatch_def ep_dispatch_def Let_def px_constants wire_constants announced_def)
  next
    case version
    with fl [of PS_BAD_VERSION] show ?thesis by (simp add: px_dispatch_def ep_dispatch_def Let_def px_constants wire_constants announced_def)
  next
    case flags
    with fl [of PS_BAD_FLAGS] show ?thesis by (simp add: px_dispatch_def ep_dispatch_def Let_def px_constants wire_constants announced_def)
  next
    case ok
    let ?p = "drop 6 (take (6 + announced f) f)"
    have px: "px_dispatch f x = (case px_opcode_of (uint (f ! 2)) of
        None \<Rightarrow> px_fault PS_BAD_OPCODE 0 0 x
      | Some op \<Rightarrow> if announced f \<noteq> PX_PAYLOAD_LENGTH op then px_fault PS_BAD_LENGTH (le_int (take 4 ?p)) 2 x
          else px_dispatch_payload op ?p x)"
      using ok unfolding px_dispatch_def Let_def px_constants announced_def by simp
    have ep: "ep_dispatch f e = (case opcode_of (uint (f ! 2)) of
        None \<Rightarrow> ep_fault BAD_OPCODE 0 0 e
      | Some op \<Rightarrow> if announced f \<noteq> REQUEST_PAYLOAD_BYTES op then ep_fault BAD_LENGTH (available_txn_id op ?p) 2 e
          else dispatch_payload op ?p e)"
      using ok unfolding ep_dispatch_def Let_def wire_constants announced_def by simp
    show ?thesis
    proof (cases "opcode_of (uint (f ! 2))")
      case None
      with fl [of PS_BAD_OPCODE] show ?thesis by (simp add: px ep px_opcode_of_None)
    next
      case (Some op)
      with f obtain pop where op: "op = px_op pop"
        by (auto simp: comparable_def intro: that [of PX_XOR] that [of PX_MUL_NATIVE] that [of PX_SET_CONSTANT] that [of PX_RETIRE])
      then have pop: "px_opcode_of (uint (f ! 2)) = Some pop" using Some by (simp add: px_opcode_of_iff)
      have a: "available_txn_id op ?p = le_int (take 4 ?p)" by (cases pop) (simp_all add: op available_txn_id_def)
      show ?thesis
      proof (cases "announced f = REQUEST_PAYLOAD_BYTES op")
        case True
        then obtain d where "decode_request_payload (px_op pop) ?p = Inr d"
          using f Some by (auto simp: comparable_def op split: sum.splits)
        from sim_dispatch_payload [OF s inv seq this] True show ?thesis by (simp add: px ep Some pop op px_op_length)
      next
        case False
        have "fits 32 (le_int (take 4 ?p))" by (rule fits_le_int) simp
        moreover have "fits 8 (2 :: int)" by (simp add: fits_def)
        ultimately show ?thesis using sim_fault [OF s, of _ 2 PS_BAD_LENGTH] False a op by (simp add: px ep Some pop px_op_length)
      qed
    qed
  qed
qed


section \<open>A byte and a clock edge\<close>

text \<open>The frame a byte would complete.\<close>

definition completes :: "bytes \<Rightarrow> bool" where
  "completes rx \<longleftrightarrow> 6 \<le> length rx \<and> announced rx \<le> 256 \<and> length rx = 10 + announced rx"

lemma sim_accept:
  assumes s: "sim x e" and inv: "ep_inv e" and tx: "ep_tx e = []" and seq: "ep_retire_seq e < 2 ^ 32 - 1"
    and c: "completes (ep_rx e @ [b]) \<longrightarrow> comparable (ep_rx e @ [b])"
  shows "\<exists>x' e'. px_accept b x = (Inr (), x') \<and> ep_accept b e = (Inr (), e') \<and> sim x' e'"
proof -
  have core: "core_inv e" and lane: "lane_inv e" using inv by (simp_all add: ep_inv_def)
  have rx: "px_rx x = ep_rx e" "px_expected x = ep_expected e" using s by (simp_all add: sim_def)
  note fl = sim_fault [OF _ fits_0]
  show ?thesis
  proof (cases "ep_rx e = []")
    case True
    then have "ep_expected e = 0" using lane by (simp add: lane_inv_def)
    moreover have "sim (x\<lparr>px_rx := [b]\<rparr>) (e\<lparr>ep_rx := [b], ep_expected := 0\<rparr>)"
      using s calculation by (simp add: sim_def)
    ultimately show ?thesis
      using True rx fl [OF s fits_0, of PS_BAD_SOF]
      by (simp add: px_accept_def ep_accept_def px_constants wire_constants)
  next
    case False
    define r where "r = ep_rx e @ [b]"
    define n where "n = (if length r = 6 then 10 + announced r else ep_expected e)"
    have short: "length (ep_rx e) < 266" using lane False by (auto simp: lane_inv_def split: if_splits)
    have px: "px_accept b x =
        (if length r = 6 \<and> announced r > 256 then px_fault PS_BAD_LENGTH 0 1 (x\<lparr>px_rx := [], px_expected := 0\<rparr>)
         else if n \<noteq> 0 \<and> length r = n then px_dispatch r (x\<lparr>px_rx := [], px_expected := 0\<rparr>)
         else (Inr (), x\<lparr>px_rx := r, px_expected := n\<rparr>))"
      using False short by (simp add: px_accept_def px_constants Let_def r_def n_def announced_def rx add.commute)
    have ep: "ep_accept b e =
        (if length r = 6 \<and> announced r > 256 then ep_fault BAD_LENGTH 0 1 (e\<lparr>ep_rx := []\<rparr>)
         else if n \<noteq> 0 \<and> length r = n then ep_dispatch r (e\<lparr>ep_rx := [], ep_expected := 0\<rparr>)
         else (Inr (), e\<lparr>ep_rx := r, ep_expected := n\<rparr>))"
      using False by (simp add: ep_accept_def wire_constants Let_def r_def n_def announced_def add.commute)
    have core': "core_inv (e\<lparr>ep_rx := [], ep_expected := 0\<rparr>)"
      using core by (simp add: core_inv_def split: txn_state.splits)
    consider (long) "length r = 6 \<and> announced r > 256" | (full) "\<not> (length r = 6 \<and> announced r > 256)" "n \<noteq> 0 \<and> length r = n"
      | (wait) "\<not> (length r = 6 \<and> announced r > 256)" "\<not> (n \<noteq> 0 \<and> length r = n)" by blast
    then show ?thesis
    proof cases
      case long
      then have "ep_expected e = 0" using lane False by (simp add: lane_inv_def r_def)
      then have "sim (x\<lparr>px_rx := [], px_expected := 0\<rparr>) (e\<lparr>ep_rx := []\<rparr>)" using s by (simp add: sim_def)
      moreover have "fits 8 (1 :: int)" by (simp add: fits_def)
      ultimately show ?thesis using long fl [of _ _ 1 PS_BAD_LENGTH] by (simp add: px ep)
    next
      case full
      have "completes r"
      proof (cases "length (ep_rx e) < 6")
        case True
        with full lane False show ?thesis by (auto simp: completes_def n_def lane_inv_def r_def split: if_splits)
      next
        case long: False
        then have "announced r = announced (ep_rx e)" by (simp add: r_def announced_append)
        with long full lane False show ?thesis by (auto simp: completes_def n_def lane_inv_def r_def)
      qed
      then have "comparable r" using c by (simp add: r_def)
      moreover have "sim (x\<lparr>px_rx := [], px_expected := 0\<rparr>) (e\<lparr>ep_rx := [], ep_expected := 0\<rparr>)" using s by (simp add: sim_def)
      ultimately have "\<exists>x' e'. px_dispatch r (x\<lparr>px_rx := [], px_expected := 0\<rparr>) = (Inr (), x')
          \<and> ep_dispatch r (e\<lparr>ep_rx := [], ep_expected := 0\<rparr>) = (Inr (), e') \<and> sim x' e'"
        using sim_dispatch [OF _ core', of _ r] seq by simp
      then show ?thesis unfolding px ep if_not_P [OF full(1)] if_P [OF full(2)] .
    next
      case wait
      have "sim (x\<lparr>px_rx := r, px_expected := n\<rparr>) (e\<lparr>ep_rx := r, ep_expected := n\<rparr>)" using s by (simp add: sim_def)
      then show ?thesis unfolding px ep if_not_P [OF wait(1)] if_not_P [OF wait(2)] by blast
    qed
  qed
qed

definition same_pins :: "px_pins \<Rightarrow> pins \<Rightarrow> bool" where
  "same_pins p q \<longleftrightarrow> xp_rx_ready p = pn_rx_ready q \<and> xp_tx_valid p = pn_tx_valid q \<and> xp_tx_data p = pn_tx_data q
     \<and> xp_busy p = pn_busy q \<and> xp_fault p = pn_fault q \<and> xp_done_pulse p = pn_done_pulse q"

definition same_lane :: "px_lane_record \<Rightarrow> lane_record \<Rightarrow> bool" where
  "same_lane l k \<longleftrightarrow> same_pins (xl_pins l) (ln_pins k) \<and> xl_rx_committed l = ln_rx_committed k \<and> xl_tx_committed l = ln_tx_committed k"

lemma sim_pins: "sim x e \<Longrightarrow> same_pins (px_pins_of x) (ep_pins e)"
  by (auto simp: sim_def same_pins_def px_pins_of_def ep_pins_def)

lemma sim_reset: "sim px_power_on ep_reset"
  by (simp add: sim_def px_power_on_def ep_reset_def same_outstanding_def DEFAULT_PROFILE_def)

lemma sim_step:
  assumes s: "sim x e" and inv: "ep_inv e" and seq: "ep_retire_seq e < 2 ^ 32 - 1"
    and c: "rx_valid \<Longrightarrow> ep_tx e = [] \<Longrightarrow> completes (ep_rx e @ [word_of_int rx_data]) \<Longrightarrow> comparable (ep_rx e @ [word_of_int rx_data])"
  shows "\<exists>l x' k e'. px_step rx_data rx_valid tx_ready abort reset_n x = (Inr l, x')
    \<and> ep_step rx_data rx_valid tx_ready abort reset_n e = (Inr k, e') \<and> same_lane l k \<and> sim x' e' \<and> ep_inv e'"
proof -
  obtain k e' where ep: "ep_step rx_data rx_valid tx_ready abort reset_n e = (Inr k, e')" "ep_inv e'"
    using ep_step_inv [OF inv seq] by blast
  note p = sim_pins [OF s]
  have "\<exists>l x'. px_step rx_data rx_valid tx_ready abort reset_n x = (Inr l, x') \<and> same_lane l k \<and> sim x' e'"
  proof (cases "\<not> reset_n \<or> abort")
    case True
    have ab: "sim (x\<lparr>px_state := PX_IDLE, px_staged := None, px_rx := [], px_expected := 0, px_tx := [],
        px_done := False, px_last_status := PS_ABORTED, px_last_fault := PS_ABORTED, px_abort_count := px_abort_count x + 1\<rparr>) (ep_abort e)"
      using s by (simp add: sim_def ep_abort_def same_outstanding_def)
    show ?thesis
    proof (cases reset_n)
      case False
      with ep(1) p show ?thesis by (auto simp: px_step_def ep_step_def Let_def same_lane_def sim_reset)
    next
      case r: True
      with ep(1) p ab True show ?thesis by (auto simp: px_step_def ep_step_def Let_def same_lane_def)
    qed
  next
    case False
    define e1 where "e1 = (if ep_tx e \<noteq> [] \<and> tx_ready then e\<lparr>ep_done := False, ep_tx := tl (ep_tx e)\<rparr> else e\<lparr>ep_done := False\<rparr>)"
    define x1 where "x1 = (if px_tx x \<noteq> [] \<and> tx_ready then x\<lparr>px_done := False, px_tx := tl (px_tx x)\<rparr> else x\<lparr>px_done := False\<rparr>)"
    have s1: "sim x1 e1" using s by (auto simp: sim_def x1_def e1_def)
    have tx: "px_tx x = ep_tx e" using s by (simp add: sim_def)
    have inv1: "ep_inv e1" using inv by (auto simp: ep_inv_def e1_def core_inv_lane lane_inv_def)
    have rx1: "ep_rx e1 = ep_rx e" "ep_retire_seq e1 = ep_retire_seq e" by (simp_all add: e1_def)
    have tx1: "ep_tx e1 = []" if "ep_tx e = []" using that by (simp add: e1_def)
    have pe: "px_step rx_data rx_valid tx_ready abort reset_n x =
        thenM (if rx_valid \<and> ep_tx e = [] then px_accept (word_of_int rx_data) x1 else (Inr (), x1))
          (\<lambda>_ x'. (Inr \<lparr>xl_pins = px_pins_of x, xl_rx_committed = (rx_valid \<and> ep_tx e = []), xl_tx_committed = (tx_ready \<and> ep_tx e \<noteq> [])\<rparr>, x'))"
      using False by (auto simp: px_step_def Let_def px_pins_of_def x1_def tx)
    have ee: "ep_step rx_data rx_valid tx_ready abort reset_n e =
        thenM (if rx_valid \<and> ep_tx e = [] then ep_accept (word_of_int rx_data) e1 else (Inr (), e1))
          (\<lambda>_ e'. (Inr \<lparr>ln_pins = ep_pins e, ln_rx_committed = (rx_valid \<and> ep_tx e = []), ln_tx_committed = (tx_ready \<and> ep_tx e \<noteq> [])\<rparr>, e'))"
      using False by (auto simp: ep_step_def Let_def ep_pins_def e1_def)
    have "\<exists>x' e'. (if rx_valid \<and> ep_tx e = [] then px_accept (word_of_int rx_data) x1 else (Inr (), x1)) = (Inr (), x') \<and>
        (if rx_valid \<and> ep_tx e = [] then ep_accept (word_of_int rx_data) e1 else (Inr (), e1)) = (Inr (), e') \<and> sim x' e'"
      using sim_accept [OF s1 inv1, of "word_of_int rx_data"] tx1 seq c s1 rx1 by simp
    with pe ee ep(1) p show ?thesis by (auto simp: same_lane_def)
  qed
  with ep show ?thesis by blast
qed

section \<open>Traces\<close>

text \<open>The pins a host drives at one clock edge: data, valid, ready, abort and reset.\<close>

type_synonym edge = "int \<times> bool \<times> bool \<times> bool \<times> bool"

fun px_trace :: "edge list \<Rightarrow> (packet_executor, px_exn, px_lane_record list) routine" where
  "px_trace [] x = (Inr [], x)"
| "px_trace ((d, v, r, a, n) # es) x =
     thenM (px_step d v r a n x) (\<lambda>l x. thenM (px_trace es x) (\<lambda>ls x. (Inr (l # ls), x)))"

fun ep_trace :: "edge list \<Rightarrow> (endpoint, exn, lane_record list) routine" where
  "ep_trace [] e = (Inr [], e)"
| "ep_trace ((d, v, r, a, n) # es) e =
     thenM (ep_step d v r a n e) (\<lambda>l e. thenM (ep_trace es e) (\<lambda>ls e. (Inr (l # ls), e)))"

text \<open>Every frame completed along the way is one the two sides have to answer alike.\<close>

fun comparable_trace :: "edge list \<Rightarrow> endpoint \<Rightarrow> bool" where
  "comparable_trace [] e \<longleftrightarrow> True"
| "comparable_trace ((d, v, r, a, n) # es) e \<longleftrightarrow>
     (v \<and> ep_tx e = [] \<and> completes (ep_rx e @ [word_of_int d]) \<longrightarrow> comparable (ep_rx e @ [word_of_int d]))
     \<and> comparable_trace es (snd (ep_step d v r a n e))"

lemma retire_seq_step:
  assumes "ep_inv e" "ep_step d v r a n e = (q, e')"
  shows "ep_retire_seq e' \<le> max 0 (ep_retire_seq e) + 1"
proof (cases n)
  case True
  with commit_only_by_matching_retire [of e d v r a q e'] assms show ?thesis
    by (auto simp: committed_def)
next
  case False
  with assms(2) show ?thesis by (auto simp: ep_step_def Let_def ep_reset_def)
qed

lemma traces_alike:
  assumes "sim x e" "ep_inv e" "ep_retire_seq e + int (length es) < 2 ^ 32" "0 \<le> ep_retire_seq e" "comparable_trace es e"
  shows "\<exists>ls x' ks e'. px_trace es x = (Inr ls, x') \<and> ep_trace es e = (Inr ks, e') \<and> list_all2 same_lane ls ks \<and> sim x' e'"
  using assms
proof (induction es arbitrary: x e)
  case (Cons i es)
  obtain d v r a n where i: "i = (d, v, r, a, n)" by (cases i)
  have "ep_retire_seq e < 2 ^ 32 - 1" using Cons.prems(3) by simp
  with sim_step [OF Cons.prems(1,2), of v d r a n] Cons.prems(5) obtain l x1 k e1
    where 1: "px_step d v r a n x = (Inr l, x1)" "ep_step d v r a n e = (Inr k, e1)" "same_lane l k" "sim x1 e1" "ep_inv e1"
    by (auto simp: i)
  have "ep_retire_seq e1 \<le> ep_retire_seq e + 1" using retire_seq_step [OF Cons.prems(2) 1(2)] Cons.prems(4) by simp
  moreover have "0 \<le> ep_retire_seq e1" using 1(5) by (simp add: ep_inv_def core_inv_def fits_def)
  moreover have "comparable_trace es e1" using Cons.prems(5) 1(2) by (simp add: i)
  ultimately have "\<exists>ls x' ks e'. px_trace es x1 = (Inr ls, x') \<and> ep_trace es e1 = (Inr ks, e') \<and> list_all2 same_lane ls ks \<and> sim x' e'"
    using Cons.prems(3) by (intro Cons.IH [OF 1(4,5)]) simp_all
  with 1 show ?case by (auto simp: i)
qed simp

text \<open>
  C21. From power-on, on any sequence of less than \<open>2^32\<close> clock edges whose completed frames are
  comparable, the packet executor drives the pins of the transaction model: the same ready, valid,
  data, busy, fault and done at every edge, the same transfers committed, and neither raises. The
  states correspond at the end. Stalls, aborts, resets, damaged frames and frames of no opcode are
  all included; not comparable are the frames with an opcode the executor does not have, and the
  right-length payloads that do not decode, for which the two sides echo different transaction
  identifiers.
\<close>

theorem packet_executor_simulates:
  assumes "length es < 2 ^ 32" and "comparable_trace es ep_reset"
  shows "\<exists>ls x ks e. px_trace es px_power_on = (Inr ls, x) \<and> ep_trace es ep_reset = (Inr ks, e) \<and>
    list_all2 same_lane ls ks \<and> sim x e"
proof (rule traces_alike [OF sim_reset ep_inv_reset])
  show "ep_retire_seq ep_reset + int (length es) < 2 ^ 32" "0 \<le> ep_retire_seq ep_reset"
    using assms(1) by (simp_all add: ep_reset_def)
qed (rule assms(2))

text \<open>A \<open>RETIRE\<close> frame sent byte by byte to an idle executor, and the fault drained.\<close>

definition sample_edges :: "edge list" where
  "sample_edges = map (\<lambda>b. (uint b, True, True, False, True)) (request_bytes OP_RETIRE (replicate 8 0))
     @ replicate 20 (0, False, True, False, True)"

lemma sample_comparable: "comparable_trace sample_edges ep_reset"
  by code_simp

lemma packet_executor_simulates_witness:
  "\<exists>ls x ks e. px_trace sample_edges px_power_on = (Inr ls, x) \<and> ep_trace sample_edges ep_reset = (Inr ks, e) \<and>
    list_all2 same_lane ls ks \<and> sim x e"
  by (rule packet_executor_simulates [OF _ sample_comparable]) (simp add: sample_edges_def)

end
