(* ===== verification/Stream_Alu.thy ===== *)
theory Stream_Alu
  imports Field_Models Lsc_Drive
begin

text \<open>
  The streaming ALU of the historical MinCore lane: the transaction model \<open>StreamALUModel\<close> of
  sim/model.py, the cycle model \<open>StreamALUCycleModel\<close> with its bit-serial multiplier
  (sim/cycle_model.py), and the lane contract \<open>ProtocolLane\<close> around it (sim/protocol_contract.py).
\<close>

section \<open>The transaction model\<close>

datatype stream_command = XOR128 | MUL128 | SET128 | NONZERO | CLEAR | STATUS

fun stream_command_code :: "stream_command \<Rightarrow> int" where
  "stream_command_code XOR128 = 0x01"
| "stream_command_code MUL128 = 0x02"
| "stream_command_code SET128 = 0x03"
| "stream_command_code NONZERO = 0x04"
| "stream_command_code CLEAR = 0x7D"
| "stream_command_code STATUS = 0x7E"

definition stream_command_of :: "int \<Rightarrow> stream_command option" where
  "stream_command_of c = find (\<lambda>d. stream_command_code d = c) [XOR128, MUL128, SET128, NONZERO, CLEAR, STATUS]"

definition int_to_le_bytes :: "int \<Rightarrow> nat \<Rightarrow> bytes res" where
  "int_to_le_bytes v n = (if v < 0 \<or> v \<ge> push_bit (8 * n) 1 then Inl ValueError else Inr (to_le n v))"

definition le_bytes_to_int :: "bytes \<Rightarrow> int" where
  "le_bytes_to_int data = le_int data"

record command_result =
  cr_output :: bytes
  cr_input_data_beats :: nat
  cr_output_data_beats :: nat
  cr_multiplier_bit_steps :: nat

definition CommandResult :: "bytes \<Rightarrow> nat \<Rightarrow> nat \<Rightarrow> command_result" where
  "CommandResult output input_data_beats output_data_beats =
     \<lparr>cr_output = output, cr_input_data_beats = input_data_beats, cr_output_data_beats = output_data_beats,
      cr_multiplier_bit_steps = 0\<rparr>"

definition STATUS_BYTES :: bytes where
  "STATUS_BYTES = [0x01, 0x01, 0x0F, 0x08]"

definition stream_execute :: "int \<Rightarrow> bytes \<Rightarrow> command_result res" where
  "stream_execute command payload =
     (case stream_command_of command of
        None \<Rightarrow> Inr (CommandResult [0xE0] 0 1)
      | Some XOR128 \<Rightarrow>
          if length payload \<noteq> 32 then Inl ValueError
          else Inr (CommandResult (map (\<lambda>i. payload ! (2 * i) XOR payload ! (2 * i + 1)) [0..<16]) 32 16)
      | Some MUL128 \<Rightarrow>
          if length payload \<noteq> 32 then Inl ValueError
          else
            let a = le_bytes_to_int (take 16 payload); b = le_bytes_to_int (drop 16 payload) in
            bindE (gf_mul_bitserial a b 128 REDUCTION_LOW) (\<lambda>product.
            bindE (int_to_le_bytes product 16) (\<lambda>result.
              Inr ((CommandResult result 32 16)\<lparr>cr_multiplier_bit_steps := 128\<rparr>)))
      | Some SET128 \<Rightarrow>
          if length payload \<noteq> 16 then Inl ValueError else Inr (CommandResult payload 16 16)
      | Some NONZERO \<Rightarrow>
          if length payload \<noteq> 16 then Inl ValueError
          else Inr (CommandResult [if list_ex (\<lambda>b. b \<noteq> 0) payload then 1 else 0] 16 1)
      | Some STATUS \<Rightarrow>
          if payload \<noteq> [] then Inl ValueError else Inr (CommandResult STATUS_BYTES 0 4)
      | Some CLEAR \<Rightarrow>
          if payload \<noteq> [] then Inl ValueError else Inr (CommandResult [] 0 0))"

section \<open>The cycle model\<close>

datatype alu_state =
  ALU_IDLE | XOR_A | XOR_B | SET_STREAM | ZERO_STREAM | MUL_A_RX | MUL_B_RX | MUL_BITS | MUL_TX | STATUS_TX | ERROR_TX

record alu_pins =
  ap_rx_ready :: bool
  ap_tx_valid :: bool
  ap_tx_data :: int
  ap_busy :: bool
  ap_done_pulse :: bool
  ap_fault :: bool

record controls =
  ct_a_valid :: bool
  ct_a_last :: bool
  ct_bit_valid :: bool
  ct_bit_value :: int
  ct_bit_last :: bool
  ct_result_shift :: bool

definition Controls :: controls where
  "Controls = \<lparr>ct_a_valid = False, ct_a_last = False, ct_bit_valid = False, ct_bit_value = 0, ct_bit_last = False,
     ct_result_shift = False\<rparr>"

record bitstream_multiplier =
  bm_a_shift :: int
  bm_acc :: int

definition BitstreamMultiplier :: bitstream_multiplier where
  "BitstreamMultiplier = \<lparr>bm_a_shift = 0, bm_acc = 0\<rparr>"

definition result_byte :: "bitstream_multiplier \<Rightarrow> int" where
  "result_byte m = bm_acc m AND 0xFF"

definition tick :: "bool \<Rightarrow> int \<Rightarrow> bool \<Rightarrow> bool \<Rightarrow> int \<Rightarrow> bool \<Rightarrow> bool \<Rightarrow> bool \<Rightarrow> bitstream_multiplier \<Rightarrow>
    unit res \<times> bitstream_multiplier" where
  "tick a_valid a_byte a_last bit_valid bit_value bit_last result_shift abort m =
     (if abort then (Inr (), m\<lparr>bm_a_shift := 0, bm_acc := 0\<rparr>)
      else if a_valid then
        let m = m\<lparr>bm_a_shift := (drop_bit 8 (bm_a_shift m) OR push_bit 120 (a_byte AND 0xFF)) AND MASK128\<rparr>
        in (Inr (), if a_last then m\<lparr>bm_acc := 0\<rparr> else m)
      else if bit_valid then
        let m = (if bit_value \<noteq> 0 then m\<lparr>bm_acc := bm_acc m XOR bm_a_shift m\<rparr> else m) in
        if \<not> bit_last then
          (case mul_by_x (bm_a_shift m) 128 REDUCTION_LOW of
             Inl x \<Rightarrow> (Inl x, m)
           | Inr v \<Rightarrow> (Inr (), m\<lparr>bm_a_shift := v\<rparr>))
        else (Inr (), m)
      else if result_shift then (Inr (), m\<lparr>bm_acc := drop_bit 8 (bm_acc m)\<rparr>)
      else (Inr (), m))"

record stream_alu =
  al_state :: alu_state
  al_byte_index :: nat
  al_scratch_byte :: int
  al_fault :: bool
  al_mul :: bitstream_multiplier

definition ALU_STATUS :: "int list" where
  "ALU_STATUS = [0x01, 0x01, 0x0F, 0x08]"

definition StreamALUCycleModel :: stream_alu where
  "StreamALUCycleModel =
     \<lparr>al_state = ALU_IDLE, al_byte_index = 0, al_scratch_byte = 0, al_fault = False, al_mul = BitstreamMultiplier\<rparr>"

definition mul_tail_last :: "stream_alu \<Rightarrow> bool" where
  "mul_tail_last s \<longleftrightarrow> drop_bit 1 (al_scratch_byte s) = 1"

text \<open>What the states drive: \<open>rx_ready\<close>, \<open>tx_valid\<close>, \<open>tx_data\<close> and the controls of the multiplier.\<close>

definition alu_drive :: "bool \<Rightarrow> bool \<Rightarrow> int \<Rightarrow> stream_alu \<Rightarrow> (bool \<times> bool \<times> int \<times> controls) res" where
  "alu_drive tx_ready rx_valid rx_data s =
     (case al_state s of
        ALU_IDLE \<Rightarrow> Inr (True, False, 0, Controls)
      | XOR_A \<Rightarrow> Inr (True, False, 0, Controls)
      | XOR_B \<Rightarrow> Inr (tx_ready, rx_valid, al_scratch_byte s XOR (rx_data AND 0xFF), Controls)
      | SET_STREAM \<Rightarrow> Inr (tx_ready, rx_valid, rx_data AND 0xFF, Controls)
      | ZERO_STREAM \<Rightarrow>
          if al_byte_index s = 15 then
            Inr (tx_ready, rx_valid, of_bool (al_scratch_byte s AND 1 \<noteq> 0 \<or> rx_data AND 0xFF \<noteq> 0), Controls)
          else Inr (True, False, 0, Controls)
      | MUL_A_RX \<Rightarrow> Inr (True, False, 0, Controls\<lparr>ct_a_valid := rx_valid, ct_a_last := al_byte_index s = 15\<rparr>)
      | MUL_B_RX \<Rightarrow> Inr (True, False, 0, Controls\<lparr>ct_bit_valid := rx_valid, ct_bit_value := rx_data AND 1\<rparr>)
      | MUL_BITS \<Rightarrow> Inr (False, False, 0, Controls\<lparr>ct_bit_valid := True, ct_bit_value := al_scratch_byte s AND 1,
            ct_bit_last := al_byte_index s = 15 \<and> mul_tail_last s\<rparr>)
      | MUL_TX \<Rightarrow> Inr (False, True, result_byte (al_mul s), Controls\<lparr>ct_result_shift := tx_ready\<rparr>)
      | STATUS_TX \<Rightarrow> bindE (nthE ALU_STATUS (al_byte_index s)) (\<lambda>v. Inr (False, True, v, Controls))
      | ERROR_TX \<Rightarrow> Inr (False, True, 0xE0, Controls))"

definition alu_combinational :: "bool \<Rightarrow> bool \<Rightarrow> int \<Rightarrow> stream_alu \<Rightarrow> (alu_pins \<times> controls) res" where
  "alu_combinational tx_ready rx_valid rx_data s =
     bindE (alu_drive tx_ready rx_valid rx_data s) (\<lambda>(rx_ready, tx_valid, tx_data, controls).
       let rx_fire = (rx_valid \<and> rx_ready);
           tx_fire = (tx_valid \<and> tx_ready);
           last = (al_byte_index s = 15);
           is_done = (rx_fire \<and> al_state s = ALU_IDLE \<and> rx_data = stream_command_code CLEAR \<or>
             tx_fire \<and>
               (al_state s = XOR_B \<and> last \<or> al_state s = SET_STREAM \<and> last \<or> al_state s = ZERO_STREAM \<and> last \<or>
                al_state s = MUL_TX \<and> last \<or> al_state s = STATUS_TX \<and> al_byte_index s = 3 \<or> al_state s = ERROR_TX))
       in Inr (\<lparr>ap_rx_ready = rx_ready, ap_tx_valid = tx_valid, ap_tx_data = tx_data, ap_busy = (al_state s \<noteq> ALU_IDLE),
                ap_done_pulse = is_done, ap_fault = al_fault s\<rparr>, controls))"

text \<open>The sequential block of \<open>step\<close>, the multiplier aside.\<close>

definition alu_command :: "int \<Rightarrow> stream_alu \<Rightarrow> stream_alu" where
  "alu_command rx_data s =
     (if rx_data = stream_command_code XOR128 then s\<lparr>al_state := XOR_A\<rparr>
      else if rx_data = stream_command_code MUL128 then s\<lparr>al_state := MUL_A_RX\<rparr>
      else if rx_data = stream_command_code SET128 then s\<lparr>al_state := SET_STREAM\<rparr>
      else if rx_data = stream_command_code NONZERO then s\<lparr>al_state := ZERO_STREAM\<rparr>
      else if rx_data = stream_command_code STATUS then s\<lparr>al_state := STATUS_TX\<rparr>
      else if rx_data = stream_command_code CLEAR then s\<lparr>al_fault := False\<rparr>
      else s\<lparr>al_fault := True, al_state := ERROR_TX\<rparr>)"

text \<open>Count a byte and go on, or leave for another state after the last one.\<close>

definition alu_count :: "nat \<Rightarrow> alu_state \<Rightarrow> alu_state \<Rightarrow> stream_alu \<Rightarrow> stream_alu" where
  "alu_count final_index final again s =
     (if al_byte_index s = final_index then s\<lparr>al_state := final\<rparr>
      else s\<lparr>al_byte_index := al_byte_index s + 1, al_state := again\<rparr>)"

definition alu_next :: "int \<Rightarrow> bool \<Rightarrow> bool \<Rightarrow> bool \<Rightarrow> stream_alu \<Rightarrow> stream_alu" where
  "alu_next rx_data rx_fire tx_fire abort s =
     (if abort then s\<lparr>al_state := ALU_IDLE, al_byte_index := 0, al_scratch_byte := 0, al_fault := True\<rparr>
      else
        case al_state s of
          ALU_IDLE \<Rightarrow>
            let s = s\<lparr>al_byte_index := 0, al_scratch_byte := 0\<rparr> in
            if rx_fire then alu_command rx_data s else s
        | XOR_A \<Rightarrow> if rx_fire then s\<lparr>al_scratch_byte := rx_data AND 0xFF, al_state := XOR_B\<rparr> else s
        | XOR_B \<Rightarrow> if tx_fire then alu_count 15 ALU_IDLE XOR_A s else s
        | SET_STREAM \<Rightarrow> if tx_fire then alu_count 15 ALU_IDLE SET_STREAM s else s
        | ZERO_STREAM \<Rightarrow>
            if al_byte_index s = 15 then if tx_fire then s\<lparr>al_state := ALU_IDLE\<rparr> else s
            else if rx_fire then
              s\<lparr>al_scratch_byte := of_bool (al_scratch_byte s AND 1 \<noteq> 0 \<or> rx_data AND 0xFF \<noteq> 0),
                al_byte_index := al_byte_index s + 1\<rparr>
            else s
        | MUL_A_RX \<Rightarrow>
            if rx_fire then
              if al_byte_index s = 15 then s\<lparr>al_byte_index := 0, al_state := MUL_B_RX\<rparr>
              else s\<lparr>al_byte_index := al_byte_index s + 1\<rparr>
            else s
        | MUL_B_RX \<Rightarrow>
            if rx_fire then s\<lparr>al_scratch_byte := 0x80 OR drop_bit 1 (rx_data AND 0xFF), al_state := MUL_BITS\<rparr> else s
        | MUL_BITS \<Rightarrow>
            if mul_tail_last s then
              if al_byte_index s = 15 then s\<lparr>al_byte_index := 0, al_state := MUL_TX\<rparr>
              else s\<lparr>al_byte_index := al_byte_index s + 1, al_state := MUL_B_RX\<rparr>
            else s\<lparr>al_scratch_byte := drop_bit 1 (al_scratch_byte s)\<rparr>
        | MUL_TX \<Rightarrow> if tx_fire then alu_count 15 ALU_IDLE MUL_TX s else s
        | STATUS_TX \<Rightarrow> if tx_fire then alu_count 3 ALU_IDLE STATUS_TX s else s
        | ERROR_TX \<Rightarrow> if tx_fire then s\<lparr>al_state := ALU_IDLE\<rparr> else s)"

definition alu_step :: "int \<Rightarrow> bool \<Rightarrow> bool \<Rightarrow> bool \<Rightarrow> (stream_alu, exn, alu_pins) routine" where
  "alu_step rx_data rx_valid tx_ready abort s =
     (case alu_combinational tx_ready rx_valid rx_data s of
        Inl x \<Rightarrow> (Inl x, s)
      | Inr (pins, controls) \<Rightarrow>
          let rx_fire = (rx_valid \<and> ap_rx_ready pins);
              tx_fire = (ap_tx_valid pins \<and> tx_ready);
              s' = alu_next rx_data rx_fire tx_fire abort s;
              (r, m) = tick (ct_a_valid controls) rx_data (ct_a_last controls) (ct_bit_valid controls)
                (ct_bit_value controls) (ct_bit_last controls) (ct_result_shift controls) abort (al_mul s')
          in (map_sum id (\<lambda>_. pins) r, s'\<lparr>al_mul := m\<rparr>))"

section \<open>The lane contract\<close>

record cycle_record =
  cy_pins :: alu_pins
  cy_rx_committed :: bool
  cy_tx_committed :: bool

text \<open>\<open>ProtocolLane\<close> keeps the core and nothing else.\<close>

definition protocol_lane_step :: "int \<Rightarrow> bool \<Rightarrow> bool \<Rightarrow> bool \<Rightarrow> bool \<Rightarrow> (stream_alu, exn, cycle_record) routine" where
  "protocol_lane_step rx_data rx_valid tx_ready abort reset_n core =
     (if \<not> reset_n then
        (case alu_combinational tx_ready rx_valid rx_data core of
           Inl x \<Rightarrow> (Inl x, core)
         | Inr (pins, _) \<Rightarrow> (Inr \<lparr>cy_pins = pins, cy_rx_committed = False, cy_tx_committed = False\<rparr>, StreamALUCycleModel))
      else
        thenM (alu_step rx_data rx_valid tx_ready abort core) (\<lambda>pins core.
          (Inr \<lparr>cy_pins = pins,
                cy_rx_committed = (rx_valid \<and> ap_rx_ready pins \<and> \<not> abort),
                cy_tx_committed = (ap_tx_valid pins \<and> tx_ready \<and> \<not> abort)\<rparr>, core)))"

end
