(* ===== verification/Stream_Alu_Lane.thy ===== *)
theory Stream_Alu_Lane
  imports Stream_Alu
begin

text \<open>
  The cycle model of the streaming ALU implements its transaction model: a host that offers and
  takes bytes at whatever edges it likes collects the output of the command, in an exactly
  bounded number of edges. The proof follows one command through the states of the machine.
\<close>

section \<open>A host on the lane\<close>

text \<open>
  A host that sends the bytes \<open>inp\<close> and collects what the lane returns. At each clock edge it
  may or may not offer the next byte, and may or may not take one.
\<close>

fun lane_run :: "(bool \<times> bool) list \<Rightarrow> bytes \<Rightarrow> bytes \<Rightarrow> (stream_alu, exn, bytes \<times> bytes) routine" where
  "lane_run [] inp out s = (Inr (inp, out), s)"
| "lane_run ((offer, take_one) # sched) inp out s =
     thenM (protocol_lane_step (if inp = [] then 0 else uint (hd inp)) (offer \<and> inp \<noteq> []) take_one False True s)
       (\<lambda>r s. lane_run sched (if cy_rx_committed r then tl inp else inp)
          (if cy_tx_committed r then out @ [word_of_int (ap_tx_data (cy_pins r))] else out) s)"

section \<open>Bits and bytes\<close>

lemma and_255: "v AND 0xFF = v mod (256 :: int)"
  using take_bit_eq_mask [of 8 v] by (simp add: mask_eq_exp_minus_1 take_bit_eq_mod)

lemma byte_and_255 [simp]: "uint (b :: byte) AND 0xFF = uint b"
  by (simp add: and_255)

lemma or_push_add: "fits n x \<Longrightarrow> x OR push_bit n y = x + push_bit n (y :: int)"
  using concat_bit_eq [of n x y] by (simp add: concat_bit_def fits_take_bit_iff)

lemma le_int_take_Suc: "i < length p \<Longrightarrow> le_int (take (Suc i) p) = le_int (take i p) + push_bit (8 * i) (uint (p ! i))"
proof -
  assume i: "i < length p"
  have "(256 :: int) ^ i = 2 ^ (8 * i)" by (simp add: power_mult)
  with i show ?thesis by (simp add: take_Suc_conv_app_nth le_int_append push_bit_eq_mult mult.commute)
qed

lemma shift_in_byte:
  assumes A: "fits 128 A" "drop_bit (128 - 8 * i) A = le_int (take i p)" and i: "i < 16" "i < length p"
  shows "drop_bit (128 - 8 * Suc i) ((drop_bit 8 A OR push_bit 120 (uint (p ! i) AND 0xFF)) AND MASK128) = le_int (take (Suc i) p)"
proof -
  have f: "fits 128 (drop_bit 8 A OR push_bit 120 (uint (p ! i)))"
  proof (rule fitsI_bit)
    fix k assume "bit (drop_bit 8 A OR push_bit 120 (uint (p ! i))) k"
    then consider "bit A (8 + k)" | "120 \<le> k" "bit (uint (p ! i)) (k - 120)" by (auto simp: bit_simps)
    then show "k < 128" by cases (auto dest: fits_bit [OF A(1)] fits_bit [OF fits_byte])
  qed (use A(1) in \<open>simp add: fits_def\<close>)
  have d: "drop_bit (120 - 8 * i) (push_bit 120 (uint (p ! i))) = push_bit (8 * i) (uint (p ! i))"
  proof -
    have "(120 :: nat) - (120 - 8 * i) = 8 * i" "(120 - 8 * i) - 120 = 0" using i by simp_all
    then show ?thesis by (subst drop_bit_push_bit) simp
  qed
  have e: "drop_bit (120 - 8 * i) (drop_bit 8 A) = le_int (take i p)"
    using A(2) i by (simp add: drop_bit_drop_bit)
  have "drop_bit (120 - 8 * i) (drop_bit 8 A OR push_bit 120 (uint (p ! i))) = le_int (take i p) OR push_bit (8 * i) (uint (p ! i))"
    by (simp only: drop_bit_or e d)
  also have "\<dots> = le_int (take (Suc i) p)"
    using i by (simp add: le_int_take_Suc or_push_add fits_le_int)
  finally show ?thesis using f by (simp add: and_MASK128 fits_take_bit_iff)
qed

lemma bit_le_int: "i < length p \<Longrightarrow> k < 8 \<Longrightarrow> bit (le_int p) (8 * i + k) \<longleftrightarrow> bit (uint (p ! i)) k"
proof -
  assume i: "i < length p" and k: "k < 8"
  have "(256 :: int) ^ i = 2 ^ (8 * i)" by (simp add: power_mult)
  then have "le_int p = le_int (take i p) + push_bit (8 * i) (le_int (drop i p))"
    using le_int_append [of "take i p" "drop i p"] i by (simp add: push_bit_eq_mult mult.commute)
  also have "\<dots> = le_int (take i p) OR push_bit (8 * i) (le_int (drop i p))"
    by (rule or_push_add [symmetric], rule fits_le_int) (use i in simp)
  finally have "bit (le_int p) (8 * i + k) \<longleftrightarrow> bit (le_int (drop i p)) k"
    using fits_bit [of "8 * i" "le_int (take i p)" "8 * i + k"] fits_le_int [of "take i p" "8 * i"] i by (auto simp: bit_simps)
  also have "drop i p = p ! i # drop (Suc i) p" using i by (simp add: Cons_nth_drop_Suc)
  also have "le_int (p ! i # drop (Suc i) p) = uint (p ! i) OR push_bit 8 (le_int (drop (Suc i) p))"
    using or_push_add [OF fits_byte, of "p ! i" "le_int (drop (Suc i) p)"] by (simp add: push_bit_eq_mult mult.commute)
  finally show ?thesis using k by (auto simp: bit_simps)
qed

text \<open>The scratch register with \<open>k\<close> bits of a byte consumed: the rest of the byte under a sentinel.\<close>

definition sentinel :: "byte \<Rightarrow> nat \<Rightarrow> int" where
  "sentinel b k = 2 ^ (8 - k) + drop_bit k (uint b)"

lemma drop_byte: "k \<le> 8 \<Longrightarrow> fits (8 - k) (drop_bit k (uint (b :: byte)))"
  by (rule fitsI_bit) (auto simp: bit_simps dest!: bit_imp_le_length)

lemma sentinel_first: "0x80 OR drop_bit 1 (uint b AND 0xFF) = sentinel b 1"
proof -
  have "drop_bit 1 (uint b) OR push_bit 7 1 = drop_bit 1 (uint b) + push_bit 7 (1::int)"
    by (rule or_push_add) (use drop_byte [of 1 b] in simp)
  then show ?thesis by (simp add: sentinel_def or.commute)
qed

lemma sentinel_shift: "k < 8 \<Longrightarrow> drop_bit 1 (sentinel b k) = sentinel b (Suc k)"
proof -
  assume k: "k < 8"
  then have "(2 :: int) ^ (8 - k) = 2 * 2 ^ (8 - Suc k)" by (simp flip: power_Suc add: Suc_diff_Suc)
  then show ?thesis by (simp add: sentinel_def drop_bit_Suc drop_bit_half)
qed

lemma sentinel_bit: "k < 8 \<Longrightarrow> sentinel b k AND 1 \<noteq> 0 \<longleftrightarrow> bit (uint b) k"
  by (auto simp: sentinel_def bit_iff_odd_drop_bit and_one_eq even_iff_mod_2_eq_zero [symmetric])

lemma sentinel_end: "k < 8 \<Longrightarrow> drop_bit 1 (sentinel b k) = 1 \<longleftrightarrow> k = 7"
proof -
  assume k: "k < 8"
  show ?thesis
  proof (cases "k = 7")
    case True
    have "0 \<le> drop_bit 8 (uint b)" "drop_bit 8 (uint b) < 1" using drop_byte [of 8 b] by (simp_all add: fits_def)
    then have "drop_bit 8 (uint b) = 0" by linarith
    with True show ?thesis by (simp only: sentinel_shift) (simp add: sentinel_def)
  next
    case False
    with k have "(2 :: int) ^ 1 \<le> 2 ^ (8 - Suc k)" by (intro power_increasing) auto
    then have "(2 :: int) \<le> 2 ^ (8 - Suc k)" by simp
    moreover have "0 \<le> drop_bit (Suc k) (uint b)" by simp
    ultimately have "sentinel b (Suc k) \<noteq> 1" unfolding sentinel_def by linarith
    then show ?thesis using False k by (simp only: sentinel_shift)
  qed
qed

lemma sentinel_fits: "1 \<le> k \<Longrightarrow> k \<le> 7 \<Longrightarrow> 2 \<le> sentinel b k \<and> sentinel b k < 256"
proof -
  assume k: "1 \<le> k" "k \<le> 7"
  then have "(2 :: int) ^ 1 \<le> 2 ^ (8 - k)" "(2 :: int) ^ (8 - k) \<le> 2 ^ 7" by (intro power_increasing; simp)+
  then have "(2 :: int) \<le> 2 ^ (8 - k)" "(2 :: int) ^ (8 - k) \<le> 128" by simp_all
  moreover have "0 \<le> drop_bit k (uint b)" "drop_bit k (uint b) < 2 ^ (8 - k)" using drop_byte [of k b] k by (simp_all add: fits_def)
  ultimately show ?thesis unfolding sentinel_def by linarith
qed

lemma nth_to_le: "i < n \<Longrightarrow> to_le n v ! i = word_of_int (drop_bit (8 * i) v)"
proof (induction n arbitrary: v i)
  case (Suc n)
  then show ?case by (cases i) (simp_all add: drop_bit_eq_div zdiv_zmult2_eq power_add)
qed simp

section \<open>Progress of a command\<close>

text \<open>The register contents every reachable state keeps, and those the states add.\<close>

definition alu_inv :: "stream_alu \<Rightarrow> bool" where
  "alu_inv s \<longleftrightarrow> fits 128 (bm_a_shift (al_mul s)) \<and> fits 128 (bm_acc (al_mul s)) \<and>
     (al_state s = STATUS_TX \<longrightarrow> al_byte_index s \<le> 3) \<and>
     (al_state s \<noteq> ALU_IDLE \<longrightarrow> al_byte_index s \<le> 15) \<and>
     (al_state s = MUL_BITS \<longrightarrow> 2 \<le> al_scratch_byte s \<and> al_scratch_byte s < 256)"

abbreviation multiplicand :: "bytes \<Rightarrow> int" where
  "multiplicand p \<equiv> le_int (take 16 p)"

abbreviation multiplier_of :: "bytes \<Rightarrow> int" where
  "multiplier_of p \<equiv> le_int (drop 16 p)"

text \<open>The multiplier with the lowest \<open>n\<close> bits of the second operand consumed.\<close>

definition partial_product :: "bytes \<Rightarrow> nat \<Rightarrow> int" where
  "partial_product p n = xtimes_sum 128 0x87 (multiplicand p) (multiplier_of p) n"

definition shifted :: "bytes \<Rightarrow> nat \<Rightarrow> int" where
  "shifted p n = (xtimes 128 0x87 ^^ n) (multiplicand p)"

definition xor_output :: "bytes \<Rightarrow> bytes" where
  "xor_output p = map (\<lambda>i. p ! (2 * i) XOR p ! (2 * i + 1)) [0..<16]"

definition mul_output :: "bytes \<Rightarrow> bytes" where
  "mul_output p = to_le 16 (partial_product p 128)"

text \<open>The payload a command takes, the bytes it answers and the clock edges it needs.\<close>

definition stream_payload_bytes :: "stream_command option \<Rightarrow> nat" where
  "stream_payload_bytes c = (case c of Some XOR128 \<Rightarrow> 32 | Some MUL128 \<Rightarrow> 32 | Some SET128 \<Rightarrow> 16 | Some NONZERO \<Rightarrow> 16 | _ \<Rightarrow> 0)"

definition stream_output :: "stream_command option \<Rightarrow> bytes \<Rightarrow> bytes" where
  "stream_output c p =
     (case c of Some XOR128 \<Rightarrow> xor_output p | Some MUL128 \<Rightarrow> mul_output p | Some SET128 \<Rightarrow> p
      | Some NONZERO \<Rightarrow> [if list_ex (\<lambda>b. b \<noteq> 0) p then 1 else 0] | Some STATUS \<Rightarrow> STATUS_BYTES | Some CLEAR \<Rightarrow> []
      | None \<Rightarrow> [0xE0])"

definition stream_cycles :: "stream_command option \<Rightarrow> nat" where
  "stream_cycles c =
     (case c of Some XOR128 \<Rightarrow> 33 | Some MUL128 \<Rightarrow> 161 | Some SET128 \<Rightarrow> 17 | Some NONZERO \<Rightarrow> 17 | Some STATUS \<Rightarrow> 5
      | Some CLEAR \<Rightarrow> 1 | None \<Rightarrow> 2)"

text \<open>
  The state of the machine, of the input still to send and of the output collected, while the
  command byte \<open>b\<close> with payload \<open>p\<close> is under way, with the edges still to go.
\<close>

definition alu_phase :: "byte \<Rightarrow> bytes \<Rightarrow> stream_alu \<Rightarrow> bytes \<Rightarrow> bytes \<Rightarrow> nat \<Rightarrow> bool" where
  "alu_phase b p s inp out w =
     (let i = al_byte_index s; c = stream_command_of (uint b) in
      case al_state s of
        ALU_IDLE \<Rightarrow> inp = b # p \<and> out = [] \<and> w = stream_cycles c \<or> inp = [] \<and> out = stream_output c p \<and> w = 0
      | XOR_A \<Rightarrow> c = Some XOR128 \<and> inp = drop (2 * i) p \<and> out = take i (xor_output p) \<and> w = 2 * (16 - i)
      | XOR_B \<Rightarrow> c = Some XOR128 \<and> inp = drop (2 * i + 1) p \<and> out = take i (xor_output p) \<and> w = 2 * (15 - i) + 1 \<and>
          al_scratch_byte s = uint (p ! (2 * i))
      | SET_STREAM \<Rightarrow> c = Some SET128 \<and> inp = drop i p \<and> out = take i p \<and> w = 16 - i
      | ZERO_STREAM \<Rightarrow> c = Some NONZERO \<and> inp = drop i p \<and> out = [] \<and> w = 16 - i \<and>
          al_scratch_byte s = of_bool (list_ex (\<lambda>b. b \<noteq> 0) (take i p))
      | MUL_A_RX \<Rightarrow> c = Some MUL128 \<and> inp = drop i p \<and> out = [] \<and> w = (16 - i) + 144 \<and>
          drop_bit (128 - 8 * i) (bm_a_shift (al_mul s)) = le_int (take i p)
      | MUL_B_RX \<Rightarrow> c = Some MUL128 \<and> inp = drop (16 + i) p \<and> out = [] \<and> w = 8 * (16 - i) + 16 \<and>
          al_mul s = \<lparr>bm_a_shift = shifted p (8 * i), bm_acc = partial_product p (8 * i)\<rparr>
      | MUL_BITS \<Rightarrow> c = Some MUL128 \<and> inp = drop (17 + i) p \<and> out = [] \<and>
          (\<exists>k. 1 \<le> k \<and> k \<le> 7 \<and> w = 8 * (16 - i) - k + 16 \<and> al_scratch_byte s = sentinel (p ! (16 + i)) k \<and>
            al_mul s = \<lparr>bm_a_shift = shifted p (8 * i + k), bm_acc = partial_product p (8 * i + k)\<rparr>)
      | MUL_TX \<Rightarrow> c = Some MUL128 \<and> inp = [] \<and> out = take i (mul_output p) \<and> w = 16 - i \<and>
          bm_acc (al_mul s) = drop_bit (8 * i) (partial_product p 128)
      | STATUS_TX \<Rightarrow> c = Some STATUS \<and> inp = [] \<and> out = take i STATUS_BYTES \<and> w = 4 - i
      | ERROR_TX \<Rightarrow> c = None \<and> inp = [] \<and> out = [] \<and> w = 1)"

definition alu_at :: "byte \<Rightarrow> bytes \<Rightarrow> stream_alu \<Rightarrow> bytes \<Rightarrow> bytes \<Rightarrow> nat \<Rightarrow> bool" where
  "alu_at b p s inp out w \<longleftrightarrow> alu_inv s \<and> alu_phase b p s inp out w"

text \<open>One clock edge of the host: progress on an edge that offers and takes, never a step back.\<close>

definition alu_advances :: "byte \<Rightarrow> bytes \<Rightarrow> stream_alu \<Rightarrow> bytes \<Rightarrow> bytes \<Rightarrow> nat \<Rightarrow> bool \<Rightarrow> bool \<Rightarrow> bool" where
  "alu_advances b p s inp out w offer take_one \<longleftrightarrow>
     (\<exists>r s' w'. protocol_lane_step (if inp = [] then 0 else uint (hd inp)) (offer \<and> inp \<noteq> []) take_one False True s = (Inr r, s')
       \<and> alu_at b p s' (if cy_rx_committed r then tl inp else inp)
           (if cy_tx_committed r then out @ [word_of_int (ap_tx_data (cy_pins r))] else out) w'
       \<and> w' \<le> w \<and> w \<le> Suc w' \<and> (offer \<and> take_one \<and> 0 < w \<longrightarrow> w = Suc w'))"

lemma multiplicand_fits: "fits 128 (multiplicand p)"
  by (rule fits_le_int) simp

lemma fits_poly: "fits 128 (0x87 :: int)"
  by (simp add: fits_def)

lemma shifted_fits: "fits 128 (shifted p n)"
  by (simp add: shifted_def fits_xtimes_pow multiplicand_fits fits_poly)

lemma partial_product_fits: "fits 128 (partial_product p n)"
  by (simp add: partial_product_def fits_xtimes_sum multiplicand_fits fits_poly)

lemma tick_bit:
  assumes "al_mul s = \<lparr>bm_a_shift = shifted p n, bm_acc = partial_product p n\<rparr>" and "v \<noteq> 0 \<longleftrightarrow> bit (multiplier_of p) n"
  shows "tick False x l True v False z False (al_mul s) = (Inr (), \<lparr>bm_a_shift = shifted p (Suc n), bm_acc = partial_product p (Suc n)\<rparr>)"
proof -
  have "mul_by_x (shifted p n) 128 REDUCTION_LOW = Inr (shifted p (Suc n))"
    using mul_by_x_eq [OF shifted_fits] by (simp add: shifted_def REDUCTION_LOW_def)
  with assms show ?thesis
    by (simp add: tick_def partial_product_def shifted_def [of p n, symmetric])
qed

lemma tick_last_bit:
  assumes "al_mul s = \<lparr>bm_a_shift = shifted p n, bm_acc = partial_product p n\<rparr>" and "v \<noteq> 0 \<longleftrightarrow> bit (multiplier_of p) n"
  shows "tick False x l True v True z False (al_mul s) = (Inr (), \<lparr>bm_a_shift = shifted p n, bm_acc = partial_product p (Suc n)\<rparr>)"
  using assms by (simp add: tick_def partial_product_def shifted_def [of p n, symmetric])

lemma tick_quiet [simp]: "tick False x l False v l' False False m = (Inr (), m)"
  by (simp add: tick_def)

lemmas alu_edge_defs = alu_advances_def protocol_lane_step_def alu_step_def alu_combinational_def alu_drive_def Controls_def
  alu_next_def alu_at_def alu_inv_def alu_phase_def Let_def

lemma advances_xor_a:
  assumes "alu_at b p s inp out w" "al_state s = XOR_A" "length p = 32"
  shows "alu_advances b p s inp out w offer take_one"
  using assms
  by (auto simp: alu_edge_defs hd_drop_conv_nth drop_Suc [symmetric] tl_drop)

lemma advances_xor_b:
  assumes "alu_at b p s inp out w" "al_state s = XOR_B" "length p = 32"
  shows "alu_advances b p s inp out w offer take_one"
proof -
  let ?i = "al_byte_index s"
  have i: "?i \<le> 15" using assms by (simp add: alu_at_def alu_inv_def)
  have d: "drop (2 * ?i + 1) p = p ! (2 * ?i + 1) # drop (2 * ?i + 2) p" using i assms(3) by (simp add: Cons_nth_drop_Suc)
  have o: "take (Suc ?i) (xor_output p) = take ?i (xor_output p) @ [p ! (2 * ?i) XOR p ! (2 * ?i + 1)]"
    using i by (simp add: take_Suc_conv_app_nth xor_output_def)
  have x: "(word_of_int (uint (p ! (2 * ?i)) XOR uint (p ! (2 * ?i + 1))) :: byte) = p ! (2 * ?i) XOR p ! (2 * ?i + 1)"
    by (rule word_uint_eqI) (simp add: uint_xor)
  have f: "?i = 15 \<Longrightarrow> take (Suc ?i) (xor_output p) = xor_output p" by (simp add: xor_output_def)
  show ?thesis
    using assms i d o x f
    by (auto simp: alu_edge_defs alu_count_def stream_output_def)
qed

lemma advances_set:
  assumes "alu_at b p s inp out w" "al_state s = SET_STREAM" "length p = 16"
  shows "alu_advances b p s inp out w offer take_one"
proof -
  let ?i = "al_byte_index s"
  have i: "?i \<le> 15" using assms by (simp add: alu_at_def alu_inv_def)
  have d: "drop ?i p = p ! ?i # drop (Suc ?i) p" using i assms(3) by (simp add: Cons_nth_drop_Suc)
  have o: "take (Suc ?i) p = take ?i p @ [p ! ?i]"
    using i assms(3) by (simp add: take_Suc_conv_app_nth)
  have f: "?i = 15 \<Longrightarrow> take (Suc ?i) p = p" using assms(3) by simp
  show ?thesis
    using assms i d o f
    by (auto simp: alu_edge_defs alu_count_def stream_output_def)
qed

lemma of_bool_and_1: "(of_bool x :: int) AND 1 \<noteq> 0 \<longleftrightarrow> x"
  by (cases x) simp_all

lemma advancesI:
  assumes "protocol_lane_step (if inp = [] then 0 else uint (hd inp)) (offer \<and> inp \<noteq> []) take_one False True s = (Inr r, s')"
    and "alu_at b p s' (if cy_rx_committed r then tl inp else inp)
           (if cy_tx_committed r then out @ [word_of_int (ap_tx_data (cy_pins r))] else out) w'"
    and "w' \<le> w" "w \<le> Suc w'" "offer \<and> take_one \<and> 0 < w \<Longrightarrow> w = Suc w'"
  shows "alu_advances b p s inp out w offer take_one"
  using assms unfolding alu_advances_def by blast

lemma fits_drop_bit: "fits n v \<Longrightarrow> fits n (drop_bit k v)"
  by (rule fitsI_bit) (auto simp: bit_simps dest: fits_bit fits_nonneg)

lemma byte_zero_iff: "uint (b :: byte) = 0 \<longleftrightarrow> b = 0"
  by (simp add: uint_0_iff)

lemma advances_zero:
  assumes "alu_at b p s inp out w" "al_state s = ZERO_STREAM" "length p = 16"
  shows "alu_advances b p s inp out w offer take_one"
proof -
  let ?i = "al_byte_index s"
  have i: "?i \<le> 15" using assms by (simp add: alu_at_def alu_inv_def)
  have d: "drop ?i p = p ! ?i # drop (Suc ?i) p" using i assms(3) by (simp add: Cons_nth_drop_Suc)
  have o: "list_ex (\<lambda>b. b \<noteq> 0) (take (Suc ?i) p) \<longleftrightarrow> list_ex (\<lambda>b. b \<noteq> 0) (take ?i p) \<or> p ! ?i \<noteq> 0"
    using i assms(3) by (simp add: take_Suc_conv_app_nth)
  have f: "?i = 15 \<Longrightarrow> take (Suc ?i) p = p" using assms(3) by simp
  show ?thesis
    using assms i d o f
    by (auto simp: alu_edge_defs alu_count_def stream_output_def of_bool_and_1 byte_zero_iff)
qed

lemma advances_status:
  assumes "alu_at b p s inp out w" "al_state s = STATUS_TX"
  shows "alu_advances b p s inp out w offer take_one"
proof -
  have "al_byte_index s \<le> 3" using assms by (simp add: alu_at_def alu_inv_def)
  then have "al_byte_index s \<in> {0, 1, 2, 3}" by auto
  with assms show ?thesis
    by (auto simp: alu_edge_defs alu_count_def stream_output_def STATUS_BYTES_def ALU_STATUS_def nthE_def)
qed

lemma advances_error:
  assumes "alu_at b p s inp out w" "al_state s = ERROR_TX"
  shows "alu_advances b p s inp out w offer take_one"
  using assms by (auto simp: alu_edge_defs stream_output_def)

lemma advances_mul_tx:
  assumes "alu_at b p s inp out w" "al_state s = MUL_TX"
  shows "alu_advances b p s inp out w offer take_one"
proof -
  let ?i = "al_byte_index s"
  have i: "?i \<le> 15" using assms by (simp add: alu_at_def alu_inv_def)
  have v: "bm_acc (al_mul s) = drop_bit (8 * ?i) (partial_product p 128)" using assms by (simp add: alu_at_def alu_phase_def Let_def)
  have x: "word_of_int (result_byte (al_mul s)) = mul_output p ! ?i"
    using i by (simp add: mul_output_def nth_to_le result_byte_def v and_255 word_of_int_eq_iff take_bit_eq_mod)
  have o: "take (Suc ?i) (mul_output p) = take ?i (mul_output p) @ [mul_output p ! ?i]"
    using i by (simp add: take_Suc_conv_app_nth mul_output_def)
  have f: "?i = 15 \<Longrightarrow> take (Suc ?i) (mul_output p) = mul_output p" by (simp add: mul_output_def)
  have g: "drop_bit 8 (drop_bit (8 * ?i) (partial_product p 128)) = drop_bit (8 * Suc ?i) (partial_product p 128)"
    by (simp add: drop_bit_drop_bit)
  have fit: "fits 128 (drop_bit 8 (bm_acc (al_mul s)))"
    using assms by (simp add: alu_at_def alu_inv_def fits_drop_bit)
  show ?thesis
  proof (cases take_one)
    case True
    with assms i v x o f g fit show ?thesis
      by (auto simp: alu_edge_defs alu_count_def stream_output_def tick_def)
  next
    case False
    with assms i v show ?thesis
      by (auto simp: alu_edge_defs alu_count_def)
  qed
qed

lemma advances_mul_a:
  assumes "alu_at b p s inp out w" "al_state s = MUL_A_RX" "length p = 32"
  shows "alu_advances b p s inp out w offer take_one"
proof (cases "offer \<and> inp \<noteq> []")
  case False
  with assms show ?thesis by (auto simp: alu_edge_defs)
next
  case True
  let ?i = "al_byte_index s"
  let ?A = "bm_a_shift (al_mul s)"
  let ?A' = "(drop_bit 8 ?A OR push_bit 120 (uint (p ! ?i) AND 0xFF)) AND MASK128"
  have i: "?i \<le> 15" "?i < 16" using assms by (simp_all add: alu_at_def alu_inv_def)
  have d: "drop ?i p = p ! ?i # drop (Suc ?i) p" using i assms(3) by (simp add: Cons_nth_drop_Suc)
  have n: "drop_bit (128 - 8 * Suc ?i) ?A' = le_int (take (Suc ?i) p)"
    by (rule shift_in_byte) (use assms i in \<open>simp_all add: alu_at_def alu_inv_def alu_phase_def Let_def\<close>)
  have fit: "fits 128 ?A'" by (simp only: and_MASK128 fits_take_bit)
  have l: "?i = 15 \<Longrightarrow> ?A' = multiplicand p" using n by simp
  show ?thesis
    using assms i d n fit l True
    by (auto simp: alu_edge_defs tick_def shifted_def partial_product_def)
qed

lemma advances_mul_b:
  assumes "alu_at b p s inp out w" "al_state s = MUL_B_RX" "length p = 32"
  shows "alu_advances b p s inp out w offer take_one"
proof (cases "offer \<and> inp \<noteq> []")
  case False
  with assms show ?thesis by (auto simp: alu_edge_defs)
next
  case True
  let ?i = "al_byte_index s"
  let ?y = "p ! (16 + ?i)"
  have i: "?i \<le> 15" using assms by (simp_all add: alu_at_def alu_inv_def)
  have d: "drop (16 + ?i) p = ?y # drop (17 + ?i) p" using i assms(3) Cons_nth_drop_Suc [of "16 + ?i" p] by simp
  have m: "al_mul s = \<lparr>bm_a_shift = shifted p (8 * ?i), bm_acc = partial_product p (8 * ?i)\<rparr>"
    using assms by (simp add: alu_at_def alu_phase_def Let_def)
  have "uint ?y AND 1 \<noteq> 0 \<longleftrightarrow> bit (multiplier_of p) (8 * ?i)"
    using bit_le_int [of ?i "drop 16 p" 0] i assms(3) bit_test [of 0 "uint ?y"] by simp
  note t = tick_bit [OF m this]
  have s: "2 \<le> sentinel ?y 1" "sentinel ?y 1 < 256" using sentinel_fits [of 1 ?y] by simp_all
  let ?s = "s\<lparr>al_scratch_byte := sentinel ?y 1, al_state := MUL_BITS,
      al_mul := \<lparr>bm_a_shift = shifted p (Suc (8 * ?i)), bm_acc = partial_product p (Suc (8 * ?i))\<rparr>\<rparr>"
  have inp: "inp = ?y # drop (17 + ?i) p" and w: "w = 8 * (16 - ?i) + 16" and out: "out = []"
    and c: "stream_command_of (uint b) = Some MUL128"
    using assms(1,2) d by (simp_all add: alu_at_def alu_phase_def Let_def)
  have "alu_phase b p ?s (drop (17 + ?i) p) out (8 * (16 - ?i) + 15)"
    using c out i by (auto simp: alu_phase_def Let_def intro!: exI [of _ 1])
  then have "alu_at b p ?s (drop (17 + ?i) p) out (8 * (16 - ?i) + 15)"
    using i s by (simp add: alu_at_def alu_inv_def shifted_fits partial_product_fits)
  moreover have "\<exists>r. protocol_lane_step (uint ?y) True take_one False True s = (Inr r, ?s) \<and> cy_rx_committed r \<and> \<not> cy_tx_committed r"
    using assms(2) t sentinel_first [of ?y]
    by (simp add: protocol_lane_step_def alu_step_def alu_combinational_def alu_drive_def Controls_def alu_next_def Let_def)
  ultimately obtain r where "protocol_lane_step (uint ?y) True take_one False True s = (Inr r, ?s)" "cy_rx_committed r" "\<not> cy_tx_committed r"
    "alu_at b p ?s (drop (17 + ?i) p) out (8 * (16 - ?i) + 15)" by blast
  then show ?thesis using True by (intro advancesI [of _ _ _ _ r ?s _ _ _ "8 * (16 - ?i) + 15"]) (simp_all add: inp w)
qed

lemma advances_mul_bits:
  assumes "alu_at b p s inp out w" "al_state s = MUL_BITS" "length p = 32"
  shows "alu_advances b p s inp out w offer take_one"
proof -
  let ?i = "al_byte_index s"
  let ?y = "p ! (16 + ?i)"
  have i: "?i \<le> 15" using assms by (simp_all add: alu_at_def alu_inv_def)
  obtain k where k: "1 \<le> k" "k \<le> 7" "w = 8 * (16 - ?i) - k + 16" "al_scratch_byte s = sentinel ?y k"
    and m: "al_mul s = \<lparr>bm_a_shift = shifted p (8 * ?i + k), bm_acc = partial_product p (8 * ?i + k)\<rparr>"
    and c: "stream_command_of (uint b) = Some MUL128" and inp: "inp = drop (17 + ?i) p" and out: "out = []"
    using assms(1,2) by (auto simp: alu_at_def alu_phase_def Let_def)
  have bit: "sentinel ?y k AND 1 \<noteq> 0 \<longleftrightarrow> bit (multiplier_of p) (8 * ?i + k)"
    using bit_le_int [of ?i "drop 16 p" k] i k assms(3) by (simp add: sentinel_bit)
  have tail: "mul_tail_last s \<longleftrightarrow> k = 7" using sentinel_end [of k ?y] k by (simp add: mul_tail_last_def)
  have run: "\<exists>r. protocol_lane_step x v take_one False True s = (Inr r, s') \<and> \<not> cy_rx_committed r \<and> \<not> cy_tx_committed r"
    if "tick False x False True (sentinel ?y k AND 1) (?i = 15 \<and> k = 7) False False (al_mul s) = (Inr (), al_mul s')"
      "s' = (alu_next x False False False s)\<lparr>al_mul := al_mul s'\<rparr>" for x v s'
  proof -
    have "al_mul (alu_next x False False False s) = al_mul s" using assms(2) by (simp add: alu_next_def)
    with assms(2) that k(4) tail show ?thesis
      by (simp add: protocol_lane_step_def alu_step_def alu_combinational_def alu_drive_def Controls_def Let_def)
  qed
  have step: ?thesis if a: "tick False (if inp = [] then 0 else uint (hd inp)) False True (sentinel ?y k AND 1) (?i = 15 \<and> k = 7) False False (al_mul s) = (Inr (), al_mul s')"
      "s' = (alu_next (if inp = [] then 0 else uint (hd inp)) False False False s)\<lparr>al_mul := al_mul s'\<rparr>"
      "alu_at b p s' inp out (w - 1)" for s'
  proof -
    obtain r where "protocol_lane_step (if inp = [] then 0 else uint (hd inp)) (offer \<and> inp \<noteq> []) take_one False True s = (Inr r, s')"
      "\<not> cy_rx_committed r" "\<not> cy_tx_committed r" using run [OF a(1,2)] by blast
    then show ?thesis using a(3) k i by (intro advancesI [of _ _ _ _ r s' _ _ _ "w - 1"]) simp_all
  qed
  let ?m = "\<lparr>bm_a_shift = shifted p (Suc (8 * ?i + k)), bm_acc = partial_product p (Suc (8 * ?i + k))\<rparr>"
  let ?l = "\<lparr>bm_a_shift = shifted p 127, bm_acc = partial_product p 128\<rparr>"
  consider "k < 7" | "k = 7" "?i < 15" | "k = 7" "?i = 15" using k i by linarith
  then show ?thesis
  proof cases
    case 1
    have n: "2 \<le> sentinel ?y (Suc k)" "sentinel ?y (Suc k) < 256" using sentinel_fits [of "Suc k" ?y] 1 by simp_all
    have "w - 1 = 8 * (16 - ?i) - Suc k + 16" using i k(3) 1 by arith
    then have "alu_phase b p (s\<lparr>al_scratch_byte := sentinel ?y (Suc k), al_mul := ?m\<rparr>) inp out (w - 1)"
      using c out inp assms(2) 1 by (auto simp: alu_phase_def Let_def intro!: exI [of _ "Suc k"])
    then show ?thesis
      using step [of "s\<lparr>al_scratch_byte := sentinel ?y (Suc k), al_mul := ?m\<rparr>"] tick_bit [OF m bit] 1 assms(2) tail i k(4) n
        sentinel_shift [of k ?y]
      by (simp add: alu_next_def alu_at_def alu_inv_def shifted_fits partial_product_fits)
  next
    case 2
    have "alu_phase b p (s\<lparr>al_byte_index := Suc ?i, al_state := MUL_B_RX, al_mul := ?m\<rparr>) inp out (w - 1)"
      using c out inp k 2 by (auto simp: alu_phase_def Let_def)
    then show ?thesis
      using step [of "s\<lparr>al_byte_index := Suc ?i, al_state := MUL_B_RX, al_mul := ?m\<rparr>"] tick_bit [OF m bit] 2 assms(2) tail
      by (simp add: alu_next_def alu_at_def alu_inv_def shifted_fits partial_product_fits)
  next
    case 3
    have "alu_phase b p (s\<lparr>al_byte_index := 0, al_state := MUL_TX, al_mul := ?l\<rparr>) inp out (w - 1)"
      using c out inp k 3 assms(3) by (auto simp: alu_phase_def Let_def)
    then show ?thesis
      using step [of "s\<lparr>al_byte_index := 0, al_state := MUL_TX, al_mul := ?l\<rparr>"] tick_last_bit [OF m bit] 3 assms(2) tail
      by (simp add: alu_next_def alu_at_def alu_inv_def shifted_fits partial_product_fits)
  qed
qed

lemma stream_command_of_iff: "stream_command_of c = Some d \<longleftrightarrow> c = stream_command_code d"
  by (cases d) (auto simp: stream_command_of_def)

lemma stream_command_of_None: "stream_command_of c = None \<longleftrightarrow> (\<forall>d. c \<noteq> stream_command_code d)"
  using stream_command_of_iff by (metis option.exhaust option.distinct(1))

lemma alu_command_eq:
  "alu_command x s =
     (case stream_command_of x of
        Some XOR128 \<Rightarrow> s\<lparr>al_state := XOR_A\<rparr> | Some MUL128 \<Rightarrow> s\<lparr>al_state := MUL_A_RX\<rparr>
      | Some SET128 \<Rightarrow> s\<lparr>al_state := SET_STREAM\<rparr> | Some NONZERO \<Rightarrow> s\<lparr>al_state := ZERO_STREAM\<rparr>
      | Some STATUS \<Rightarrow> s\<lparr>al_state := STATUS_TX\<rparr> | Some CLEAR \<Rightarrow> s\<lparr>al_fault := False\<rparr>
      | None \<Rightarrow> s\<lparr>al_fault := True, al_state := ERROR_TX\<rparr>)"
  by (simp add: alu_command_def stream_command_of_def)

text \<open>An edge of an idle machine: it stays, or it takes the command byte.\<close>

lemma idle_edge:
  assumes "al_state s = ALU_IDLE" "x = (if inp = [] then 0 else uint (hd inp))"
  shows "\<exists>r. protocol_lane_step x (offer \<and> inp \<noteq> []) take_one False True s =
      (Inr r, if offer \<and> inp \<noteq> [] then alu_command x (s\<lparr>al_byte_index := 0, al_scratch_byte := 0\<rparr>)
        else s\<lparr>al_byte_index := 0, al_scratch_byte := 0\<rparr>) \<and>
    (cy_rx_committed r \<longleftrightarrow> offer \<and> inp \<noteq> []) \<and> \<not> cy_tx_committed r"
  using assms
  by (auto simp: protocol_lane_step_def alu_step_def alu_combinational_def alu_drive_def Controls_def alu_next_def Let_def alu_command_def)

lemma advances_idle:
  assumes at: "alu_at b p s inp out w" "al_state s = ALU_IDLE" and len: "length p = stream_payload_bytes (stream_command_of (uint b))"
  shows "alu_advances b p s inp out w offer take_one"
proof -
  let ?x = "if inp = [] then 0 else uint (hd inp)"
  let ?s = "s\<lparr>al_byte_index := 0, al_scratch_byte := 0\<rparr>"
  obtain r where r: "protocol_lane_step ?x (offer \<and> inp \<noteq> []) take_one False True s =
      (Inr r, if offer \<and> inp \<noteq> [] then alu_command ?x ?s else ?s)"
    "cy_rx_committed r \<longleftrightarrow> offer \<and> inp \<noteq> []" "\<not> cy_tx_committed r"
    using idle_edge [OF at(2) refl] by blast
  show ?thesis
  proof (cases "offer \<and> inp \<noteq> []")
    case False
    have "alu_at b p ?s inp out w" using at by (auto simp: alu_at_def alu_inv_def alu_phase_def Let_def)
    with r False show ?thesis
      using at by (intro advancesI [OF r(1)]) (auto simp: alu_at_def alu_phase_def Let_def)
  next
    case True
    then have inp: "inp = b # p" "out = []" "w = stream_cycles (stream_command_of (uint b))"
      using at by (auto simp: alu_at_def alu_phase_def Let_def)
    have fit: "fits 128 (bm_a_shift (al_mul s))" "fits 128 (bm_acc (al_mul s))" using at(1) by (simp_all add: alu_at_def alu_inv_def)
    have "alu_at b p (alu_command (uint b) ?s) p [] (w - 1) \<and> 0 < w"
    proof (cases "stream_command_of (uint b)")
      case None
      then show ?thesis using fit len
        by (simp add: inp(3) alu_command_eq alu_at_def alu_inv_def alu_phase_def Let_def stream_payload_bytes_def stream_cycles_def)
    next
      case (Some d)
      then show ?thesis using fit at(2) len
        by (cases d) (simp_all add: inp(3) alu_command_eq alu_at_def alu_inv_def alu_phase_def Let_def stream_payload_bytes_def stream_cycles_def
            stream_output_def fits_def drop_bit_eq_div)
    qed
    with r True inp show ?thesis by (intro advancesI [OF r(1), of _ _ _ "w - 1"]) auto
  qed
qed

lemma alu_advances:
  assumes at: "alu_at b p s inp out w" and len: "length p = stream_payload_bytes (stream_command_of (uint b))"
  shows "alu_advances b p s inp out w offer take_one"
proof -
  have c: "stream_command_of (uint b) = Some XOR128" if "al_state s = XOR_A \<or> al_state s = XOR_B"
    using at that by (auto simp: alu_at_def alu_phase_def Let_def)
  have m: "stream_command_of (uint b) = Some MUL128" if "al_state s = MUL_A_RX \<or> al_state s = MUL_B_RX \<or> al_state s = MUL_BITS"
    using at that by (auto simp: alu_at_def alu_phase_def Let_def)
  have x: "stream_command_of (uint b) = Some SET128" if "al_state s = SET_STREAM"
    using at that by (auto simp: alu_at_def alu_phase_def Let_def)
  have z: "stream_command_of (uint b) = Some NONZERO" if "al_state s = ZERO_STREAM"
    using at that by (auto simp: alu_at_def alu_phase_def Let_def)
  note l = len [unfolded stream_payload_bytes_def]
  show ?thesis
  proof (cases "al_state s")
    case ALU_IDLE then show ?thesis using advances_idle [OF at _ len] by blast
  next
    case XOR_A then show ?thesis using advances_xor_a [OF at] c l by simp
  next
    case XOR_B then show ?thesis using advances_xor_b [OF at] c l by simp
  next
    case SET_STREAM then show ?thesis using advances_set [OF at] x l by simp
  next
    case ZERO_STREAM then show ?thesis using advances_zero [OF at] z l by simp
  next
    case MUL_A_RX then show ?thesis using advances_mul_a [OF at] m l by simp
  next
    case MUL_B_RX then show ?thesis using advances_mul_b [OF at] m l by simp
  next
    case MUL_BITS then show ?thesis using advances_mul_bits [OF at] m l by simp
  next
    case MUL_TX then show ?thesis using advances_mul_tx [OF at] by blast
  next
    case STATUS_TX then show ?thesis using advances_status [OF at] by blast
  next
    case ERROR_TX then show ?thesis using advances_error [OF at] by blast
  qed
qed

lemma lane_run_at:
  assumes "alu_at b p s inp out w" "length p = stream_payload_bytes (stream_command_of (uint b))"
  shows "\<exists>inp' out' s' w'. lane_run sched inp out s = (Inr (inp', out'), s') \<and> alu_at b p s' inp' out' w' \<and>
    w' \<le> w \<and> w \<le> w' + length sched \<and> w' \<le> w - length (filter (\<lambda>(offer, take_one). offer \<and> take_one) sched)"
  using assms(1)
proof (induction sched arbitrary: s inp out w)
  case (Cons e sched)
  obtain offer take_one where e: "e = (offer, take_one)" by force
  from alu_advances [OF Cons.prems assms(2), of offer take_one] obtain r s1 w1 where
    1: "protocol_lane_step (if inp = [] then 0 else uint (hd inp)) (offer \<and> inp \<noteq> []) take_one False True s = (Inr r, s1)"
      "alu_at b p s1 (if cy_rx_committed r then tl inp else inp)
           (if cy_tx_committed r then out @ [word_of_int (ap_tx_data (cy_pins r))] else out) w1"
      "w1 \<le> w" "w \<le> Suc w1" "offer \<and> take_one \<and> 0 < w \<longrightarrow> w = Suc w1"
    unfolding alu_advances_def by blast
  from Cons.IH [OF 1(2)] obtain inp' out' s' w' where
    2: "lane_run sched (if cy_rx_committed r then tl inp else inp)
           (if cy_tx_committed r then out @ [word_of_int (ap_tx_data (cy_pins r))] else out) s1 = (Inr (inp', out'), s')"
      "alu_at b p s' inp' out' w'" "w' \<le> w1" "w1 \<le> w' + length sched"
      "w' \<le> w1 - length (filter (\<lambda>(offer, take_one). offer \<and> take_one) sched)"
    by blast
  have "lane_run (e # sched) inp out s = (Inr (inp', out'), s')"
    unfolding e lane_run.simps 1(1) thenM_simps 2(1) ..
  with 2(2-5) 1(3-5) show ?case by (intro exI [of _ inp'] exI [of _ out'] exI [of _ s'] exI [of _ w']) (auto simp: e)
qed auto

lemma alu_at_prefix:
  assumes "alu_at b p s inp out w" "length p = stream_payload_bytes (stream_command_of (uint b))"
  shows "\<exists>rest. stream_output (stream_command_of (uint b)) p = out @ rest"
proof -
  have "\<exists>rest. xs = take n xs @ rest" for n and xs :: bytes by (metis append_take_drop_id)
  with assms show ?thesis
    by (cases "al_state s") (auto simp: alu_at_def alu_phase_def Let_def stream_output_def)
qed

lemma alu_at_done:
  assumes "alu_at b p s inp out 0"
  shows "al_state s = ALU_IDLE \<and> inp = [] \<and> out = stream_output (stream_command_of (uint b)) p"
  using assms by (cases "al_state s") (auto simp: alu_at_def alu_inv_def alu_phase_def Let_def stream_cycles_def split: option.splits stream_command.splits)

lemma alu_at_not_done:
  assumes "alu_at b p s inp out w" "al_state s = ALU_IDLE" "inp = []"
  shows "w = 0"
  using assms by (auto simp: alu_at_def alu_phase_def Let_def)

section \<open>The transaction model is what the lane computes\<close>

lemma stream_execute_Inr:
  assumes "stream_execute c p = Inr r" "length p = cr_input_data_beats r"
  shows "length p = stream_payload_bytes (stream_command_of c) \<and> cr_output r = stream_output (stream_command_of c) p \<and>
    1 + max (cr_input_data_beats r) (cr_output_data_beats r) + cr_multiplier_bit_steps r = stream_cycles (stream_command_of c) \<and>
    length (cr_output r) = cr_output_data_beats r"
proof (cases "stream_command_of c")
  case None
  with assms show ?thesis
    by (auto simp: stream_execute_def stream_payload_bytes_def stream_output_def stream_cycles_def CommandResult_def)
next
  case (Some d)
  show ?thesis
  proof (cases "d = MUL128")
    case True
    have l: "length p = 32" using assms(1) Some True by (auto simp: stream_execute_def split: if_splits)
    have f: "fits 128 (multiplicand p)" "fits 128 (multiplier_of p)" by (rule fits_le_int; simp add: l)+
    have g: "gf_mul_bitserial (multiplicand p) (multiplier_of p) 128 REDUCTION_LOW = Inr (partial_product p 128)"
      using gf_mul_bitserial_eq [OF fits_poly] f by (simp add: REDUCTION_LOW_def partial_product_def)
    have t: "int_to_le_bytes (partial_product p 128) 16 = Inr (mul_output p)"
      using partial_product_fits [of p 128] by (simp add: int_to_le_bytes_def fits_def mul_output_def)
    have "r = (CommandResult (mul_output p) 32 16)\<lparr>cr_multiplier_bit_steps := 128\<rparr>"
      using assms(1) Some True l by (simp add: stream_execute_def Let_def le_bytes_to_int_def g t)
    then show ?thesis using Some True l
      by (simp add: stream_payload_bytes_def stream_output_def stream_cycles_def CommandResult_def mul_output_def)
  next
    case False
    with Some assms show ?thesis
      by (cases d) (auto simp: stream_execute_def stream_payload_bytes_def stream_output_def stream_cycles_def CommandResult_def
          xor_output_def STATUS_BYTES_def split: if_splits)
  qed
qed

lemma lane_run_refines:
  assumes s: "alu_inv s" "al_state s = ALU_IDLE" and r: "stream_execute (uint b) p = Inr r" "length p = cr_input_data_beats r"
  defines "cycles \<equiv> 1 + max (cr_input_data_beats r) (cr_output_data_beats r) + cr_multiplier_bit_steps r"
  shows "\<exists>inp out s'. lane_run sched (b # p) [] s = (Inr (inp, out), s') \<and> alu_inv s' \<and> (\<exists>rest. cr_output r = out @ rest) \<and>
    (cycles \<le> length (filter (\<lambda>(offer, take_one). offer \<and> take_one) sched) \<longrightarrow> inp = [] \<and> out = cr_output r \<and> al_state s' = ALU_IDLE) \<and>
    (inp = [] \<and> al_state s' = ALU_IDLE \<longrightarrow> out = cr_output r \<and> cycles \<le> length sched)"
proof -
  have e: "length p = stream_payload_bytes (stream_command_of (uint b))" "cr_output r = stream_output (stream_command_of (uint b)) p"
    "cycles = stream_cycles (stream_command_of (uint b))" using stream_execute_Inr [OF r] by (simp_all add: cycles_def)
  have "alu_at b p s (b # p) [] cycles" using s by (simp add: alu_at_def alu_phase_def Let_def e(3))
  from lane_run_at [OF this e(1), of sched] obtain inp out s' w where
    l: "lane_run sched (b # p) [] s = (Inr (inp, out), s')" "alu_at b p s' inp out w" "cycles \<le> w + length sched"
      "w \<le> cycles - length (filter (\<lambda>(offer, take_one). offer \<and> take_one) sched)" by blast
  let ?both = "length (filter (\<lambda>(offer, take_one). offer \<and> take_one) sched)"
  have rest: "\<exists>rest. cr_output r = out @ rest" using alu_at_prefix [OF l(2) e(1)] by (simp add: e(2))
  have inv: "alu_inv s'" using l(2) by (simp add: alu_at_def)
  have fin: "inp = [] \<and> out = cr_output r \<and> al_state s' = ALU_IDLE" if "w = 0"
    using alu_at_done [of b p s' inp out] l(2) e(2) that by simp
  have idle: "w = 0" if "inp = []" "al_state s' = ALU_IDLE" using alu_at_not_done [OF l(2) that(2,1)] .
  have "w = 0" if "cycles \<le> ?both" using l(4) that by linarith
  then have a: "cycles \<le> ?both \<longrightarrow> inp = [] \<and> out = cr_output r \<and> al_state s' = ALU_IDLE" using fin by blast
  have "cycles \<le> length sched" if "w = 0" using l(3) that by linarith
  then have "inp = [] \<and> al_state s' = ALU_IDLE \<longrightarrow> out = cr_output r \<and> cycles \<le> length sched" using fin idle by blast
  with l(1) inv rest a show ?thesis by blast
qed

section \<open>Any input on the pins\<close>

lemma tick_fits:
  assumes "fits 128 (bm_a_shift m)" "fits 128 (bm_acc m)"
  shows "\<exists>m'. tick av ab al bv bw bl rs z m = (Inr (), m') \<and> fits 128 (bm_a_shift m') \<and> fits 128 (bm_acc m')"
proof -
  have x: "mul_by_x (bm_a_shift m) 128 REDUCTION_LOW = Inr (xtimes 128 0x87 (bm_a_shift m))"
    using mul_by_x_eq [OF assms(1)] by (simp add: REDUCTION_LOW_def)
  have a: "fits 128 (y AND MASK128)" for y by (simp only: and_MASK128 fits_take_bit)
  show ?thesis
    using assms x a fits_xtimes [OF fits_poly]
    by (auto simp: tick_def Let_def fits_drop_bit)
qed

text \<open>The state a clock edge leaves behind when reset and abort are high and low.\<close>

lemma drive_total:
  assumes "alu_inv s"
  shows "\<exists>r. alu_drive tx_ready rx_valid rx_data s = Inr r"
  using assms by (cases "al_state s") (auto simp: alu_drive_def alu_inv_def nthE_def ALU_STATUS_def)

lemma next_inv:
  assumes "alu_inv s" and "fits 128 (bm_a_shift m)" "fits 128 (bm_acc m)"
  shows "alu_inv ((alu_next d rf tf z s)\<lparr>al_mul := m\<rparr>)"
proof (cases "al_state s = MUL_B_RX \<or> al_state s = MUL_BITS")
  case True
  have "2 \<le> 0x80 OR drop_bit 1 (d AND 0xFF) \<and> 0x80 OR drop_bit 1 (d AND 0xFF) < 256"
    using sentinel_first [of "word_of_int d"] sentinel_fits [of 1 "word_of_int d"] by (simp add: and_255)
  moreover have "2 \<le> drop_bit 1 (al_scratch_byte s) \<and> drop_bit 1 (al_scratch_byte s) < 256"
    if "al_state s = MUL_BITS" "\<not> mul_tail_last s"
  proof -
    have "2 \<le> al_scratch_byte s" "al_scratch_byte s < 256" using assms(1) that(1) by (simp_all add: alu_inv_def)
    moreover have "al_scratch_byte s div 2 \<noteq> 1" using that(2) by (simp add: mul_tail_last_def drop_bit_eq_div)
    ultimately have "2 \<le> al_scratch_byte s div 2" "al_scratch_byte s div 2 < 256" by presburger+
    then show ?thesis by (simp add: drop_bit_eq_div)
  qed
  ultimately show ?thesis using assms True
    by (elim disjE) (simp_all add: alu_inv_def alu_next_def)
next
  case False
  with assms show ?thesis
    by (cases "al_state s") (auto simp: alu_inv_def alu_next_def alu_command_def alu_count_def Let_def)
qed

text \<open>Which edges leave the fault latch set.\<close>

definition faults :: "int \<Rightarrow> bool \<Rightarrow> bool \<Rightarrow> stream_alu \<Rightarrow> bool" where
  "faults rx_data rx_valid abort s \<longleftrightarrow>
     abort \<or> (if al_state s = ALU_IDLE \<and> rx_valid \<and> rx_data = stream_command_code CLEAR then False
              else al_fault s \<or> al_state s = ALU_IDLE \<and> rx_valid \<and> stream_command_of rx_data = None)"

lemma next_fault: "rf = (rx_valid \<and> (al_state s = ALU_IDLE \<longrightarrow> True) \<and> ready) \<Longrightarrow> (al_state s = ALU_IDLE \<longrightarrow> ready) \<Longrightarrow>
   al_fault (alu_next d rf tf z s) = faults d rx_valid z s"
  by (cases "al_state s") (auto simp: alu_next_def faults_def alu_count_def Let_def alu_command_def stream_command_of_def)

lemma lane_step_total:
  assumes inv: "alu_inv s"
  shows "\<exists>r s'. protocol_lane_step rx_data rx_valid tx_ready abort reset_n s = (Inr r, s') \<and> alu_inv s' \<and>
    (\<not> reset_n \<longrightarrow> s' = StreamALUCycleModel) \<and>
    (reset_n \<longrightarrow> al_fault s' = faults rx_data rx_valid abort s \<and> (abort \<longrightarrow> al_state s' = ALU_IDLE)) \<and>
    (abort \<or> \<not> reset_n \<longrightarrow> \<not> cy_rx_committed r \<and> \<not> cy_tx_committed r)"
proof -
  obtain rdy val dat ct where d: "alu_drive tx_ready rx_valid rx_data s = Inr (rdy, val, dat, ct)"
    using drive_total [OF inv] by (metis prod_cases4)
  have rdy: "al_state s = ALU_IDLE \<Longrightarrow> rdy" using d by (simp add: alu_drive_def)
  obtain pins where c: "alu_combinational tx_ready rx_valid rx_data s = Inr (pins, ct)"
    "ap_rx_ready pins = rdy" "ap_tx_valid pins = val"
    using d by (simp add: alu_combinational_def Let_def)
  let ?s = "alu_next rx_data (rx_valid \<and> rdy) (val \<and> tx_ready) abort s"
  have "al_mul ?s = al_mul s"
    by (cases "al_state s") (auto simp: alu_next_def alu_command_def alu_count_def Let_def)
  then have m: "fits 128 (bm_a_shift (al_mul ?s))" "fits 128 (bm_acc (al_mul ?s))" using inv by (simp_all add: alu_inv_def)
  obtain m where t: "tick (ct_a_valid ct) rx_data (ct_a_last ct) (ct_bit_valid ct) (ct_bit_value ct) (ct_bit_last ct)
      (ct_result_shift ct) abort (al_mul ?s) = (Inr (), m)" "fits 128 (bm_a_shift m)" "fits 128 (bm_acc m)"
    using tick_fits [OF m] by blast
  have step: "alu_step rx_data rx_valid tx_ready abort s = (Inr pins, ?s\<lparr>al_mul := m\<rparr>)"
    using c t(1) by (simp add: alu_step_def Let_def)
  have f: "al_fault ?s = faults rx_data rx_valid abort s" by (rule next_fault [of _ _ s rdy]) (use rdy in auto)
  have ab: "abort \<Longrightarrow> al_state ?s = ALU_IDLE" by (simp add: alu_next_def)
  have z: "alu_inv StreamALUCycleModel" by (simp add: alu_inv_def StreamALUCycleModel_def BitstreamMultiplier_def)
  show ?thesis
    using c step next_inv [OF inv t(2,3)] f ab z by (cases reset_n) (simp_all add: protocol_lane_step_def)
qed

section \<open>The properties\<close>

text \<open>
  C22. The cycle model behind the lane contract implements the transaction model. A host sends a
  command byte and its payload to an idle core in any state of its registers, offering and taking
  bytes at the clock edges it likes. Whatever it has collected is a prefix of the output of
  \<open>StreamALUModel.execute\<close>; when the core is idle again it has collected all of it; and this is
  so as soon as the edges that both offer and take number one for the command, the larger of the
  two payload counts and the multiplier's bit steps, and never after fewer edges than that.
\<close>

theorem stream_alu_refines:
  assumes "alu_inv s" "al_state s = ALU_IDLE" and "stream_execute (uint b) p = Inr r" "length p = cr_input_data_beats r"
  shows "\<exists>inp out s'. lane_run sched (b # p) [] s = (Inr (inp, out), s') \<and> alu_inv s' \<and> (\<exists>rest. cr_output r = out @ rest) \<and>
    (1 + max (cr_input_data_beats r) (cr_output_data_beats r) + cr_multiplier_bit_steps r
        \<le> length (filter (\<lambda>(offer, take_one). offer \<and> take_one) sched) \<longrightarrow>
      inp = [] \<and> out = cr_output r \<and> al_state s' = ALU_IDLE) \<and>
    (inp = [] \<and> al_state s' = ALU_IDLE \<longrightarrow>
      out = cr_output r \<and> 1 + max (cr_input_data_beats r) (cr_output_data_beats r) + cr_multiplier_bit_steps r \<le> length sched)"
  by (rule lane_run_refines [OF assms])

lemma fresh_core: "alu_inv StreamALUCycleModel" "al_state StreamALUCycleModel = ALU_IDLE"
  by (simp_all add: alu_inv_def StreamALUCycleModel_def BitstreamMultiplier_def)

lemma stream_example:
  "stream_execute (uint (0x02 :: byte)) (map word_of_int [0..31]) =
     Inr ((CommandResult [192, 65, 238, 57, 88, 98, 118, 26, 160, 10, 142, 114, 56, 41, 22, 81] 32 16)\<lparr>cr_multiplier_bit_steps := 128\<rparr>)"
  by code_simp

lemma stream_alu_refines_witness:
  "\<exists>s'. lane_run (replicate 161 (True, True)) (0x02 # map word_of_int [0..31]) [] StreamALUCycleModel =
     (Inr ([], [192, 65, 238, 57, 88, 98, 118, 26, 160, 10, 142, 114, 56, 41, 22, 81]), s') \<and> al_state s' = ALU_IDLE"
  using stream_alu_refines [OF fresh_core stream_example, of "replicate 161 (True, True)"]
  by (auto simp: CommandResult_def)

text \<open>
  C23. No input on the pins makes the lane raise, in any state that satisfies the invariant of the
  registers, and the invariant is kept. A reset edge leaves the power-on state; an abort leaves
  the core idle with the fault latched, and neither commits a byte in either direction. Apart
  from them the latch is set by a command byte of no command, is cleared by \<open>CLEAR\<close>, and is kept
  by everything else.
\<close>

theorem protocol_lane_total:
  assumes "alu_inv s"
  shows "\<exists>r s'. protocol_lane_step rx_data rx_valid tx_ready abort reset_n s = (Inr r, s') \<and> alu_inv s' \<and>
    (\<not> reset_n \<longrightarrow> s' = StreamALUCycleModel) \<and>
    (reset_n \<longrightarrow> al_fault s' = faults rx_data rx_valid abort s \<and> (abort \<longrightarrow> al_state s' = ALU_IDLE)) \<and>
    (abort \<or> \<not> reset_n \<longrightarrow> \<not> cy_rx_committed r \<and> \<not> cy_tx_committed r)"
  by (rule lane_step_total [OF assms])

lemma protocol_lane_total_witness:
  "\<exists>r s'. protocol_lane_step 0x55 True True False True StreamALUCycleModel = (Inr r, s') \<and> alu_inv s' \<and> al_fault s'"
  using protocol_lane_total [OF fresh_core(1), where rx_data = "0x55" and rx_valid = True and tx_ready = True and abort = False and reset_n = True]
  by (auto simp: faults_def StreamALUCycleModel_def stream_command_of_def)

end
