(* ===== verification/Lsc1u_Pins.thy ===== *)
theory Lsc1u_Pins
  imports Stream_Alu Program_Adapter
begin

text \<open>
  The host driver of the LSC-1u pins (fpga_harness/lsc1u_protocol.py): the oracle behind the pin
  corpus, and the ready/valid driver over an arbitrary backend. The oracle is the one of the other
  models; the driver moves each byte across the pins exactly once.
\<close>

section \<open>The oracle and the corpus\<close>

definition RX_VALID :: int where "RX_VALID = push_bit 0 1"
definition RX_READY :: int where "RX_READY = push_bit 1 1"
definition TX_VALID :: int where "TX_VALID = push_bit 2 1"
definition TX_READY :: int where "TX_READY = push_bit 3 1"
definition BUSY :: int where "BUSY = push_bit 4 1"
definition FAULT :: int where "FAULT = push_bit 5 1"
definition DONE :: int where "DONE = push_bit 7 1"
definition OUTPUT_ENABLES :: int where "OUTPUT_ENABLES = 0b10110110"

definition OPCODES :: "(string \<times> int) list" where
  "OPCODES = [(''XOR'', 0x01), (''MUL'', 0x02), (''SET'', 0x03)]"

text \<open>The loop of \<open>gf128_mul\<close>, for \<open>n\<close> more bits.\<close>

fun pin_mul_loop :: "nat \<Rightarrow> int \<Rightarrow> int \<Rightarrow> int \<Rightarrow> int" where
  "pin_mul_loop 0 x y product = product"
| "pin_mul_loop (Suc n) x y product =
     (let product = (if y AND 1 \<noteq> 0 then product XOR x else product);
          y = drop_bit 1 y;
          x = (push_bit 1 x AND (push_bit 128 1 - 1)) XOR (if drop_bit 127 x \<noteq> 0 then 0x87 else 0)
      in pin_mul_loop n x y product)"

definition pin_gf128_mul :: "bytes \<Rightarrow> bytes \<Rightarrow> bytes res" where
  "pin_gf128_mul a b =
     (let product = pin_mul_loop 128 (le_int a) (le_int b) 0 in
      if product < 0 \<or> product \<ge> push_bit 128 1 then Inl OverflowError else Inr (to_le 16 product))"

text \<open>\<open>bytes.fromhex\<close>: two digits a byte, whitespace between the bytes.\<close>

fun fromhex :: "string \<Rightarrow> bytes res" where
  "fromhex [] = Inr []"
| "fromhex [c] = (if is_space c then Inr [] else Inl ValueError)"
| "fromhex (c # d # cs) =
     (if is_space c then fromhex (d # cs)
      else
        case (hex_digit c, hex_digit d) of
          (Some h, Some l) \<Rightarrow> bindE (fromhex cs) (\<lambda>bs. Inr (word_of_int (16 * h + l) # bs))
        | _ \<Rightarrow> Inl ValueError)"

text \<open>A case of the corpus: the values under its keys, absent where the key is.\<close>

record pin_case =
  pc_opcode :: "string option"
  pc_a :: "string option"
  pc_b :: "string option"

definition key_of :: "'a option \<Rightarrow> 'a res" where
  "key_of v = (case v of None \<Rightarrow> Inl KeyError | Some x \<Rightarrow> Inr x)"

definition pin_expected :: "pin_case \<Rightarrow> bytes res" where
  "pin_expected c =
     bindE (key_of (pc_a c)) (\<lambda>a. bindE (fromhex a) (\<lambda>a.
     bindE (key_of (pc_opcode c)) (\<lambda>opcode.
     if opcode = ''SET'' then Inr a
     else
       bindE (key_of (pc_b c)) (\<lambda>b. bindE (fromhex b) (\<lambda>b.
       if opcode = ''XOR'' then Inr (map (\<lambda>(x, y). x XOR y) (zip a b))
       else if opcode = ''MUL'' then pin_gf128_mul a b
       else Inl ValueError)))))"

definition pin_payload :: "pin_case \<Rightarrow> bytes res" where
  "pin_payload c =
     bindE (key_of (pc_a c)) (\<lambda>a. bindE (fromhex a) (\<lambda>a.
     bindE (key_of (pc_opcode c)) (\<lambda>opcode.
     if opcode = ''SET'' then Inr a
     else
       bindE (key_of (pc_b c)) (\<lambda>b. bindE (fromhex b) (\<lambda>b.
       if opcode = ''XOR'' then Inr (concat (map (\<lambda>(x, y). [x, y]) (zip a b))) else Inr (a @ b))))))"

text \<open>The parsed corpus: the three keys that are checked, and the cases.\<close>

record pin_document =
  pn_schema :: "string option"
  pn_byte_order :: "string option"
  pn_reduction_low :: "string option"
  pn_cases :: "pin_case list option"

definition load_corpus :: "pin_document \<Rightarrow> pin_case list res" where
  "load_corpus document =
     bindE (key_of (pn_schema document)) (\<lambda>schema.
     if schema \<noteq> ''lsc1u-pin-corpus-v1'' then Inl AssertionError
     else
       bindE (key_of (pn_byte_order document)) (\<lambda>byte_order.
       if byte_order \<noteq> ''little'' then Inl AssertionError
       else
         bindE (key_of (pn_reduction_low document)) (\<lambda>reduction_low.
         if reduction_low \<noteq> ''0x87'' then Inl AssertionError else key_of (pn_cases document))))"

section \<open>The driver\<close>

text \<open>
  The backend is code outside the repository. All the driver can observe of it are the pins it
  returns at a clock edge, so it is a function from the inputs of all edges so far, the last
  one included, to the pins; the driver keeps those inputs in place of the backend.
\<close>

record pin_inputs =
  pi_ui_in :: int
  pi_uio_in :: int
  pi_ena :: bool
  pi_rst_n :: bool

record lu_pins =
  lp_uo_out :: int
  lp_uio_out :: int
  lp_uio_oe :: int

type_synonym device = "pin_inputs list \<Rightarrow> int \<times> int \<times> int"

definition LuPins :: "int \<Rightarrow> int \<Rightarrow> int \<Rightarrow> lu_pins res" where
  "LuPins uo_out uio_out uio_oe =
     (if list_all (\<lambda>v. 0 \<le> v \<and> v \<le> 0xFF) [uo_out, uio_out, uio_oe]
      then Inr \<lparr>lp_uo_out = uo_out, lp_uio_out = uio_out, lp_uio_oe = uio_oe\<rparr> else Inl AssertionError)"

definition lp_bit :: "lu_pins \<Rightarrow> int \<Rightarrow> bool" where
  "lp_bit p m \<longleftrightarrow> lp_uio_out p AND m \<noteq> 0"

record pin_driver =
  pd_edges :: "pin_inputs list"
  pd_timeout :: nat
  pd_ui_in :: int
  pd_uio_in :: int
  pd_ena :: bool
  pd_rst_n :: bool

definition LSC1UPinDriver :: "nat \<Rightarrow> pin_driver" where
  "LSC1UPinDriver timeout =
     \<lparr>pd_edges = [], pd_timeout = timeout, pd_ui_in = 0, pd_uio_in = 0, pd_ena = True, pd_rst_n = True\<rparr>"

definition pd_inputs :: "pin_driver \<Rightarrow> pin_inputs" where
  "pd_inputs d = \<lparr>pi_ui_in = pd_ui_in d, pi_uio_in = pd_uio_in d, pi_ena = pd_ena d, pi_rst_n = pd_rst_n d\<rparr>"

definition pd_cycle :: "device \<Rightarrow> (pin_driver, exn, lu_pins) routine" where
  "pd_cycle dev d =
     (let d = d\<lparr>pd_edges := pd_edges d @ [pd_inputs d]\<rparr>;
          (uo_out, uio_out, uio_oe) = dev (pd_edges d) in
      thenM (liftM (LuPins uo_out uio_out uio_oe) d) (\<lambda>pins d.
        let expected_oe = (if pd_ena d then OUTPUT_ENABLES else 0) in
        if lp_uio_oe pins \<noteq> expected_oe then (Inl AssertionError, d)
        else if \<not> pd_ena d \<and> \<not> (lp_uo_out pins = 0 \<and> lp_uio_out pins = 0) then (Inl AssertionError, d)
        else (Inr pins, d)))"

text \<open>\<open>n\<close> edges whose pins have to satisfy a check.\<close>

fun pd_cycles :: "device \<Rightarrow> (lu_pins \<Rightarrow> bool) \<Rightarrow> nat \<Rightarrow> (pin_driver, exn, unit) routine" where
  "pd_cycles dev check 0 d = (Inr (), d)"
| "pd_cycles dev check (Suc n) d =
     thenM (pd_cycle dev d) (\<lambda>pins d. if check pins then pd_cycles dev check n d else (Inl AssertionError, d))"

definition pd_reset :: "device \<Rightarrow> nat \<Rightarrow> (pin_driver, exn, lu_pins) routine" where
  "pd_reset dev cycles d =
     (let quiet = (\<lambda>pins. \<not> lp_bit pins (TX_VALID OR BUSY OR FAULT OR DONE)) in
      thenM (pd_cycles dev quiet cycles (d\<lparr>pd_ui_in := 0, pd_uio_in := 0, pd_ena := True, pd_rst_n := False\<rparr>)) (\<lambda>_ d.
      thenM (pd_cycle dev (d\<lparr>pd_rst_n := True\<rparr>)) (\<lambda>pins d.
        if lp_bit pins RX_READY \<and> quiet pins then (Inr pins, d) else (Inl AssertionError, d))))"

fun pd_send_loop :: "device \<Rightarrow> nat \<Rightarrow> nat \<Rightarrow> (pin_driver, exn, nat) routine" where
  "pd_send_loop dev 0 waited d = (Inl AssertionError, d)"
| "pd_send_loop dev (Suc n) waited d =
     thenM (pd_cycle dev d) (\<lambda>pins d.
       if lp_bit pins RX_READY then (Inr (waited + 1), d\<lparr>pd_uio_in := 0\<rparr>) else pd_send_loop dev n (waited + 1) d)"

definition pd_send :: "device \<Rightarrow> int \<Rightarrow> nat \<Rightarrow> (pin_driver, exn, nat) routine" where
  "pd_send dev v stall d =
     thenM (pd_cycles dev (\<lambda>_. True) stall (d\<lparr>pd_ui_in := v, pd_uio_in := 0\<rparr>)) (\<lambda>_ d.
       pd_send_loop dev (pd_timeout d) 0 (d\<lparr>pd_uio_in := RX_VALID\<rparr>))"

fun pd_receive_loop :: "device \<Rightarrow> nat \<Rightarrow> nat \<Rightarrow> (pin_driver, exn, int \<times> nat) routine" where
  "pd_receive_loop dev 0 waited d = (Inl AssertionError, d)"
| "pd_receive_loop dev (Suc n) waited d =
     thenM (pd_cycle dev d) (\<lambda>pins d.
       if lp_bit pins TX_VALID then (Inr (lp_uo_out pins, waited), d) else pd_receive_loop dev n (waited + 1) d)"

definition pd_receive :: "device \<Rightarrow> nat \<Rightarrow> (pin_driver, exn, int \<times> bool \<times> nat) routine" where
  "pd_receive dev stall d =
     thenM (pd_receive_loop dev (pd_timeout d) 0 (d\<lparr>pd_uio_in := 0\<rparr>)) (\<lambda>(held, waited) d.
       let holding = (\<lambda>pins. lp_bit pins TX_VALID \<and> lp_uo_out pins = held) in
       thenM (pd_cycles dev holding stall d) (\<lambda>_ d.
       thenM (pd_cycle dev (d\<lparr>pd_uio_in := TX_READY\<rparr>)) (\<lambda>pins d.
         if \<not> holding pins then (Inl AssertionError, d)
         else
           thenM (pd_cycle dev (d\<lparr>pd_uio_in := 0\<rparr>)) (\<lambda>after d.
             (Inr (held, lp_bit after DONE, waited + 1), d)))))"

section \<open>What the oracle computes\<close>

lemma pin_mul_loop_eq: "pin_mul_loop n x y product = lsc1u_loop n product x y"
  by (induction n arbitrary: x y product) (simp_all add: Let_def)

definition operands_of :: "pin_case \<Rightarrow> bytes \<Rightarrow> bytes \<Rightarrow> bool" where
  "operands_of c a b \<longleftrightarrow> length a = 16 \<and> length b = 16 \<and>
     (\<exists>s. pc_a c = Some s \<and> fromhex s = Inr a) \<and> (\<exists>s. pc_b c = Some s \<and> fromhex s = Inr b)"

lemma interleave_nth:
  assumes "length a = n" "length b = n"
  shows "length (concat (map (\<lambda>(x, y). [x, y]) (zip a b))) = 2 * n \<and>
    (\<forall>i<n. concat (map (\<lambda>(x, y). [x, y]) (zip a b)) ! (2 * i) = a ! i \<and>
           concat (map (\<lambda>(x, y). [x, y]) (zip a b)) ! (2 * i + 1) = b ! i)"
  using assms
proof (induction n arbitrary: a b)
  case (Suc n)
  then obtain x xs y ys where ab: "a = x # xs" "b = y # ys" "length xs = n" "length ys = n"
    by (auto simp: length_Suc_conv)
  let ?f = "\<lambda>a b. concat (map (\<lambda>(x, y). [x, y]) (zip a b))"
  have IH: "length (?f xs ys) = 2 * n" "\<And>i. i < n \<Longrightarrow> ?f xs ys ! (2 * i) = xs ! i \<and> ?f xs ys ! (2 * i + 1) = ys ! i"
    using Suc.IH [OF ab(3,4)] by auto
  have "?f a b ! (2 * i) = a ! i \<and> ?f a b ! (2 * i + 1) = b ! i" if "i < Suc n" for i
    using that IH(2) by (cases i) (simp_all add: ab(1,2))
  with IH(1) show ?case by (simp add: ab(1,2))
qed simp

lemma corpus_agrees:
  assumes "operands_of c a b" "pc_opcode c = Some opcode" "map_of OPCODES opcode = Some code"
  shows "\<exists>p e r. pin_payload c = Inr p \<and> pin_expected c = Inr e \<and> lsc1u_execute code p = Inr e \<and>
    stream_execute code p = Inr r \<and> cr_output r = e \<and> cr_input_data_beats r = length p"
proof -
  obtain s t where st: "length a = 16" "length b = 16" "pc_a c = Some s" "fromhex s = Inr a" "pc_b c = Some t" "fromhex t = Inr b"
    using assms(1) by (auto simp: operands_of_def)
  have fa: "fits 128 (le_int a)" "fits 128 (le_int b)" by (rule fits_le_int; simp add: st)+
  consider "opcode = ''XOR''" "code = 1" | "opcode = ''MUL''" "code = 2" | "opcode = ''SET''" "code = 3"
    using assms(3) by (auto simp: OPCODES_def split: if_splits)
  then show ?thesis
  proof cases
    case 1
    let ?p = "concat (map (\<lambda>(x, y). [x, y]) (zip a b))"
    have p: "length ?p = 32" "\<And>i. i < 16 \<Longrightarrow> ?p ! (2 * i) = a ! i \<and> ?p ! (2 * i + 1) = b ! i"
      using interleave_nth [OF st(1,2)] by auto
    have e: "map (\<lambda>k. ?p ! (2 * k) XOR ?p ! (2 * k + 1)) [0..<16] = map (\<lambda>(x, y). x XOR y) (zip a b)"
      by (rule nth_equalityI) (use p st in auto)
    show ?thesis
      using 1 st p(1) e assms(2)
      by (simp add: pin_payload_def pin_expected_def key_of_def lsc1u_execute_def stream_execute_def stream_command_of_def CommandResult_def)
  next
    case 2
    have m: "gf128_mul (le_int a) (le_int b) = field_mul (le_int a) (le_int b)"
      "gf_mul_bitserial (le_int a) (le_int b) 128 REDUCTION_LOW = Inr (field_mul (le_int a) (le_int b))"
      using multipliers_128 [OF fa] by simp_all
    have f: "fits 128 (field_mul (le_int a) (le_int b))" using fits_field_mul by blast
    then have o: "pin_gf128_mul a b = Inr (to_le 16 (field_mul (le_int a) (le_int b)))"
      "int_to_le_bytes (field_mul (le_int a) (le_int b)) 16 = Inr (to_le 16 (field_mul (le_int a) (le_int b)))"
      using m(1) by (simp_all add: pin_gf128_mul_def pin_mul_loop_eq gf128_mul_def int_to_le_bytes_def fits_def)
    show ?thesis
      using 2 st m o assms(2)
      by (simp add: pin_payload_def pin_expected_def key_of_def lsc1u_execute_def stream_execute_def stream_command_of_def
          CommandResult_def le_bytes_to_int_def Let_def)
  next
    case 3
    then show ?thesis
      using st assms(2)
      by (simp add: pin_payload_def pin_expected_def key_of_def lsc1u_execute_def stream_execute_def stream_command_of_def CommandResult_def)
  qed
qed

section \<open>Handshakes\<close>

text \<open>The bytes that cross the pins at one edge, with the history up to that edge.\<close>

definition edge_rx :: "device \<Rightarrow> pin_inputs list \<Rightarrow> int list" where
  "edge_rx dev es =
     (let e = last es; (uo_out, uio_out, uio_oe) = dev es in
      if pi_uio_in e AND RX_VALID \<noteq> 0 \<and> uio_out AND RX_READY \<noteq> 0 then [pi_ui_in e] else [])"

definition edge_tx :: "device \<Rightarrow> pin_inputs list \<Rightarrow> int list" where
  "edge_tx dev es =
     (let e = last es; (uo_out, uio_out, uio_oe) = dev es in
      if uio_out AND TX_VALID \<noteq> 0 \<and> pi_uio_in e AND TX_READY \<noteq> 0 then [uo_out] else [])"

definition rx_transfers :: "device \<Rightarrow> pin_inputs list \<Rightarrow> int list" where
  "rx_transfers dev es = concat (map (\<lambda>n. edge_rx dev (take (Suc n) es)) [0..<length es])"

definition tx_transfers :: "device \<Rightarrow> pin_inputs list \<Rightarrow> int list" where
  "tx_transfers dev es = concat (map (\<lambda>n. edge_tx dev (take (Suc n) es)) [0..<length es])"

lemma rx_transfers_snoc [simp]: "rx_transfers dev (es @ [e]) = rx_transfers dev es @ edge_rx dev (es @ [e])"
  by (simp add: rx_transfers_def prefixes_snoc del: take_append)

lemma tx_transfers_snoc [simp]: "tx_transfers dev (es @ [e]) = tx_transfers dev es @ edge_tx dev (es @ [e])"
  by (simp add: tx_transfers_def prefixes_snoc del: take_append)

text \<open>What a stretch of edges added to the transfers: bytes received and bytes sent by the device.\<close>

definition moved :: "device \<Rightarrow> pin_driver \<Rightarrow> pin_driver \<Rightarrow> int list \<Rightarrow> int list \<Rightarrow> bool" where
  "moved dev d d' rx tx \<longleftrightarrow> rx_transfers dev (pd_edges d') = rx_transfers dev (pd_edges d) @ rx \<and>
     tx_transfers dev (pd_edges d') = tx_transfers dev (pd_edges d) @ tx"

definition same_registers :: "pin_driver \<Rightarrow> pin_driver \<Rightarrow> bool" where
  "same_registers d d' \<longleftrightarrow> d' = d\<lparr>pd_edges := pd_edges d'\<rparr>"

lemma moved_refl [simp]: "moved dev d d [] []"
  by (simp add: moved_def)

lemma moved_trans: "moved dev d d1 rx tx \<Longrightarrow> moved dev d1 d2 rx' tx' \<Longrightarrow> moved dev d d2 (rx @ rx') (tx @ tx')"
  by (simp add: moved_def)

lemma moved_registers [simp]:
  "moved dev d (d'\<lparr>pd_ui_in := u\<rparr>) rx tx = moved dev d d' rx tx" "moved dev d (d'\<lparr>pd_uio_in := w\<rparr>) rx tx = moved dev d d' rx tx"
  "moved dev (d\<lparr>pd_ui_in := u\<rparr>) d' rx tx = moved dev d d' rx tx" "moved dev (d\<lparr>pd_uio_in := w\<rparr>) d' rx tx = moved dev d d' rx tx"
  by (simp_all add: moved_def)

lemma same_registers_refl [simp]: "same_registers d d"
  by (simp add: same_registers_def)

lemma same_registers_trans: "same_registers d d1 \<Longrightarrow> same_registers d1 d2 \<Longrightarrow> same_registers d d2"
  by (metis same_registers_def pin_driver.update_convs(1) pin_driver.surjective)

lemma same_registersD: "same_registers d d' \<Longrightarrow> pd_ui_in d' = pd_ui_in d \<and> pd_uio_in d' = pd_uio_in d \<and> pd_timeout d' = pd_timeout d"
  by (metis same_registers_def pin_driver.simps(9-14) pin_driver.select_convs pin_driver.update_convs(1) pin_driver.surjective)

text \<open>One edge: with neither valid nor ready driven nothing moves; else what the pins decide.\<close>

lemma pd_cycle_moved:
  assumes "pd_cycle dev d = (r, d')"
  shows "same_registers d d' \<and> (\<forall>x. r = Inl x \<longrightarrow> x = AssertionError) \<and>
    (pd_uio_in d = 0 \<longrightarrow> moved dev d d' [] []) \<and>
    (pd_uio_in d = RX_VALID \<longrightarrow> (case r of Inr p \<Rightarrow> moved dev d d' (if lp_bit p RX_READY then [pd_ui_in d] else []) []
       | Inl _ \<Rightarrow> moved dev d d' [] [] \<or> moved dev d d' [pd_ui_in d] [])) \<and>
    (pd_uio_in d = TX_READY \<longrightarrow> (case r of Inr p \<Rightarrow> moved dev d d' [] (if lp_bit p TX_VALID then [lp_uo_out p] else [])
       | Inl _ \<Rightarrow> moved dev d d' [] [] \<or> (\<exists>v. moved dev d d' [] [v])))"
proof -
  let ?es = "pd_edges d @ [pd_inputs d]"
  obtain uo ui oe where v: "dev ?es = (uo, ui, oe)" by (cases "dev ?es")
  have d': "d' = d\<lparr>pd_edges := ?es\<rparr>"
    using assms v by (auto simp: pd_cycle_def Let_def thenM_def liftM_def split: sum.splits if_splits)
  have r: "r = Inl AssertionError \<or> r = Inr \<lparr>lp_uo_out = uo, lp_uio_out = ui, lp_uio_oe = oe\<rparr>"
    using assms v by (auto simp: pd_cycle_def Let_def thenM_def liftM_def LuPins_def split: sum.splits if_splits)
  have m: "moved dev d d' (edge_rx dev ?es) (edge_tx dev ?es)" by (simp add: moved_def d')
  have e: "edge_rx dev ?es = (if pd_uio_in d AND RX_VALID \<noteq> 0 \<and> ui AND RX_READY \<noteq> 0 then [pd_ui_in d] else [])"
    "edge_tx dev ?es = (if ui AND TX_VALID \<noteq> 0 \<and> pd_uio_in d AND TX_READY \<noteq> 0 then [uo] else [])"
    unfolding edge_rx_def edge_tx_def Let_def v by (simp_all add: pd_inputs_def)
  show ?thesis
    using r m by (auto simp: e d' same_registers_def lp_bit_def RX_VALID_def TX_READY_def split: if_splits sum.splits)
qed

lemma pd_cycles_moved:
  assumes "pd_uio_in d = 0" "pd_cycles dev check n d = (r, d')"
  shows "same_registers d d' \<and> moved dev d d' [] [] \<and> (\<forall>x. r = Inl x \<longrightarrow> x = AssertionError)"
  using assms
proof (induction n arbitrary: d)
  case (Suc n)
  obtain r1 d1 where 1: "pd_cycle dev d = (r1, d1)" by force
  note c = pd_cycle_moved [OF 1]
  show ?case
  proof (cases r1)
    case (Inl x)
    then show ?thesis using Suc.prems 1 c by auto
  next
    case (Inr p)
    show ?thesis
    proof (cases "check p")
      case True
      then have "pd_cycles dev check n d1 = (r, d')" using Suc.prems(2) 1 Inr by simp
      moreover have "pd_uio_in d1 = 0" using c Suc.prems(1) same_registersD by metis
      ultimately show ?thesis using Suc.IH c Suc.prems(1) moved_trans [of dev d d1 "[]" "[]" d' "[]" "[]"] same_registers_trans by auto
    next
      case False
      then show ?thesis using Suc.prems 1 Inr c by auto
    qed
  qed
qed auto

lemma pd_send_loop_moved:
  assumes "pd_uio_in d = RX_VALID" "pd_send_loop dev n waited d = (r, d')"
  shows "case r of Inr k \<Rightarrow> moved dev d d' [pd_ui_in d] [] \<and> waited < k \<and> k \<le> waited + n
    | Inl x \<Rightarrow> x = AssertionError \<and> (moved dev d d' [] [] \<or> moved dev d d' [pd_ui_in d] [])"
  using assms
proof (induction n arbitrary: d waited)
  case (Suc n)
  obtain r1 d1 where 1: "pd_cycle dev d = (r1, d1)" by force
  note c = pd_cycle_moved [OF 1]
  show ?case
  proof (cases r1)
    case (Inl x)
    then show ?thesis using Suc.prems 1 c by auto
  next
    case (Inr p)
    show ?thesis
    proof (cases "lp_bit p RX_READY")
      case True
      then show ?thesis using Suc.prems 1 Inr c by auto
    next
      case False
      then have s: "pd_send_loop dev n (waited + 1) d1 = (r, d')" using Suc.prems(2) 1 Inr by simp
      have d1: "pd_uio_in d1 = RX_VALID" "pd_ui_in d1 = pd_ui_in d" using c Suc.prems(1) same_registersD by metis+
      have "moved dev d d1 [] []" using c Inr False Suc.prems(1) by simp
      with Suc.IH [OF d1(1) s] d1(2) show ?thesis
        by (auto split: sum.splits dest: moved_trans)
    qed
  qed
qed auto

lemma pd_receive_loop_moved:
  assumes "pd_uio_in d = 0" "pd_receive_loop dev n waited d = (r, d')"
  shows "moved dev d d' [] [] \<and> same_registers d d' \<and>
    (case r of Inr (v, k) \<Rightarrow> k < waited + n | Inl x \<Rightarrow> x = AssertionError)"
  using assms
proof (induction n arbitrary: d waited)
  case (Suc n)
  obtain r1 d1 where 1: "pd_cycle dev d = (r1, d1)" by force
  note c = pd_cycle_moved [OF 1]
  show ?case
  proof (cases r1)
    case (Inl x)
    then show ?thesis using Suc.prems 1 c by auto
  next
    case (Inr p)
    show ?thesis
    proof (cases "lp_bit p TX_VALID")
      case True
      then show ?thesis using Suc.prems 1 Inr c by auto
    next
      case False
      then have s: "pd_receive_loop dev n (waited + 1) d1 = (r, d')" using Suc.prems(2) 1 Inr by simp
      have d1: "pd_uio_in d1 = 0" using c Suc.prems(1) same_registersD by metis
      have "moved dev d d1 [] []" "same_registers d d1" using c Suc.prems(1) by simp_all
      with Suc.IH [OF d1 s] show ?thesis
        by (auto split: sum.splits dest: moved_trans same_registers_trans)
    qed
  qed
qed auto

lemma pd_send_moved:
  "case pd_send dev v stall d of
     (Inr n, d') \<Rightarrow> moved dev d d' [v] [] \<and> 0 < n \<and> n \<le> pd_timeout d
   | (Inl x, d') \<Rightarrow> x = AssertionError \<and> (moved dev d d' [] [] \<or> moved dev d d' [v] [])"
proof -
  let ?d = "d\<lparr>pd_ui_in := v, pd_uio_in := 0\<rparr>"
  obtain r1 d1 where 1: "pd_cycles dev (\<lambda>_. True) stall ?d = (r1, d1)" by force
  have c: "same_registers ?d d1" "moved dev d d1 [] []" "\<And>x. r1 = Inl x \<Longrightarrow> x = AssertionError"
    using pd_cycles_moved [OF _ 1] by simp_all
  have g: "pd_ui_in d1 = v" "pd_timeout d1 = pd_timeout d" using same_registersD [OF c(1)] by simp_all
  show ?thesis
  proof (cases r1)
    case (Inl x)
    with 1 c show ?thesis by (simp add: pd_send_def)
  next
    case (Inr u)
    obtain r d' where 2: "pd_send_loop dev (pd_timeout d1) 0 (d1\<lparr>pd_uio_in := RX_VALID\<rparr>) = (r, d')" by force
    have "pd_send dev v stall d = (r, d')" using 1 2 Inr by (simp add: pd_send_def)
    moreover have "case r of Inr k \<Rightarrow> moved dev d1 d' [v] [] \<and> 0 < k \<and> k \<le> pd_timeout d
      | Inl x \<Rightarrow> x = AssertionError \<and> (moved dev d1 d' [] [] \<or> moved dev d1 d' [v] [])"
      using pd_send_loop_moved [OF _ 2] by (simp add: g split: sum.splits)
    ultimately show ?thesis using c(2) by (auto split: sum.splits dest: moved_trans)
  qed
qed

lemma pd_receive_moved:
  "case pd_receive dev stall d of
     (Inr (v, is_done, n), d') \<Rightarrow> moved dev d d' [] [v] \<and> 0 < n \<and> n \<le> pd_timeout d
   | (Inl x, d') \<Rightarrow> x = AssertionError \<and> (moved dev d d' [] [] \<or> (\<exists>v. moved dev d d' [] [v]))"
proof -
  obtain r1 d1 where 1: "pd_receive_loop dev (pd_timeout d) 0 (d\<lparr>pd_uio_in := 0\<rparr>) = (r1, d1)" by force
  have c1: "moved dev d d1 [] []" "pd_uio_in d1 = 0" "case r1 of Inr (v, k) \<Rightarrow> k < pd_timeout d | Inl x \<Rightarrow> x = AssertionError"
    using pd_receive_loop_moved [OF _ 1] by (auto dest: same_registersD split: sum.splits)
  show ?thesis
  proof (cases r1)
    case (Inl x)
    with 1 c1 show ?thesis by (simp add: pd_receive_def)
  next
    case (Inr y)
    obtain held k where y: "r1 = Inr (held, k)" using Inr by (cases y) simp
    define h where "h = (\<lambda>pins. lp_bit pins TX_VALID \<and> lp_uo_out pins = held)"
    obtain r2 d2 where 2: "pd_cycles dev h stall d1 = (r2, d2)" by force
    have c2: "moved dev d d2 [] []" "\<And>x. r2 = Inl x \<Longrightarrow> x = AssertionError"
      using pd_cycles_moved [OF c1(2) 2] moved_trans [OF c1(1)] by fastforce+
    obtain r3 d3 where 3: "pd_cycle dev (d2\<lparr>pd_uio_in := TX_READY\<rparr>) = (r3, d3)" by force
    note c3 = pd_cycle_moved [OF 3]
    obtain r4 d4 where 4: "pd_cycle dev (d3\<lparr>pd_uio_in := 0\<rparr>) = (r4, d4)" by force
    have c4: "moved dev d3 d4 [] []" "\<And>x. r4 = Inl x \<Longrightarrow> x = AssertionError" using pd_cycle_moved [OF 4] by simp_all
    have e: "pd_receive dev stall d = (case r2 of Inl x \<Rightarrow> (Inl x, d2) | Inr _ \<Rightarrow> (case r3 of Inl x \<Rightarrow> (Inl x, d3)
        | Inr pins \<Rightarrow> if \<not> h pins then (Inl AssertionError, d3)
            else (case r4 of Inl x \<Rightarrow> (Inl x, d4) | Inr after \<Rightarrow> (Inr (held, lp_bit after DONE, k + 1), d4))))"
      unfolding pd_receive_def 1 y thenM_simps prod.case Let_def h_def [symmetric] 2
      by (simp add: thenM_def 3 4 h_def split: sum.split)
    have t: "moved dev d d3 [] tx \<Longrightarrow> moved dev d d4 [] tx" for tx using moved_trans [OF _ c4(1)] by force
    show ?thesis
    proof (cases r2)
      case (Inl x)
      with e c2 show ?thesis by simp
    next
      case (Inr u)
      note r2 = Inr
      show ?thesis
      proof (cases r3)
        case (Inl x)
        with c3 have "moved dev d2 d3 [] [] \<or> (\<exists>v. moved dev d2 d3 [] [v])" "x = AssertionError" by simp_all
        with moved_trans [OF c2(1)] have "moved dev d d3 [] [] \<or> (\<exists>v. moved dev d d3 [] [v])" by fastforce
        with \<open>x = AssertionError\<close> show ?thesis by (simp add: e r2 Inl)
      next
        case (Inr pins)
        with c3 have "moved dev d2 d3 [] (if lp_bit pins TX_VALID then [lp_uo_out pins] else [])" by simp
        with moved_trans [OF c2(1)] have m: "moved dev d d3 [] (if lp_bit pins TX_VALID then [lp_uo_out pins] else [])" by fastforce
        show ?thesis
        proof (cases "h pins")
          case True
          then have "moved dev d d4 [] [held]" using t [OF m] by (simp add: h_def)
          with True c1(3) c4(2) show ?thesis by (cases r4) (auto simp: e r2 Inr y)
        next
          case False
          with m show ?thesis by (auto simp: e r2 Inr split: if_splits)
        qed
      qed
    qed
  qed
qed

section \<open>The properties\<close>

text \<open>
  The oracle of the pin corpus is the one of the other models: for a case whose operands are
  16 bytes each, the payload the driver sends makes both the LSC-1u model and the transaction
  model of the streaming ALU answer the bytes the corpus expects.
\<close>

theorem lsc1u_corpus_agrees:
  assumes "operands_of c a b" "pc_opcode c = Some opcode" "map_of OPCODES opcode = Some code"
  shows "\<exists>p e r. pin_payload c = Inr p \<and> pin_expected c = Inr e \<and> lsc1u_execute code p = Inr e \<and>
    stream_execute code p = Inr r \<and> cr_output r = e \<and> cr_input_data_beats r = length p"
  by (rule corpus_agrees [OF assms])

definition sample_case :: pin_case where
  "sample_case = \<lparr>pc_opcode = Some ''MUL'', pc_a = Some ''00112233445566778899aabbccddeeff'', pc_b = Some ''ffeeddccbbaa99887766554433221100''\<rparr>"

lemma sample_operands: "\<exists>a b. operands_of sample_case a b"
proof -
  obtain a b where "fromhex ''00112233445566778899aabbccddeeff'' = Inr a" "length a = 16"
    "fromhex ''ffeeddccbbaa99887766554433221100'' = Inr b" "length b = 16"
    by (simp add: hex_digit_def is_space_def Let_def)
  then show ?thesis by (auto simp: operands_of_def sample_case_def)
qed

lemma lsc1u_corpus_agrees_witness: "\<exists>p e. pin_payload sample_case = Inr p \<and> pin_expected sample_case = Inr e \<and> lsc1u_execute 2 p = Inr e"
proof -
  obtain a b where "operands_of sample_case a b" using sample_operands by blast
  from lsc1u_corpus_agrees [OF this, of "''MUL''" 2] show ?thesis by (auto simp: sample_case_def OPCODES_def)
qed

text \<open>
  C24. Whatever device is behind the pins, \<open>send\<close> makes it take the byte at exactly one edge and
  \<open>receive\<close> takes exactly one byte from it, the one it returns; nothing crosses the pins in the
  other direction. When they raise, by a timeout or by a failed check of the pins, it is an
  \<open>AssertionError\<close> and at most that one byte has crossed.
\<close>

theorem pin_transfer_once:
  "(case pd_send dev v stall d of
      (Inr n, d') \<Rightarrow> moved dev d d' [v] [] \<and> 0 < n \<and> n \<le> pd_timeout d
    | (Inl x, d') \<Rightarrow> x = AssertionError \<and> (moved dev d d' [] [] \<or> moved dev d d' [v] [])) \<and>
   (case pd_receive dev stall d of
      (Inr (u, is_done, n), d') \<Rightarrow> moved dev d d' [] [u] \<and> 0 < n \<and> n \<le> pd_timeout d
    | (Inl x, d') \<Rightarrow> x = AssertionError \<and> (moved dev d d' [] [] \<or> (\<exists>u. moved dev d d' [] [u])))"
  by (rule conjI, rule pd_send_moved, rule pd_receive_moved)

end
