(* ===== verification/Serial_World.thy ===== *)
theory Serial_World
  imports Lsc_Prelude
begin

text \<open>
  What the serial host drivers of fpga_harness/host stand on: a transport and a clock that are code
  outside the repository, so arbitrary functions of the calls made so far, and routines over them
  that may raise or never return, with the rules for their sequencing and their loops.
\<close>

section \<open>The world behind a serial port\<close>

text \<open>
  Calls on the transport and readings of the clock, in the order they are made. A call carries the
  time it may take: the code runs it on a worker thread and abandons it after that. Times are
  integers, in whatever unit the clock ticks.
\<close>

datatype event =
    Clock | InWaiting int | ReadBytes int int | WriteBytes bytes int | Flush int | AbortPin | ClockNs | Pause int | Break int

datatype 'a outcome = Returned 'a | Raised | Late

text \<open>What \<open>write\<close> may return: nothing, a count, or an object that is no count.\<close>

datatype written = NoCount | Count int | OtherObject

text \<open>The replies are functions of the history, the call itself last.\<close>

record world =
  w_clock :: "event list \<Rightarrow> int"
  w_clock_ns :: "event list \<Rightarrow> int"
  w_in_waiting :: "event list \<Rightarrow> int outcome"
  w_read :: "event list \<Rightarrow> bytes outcome"
  w_write :: "event list \<Rightarrow> written outcome"
  w_flush :: "event list \<Rightarrow> unit outcome"
  w_abort :: "event list \<Rightarrow> unit outcome"
  w_break :: "event list \<Rightarrow> unit outcome"
  w_has_flush :: bool
  w_has_abort :: bool
  w_has_break :: bool
  w_has_timeout :: bool

text \<open>What every driver on a port keeps: the calls it has made.\<close>

record serial =
  se_events :: "event list"

definition se_now :: "world \<Rightarrow> 'x serial_scheme \<Rightarrow> int \<times> 'x serial_scheme" where
  "se_now w d = (let es = se_events d @ [Clock] in (w_clock w es, d\<lparr>se_events := es\<rparr>))"

text \<open>Routines that may raise, or never return.\<close>

type_synonym ('s, 'e, 'a) proc = "'s \<Rightarrow> (('e + 'a) \<times> 's) option"

definition thenP :: "('s, 'e, 'a) proc \<Rightarrow> ('a \<Rightarrow> ('s, 'e, 'b) proc) \<Rightarrow> ('s, 'e, 'b) proc" where
  "thenP m f s = (case m s of None \<Rightarrow> None | Some (r, s) \<Rightarrow> (case r of Inl x \<Rightarrow> Some (Inl x, s) | Inr v \<Rightarrow> f v s))"

definition liftP :: "'e + 'a \<Rightarrow> ('s, 'e, 'a) proc" where
  "liftP m d = Some (m, d)"

text \<open>\<open>try: m  except: h\<close>, the handler raising in its turn what it is given to raise.\<close>

definition reraise :: "('e \<Rightarrow> 's \<Rightarrow> 'e \<times> 's) \<Rightarrow> ('s, 'e, 'a) proc \<Rightarrow> ('s, 'e, 'a) proc" where
  "reraise h m s = (case m s of Some (Inl x, s) \<Rightarrow> (let (x, s) = h x s in Some (Inl x, s)) | r \<Rightarrow> r)"

text \<open>A loop: the body goes on with a new value of its variables, or returns, or raises.\<close>

partial_function (option) repeatP :: "('v \<Rightarrow> 's \<Rightarrow> ('e + ('v + 'a)) \<times> 's) \<Rightarrow> 'v \<Rightarrow> 's \<Rightarrow> (('e + 'a) \<times> 's) option" where
  "repeatP body v s =
     (case body v s of (r, s) \<Rightarrow>
        (case r of
           Inl x \<Rightarrow> Some (Inl x, s)
         | Inr y \<Rightarrow> (case y of Inr a \<Rightarrow> Some (Inr a, s) | Inl v \<Rightarrow> repeatP body v s)))"

declare repeatP.simps [code]

section \<open>Rules for routines that may not return\<close>

lemma thenP_Some:
  "thenP m f s = Some (r, s') \<longleftrightarrow>
     (\<exists>x. m s = Some (Inl x, s') \<and> r = Inl x) \<or> (\<exists>v s1. m s = Some (Inr v, s1) \<and> f v s1 = Some (r, s'))"
  by (auto simp: thenP_def split: option.splits sum.splits)

lemma reraise_Some:
  "reraise h m s = Some (r, s') \<longleftrightarrow>
     (\<exists>x s1 y. m s = Some (Inl x, s1) \<and> h x s1 = (y, s') \<and> r = Inl y) \<or> (\<exists>v. m s = Some (Inr v, s') \<and> r = Inr v)"
  by (auto simp: reraise_def split: option.splits sum.splits prod.splits)

text \<open>Partial correctness of a loop: an invariant, and what it gives on each way out.\<close>

lemma repeatP_rule:
  assumes run: "repeatP body v s = Some (r, s')" and start: "I v s"
    and step: "\<And>v s r s'. I v s \<Longrightarrow> body v s = (r, s') \<Longrightarrow>
      (case r of Inl x \<Rightarrow> E x s' | Inr y \<Rightarrow> (case y of Inl v' \<Rightarrow> I v' s' | Inr a \<Rightarrow> Q a s'))"
  shows "case r of Inl x \<Rightarrow> E x s' | Inr a \<Rightarrow> Q a s'"
proof -
  let ?P = "\<lambda>b v s z. b = body \<longrightarrow> I v s \<longrightarrow> (case fst z of Inl x \<Rightarrow> E x (snd z) | Inr a \<Rightarrow> Q a (snd z))"
  have "?P body v s (r, s')"
    using run
  proof (induction rule: repeatP.raw_induct [rotated, consumes 1, case_names step, where P = ?P])
    case (step rec b v s z)
    show ?case
    proof (intro impI)
      assume b: "b = body" and i: "I v s"
      obtain q s1 where 1: "body v s = (q, s1)" by force
      note q = assms(3) [OF i 1]
      show "case fst z of Inl x \<Rightarrow> E x (snd z) | Inr a \<Rightarrow> Q a (snd z)"
      proof (cases "\<exists>v'. q = Inr (Inl v')")
        case True
        then obtain v' where v': "q = Inr (Inl v')" by blast
        then have "rec body v' s1 = Some z" using step(2) by (simp add: b 1)
        from step(1) [OF this] q show ?thesis by (simp add: v')
      next
        case False
        with q step(2) show ?thesis by (auto simp: b 1 split: sum.splits)
      qed
    qed
  qed
  with start show ?thesis by (auto split: sum.splits)
qed

text \<open>Total correctness: the invariant and a measure that the next round lowers.\<close>

lemma repeatP_terminates:
  fixes m :: "'v \<Rightarrow> 's \<Rightarrow> nat"
  assumes "I v s"
    and step: "\<And>v s r s' v'. I v s \<Longrightarrow> body v s = (Inr (Inl v'), s') \<Longrightarrow> I v' s' \<and> m v' s' < m v s"
  shows "repeatP body v s \<noteq> None"
  using assms(1)
proof (induction "m v s" arbitrary: v s rule: less_induct)
  case less
  obtain r s1 where 1: "body v s = (r, s1)" by force
  show ?case
  proof (cases "\<exists>v'. r = Inr (Inl v')")
    case True
    then obtain v' where r: "r = Inr (Inl v')" by blast
    have "I v' s1" "m v' s1 < m v s" using step [OF less.prems, of v' s1] 1 r by simp_all
    with less.hyps have "repeatP body v' s1 \<noteq> None" by blast
    then show ?thesis by (subst repeatP.simps) (simp add: 1 r)
  next
    case False
    then show ?thesis by (subst repeatP.simps) (auto simp: 1 split: sum.splits)
  qed
qed

text \<open>Partial correctness of routines put together: \<open>E\<close> when they raise, \<open>Q\<close> when they return.\<close>

definition yields :: "('s, 'e, 'a) proc \<Rightarrow> 's \<Rightarrow> ('e \<Rightarrow> 's \<Rightarrow> bool) \<Rightarrow> ('a \<Rightarrow> 's \<Rightarrow> bool) \<Rightarrow> bool" where
  "yields m s E Q \<longleftrightarrow> (\<forall>r s'. m s = Some (r, s') \<longrightarrow> (case r of Inl x \<Rightarrow> E x s' | Inr a \<Rightarrow> Q a s'))"

lemma yieldsD: "yields m s E Q \<Longrightarrow> m s = Some (r, s') \<Longrightarrow> (case r of Inl x \<Rightarrow> E x s' | Inr a \<Rightarrow> Q a s')"
  by (simp add: yields_def)

lemma yields_then: "yields m s E R \<Longrightarrow> (\<And>a s'. R a s' \<Longrightarrow> yields (f a) s' E Q) \<Longrightarrow> yields (thenP m f) s E Q"
  unfolding yields_def thenP_Some by (fastforce split: sum.splits)

lemma yields_reraise:
  "yields m s E' Q \<Longrightarrow> (\<And>x s'. E' x s' \<Longrightarrow> E (fst (h x s')) (snd (h x s'))) \<Longrightarrow> yields (reraise h m) s E Q"
  unfolding yields_def reraise_Some by (fastforce split: sum.splits)

lemma yields_mono:
  "yields m s E Q \<Longrightarrow> (\<And>x s'. E x s' \<Longrightarrow> E' x s') \<Longrightarrow> (\<And>a s'. Q a s' \<Longrightarrow> Q' a s') \<Longrightarrow> yields m s E' Q'"
  unfolding yields_def by (fastforce split: sum.splits)

lemma yields_lift: "(case m of Inl x \<Rightarrow> E x s | Inr a \<Rightarrow> Q a s) \<Longrightarrow> yields (liftP m) s E Q"
  by (auto simp: yields_def liftP_def)

section \<open>Bytes sent\<close>

text \<open>
  What the port may have sent with the last call of a history. A count in range, or none, is its
  word; after a call that raised, was abandoned on its thread or answered nonsense, any part of the
  bytes offered may be on the line.
\<close>

definition offers :: "world \<Rightarrow> event list \<Rightarrow> bytes list" where
  "offers w es =
     (case last es of
        WriteBytes data _ \<Rightarrow>
          (let partial = map (\<lambda>n. take n data) [0..<Suc (length data)] in
           case w_write w es of
             Returned NoCount \<Rightarrow> [data]
           | Returned (Count n) \<Rightarrow> (if 0 \<le> n \<and> n \<le> int (length data) then [take (nat n) data] else partial)
           | _ \<Rightarrow> partial)
      | _ \<Rightarrow> [[]])"

text \<open>All that may have been sent with some calls after a history.\<close>

definition joins :: "bytes list \<Rightarrow> bytes list \<Rightarrow> bytes list" where
  "joins ss ts = concat (map (\<lambda>s. map ((@) s) ts) ss)"

fun sendings :: "world \<Rightarrow> event list \<Rightarrow> event list \<Rightarrow> bytes list" where
  "sendings w es [] = [[]]"
| "sendings w es (e # new) = joins (offers w (es @ [e])) (sendings w (es @ [e]) new)"

lemma set_joins: "set (joins ss ts) = {s @ t | s t. s \<in> set ss \<and> t \<in> set ts}"
  by (auto simp: joins_def)

lemma joins_map: "joins (map ((@) s) ts) us = map ((@) s) (joins ts us)"
  by (induction ts) (simp_all add: joins_def)

lemma joins_assoc: "joins (joins ss ts) us = joins ss (joins ts us)"
proof (induction ss)
  case (Cons s ss)
  have "joins (s # ss) vs = map ((@) s) vs @ joins ss vs" for vs by (simp add: joins_def)
  moreover have "joins (vs @ vs') us = joins vs us @ joins vs' us" for vs vs' by (simp add: joins_def)
  ultimately show ?case by (simp add: Cons joins_map)
qed (simp add: joins_def)

lemma joins_empty [simp]: "joins [[]] ts = ts"
  by (simp add: joins_def map_idI)

lemma joins_single [simp]: "joins [s] [t] = [s @ t]"
  by (simp add: joins_def)

lemma sendings_append: "sendings w es (new @ new') = joins (sendings w es new) (sendings w (es @ new) new')"
  by (induction new arbitrary: es) (simp_all add: joins_assoc)

text \<open>Between two states exactly \<open>bs\<close> was sent; at most a beginning of \<open>bs\<close> was.\<close>

definition sends :: "world \<Rightarrow> 'x serial_scheme \<Rightarrow> 'x serial_scheme \<Rightarrow> bytes \<Rightarrow> bool" where
  "sends w d d' bs \<longleftrightarrow> (\<exists>new. se_events d' = se_events d @ new \<and> set (sendings w (se_events d) new) = {bs})"

definition may_send :: "world \<Rightarrow> 'x serial_scheme \<Rightarrow> 'x serial_scheme \<Rightarrow> bytes \<Rightarrow> bool" where
  "may_send w d d' bs \<longleftrightarrow>
     (\<exists>new. se_events d' = se_events d @ new \<and> list_all (\<lambda>s. s = take (length s) bs) (sendings w (se_events d) new))"

lemma sends_refl [simp]: "sends w d d []"
  by (simp add: sends_def)

lemma sends_trans:
  assumes "sends w d d1 bs" "sends w d1 d2 cs"
  shows "sends w d d2 (bs @ cs)"
proof -
  obtain new new' where n: "se_events d1 = se_events d @ new" "set (sendings w (se_events d) new) = {bs}"
      "se_events d2 = se_events d1 @ new'" "set (sendings w (se_events d1) new') = {cs}"
    using assms by (auto simp: sends_def)
  from n(4) have "set (sendings w (se_events d @ new) new') = {cs}" by (simp only: n(1))
  with n show ?thesis unfolding sends_def by (intro exI [of _ "new @ new'"]) (auto simp: sendings_append set_joins)
qed

lemma may_send_trans:
  assumes "sends w d d1 bs" "may_send w d1 d2 cs"
  shows "may_send w d d2 (bs @ cs)"
proof -
  obtain new new' where n: "se_events d1 = se_events d @ new" "set (sendings w (se_events d) new) = {bs}"
      "se_events d2 = se_events d1 @ new'" "list_all (\<lambda>s. s = take (length s) cs) (sendings w (se_events d1) new')"
    using assms by (auto simp: sends_def may_send_def)
  from n(4) have "list_all (\<lambda>s. s = take (length s) cs) (sendings w (se_events d @ new) new')" by (simp only: n(1))
  with n show ?thesis unfolding may_send_def list_all_iff
    by (intro exI [of _ "new @ new'"]) (auto simp: sendings_append set_joins)
qed

lemma may_send_then:
  assumes "may_send w d d1 bs" "sends w d1 d2 []"
  shows "may_send w d d2 bs"
proof -
  obtain new new' where n: "se_events d1 = se_events d @ new" "list_all (\<lambda>s. s = take (length s) bs) (sendings w (se_events d) new)"
      "se_events d2 = se_events d1 @ new'" "set (sendings w (se_events d1) new') = {[]}"
    using assms by (auto simp: sends_def may_send_def)
  from n(4) have "set (sendings w (se_events d @ new) new') = {[]}" by (simp only: n(1))
  with n show ?thesis unfolding may_send_def list_all_iff
    by (intro exI [of _ "new @ new'"]) (auto simp: sendings_append set_joins)
qed

lemma sends_may: "sends w d d' bs \<Longrightarrow> may_send w d d' (bs @ cs)"
  by (auto simp: sends_def may_send_def list_all_iff)

lemma sends_event: "offers w (se_events d @ [e]) = [bs] \<Longrightarrow> se_events d' = se_events d @ [e] \<Longrightarrow> sends w d d' bs"
  by (auto simp: sends_def)

lemma may_send_event:
  "list_all (\<lambda>s. s = take (length s) bs) (offers w (se_events d @ [e])) \<Longrightarrow> se_events d' = se_events d @ [e] \<Longrightarrow> may_send w d d' bs"
  by (auto simp: may_send_def list_all_iff set_joins)

lemma offers_quiet: "(\<And>data t. e \<noteq> WriteBytes data t) \<Longrightarrow> offers w (es @ [e]) = [[]]"
  by (auto simp: offers_def split: event.splits)

lemma offers_beginnings: "list_all (\<lambda>s. s = take (length s) data) (offers w (es @ [WriteBytes data t]))"
  by (auto simp: offers_def Let_def list_all_iff min_def split: outcome.splits written.splits)

lemma sends_now: "se_now w d = (t, d') \<Longrightarrow> sends w d d' []"
  by (rule sends_event [where e = Clock]) (auto simp: se_now_def Let_def offers_quiet)

end
