(* ===== verification/Mincore_Uart.thy ===== *)
theory Mincore_Uart
  imports Serial_World Stream_Alu
begin

text \<open>
  The diagnostic driver of the historical MinCore lane (fpga_harness/host/mincore_uart.py): its
  requests and responses, its golden vectors, and \<open>MinCoreDriver\<close> with the deadline that all
  phases of an exchange share. The command line and the evidence files are left out.
\<close>

section \<open>Requests and responses\<close>

datatype mincore_exn =
    TransportTimeout bytes | ResponseError bytes | AbortUnavailable bytes | TransportFailure bytes
  | BadValue | UnknownKey | TransportRaised

text \<open>The subclasses of \<open>MinCoreError\<close> carry the bytes that did arrive.\<close>

definition is_mincore_error :: "mincore_exn \<Rightarrow> bool" where
  "is_mincore_error x \<longleftrightarrow> x \<notin> {BadValue, UnknownKey, TransportRaised}"

fun observed :: "mincore_exn \<Rightarrow> bytes" where
  "observed (TransportTimeout bs) = bs"
| "observed (ResponseError bs) = bs"
| "observed (AbortUnavailable bs) = bs"
| "observed (TransportFailure bs) = bs"
| "observed _ = []"

fun set_observed :: "bytes \<Rightarrow> mincore_exn \<Rightarrow> mincore_exn" where
  "set_observed bs (TransportTimeout _) = TransportTimeout bs"
| "set_observed bs (ResponseError _) = ResponseError bs"
| "set_observed bs (AbortUnavailable _) = AbortUnavailable bs"
| "set_observed bs (TransportFailure _) = TransportFailure bs"
| "set_observed bs x = x"

definition MC_STATUS_BYTES :: bytes where
  "MC_STATUS_BYTES = [0x01, 0x01, 0x0f, 0x08]"

definition require_16 :: "bytes \<Rightarrow> mincore_exn + bytes" where
  "require_16 v = (if length v \<noteq> 16 then Inl BadValue else Inr v)"

definition response_length :: "string \<Rightarrow> mincore_exn + nat" where
  "response_length operation =
     (case map_of [(''xor'', 16), (''mul'', 16), (''set'', 16), (''status'', 4), (''clear'', 0)] operation of
        None \<Rightarrow> Inl UnknownKey | Some n \<Rightarrow> Inr n)"

definition encode_mincore :: "string \<Rightarrow> bytes \<Rightarrow> bytes \<Rightarrow> bytes \<Rightarrow> mincore_exn + bytes" where
  "encode_mincore operation a b v =
     (if operation = ''xor'' then
        bindE (require_16 a) (\<lambda>a. bindE (require_16 b) (\<lambda>b. Inr (0x01 # concat (map (\<lambda>(x, y). [x, y]) (zip a b)))))
      else if operation = ''mul'' then
        bindE (require_16 a) (\<lambda>a. bindE (require_16 b) (\<lambda>b. Inr (0x02 # a @ b)))
      else if operation = ''set'' then bindE (require_16 v) (\<lambda>v. Inr (0x03 # v))
      else if operation = ''clear'' then Inr [0x7D]
      else if operation = ''status'' then Inr [0x7E]
      else Inl BadValue)"

definition decode_mincore :: "string \<Rightarrow> bytes \<Rightarrow> mincore_exn + bytes" where
  "decode_mincore operation response =
     bindE (response_length operation) (\<lambda>needed.
       if length response \<noteq> needed then Inl (ResponseError response)
       else if operation = ''status'' \<and> response \<noteq> MC_STATUS_BYTES then Inl (ResponseError response)
       else Inr response)"

record mc_vector =
  vc_name :: string
  vc_operation :: string
  vc_a :: bytes
  vc_b :: bytes
  vc_value :: bytes
  vc_expected :: bytes

definition VECTORS :: "mc_vector list" where
  "VECTORS =
     [\<lparr>vc_name = ''set128'', vc_operation = ''set'', vc_a = [], vc_b = [],
       vc_value = [0x00, 0x01, 0x02, 0x03, 0x04, 0x05, 0x06, 0x07, 0x08, 0x09, 0x0a, 0x0b, 0x0c, 0x0d, 0x0e, 0x0f],
       vc_expected = [0x00, 0x01, 0x02, 0x03, 0x04, 0x05, 0x06, 0x07, 0x08, 0x09, 0x0a, 0x0b, 0x0c, 0x0d, 0x0e, 0x0f]\<rparr>,
      \<lparr>vc_name = ''xor128'', vc_operation = ''xor'',
       vc_a = [0x00, 0x01, 0x02, 0x03, 0x04, 0x05, 0x06, 0x07, 0x08, 0x09, 0x0a, 0x0b, 0x0c, 0x0d, 0x0e, 0x0f],
       vc_b = [0xf0, 0xf1, 0xf2, 0xf3, 0xf4, 0xf5, 0xf6, 0xf7, 0xf8, 0xf9, 0xfa, 0xfb, 0xfc, 0xfd, 0xfe, 0xff],
       vc_value = [],
       vc_expected = [0xf0, 0xf0, 0xf0, 0xf0, 0xf0, 0xf0, 0xf0, 0xf0, 0xf0, 0xf0, 0xf0, 0xf0, 0xf0, 0xf0, 0xf0, 0xf0]\<rparr>,
      \<lparr>vc_name = ''mul128'', vc_operation = ''mul'',
       vc_a = [0x00, 0x11, 0x22, 0x33, 0x44, 0x55, 0x66, 0x77, 0x88, 0x99, 0xaa, 0xbb, 0xcc, 0xdd, 0xee, 0xff],
       vc_b = [0xff, 0xee, 0xdd, 0xcc, 0xbb, 0xaa, 0x99, 0x88, 0x77, 0x66, 0x55, 0x44, 0x33, 0x22, 0x11, 0x00],
       vc_value = [],
       vc_expected = [0xc0, 0x43, 0x24, 0x8e, 0x79, 0xcf, 0xa8, 0x02, 0x85, 0x06, 0x61, 0xcb, 0x3c, 0x8a, 0xed, 0x47]\<rparr>]"

text \<open>The arguments of a run, and with a vector what the answer has to be.\<close>

definition operation_inputs :: "string option \<Rightarrow> string \<Rightarrow> bytes \<Rightarrow> bytes \<Rightarrow> bytes \<Rightarrow>
    mincore_exn + bytes \<times> bytes \<times> bytes \<times> bytes option" where
  "operation_inputs name operation a b v =
     (case name of
        None \<Rightarrow> Inr (a, b, v, None)
      | Some n \<Rightarrow>
          (case find (\<lambda>vc. vc_name vc = n) VECTORS of
             None \<Rightarrow> Inl UnknownKey
           | Some vc \<Rightarrow>
               if operation \<noteq> vc_operation vc then Inl BadValue
               else Inr (vc_a vc, vc_b vc, vc_value vc, Some (vc_expected vc))))"

section \<open>The driver\<close>

record mincore_driver = serial +
  md_timeout :: int
  md_usable :: bool

type_synonym 'a md_proc = "(mincore_driver, mincore_exn, 'a) proc"

definition MinCoreDriver :: "int \<Rightarrow> mincore_exn + mincore_driver" where
  "MinCoreDriver timeout =
     (if timeout \<le> 0 then Inl BadValue else Inr \<lparr>se_events = [], md_timeout = timeout, md_usable = True\<rparr>)"

datatype call_failure = TimedOut | CallRaised

text \<open>\<open>_bounded\<close>: a call that is not started without a budget, and abandoned when it is late.\<close>

definition md_bounded :: "(event list \<Rightarrow> 'a outcome) \<Rightarrow> (int \<Rightarrow> event) \<Rightarrow> int \<Rightarrow> (mincore_driver, call_failure, 'a) routine" where
  "md_bounded call mk budget d =
     (if budget \<le> 0 then (Inl TimedOut, d)
      else
        let d = d\<lparr>se_events := se_events d @ [mk budget]\<rparr> in
        case call (se_events d) of
          Returned v \<Rightarrow> (Inr v, d)
        | Raised \<Rightarrow> (Inl CallRaised, d)
        | Late \<Rightarrow> (Inl TimedOut, d))"

text \<open>What the callers make of a failed call, with the bytes to report.\<close>

definition failure_of :: "bytes \<Rightarrow> call_failure \<Rightarrow> mincore_exn" where
  "failure_of bs x = (case x of TimedOut \<Rightarrow> TransportTimeout bs | CallRaised \<Rightarrow> TransportFailure bs)"

definition buffered_count :: "world \<Rightarrow> int \<Rightarrow> (mincore_driver, mincore_exn, int) routine" where
  "buffered_count w budget d =
     (case md_bounded (w_in_waiting w) InWaiting budget d of
        (Inl x, d) \<Rightarrow> (Inl (failure_of [] x), d)
      | (Inr n, d) \<Rightarrow> (Inr (max 0 n), d))"

definition md_deadline :: "world \<Rightarrow> int option \<Rightarrow> mincore_driver \<Rightarrow> int \<times> mincore_driver" where
  "md_deadline w deadline d =
     (case deadline of Some t \<Rightarrow> (t, d) | None \<Rightarrow> (let (t, d) = se_now w d in (t + md_timeout d, d)))"

definition drain_body :: "world \<Rightarrow> int \<Rightarrow> bytes \<Rightarrow> (mincore_driver, mincore_exn, bytes + bytes) routine" where
  "drain_body w deadline drained d =
     (let (t, d) = se_now w d in
      case buffered_count w (deadline - t) d of
        (Inl x, d) \<Rightarrow> (Inl (set_observed drained x), d\<lparr>md_usable := False\<rparr>)
      | (Inr buffered, d) \<Rightarrow>
          if buffered \<le> 0 then (Inr (Inr drained), d)
          else
            let (t, d) = se_now w d in
            case md_bounded (w_read w) (ReadBytes (min buffered 4096)) (deadline - t) d of
              (Inl x, d) \<Rightarrow> (Inl (failure_of drained x), d\<lparr>md_usable := False\<rparr>)
            | (Inr chunk, d) \<Rightarrow> (Inr (Inl (if chunk \<noteq> [] then drained @ chunk else drained)), d))"

definition drain_stale :: "world \<Rightarrow> int option \<Rightarrow> bytes md_proc" where
  "drain_stale w deadline d = (let (deadline, d) = md_deadline w deadline d in repeatP (drain_body w deadline) [] d)"

definition write_body :: "world \<Rightarrow> bytes \<Rightarrow> int \<Rightarrow> nat \<Rightarrow> (mincore_driver, mincore_exn, nat + unit) routine" where
  "write_body w data deadline offset d =
     (if offset \<ge> length data then (Inr (Inr ()), d)
      else
        let (t, d) = se_now w d; remaining = deadline - t in
        if remaining \<le> 0 then (Inl (TransportTimeout []), d)
        else
          case md_bounded (w_write w) (WriteBytes (drop offset data)) remaining d of
            (Inl x, d) \<Rightarrow> (Inl (failure_of [] x), d)
          | (Inr written, d) \<Rightarrow>
              (case written of
                 NoCount \<Rightarrow> (Inr (Inl (offset + (length data - offset))), d)
               | Count n \<Rightarrow>
                   if n < 0 \<or> n > int (length data - offset) then (Inl (TransportFailure []), d)
                   else (Inr (Inl (offset + nat n)), d)
               | OtherObject \<Rightarrow> (Inl (TransportFailure []), d)))"

definition write_all :: "world \<Rightarrow> bytes \<Rightarrow> int option \<Rightarrow> unit md_proc" where
  "write_all w data deadline d = (let (deadline, d) = md_deadline w deadline d in repeatP (write_body w data deadline) 0 d)"

definition read_body :: "world \<Rightarrow> nat \<Rightarrow> int \<Rightarrow> bytes \<Rightarrow> (mincore_driver, mincore_exn, bytes + bytes) routine" where
  "read_body w amount deadline data d =
     (if length data \<ge> amount then (Inr (Inr data), d)
      else
        let (t, d) = se_now w d; remaining = deadline - t in
        if remaining \<le> 0 then (Inl (TransportTimeout data), d)
        else
          case md_bounded (w_read w) (ReadBytes (int (amount - length data))) remaining d of
            (Inl x, d) \<Rightarrow> (Inl (failure_of data x), d)
          | (Inr chunk, d) \<Rightarrow>
              if chunk \<noteq> [] then
                if length chunk > amount - length data then (Inl (TransportFailure (data @ chunk)), d)
                else
                  let data = data @ chunk; (t, d) = se_now w d in
                  if t > deadline then (Inl (TransportTimeout data), d) else (Inr (Inl data), d)
              else
                let (t, d) = se_now w d in
                if t \<ge> deadline then (Inl (TransportTimeout data), d) else (Inr (Inl data), d))"

definition read_exact :: "world \<Rightarrow> nat \<Rightarrow> int option \<Rightarrow> bytes md_proc" where
  "read_exact w amount deadline d = (let (deadline, d) = md_deadline w deadline d in repeatP (read_body w amount deadline) [] d)"

definition flush_output :: "world \<Rightarrow> int option \<Rightarrow> unit md_proc" where
  "flush_output w deadline d =
     (if \<not> w_has_flush w then Some (Inr (), d)
      else
        let (deadline, d) = md_deadline w deadline d; (t, d) = se_now w d in
        case md_bounded (w_flush w) Flush (deadline - t) d of
          (Inl x, d) \<Rightarrow> Some (Inl (failure_of [] x), d)
        | (Inr _, d) \<Rightarrow> Some (Inr (), d))"

definition reject_buffered_extra :: "world \<Rightarrow> int option \<Rightarrow> bytes \<Rightarrow> unit md_proc" where
  "reject_buffered_extra w deadline response =
     thenP (reraise (\<lambda>x d. (set_observed (response @ observed x) x, d)) (drain_stale w deadline)) (\<lambda>extra d.
       if extra \<noteq> [] then Some (Inl (ResponseError (response @ extra)), d) else Some (Inr (), d))"

text \<open>An error leaves with what was received so far if it reports nothing itself.\<close>

definition report :: "bytes \<Rightarrow> mincore_exn \<Rightarrow> mincore_driver \<Rightarrow> mincore_exn \<times> mincore_driver" where
  "report response x d = (if is_mincore_error x \<and> observed x = [] then set_observed response x else x, d)"

text \<open>The phases up to the complete response, and those that judge it.\<close>

definition exchange_response :: "world \<Rightarrow> string \<Rightarrow> bytes \<Rightarrow> int option \<Rightarrow> bytes md_proc" where
  "exchange_response w operation request deadline =
     thenP (reraise (\<lambda>x d. (set_observed [] x, d)) (drain_stale w deadline)) (\<lambda>_.
     thenP (write_all w request deadline) (\<lambda>_.
     thenP (liftP (response_length operation)) (\<lambda>needed.
     thenP (if needed = 0 then flush_output w deadline else liftP (Inr ())) (\<lambda>_.
     read_exact w needed deadline))))"

definition exchange_check :: "world \<Rightarrow> string \<Rightarrow> bytes \<Rightarrow> int option \<Rightarrow> unit md_proc" where
  "exchange_check w operation response deadline =
     thenP (liftP (decode_mincore operation response)) (\<lambda>_. reject_buffered_extra w deadline response)"

definition md_exchange :: "world \<Rightarrow> string \<Rightarrow> bytes \<Rightarrow> bytes \<Rightarrow> bytes \<Rightarrow> (bytes \<times> bytes) md_proc" where
  "md_exchange w operation a b v d =
     (if \<not> md_usable d then Some (Inl (TransportFailure []), d)
      else
        case encode_mincore operation a b v of
          Inl x \<Rightarrow> Some (Inl x, d)
        | Inr request \<Rightarrow>
            let (t, d) = se_now w (d\<lparr>md_usable := False\<rparr>);
                deadline = Some (t + md_timeout d) in
            thenP (reraise (report []) (exchange_response w operation request deadline)) (\<lambda>response.
            thenP (reraise (report response) (exchange_check w operation response deadline)) (\<lambda>_ d.
            Some (Inr (request, response), d\<lparr>md_usable := True\<rparr>))) d)"

definition md_abort :: "world \<Rightarrow> unit md_proc" where
  "md_abort w d =
     (if \<not> w_has_abort w then Some (Inl (AbortUnavailable []), d)
      else
        let d = d\<lparr>se_events := se_events d @ [AbortPin]\<rparr> in
        case w_abort w (se_events d) of
          Returned _ \<Rightarrow> Some (Inr (), d)
        | Raised \<Rightarrow> Some (Inl TransportRaised, d)
        | Late \<Rightarrow> None)"

end
