(* ===== verification/Mincore_Exchange.thy ===== *)
theory Mincore_Exchange
  imports Mincore_Uart
begin

text \<open>
  An exchange of the diagnostic driver hands over its request at most once, poisons the driver
  unless it succeeds, and ends within its window; its requests are commands of the streaming ALU.
\<close>

text \<open>A stretch of an exchange: calls were added, \<open>bs\<close> was sent, the driver did not recover.\<close>

definition went :: "world \<Rightarrow> mincore_driver \<Rightarrow> mincore_driver \<Rightarrow> bytes \<Rightarrow> bool" where
  "went w d d' bs \<longleftrightarrow> sends w d d' bs \<and> md_timeout d' = md_timeout d \<and> (md_usable d' \<longrightarrow> md_usable d)"

text \<open>One after which no more than a beginning of \<open>bs\<close> can be on the line.\<close>

definition strayed :: "world \<Rightarrow> mincore_driver \<Rightarrow> mincore_driver \<Rightarrow> bytes \<Rightarrow> bool" where
  "strayed w d d' bs \<longleftrightarrow> may_send w d d' bs \<and> (md_usable d' \<longrightarrow> md_usable d)"

lemma went_refl [simp]: "went w d d []"
  by (simp add: went_def)

lemma went_trans: "went w d d1 bs \<Longrightarrow> went w d1 d2 cs \<Longrightarrow> went w d d2 (bs @ cs)"
  using sends_trans by (auto simp: went_def)

lemma went_quiet: "went w d d1 bs \<Longrightarrow> went w d1 d2 [] \<Longrightarrow> went w d d2 bs"
  using went_trans by fastforce

lemma went_strayed: "went w d d1 bs \<Longrightarrow> strayed w d1 d2 cs \<Longrightarrow> strayed w d d2 (bs @ cs)"
  using may_send_trans by (auto simp: went_def strayed_def)

lemma went_beginning: "went w d d' bs \<Longrightarrow> strayed w d d' (bs @ cs)"
  by (auto simp: went_def strayed_def intro: sends_may)

lemma went_none: "went w d d' [] \<Longrightarrow> strayed w d d' bs"
  using went_beginning [of w d d' "[]" bs] by simp

lemma went_unusable [simp]: "went w d d' bs \<Longrightarrow> went w d (d'\<lparr>md_usable := False\<rparr>) bs"
  by (simp add: went_def sends_def)

lemma went_now: "se_now w d = (t, d') \<Longrightarrow> went w d d' []"
  using sends_now [of w d t d'] by (auto simp: se_now_def Let_def went_def)

lemma went_deadline: "md_deadline w deadline d = (t, d') \<Longrightarrow> went w d d' []"
  by (auto simp: md_deadline_def split: option.splits prod.splits dest!: went_now)

lemma bounded_kept:
  "md_bounded call mk budget d = (r, d') \<Longrightarrow> md_timeout d' = md_timeout d \<and> md_usable d' = md_usable d \<and>
     (d' = d \<or> se_events d' = se_events d @ [mk budget])"
  by (auto simp: md_bounded_def Let_def split: if_splits outcome.splits)

lemma went_bounded:
  assumes "md_bounded call mk budget d = (r, d')" "\<And>b data c. mk b \<noteq> WriteBytes data c"
  shows "went w d d' []"
  using bounded_kept [OF assms(1)] assms(2) by (auto simp: went_def intro: sends_event [OF offers_quiet])

text \<open>A write: the bytes counted, or after a failure or a bad count a beginning of those offered.\<close>

lemma went_write:
  assumes "md_bounded (w_write w) (WriteBytes data) budget d = (r, d')"
  shows "case r of
      Inr NoCount \<Rightarrow> went w d d' data
    | Inr (Count n) \<Rightarrow> if n < 0 \<or> n > int (length data) then strayed w d d' data else went w d d' (take (nat n) data)
    | _ \<Rightarrow> strayed w d d' data"
proof -
  have s: "strayed w d d' data"
    using bounded_kept [OF assms] may_send_event [OF offers_beginnings] sends_may [OF sends_refl]
    by (fastforce simp: strayed_def)
  have "went w d d' (case v of Count n \<Rightarrow> take (nat n) data | _ \<Rightarrow> data)"
    if "r = Inr v" "v = NoCount \<or> (\<exists>n. v = Count n \<and> 0 \<le> n \<and> n \<le> int (length data))" for v
    using assms that
    by (auto simp: went_def md_bounded_def Let_def offers_def intro!: sends_event split: if_splits outcome.splits)
  with s show ?thesis by (fastforce split: sum.splits written.splits)
qed

lemma went_count: "buffered_count w budget d = (r, d') \<Longrightarrow> went w d d' []"
  by (auto simp: buffered_count_def split: prod.splits sum.splits dest!: went_bounded [where w = w])

lemma went_drain_body:
  assumes "drain_body w deadline drained d = (r, d')"
  shows "went w d d' []"
proof -
  obtain t d1 where 1: "se_now w d = (t, d1)" by force
  obtain q d2 where 2: "buffered_count w (deadline - t) d1 = (q, d2)" by force
  have w2: "went w d d2 []" using went_quiet [OF went_now [OF 1] went_count [OF 2]] .
  obtain t' d3 where 3: "se_now w d2 = (t', d3)" by force
  have w3: "went w d d3 []" using went_quiet [OF w2 went_now [OF 3]] .
  have w4: "md_bounded (w_read w) (ReadBytes n) b d3 = (q', d4) \<Longrightarrow> went w d d4 []" for n b q' d4
    using went_quiet [OF w3 went_bounded [where w = w and mk = "ReadBytes n"]] by blast
  show ?thesis
    using assms w2 w4 by (auto simp: drain_body_def Let_def 1 2 3 split: sum.splits if_splits prod.splits)
qed

lemma drain_stale_went:
  assumes "drain_stale w deadline d = Some (r, d')"
  shows "went w d d' []"
proof -
  obtain t d1 where 1: "md_deadline w deadline d = (t, d1)" by force
  have "case r of Inl x \<Rightarrow> went w d d' [] | Inr a \<Rightarrow> went w d d' []"
  proof (rule repeatP_rule [where I = "\<lambda>_. \<lambda>s. went w d s []"])
    show "repeatP (drain_body w t) [] d1 = Some (r, d')" using assms 1 by (simp add: drain_stale_def)
    show "went w d d1 []" by (rule went_deadline [OF 1])
  next
    fix v s q s'
    assume "went w d s []" "drain_body w t v s = (q, s')"
    then have "went w d s' []" using went_quiet went_drain_body by blast
    then show "case q of Inl x \<Rightarrow> went w d s' [] | Inr y \<Rightarrow> (case y of Inl v' \<Rightarrow> went w d s' [] | Inr a \<Rightarrow> went w d s' [])"
      by (auto split: sum.splits)
  qed
  then show ?thesis by (auto split: sum.splits)
qed

lemma write_body_went:
  assumes "write_body w data deadline offset d = (r, d')" "offset \<le> length data"
  shows "case r of
      Inl x \<Rightarrow> strayed w d d' (drop offset data)
    | Inr y \<Rightarrow> (case y of
        Inl offset' \<Rightarrow> offset \<le> offset' \<and> offset' \<le> length data \<and> went w d d' (take (offset' - offset) (drop offset data))
      | Inr _ \<Rightarrow> offset = length data \<and> went w d d' [])"
proof (cases "offset < length data")
  case False
  with assms show ?thesis by (auto simp: write_body_def)
next
  case True
  obtain t d1 where 1: "se_now w d = (t, d1)" by force
  obtain q d2 where 2: "md_bounded (w_write w) (WriteBytes (drop offset data)) (deadline - t) d1 = (q, d2)" by force
  note w1 = went_now [OF 1]
  note w2 = went_write [OF 2]
  have s: "strayed w d d' (drop offset data)" if "strayed w d1 d' (drop offset data)" using went_strayed [OF w1 that] by simp
  have g: "went w d d' bs" if "went w d1 d' bs" for bs using went_trans [OF w1 that] by simp
  show ?thesis
  proof (cases "deadline - t \<le> 0")
    case now: True
    with assms True w1 show ?thesis by (auto simp: write_body_def Let_def 1 intro: went_none)
  next
    case False
    with assms True w2 show ?thesis
      by (auto simp: write_body_def Let_def 1 2 split: sum.splits written.splits if_splits intro: s g)
  qed
qed

lemma write_all_went:
  assumes "write_all w data deadline d = Some (r, d')"
  shows "case r of Inl x \<Rightarrow> strayed w d d' data | Inr _ \<Rightarrow> went w d d' data"
proof -
  obtain t d1 where 1: "md_deadline w deadline d = (t, d1)" by force
  show ?thesis
  proof (rule repeatP_rule [where I = "\<lambda>offset s. offset \<le> length data \<and> went w d s (take offset data)"])
    show "repeatP (write_body w data t) 0 d1 = Some (r, d')" using assms 1 by (simp add: write_all_def)
    show "0 \<le> length data \<and> went w d d1 (take 0 data)" using went_deadline [OF 1] by simp
  next
    fix offset s q s'
    assume i: "offset \<le> length data \<and> went w d s (take offset data)" and b: "write_body w data t offset s = (q, s')"
    then have o: "offset \<le> length data" and w: "went w d s (take offset data)" by simp_all
    have t: "take offset data @ take (k - offset) (drop offset data) = take k data" if "offset \<le> k" for k
      using that by (metis le_add_diff_inverse take_add)
    have h: "strayed w d s' data" if "strayed w s s' (drop offset data)" using went_strayed [OF w that] by simp
    have g: "went w d s' (take k data)" if "went w s s' (take (k - offset) (drop offset data))" "offset \<le> k" for k
      using went_trans [OF w that(1)] t [OF that(2)] by simp
    show "case q of Inl x \<Rightarrow> strayed w d s' data
      | Inr y \<Rightarrow> (case y of Inl v' \<Rightarrow> v' \<le> length data \<and> went w d s' (take v' data) | Inr a \<Rightarrow> went w d s' data)"
      using write_body_went [OF b o] w by (auto split: sum.splits intro: h g dest: went_quiet)
  qed
qed

lemma read_body_went:
  assumes "read_body w amount deadline data d = (r, d')" "length data \<le> amount"
  shows "went w d d' [] \<and> (case r of Inl x \<Rightarrow> is_mincore_error x | Inr y \<Rightarrow>
    (case y of Inl data' \<Rightarrow> length data' \<le> amount | Inr a \<Rightarrow> length a = amount))"
proof (cases "amount \<le> length data")
  case True
  with assms show ?thesis by (auto simp: read_body_def)
next
  case False
  obtain t d1 where 1: "se_now w d = (t, d1)" by force
  obtain q d2 where 2: "md_bounded (w_read w) (ReadBytes (int (amount - length data))) (deadline - t) d1 = (q, d2)" by force
  obtain t' d3 where 3: "se_now w d2 = (t', d3)" by force
  have w1: "went w d d1 []" by (rule went_now [OF 1])
  have w2: "went w d d2 []" by (rule went_quiet [OF w1 went_bounded [OF 2]]) simp
  have w3: "went w d d3 []" by (rule went_quiet [OF w2 went_now [OF 3]])
  show ?thesis
    using assms False w1 w2 w3 unfolding read_body_def Let_def 1 prod.case 2 3
    by (auto simp: 3 is_mincore_error_def failure_of_def split: sum.splits if_splits call_failure.splits)
qed

lemma read_exact_went:
  assumes "read_exact w amount deadline d = Some (r, d')"
  shows "went w d d' [] \<and> (case r of Inl x \<Rightarrow> is_mincore_error x | Inr a \<Rightarrow> length a = amount)"
proof -
  obtain t d1 where 1: "md_deadline w deadline d = (t, d1)" by force
  have "case r of Inl x \<Rightarrow> went w d d' [] \<and> is_mincore_error x | Inr a \<Rightarrow> went w d d' [] \<and> length a = amount"
  proof (rule repeatP_rule [where I = "\<lambda>data s. length data \<le> amount \<and> went w d s []"])
    show "repeatP (read_body w amount t) [] d1 = Some (r, d')" using assms 1 by (simp add: read_exact_def)
    show "length [] \<le> amount \<and> went w d d1 []" using went_deadline [OF 1] by simp
  next
    fix data s q s'
    assume i: "length data \<le> amount \<and> went w d s []" and b: "read_body w amount t data s = (q, s')"
    from read_body_went [OF b] i went_quiet [of w d s "[]" s']
    show "case q of Inl x \<Rightarrow> went w d s' [] \<and> is_mincore_error x
      | Inr y \<Rightarrow> (case y of Inl v' \<Rightarrow> length v' \<le> amount \<and> went w d s' [] | Inr a \<Rightarrow> went w d s' [] \<and> length a = amount)"
      by (auto split: sum.splits)
  qed
  then show ?thesis by (auto split: sum.splits)
qed

lemma flush_output_went: "flush_output w deadline d = Some (r, d') \<Longrightarrow> went w d d' []"
  by (auto simp: flush_output_def Let_def split: if_splits prod.splits sum.splits dest!: went_deadline went_now went_bounded [where w = w])
    (auto dest: went_quiet)

lemma reject_extra_went: "reject_buffered_extra w deadline response d = Some (r, d') \<Longrightarrow> went w d d' []"
  by (auto simp: reject_buffered_extra_def thenP_Some reraise_Some split: if_splits dest!: drain_stale_went)

lemma encode_known: "encode_mincore operation a b v = Inr request \<Longrightarrow> \<exists>n. response_length operation = Inr n"
  by (auto simp: encode_mincore_def response_length_def split: if_splits)

lemma report_exn: "fst (report bs x d) = x \<or> fst (report bs x d) = set_observed bs x" "snd (report bs x d) = d"
  by (auto simp: report_def)

text \<open>What an exchange leaves behind.\<close>

lemma md_exchange_went:
  assumes u: "md_usable d" and e: "encode_mincore operation a b v = Inr request"
  shows "yields (md_exchange w operation a b v) d
    (\<lambda>y d'. \<not> md_usable d' \<and> may_send w d d' request)
    (\<lambda>(req, response) d'. req = request \<and> decode_mincore operation response = Inr response \<and> md_usable d' \<and> sends w d d' request)"
proof -
  let ?d = "d\<lparr>md_usable := False\<rparr>"
  obtain t d1 where 1: "se_now w ?d = (t, d1)" by force
  let ?deadline = "Some (t + md_timeout d1)"
  obtain needed where needed: "response_length operation = Inr needed" using encode_known [OF e] by blast
  define fail where "fail = (\<lambda>(_ :: mincore_exn) d2. strayed w ?d d2 request)"
  have w1: "went w ?d d1 []" by (rule went_now [OF 1])
  have full: "fail x d2" if "went w ?d d2 request" for x d2 using went_beginning [OF that, of "[]"] by (simp add: fail_def)
  have none: "fail x d2" if "went w ?d d2 []" for x d2 using went_none [OF that] by (simp add: fail_def)
  have again: "yields (reraise (report bs) m) s fail Q" if "yields m s fail Q" for bs m s and Q :: "'x \<Rightarrow> mincore_driver \<Rightarrow> bool"
    by (rule yields_reraise [OF that]) (simp add: fail_def report_def)
  have drain: "yields (drain_stale w ?deadline) d1 (\<lambda>_ d2. went w ?d d2 []) (\<lambda>_ d2. went w ?d d2 [])"
    using went_quiet [OF w1 drain_stale_went] by (auto simp: yields_def split: sum.splits)
  have wr: "yields (write_all w request ?deadline) d2 fail (\<lambda>_ d3. went w ?d d3 request)" if "went w ?d d2 []" for d2
    using write_all_went [of w request ?deadline d2] went_trans [OF that] went_strayed [OF that]
    by (fastforce simp: yields_def fail_def split: sum.splits)
  have flush: "yields (if needed = 0 then flush_output w ?deadline else liftP (Inr ())) d2 fail (\<lambda>_ d3. went w ?d d3 request)"
    if "went w ?d d2 request" for d2
    using that full went_quiet [OF that flush_output_went] by (auto simp: yields_def liftP_def split: sum.splits)
  have read: "yields (read_exact w needed ?deadline) d2 fail (\<lambda>response d3. went w ?d d3 request)"
    if "went w ?d d2 request" for d2
    using full went_quiet [OF that] read_exact_went by (fastforce simp: yields_def split: sum.splits)
  have extra: "yields (reject_buffered_extra w ?deadline response) d2 fail (\<lambda>_ d3. went w ?d d3 request)"
    if "went w ?d d2 request" for d2 response
    using full went_quiet [OF that reject_extra_went] by (auto simp: yields_def split: sum.splits)
  have response: "yields (exchange_response w operation request ?deadline) d1 fail (\<lambda>_ d2. went w ?d d2 request)"
    unfolding exchange_response_def
    by (rule yields_then, rule yields_reraise [OF drain], simp add: none, rule yields_then, erule wr,
        rule yields_then [where R = "\<lambda>n d2. n = needed \<and> went w ?d d2 request"], rule yields_lift, simp add: needed,
        rule yields_then [where R = "\<lambda>_ d2. went w ?d d2 request"], use flush in simp, use read in simp)
  have check: "yields (exchange_check w operation response ?deadline) d2 fail
      (\<lambda>_ d3. decode_mincore operation response = Inr response \<and> went w ?d d3 request)"
    if "went w ?d d2 request" for response d2
  proof -
    have "case decode_mincore operation response of Inl x \<Rightarrow> fail x d2
      | Inr a \<Rightarrow> decode_mincore operation response = Inr response \<and> went w ?d d2 request"
      using that full by (auto simp: decode_mincore_def bindE_def split: sum.splits if_splits)
    then have "yields (liftP (decode_mincore operation response)) d2 fail
        (\<lambda>_ d3. d3 = d2 \<and> decode_mincore operation response = Inr response)"
      by (intro yields_lift) (auto split: sum.splits)
    then show ?thesis unfolding exchange_check_def
      by (rule yields_then) (use extra [OF that, of response] in \<open>auto simp: yields_def split: sum.splits\<close>)
  qed
  have "yields (thenP (reraise (report []) (exchange_response w operation request ?deadline)) (\<lambda>response.
            thenP (reraise (report response) (exchange_check w operation response ?deadline)) (\<lambda>_ d.
            Some (Inr (request, response), d\<lparr>md_usable := True\<rparr>)))) d1 fail
      (\<lambda>(req, response) d'. req = request \<and> decode_mincore operation response = Inr response \<and> md_usable d' \<and> sends w d d' request)"
    by (rule yields_then [OF again [OF response]], rule yields_then, rule again, erule check) (auto simp: yields_def went_def sends_def)
  moreover have "md_exchange w operation a b v d = thenP (reraise (report []) (exchange_response w operation request ?deadline)) (\<lambda>response.
            thenP (reraise (report response) (exchange_check w operation response ?deadline)) (\<lambda>_ d.
            Some (Inr (request, response), d\<lparr>md_usable := True\<rparr>))) d1"
    using u by (simp add: md_exchange_def e 1 Let_def)
  ultimately have "yields (md_exchange w operation a b v) d fail
      (\<lambda>(req, response) d'. req = request \<and> decode_mincore operation response = Inr response \<and> md_usable d' \<and> sends w d d' request)"
    by (simp only: yields_def)
  then show ?thesis by (rule yields_mono) (auto simp: fail_def strayed_def may_send_def)
qed

section \<open>An exchange ends\<close>

text \<open>A clock that a call or a reading of the clock moves on by at least one tick.\<close>

definition ticking :: "world \<Rightarrow> bool" where
  "ticking w \<longleftrightarrow> (\<forall>es es'. w_clock w es + int (length es') \<le> w_clock w (es @ es'))"

text \<open>
  The calls after the reading of the clock that opened the window: at the head of a loop there
  are at most the ticks of the window and one round more.
\<close>

definition paced :: "event list \<Rightarrow> int \<Rightarrow> int \<Rightarrow> mincore_driver \<Rightarrow> bool" where
  "paced base window slack d \<longleftrightarrow> (\<exists>es. se_events d = base @ es \<and> int (length es) \<le> window + slack)"

text \<open>One more call.\<close>

definition called :: "mincore_driver \<Rightarrow> event \<Rightarrow> mincore_driver" where
  "called d e = d\<lparr>se_events := se_events d @ [e]\<rparr>"

lemma paced_called: "paced base window slack d \<Longrightarrow> slack < slack' \<Longrightarrow> paced base window slack' (called d e)"
  by (auto simp: paced_def called_def)

lemma paced_mono: "paced base window slack d \<Longrightarrow> slack \<le> slack' \<Longrightarrow> paced base window slack' d"
  by (auto simp: paced_def)

lemma now_called: "se_now w d = (w_clock w (se_events d @ [Clock]), called d Clock)"
  by (simp add: se_now_def called_def Let_def)

lemma bounded_called: "md_bounded call mk budget d = (r, d') \<Longrightarrow> (if budget \<le> 0 then r = Inl TimedOut \<and> d' = d else d' = called d (mk budget))"
  by (auto simp: md_bounded_def called_def Let_def split: if_splits outcome.splits)

text \<open>A clock reading in a driver whose window is used up is past the deadline.\<close>

lemma past_deadline:
  assumes "ticking w" "se_events d = base @ es" "window \<le> int (length es)"
  shows "w_clock w base + window < w_clock w (se_events d @ [Clock])"
proof -
  have "w_clock w base + int (length (es @ [Clock])) \<le> w_clock w (base @ es @ [Clock])"
    using assms(1) unfolding ticking_def by blast
  with assms(2,3) show ?thesis by simp
qed

text \<open>
  The shape of a round of the three loops: it starts by reading the clock, it makes at most three
  calls after that, and it goes on only if the deadline is not past.
\<close>

definition short_round :: "world \<Rightarrow> int \<Rightarrow> ('v \<Rightarrow> (mincore_driver, mincore_exn, 'v + 'a) routine) \<Rightarrow> bool" where
  "short_round w deadline body \<longleftrightarrow>
     (\<forall>v d r d'. body v d = (r, d') \<longrightarrow>
        (\<exists>es. se_events d' = se_events d @ es \<and> length es \<le> 4 \<and>
          (deadline \<le> w_clock w (se_events d @ [Clock]) \<longrightarrow> length es \<le> 1 \<and> (\<forall>v'. r \<noteq> Inr (Inl v')) \<and> ((\<exists>a. r = Inr (Inr a)) \<longrightarrow> es = [])) \<and>
          (\<forall>v'. r = Inr (Inl v') \<longrightarrow> es \<noteq> [])))"

lemma short_repeat:
  assumes tick: "ticking w" and body: "short_round w (w_clock w base + window) body"
    and p: "paced base window 4 d"
  shows "\<exists>r d'. repeatP body v d = Some (r, d') \<and> paced base window (if isl r then 5 else 4) d'"
proof -
  let ?m = "\<lambda>(_ :: 'v) d. nat (int (length base) + window + 5 - int (length (se_events d)))"
  have step: "(case r of Inl x \<Rightarrow> paced base window 5 s' | Inr y \<Rightarrow> (case y of Inl v' \<Rightarrow> paced base window 4 s' \<and> ?m v' s' < ?m v s | Inr a \<Rightarrow> paced base window 4 s'))"
    if "paced base window 4 s" "body v s = (r, s')" for v s r s'
  proof -
    note st = that
    obtain es where es: "se_events s = base @ es" "int (length es) \<le> window + 4" using st(1) by (auto simp: paced_def)
    obtain fs where fs: "se_events s' = se_events s @ fs" "length fs \<le> 4"
      "w_clock w base + window \<le> w_clock w (se_events s @ [Clock]) \<longrightarrow> length fs \<le> 1 \<and> (\<forall>v'. r \<noteq> Inr (Inl v')) \<and> ((\<exists>a. r = Inr (Inr a)) \<longrightarrow> fs = [])"
      "\<forall>v'. r = Inr (Inl v') \<longrightarrow> fs \<noteq> []"
      using body [unfolded short_round_def, rule_format, OF st(2)] by blast
    have s': "se_events s' = base @ (es @ fs)" using es(1) fs(1) by simp
    have pI: "paced base window k s'" if "int (length es) + int (length fs) \<le> window + k" for k
      using that s' by (auto simp: paced_def)
    have late: "length fs \<le> 1 \<and> (\<forall>v'. r \<noteq> Inr (Inl v')) \<and> ((\<exists>a. r = Inr (Inr a)) \<longrightarrow> fs = [])" if over: "window \<le> int (length es)"
      using past_deadline [OF tick es(1) over] fs(3) by (auto dest: less_imp_le)
    consider x where "r = Inl x" | v' where "r = Inr (Inl v')" | a where "r = Inr (Inr a)" by (metis old.sum.exhaust)
    then show ?thesis
    proof cases
      case 1
      have "int (length es) + int (length fs) \<le> window + 5" using late es(2) fs(2) by (cases "window \<le> int (length es)") auto
      with 1 pI show ?thesis by simp
    next
      case 2
      have lt: "int (length es) < window"
      proof (rule ccontr)
        assume "\<not> ?thesis"
        with late 2 show False by auto
      qed
      have "fs \<noteq> []" using fs(4) 2 by simp
      then have "0 < length fs" by simp
      moreover have "paced base window 4 s'" using pI [of 4] fs(2) lt by linarith
      ultimately show ?thesis using 2 es(1) s' lt by simp
    next
      case 3
      have "int (length es) + int (length fs) \<le> window + 4" using late es(2) fs(2) 3 by (cases "window \<le> int (length es)") auto
      with 3 pI show ?thesis by simp
    qed
  qed
  have "repeatP body v d \<noteq> None"
  proof (rule repeatP_terminates [where I = "\<lambda>_. paced base window 4" and m = ?m])
    fix v s r s' v' assume "paced base window 4 s" "body v s = (Inr (Inl v'), s')"
    from step [OF this] show "paced base window 4 s' \<and> ?m v' s' < ?m v s" by simp
  qed (rule p)
  then obtain r d' where run: "repeatP body v d = Some (r, d')" by (cases "repeatP body v d") auto
  have "case r of Inl x \<Rightarrow> paced base window 5 d' | Inr a \<Rightarrow> paced base window 4 d'"
  proof (rule repeatP_rule [OF run, where I = "\<lambda>_. paced base window 4"], rule p)
    fix v s q s' assume "paced base window 4 s" "body v s = (q, s')"
    from step [OF this] show "case q of Inl x \<Rightarrow> paced base window 5 s'
      | Inr y \<Rightarrow> (case y of Inl v' \<Rightarrow> paced base window 4 s' | Inr a \<Rightarrow> paced base window 4 s')"
      by (auto split: sum.splits)
  qed
  with run show ?thesis by (auto split: sum.splits)
qed

lemma events_called [simp]: "se_events (called d e) = se_events d @ [e]"
  by (simp add: called_def)

lemma bounded_events:
  "md_bounded call mk budget (called d e) = (r, d') \<Longrightarrow> \<exists>es. se_events d' = se_events d @ e # es \<and> length es \<le> 1"
  by (auto simp: md_bounded_def Let_def split: if_splits outcome.splits)

lemma short_drain: "short_round w deadline (drain_body w deadline)"
  unfolding short_round_def
proof (intro allI impI)
  fix v d r d' assume b: "drain_body w deadline v d = (r, d')"
  let ?t = "w_clock w (se_events d @ [Clock])"
  let ?d = "called d Clock"
  obtain q d2 where 2: "buffered_count w (deadline - ?t) ?d = (q, d2)" by force
  have c2: "if deadline - ?t \<le> 0 then (\<exists>x. q = Inl x) \<and> d2 = ?d else d2 = called ?d (InWaiting (deadline - ?t))"
    using 2 by (auto simp: buffered_count_def split: prod.splits sum.splits dest!: bounded_called split: if_splits)
  let ?t3 = "w_clock w (se_events d2 @ [Clock])"
  let ?d3 = "called d2 Clock"

  show "\<exists>es. se_events d' = se_events d @ es \<and> length es \<le> 4 \<and>
          (deadline \<le> w_clock w (se_events d @ [Clock]) \<longrightarrow>
            length es \<le> 1 \<and> (\<forall>v'. r \<noteq> Inr (Inl v')) \<and> ((\<exists>a. r = Inr (Inr a)) \<longrightarrow> es = [])) \<and>
          (\<forall>v'. r = Inr (Inl v') \<longrightarrow> es \<noteq> [])"
    using b c2
    by (auto simp: drain_body_def Let_def now_called 2 split: sum.splits if_splits prod.splits dest!: bounded_events)
qed

lemma short_write: "short_round w deadline (write_body w data deadline)"
  unfolding short_round_def
proof (intro allI impI)
  fix v d r d' assume b: "write_body w data deadline v d = (r, d')"
  show "\<exists>es. se_events d' = se_events d @ es \<and> length es \<le> 4 \<and>
          (deadline \<le> w_clock w (se_events d @ [Clock]) \<longrightarrow>
            length es \<le> 1 \<and> (\<forall>v'. r \<noteq> Inr (Inl v')) \<and> ((\<exists>a. r = Inr (Inr a)) \<longrightarrow> es = [])) \<and>
          (\<forall>v'. r = Inr (Inl v') \<longrightarrow> es \<noteq> [])"
    using b
    by (auto simp: write_body_def Let_def now_called split: sum.splits if_splits prod.splits written.splits dest!: bounded_events)
qed

lemma short_read: "short_round w deadline (read_body w amount deadline)"
  unfolding short_round_def
proof (intro allI impI)
  fix v d r d' assume b: "read_body w amount deadline v d = (r, d')"
  show "\<exists>es. se_events d' = se_events d @ es \<and> length es \<le> 4 \<and>
          (deadline \<le> w_clock w (se_events d @ [Clock]) \<longrightarrow>
            length es \<le> 1 \<and> (\<forall>v'. r \<noteq> Inr (Inl v')) \<and> ((\<exists>a. r = Inr (Inr a)) \<longrightarrow> es = [])) \<and>
          (\<forall>v'. r = Inr (Inl v') \<longrightarrow> es \<noteq> [])"
    using b
    by (auto simp: read_body_def Let_def now_called split: sum.splits if_splits prod.splits dest!: bounded_events)
qed

text \<open>The phases return, within the pace.\<close>

definition ends :: "event list \<Rightarrow> int \<Rightarrow> 'a md_proc \<Rightarrow> mincore_driver \<Rightarrow> bool" where
  "ends base window m d \<longleftrightarrow> (\<exists>r d'. m d = Some (r, d') \<and> paced base window (if isl r then 5 else 4) d')"

lemma ends_then:
  assumes "ends base window m d" "\<And>a d'. m d = Some (Inr a, d') \<Longrightarrow> paced base window 4 d' \<Longrightarrow> ends base window (f a) d'"
  shows "ends base window (thenP m f) d"
proof -
  obtain r d' where m: "m d = Some (r, d')" "paced base window (if isl r then 5 else 4) d'" using assms(1) by (auto simp: ends_def)
  show ?thesis
  proof (cases r)
    case (Inl x)
    with m show ?thesis by (simp add: ends_def thenP_def)
  next
    case (Inr a)
    with m assms(2) have "ends base window (f a) d'" by simp
    with m Inr show ?thesis by (simp add: ends_def thenP_def)
  qed
qed

lemma ends_reraise: "ends base window m d \<Longrightarrow> (\<And>x d. se_events (snd (h x d)) = se_events d) \<Longrightarrow> ends base window (reraise h m) d"
proof -
  assume e: "ends base window m d" and h: "\<And>x d. se_events (snd (h x d)) = se_events d"
  obtain r d' where m: "m d = Some (r, d')" "paced base window (if isl r then 5 else 4) d'" using e by (auto simp: ends_def)
  show ?thesis
  proof (cases r)
    case (Inl x)
    obtain y s where y: "h x d' = (y, s)" by force
    then have "se_events s = se_events d'" using h [of x d'] by simp
    with m Inl y show ?thesis by (simp add: ends_def reraise_def paced_def)
  next
    case (Inr a)
    with m show ?thesis by (simp add: ends_def reraise_def)
  qed
qed

lemma ends_lift: "paced base window 4 d \<Longrightarrow> ends base window (liftP m) d"
  by (auto simp: ends_def liftP_def intro: paced_mono)

lemma ends_phases:
  assumes tick: "ticking w" and p: "paced base window 4 d"
  defines "deadline \<equiv> Some (w_clock w base + window)"
  shows "ends base window (drain_stale w deadline) d" "ends base window (write_all w data deadline) d"
    "ends base window (read_exact w amount deadline) d"
  using short_repeat [OF tick short_drain p] short_repeat [OF tick short_write p] short_repeat [OF tick short_read p]
  by (simp_all add: ends_def deadline_def drain_stale_def write_all_def read_exact_def md_deadline_def)

lemma ends_flush:
  assumes tick: "ticking w" and p: "paced base window 4 d"
  shows "ends base window (flush_output w (Some (w_clock w base + window))) d"
proof (cases "w_has_flush w")
  case False
  with p show ?thesis by (simp add: ends_def flush_output_def)
next
  case True
  obtain es where es: "se_events d = base @ es" "int (length es) \<le> window + 4" using p by (auto simp: paced_def)
  let ?budget = "w_clock w base + window - w_clock w (se_events d @ [Clock])"
  obtain q d2 where 2: "md_bounded (w_flush w) Flush ?budget (called d Clock) = (q, d2)" by force
  have c: "if ?budget \<le> 0 then q = Inl TimedOut \<and> d2 = called d Clock else d2 = called (called d Clock) (Flush ?budget)"
    by (rule bounded_called [OF 2])
  have run: "flush_output w (Some (w_clock w base + window)) d =
      Some (case q of Inl x \<Rightarrow> Inl (failure_of [] x) | Inr _ \<Rightarrow> Inr (), d2)"
    using True 2 by (simp add: flush_output_def md_deadline_def now_called Let_def split: sum.splits)
  show ?thesis
  proof (cases "window \<le> int (length es)")
    case over: True
    have "?budget \<le> 0" using past_deadline [OF tick es(1) over] by simp
    with c run es show ?thesis by (auto simp: ends_def paced_def)
  next
    case False
    have "paced base window 4 d2" using c es False by (auto simp: paced_def split: if_splits)
    with run show ?thesis by (auto simp: ends_def intro: paced_mono split: sum.splits)
  qed
qed

lemma ends_exchange:
  assumes tick: "ticking w" and p: "0 < md_timeout d"
  shows "\<exists>r d'. md_exchange w operation a b v d = Some (r, d') \<and>
    int (length (se_events d')) \<le> int (length (se_events d)) + md_timeout d + 6"
proof (cases "md_usable d \<and> (\<exists>request. encode_mincore operation a b v = Inr request)")
  case False
  with p show ?thesis by (cases "encode_mincore operation a b v") (auto simp: md_exchange_def)
next
  case True
  then obtain request where u: "md_usable d" and e: "encode_mincore operation a b v = Inr request" by blast
  define base where "base = se_events d @ [Clock]"
  define d1 where "d1 = called (d\<lparr>md_usable := False\<rparr>) Clock"
  let ?w = "md_timeout d"
  let ?deadline = "Some (w_clock w base + ?w)"
  note phases = ends_phases [OF tick, of base ?w] ends_flush [OF tick, of base ?w]
  have p1: "paced base ?w 4 d1" using p by (simp add: paced_def base_def d1_def)
  have response: "ends base ?w (exchange_response w operation request ?deadline) d" if "paced base ?w 4 d" for d
    unfolding exchange_response_def
    by (intro ends_then ends_reraise ends_lift phases that) (auto intro: phases ends_lift)
  have check: "ends base ?w (exchange_check w operation response ?deadline) d" if "paced base ?w 4 d" for response d
    unfolding exchange_check_def reject_buffered_extra_def
    by (intro ends_then ends_reraise ends_lift phases that)
      (auto simp: ends_def intro: paced_mono)
  have "ends base ?w (thenP (reraise (report []) (exchange_response w operation request ?deadline)) (\<lambda>response.
            thenP (reraise (report response) (exchange_check w operation response ?deadline)) (\<lambda>_ d.
            Some (Inr (request, response), d\<lparr>md_usable := True\<rparr>)))) d1"
    by (intro ends_then ends_reraise response check p1) (auto simp: report_def ends_def paced_def)
  moreover have "md_exchange w operation a b v d = thenP (reraise (report []) (exchange_response w operation request ?deadline)) (\<lambda>response.
            thenP (reraise (report response) (exchange_check w operation response ?deadline)) (\<lambda>_ d.
            Some (Inr (request, response), d\<lparr>md_usable := True\<rparr>))) d1"
    using u by (simp add: md_exchange_def e now_called Let_def base_def d1_def) (simp add: called_def)
  ultimately obtain r d' where r: "md_exchange w operation a b v d = Some (r, d')" "paced base ?w (if isl r then 5 else 4) d'"
    by (auto simp: ends_def)
  then have "int (length (se_events d')) \<le> int (length base) + ?w + 5" by (auto simp: paced_def split: if_splits)
  with r(1) show ?thesis by (simp add: base_def)
qed

section \<open>The requests are commands of the streaming ALU\<close>

lemma interleave:
  assumes "length a = 16" "length b = 16"
  shows "length (concat (map (\<lambda>(x, y). [x, y]) (zip a b))) = 32"
  using assms by (auto simp: length_concat comp_def split_def sum_list_triv)

lemma mul_streams:
  assumes "length a = 16" "length b = 16"
  shows "stream_execute 2 (a @ b) = Inr ((CommandResult (to_le 16 (field_mul (le_int a) (le_int b))) 32 16)\<lparr>cr_multiplier_bit_steps := 128\<rparr>)"
proof -
  have "fits 128 (le_int a)" "fits 128 (le_int b)" by (rule fits_le_int; simp add: assms)+
  then have "gf_mul_bitserial (le_int a) (le_int b) 128 REDUCTION_LOW = Inr (field_mul (le_int a) (le_int b))"
    using multipliers_128 by blast
  moreover have "fits 128 (field_mul (le_int a) (le_int b))" using fits_field_mul by blast
  ultimately show ?thesis
    using assms by (simp add: stream_execute_def stream_command_of_def le_bytes_to_int_def int_to_le_bytes_def fits_def Let_def)
qed

lemma vectors_checked:
  "list_all (\<lambda>vc. case encode_mincore (vc_operation vc) (vc_a vc) (vc_b vc) (vc_value vc) of
      Inr (c # p) \<Rightarrow> (case stream_execute (uint c) p of Inr r \<Rightarrow> cr_output r = vc_expected vc | Inl _ \<Rightarrow> False)
    | _ \<Rightarrow> False) VECTORS"
  by code_simp

text \<open>
  C28. Every request the diagnostic driver encodes is one command byte with the payload that
  command takes, and the driver accepts the answer of the transaction model to it. For the
  golden vectors that answer is the expected one.
\<close>

theorem mincore_speaks_stream_alu:
  assumes "encode_mincore operation a b v = Inr request"
  shows "\<exists>c p r. request = c # p \<and> stream_execute (uint c) p = Inr r \<and> cr_input_data_beats r = length p \<and>
    decode_mincore operation (cr_output r) = Inr (cr_output r) \<and>
    (\<forall>vc\<in>set VECTORS. vc_operation vc = operation \<and> vc_a vc = a \<and> vc_b vc = b \<and> vc_value vc = v \<longrightarrow> cr_output r = vc_expected vc)"
proof -
  have golden: "cr_output r = vc_expected vc"
    if "vc \<in> set VECTORS" "vc_operation vc = operation" "vc_a vc = a" "vc_b vc = b" "vc_value vc = v"
      "request = c # p" "stream_execute (uint c) p = Inr r" for vc c p r
    using vectors_checked that assms by (force simp: list_all_iff)
  have "case request of [] \<Rightarrow> False
    | c # p \<Rightarrow> (case stream_execute (uint c) p of Inl _ \<Rightarrow> False
        | Inr r \<Rightarrow> cr_input_data_beats r = length p \<and> decode_mincore operation (cr_output r) = Inr (cr_output r))"
    using assms
    by (auto simp: encode_mincore_def require_16_def bindE_eq_Inr decode_mincore_def response_length_def mul_streams interleave
        stream_execute_def [of 1] stream_execute_def [of 3] stream_execute_def [of 125] stream_execute_def [of 126]
        stream_command_of_def CommandResult_def STATUS_BYTES_def MC_STATUS_BYTES_def split: if_splits)
  then obtain c p r where "request = c # p" "stream_execute (uint c) p = Inr r" "cr_input_data_beats r = length p"
    "decode_mincore operation (cr_output r) = Inr (cr_output r)" by (auto split: list.splits sum.splits)
  with golden show ?thesis by blast
qed

lemma mincore_speaks_stream_alu_witness:
  "\<exists>c p r. 0x7E # [] = c # p \<and> stream_execute (uint (c :: byte)) p = Inr r \<and> decode_mincore ''status'' (cr_output r) = Inr (cr_output r)"
proof -
  have "encode_mincore ''status'' [] [] [] = Inr [0x7E]" by (simp add: encode_mincore_def)
  from mincore_speaks_stream_alu [OF this] show ?thesis by blast
qed

section \<open>The exchange\<close>

text \<open>
  C26. One exchange of the diagnostic driver, over any transport and any clock. When it returns,
  exactly the request was sent, the response is one the operation may have, and the driver stays
  usable. When it raises after the request was encoded, the driver is unusable and what the port
  may have sent is a beginning of the request: this counts a write that was abandoned, raised or
  answered nonsense as one of which any part may still go out, so nothing is offered again after
  it. An unusable driver, or one whose arguments are refused, is left as it was, with no call made.
\<close>

theorem mincore_exchange_once:
  "case md_exchange w operation a b v d of
     None \<Rightarrow> md_usable d
   | Some (Inr (request, response), d') \<Rightarrow>
       md_usable d \<and> encode_mincore operation a b v = Inr request \<and> decode_mincore operation response = Inr response \<and>
       sends w d d' request \<and> md_usable d'
   | Some (Inl x, d') \<Rightarrow>
       (if md_usable d then
          (case encode_mincore operation a b v of
             Inl y \<Rightarrow> x = y \<and> d' = d
           | Inr request \<Rightarrow> \<not> md_usable d' \<and> may_send w d d' request)
        else d' = d)"
proof (cases "md_usable d")
  case True
  show ?thesis
  proof (cases "encode_mincore operation a b v")
    case (Inl y)
    with True show ?thesis by (simp add: md_exchange_def)
  next
    case (Inr request)
    show ?thesis
    proof (cases "md_exchange w operation a b v d")
      case None
      with True show ?thesis by simp
    next
      case (Some z)
      obtain r d' where z: "md_exchange w operation a b v d = Some (r, d')" using Some by (cases z) simp
      from yieldsD [OF md_exchange_went [OF True Inr, of w] this] show ?thesis
        using True Inr z by (cases r) auto
    qed
  qed
qed (simp add: md_exchange_def)

text \<open>
  A port on which a write is never answered: the exchange ends with the timeout, and the byte
  offered may be on the line or not.
\<close>

definition late_world :: world where
  "late_world =
     \<lparr>w_clock = \<lambda>es. int (length es), w_clock_ns = \<lambda>es. int (length es), w_in_waiting = \<lambda>es. Returned 0, w_read = \<lambda>es. Returned [],
      w_write = \<lambda>es. Late, w_flush = \<lambda>es. Late, w_abort = \<lambda>es. Raised, w_break = \<lambda>es. Raised,
      w_has_flush = True, w_has_abort = False, w_has_break = False, w_has_timeout = True\<rparr>"

lemma late_write_ends:
  "map_option (\<lambda>(r, d'). (r, md_usable d', sendings late_world [] (se_events d')))
     (md_exchange late_world ''status'' [] [] [] \<lparr>se_events = [], md_timeout = 100, md_usable = True\<rparr>)
   = Some (Inl (TransportTimeout []), False, [[], [0x7e]])"
  by code_simp

text \<open>
  C27. An exchange ends. If every call moves the clock on by a tick at least, it returns or raises,
  and it makes at most six calls more than the timeout has ticks: one window bounds all phases
  together, whatever the transport does with the calls.
\<close>

theorem mincore_exchange_ends:
  assumes "ticking w" "0 < md_timeout d"
  shows "\<exists>r d'. md_exchange w operation a b v d = Some (r, d') \<and>
    int (length (se_events d')) \<le> int (length (se_events d)) + md_timeout d + 6"
  by (rule ends_exchange [OF assms])

text \<open>A transport that always reports one more byte and never delivers it.\<close>

definition stuck_world :: world where
  "stuck_world =
     \<lparr>w_clock = \<lambda>es. int (length es), w_clock_ns = \<lambda>es. int (length es), w_in_waiting = \<lambda>es. Returned 1, w_read = \<lambda>es. Returned [],
      w_write = \<lambda>es. Returned (Count 0), w_flush = \<lambda>es. Late, w_abort = \<lambda>es. Raised, w_break = \<lambda>es. Raised,
      w_has_flush = True, w_has_abort = False, w_has_break = False, w_has_timeout = True\<rparr>"

lemma mincore_exchange_ends_witness:
  "\<exists>r d'. md_exchange stuck_world ''clear'' [] [] [] \<lparr>se_events = [], md_timeout = 100, md_usable = True\<rparr> = Some (r, d') \<and>
    length (se_events d') \<le> 106"
proof -
  have "ticking stuck_world" by (simp add: ticking_def stuck_world_def)
  from mincore_exchange_ends [OF this, of "\<lparr>se_events = [], md_timeout = 100, md_usable = True\<rparr>" "''clear''" "[]" "[]" "[]"]
  show ?thesis by simp
qed

end
