(* ===== verification/Packet_Uart.thy ===== *)
theory Packet_Uart
  imports Serial_World Host_Runtime Lsc_Drive
begin

text \<open>
  fpga_harness/host/lsc1_packet_uart.py: the host driver that carries LSC-1 packets over a UART,
  the checks it makes on every answer and the run of one operation, over the transport and clock
  of Serial_World. A port wired to the transaction model of the endpoint is one such transport;
  the second half shows what the driver does on it.
\<close>

section \<open>The driver\<close>

datatype packet_exn = PacketTransportError | PacketRaised exn

record packet_exchange =
  pe_request :: bytes
  pe_response :: bytes
  pe_duration :: int

text \<open>
  The times the driver takes from its baud rate and from a constant are kept in ticks of the
  clock: how long a surplus byte takes to become visible, how long the port rests after a break.
\<close>

record packet_driver = serial +
  pk_timeout :: int
  pk_settle :: int
  pk_rest :: int
  pk_exchanges :: "packet_exchange list"

type_synonym 'a pk_routine = "(packet_driver, packet_exn, 'a) routine"
type_synonym 'a pk_proc = "(packet_driver, packet_exn, 'a) proc"

definition PacketSerialDriver :: "int \<Rightarrow> int \<Rightarrow> int \<Rightarrow> int \<Rightarrow> packet_exn + packet_driver" where
  "PacketSerialDriver timeout_max timeout settle rest =
     (if timeout \<le> 0 \<or> timeout > timeout_max then Inl (PacketRaised ValueError)
      else Inr \<lparr>se_events = [], pk_timeout = timeout, pk_settle = settle, pk_rest = rest, pk_exchanges = []\<rparr>)"

definition pk_remaining :: "world \<Rightarrow> int \<Rightarrow> int pk_routine" where
  "pk_remaining w deadline d =
     (let (t, d) = se_now w d in
      if deadline - t \<le> 0 then (Inl PacketTransportError, d) else (Inr (deadline - t), d))"

text \<open>
  \<open>_bounded\<close> starts the call before it looks at the time that is left, so a call past the
  deadline is made all the same; its time is not known when it is made.
\<close>

definition pk_bounded :: "world \<Rightarrow> (event list \<Rightarrow> 'a outcome) \<Rightarrow> event \<Rightarrow> int \<Rightarrow> 'a pk_routine" where
  "pk_bounded w call e deadline d =
     (let es = se_events d @ [e] in
      thenM (pk_remaining w deadline (d\<lparr>se_events := es\<rparr>)) (\<lambda>_ d.
        case call es of Returned v \<Rightarrow> (Inr v, d) | _ \<Rightarrow> (Inl PacketTransportError, d)))"

definition pk_read_body :: "world \<Rightarrow> nat \<Rightarrow> int \<Rightarrow> bytes \<Rightarrow> (bytes + bytes) pk_routine" where
  "pk_read_body w amount deadline data d =
     (if length data \<ge> amount then (Inr (Inr data), d)
      else
        thenM (pk_remaining w deadline d) (\<lambda>_ d.
        thenM (pk_bounded w (w_read w) (ReadBytes (int (amount - length data)) 0) deadline d) (\<lambda>chunk d.
          (Inr (Inl (data @ chunk)), d))))"

definition pk_read_exact :: "world \<Rightarrow> nat \<Rightarrow> int \<Rightarrow> bytes pk_proc" where
  "pk_read_exact w amount deadline = repeatP (pk_read_body w amount deadline) []"

definition pk_write_body :: "world \<Rightarrow> bytes \<Rightarrow> int \<Rightarrow> nat \<Rightarrow> (nat + unit) pk_routine" where
  "pk_write_body w data deadline offset d =
     (if offset \<ge> length data then (Inr (Inr ()), d)
      else
        thenM (pk_remaining w deadline d) (\<lambda>_ d.
        thenM (pk_bounded w (w_write w) (WriteBytes (drop offset data) 0) deadline d) (\<lambda>count d.
          case count of
            Count n \<Rightarrow> if n \<le> 0 then (Inl PacketTransportError, d) else (Inr (Inl (offset + nat n)), d)
          | _ \<Rightarrow> (Inl PacketTransportError, d))))"

definition pk_total :: "'a pk_routine \<Rightarrow> 'a pk_proc" where
  "pk_total m d = Some (m d)"

definition pk_write_all :: "world \<Rightarrow> bytes \<Rightarrow> int \<Rightarrow> unit pk_proc" where
  "pk_write_all w data deadline =
     thenP (repeatP (pk_write_body w data deadline) 0) (\<lambda>_. pk_total (pk_bounded w (w_flush w) (Flush 0) deadline))"

text \<open>The loop of \<open>drain\<close>: the bytes that are waiting, and those drained so far.\<close>

definition pk_drain_body :: "world \<Rightarrow> int \<Rightarrow> int \<times> bytes \<Rightarrow> ((int \<times> bytes) + bytes) pk_routine" where
  "pk_drain_body w deadline = (\<lambda>(waiting, drained) d.
     if waiting = 0 then (Inr (Inr drained), d)
     else
       thenM (if w_has_timeout w then pk_remaining w deadline d else (Inr 0, d)) (\<lambda>_ d.
       thenM (pk_bounded w (w_read w) (ReadBytes waiting 0) deadline d) (\<lambda>chunk d.
         if chunk = [] then (Inl PacketTransportError, d)
         else
           thenM (pk_bounded w (w_in_waiting w) (InWaiting 0) deadline d) (\<lambda>waiting d.
             (Inr (Inl (waiting, drained @ chunk)), d)))))"

definition pk_drain :: "world \<Rightarrow> int option \<Rightarrow> bytes pk_proc" where
  "pk_drain w deadline d =
     (let (deadline, d) = (case deadline of Some t \<Rightarrow> (t, d) | None \<Rightarrow> (let (t, d) = se_now w d in (t + pk_timeout d, d))) in
      thenP (pk_total (pk_bounded w (w_in_waiting w) (InWaiting 0) deadline)) (\<lambda>waiting.
        repeatP (pk_drain_body w deadline) (waiting, [])) d)"

definition pk_pause :: "int \<Rightarrow> unit pk_routine" where
  "pk_pause time d = (Inr (), d\<lparr>se_events := se_events d @ [Pause time]\<rparr>)"

definition pk_abort :: "world \<Rightarrow> unit pk_proc" where
  "pk_abort w d =
     (if \<not> w_has_break w then Some (Inl PacketTransportError, d)
      else
        let (t, d) = se_now w d; deadline = t + pk_timeout d in
        thenP (pk_total (pk_bounded w (w_break w) (Break 0) deadline)) (\<lambda>_.
        thenP (pk_total (pk_remaining w deadline)) (\<lambda>remaining.
        thenP (pk_total (\<lambda>d. pk_pause (min (pk_rest d) remaining) d)) (\<lambda>_.
        thenP (pk_drain w (Some deadline)) (\<lambda>_. pk_total (\<lambda>d. (Inr (), d)))))) d)"

definition pk_clock_ns :: "world \<Rightarrow> int pk_routine" where
  "pk_clock_ns w d = (let es = se_events d @ [ClockNs] in (Inr (w_clock_ns w es), d\<lparr>se_events := es\<rparr>))"

definition packet_res :: "'a res \<Rightarrow> packet_exn + 'a" where
  "packet_res r = (case r of Inl x \<Rightarrow> Inl (PacketRaised x) | Inr v \<Rightarrow> Inr v)"

definition pk_exchange_encoded :: "world \<Rightarrow> bytes \<Rightarrow> response_frame pk_proc" where
  "pk_exchange_encoded w request d =
     (if request = [] then Some (Inl (PacketRaised ValueError), d)
      else
        let (t, d) = se_now w d; deadline = t + pk_timeout d in
        thenP (pk_drain w (Some deadline)) (\<lambda>_.
        thenP (pk_total (pk_clock_ns w)) (\<lambda>started.
        thenP (pk_write_all w request deadline) (\<lambda>_.
        thenP (pk_read_exact w RESPONSE_HEADER_BYTES deadline) (\<lambda>header.
          let len = nat (le_int (pyslice 3 5 header)) in
          if len > MAX_PAYLOAD_BYTES then (\<lambda>d. Some (Inl PacketTransportError, d))
          else
            thenP (pk_read_exact w (len + CRC_BYTES) deadline) (\<lambda>rest.
            let response = header @ rest in
            thenP (liftP (packet_res (decode_response response))) (\<lambda>decoded.
            thenP (pk_total (pk_remaining w deadline)) (\<lambda>remaining.
            thenP (pk_total (\<lambda>d. pk_pause (min (pk_settle d) remaining) d)) (\<lambda>_.
            thenP (pk_drain w (Some deadline)) (\<lambda>extra.
              if extra \<noteq> [] then (\<lambda>d. Some (Inl PacketTransportError, d))
              else
                thenP (pk_total (pk_clock_ns w)) (\<lambda>ended d.
                  Some (Inr decoded, d\<lparr>pk_exchanges := pk_exchanges d @
                    [\<lparr>pe_request = request, pe_response = response, pe_duration = ended - started\<rparr>]\<rparr>)))))))))))
          d)"

definition pk_exchange :: "world \<Rightarrow> request_frame \<Rightarrow> response_frame pk_proc" where
  "pk_exchange w frame = thenP (liftP (packet_res (encode_request frame))) (pk_exchange_encoded w)"

section \<open>Checks of the answers\<close>

definition PACKET_RTL_FEATURES :: int where
  "PACKET_RTL_FEATURES = 0b010"

definition validate_capabilities :: "bytes \<Rightarrow> profile \<Rightarrow> packet_exn + unit" where
  "validate_capabilities payload prof =
     (if length payload \<noteq> 14 then Inl PacketTransportError
      else
        let features = le_slice 6 10 payload in
        if uint (payload ! 0) \<noteq> PROTOCOL_VERSION \<or> uint (payload ! 1) \<noteq> profile_code prof \<or>
           le_slice 2 4 payload \<noteq> int MAX_PAYLOAD_BYTES \<or> uint (payload ! 4) \<noteq> int INDEX_BITS \<or>
           uint (payload ! 5) \<noteq> 0 \<or> le_slice 10 14 payload \<noteq> DEVICE_ID \<or>
           features AND PACKET_RTL_FEATURES \<noteq> PACKET_RTL_FEATURES
        then Inl PacketTransportError else Inr ())"

text \<open>The arguments of a run, as the command line parses them.\<close>

record run_args =
  ra_operation :: string
  ra_txn_id :: int
  ra_pc :: int
  ra_fp :: int
  ra_value :: int
  ra_a :: int
  ra_b :: int

definition instruction_frame :: "run_args \<Rightarrow> (request_frame \<times> int) res" where
  "instruction_frame args =
     (if ra_operation args = ''set'' then
        bindE (build_set_constant (ra_txn_id args) (ra_pc args) (ra_fp args) INTERPRETER_COMPAT 0 (ra_value args) ABSENT) (\<lambda>frame.
          Inr (frame, ra_value args))
      else
        let op = (if ra_operation args = ''xor'' then OP_XOR else OP_MUL_NATIVE);
            expected = (if op = OP_XOR then ra_a args XOR ra_b args else field_mul (ra_a args) (ra_b args)) in
        bindE (build_binary_op op (ra_txn_id args) (ra_pc args) (ra_fp args) INTERPRETER_COMPAT [0, 1, 2]
            [Cell True (ra_a args), Cell True (ra_b args), ABSENT] ABSENT) (\<lambda>frame. Inr (frame, expected)))"

definition validate_instruction_result :: "transition_result \<Rightarrow> run_args \<Rightarrow> int \<Rightarrow> packet_exn + unit" where
  "validate_instruction_result decoded args expected =
     (let binary = (ra_operation args = ''xor'' \<or> ra_operation args = ''mul'');
          expected_write_address = ra_fp args + (if binary then 2 else 0);
          expected_accesses = (if binary then [ra_fp args, ra_fp args + 1, ra_fp args + 2] else [ra_fp args]) in
      if tr_next_pc decoded \<noteq> ra_pc args + 1 \<or> tr_next_fp decoded \<noteq> ra_fp args \<or>
         tr_writes decoded \<noteq> [(expected_write_address, expected)] \<or> tr_deferred decoded \<noteq> [] \<or>
         tr_accesses decoded \<noteq> expected_accesses
      then Inl PacketTransportError else Inr ())"

definition validate_retired :: "response_frame \<Rightarrow> run_args \<Rightarrow> packet_exn + unit" where
  "validate_retired reply args =
     (if rs_status reply \<noteq> RETIRED then Inl PacketTransportError
      else if length (rs_payload reply) \<noteq> 16 then Inl PacketTransportError
      else
        let retired_txn = le_slice 0 4 (rs_payload reply); retire_seq = le_slice 4 8 (rs_payload reply);
            committed_pc = le_slice 8 12 (rs_payload reply); committed_fp = le_slice 12 16 (rs_payload reply) in
        if (retired_txn, retire_seq, committed_pc, committed_fp) \<noteq> (ra_txn_id args, 1, ra_pc args + 1, ra_fp args)
        then Inl PacketTransportError else Inr ())"

definition validate_fresh_status :: "response_frame \<Rightarrow> packet_exn + unit" where
  "validate_fresh_status reply =
     (if rs_status reply \<noteq> INFO \<or> length (rs_payload reply) \<noteq> 20 then Inl PacketTransportError
      else
        let p = rs_payload reply;
            transaction_state = uint (p ! 0); staged_txn = le_slice 1 5 p; retire_seq = le_slice 6 10 p;
            committed_pc = le_slice 11 15 p; committed_fp = le_slice 15 19 p; state_valid = uint (p ! 19) in
        if transaction_state \<noteq> 0 \<or> staged_txn \<noteq> 0 \<or> retire_seq \<noteq> 0 \<or> committed_pc \<noteq> 0 \<or> committed_fp \<noteq> 0 \<or> state_valid \<noteq> 0
        then Inl PacketTransportError else Inr ())"

section \<open>A run of one operation\<close>

datatype run_report =
    StatusReport status bytes
  | InstructionReport status status transition_result int

text \<open>
  \<open>_run\<close> for the operations other than a whole program, over the two operations of the driver
  that it uses: the break that aborts, and the exchange.
\<close>

definition run_operation :: "('d, packet_exn, unit) proc \<Rightarrow> (request_frame \<Rightarrow> ('d, packet_exn, response_frame) proc) \<Rightarrow>
    run_args \<Rightarrow> ('d, packet_exn, run_report) proc" where
  "run_operation abort exchange args =
     thenP abort (\<lambda>_.
     thenP (liftP (packet_res build_status_query)) (\<lambda>query.
     thenP (exchange query) (\<lambda>reply.
     thenP (liftP (validate_fresh_status reply)) (\<lambda>_.
     thenP (liftP (packet_res (build_negotiate PROTOCOL_VERSION PROTOCOL_VERSION INTERPRETER_COMPAT 0))) (\<lambda>frame.
     thenP (exchange frame) (\<lambda>negotiate.
     if rs_status negotiate \<noteq> OK then liftP (Inl PacketTransportError)
     else
       thenP (liftP (validate_capabilities (rs_payload negotiate) INTERPRETER_COMPAT)) (\<lambda>_.
       if ra_operation args = ''status'' then
         thenP (liftP (packet_res build_status_query)) (\<lambda>query.
         thenP (exchange query) (\<lambda>reply.
         thenP (liftP (validate_fresh_status reply)) (\<lambda>_.
           liftP (Inr (StatusReport (rs_status reply) (rs_payload reply))))))
       else
         thenP (liftP (packet_res (instruction_frame args))) (\<lambda>(frame, expected).
         thenP (exchange frame) (\<lambda>reply.
         if rs_status reply \<noteq> OK then liftP (Inl PacketTransportError)
         else
           thenP (liftP (packet_res (decode_result_payload (rs_payload reply) (Some (ra_txn_id args))))) (\<lambda>decoded.
           thenP (liftP (validate_instruction_result decoded args expected)) (\<lambda>_.
           thenP (liftP (packet_res (build_retire (ra_txn_id args) (crc32 (rs_payload reply))))) (\<lambda>retire.
           thenP (exchange retire) (\<lambda>retired.
           thenP (liftP (validate_retired retired args)) (\<lambda>_.
             liftP (Inr (InstructionReport (rs_status reply) (rs_status retired) decoded expected)))))))))))))))) "

section \<open>An endpoint at the other end\<close>

text \<open>
  The transport of the driver is outside the repository. What follows is one such transport: a
  port wired to the lane of the endpoint, clock edge by clock edge, which takes and hands out the
  bytes of a call in cuts of its own choice: at the call that ends the history \<open>es\<close> at most
  \<open>wr es\<close> are written and \<open>rd es\<close> read. Its state is the endpoint and the bytes waiting in the
  input buffer of the port.
\<close>

type_synonym line = "endpoint \<times> bytes"
type_synonym cut = "event list \<Rightarrow> nat"

fun line_out :: "nat \<Rightarrow> line \<Rightarrow> line" where
  "line_out 0 l = l"
| "line_out (Suc n) (e, out) =
     (case ep_step 0 False True False True e of
        (Inl _, e) \<Rightarrow> (e, out)
      | (Inr record, e) \<Rightarrow>
          line_out n (e, if ln_tx_committed record then out @ [word_of_int (pn_tx_data (ln_pins record))] else out))"

definition line_byte :: "byte \<Rightarrow> line \<Rightarrow> line" where
  "line_byte b = (\<lambda>(e, out). let e = snd (ep_step (uint b) True True False True e) in line_out (length (ep_tx e)) (e, out))"

definition line_event :: "cut \<Rightarrow> cut \<Rightarrow> event list \<Rightarrow> line \<Rightarrow> line" where
  "line_event rd wr es l =
     (case last es of
        WriteBytes data _ \<Rightarrow> fold line_byte (take (wr es) data) l
      | ReadBytes n _ \<Rightarrow> (fst l, drop (min (rd es) (nat n)) (snd l))
      | Break _ \<Rightarrow> (snd (ep_step 0 False False True True (fst l)), snd l)
      | _ \<Rightarrow> l)"

definition line_after :: "cut \<Rightarrow> cut \<Rightarrow> event list \<Rightarrow> line" where
  "line_after rd wr es = fold (line_event rd wr) (map (\<lambda>n. take (Suc n) es) [0..<length es]) (ep_reset, [])"

definition uart_world :: "(event list \<Rightarrow> int) \<Rightarrow> cut \<Rightarrow> cut \<Rightarrow> world" where
  "uart_world clk rd wr =
     \<lparr>w_clock = clk, w_clock_ns = clk,
      w_in_waiting = (\<lambda>es. Returned (int (length (snd (line_after rd wr es))))),
      w_read = (\<lambda>es. case last es of ReadBytes n _ \<Rightarrow> Returned (take (min (rd es) (nat n)) (snd (line_after rd wr (butlast es)))) | _ \<Rightarrow> Raised),
      w_write = (\<lambda>es. case last es of WriteBytes data _ \<Rightarrow> Returned (Count (int (min (wr es) (length data)))) | _ \<Rightarrow> Raised),
      w_flush = (\<lambda>_. Returned ()), w_abort = (\<lambda>_. Raised), w_break = (\<lambda>_. Returned ()),
      w_has_flush = True, w_has_abort = False, w_has_break = True, w_has_timeout = True\<rparr>"

lemma line_after_snoc [simp]: "line_after rd wr (es @ [e]) = line_event rd wr (es @ [e]) (line_after rd wr es)"
  by (simp add: line_after_def prefixes_snoc [of "\<lambda>es. es"] del: take_append)

lemma line_event_quiet [simp]:
  "line_event rd wr (es @ [Clock]) l = l" "line_event rd wr (es @ [ClockNs]) l = l" "line_event rd wr (es @ [Pause t]) l = l"
  "line_event rd wr (es @ [InWaiting t]) l = l" "line_event rd wr (es @ [Flush t]) l = l"
  by (simp_all add: line_event_def)

text \<open>
  What the driver needs of the cuts. A write takes something. A read that follows a report of waiting
  bytes gives something; any other may come back empty, but not \<open>k\<close> times in a row.
\<close>

definition told_waiting :: "event list \<Rightarrow> bool" where
  "told_waiting es = (case dropWhile (\<lambda>e. e = Clock) (rev es) of InWaiting _ # _ \<Rightarrow> True | _ \<Rightarrow> False)"

definition is_read :: "event \<Rightarrow> bool" where
  "is_read e = (case e of ReadBytes _ _ \<Rightarrow> True | _ \<Rightarrow> False)"

fun dry_reads :: "cut \<Rightarrow> event list \<Rightarrow> event list \<Rightarrow> bool" where
  "dry_reads rd es [] = True"
| "dry_reads rd es (e # new) = ((is_read e \<longrightarrow> rd (es @ [e]) = 0) \<and> dry_reads rd (es @ [e]) new)"

definition serves :: "nat \<Rightarrow> cut \<Rightarrow> cut \<Rightarrow> bool" where
  "serves k rd wr \<longleftrightarrow> (\<forall>es. 0 < wr es) \<and> (\<forall>es e. told_waiting es \<longrightarrow> 0 < rd (es @ [e])) \<and>
     (\<forall>es new. dry_reads rd es new \<longrightarrow> length (filter is_read new) < k)"

lemma servesD:
  assumes "serves k rd wr"
  shows "0 < wr es" "told_waiting es \<Longrightarrow> 0 < rd (es @ [e])" "dry_reads rd es new \<Longrightarrow> length (filter is_read new) < k"
  using assms by (auto simp: serves_def)

lemma told_waiting_simps [simp]: "told_waiting (es @ [Clock]) = told_waiting es" "told_waiting (es @ [InWaiting t])"
  by (simp_all add: told_waiting_def)

lemma dry_reads_append [simp]: "dry_reads rd es (new @ new') \<longleftrightarrow> dry_reads rd es new \<and> dry_reads rd (es @ new) new'"
  by (induction new arbitrary: es) simp_all

section \<open>The line carries a frame and its answer\<close>

lemma line_out_all: "line_out (length (ep_tx e)) (e, out) =
    (if ep_tx e = [] then e else e\<lparr>ep_tx := [], ep_done := False\<rparr>, out @ ep_tx e)"
proof (induction "ep_tx e" arbitrary: e out)
  case Nil
  then show ?case by (metis append_Nil2 line_out.simps(1) list.size(3))
next
  case (Cons b bs)
  note b = Cons.hyps(2) [symmetric]
  let ?e = "e\<lparr>ep_done := False, ep_tx := bs\<rparr>"
  have d: "word_of_int (pn_tx_data (ep_pins e)) = b" by (simp add: ep_pins_def b)
  have n: "ep_tx ?e = bs" by simp
  have "line_out (length (ep_tx e)) (e, out) = line_out (length (ep_tx ?e)) (?e, out @ [b])"
    by (simp add: b step_send [OF b] d)
  also have "\<dots> = (if bs = [] then ?e else ?e\<lparr>ep_tx := [], ep_done := False\<rparr>, (out @ [b]) @ bs)"
    using Cons.hyps(1) [of ?e "out @ [b]"] by simp
  finally show ?case by (auto simp: b)
qed

lemma line_byte_accept:
  assumes "quiet e"
  shows "line_byte b (receiving f k e, out) = (let e1 = snd (ep_accept b (receiving f k e)) in line_out (length (ep_tx e1)) (e1, out))"
  using step_byte [OF assms, of b True f k]
  by (auto simp: line_byte_def thenM_def Let_def split: sum.splits prod.splits)

lemma line_receives:
  assumes f: "well_framed f" and e: "quiet e" and d: "ep_dispatch f e = (Inr (), e1)" "ep_tx e1 \<noteq> []" and k: "k < length f"
  shows "fold line_byte (drop k f) (receiving f k e, out) = (e1\<lparr>ep_tx := [], ep_done := False\<rparr>, out @ ep_tx e1)"
  using k
proof (induction "length f - k" arbitrary: k)
  case 0
  then show ?case by simp
next
  case (Suc n)
  have s: "drop k f = f ! k # drop (k + 1) f" using Suc.prems by (simp add: Cons_nth_drop_Suc)
  show ?case
  proof (cases "k + 1 < length f")
    case True
    have t: "ep_tx (receiving f (k + 1) e) = []" using e by (simp add: quiet_def)
    have "line_byte (f ! k) (receiving f k e, out) = (receiving f (k + 1) e, out)"
      using t by (simp add: line_byte_accept [OF e] receiving_Suc [OF f True e, simplified] Let_def)
    with Suc.hyps True show ?thesis by (simp add: s)
  next
    case False
    with Suc.prems have "k + 1 = length f" by simp
    from receiving_last [OF f this e] show ?thesis
      using d by (simp add: s line_byte_accept [OF e] Let_def line_out_all False) (use False in simp)
  qed
qed

lemma line_answers:
  assumes "well_framed f" "quiet e" "ep_dispatch f e = (Inr (), e1)" "ep_tx e1 \<noteq> []"
  shows "fold line_byte f (e, out) = (e1\<lparr>ep_tx := [], ep_done := False\<rparr>, out @ ep_tx e1)"
proof -
  have "0 < length f" using well_framed_long [OF assms(1)] by linarith
  from line_receives [OF assms this, of out] show ?thesis by (simp add: receiving_0 [OF assms(2)])
qed

section \<open>The driver on that line\<close>

text \<open>Where a driver has got to: nothing but its history has changed, and the line is \<open>l\<close>.\<close>

definition moved_to :: "cut \<Rightarrow> cut \<Rightarrow> packet_driver \<Rightarrow> line \<Rightarrow> packet_driver \<Rightarrow> bool" where
  "moved_to rd wr d l d' \<longleftrightarrow> line_after rd wr (se_events d') = l \<and> (\<exists>es. d' = d\<lparr>se_events := es\<rparr>)"

lemma moved_self: "moved_to rd wr d (line_after rd wr (se_events d)) d"
proof -
  have "d = d\<lparr>se_events := se_events d\<rparr>" by simp
  then show ?thesis unfolding moved_to_def by blast
qed

lemma moved_then: "moved_to rd wr d l d1 \<Longrightarrow> moved_to rd wr d1 l' d2 \<Longrightarrow> moved_to rd wr d l' d2"
  by (auto simp: moved_to_def)

lemma moved_event: "moved_to rd wr d l d1 \<Longrightarrow> moved_to rd wr d (line_event rd wr (se_events d1 @ [e]) l) (d1\<lparr>se_events := se_events d1 @ [e]\<rparr>)"
  by (auto simp: moved_to_def)

lemma moved_line: "moved_to rd wr d l d1 \<Longrightarrow> line_after rd wr (se_events d1) = l"
  by (simp add: moved_to_def)

lemma moved_keeps: "moved_to rd wr d l d1 \<Longrightarrow> pk_timeout d1 = pk_timeout d \<and> pk_exchanges d1 = pk_exchanges d \<and> pk_rest d1 = pk_rest d \<and> pk_settle d1 = pk_settle d"
  by (auto simp: moved_to_def)

text \<open>A routine that returns \<open>v\<close> and leaves the line at \<open>l\<close>.\<close>

definition reaches :: "cut \<Rightarrow> cut \<Rightarrow> 'a pk_proc \<Rightarrow> packet_driver \<Rightarrow> 'a \<Rightarrow> line \<Rightarrow> bool" where
  "reaches rd wr m d v l \<longleftrightarrow> (\<exists>d'. m d = Some (Inr v, d') \<and> moved_to rd wr d l d')"

lemma reaches_then:
  assumes "reaches rd wr m d v l" "\<And>d'. moved_to rd wr d l d' \<Longrightarrow> reaches rd wr (f v) d' v' l'"
  shows "reaches rd wr (thenP m f) d v' l'"
proof -
  obtain d1 where 1: "m d = Some (Inr v, d1)" "moved_to rd wr d l d1" using assms(1) by (auto simp: reaches_def)
  obtain d2 where "f v d1 = Some (Inr v', d2)" "moved_to rd wr d1 l' d2" using assms(2) [OF 1(2)] by (auto simp: reaches_def)
  with 1 show ?thesis by (auto simp: reaches_def thenP_def intro: moved_then)
qed

lemma uart_world_simps [simp]:
  "w_clock (uart_world clk rd wr) = clk" "w_clock_ns (uart_world clk rd wr) = clk" "w_has_break (uart_world clk rd wr)"
  "w_has_timeout (uart_world clk rd wr)" "w_flush (uart_world clk rd wr) es = Returned ()" "w_break (uart_world clk rd wr) es = Returned ()"
  "w_in_waiting (uart_world clk rd wr) es = Returned (int (length (snd (line_after rd wr es))))"
  "w_read (uart_world clk rd wr) (es @ [ReadBytes n t]) = Returned (take (min (rd (es @ [ReadBytes n t])) (nat n)) (snd (line_after rd wr es)))"
  "w_write (uart_world clk rd wr) (es @ [WriteBytes data t]) = Returned (Count (int (min (wr (es @ [WriteBytes data t])) (length data))))"
  by (simp_all add: uart_world_def)

text \<open>No deadline of a call passes.\<close>

definition punctual :: "(event list \<Rightarrow> int) \<Rightarrow> int \<Rightarrow> bool" where
  "punctual clk deadline \<longleftrightarrow> (\<forall>es. clk es < deadline)"

lemma remaining_ok:
  assumes "punctual clk D"
  shows "\<exists>r d'. pk_remaining (uart_world clk rd wr) D d = (Inr r, d') \<and> moved_to rd wr d (line_after rd wr (se_events d)) d' \<and>
    se_events d' = se_events d @ [Clock]"
  using assms moved_event [OF moved_self, of rd wr d Clock]
  by (auto simp: pk_remaining_def se_now_def Let_def punctual_def not_le)

lemma bounded_ok:
  assumes "punctual clk D" "call (se_events d @ [e]) = Returned v"
  shows "\<exists>d'. pk_bounded (uart_world clk rd wr) call e D d = (Inr v, d') \<and>
    moved_to rd wr d (line_event rd wr (se_events d @ [e]) (line_after rd wr (se_events d))) d' \<and> se_events d' = se_events d @ [e, Clock]"
proof -
  let ?d = "d\<lparr>se_events := se_events d @ [e]\<rparr>"
  obtain r d' where r: "pk_remaining (uart_world clk rd wr) D ?d = (Inr r, d')" "moved_to rd wr ?d (line_after rd wr (se_events ?d)) d'"
      "se_events d' = se_events ?d @ [Clock]"
    using remaining_ok [OF assms(1)] by blast
  then show ?thesis using assms(2) moved_then [OF moved_event [OF moved_self, of rd wr d e], of "line_after rd wr (se_events ?d)"]
    by (simp add: pk_bounded_def thenM_def Let_def)
qed

text \<open>The three loops: bytes written, read and drained, whatever the port does in one call.\<close>

lemma took_rest: "take k xs @ drop (min k (length xs)) xs = xs"
  by (cases "k \<le> length xs") simp_all

lemma write_loop_ok:
  assumes p: "punctual clk D" and sv: "serves k rd wr"
  shows "reaches rd wr (repeatP (pk_write_body (uart_world clk rd wr) data D) n) d () (fold line_byte (drop n data) (line_after rd wr (se_events d)))"
proof (induction "length data - n" arbitrary: n d rule: less_induct)
  case less
  let ?w = "uart_world clk rd wr"
  show ?case
  proof (cases "n < length data")
    case False
    then show ?thesis using moved_self [of rd wr d]
      by (subst reaches_def, subst repeatP.simps) (auto simp: pk_write_body_def)
  next
    case True
    let ?e = "WriteBytes (drop n data) 0"
    obtain t d1 where 1: "pk_remaining ?w D d = (Inr t, d1)" "moved_to rd wr d (line_after rd wr (se_events d)) d1"
      using remaining_ok [OF p] by blast
    define c where "c = wr (se_events d1 @ [?e])"
    let ?k = "min c (length data - n)"
    obtain d2 where 2: "pk_bounded ?w (w_write ?w) ?e D d1 = (Inr (Count (int ?k)), d2)"
        "moved_to rd wr d1 (line_event rd wr (se_events d1 @ [?e]) (line_after rd wr (se_events d1))) d2"
      using bounded_ok [OF p, of "w_write ?w" d1 ?e "Count (int ?k)" rd wr] by (auto simp: c_def)
    have k: "0 < ?k" using True servesD(1) [OF sv] by (simp add: c_def)
    have "reaches rd wr (repeatP (pk_write_body ?w data D) (n + ?k)) d2 () (fold line_byte (drop (n + ?k) data) (line_after rd wr (se_events d2)))"
      using k True by (intro less) simp
    then obtain d3 where 3: "repeatP (pk_write_body ?w data D) (n + ?k) d2 = Some (Inr (), d3)"
        "moved_to rd wr d2 (fold line_byte (drop (n + ?k) data) (line_after rd wr (se_events d2))) d3" by (auto simp: reaches_def)
    have "fold line_byte (drop (n + ?k) data) (line_after rd wr (se_events d2)) = fold line_byte (drop n data) (line_after rd wr (se_events d))"
    proof -
      have "line_after rd wr (se_events d2) = fold line_byte (take c (drop n data)) (line_after rd wr (se_events d))"
        using moved_line [OF 2(2)] moved_line [OF 1(2)] by (simp add: line_event_def c_def)
      moreover have "take c (drop n data) @ drop (n + ?k) data = drop n data"
        using took_rest [of c "drop n data"] by (simp add: add.commute)
      then have "fold line_byte (drop n data) l = fold line_byte (drop (n + ?k) data) (fold line_byte (take c (drop n data)) l)" for l
        by (metis fold_append comp_apply)
      ultimately show ?thesis by simp
    qed
    moreover have "pk_write_body ?w data D n d = (Inr (Inl (n + ?k)), d2)"
      using True k by (simp add: pk_write_body_def thenM_def 1 2)
    ultimately show ?thesis using 3 moved_then [OF 1(2) moved_then [OF 2(2)]]
      by (subst reaches_def, subst repeatP.simps) auto
  qed
qed

text \<open>Empty reads since \<open>es\<close>: there are less than \<open>k\<close> of them, so the loop goes on.\<close>

lemma read_loop_ok:
  assumes p: "punctual clk D" and sv: "serves k rd wr"
  shows "line_after rd wr (se_events d) = (e, out) \<Longrightarrow> amount \<le> length data + length out \<Longrightarrow> length data \<le> amount \<Longrightarrow>
    se_events d = es @ new \<Longrightarrow> dry_reads rd es new \<Longrightarrow>
    reaches rd wr (repeatP (pk_read_body (uart_world clk rd wr) amount D) data) d
      (data @ take (amount - length data) out) (e, drop (amount - length data) out)"
proof (induction "(amount - length data) * Suc k + (k - length (filter is_read new))" arbitrary: data out d es new rule: less_induct)
  case less
  let ?w = "uart_world clk rd wr"
  show ?case
  proof (cases "length data < amount")
    case False
    with less.prems(2,3) less.prems(1) show ?thesis using moved_self [of rd wr d]
      by (subst reaches_def, subst repeatP.simps) (auto simp: pk_read_body_def)
  next
    case True
    let ?n = "amount - length data" and ?e = "ReadBytes (int (amount - length data)) 0"
    obtain t d1 where 1: "pk_remaining ?w D d = (Inr t, d1)" "moved_to rd wr d (line_after rd wr (se_events d)) d1"
        "se_events d1 = se_events d @ [Clock]"
      using remaining_ok [OF p] by blast
    have l1: "line_after rd wr (se_events d1) = (e, out)" using moved_line [OF 1(2)] less.prems(1) by simp
    define r where "r = rd (se_events d1 @ [?e])"
    define c where "c = take (min r ?n) out"
    define out' where "out' = drop (min r ?n) out"
    obtain d2 where 2: "pk_bounded ?w (w_read ?w) ?e D d1 = (Inr c, d2)" "moved_to rd wr d1 (e, out') d2"
        "se_events d2 = se_events d1 @ [?e, Clock]"
      using bounded_ok [OF p, of "w_read ?w" d1 ?e c rd wr] by (auto simp: l1 line_event_def r_def c_def out'_def)
    have lc: "length c = min r ?n" "length out' = length out - min r ?n" using less.prems True by (auto simp: c_def out'_def)
    have bounds: "amount \<le> length (data @ c) + length out'" "length (data @ c) \<le> amount"
      using less.prems lc True by (auto simp: min_def)
    have s: "amount - length (data @ c) = ?n - min r ?n" "min r ?n + (?n - min r ?n) = ?n"
      using lc by (simp, intro le_add_diff_inverse min.cobounded2)
    have rest: "reaches rd wr (repeatP (pk_read_body ?w amount D) (data @ c)) d2
        ((data @ c) @ take (amount - length (data @ c)) out') (e, drop (amount - length (data @ c)) out')"
    proof (cases "r = 0")
      case True
      let ?new = "new @ [Clock, ?e, Clock]"
      have n: "se_events d2 = es @ ?new" "dry_reads rd es ?new"
        using 1(3) 2(3) less.prems(4,5) True by (simp_all add: is_read_def r_def)
      have "length (filter is_read ?new) < k" "length (filter is_read ?new) = Suc (length (filter is_read new))"
        using servesD(3) [OF sv n(2)] by (simp_all add: is_read_def)
      then have "(amount - length (data @ c)) * Suc k + (k - length (filter is_read ?new)) < ?n * Suc k + (k - length (filter is_read new))"
        using True lc by simp
      from less.hyps [OF this moved_line [OF 2(2)] bounds n] show ?thesis .
    next
      case False
      have a: "amount - length (data @ c) < ?n" using False True lc by simp
      then have "Suc (amount - length (data @ c)) * Suc k \<le> ?n * Suc k" by (intro mult_le_mono1) simp
      then have m: "(amount - length (data @ c)) * Suc k + (k - length (filter is_read [])) < ?n * Suc k + (k - length (filter is_read new))"
        by simp
      show ?thesis by (rule less.hyps [OF m moved_line [OF 2(2)] bounds, of "se_events d2"]) simp_all
    qed
    moreover have "(data @ c) @ take (amount - length (data @ c)) out' = data @ take ?n out"
      unfolding s(1) unfolding c_def out'_def using take_add [of "min r ?n" "?n - min r ?n" out] s(2) by simp
    moreover have "drop (amount - length (data @ c)) out' = drop ?n out"
      unfolding s(1) unfolding out'_def drop_drop using s(2) by (simp only: add.commute)
    ultimately obtain d3 where 3: "repeatP (pk_read_body ?w amount D) (data @ c) d2 = Some (Inr (data @ take ?n out), d3)"
        "moved_to rd wr d2 (e, drop ?n out) d3" by (auto simp: reaches_def)
    have "pk_read_body ?w amount D data d = (Inr (Inl (data @ c)), d2)"
      using True 1(1) 2(1) by (simp add: pk_read_body_def thenM_def)
    with 3 moved_then [OF 1(2) moved_then [OF 2(2)]] show ?thesis
      by (subst reaches_def, subst repeatP.simps) auto
  qed
qed

lemma drain_loop_ok:
  assumes p: "punctual clk D" and sv: "serves k rd wr"
  shows "line_after rd wr (se_events d) = (e, out) \<Longrightarrow> told_waiting (se_events d) \<Longrightarrow>
    reaches rd wr (repeatP (pk_drain_body (uart_world clk rd wr) D) (int (length out), drained)) d (drained @ out) (e, [])"
proof (induction "length out" arbitrary: out drained d rule: less_induct)
  case less
  let ?w = "uart_world clk rd wr"
  show ?case
  proof (cases "out = []")
    case True
    then show ?thesis using moved_self [of rd wr d] less.prems
      by (subst reaches_def, subst repeatP.simps) (auto simp: pk_drain_body_def)
  next
    case False
    let ?e = "ReadBytes (int (length out)) 0"
    obtain t d1 where 1: "pk_remaining ?w D d = (Inr t, d1)" "moved_to rd wr d (line_after rd wr (se_events d)) d1"
        "se_events d1 = se_events d @ [Clock]"
      using remaining_ok [OF p] by blast
    have l1: "line_after rd wr (se_events d1) = (e, out)" using moved_line [OF 1(2)] less.prems(1) by simp
    define r where "r = rd (se_events d1 @ [?e])"
    have r: "0 < r" using servesD(2) [OF sv, of "se_events d1"] less.prems(2) 1(3) by (simp add: r_def)
    let ?k = "min r (length out)"
    obtain d2 where 2: "pk_bounded ?w (w_read ?w) ?e D d1 = (Inr (take ?k out), d2)" "moved_to rd wr d1 (e, drop ?k out) d2"
      using bounded_ok [OF p, of "w_read ?w" d1 ?e "take ?k out" rd wr] by (auto simp: l1 line_event_def r_def)
    obtain d3 where 3: "pk_bounded ?w (w_in_waiting ?w) (InWaiting 0) D d2 = (Inr (int (length (drop ?k out))), d3)"
        "moved_to rd wr d2 (e, drop ?k out) d3" "se_events d3 = se_events d2 @ [InWaiting 0, Clock]"
      using bounded_ok [OF p, of "w_in_waiting ?w" d2 "InWaiting 0" "int (length (drop ?k out))" rd wr] moved_line [OF 2(2)] by auto
    have "told_waiting ((se_events d2 @ [InWaiting 0]) @ [Clock])" by (simp only: told_waiting_simps)
    then have w: "told_waiting (se_events d3)" using 3(3) by simp
    have ne: "take ?k out \<noteq> []" using False r by simp
    have "length (drop ?k out) < length out" using False r by simp
    from less.hyps [OF this moved_line [OF 3(2)] w, of "drained @ take ?k out"]
    have "reaches rd wr (repeatP (pk_drain_body ?w D) (int (length (drop ?k out)), drained @ take ?k out)) d3 (drained @ out) (e, [])" by simp
    then obtain d4 where 4: "repeatP (pk_drain_body ?w D) (int (length (drop ?k out)), drained @ take ?k out) d3 = Some (Inr (drained @ out), d4)"
        "moved_to rd wr d3 (e, []) d4" by (auto simp: reaches_def)
    have "pk_drain_body ?w D (int (length out), drained) d = (Inr (Inl (int (length (drop ?k out)), drained @ take ?k out)), d3)"
      using False ne by (simp add: pk_drain_body_def thenM_def 1 2 3)
    with 4 moved_then [OF 1(2) moved_then [OF 2(2) moved_then [OF 3(2)]]] show ?thesis
      by (subst reaches_def, subst repeatP.simps) auto
  qed
qed

section \<open>One exchange\<close>

lemma moved_keepsD:
  assumes "moved_to rd wr d l d'"
  shows "pk_timeout d' = pk_timeout d" "pk_exchanges d' = pk_exchanges d" "pk_rest d' = pk_rest d" "pk_settle d' = pk_settle d"
  using moved_keeps [OF assms] by simp_all

lemma drain_ok:
  assumes p: "punctual clk D" and sv: "serves k rd wr"
  shows "reaches rd wr (pk_drain (uart_world clk rd wr) (Some D)) d (snd (line_after rd wr (se_events d))) (fst (line_after rd wr (se_events d)), [])"
proof -
  let ?w = "uart_world clk rd wr"
  obtain e out where l: "line_after rd wr (se_events d) = (e, out)" by force
  obtain d1 where 1: "pk_bounded ?w (w_in_waiting ?w) (InWaiting 0) D d = (Inr (int (length out)), d1)" "moved_to rd wr d (e, out) d1"
      "se_events d1 = se_events d @ [InWaiting 0, Clock]"
    using bounded_ok [OF p, of "w_in_waiting ?w" d "InWaiting 0" "int (length out)" rd wr] by (auto simp: l)
  have "told_waiting ((se_events d @ [InWaiting 0]) @ [Clock])" by (simp only: told_waiting_simps)
  then have "told_waiting (se_events d1)" using 1(3) by simp
  from drain_loop_ok [OF p sv moved_line [OF 1(2)] this, of "[]"] obtain d2 where
    "repeatP (pk_drain_body ?w D) (int (length out), []) d1 = Some (Inr out, d2)" "moved_to rd wr d1 (e, []) d2"
    by (auto simp: reaches_def)
  with 1 show ?thesis
    by (auto simp: pk_drain_def l reaches_def thenP_def pk_total_def intro: moved_then)
qed

lemma write_ok:
  assumes p: "punctual clk D" and sv: "serves k rd wr"
  shows "reaches rd wr (pk_write_all (uart_world clk rd wr) data D) d () (fold line_byte data (line_after rd wr (se_events d)))"
  unfolding pk_write_all_def
proof (rule reaches_then [OF write_loop_ok [OF assms, where n = 0]], goal_cases)
  case (1 d')
  from bounded_ok [OF p, of "w_flush (uart_world clk rd wr)" d' "Flush 0" "()" rd wr] show ?case
    by (auto simp: reaches_def pk_total_def moved_line [OF 1])
qed

lemma read_ok:
  assumes "punctual clk D" "serves k rd wr" "line_after rd wr (se_events d) = (e, out)" "amount \<le> length out"
  shows "reaches rd wr (pk_read_exact (uart_world clk rd wr) amount D) d (take amount out) (e, drop amount out)"
  using read_loop_ok [OF assms(1,2,3), of amount "[]" "se_events d" "[]"] assms(4) by (simp add: pk_read_exact_def)

lemma pause_ok: "reaches rd wr (pk_total (pk_pause t)) d () (line_after rd wr (se_events d))"
  using moved_event [OF moved_self, of rd wr d "Pause t"] by (simp add: reaches_def pk_total_def pk_pause_def)

lemma clock_ns_ok: "\<exists>t. reaches rd wr (pk_total (pk_clock_ns (uart_world clk rd wr))) d t (line_after rd wr (se_events d))"
  using moved_event [OF moved_self, of rd wr d ClockNs] by (auto simp: reaches_def pk_total_def pk_clock_ns_def Let_def)

lemma total_remaining_ok: "punctual clk D \<Longrightarrow> \<exists>t. reaches rd wr (pk_total (pk_remaining (uart_world clk rd wr) D)) d t (line_after rd wr (se_events d))"
  using remaining_ok [of clk D rd wr d] by (auto simp: reaches_def pk_total_def)

lemma lift_ok: "m = Inr v \<Longrightarrow> reaches rd wr (liftP m) d v (line_after rd wr (se_events d))"
  using moved_self [of rd wr d] by (simp add: reaches_def liftP_def)

text \<open>The clock stays below the timeout, so no deadline the driver computes is reached.\<close>

definition within :: "(event list \<Rightarrow> int) \<Rightarrow> int \<Rightarrow> bool" where
  "within clk timeout \<longleftrightarrow> (\<forall>es. 0 \<le> clk es \<and> clk es < timeout)"

lemma punctual_within: "within clk t \<Longrightarrow> punctual clk (clk es + t)"
  by (auto simp: within_def punctual_def intro: order.strict_trans2)

lemma response_length_field: "length q \<le> MAX_PAYLOAD_BYTES \<Longrightarrow> nat (le_int (pyslice 3 5 (take 5 (response_bytes s q)))) = length q"
  by (simp add: pyslice_def response_bytes_def response_body_def fits_def MAX_PAYLOAD_BYTES_def)

lemma reachesD:
  assumes "reaches rd wr m d v l"
  obtains d' where "m d = Some (Inr v, d')" "moved_to rd wr d l d'"
  using assms by (auto simp: reaches_def)

lemma exchange_ok:
  assumes t: "within clk (pk_timeout d)" "serves k rd wr" and l: "line_after rd wr (se_events d) = (e, out)" and e: "quiet e"
    and p: "length p = REQUEST_PAYLOAD_BYTES op" and r: "ep_dispatch (request_bytes op p) e = (Inr (), e1)"
    and q: "ep_tx e1 = response_bytes st q" "length q \<le> MAX_PAYLOAD_BYTES"
  shows "\<exists>d' t. pk_exchange (uart_world clk rd wr) (RequestFrame op p) d = Some (Inr (ResponseFrame st q), d') \<and>
    line_after rd wr (se_events d') = (e1\<lparr>ep_tx := [], ep_done := False\<rparr>, []) \<and> pk_timeout d' = pk_timeout d \<and>
    pk_exchanges d' = pk_exchanges d @ [\<lparr>pe_request = request_bytes op p, pe_response = response_bytes st q, pe_duration = t\<rparr>]"
proof -
  let ?w = "uart_world clk rd wr" and ?e = "e1\<lparr>ep_tx := [], ep_done := False\<rparr>" and ?f = "request_bytes op p"
  define d0 where "d0 = d\<lparr>se_events := se_events d @ [Clock]\<rparr>"
  define D where "D = clk (se_events d @ [Clock]) + pk_timeout d"
  have now: "se_now ?w d = (clk (se_events d @ [Clock]), d0)" by (simp add: se_now_def Let_def d0_def)
  have P: "punctual clk D" unfolding D_def by (rule punctual_within [OF t(1)])
  have m0: "moved_to rd wr d (e, out) d0" using moved_event [OF moved_self, of rd wr d Clock] by (simp add: l d0_def)
  have f: "well_framed ?f" using request_well_framed [OF p] .
  have sl: "length p < 2 ^ 16" "length q < 2 ^ 16" using p payload_bytes_le [of op] q(2) by (simp_all add: MAX_PAYLOAD_BYTES_def)
  have tx: "ep_tx e1 \<noteq> []" using q(1) by (metis length_bodies(4) length_0_conv add_is_0 zero_neq_numeral)
  have lr: "length (response_bytes st q) = 9 + length q" by simp
  obtain d1 where 1: "pk_drain ?w (Some D) d0 = Some (Inr out, d1)" "moved_to rd wr d0 (e, []) d1"
    using reachesD [OF drain_ok [OF P t(2), of d0]] moved_line [OF m0] by auto
  obtain s d2 where 2: "pk_total (pk_clock_ns ?w) d1 = Some (Inr s, d2)" "moved_to rd wr d1 (e, []) d2"
    using clock_ns_ok [of rd wr clk d1] moved_line [OF 1(2)] by (auto elim!: reachesD)
  obtain d3 where 3: "pk_write_all ?w ?f D d2 = Some (Inr (), d3)" "moved_to rd wr d2 (?e, response_bytes st q) d3"
    using write_ok [OF P t(2), of ?f d2] moved_line [OF 2(2)] line_answers [OF f e r tx, of "[]"] q(1) by (auto elim!: reachesD)
  obtain d4 where 4: "pk_read_exact ?w 5 D d3 = Some (Inr (take 5 (response_bytes st q)), d4)"
      "moved_to rd wr d3 (?e, drop 5 (response_bytes st q)) d4"
    using reachesD [OF read_ok [OF P t(2) moved_line [OF 3(2)], of 5]] lr by auto
  obtain d5 where 5: "pk_read_exact ?w (length q + 4) D d4 = Some (Inr (drop 5 (response_bytes st q)), d5)" "moved_to rd wr d4 (?e, []) d5"
    using reachesD [OF read_ok [OF P t(2) moved_line [OF 4(2)], of "length q + 4"]] lr by auto
  obtain n d6 where 6: "pk_total (pk_remaining ?w D) d5 = Some (Inr n, d6)" "moved_to rd wr d5 (?e, []) d6"
    using total_remaining_ok [OF P, of rd wr d5] moved_line [OF 5(2)] by (auto elim!: reachesD)
  obtain d7 where 7: "pk_total (\<lambda>d. pk_pause (min (pk_settle d) n) d) d6 = Some (Inr (), d7)" "moved_to rd wr d6 (?e, []) d7"
    using reachesD [OF pause_ok [of rd wr "min (pk_settle d6) n" d6]] moved_line [OF 6(2)] by (auto simp: pk_total_def)
  obtain d8 where 8: "pk_drain ?w (Some D) d7 = Some (Inr [], d8)" "moved_to rd wr d7 (?e, []) d8"
    using reachesD [OF drain_ok [OF P t(2), of d7]] moved_line [OF 7(2)] by auto
  obtain s' d9 where 9: "pk_total (pk_clock_ns ?w) d8 = Some (Inr s', d9)" "moved_to rd wr d8 (?e, []) d9"
    using clock_ns_ok [of rd wr clk d8] moved_line [OF 8(2)] by (auto elim!: reachesD)
  have m: "moved_to rd wr d (?e, []) d9"
    using m0 1(2) 2(2) 3(2) 4(2) 5(2) 6(2) 7(2) 8(2) 9(2) by (meson moved_then)
  let ?d = "d9\<lparr>pk_exchanges := pk_exchanges d9 @ [\<lparr>pe_request = ?f, pe_response = response_bytes st q, pe_duration = s' - s\<rparr>]\<rparr>"
  have "?f \<noteq> []" using f by (auto simp: well_framed_def)
  moreover have dt: "pk_timeout d0 = pk_timeout d" by (simp add: d0_def)
  ultimately have "pk_exchange_encoded ?w ?f d = Some (Inr (ResponseFrame st q), ?d)"
    using q(2) by (simp add: pk_exchange_encoded_def now Let_def D_def [symmetric] thenP_def 1 2 3 4 5 6 7 8 9 wire_constants
        response_length_field [OF q(2)] liftP_def packet_res_def decode_response_bytes [OF sl(2)])
  moreover have "pk_exchange ?w (RequestFrame op p) d = pk_exchange_encoded ?w ?f d"
    by (simp add: pk_exchange_def thenP_def liftP_def packet_res_def encode_request_eq [OF sl(1)])
  moreover note moved_keepsD [OF m] moved_line [OF m]
  ultimately show ?thesis by auto
qed

lemma abort_ok:
  assumes t: "within clk (pk_timeout d)" "serves k rd wr" and l: "line_after rd wr (se_events d) = (e, out)"
  shows "reaches rd wr (pk_abort (uart_world clk rd wr)) d () (ep_abort e, [])"
proof -
  let ?w = "uart_world clk rd wr"
  define d0 where "d0 = d\<lparr>se_events := se_events d @ [Clock]\<rparr>"
  define D where "D = clk (se_events d @ [Clock]) + pk_timeout d"
  have now: "se_now ?w d = (clk (se_events d @ [Clock]), d0)" by (simp add: se_now_def Let_def d0_def)
  have P: "punctual clk D" unfolding D_def by (rule punctual_within [OF t(1)])
  have m0: "moved_to rd wr d (e, out) d0" using moved_event [OF moved_self, of rd wr d Clock] by (simp add: l d0_def)
  have ab: "line_event rd wr (es @ [Break 0]) (e, out) = (ep_abort e, out)" for es by (simp add: line_event_def ep_step_def)
  obtain d1 where 1: "pk_total (pk_bounded ?w (w_break ?w) (Break 0) D) d0 = Some (Inr (), d1)" "moved_to rd wr d0 (ep_abort e, out) d1"
    using bounded_ok [OF P, of "w_break ?w" d0 "Break 0" "()" rd wr] by (auto simp: moved_line [OF m0] ab pk_total_def)
  obtain n d2 where 2: "pk_total (pk_remaining ?w D) d1 = Some (Inr n, d2)" "moved_to rd wr d1 (ep_abort e, out) d2"
    using total_remaining_ok [OF P, of rd wr d1] moved_line [OF 1(2)] by (auto elim!: reachesD)
  obtain d3 where 3: "pk_total (\<lambda>d. pk_pause (min (pk_rest d) n) d) d2 = Some (Inr (), d3)" "moved_to rd wr d2 (ep_abort e, out) d3"
    using reachesD [OF pause_ok [of rd wr "min (pk_rest d2) n" d2]] moved_line [OF 2(2)] by (auto simp: pk_total_def)
  obtain d4 where 4: "pk_drain ?w (Some D) d3 = Some (Inr out, d4)" "moved_to rd wr d3 (ep_abort e, []) d4"
    using reachesD [OF drain_ok [OF P t(2), of d3]] moved_line [OF 3(2)] by auto
  have "moved_to rd wr d (ep_abort e, []) d4" using m0 1(2) 2(2) 3(2) 4(2) by (meson moved_then)
  moreover have "pk_timeout d0 = pk_timeout d" by (simp add: d0_def)
  then have "pk_abort ?w d = Some (Inr (), d4)"
    by (simp add: pk_abort_def now Let_def D_def [symmetric] thenP_def 1 2 3 4) (simp add: pk_total_def)
  ultimately show ?thesis by (auto simp: reaches_def)
qed

end
