(* ===== verification/Packet_Run.thy ===== *)
theory Packet_Run
  imports Packet_Uart Runtime_Safety
begin

text \<open>
  The run of one operation by fpga_harness/host/lsc1_packet_uart.py, over any lane that answers as
  the endpoint does: the three requests and the instruction, what the endpoint answers to each,
  and that the driver finds every answer in order. The lane is a locale; the packet driver on a
  port wired to the endpoint is its interpretation.
\<close>

section \<open>A lane with an endpoint\<close>


text \<open>An endpoint after it has sent a response with status \<open>s\<close>.\<close>

definition noted :: "status \<Rightarrow> endpoint \<Rightarrow> endpoint" where
  "noted s e = e\<lparr>ep_last_status := s, ep_last_fault := (if is_fault s then s else ep_last_fault e), ep_tx := [], ep_done := False\<rparr>"

text \<open>An endpoint that has retired nothing since its reset.\<close>

definition unused :: "endpoint \<Rightarrow> bool" where
  "unused e \<longleftrightarrow> ep_retire_seq e = 0 \<and> \<not> ep_state_valid e \<and> ep_committed_pc e = 0 \<and> ep_committed_fp e = 0"

definition fresh :: "endpoint \<Rightarrow> bool" where
  "fresh e \<longleftrightarrow> quiet e \<and> unused e \<and> ep_state e = IDLE \<and> ep_staged e = None"

lemma unused_reset: "unused ep_reset"
  by (simp add: unused_def ep_reset_def)


lemma fresh_noted [simp]: "fresh e \<Longrightarrow> fresh (noted s e)" "fresh e \<Longrightarrow> fresh (noted s (e\<lparr>ep_profile := p\<rparr>))"
  by (simp_all add: fresh_def unused_def quiet_def noted_def)

lemma quiet_noted: "ep_rx e = [] \<Longrightarrow> ep_expected e = 0 \<Longrightarrow> quiet (noted s e)"
  by (simp add: quiet_def noted_def)


section \<open>The three requests around an instruction\<close>







section \<open>The instruction of a run\<close>
















section \<open>A run passes all its checks\<close>

lemma ResponseFrame_simps [simp]: "rs_status (ResponseFrame s p) = s" "rs_payload (ResponseFrame s p) = p"
  by (simp_all add: ResponseFrame_def)


section \<open>The driver is such a lane\<close>
















end
