(* ===== verification/Frozen_Oracle.thy ===== *)
theory Frozen_Oracle
  imports Program_Adapter Lsc1u_Pins Scalar_Oracle
begin

text \<open>
  docs/semantics/reference/oracle.py: the executable reference of the documentation, a function of
  one parsed vector, and the check of the published vectors. A field of a vector holds a string
  without a sign, an integer, a boolean or null, as in vectors.json; another kind of value is a
  TypeError where it is used.
\<close>

section \<open>Vectors\<close>

text \<open>\<open>Fault\<close> with its message, and Python's own exceptions.\<close>

datatype frozen_exn = Frozen string | FrozenRaised exn

text \<open>What \<open>execute\<close> returns, and the value a vector expects.\<close>

datatype frozen_result = FoInt int | FoPair int int | FoText string

text \<open>\<open>int(s, 16)\<close>: the prefix may be left out.\<close>

definition int_base16 :: "string \<Rightarrow> int res" where
  "int_base16 s =
     (if take 2 s \<in> {''0x'', ''0X''} then int_16 s
      else case s of [] \<Rightarrow> Inl ValueError | c # _ \<Rightarrow> if hex_digit c = None then Inl ValueError else hex_digits s 0 False)"

definition frozen :: "'a res \<Rightarrow> frozen_exn + 'a" where
  "frozen r = (case r of Inl x \<Rightarrow> Inl (FrozenRaised x) | Inr v \<Rightarrow> Inr v)"

definition fo_word :: "json \<Rightarrow> frozen_exn + int" where
  "fo_word s =
     (case s of
        JString text \<Rightarrow> frozen (int_base16 text)
      | JInt i \<Rightarrow> Inr i
      | JBool b \<Rightarrow> Inr (if b then 1 else 0)
      | _ \<Rightarrow> Inl (FrozenRaised TypeError))"

text \<open>\<open>v[key]\<close> and \<open>v.get(key)\<close>.\<close>

definition fo_item :: "json \<Rightarrow> string \<Rightarrow> frozen_exn + json" where
  "fo_item v key = frozen (json_item v key)"

definition fo_get :: "json \<Rightarrow> string \<Rightarrow> frozen_exn + json" where
  "fo_get v key = frozen (json_get v key JNull)"

definition fo_field :: "json \<Rightarrow> string \<Rightarrow> frozen_exn + int" where
  "fo_field v key = bindE (fo_item v key) fo_word"

text \<open>A number that is used as it is.\<close>

definition fo_number :: "json \<Rightarrow> string \<Rightarrow> frozen_exn + int" where
  "fo_number v key =
     bindE (fo_item v key) (\<lambda>x. case x of JInt i \<Rightarrow> Inr i | JBool b \<Rightarrow> Inr (if b then 1 else 0) | _ \<Rightarrow> Inl (FrozenRaised TypeError))"

text \<open>\<open>None if x is None else word(x)\<close>.\<close>

definition fo_maybe :: "json \<Rightarrow> frozen_exn + int option" where
  "fo_maybe x = (case x of JNull \<Rightarrow> Inr None | _ \<Rightarrow> bindE (fo_word x) (\<lambda>n. Inr (Some n)))"

section \<open>Arithmetic\<close>

definition fo_xtime :: "int \<Rightarrow> int" where
  "fo_xtime a = (push_bit 1 a AND (push_bit 128 1 - 1)) XOR (if drop_bit 127 a \<noteq> 0 then 0x87 else 0)"

text \<open>\<open>while b\<close>, which does not end for a negative \<open>b\<close>.\<close>

partial_function (option) fo_mul_loop :: "int \<Rightarrow> int \<Rightarrow> int \<Rightarrow> int option" where
  "fo_mul_loop out a b =
     (if b = 0 then Some out
      else fo_mul_loop (if b AND 1 \<noteq> 0 then out XOR a else out) (fo_xtime a) (drop_bit 1 b))"

definition fo_mul :: "int \<Rightarrow> int \<Rightarrow> int option" where
  "fo_mul a b = fo_mul_loop 0 a b"

function fo_inv_loop :: "int \<Rightarrow> int \<Rightarrow> nat \<Rightarrow> int option" where
  "fo_inv_loop out base exponent =
     (if exponent = 0 then Some out
      else
        Option.bind (if exponent mod 2 = 1 then fo_mul out base else Some out) (\<lambda>out.
        Option.bind (fo_mul base base) (\<lambda>base.
          fo_inv_loop out base (exponent div 2))))"
  by auto
termination by (relation "measure (\<lambda>(_, _, e). e)") auto

declare fo_inv_loop.simps [simp del]

definition fo_inv :: "int \<Rightarrow> int option" where
  "fo_inv a = (if a = 0 then Some 0 else fo_inv_loop 1 a (2 ^ 128 - 2))"

definition fo_encode :: "int \<Rightarrow> int" where
  "fo_encode i = (fo_xtime ^^ nat i) 1"

fun fo_reverse_loop :: "nat \<Rightarrow> int \<Rightarrow> int \<Rightarrow> int \<Rightarrow> frozen_exn + int" where
  "fo_reverse_loop 0 i p v = Inl (Frozen ''invalid_g_power'')"
| "fo_reverse_loop (Suc n) i p v = (if p = v then Inr i else fo_reverse_loop n (i + 1) (fo_xtime p) v)"

definition fo_reverse :: "int \<Rightarrow> int \<Rightarrow> frozen_exn + int" where
  "fo_reverse v limit = fo_reverse_loop (nat limit) 0 1 v"

definition fo_checked_add :: "int \<Rightarrow> int \<Rightarrow> frozen_exn + int" where
  "fo_checked_add a b = (let z = a + b in if z > 0xffffffff then Inl (Frozen ''u32_overflow'') else Inr z)"

section \<open>One vector\<close>

text \<open>A value that may raise, or not be returned at all.\<close>

type_synonym 'a maybe = "(frozen_exn + 'a) option"

definition thenO :: "frozen_exn + 'a \<Rightarrow> ('a \<Rightarrow> 'b maybe) \<Rightarrow> 'b maybe" where
  "thenO m f = (case m of Inl e \<Rightarrow> Some (Inl e) | Inr x \<Rightarrow> f x)"

definition returnsO :: "int option \<Rightarrow> frozen_result maybe" where
  "returnsO m = map_option (\<lambda>n. Inr (FoInt n)) m"

definition fo_deref_cell :: "json \<Rightarrow> frozen_exn + frozen_result" where
  "fo_deref_cell v =
     bindE (fo_item v ''left'') (\<lambda>x. bindE (fo_maybe x) (\<lambda>l.
     bindE (fo_item v ''right'') (\<lambda>x. bindE (fo_maybe x) (\<lambda>r.
       case (l, r) of
         (Some l, Some r) \<Rightarrow> if l \<noteq> r then Inl (Frozen ''deref_mismatch'') else Inr (FoPair l r)
       | (Some l, None) \<Rightarrow> Inr (FoPair l l)
       | (None, Some r) \<Rightarrow> Inr (FoPair r r)
       | (None, None) \<Rightarrow>
           bindE (fo_get v ''later_left'') (\<lambda>x. bindE (fo_maybe x) (\<lambda>later_l.
           bindE (fo_get v ''later_right'') (\<lambda>x. bindE (fo_maybe x) (\<lambda>later_r.
             case later_l of
               Some ll \<Rightarrow>
                 if later_r \<noteq> None \<and> Some ll \<noteq> later_r then Inl (Frozen ''write_conflict'') else Inr (FoPair ll ll)
             | None \<Rightarrow>
                 if later_r \<noteq> None \<and> later_r \<noteq> Some 0 then Inl (Frozen ''write_conflict'') else Inr (FoPair 0 0)))))))))"

text \<open>The targets of a jump that is taken; the message of the fault is replaced.\<close>

definition fo_targets :: "json \<Rightarrow> frozen_exn + frozen_result" where
  "fo_targets v =
     (case
        bindE (fo_number v ''indexed_through'') (\<lambda>through.
        bindE (fo_field v ''d'') (\<lambda>d. bindE (fo_reverse d (through + 1)) (\<lambda>d.
        bindE (fo_field v ''f'') (\<lambda>f. bindE (fo_reverse f (through + 1)) (\<lambda>f. Inr (FoPair d f))))))
      of Inl (Frozen _) \<Rightarrow> Inl (Frozen ''invalid_jump_target'') | r \<Rightarrow> r)"

text \<open>The operations that surely end.\<close>

definition fo_simple :: "string \<Rightarrow> json \<Rightarrow> frozen_exn + frozen_result" where
  "fo_simple op v =
     (if op = ''xor'' then bindE (fo_field v ''a'') (\<lambda>a. bindE (fo_field v ''b'') (\<lambda>b. Inr (FoInt (a XOR b))))
      else if op = ''xor_backsolve'' then
        bindE (fo_field v ''known'') (\<lambda>a. bindE (fo_field v ''result'') (\<lambda>b. Inr (FoInt (a XOR b))))
      else if op = ''write_once'' then
        bindE (fo_item v ''initial'') (\<lambda>old. bindE (fo_field v ''value'') (\<lambda>new.
        bindE (fo_maybe old) (\<lambda>old.
          if old \<noteq> None \<and> old \<noteq> Some new then Inl (Frozen ''write_conflict'') else Inr (FoText ''written''))))
      else if op = ''deref_cell'' then fo_deref_cell v
      else if op = ''deref_pc'' then
        bindE (fo_number v ''pc'') (\<lambda>pc. bindE (fo_checked_add pc 2) (\<lambda>i. Inr (FoInt (fo_encode i))))
      else if op = ''deref_fp'' then bindE (fo_number v ''fp'') (\<lambda>fp. Inr (FoInt (fo_encode fp)))
      else if op = ''reverse'' then
        bindE (fo_field v ''value'') (\<lambda>x. bindE (fo_number v ''indexed_through'') (\<lambda>through.
        bindE (fo_reverse x (through + 1)) (\<lambda>i. Inr (FoInt i))))
      else if op = ''jump'' then
        bindE (fo_field v ''c'') (\<lambda>c.
          if c = 0 then
            bindE (fo_number v ''pc'') (\<lambda>pc. bindE (fo_checked_add pc 1) (\<lambda>pc.
            bindE (fo_number v ''fp'') (\<lambda>fp. Inr (FoPair pc fp))))
          else fo_targets v)
      else if op = ''blake3'' then Inl (Frozen ''external_blake3_required'')
      else if op = ''checked_add'' then
        bindE (fo_number v ''a'') (\<lambda>a. bindE (fo_number v ''b'') (\<lambda>b. bindE (fo_checked_add a b) (\<lambda>z. Inr (FoInt z))))
      else if op = ''halt'' then
        bindE (fo_number v ''pc'') (\<lambda>pc. bindE (fo_number v ''sentinel'') (\<lambda>sentinel.
          if pc \<noteq> sentinel then Inl (Frozen ''bad_halt_state'')
          else bindE (fo_number v ''fp'') (\<lambda>fp.
            if fp \<noteq> 0 then Inl (Frozen ''bad_halt_state'') else Inr (FoText ''halt''))))
      else Inl (FrozenRaised AssertionError))"

definition fo_execute :: "string \<Rightarrow> json \<Rightarrow> frozen_result maybe" where
  "fo_execute op v =
     (if op = ''mul'' then thenO (fo_field v ''a'') (\<lambda>a. thenO (fo_field v ''b'') (\<lambda>b. returnsO (fo_mul a b)))
      else if op = ''mul_backsolve'' then
        thenO (fo_field v ''known'') (\<lambda>known.
          if known = 0 then Some (Inl (Frozen ''mul_backsolve_zero_divisor''))
          else thenO (fo_field v ''result'') (\<lambda>result.
            Option.bind (fo_inv known) (\<lambda>i. returnsO (fo_mul result i))))
      else if op = ''inv'' then thenO (fo_field v ''a'') (\<lambda>a. returnsO (fo_inv a))
      else Some (fo_simple op v))"

section \<open>The check of the published vectors\<close>

definition fo_literal :: "json \<Rightarrow> frozen_exn + json" where
  "fo_literal x =
     (case x of
        JString text \<Rightarrow> if take 2 text = ''0x'' then bindE (fo_word x) (\<lambda>n. Inr (JInt n)) else Inr x
      | _ \<Rightarrow> Inr x)"

definition fo_expected :: "json \<Rightarrow> frozen_exn + json" where
  "fo_expected v =
     bindE (fo_get v ''expect_index'') (\<lambda>d.
     bindE (frozen (json_get v ''expect'' d)) (\<lambda>value.
       case value of
         JList xs \<Rightarrow> bindE (mapE fo_literal xs) (\<lambda>xs. Inr (JList xs))
       | _ \<Rightarrow> fo_literal value))"

definition json_of :: "frozen_result \<Rightarrow> json" where
  "json_of r = (case r of FoInt n \<Rightarrow> JInt n | FoPair a b \<Rightarrow> JList [JInt a, JInt b] | FoText s \<Rightarrow> JString s)"

definition ACCESS_COUNTS :: "(string \<times> int) list" where
  "ACCESS_COUNTS = [(''xor'', 3), (''xor_backsolve'', 3), (''mul'', 3), (''mul_backsolve'', 3), (''write_once'', 1),
     (''deref_cell'', 3), (''deref_pc'', 3), (''deref_fp'', 3), (''jump'', 3), (''blake3'', 8)]"

text \<open>\<open>key in v\<close>, and whether the vector is reported as a failure.\<close>

definition fo_has :: "json \<Rightarrow> string \<Rightarrow> bool" where
  "fo_has v key = (case v of JObject items \<Rightarrow> map_of items key \<noteq> None | _ \<Rightarrow> False)"

definition fo_outcome :: "json \<Rightarrow> frozen_exn + frozen_result \<Rightarrow> frozen_exn + bool" where
  "fo_outcome v r =
     (case r of
        Inl (FrozenRaised x) \<Rightarrow> Inl (FrozenRaised x)
      | Inl (Frozen message) \<Rightarrow> bindE (fo_get v ''fault'') (\<lambda>f. Inr (f \<noteq> JString message))
      | Inr got \<Rightarrow> bindE (fo_expected v) (\<lambda>want. Inr (fo_has v ''fault'' \<or> json_of got \<noteq> want)))"

definition fo_fails :: "json \<Rightarrow> bool maybe" where
  "fo_fails v =
     thenO (fo_item v ''op'') (\<lambda>op. thenO (fo_get v ''accesses'') (\<lambda>accesses.
       case op of
         JString op \<Rightarrow>
           if fo_has v ''accesses'' \<and>
              (case map_of ACCESS_COUNTS op of None \<Rightarrow> accesses \<noteq> JNull | Some n \<Rightarrow> \<not> json_eq_int accesses n)
           then Some (Inr True)
           else map_option (fo_outcome v) (fo_execute op v)
       | _ \<Rightarrow> Some (Inl (FrozenRaised AssertionError))))"

section \<open>Its arithmetic is that of the other models\<close>











lemma fo_items [simp]:
  "fo_item (JObject items) key = (case map_of items key of None \<Rightarrow> Inl (FrozenRaised KeyError) | Some x \<Rightarrow> Inr x)"
  by (simp add: fo_item_def json_item_def frozen_def split: option.split)

section \<open>Its operations are those of the other models\<close>

text \<open>A machine whose frame holds up to three cells, and what the reference makes of its faults.\<close>

definition posed :: "int option \<Rightarrow> int option \<Rightarrow> int option \<Rightarrow> int \<Rightarrow> int \<Rightarrow> machine" where
  "posed a b c pc fp =
     (let cells = (\<lambda>_. None)(fp := a, fp + 1 := b, fp + 2 := c)
      in \<lparr>mc_memory = cells, mc_written = dom cells, mc_pc = pc, mc_fp = fp, mc_cycles = 0\<rparr>)"




lemma posed_simps [simp]:
  "mc_pc (posed a b c pc fp) = pc" "mc_fp (posed a b c pc fp) = fp"
  "mc_memory (posed a b c pc fp) = (\<lambda>_. None)(fp := a, fp + 1 := b, fp + 2 := c)"
  "mc_written (posed a b c pc fp) = dom ((\<lambda>_. None)(fp := a, fp + 1 := b, fp + 2 := c))"
  by (simp_all add: posed_def)















text \<open>The cell mode of a dereference is that of the endpoint, on a frame with the two cells.\<close>

definition opt_cell :: "int option \<Rightarrow> cell" where
  "opt_cell v = (case v of None \<Rightarrow> ABSENT | Some n \<Rightarrow> Cell True n)"

lemma opt_cell_simps [simp]: "cell_present (opt_cell v) = (v \<noteq> None)" "cell_value (opt_cell (Some n)) = n"
  by (simp_all add: opt_cell_def ABSENT_def Cell_def split: option.split)


text \<open>
  A deferred equality at the end of a run. The reference only takes over a later write to the
  target; the host takes over one to either cell.
\<close>

definition later_memory :: "int \<Rightarrow> int \<Rightarrow> int option \<Rightarrow> int option \<Rightarrow> host_memory" where
  "later_memory t l left right = HostMemory ((\<lambda>_. None)(t := left, l := right)) [(t, l)]"


definition later_vector :: "json \<Rightarrow> json \<Rightarrow> json" where
  "later_vector u v = JObject [(''left'', JNull), (''right'', JNull), (''later_left'', u), (''later_right'', v)]"





text \<open>The exception at work: the host accepts a run whose finalization the reference calls a conflict.\<close>

lemma local_write_resolved:
  "case resolve_deferred (later_memory 5 6 None (Some 9)) of
     (Inr open_pairs, m) \<Rightarrow> open_pairs = [] \<and> hm_cells m 5 = Some 9 \<and> hm_cells m 6 = Some 9 | _ \<Rightarrow> False"
  "fo_execute ''deref_cell'' (later_vector JNull (JInt 9)) = Some (Inl (Frozen ''write_conflict''))"
  by (simp_all add: later_memory_def resolve_deferred_def resolve_loop.simps resolve_pass.simps HostMemory_def apply_write_def later_vector_def
      fo_execute_def fo_simple_def fo_deref_cell_def fo_get_def json_get_def frozen_def fo_maybe_def fo_word_def fits_def)

text \<open>A vector with its expected value passes the check of the reference, one with another value fails it.\<close>

lemma fo_vectors_checked:
  "fo_fails (JObject [(''op'', JString ''deref_cell''), (''left'', JNull), (''right'', JNull), (''later_right'', JString ''0x9''),
     (''fault'', JString ''write_conflict''), (''accesses'', JInt 3)]) = Some (Inr False)"
  "fo_fails (JObject [(''op'', JString ''xor''), (''a'', JString ''0x12''), (''b'', JString ''0x34''), (''expect'', JString ''0x27'')]) = Some (Inr True)"
  by (simp_all add: fo_fails_def thenO_def fo_get_def json_get_def frozen_def fo_has_def ACCESS_COUNTS_def fo_execute_def fo_simple_def
      fo_deref_cell_def fo_maybe_def fo_word_def int_base16_def int_16_def hex_digit_def fo_outcome_def fo_field_def fo_expected_def fo_literal_def json_of_def)

end
