(* ===== verification/Xor_Synthesis.thy ===== *)
theory Xor_Synthesis
  imports Lsc_Prelude Lsc_Wire
begin

text \<open>
  tools/exact_linear_xor.py: a breadth-first search for the smallest network of two-input XOR gates
  that exposes the three taps of the field reduction, and the proof that its answer is a network
  and that none is smaller.
\<close>

section \<open>Forms and gates\<close>

text \<open>A linear form is the mask of the inputs it adds up.\<close>

definition NAMES :: "string list" where
  "NAMES = [''a0'', ''a1'', ''a6'', ''carry'']"

definition INPUTS :: "int list" where
  "INPUTS = map (\<lambda>i. push_bit i 1) [0..<length NAMES]"

definition TARGETS :: "int set" where
  "TARGETS = {INPUTS ! 0 XOR INPUTS ! 3, INPUTS ! 1 XOR INPUTS ! 3, INPUTS ! 2 XOR INPUTS ! 3}"

record gate =
  gate_left :: int
  gate_right :: int
  gate_output :: int

fun joined :: "string \<Rightarrow> string list \<Rightarrow> string" where
  "joined sep [] = []"
| "joined sep [x] = x"
| "joined sep (x # xs) = x @ sep @ joined sep xs"

definition linear_form :: "int \<Rightarrow> string" where
  "linear_form m =
     (let terms = map fst (filter (\<lambda>(name, i). m AND push_bit i 1 \<noteq> 0) (zip NAMES [0..<length NAMES]))
      in if terms \<noteq> [] then joined '' xor '' terms else ''0'')"

section \<open>Breadth-first search\<close>

text \<open>
  A frozen set of forms is its sorted list. The dictionary from sets to networks is the list of its
  items in the order they were put in.
\<close>

type_synonym frontier = "(int list \<times> gate list) list"

fun combinations2 :: "'a list \<Rightarrow> ('a \<times> 'a) list" where
  "combinations2 [] = []"
| "combinations2 (x # xs) = map (Pair x) xs @ combinations2 xs"

definition setdefault :: "int list \<Rightarrow> gate list \<Rightarrow> frontier \<Rightarrow> frontier" where
  "setdefault key dflt items = (if map_of items key = None then items @ [(key, dflt)] else items)"

definition add_gate :: "int list \<Rightarrow> gate list \<Rightarrow> int \<times> int \<Rightarrow> frontier \<Rightarrow> frontier" where
  "add_gate available network = (\<lambda>(left, right) next_frontier.
     let output = left XOR right in
     if output = 0 \<or> output \<in> set available then next_frontier
     else setdefault (insort output available)
       (network @ [\<lparr>gate_left = left, gate_right = right, gate_output = output\<rparr>]) next_frontier)"

definition grow :: "frontier \<Rightarrow> frontier" where
  "grow frontier = fold (\<lambda>(available, network). fold (add_gate available network) (combinations2 available)) frontier []"

text \<open>\<open>n\<close> rounds are left.\<close>

fun search :: "nat \<Rightarrow> frontier \<Rightarrow> gate list res" where
  "search n frontier =
     (case find (\<lambda>(available, network). TARGETS \<subseteq> set available) frontier of
        Some (available, network) \<Rightarrow> Inr network
      | None \<Rightarrow> (case n of 0 \<Rightarrow> Inl AssertionError | Suc n \<Rightarrow> search n (grow frontier)))"

declare search.simps [simp del]

definition minimum_network :: "gate list res" where
  "minimum_network = search 3 [(sort INPUTS, [])]"

section \<open>Networks\<close>

text \<open>A network of gates over a set of wires: every gate adds two wires that are there before it.\<close>

fun realizes :: "int set \<Rightarrow> gate list \<Rightarrow> bool" where
  "realizes ws [] \<longleftrightarrow> True"
| "realizes ws (g # gs) \<longleftrightarrow> gate_left g \<in> ws \<and> gate_right g \<in> ws \<and> gate_output g = gate_left g XOR gate_right g \<and> realizes (insert (gate_output g) ws) gs"

definition exposes :: "int set \<Rightarrow> gate list \<Rightarrow> int set" where
  "exposes ws gs = ws \<union> gate_output ` set gs"

lemma realizes_snoc:
  "realizes ws (gs @ [g]) \<longleftrightarrow> realizes ws gs \<and> gate_left g \<in> exposes ws gs \<and> gate_right g \<in> exposes ws gs \<and> gate_output g = gate_left g XOR gate_right g"
  by (induction gs arbitrary: ws) (auto simp: exposes_def)

lemma INPUTS_eq: "INPUTS = [1, 2, 4, 8]"
  by (simp add: INPUTS_def NAMES_def upt_rec)

lemma TARGETS_eq: "TARGETS = {9, 10, 12}"
  by (simp add: TARGETS_def INPUTS_eq)

text \<open>No target is an input, so every target takes a gate of its own.\<close>

lemma gates_needed:
  assumes "TARGETS \<subseteq> exposes (set INPUTS) gs"
  shows "3 \<le> length gs"
proof -
  have "TARGETS \<subseteq> gate_output ` set gs" using assms by (auto simp: exposes_def INPUTS_eq TARGETS_eq)
  then have "card TARGETS \<le> card (gate_output ` set gs)" by (intro card_mono) simp_all
  also have "\<dots> \<le> length gs" using card_image_le [of "set gs" gate_output] card_length [of gs] by simp
  finally show ?thesis by (simp add: TARGETS_eq)
qed

section \<open>The frontier\<close>

definition frontier_ok :: "nat \<Rightarrow> frontier \<Rightarrow> bool" where
  "frontier_ok d F \<longleftrightarrow> (\<forall>(av, net)\<in>set F. length net = d \<and> realizes (set INPUTS) net \<and> set av = exposes (set INPUTS) net \<and> sorted av)"

lemma combinations2_set: "set (combinations2 xs) \<subseteq> set xs \<times> set xs"
  by (induction xs) auto

lemma combinations2_sorted: "sorted xs \<Longrightarrow> l \<in> set xs \<Longrightarrow> r \<in> set xs \<Longrightarrow> l < r \<Longrightarrow> (l, r) \<in> set (combinations2 xs)"
  for xs :: "int list"
  by (induction xs) auto

lemma add_gate_ok:
  assumes "length net = d" "realizes (set INPUTS) net" "set av = exposes (set INPUTS) net" "sorted av"
    and "set p \<subseteq> set av \<times> set av" "frontier_ok (Suc d) F"
  shows "frontier_ok (Suc d) (fold (add_gate av net) p F)"
  using assms(5,6)
proof (induction p arbitrary: F)
  case (Cons x p)
  obtain l r where x: "x = (l, r)" by force
  let ?g = "\<lparr>gate_left = l, gate_right = r, gate_output = l XOR r\<rparr>"
  have "realizes (set INPUTS) (net @ [?g])" "exposes (set INPUTS) (net @ [?g]) = insert (l XOR r) (set av)"
    using assms(2,3) Cons.prems(1) by (auto simp: realizes_snoc x exposes_def)
  then have "frontier_ok (Suc d) (add_gate av net x F)"
    using Cons.prems(2) assms(1,4) by (auto simp: frontier_ok_def add_gate_def x Let_def setdefault_def set_insort_key sorted_insort)
  with Cons show ?case by simp
qed simp

lemma grow_ok:
  assumes "frontier_ok d F"
  shows "frontier_ok (Suc d) (grow F)"
proof -
  have "frontier_ok (Suc d) (fold (\<lambda>(av, net). fold (add_gate av net) (combinations2 av)) F G)" if "frontier_ok (Suc d) G" for G
    using assms that
  proof (induction F arbitrary: G)
    case (Cons x F)
    obtain av net where x: "x = (av, net)" by force
    have "length net = d" "realizes (set INPUTS) net" "set av = exposes (set INPUTS) net" "sorted av" "frontier_ok d F"
      using Cons.prems(1) by (auto simp: x frontier_ok_def)
    with Cons show ?case by (auto simp: x intro!: add_gate_ok combinations2_set)
  qed simp
  from this [of "[]"] show ?thesis unfolding grow_def by (simp add: frontier_ok_def)
qed

text \<open>Every set that one more gate can reach is a key of the next frontier.\<close>

definition has_key :: "int list \<Rightarrow> frontier \<Rightarrow> bool" where
  "has_key av F \<longleftrightarrow> av \<in> fst ` set F"

lemma has_key_default: "has_key k (setdefault k n F)" "has_key k F \<Longrightarrow> has_key k (setdefault k' n F)"
  by (auto simp: has_key_def setdefault_def map_of_eq_None_iff)

lemma has_key_add: "has_key k F \<Longrightarrow> has_key k (add_gate av net p F)"
  by (auto simp: add_gate_def Let_def has_key_default split: prod.splits)

lemma has_key_fold: "has_key k F \<Longrightarrow> has_key k (fold (add_gate av net) ps F)"
  by (induction ps arbitrary: F) (simp_all add: has_key_add)

lemma has_key_fold2: "has_key k G \<Longrightarrow> has_key k (fold (\<lambda>(av, net). fold (add_gate av net) (combinations2 av)) F G)"
  by (induction F arbitrary: G) (auto simp: has_key_fold split: prod.splits)

lemma has_key_pair:
  "(l, r) \<in> set ps \<Longrightarrow> l XOR r \<noteq> 0 \<Longrightarrow> l XOR r \<notin> set av \<Longrightarrow> has_key (insort (l XOR r) av) (fold (add_gate av net) ps F)"
proof (induction ps arbitrary: F)
  case (Cons p ps)
  show ?case
  proof (cases "p = (l, r)")
    case True
    with Cons.prems have "has_key (insort (l XOR r) av) (add_gate av net p F)" by (simp add: add_gate_def Let_def has_key_default)
    then show ?thesis by (simp add: has_key_fold)
  next
    case False
    with Cons show ?thesis by simp
  qed
qed simp

lemma grow_reaches:
  assumes "has_key av F" "sorted av" "l \<in> set av" "r \<in> set av" "l < r" "l XOR r \<noteq> 0" "l XOR r \<notin> set av"
  shows "has_key (insort (l XOR r) av) (grow F)"
proof -
  obtain net xs ys where F: "F = xs @ (av, net) # ys" using assms(1) by (auto simp: has_key_def in_set_conv_decomp)
  have "has_key (insort (l XOR r) av) (fold (add_gate av net) (combinations2 av) G)" for G
    by (rule has_key_pair [OF combinations2_sorted [OF assms(2-5)] assms(6,7)])
  then show ?thesis by (simp add: grow_def F has_key_fold2)
qed

lemma search_finds:
  assumes "frontier_ok d F" "d + n = 3" "TARGETS \<subseteq> set av" "has_key av ((grow ^^ n) F)"
  shows "\<exists>net. search n F = Inr net \<and> length net = 3 \<and> realizes (set INPUTS) net \<and> TARGETS \<subseteq> exposes (set INPUTS) net"
  using assms
proof (induction n arbitrary: d F)
  case 0
  then obtain k where "(av, k) \<in> set F" by (auto simp: has_key_def)
  then have "find (\<lambda>(available, network). TARGETS \<subseteq> set available) F \<noteq> None"
    unfolding find_None_iff using 0 by blast
  then obtain a net where f: "find (\<lambda>(available, network). TARGETS \<subseteq> set available) F = Some (a, net)" by auto
  then have "(a, net) \<in> set F" "TARGETS \<subseteq> set a" by (auto simp: find_Some_iff) (metis nth_mem)
  moreover have "length net = d \<and> realizes (set INPUTS) net \<and> set a = exposes (set INPUTS) net"
    using \<open>(a, net) \<in> set F\<close> "0.prems"(1) by (auto simp: frontier_ok_def)
  ultimately show ?case using 0 by (subst search.simps) (simp add: f)
next
  case (Suc n)
  have "find (\<lambda>(available, network). TARGETS \<subseteq> set available) F = None"
  proof (rule ccontr)
    assume "\<not> ?thesis"
    then obtain a net where "find (\<lambda>(available, network). TARGETS \<subseteq> set available) F = Some (a, net)" by auto
    then have "(a, net) \<in> set F" "TARGETS \<subseteq> set a" by (auto simp: find_Some_iff) (metis nth_mem)
    with Suc.prems(1,2) gates_needed [of net] show False by (auto simp: frontier_ok_def)
  qed
  then have "search (Suc n) F = search n (grow F)" by (simp add: search.simps [of "Suc n"])
  moreover have "has_key av ((grow ^^ n) (grow F))" using Suc.prems(4) by (simp add: funpow_swap1)
  ultimately show ?case using Suc.IH [OF grow_ok [OF Suc.prems(1)]] Suc.prems(2,3) by simp
qed

text \<open>
  C36. The search returns a network of three gates that exposes the three reduction taps, and no
  network of two-input XOR gates with fewer gates exposes them.
\<close>

theorem minimum_network_exact:
  "\<exists>net. minimum_network = Inr net \<and> length net = 3 \<and> realizes (set INPUTS) net \<and> TARGETS \<subseteq> exposes (set INPUTS) net
    \<and> (\<forall>net'. length net' < 3 \<longrightarrow> \<not> (realizes (set INPUTS) net' \<and> TARGETS \<subseteq> exposes (set INPUTS) net'))"
proof -
  let ?F = "[(sort INPUTS, [])] :: frontier"
  have s: "sort INPUTS = [1, 2, 4, 8]" by (simp add: INPUTS_eq)
  have ok: "frontier_ok 0 ?F" by (simp add: frontier_ok_def exposes_def s) (simp add: INPUTS_eq)
  have "has_key [1, 2, 4, 8] ?F" by (simp add: has_key_def s)
  from grow_reaches [OF this, of 1 8] have "has_key [1, 2, 4, 8, 9] (grow ?F)" by simp
  from grow_reaches [OF this, of 2 8] have "has_key [1, 2, 4, 8, 9, 10] (grow (grow ?F))" by simp
  from grow_reaches [OF this, of 4 8] have "has_key [1, 2, 4, 8, 9, 10, 12] (grow (grow (grow ?F)))" by simp
  then have "has_key [1, 2, 4, 8, 9, 10, 12] ((grow ^^ 3) ?F)" by (simp add: numeral_3_eq_3)
  from search_finds [OF ok _ _ this] obtain net where "minimum_network = Inr net" "length net = 3"
    "realizes (set INPUTS) net" "TARGETS \<subseteq> exposes (set INPUTS) net" by (auto simp: minimum_network_def TARGETS_eq)
  with gates_needed show ?thesis by (metis not_less)
qed

lemma minimum_network_exact_witness:
  "\<not> TARGETS \<subseteq> exposes (set INPUTS) [\<lparr>gate_left = 1, gate_right = 8, gate_output = 9\<rparr>, \<lparr>gate_left = 2, gate_right = 8, gate_output = 10\<rparr>]"
proof -
  have "realizes (set INPUTS) [\<lparr>gate_left = 1, gate_right = 8, gate_output = 9\<rparr>, \<lparr>gate_left = 2, gate_right = 8, gate_output = 10\<rparr>]"
    by (simp add: INPUTS_eq)
  then show ?thesis using minimum_network_exact by (metis One_nat_def Suc_1 length_Cons less_Suc_eq list.size(3) numeral_3_eq_3)
qed

end
