(* ===== verification/Ulx3s_Uart.thy ===== *)
theory Ulx3s_Uart
  imports Serial_World Lsc1u_Pins Stream_Alu
begin

text \<open>
  fpga_harness/ulx3s_uart.py: the command line driver of the ULX3S board, which sends one MinCore
  command over a serial port and judges the response, over the transport and clock of Serial_World.
  Opening the port is left out, as is the rendering of what main prints; main is its exit status.
\<close>

section \<open>Calls with a deadline\<close>

text \<open>
  What the driver raises. An exception of the transport is known by the history at the failed call;
  times are in microseconds.
\<close>

datatype ulx_exn = UlxTimeout | UlxValue | UlxOSError | UlxAssertion | UlxKeyError | UlxRaised "event list"

type_synonym 'a ulx_proc = "(serial, ulx_exn, 'a) proc"
type_synonym 'a ulx_routine = "(serial, ulx_exn, 'a) routine"

definition TIMEOUT_S :: int where "TIMEOUT_S = 2000000"
definition DRAIN_SETTLE :: int where "DRAIN_SETTLE = 50000"
definition SETTLE_S :: int where "SETTLE_S = 10000"

text \<open>\<open>mx\<close> is \<open>threading.TIMEOUT_MAX\<close>.\<close>

definition validate_timeout :: "int \<Rightarrow> int \<Rightarrow> ulx_exn + unit" where
  "validate_timeout mx timeout =
     (if timeout \<le> 0 then Inl UlxValue else if timeout > mx then Inl UlxValue else Inr ())"

definition call_within :: "(event list \<Rightarrow> 'a outcome) \<Rightarrow> (int \<Rightarrow> event) \<Rightarrow> int \<Rightarrow> 'a ulx_routine" where
  "call_within call mk remaining d =
     (if remaining \<le> 0 then (Inl UlxTimeout, d)
      else
        let d = d\<lparr>se_events := se_events d @ [mk remaining]\<rparr> in
        case call (se_events d) of
          Returned v \<Rightarrow> (Inr v, d)
        | Raised \<Rightarrow> (Inl (UlxRaised (se_events d)), d)
        | Late \<Rightarrow> (Inl UlxTimeout, d))"

definition ulx_pause :: "int \<Rightarrow> serial \<Rightarrow> serial" where
  "ulx_pause time d = d\<lparr>se_events := se_events d @ [Pause time]\<rparr>"

definition in_waiting_within :: "world \<Rightarrow> int \<Rightarrow> int ulx_routine" where
  "in_waiting_within w remaining d = thenM (call_within (w_in_waiting w) InWaiting remaining d) (\<lambda>n d. (Inr (max 0 n), d))"

section \<open>Draining, sending, receiving\<close>

definition ulx_drain_body :: "world \<Rightarrow> nat \<Rightarrow> int \<Rightarrow> bytes \<Rightarrow> (bytes + bytes) ulx_routine" where
  "ulx_drain_body w max_bytes deadline out d =
     (if length out \<ge> max_bytes then (Inr (Inr out), d)
      else
        let (t, d) = se_now w d; remaining = deadline - t in
        if remaining \<le> 0 then (Inr (Inr out), d)
        else
          thenM (in_waiting_within w remaining d) (\<lambda>waiting d.
            if waiting = 0 then (Inr (Inl out), ulx_pause (min 1000 remaining) d)
            else
              thenM (call_within (w_read w) (ReadBytes (min waiting (int (max_bytes - length out)))) remaining d) (\<lambda>chunk d.
                (Inr (Inl (out @ chunk)), d))))"

definition ulx_drain :: "world \<Rightarrow> int \<Rightarrow> nat \<Rightarrow> int \<Rightarrow> bytes ulx_proc" where
  "ulx_drain w mx max_bytes settle =
     thenP (liftP (validate_timeout mx settle)) (\<lambda>_ d.
       let (t, d) = se_now w d in repeatP (ulx_drain_body w max_bytes (t + settle)) [] d)"

definition ulx_send_body :: "world \<Rightarrow> bytes \<Rightarrow> int \<Rightarrow> int \<Rightarrow> nat \<Rightarrow> (nat + unit) ulx_routine" where
  "ulx_send_body w data inter_byte_delay deadline offset d =
     (if offset \<ge> length data then (Inr (Inr ()), d)
      else
        let (t, d) = se_now w d; remaining = deadline - t in
        if remaining \<le> 0 then (Inl UlxTimeout, d)
        else
          let chunk = (if inter_byte_delay > 0 then [data ! offset] else drop offset data) in
          thenM (call_within (w_write w) (WriteBytes chunk) remaining d) (\<lambda>written d.
            case written of
              Count n \<Rightarrow>
                if n < 0 \<or> n > int (length chunk) then (Inl UlxOSError, d)
                else if n = 0 then
                  let (t, d) = se_now w d in (Inr (Inl offset), ulx_pause (min 500 (max 0 (deadline - t))) d)
                else
                  let offset = offset + nat n in
                  if inter_byte_delay > 0 \<and> offset < length data then
                    let (t, d) = se_now w d; remaining = deadline - t in
                    if remaining \<le> 0 then (Inl UlxTimeout, d)
                    else (Inr (Inl offset), ulx_pause (min inter_byte_delay remaining) d)
                  else (Inr (Inl offset), d)
            | _ \<Rightarrow> (Inl UlxOSError, d)))"

definition ulx_flush :: "world \<Rightarrow> int \<Rightarrow> unit ulx_routine" where
  "ulx_flush w deadline d =
     (if \<not> w_has_flush w then (Inl (UlxRaised (se_events d)), d)
      else let (t, d) = se_now w d in call_within (w_flush w) Flush (deadline - t) d)"

definition send_bytes :: "world \<Rightarrow> int \<Rightarrow> bytes \<Rightarrow> int \<Rightarrow> int \<Rightarrow> unit ulx_proc" where
  "send_bytes w mx data inter_byte_delay timeout =
     thenP (liftP (validate_timeout mx timeout)) (\<lambda>_ d.
       let (t, d) = se_now w d; deadline = t + timeout in
       thenP (repeatP (ulx_send_body w data inter_byte_delay deadline) 0) (\<lambda>_ d. Some (ulx_flush w deadline d)) d)"

definition ulx_recv_body :: "world \<Rightarrow> nat \<Rightarrow> int \<Rightarrow> bytes \<Rightarrow> (bytes + bytes) ulx_routine" where
  "ulx_recv_body w n deadline buf d =
     (if length buf \<ge> n then (Inr (Inr buf), d)
      else
        let (t, d) = se_now w d; remaining = deadline - t in
        if remaining \<le> 0 then (Inr (Inr buf), d)
        else
          thenM (call_within (w_read w) (ReadBytes (int (n - length buf))) remaining d) (\<lambda>chunk d.
            if chunk \<noteq> [] then (Inr (Inl (buf @ chunk)), d)
            else let (t, d) = se_now w d in (Inr (Inl buf), ulx_pause (max 0 (min 500 (deadline - t))) d)))"

definition recv_exact :: "world \<Rightarrow> int \<Rightarrow> nat \<Rightarrow> int \<Rightarrow> bytes ulx_proc" where
  "recv_exact w mx n timeout =
     thenP (liftP (validate_timeout mx timeout)) (\<lambda>_ d.
       let (t, d) = se_now w d in
       thenP (repeatP (ulx_recv_body w n (t + timeout)) []) (\<lambda>buf d.
         if length buf \<noteq> n then Some (Inl UlxTimeout, d) else Some (Inr buf, d)) d)"

definition recv_response :: "world \<Rightarrow> int \<Rightarrow> nat \<Rightarrow> int \<Rightarrow> bytes ulx_proc" where
  "recv_response w mx n timeout =
     thenP (recv_exact w mx n timeout) (\<lambda>resp.
     thenP (ulx_drain w mx 256 SETTLE_S) (\<lambda>surplus.
       liftP (if surplus \<noteq> [] then Inl UlxValue else Inr resp)))"

section \<open>Commands\<close>

definition ULX_SET128 :: byte where "ULX_SET128 = 0x03"
definition ULX_XOR128 :: byte where "ULX_XOR128 = 0x01"
definition ULX_MUL128 :: byte where "ULX_MUL128 = 0x02"
definition ULX_CLEAR :: byte where "ULX_CLEAR = 0x7d"
definition ULX_STATUS :: byte where "ULX_STATUS = 0x7e"
definition ULX_ABORT :: byte where "ULX_ABORT = 0x7f"

definition STATUS_SIGNATURE :: bytes where "STATUS_SIGNATURE = [0x01, 0x01, 0x0F, 0x08]"

text \<open>\<open>expected_mul\<close>, whose two products are the reference models of the field.\<close>

definition ulx_value :: "'a res \<Rightarrow> ulx_exn + 'a" where
  "ulx_value r = (case r of Inl _ \<Rightarrow> Inl UlxValue | Inr v \<Rightarrow> Inr v)"

definition expected_mul :: "bytes \<Rightarrow> bytes \<Rightarrow> ulx_exn + bytes" where
  "expected_mul a b =
     (if length a \<noteq> 16 \<or> length b \<noteq> 16 then Inl UlxValue
      else
        let a_int = le_bytes_to_int a; b_int = le_bytes_to_int b in
        bindE (ulx_value (gf_mul_polynomial a_int b_int 128 REDUCTION_LOW)) (\<lambda>poly.
        bindE (ulx_value (gf_mul_bitserial a_int b_int 128 REDUCTION_LOW)) (\<lambda>bitserial.
          if poly \<noteq> bitserial then Inl UlxAssertion else ulx_value (int_to_le_bytes poly 16))))"

definition resync :: "world \<Rightarrow> int \<Rightarrow> int \<Rightarrow> unit ulx_proc" where
  "resync w mx timeout = thenP (ulx_drain w mx 256 DRAIN_SETTLE) (\<lambda>_. send_bytes w mx [ULX_ABORT] 0 timeout)"

definition reject_abort_byte :: "bytes \<Rightarrow> ulx_exn + unit" where
  "reject_abort_byte data = (if ULX_ABORT \<in> set data then Inl UlxValue else Inr ())"

definition assertU :: "bool \<Rightarrow> ulx_exn + unit" where
  "assertU b = (if b then Inr () else Inl UlxAssertion)"

definition tx_set :: "world \<Rightarrow> int \<Rightarrow> bytes \<Rightarrow> int \<Rightarrow> bytes ulx_proc" where
  "tx_set w mx v timeout =
     thenP (liftP (assertU (length v = 16))) (\<lambda>_.
     thenP (liftP (reject_abort_byte v)) (\<lambda>_.
     thenP (resync w mx timeout) (\<lambda>_.
     thenP (send_bytes w mx (ULX_SET128 # v) 0 timeout) (\<lambda>_.
     recv_response w mx 16 timeout))))"

definition tx_xor :: "world \<Rightarrow> int \<Rightarrow> bytes \<Rightarrow> bytes \<Rightarrow> int \<Rightarrow> bytes ulx_proc" where
  "tx_xor w mx a b timeout =
     thenP (liftP (assertU (length a = 16 \<and> length b = 16))) (\<lambda>_.
     thenP (liftP (reject_abort_byte a)) (\<lambda>_.
     thenP (liftP (reject_abort_byte b)) (\<lambda>_.
     thenP (resync w mx timeout) (\<lambda>_.
     thenP (send_bytes w mx (ULX_XOR128 # concat (map (\<lambda>i. [a ! i, b ! i]) [0..<16])) 0 timeout) (\<lambda>_.
     recv_response w mx 16 timeout)))))"

definition tx_mul :: "world \<Rightarrow> int \<Rightarrow> bytes \<Rightarrow> bytes \<Rightarrow> int \<Rightarrow> bytes ulx_proc" where
  "tx_mul w mx a b timeout =
     thenP (liftP (assertU (length a = 16 \<and> length b = 16))) (\<lambda>_.
     thenP (liftP (reject_abort_byte a)) (\<lambda>_.
     thenP (liftP (reject_abort_byte b)) (\<lambda>_.
     thenP (resync w mx timeout) (\<lambda>_.
     thenP (send_bytes w mx (ULX_MUL128 # a @ b) 0 timeout) (\<lambda>_.
     recv_response w mx 16 timeout)))))"

definition tx_clear :: "world \<Rightarrow> int \<Rightarrow> int \<Rightarrow> unit ulx_proc" where
  "tx_clear w mx timeout = thenP (resync w mx timeout) (\<lambda>_. send_bytes w mx [ULX_CLEAR] 0 timeout)"

definition tx_status :: "world \<Rightarrow> int \<Rightarrow> int \<Rightarrow> bytes ulx_proc" where
  "tx_status w mx timeout =
     thenP (resync w mx timeout) (\<lambda>_. thenP (send_bytes w mx [ULX_STATUS] 0 timeout) (\<lambda>_. recv_response w mx 4 timeout))"

section \<open>The command line\<close>

definition ULX_PAYLOAD_BYTES :: "(string \<times> nat) list" where
  "ULX_PAYLOAD_BYTES = [(''set'', 16), (''xor'', 32), (''mul'', 32), (''status'', 0), (''clear'', 0)]"

definition verdict :: "bool \<Rightarrow> int" where
  "verdict ok = (if ok then 0 else 1)"

text \<open>The body of the \<open>try\<close> of \<open>main\<close>; the value is the exit status.\<close>

definition ulx_run :: "world \<Rightarrow> int \<Rightarrow> int \<Rightarrow> string \<Rightarrow> string \<Rightarrow> int ulx_proc" where
  "ulx_run w mx timeout tx payload =
     thenP (ulx_drain w mx 256 DRAIN_SETTLE) (\<lambda>_.
       if tx = ''clear'' then thenP (tx_clear w mx timeout) (\<lambda>_. liftP (Inr 0))
       else if tx = ''status'' then thenP (tx_status w mx timeout) (\<lambda>st. liftP (Inr (verdict (st = STATUS_SIGNATURE))))
       else if payload = [] then liftP (Inr 2)
       else
         case fromhex payload of
           Inl _ \<Rightarrow> liftP (Inr 2)
         | Inr pay \<Rightarrow>
             (case map_of ULX_PAYLOAD_BYTES tx of
                None \<Rightarrow> liftP (Inl UlxKeyError)
              | Some want \<Rightarrow>
                  if length pay \<noteq> want then liftP (Inr 2)
                  else if tx = ''set'' then thenP (tx_set w mx pay timeout) (\<lambda>echo. liftP (Inr (verdict (echo = pay))))
                  else if tx = ''xor'' then
                    thenP (tx_xor w mx (take 16 pay) (drop 16 pay) timeout) (\<lambda>res.
                      liftP (Inr (verdict (res = map2 (XOR) (take 16 pay) (drop 16 pay)))))
                  else if tx = ''mul'' then
                    thenP (tx_mul w mx (take 16 pay) (drop 16 pay) timeout) (\<lambda>res.
                    thenP (liftP (expected_mul (take 16 pay) (drop 16 pay))) (\<lambda>exp. liftP (Inr (verdict (res = exp)))))
                  else liftP (Inr 0)))"

text \<open>
  \<open>main\<close> from the open port on. \<open>sx\<close> tells whether what the transport raised is a serial exception;
  any other exception leaves \<open>main\<close>, and then Python exits with status 1.
\<close>

definition communication_error :: "(event list \<Rightarrow> bool) \<Rightarrow> ulx_exn \<Rightarrow> bool" where
  "communication_error sx x = (case x of UlxTimeout \<Rightarrow> True | UlxValue \<Rightarrow> True | UlxRaised es \<Rightarrow> sx es | _ \<Rightarrow> False)"

definition ulx_main :: "world \<Rightarrow> int \<Rightarrow> (event list \<Rightarrow> bool) \<Rightarrow> int \<Rightarrow> string \<Rightarrow> string \<Rightarrow> int ulx_proc" where
  "ulx_main w mx sx timeout tx payload d =
     (case validate_timeout mx timeout of
        Inl _ \<Rightarrow> Some (Inr 2, d)
      | Inr _ \<Rightarrow>
          (case ulx_run w mx timeout tx payload d of
             Some (Inl x, d) \<Rightarrow> Some (if communication_error sx x then Inr 2 else Inl x, d)
           | r \<Rightarrow> r))"

end
