(* ===== verification/Ulx3s_Exit.thy ===== *)
theory Ulx3s_Exit
  imports Ulx3s_Uart Mincore_Exchange
begin

text \<open>
  What an exit status of the ULX3S driver means: which bytes were sent and given, when a
  status of 0 or 1 is the verdict on one complete transaction, and what leaves main uncaught.
\<close>

section \<open>Bytes traded with the port\<close>

text \<open>What the port gave with the last call of a history, and with all of them.\<close>

definition given :: "world \<Rightarrow> event list \<Rightarrow> bytes" where
  "given w es =
     (case last es of
        ReadBytes _ _ \<Rightarrow> (case w_read w es of Returned bs \<Rightarrow> bs | _ \<Rightarrow> [])
      | _ \<Rightarrow> [])"

definition handed :: "world \<Rightarrow> event list \<Rightarrow> bytes" where
  "handed w es = concat (map (\<lambda>n. given w (take (Suc n) es)) [0..<length es])"

lemma handed_snoc [simp]: "handed w (es @ [e]) = handed w es @ given w (es @ [e])"
  by (simp add: handed_def prefixes_snoc del: take_append)

text \<open>
  Between two states exactly \<open>bs\<close> was sent, and the port gave \<open>rs\<close>. A write that was abandoned or
  raised leaves open what was sent, so there is none among the calls if \<open>bs\<close> is known.
\<close>

definition traded :: "world \<Rightarrow> serial \<Rightarrow> serial \<Rightarrow> bytes \<Rightarrow> bytes \<Rightarrow> bool" where
  "traded w d d' bs rs \<longleftrightarrow> sends w d d' bs \<and> handed w (se_events d') = handed w (se_events d) @ rs"

lemma traded_refl [simp]: "traded w d d [] []"
  by (simp add: traded_def)

lemma traded_trans: "traded w d d1 bs rs \<Longrightarrow> traded w d1 d2 bs' rs' \<Longrightarrow> traded w d d2 (bs @ bs') (rs @ rs')"
  using sends_trans by (auto simp: traded_def)

lemma traded_quiet: "traded w d d1 bs rs \<Longrightarrow> traded w d1 d2 [] [] \<Longrightarrow> traded w d d2 bs rs"
  using traded_trans by fastforce

lemma traded_event: "offers w (se_events d @ [e]) = [[]] \<Longrightarrow> given w (se_events d @ [e]) = rs \<Longrightarrow> traded w d (d\<lparr>se_events := se_events d @ [e]\<rparr>) [] rs"
  by (simp add: traded_def sends_def)

lemma traded_now: "se_now w d = (t, d') \<Longrightarrow> traded w d d' [] []"
  by (auto simp: se_now_def Let_def offers_quiet given_def intro!: traded_event)

lemma traded_pause: "traded w d (ulx_pause t d) [] []"
  by (auto simp: ulx_pause_def offers_quiet given_def intro!: traded_event)

lemma traded_call:
  assumes "call_within call mk remaining d = (r, d')" "\<And>n. \<not> (\<exists>m. mk n = ReadBytes m n)" "\<And>n. \<not> (\<exists>bs. mk n = WriteBytes bs n)"
    and "mk = InWaiting \<or> mk = Flush"
  shows "traded w d d' [] []"
  using assms by (auto simp: call_within_def Let_def offers_quiet given_def intro!: traded_event split: if_splits outcome.splits)

lemma traded_waiting: "in_waiting_within w remaining d = (r, d') \<Longrightarrow> traded w d d' [] []"
proof -
  assume r: "in_waiting_within w remaining d = (r, d')"
  obtain q d1 where 1: "call_within (w_in_waiting w) InWaiting remaining d = (q, d1)" by force
  have "traded w d d1 [] []" by (rule traded_call [OF 1]) simp_all
  with r show ?thesis by (cases q) (auto simp: in_waiting_within_def 1)
qed

lemma traded_read:
  assumes "call_within (w_read w) (ReadBytes n) remaining d = (r, d')"
  shows "case r of Inl _ \<Rightarrow> traded w d d' [] [] | Inr bs \<Rightarrow> traded w d d' [] bs"
  using assms by (auto simp: call_within_def Let_def offers_quiet given_def intro!: traded_event split: if_splits outcome.splits)

lemma traded_write:
  assumes "call_within (w_write w) (WriteBytes chunk) remaining d = (Inr (Count n), d')" "0 \<le> n" "n \<le> int (length chunk)"
  shows "traded w d d' (take (nat n) chunk) []"
  using assms by (auto simp: call_within_def Let_def offers_def given_def traded_def sends_def split: if_splits outcome.splits)

section \<open>What the routines trade\<close>

text \<open>Draining hands nothing over, raise or return.\<close>

definition only_reads :: "world \<Rightarrow> serial \<Rightarrow> serial \<Rightarrow> bool" where
  "only_reads w d d' \<longleftrightarrow> (\<exists>rs. traded w d d' [] rs)"

lemma drain_body_traded:
  assumes i: "traded w d0 d [] out" and r: "ulx_drain_body w m deadline out d = (r, d')"
  shows "case r of Inl _ \<Rightarrow> only_reads w d0 d' | Inr y \<Rightarrow> (case y of Inl out' \<Rightarrow> traded w d0 d' [] out' | Inr out' \<Rightarrow> traded w d0 d' [] out')"
proof (cases "length out \<ge> m")
  case True
  with assms show ?thesis by (auto simp: ulx_drain_body_def)
next
  case False
  obtain t d1 where 1: "se_now w d = (t, d1)" by force
  have i1: "traded w d0 d1 [] out" using traded_quiet [OF i traded_now [OF 1]] .
  show ?thesis
  proof (cases "deadline - t \<le> 0")
    case True
    with r False i1 show ?thesis by (auto simp: ulx_drain_body_def 1)
  next
    case pos: False
    obtain q d2 where 2: "in_waiting_within w (deadline - t) d1 = (q, d2)" by force
    have i2: "traded w d0 d2 [] out" using traded_quiet [OF i1 traded_waiting [OF 2]] .
    show ?thesis
    proof (cases q)
      case (Inl x)
      with r False pos i2 show ?thesis by (auto simp: ulx_drain_body_def 1 2 only_reads_def)
    next
      case (Inr n)
      show ?thesis
      proof (cases "n = 0")
        case True
        with r False pos Inr show ?thesis using traded_quiet [OF i2 traded_pause] by (auto simp: ulx_drain_body_def 1 2)
      next
        case nz: False
        obtain p d3 where 3: "call_within (w_read w) (ReadBytes (min n (int (m - length out)))) (deadline - t) d2 = (p, d3)" by force
        have "d3 = d'" "case p of Inl x \<Rightarrow> r = Inl x | Inr c \<Rightarrow> r = Inr (Inl (out @ c))"
          using r False pos Inr nz 3 by (cases p; auto simp: ulx_drain_body_def 1 2 of_nat_diff)+
        with traded_read [OF 3] show ?thesis
          by (cases p) (auto simp: only_reads_def intro: traded_quiet [OF i2] dest: traded_trans [OF i2])
      qed
    qed
  qed
qed

lemma drain_traded: "yields (ulx_drain w mx m settle) d (\<lambda>_ d'. only_reads w d d') (\<lambda>out d'. traded w d d' [] out)"
proof -
  have v: "yields (liftP (validate_timeout mx settle)) d (\<lambda>_ d'. only_reads w d d') (\<lambda>_ d'. d' = d)"
    by (rule yields_lift) (auto simp: only_reads_def intro: traded_refl split: sum.splits)
  show ?thesis
    unfolding ulx_drain_def
  proof (rule yields_then [OF v], goal_cases)
    case (1 u d1)
    obtain t d2 where 2: "se_now w d = (t, d2)" by force
    have "case r of Inl _ \<Rightarrow> only_reads w d d' | Inr out \<Rightarrow> traded w d d' [] out"
      if "repeatP (ulx_drain_body w m (t + settle)) [] d2 = Some (r, d')" for r d'
      by (rule repeatP_rule [OF that, where I = "\<lambda>out d1. traded w d d1 [] out"])
        (use traded_now [OF 2] drain_body_traded in \<open>simp, blast\<close>)
    with 1 2 show ?case by (simp add: yields_def)
  qed
qed

abbreviation succeeds :: "'a ulx_proc \<Rightarrow> serial \<Rightarrow> ('a \<Rightarrow> serial \<Rightarrow> bool) \<Rightarrow> bool" where
  "succeeds m d Q \<equiv> yields m d (\<lambda>_ _. True) Q"

lemma send_body_traded:
  assumes i: "traded w d0 d (take offset data) [] \<and> offset \<le> length data" and r: "ulx_send_body w data delay deadline offset d = (r, d')"
  shows "case r of Inl _ \<Rightarrow> True | Inr y \<Rightarrow> (case y of Inl off \<Rightarrow> traded w d0 d' (take off data) [] \<and> off \<le> length data | Inr _ \<Rightarrow> traded w d0 d' data [])"
proof (cases "offset \<ge> length data")
  case True
  with assms show ?thesis by (auto simp: ulx_send_body_def)
next
  case False
  obtain t d1 where 1: "se_now w d = (t, d1)" by force
  have i1: "traded w d0 d1 (take offset data) []" using traded_quiet [OF _ traded_now [OF 1]] i by blast
  define chunk where "chunk = (if delay > 0 then [data ! offset] else drop offset data)"
  obtain q d2 where 2: "call_within (w_write w) (WriteBytes chunk) (deadline - t) d1 = (q, d2)" by force
  show ?thesis
  proof (cases "deadline - t > 0 \<and> (\<exists>n. q = Inr (Count n) \<and> 0 \<le> n \<and> n \<le> int (length chunk))")
    case True
    then obtain n where n: "q = Inr (Count n)" "0 \<le> n" "n \<le> int (length chunk)" and pos: "\<not> deadline - t \<le> 0" by auto
    have "drop offset data = data ! offset # drop (Suc offset) data" using False by (simp add: Cons_nth_drop_Suc)
    moreover have "nat n = 0 \<or> nat n = 1" if "delay > 0" using n that by (auto simp: chunk_def)
    ultimately have c: "take (nat n) chunk = take (nat n) (drop offset data)" "offset + nat n \<le> length data"
      using n False by (auto simp: chunk_def nat_le_iff split: if_splits)
    have i2: "traded w d0 d2 (take (offset + nat n) data) []"
      using traded_trans [OF i1 traded_write [OF 2 [unfolded n(1)] n(2,3)]] c by (simp add: take_add)
    obtain t' d3 where 3: "se_now w d2 = (t', d3)" by force
    have i3: "traded w d0 d3 (take (offset + nat n) data) []" using traded_quiet [OF i2 traded_now [OF 3]] .
    show ?thesis
      using r False pos n c(2) i2 i3 traded_quiet [OF i3 traded_pause]
      by (auto simp: ulx_send_body_def 1 2 3 Let_def chunk_def [symmetric] split: if_splits)
  next
    case no: False
    have "\<exists>x. r = Inl x"
    proof (cases "deadline - t > 0")
      case pos: True
      show ?thesis
      proof (cases q)
        case (Inr wr)
        with r False no pos show ?thesis by (cases wr) (auto simp: ulx_send_body_def 1 2 Let_def chunk_def [symmetric] split: if_splits)
      qed (use r False pos in \<open>auto simp: ulx_send_body_def 1 2 Let_def chunk_def [symmetric]\<close>)
    qed (use r False in \<open>auto simp: ulx_send_body_def 1\<close>)
    then show ?thesis by auto
  qed
qed

lemma send_traded: "succeeds (send_bytes w mx data delay timeout) d (\<lambda>_ d'. traded w d d' data [])"
  unfolding send_bytes_def
proof (rule yields_then [where R = "\<lambda>_ d'. d' = d"], goal_cases)
  case 1
  show ?case by (rule yields_lift) (simp split: sum.splits)
next
  case (2 u d1)
  obtain t d2 where n: "se_now w d = (t, d2)" by force
  have l: "succeeds (repeatP (ulx_send_body w data delay (t + timeout)) 0) d2 (\<lambda>_ d'. traded w d d' data [])"
    unfolding yields_def
  proof (intro allI impI, goal_cases)
    case (1 r d')
    show ?case
      by (rule repeatP_rule [OF 1, where I = "\<lambda>offset d1. traded w d d1 (take offset data) [] \<and> offset \<le> length data"])
        (use traded_now [OF n] send_body_traded in \<open>simp, blast\<close>)
  qed
  have f: "succeeds (\<lambda>d. Some (ulx_flush w deadline d)) d3 (\<lambda>_ d'. traded w d d' data [])" if "traded w d d3 data []" for d3 deadline
    unfolding yields_def
  proof (intro allI impI, goal_cases)
    case (1 r d')
    obtain t d4 where 4: "se_now w d3 = (t, d4)" by force
    show ?case
    proof (cases r)
      case (Inr v)
      then have "call_within (w_flush w) Flush (deadline - t) d4 = (r, d')"
        using 1 by (auto simp: ulx_flush_def 4 split: if_splits)
      from traded_call [OF this] have "traded w d4 d' [] []" by simp
      with traded_quiet [OF traded_quiet [OF that traded_now [OF 4]]] Inr show ?thesis by auto
    qed simp
  qed
  have "succeeds (thenP (repeatP (ulx_send_body w data delay (t + timeout)) 0) (\<lambda>_ d. Some (ulx_flush w (t + timeout) d))) d2 (\<lambda>_ d'. traded w d d' data [])"
    by (rule yields_then [OF l]) (rule f)
  with 2 n show ?case by (simp add: yields_def Let_def)
qed

lemma recv_body_traded:
  assumes i: "traded w d0 d [] buf" and r: "ulx_recv_body w n deadline buf d = (r, d')"
  shows "case r of Inl _ \<Rightarrow> True | Inr y \<Rightarrow> (case y of Inl buf' \<Rightarrow> traded w d0 d' [] buf' | Inr buf' \<Rightarrow> traded w d0 d' [] buf')"
proof (cases "length buf \<ge> n")
  case True
  with assms show ?thesis by (auto simp: ulx_recv_body_def)
next
  case False
  obtain t d1 where 1: "se_now w d = (t, d1)" by force
  have i1: "traded w d0 d1 [] buf" using traded_quiet [OF i traded_now [OF 1]] .
  obtain q d2 where 2: "call_within (w_read w) (ReadBytes (int (n - length buf))) (deadline - t) d1 = (q, d2)" by force
  obtain t' d3 where 3: "se_now w d2 = (t', d3)" by force
  show ?thesis
  proof (cases q)
    case (Inl x)
    with r False i1 2 show ?thesis by (auto simp: ulx_recv_body_def 1 Let_def of_nat_diff split: if_splits)
  next
    case (Inr c)
    have i2: "traded w d0 d2 [] (buf @ c)" using traded_read [OF 2] traded_trans [OF i1] Inr by fastforce
    then have "c = [] \<Longrightarrow> traded w d0 (ulx_pause s d3) [] buf" for s
      using traded_quiet [OF traded_quiet [OF i2 traded_now [OF 3]] traded_pause] by simp
    with r False i1 i2 Inr 2 show ?thesis by (auto simp: ulx_recv_body_def 1 3 Let_def of_nat_diff split: if_splits)
  qed
qed

lemma recv_traded: "succeeds (recv_exact w mx n timeout) d (\<lambda>buf d'. traded w d d' [] buf \<and> length buf = n)"
  unfolding recv_exact_def
proof (rule yields_then [where R = "\<lambda>_ d'. d' = d"], goal_cases)
  case 1
  show ?case by (rule yields_lift) (simp split: sum.splits)
next
  case (2 u d1)
  obtain t d2 where now: "se_now w d = (t, d2)" by force
  have "succeeds (repeatP (ulx_recv_body w n (t + timeout)) []) d2 (\<lambda>buf d'. traded w d d' [] buf)"
    unfolding yields_def
  proof (intro allI impI, goal_cases)
    case (1 r d')
    show ?case
      by (rule repeatP_rule [OF 1, where I = "\<lambda>buf d1. traded w d d1 [] buf"])
        (use traded_now [OF now] recv_body_traded in \<open>simp, blast\<close>)
  qed
  then have "succeeds (thenP (repeatP (ulx_recv_body w n (t + timeout)) []) (\<lambda>buf d. if length buf \<noteq> n then Some (Inl UlxTimeout, d) else Some (Inr buf, d))) d2
      (\<lambda>buf d'. traded w d d' [] buf \<and> length buf = n)"
    by (rule yields_then) (simp add: yields_def)
  with 2 now show ?case by (simp add: yields_def)
qed

text \<open>A routine that trades, after others have traded.\<close>

lemma trades_after:
  assumes "traded w d0 d bs rs" "succeeds m d (\<lambda>v d'. traded w d d' bs' (g v) \<and> P v)"
  shows "succeeds m d (\<lambda>v d'. traded w d0 d' (bs @ bs') (rs @ g v) \<and> P v)"
  by (rule yields_mono [OF assms(2)]) (auto dest: traded_trans [OF assms(1)])

lemma drain_gives: "succeeds (ulx_drain w mx m settle) d (\<lambda>out d'. traded w d d' [] out \<and> True)"
  by (rule yields_mono [OF drain_traded]) simp_all

lemma send_gives: "succeeds (send_bytes w mx data delay timeout) d (\<lambda>_ d'. traded w d d' data [] \<and> True)"
  by (rule yields_mono [OF send_traded]) simp_all

text \<open>A response comes with nothing after it.\<close>

lemma response_traded: "succeeds (recv_response w mx n timeout) d (\<lambda>r d'. traded w d d' [] r \<and> length r = n)"
  unfolding recv_response_def
proof (rule yields_then [OF recv_traded], goal_cases)
  case (1 r d1)
  then have t: "traded w d d1 [] r" and n: "length r = n" by simp_all
  show ?case
    by (rule yields_then [OF trades_after [OF t drain_gives]]) (rule yields_lift, use n in auto)
qed

lemma resync_traded: "succeeds (resync w mx timeout) d (\<lambda>_ d'. \<exists>out. traded w d d' [ULX_ABORT] out)"
  unfolding resync_def
proof (rule yields_then [OF drain_gives], goal_cases)
  case (1 out d1)
  then have t: "traded w d d1 [] out" by simp
  show ?case by (rule yields_mono [OF trades_after [OF t send_gives]]) auto
qed

text \<open>
  A command: the abort byte and the request are handed over, then exactly the response comes back.
\<close>

definition transacted :: "world \<Rightarrow> serial \<Rightarrow> serial \<Rightarrow> bytes \<Rightarrow> bytes \<Rightarrow> bool" where
  "transacted w d d' request r \<longleftrightarrow> (\<exists>d1 stale. traded w d d1 (ULX_ABORT # request) stale \<and> traded w d1 d' [] r)"

lemma request_traded:
  assumes "traded w d0 d [] stale"
  shows "succeeds (thenP (resync w mx timeout) (\<lambda>_. send_bytes w mx request 0 timeout)) d (\<lambda>_ d'. \<exists>out. traded w d0 d' (ULX_ABORT # request) out)"
proof (rule yields_then [OF resync_traded], goal_cases)
  case (1 u d1)
  then obtain out where "traded w d d1 [ULX_ABORT] out" by blast
  from traded_trans [OF assms this] have t: "traded w d0 d1 [ULX_ABORT] (stale @ out)" by simp
  show ?case by (rule yields_mono [OF trades_after [OF t send_gives]]) auto
qed

lemma command_traded:
  assumes "traded w d0 d [] stale"
  shows "succeeds (thenP (resync w mx timeout) (\<lambda>_. thenP (send_bytes w mx request 0 timeout) (\<lambda>_. recv_response w mx n timeout))) d
    (\<lambda>r d'. transacted w d0 d' request r \<and> length r = n)"
proof -
  have "thenP (resync w mx timeout) (\<lambda>_. thenP (send_bytes w mx request 0 timeout) (\<lambda>_. recv_response w mx n timeout)) =
      thenP (thenP (resync w mx timeout) (\<lambda>_. send_bytes w mx request 0 timeout)) (\<lambda>_. recv_response w mx n timeout)"
    by (auto simp: fun_eq_iff thenP_def split: option.splits sum.splits)
  moreover have "succeeds (thenP (thenP (resync w mx timeout) (\<lambda>_. send_bytes w mx request 0 timeout)) (\<lambda>_. recv_response w mx n timeout)) d
    (\<lambda>r d'. transacted w d0 d' request r \<and> length r = n)"
  proof (rule yields_then [OF request_traded [OF assms]], goal_cases)
    case (1 u d1)
    then show ?case by (intro yields_mono [OF response_traded]) (auto simp: transacted_def)
  qed
  ultimately show ?thesis by simp
qed

section \<open>The exit status\<close>

text \<open>The request of a command and the reply that the command line asks for.\<close>

definition ulx_request :: "string \<Rightarrow> bytes \<Rightarrow> bytes" where
  "ulx_request tx pay =
     (if tx = ''set'' then ULX_SET128 # pay
      else if tx = ''xor'' then ULX_XOR128 # concat (map (\<lambda>i. [take 16 pay ! i, drop 16 pay ! i]) [0..<16])
      else if tx = ''mul'' then ULX_MUL128 # pay
      else [ULX_STATUS])"

definition ulx_reply :: "string \<Rightarrow> bytes \<Rightarrow> bytes" where
  "ulx_reply tx pay =
     (if tx = ''set'' then pay
      else if tx = ''xor'' then map2 (XOR) (take 16 pay) (drop 16 pay)
      else if tx = ''mul'' then to_le 16 (field_mul (le_int (take 16 pay)) (le_int (drop 16 pay)))
      else STATUS_SIGNATURE)"

definition ulx_operand :: "string \<Rightarrow> string \<Rightarrow> bytes \<Rightarrow> bool" where
  "ulx_operand tx payload pay \<longleftrightarrow>
     (if tx = ''status'' then pay = []
      else fromhex payload = Inr pay \<and> ULX_ABORT \<notin> set pay \<and> (tx = ''set'' \<and> length pay = 16 \<or> tx \<in> {''xor'', ''mul''} \<and> length pay = 32))"

lemma expected_mul_eq:
  assumes "length a = 16" "length b = 16"
  shows "expected_mul a b = Inr (to_le 16 (field_mul (le_int a) (le_int b)))"
proof -
  have f: "fits 128 (le_int a)" "fits 128 (le_int b)" by (rule fits_le_int; simp add: assms)+
  have "fits 128 (field_mul (le_int a) (le_int b))" by simp
  then show ?thesis
    using multipliers_128 [OF f] assms
    by (simp add: expected_mul_def ulx_value_def le_bytes_to_int_def int_to_le_bytes_def Let_def fits_def)
qed

text \<open>The model of the ALU answers each request with that reply.\<close>

lemma reply_streams:
  assumes "ulx_operand tx payload pay"
  shows "\<exists>r. stream_execute (uint (hd (ulx_request tx pay))) (tl (ulx_request tx pay)) = Inr r \<and> cr_output r = ulx_reply tx pay"
proof -
  consider (status) "tx = ''status''" | (set) "tx = ''set''" "length pay = 16" | (xor) "tx = ''xor''" "length pay = 32" | (mul) "tx = ''mul''" "length pay = 32"
    using assms by (auto simp: ulx_operand_def split: if_splits)
  then show ?thesis
  proof cases
    case status
    then show ?thesis by (simp add: ulx_request_def ulx_reply_def ULX_STATUS_def stream_execute_def stream_command_of_def CommandResult_def STATUS_BYTES_def STATUS_SIGNATURE_def)
  next
    case set
    then show ?thesis by (simp add: ulx_request_def ulx_reply_def ULX_SET128_def stream_execute_def stream_command_of_def CommandResult_def)
  next
    case mul
    with mul_streams [of "take 16 pay" "drop 16 pay"] show ?thesis by (simp add: ulx_request_def ulx_reply_def ULX_MUL128_def CommandResult_def)
  next
    case xor
    have z: "concat (map (\<lambda>i. [take 16 pay ! i, drop 16 pay ! i]) [0..<16]) = concat (map (\<lambda>(x, y). [x, y]) (zip (take 16 pay) (drop 16 pay)))"
      by (rule arg_cong [where f = concat], rule nth_equalityI) (simp_all add: xor)
    have l: "length (concat (map (\<lambda>(x, y). [x, y]) (zip (take 16 pay) (drop 16 pay)))) = 32" by (rule interleave) (simp_all add: xor)
    have q: "ulx_request tx pay = ULX_XOR128 # concat (map (\<lambda>(x, y). [x, y]) (zip (take 16 pay) (drop 16 pay)))"
      by (simp add: ulx_request_def xor(1) z [simplified])
    note n = interleave_nth [of "take 16 pay" 16 "drop 16 pay", THEN conjunct2, rule_format]
    have "stream_execute 1 (concat (map (\<lambda>(x, y). [x, y]) (zip (take 16 pay) (drop 16 pay)))) =
        Inr (CommandResult (map2 (XOR) (take 16 pay) (drop 16 pay)) 32 16)"
      unfolding stream_execute_def stream_command_of_def using l
      by simp (rule arg_cong [where f = "\<lambda>x. CommandResult x 32 16"], rule nth_equalityI, simp_all add: n [simplified] xor)
    then show ?thesis unfolding q by (simp add: ULX_XOR128_def ulx_reply_def xor(1) CommandResult_def)
  qed
qed

lemma verdict_eq: "verdict b = (if b then 0 else 1)"
  by (simp add: verdict_def)

lemma yields_judged:
  assumes "succeeds m d (\<lambda>r d'. transacted w d0 d' request r \<and> length r = n)" "\<And>r. f r = reply"
  shows "succeeds (thenP m (\<lambda>r. liftP (Inr (verdict (r = f r))))) d
    (\<lambda>code d'. \<exists>r. transacted w d0 d' request r \<and> length r = n \<and> code = verdict (r = reply))"
  by (rule yields_then [OF assms(1)], rule yields_lift) (auto simp: assms(2))

lemma guarded:
  assumes "\<And>u. x = Inr u \<Longrightarrow> succeeds m d Q"
  shows "succeeds (thenP (liftP x) (\<lambda>_. m)) d Q"
  using assms by (cases x) (auto simp: yields_def thenP_def liftP_def)


section \<open>What leaves the routines as an exception\<close>

text \<open>
  A timeout, a refused value, or the port: a write that answered with no count in range, or a
  call that raised, as the last call made.
\<close>

definition bad_count :: "world \<Rightarrow> event list \<Rightarrow> bool" where
  "bad_count w es =
     (case last es of
        WriteBytes chunk _ \<Rightarrow>
          (case w_write w es of
             Returned (Count n) \<Rightarrow> n < 0 \<or> n > int (length chunk)
           | Returned _ \<Rightarrow> True
           | _ \<Rightarrow> False)
      | _ \<Rightarrow> False)"

definition accounted :: "world \<Rightarrow> ulx_exn \<Rightarrow> serial \<Rightarrow> bool" where
  "accounted w x d =
     (case x of
        UlxTimeout \<Rightarrow> True
      | UlxValue \<Rightarrow> True
      | UlxOSError \<Rightarrow> bad_count w (se_events d)
      | UlxRaised es \<Rightarrow> es = se_events d
      | _ \<Rightarrow> False)"

lemma accounted_simps [simp]: "accounted w UlxTimeout d" "accounted w UlxValue d" "accounted w (UlxRaised (se_events d)) d"
  "accounted w UlxOSError d = bad_count w (se_events d)"
  by (simp_all add: accounted_def)

abbreviation raises_accounted :: "world \<Rightarrow> 'a ulx_proc \<Rightarrow> serial \<Rightarrow> bool" where
  "raises_accounted w m d \<equiv> yields m d (accounted w) (\<lambda>_ _. True)"

lemma accounted_call: "call_within call mk remaining d = (Inl x, d') \<Longrightarrow> accounted w x d'"
  by (auto simp: call_within_def accounted_def Let_def split: if_splits outcome.splits)

lemma accounted_call': "fst (call_within call mk remaining d) = Inl x \<Longrightarrow> accounted w x (snd (call_within call mk remaining d))"
  by (rule accounted_call [where call = call]) (simp add: prod_eq_iff)

lemma accounted_waiting: "fst (in_waiting_within w remaining d) = Inl x \<Longrightarrow> accounted w x (snd (in_waiting_within w remaining d))"
  by (auto simp: in_waiting_within_def thenM_def split: prod.splits sum.splits intro: accounted_call')

lemma accounted_repeat:
  assumes "\<And>v d x d'. body v d = (Inl x, d') \<Longrightarrow> accounted w x d'"
  shows "raises_accounted w (repeatP body v) d"
  unfolding yields_def
proof (intro allI impI, goal_cases)
  case (1 r d')
  show ?case by (rule repeatP_rule [OF 1, where I = "\<lambda>_ _. True"]) (use assms in \<open>auto split: sum.splits\<close>)
qed

lemma accounted_then: "raises_accounted w m d \<Longrightarrow> (\<And>a d'. raises_accounted w (f a) d') \<Longrightarrow> raises_accounted w (thenP m f) d"
  by (rule yields_then)

lemma accounted_lift: "(\<And>x. m = Inl x \<Longrightarrow> accounted w x d) \<Longrightarrow> raises_accounted w (liftP m) d"
  by (rule yields_lift) (auto split: sum.splits)

lemma accounted_validate: "validate_timeout mx t = Inl x \<Longrightarrow> accounted w x d"
  by (auto simp: validate_timeout_def split: if_splits)

lemma accounted_drain: "raises_accounted w (ulx_drain w mx m settle) d"
proof -
  have "accounted w x d'" if "ulx_drain_body w m deadline v d = (Inl x, d')" for deadline v d x d'
    using that
    by (auto simp: ulx_drain_body_def thenM_def Let_def split: if_splits prod.splits sum.splits intro: accounted_waiting accounted_call')
  then have "raises_accounted w (repeatP (ulx_drain_body w m deadline) v) d" for deadline v d by (rule accounted_repeat)
  then have "raises_accounted w (\<lambda>d. let (t, d) = se_now w d in repeatP (ulx_drain_body w m (t + settle)) [] d) d" for d
    by (simp add: yields_def split: prod.splits)
  then show ?thesis unfolding ulx_drain_def by (intro accounted_then accounted_lift) (auto intro: accounted_validate)
qed

lemma accounted_write:
  "call_within (w_write w) (WriteBytes chunk) remaining d = (Inr v, d') \<Longrightarrow>
     (\<forall>n. v = Count n \<longrightarrow> n < 0 \<or> n > int (length chunk)) \<Longrightarrow> bad_count w (se_events d')"
  by (auto simp: call_within_def bad_count_def Let_def split: if_splits outcome.splits written.splits)

lemma accounted_send_body:
  assumes r: "ulx_send_body w data delay deadline v d = (Inl x, d')"
  shows "accounted w x d'"
proof (cases "v \<ge> length data")
  case True
  with r show ?thesis by (simp add: ulx_send_body_def)
next
  case False
  obtain t d1 where 1: "se_now w d = (t, d1)" by force
  define chunk where "chunk = (if delay > 0 then [data ! v] else drop v data)"
  obtain q d2 where 2: "call_within (w_write w) (WriteBytes chunk) (deadline - t) d1 = (q, d2)" by force
  note c = r False 1 2
  show ?thesis
  proof (cases q)
    case (Inl y)
    with c accounted_call [OF 2 [unfolded Inl], of w] show ?thesis
      by (auto simp: ulx_send_body_def Let_def chunk_def [symmetric] split: if_splits)
  next
    case (Inr wr)
    have w: "bad_count w (se_events d2)" if "\<forall>n. wr = Count n \<longrightarrow> n < 0 \<or> n > int (length chunk)"
      using accounted_write [OF 2 [unfolded Inr] that] .
    from c Inr w show ?thesis
      by (cases wr) (auto simp: ulx_send_body_def Let_def chunk_def [symmetric] split: if_splits prod.splits)
  qed
qed

lemma accounted_flush: "ulx_flush w deadline d = (Inl x, d') \<Longrightarrow> accounted w x d'"
  by (auto simp: ulx_flush_def split: if_splits prod.splits dest: accounted_call [where w = w])

lemma accounted_send: "raises_accounted w (send_bytes w mx data delay timeout) d"
proof -
  have f: "raises_accounted w (\<lambda>d. Some (ulx_flush w deadline d)) d" for deadline d
    by (auto simp: yields_def split: sum.splits dest: accounted_flush)
  have "raises_accounted w (thenP (repeatP (ulx_send_body w data delay deadline) 0) (\<lambda>_ d. Some (ulx_flush w deadline d))) d" for deadline d
    by (rule accounted_then [OF accounted_repeat [OF accounted_send_body] f])
  then have "raises_accounted w (\<lambda>d. let (t, d) = se_now w d; deadline = t + timeout in
      thenP (repeatP (ulx_send_body w data delay deadline) 0) (\<lambda>_ d. Some (ulx_flush w deadline d)) d) d" for d
    by (simp add: yields_def Let_def split: prod.splits)
  then show ?thesis unfolding send_bytes_def by (intro accounted_then accounted_lift) (auto intro: accounted_validate)
qed

lemma accounted_recv_body: "ulx_recv_body w n deadline v d = (Inl x, d') \<Longrightarrow> accounted w x d'"
  by (auto simp: ulx_recv_body_def thenM_def Let_def split: if_splits prod.splits sum.splits intro: accounted_call')

lemma accounted_recv: "raises_accounted w (recv_exact w mx n timeout) d"
proof -
  have "raises_accounted w (thenP (repeatP (ulx_recv_body w n deadline) []) (\<lambda>buf d.
         if length buf \<noteq> n then Some (Inl UlxTimeout, d) else Some (Inr buf, d))) d" for deadline d
    by (rule accounted_then [OF accounted_repeat [OF accounted_recv_body]]) (auto simp: yields_def)
  then have "raises_accounted w (\<lambda>d. let (t, d) = se_now w d in thenP (repeatP (ulx_recv_body w n (t + timeout)) []) (\<lambda>buf d.
         if length buf \<noteq> n then Some (Inl UlxTimeout, d) else Some (Inr buf, d)) d) d" for d
    by (simp add: yields_def split: prod.splits)
  then show ?thesis unfolding recv_exact_def by (intro accounted_then accounted_lift) (auto intro: accounted_validate)
qed

lemma accounted_response: "raises_accounted w (recv_response w mx n timeout) d"
  unfolding recv_response_def by (intro accounted_then accounted_recv accounted_drain accounted_lift) (auto split: if_splits)

lemma accounted_resync: "raises_accounted w (resync w mx timeout) d"
  unfolding resync_def by (intro accounted_then accounted_drain accounted_send)

lemma accounted_reject: "reject_abort_byte data = Inl x \<Longrightarrow> accounted w x d"
  by (auto simp: reject_abort_byte_def split: if_splits)

lemmas accounted_parts = accounted_then accounted_resync accounted_send accounted_response accounted_drain

lemma accounted_commands:
  "raises_accounted w (tx_clear w mx timeout) d"
  "raises_accounted w (tx_status w mx timeout) d"
  "length a = 16 \<Longrightarrow> raises_accounted w (tx_set w mx a timeout) d"
  "length a = 16 \<Longrightarrow> length b = 16 \<Longrightarrow> raises_accounted w (tx_xor w mx a b timeout) d"
  "length a = 16 \<Longrightarrow> length b = 16 \<Longrightarrow> raises_accounted w (tx_mul w mx a b timeout) d"
  unfolding tx_clear_def tx_status_def tx_set_def tx_xor_def tx_mul_def
  by (intro accounted_parts accounted_lift; simp add: assertU_def accounted_reject)+

text \<open>A run for one of the commands the parser lets through.\<close>

lemma accounted_run:
  assumes "tx \<in> fst ` set ULX_PAYLOAD_BYTES"
  shows "raises_accounted w (ulx_run w mx timeout tx payload) d"
  unfolding ulx_run_def
proof (rule accounted_then [OF accounted_drain], goal_cases)
  case (1 stale d1)
  have i: "raises_accounted w (liftP (Inr v)) d" for v :: int and d by (rule accounted_lift) simp
  have e: "expected_mul (take 16 pay) (drop 16 pay) = Inl x \<Longrightarrow> False" if "length pay = 32" for pay x
    using that expected_mul_eq [of "take 16 pay" "drop 16 pay"] by simp
  have m: "raises_accounted w (thenP (liftP (expected_mul (take 16 pay) (drop 16 pay))) (\<lambda>exp. liftP (Inr (verdict (res = exp))))) d"
    if "length pay = 32" for pay res d
    by (rule accounted_then [OF accounted_lift i]) (use e [OF that] in blast)
  show ?case
  proof (cases "tx = ''clear'' \<or> tx = ''status''")
    case True
    then show ?thesis by (auto intro!: accounted_then accounted_commands i)
  next
    case no: False
    show ?thesis
    proof (cases "payload = [] \<or> isl (fromhex payload)")
      case True
      then show ?thesis using no i by (auto simp: isl_def)
    next
      case False
      then obtain pay where p: "payload \<noteq> []" "fromhex payload = Inr pay" by (cases "fromhex payload") auto
      from assms no consider (set) "tx = ''set''" | (xor) "tx = ''xor''" | (mul) "tx = ''mul''"
        by (auto simp: ULX_PAYLOAD_BYTES_def)
      then show ?thesis
        by cases (use p i in \<open>auto simp: ULX_PAYLOAD_BYTES_def intro!: accounted_then accounted_commands m\<close>)
    qed
  qed
qed

text \<open>What a run that judges a response has traded.\<close>

definition judged :: "world \<Rightarrow> serial \<Rightarrow> serial \<Rightarrow> string \<Rightarrow> string \<Rightarrow> int \<Rightarrow> bool" where
  "judged w d d' tx payload code \<longleftrightarrow>
     (\<exists>pay r. ulx_operand tx payload pay \<and> transacted w d d' (ulx_request tx pay) r \<and> length r = length (ulx_reply tx pay)
        \<and> code = verdict (r = ulx_reply tx pay))"

lemma judged_command:
  assumes "traded w d0 d [] stale" "ulx_operand tx payload pay" "request = ulx_request tx pay" "n = length (ulx_reply tx pay)"
    "\<And>r. f r = ulx_reply tx pay"
  shows "succeeds (thenP (thenP (resync w mx timeout) (\<lambda>_. thenP (send_bytes w mx request 0 timeout) (\<lambda>_. recv_response w mx n timeout)))
      (\<lambda>r. liftP (Inr (verdict (r = f r))))) d (\<lambda>code d'. judged w d0 d' tx payload code)"
  by (rule yields_mono [OF yields_judged [OF command_traded [OF assms(1)], of f]])
    (use assms in \<open>auto simp: judged_def\<close>)

lemma guarded_then: "thenP (thenP (liftP x) (\<lambda>_. m)) f = thenP (liftP x) (\<lambda>_. thenP m f)"
  by (auto simp: fun_eq_iff thenP_def liftP_def split: sum.splits)

lemma run_judged:
  assumes "tx \<noteq> ''clear''"
  shows "succeeds (ulx_run w mx timeout tx payload) d (\<lambda>code d'. code = 2 \<or> judged w d d' tx payload code)"
  unfolding ulx_run_def
proof (rule yields_then [OF drain_gives], goal_cases)
  case (1 stale d1)
  then have t: "traded w d d1 [] stale" by simp
  have two: "succeeds (liftP (Inr 2)) d1 (\<lambda>code d'. code = 2 \<or> judged w d d' tx payload code)" by (rule yields_lift) simp
  show ?case
  proof (cases "tx = ''status''")
    case True
    have "succeeds (thenP (tx_status w mx timeout) (\<lambda>st. liftP (Inr (verdict (st = STATUS_SIGNATURE))))) d1 (\<lambda>code d'. judged w d d' tx payload code)"
      unfolding tx_status_def
      by (rule judged_command [OF t]) (simp_all add: True ulx_operand_def ulx_request_def ulx_reply_def STATUS_SIGNATURE_def)
    then show ?thesis using True assms by (auto elim: yields_mono)
  next
    case no: False
    show ?thesis
    proof (cases "payload \<noteq> [] \<and> (\<exists>pay want. fromhex payload = Inr pay \<and> map_of ULX_PAYLOAD_BYTES tx = Some want \<and> length pay = want)")
      case False
      show ?thesis
      proof (cases "payload = []")
        case True
        with no assms two show ?thesis by simp
      next
        case ne: False
        show ?thesis
        proof (cases "fromhex payload")
          case (Inl x)
          with no assms two ne show ?thesis by simp
        next
          case (Inr pay)
          show ?thesis
          proof (cases "map_of ULX_PAYLOAD_BYTES tx")
            case None
            with no assms ne Inr show ?thesis by (simp add: yields_def liftP_def)
          next
            case (Some want)
            with no assms ne Inr False two show ?thesis by simp
          qed
        qed
      qed
    next
      case True
      then obtain pay where p: "payload \<noteq> []" "fromhex payload = Inr pay" "map_of ULX_PAYLOAD_BYTES tx = Some (length pay)" by blast
      then consider (set) "tx = ''set''" "length pay = 16" | (xor) "tx = ''xor''" "length pay = 32" | (mul) "tx = ''mul''" "length pay = 32"
        using no assms by (auto simp: ULX_PAYLOAD_BYTES_def split: if_splits)
      moreover have halves: "set pay = set (take 16 pay) \<union> set (drop 16 pay)" by (metis append_take_drop_id set_append)
      ultimately show ?thesis
      proof cases
        case set
        have "succeeds (thenP (tx_set w mx pay timeout) (\<lambda>echo. liftP (Inr (verdict (echo = pay))))) d1 (\<lambda>code d'. judged w d d' tx payload code)"
          unfolding tx_set_def guarded_then
          by (intro guarded judged_command [OF t])
            (use set p in \<open>auto simp: ulx_operand_def ulx_request_def ulx_reply_def reject_abort_byte_def split: if_splits\<close>)
        then show ?thesis using set p by (auto elim: yields_mono)
      next
        case xor
        have "succeeds (thenP (tx_xor w mx (take 16 pay) (drop 16 pay) timeout) (\<lambda>res. liftP (Inr (verdict (res = map2 (XOR) (take 16 pay) (drop 16 pay)))))) d1
            (\<lambda>code d'. judged w d d' tx payload code)"
          unfolding tx_xor_def guarded_then
          by (intro guarded judged_command [OF t, where pay = pay])
            (use xor p halves in \<open>auto simp: ulx_operand_def ulx_request_def ulx_reply_def reject_abort_byte_def split: if_splits\<close>)
        then show ?thesis using xor p by (auto elim: yields_mono)
      next
        case mul
        have e: "thenP (liftP (expected_mul (take 16 pay) (drop 16 pay))) (\<lambda>exp. liftP (Inr (verdict (res = exp)))) = liftP (Inr (verdict (res = ulx_reply tx pay)))" for res
          using mul expected_mul_eq [of "take 16 pay" "drop 16 pay"] by (simp add: fun_eq_iff thenP_def liftP_def ulx_reply_def)
        have "succeeds (thenP (tx_mul w mx (take 16 pay) (drop 16 pay) timeout) (\<lambda>res. liftP (Inr (verdict (res = ulx_reply tx pay))))) d1
            (\<lambda>code d'. judged w d d' tx payload code)"
          unfolding tx_mul_def guarded_then
          by (intro guarded judged_command [OF t, where pay = pay])
            (use mul p halves in \<open>auto simp: ulx_operand_def ulx_request_def ulx_reply_def reject_abort_byte_def split: if_splits\<close>)
        then show ?thesis using mul p by (auto simp: e elim: yields_mono)
      qed
    qed
  qed
qed


lemma run_clears: "succeeds (ulx_run w mx timeout ''clear'' payload) d (\<lambda>code d'. code = 0 \<and> (\<exists>stale. traded w d d' [ULX_ABORT, ULX_CLEAR] stale))"
  unfolding ulx_run_def
proof (rule yields_then [OF drain_gives], goal_cases)
  case (1 stale d1)
  then have t: "traded w d d1 [] stale" by simp
  have "succeeds (thenP (tx_clear w mx timeout) (\<lambda>_. liftP (Inr 0))) d1
      (\<lambda>code d'. code = 0 \<and> (\<exists>stale. traded w d d' [ULX_ABORT, ULX_CLEAR] stale))"
    unfolding tx_clear_def by (rule yields_then [OF request_traded [OF t]], rule yields_lift) simp
  then show ?case by simp
qed

text \<open>
  The status the process ends with: \<open>raise SystemExit(main())\<close>, and what Python makes of an
  exception that leaves \<open>main\<close>.
\<close>

definition exit_status :: "ulx_exn + int \<Rightarrow> int" where
  "exit_status r = (case r of Inl _ \<Rightarrow> 1 | Inr code \<Rightarrow> code)"

text \<open>
  C29. What the exit status of the driver means, for every command the parser lets through and
  whatever the port and the clock do. If \<open>main\<close> returns 0 or 1 for a command that is answered, the
  abort byte and exactly the request were sent, then the port gave one response of the right
  length and nothing after it, and the status is 0 just when that response is the answer of the
  model of the streaming ALU; no operand with an abort byte in it comes that far. For clear, which
  has no answer, it is 0 and says that the abort byte and the command were sent. An exception
  leaves \<open>main\<close> in two cases only, and then the process ends with 1 as well: a write answered with
  no count in range, or the port raised something that is no serial exception.
\<close>

theorem ulx_exit_truthful:
  assumes "ulx_main w mx sx timeout tx payload d = Some (r, d')" "tx \<in> fst ` set ULX_PAYLOAD_BYTES"
  shows "case r of
      Inl x \<Rightarrow> exit_status r = 1 \<and>
        (x = UlxOSError \<and> bad_count w (se_events d') \<or> x = UlxRaised (se_events d') \<and> \<not> sx (se_events d'))
    | Inr code \<Rightarrow> exit_status r = code \<and>
        (code = 2
         \<or> (if tx = ''clear'' then code = 0 \<and> (\<exists>stale. traded w d d' [ULX_ABORT, ULX_CLEAR] stale)
            else \<exists>pay response result. ulx_operand tx payload pay
              \<and> (\<exists>d1 stale. traded w d d1 (ULX_ABORT # ulx_request tx pay) stale \<and> traded w d1 d' [] response)
              \<and> stream_execute (uint (hd (ulx_request tx pay))) (tl (ulx_request tx pay)) = Inr result
              \<and> length response = length (cr_output result) \<and> code = (if response = cr_output result then 0 else 1)))"
proof (cases r)
  case (Inl x)
  then have "ulx_run w mx timeout tx payload d = Some (Inl x, d')" "\<not> communication_error sx x"
    using assms(1) by (auto simp: ulx_main_def split: sum.splits option.splits if_splits prod.splits)
  with yieldsD [OF accounted_run [OF assms(2)], of w mx timeout payload d "Inl x" d'] Inl show ?thesis
    by (cases x) (auto simp: exit_status_def communication_error_def accounted_def)
next
  case (Inr code)
  show ?thesis
  proof (cases "code = 2")
    case False
    then have run: "ulx_run w mx timeout tx payload d = Some (Inr code, d')"
      using assms(1) Inr by (auto simp: ulx_main_def split: sum.splits option.splits if_splits prod.splits)
    show ?thesis
    proof (cases "tx = ''clear''")
      case True
      with yieldsD [OF run_clears, of w mx timeout payload d "Inr code" d'] run Inr show ?thesis by (simp add: exit_status_def)
    next
      case no: False
      from yieldsD [OF run_judged [OF no] run] False obtain pay response where j: "ulx_operand tx payload pay"
          "transacted w d d' (ulx_request tx pay) response" "length response = length (ulx_reply tx pay)"
          "code = verdict (response = ulx_reply tx pay)" by (auto simp: judged_def)
      moreover obtain result where "stream_execute (uint (hd (ulx_request tx pay))) (tl (ulx_request tx pay)) = Inr result"
          "cr_output result = ulx_reply tx pay" using reply_streams [OF j(1)] by blast
      ultimately have "\<exists>pay response result. ulx_operand tx payload pay
              \<and> (\<exists>d1 stale. traded w d d1 (ULX_ABORT # ulx_request tx pay) stale \<and> traded w d1 d' [] response)
              \<and> stream_execute (uint (hd (ulx_request tx pay))) (tl (ulx_request tx pay)) = Inr result
              \<and> length response = length (cr_output result) \<and> code = (if response = cr_output result then 0 else 1)"
        by (intro exI [of _ pay] exI [of _ response] exI [of _ result]) (simp add: transacted_def verdict_eq)
      with no Inr show ?thesis by (simp add: exit_status_def)
    qed
  qed (simp add: Inr exit_status_def)
qed

text \<open>A port that takes everything and answers a status request, with a clock that goes on.\<close>

definition status_world :: "written \<Rightarrow> world" where
  "status_world count =
     \<lparr>w_clock = (\<lambda>es. 60000 * int (length es)), w_clock_ns = (\<lambda>_. 0), w_in_waiting = (\<lambda>_. Returned 0),
      w_read = (\<lambda>_. Returned STATUS_SIGNATURE), w_write = (\<lambda>_. Returned count), w_flush = (\<lambda>_. Returned ()),
      w_abort = (\<lambda>_. Raised), w_break = (\<lambda>_. Raised), w_has_flush = True, w_has_abort = False, w_has_break = False,
      w_has_timeout = True\<rparr>"

lemma fst_Some: "map_option fst m = Some r \<Longrightarrow> \<exists>d'. m = Some (r, d')"
  by (cases m) auto

lemma status_runs:
  "map_option fst (ulx_main (status_world (Count 1)) 1000000000 (\<lambda>_. True) 2000000 ''status'' [] \<lparr>se_events = []\<rparr>) = Some (Inr 0)"
  "map_option fst (ulx_main (status_world (Count 2)) 1000000000 (\<lambda>_. True) 2000000 ''status'' [] \<lparr>se_events = []\<rparr>) = Some (Inl UlxOSError)"
  by code_simp+

text \<open>
  A write count out of range raises an exception that \<open>main\<close> does not catch, so Python ends with
  exit status 1, the status of a board that answered wrongly.
\<close>

lemma ulx_bad_count_uncaught:
  "\<exists>d'. ulx_main (status_world (Count 2)) 1000000000 (\<lambda>_. True) 2000000 ''status'' [] \<lparr>se_events = []\<rparr> = Some (Inl UlxOSError, d')
    \<and> exit_status (Inl UlxOSError) = 1"
  using fst_Some [OF status_runs(2)] by (simp add: exit_status_def)

lemma ulx_exit_truthful_witness:
  "\<exists>d' response. length response = 4 \<and>
     (\<exists>d1 stale. traded (status_world (Count 1)) \<lparr>se_events = []\<rparr> d1 [0x7f, 0x7e] stale \<and> traded (status_world (Count 1)) d1 d' [] response)"
proof -
  obtain d' where m: "ulx_main (status_world (Count 1)) 1000000000 (\<lambda>_. True) 2000000 ''status'' [] \<lparr>se_events = []\<rparr> = Some (Inr 0, d')"
    using fst_Some [OF status_runs(1)] by blast
  obtain pay response result d1 stale where o: "ulx_operand ''status'' [] pay"
    "traded (status_world (Count 1)) \<lparr>se_events = []\<rparr> d1 (ULX_ABORT # ulx_request ''status'' pay) stale"
    "traded (status_world (Count 1)) d1 d' [] response"
    "stream_execute (uint (hd (ulx_request ''status'' pay))) (tl (ulx_request ''status'' pay)) = Inr result"
    "length response = length (cr_output result)"
    using ulx_exit_truthful [OF m] by (auto simp: ULX_PAYLOAD_BYTES_def)
  have r: "ulx_request ''status'' pay = [0x7e]" by (simp add: ulx_request_def ULX_STATUS_def)
  have "length (cr_output result) = 4"
    using o(4) unfolding r by (auto simp: stream_execute_def stream_command_of_def CommandResult_def STATUS_BYTES_def)
  with o(2,3,5) show ?thesis unfolding r ULX_ABORT_def by metis
qed

section \<open>Operands that cannot cross the link\<close>

lemma ulx_abort_byte_refused:
  assumes "ulx_main w mx sx timeout tx payload d = Some (r, d')" "fromhex payload = Inr pay" "ULX_ABORT \<in> set pay" "tx \<in> {''set'', ''xor'', ''mul''}"
  shows "sends w d d' []"
proof -
  have "yields (ulx_run w mx timeout tx payload) d (\<lambda>_ d'. only_reads w d d') (\<lambda>_ d'. only_reads w d d')"
    unfolding ulx_run_def
  proof (rule yields_then [OF drain_traded], goal_cases)
    case (1 stale d1)
    then have o: "only_reads w d d1" by (auto simp: only_reads_def)
    have halves: "ULX_ABORT \<in> set (take 16 pay) \<or> ULX_ABORT \<in> set (drop 16 pay)"
      using assms(3) by (metis Un_iff append_take_drop_id set_append)
    show ?case
      using o halves assms(2-4)
      by (auto simp: yields_def liftP_def thenP_def tx_set_def tx_xor_def tx_mul_def reject_abort_byte_def assertU_def ULX_PAYLOAD_BYTES_def
          split: sum.splits if_splits)
  qed
  moreover have "only_reads w d d" unfolding only_reads_def by (rule exI [of _ "[]"]) simp
  ultimately have "only_reads w d d'"
    using assms(1) by (auto simp: ulx_main_def yields_def split: sum.splits option.splits if_splits prod.splits)
  then show ?thesis by (auto simp: only_reads_def traded_def)
qed

end
