(* ===== verification/Conformance_Corpus.thy ===== *)
theory Conformance_Corpus
  imports Scalar_Oracle Lsc_Drive
begin

text \<open>
tools/generate_conformance_corpus.py: the generator of the conformance corpus, which drives a
fresh endpoint through one request per case, retires what the endpoint decides, and records
requests, responses and states. The rendering as JSON, the SHA-256 fingerprint of the rendered
case and the output file are left out; a case is a record whose absent keys are None.
\<close>

section \<open>The cases\<close>

datatype corpus_exn = CorpusTimeout | CorpusRaised exn

text \<open>\<open>state\<close>: the fields of the endpoint a case shows.\<close>

record corpus_state =
  cs_txn_state :: txn_state
  cs_profile :: profile
  cs_committed_pc :: int
  cs_committed_fp :: int
  cs_state_valid :: bool
  cs_retire_seq :: int
  cs_last_status :: status
  cs_last_fault :: status
  cs_abort_count :: int

definition state_of :: "endpoint \<Rightarrow> corpus_state" where
  "state_of e =
     \<lparr>cs_txn_state = ep_state e, cs_profile = ep_profile e, cs_committed_pc = ep_committed_pc e,
      cs_committed_fp = ep_committed_fp e, cs_state_valid = ep_state_valid e, cs_retire_seq = ep_retire_seq e,
      cs_last_status = ep_last_status e, cs_last_fault = ep_last_fault e, cs_abort_count = ep_abort_count e\<rparr>"

record staged_record =
  sr_txn_id :: int
  sr_opcode :: opcode
  sr_profile :: profile
  sr_pc :: int
  sr_fp :: int
  sr_next_pc :: int
  sr_next_fp :: int
  sr_writes :: "(int \<times> int) list"
  sr_deferred :: "(int \<times> int) list"
  sr_accesses :: "int list"
  sr_execute_cycles :: int
  sr_result_payload :: bytes
  sr_result_crc32 :: int

definition staged_of :: "staged_transaction \<Rightarrow> bytes \<Rightarrow> staged_record" where
  "staged_of s payload =
     \<lparr>sr_txn_id = st_txn_id s, sr_opcode = st_opcode s, sr_profile = st_profile s, sr_pc = st_pc s, sr_fp = st_fp s,
      sr_next_pc = st_next_pc s, sr_next_fp = st_next_fp s,
      sr_writes = map (\<lambda>item. (wr_address item, wr_value item)) (st_writes s),
      sr_deferred = map (\<lambda>item. (df_target item, df_local item)) (st_deferred s), sr_accesses = st_accesses s,
      sr_execute_cycles = st_execute_cycles s, sr_result_payload = payload, sr_result_crc32 = st_result_crc s\<rparr>"

record retire_entry =
  re_attempted :: bool
  re_request :: bytes
  re_response :: bytes
  re_status :: "status option"
  re_payload :: bytes
  re_cycles :: int
  re_txn_id :: "int option"
  re_result_crc32 :: "int option"
  re_retire_seq :: int
  re_committed_pc :: int
  re_committed_fp :: int
  re_done_pulse :: bool

definition no_retire :: "int option \<Rightarrow> retire_entry" where
  "no_retire txn_id =
     \<lparr>re_attempted = False, re_request = [], re_response = [], re_status = None, re_payload = [], re_cycles = 0,
      re_txn_id = txn_id, re_result_crc32 = None, re_retire_seq = 0, re_committed_pc = 0, re_committed_fp = 0, re_done_pulse = False\<rparr>"

datatype lane_entry =
    LaneAbort bool bool
  | LaneReset bool bool bool
  | LaneStall "int list" "int list" int int bool

datatype upstream_entry =
    ProtocolOnly
  | ProgramExecute int int "int list" int int "(int \<times> int) list"

record corpus_case =
  cc_case_id :: string
  cc_description :: string
  cc_coverage :: "string list"
  cc_request :: bytes
  cc_response :: bytes
  cc_request_cycles :: "int option"
  cc_initial_state :: corpus_state
  cc_pre_action_state :: "corpus_state option"
  cc_staged :: "staged_record option"
  cc_final_state :: corpus_state
  cc_retire :: retire_entry
  cc_fault :: "(status \<times> bytes) option"
  cc_lane :: "lane_entry option"
  cc_upstream :: upstream_entry

section \<open>What the frozen upstream executes to\<close>

definition UPSTREAM_EXPECTED :: "(string \<times> int \<times> int \<times> int list) list" where
  "UPSTREAM_EXPECTED =
     [(''scalar.set.forward'', 1, 3, [5, 6, 0x1234]),
      (''scalar.xor.forward'', 1, 3, [0xDEAD, 0xBEEF, 0x6042]),
      (''scalar.mul.forward'', 1, 3, [0x53, 0xCA, 0x3F7E]),
      (''scalar.xor.backsolve_a'', 1, 3, [0x1111, 0x3333, 0x2222]),
      (''scalar.xor.backsolve_b'', 1, 3, [0x1111, 0x3333, 0x2222]),
      (''scalar.deref.cell'', 1, 9, [0x100, 0x77, 0, 0, 0, 0, 0, 0, 0x77]),
      (''scalar.deref.pc'', 1, 9, [0x100, 0, 0, 0, 0, 0, 0, 0, 4]),
      (''scalar.deref.fp'', 6, 12, [0, 0, 0, 0, 0x100, 1, 0x80, 1, 0x10, 0, 0, 0]),
      (''scalar.jump.not_taken'', 1, 2, [1, 0]),
      (''scalar.jump.taken_nontrivial_inverse'', 2, 4, [0x53, 8, 1, 0])]"

definition UPSTREAM_TRANSITIONS :: "(string \<times> int \<times> int \<times> (int \<times> int) list) list" where
  "UPSTREAM_TRANSITIONS =
     [(''scalar.set.forward'', 1, 0, [(2, 0x1234)]),
      (''scalar.xor.forward'', 1, 0, [(2, 0x6042)]),
      (''scalar.mul.forward'', 1, 0, [(2, 0x3F7E)]),
      (''scalar.xor.backsolve_a'', 1, 0, [(2, 0x2222)]),
      (''scalar.xor.backsolve_b'', 1, 0, [(2, 0x2222)]),
      (''scalar.deref.cell'', 1, 0, [(8, 0x77)]),
      (''scalar.deref.pc'', 1, 0, [(8, 0x04)]),
      (''scalar.deref.fp'', 5, 4, [(8, 0x10)]),
      (''scalar.jump.not_taken'', 1, 0, []),
      (''scalar.jump.taken_nontrivial_inverse'', 3, 0, [])]"

definition raises :: "'a res \<Rightarrow> corpus_exn + 'a" where
  "raises r = (case r of Inl x \<Rightarrow> Inl (CorpusRaised x) | Inr v \<Rightarrow> Inr v)"

definition asserts :: "bool \<Rightarrow> corpus_exn + unit" where
  "asserts b = (if b then Inr () else Inl (CorpusRaised AssertionError))"

text \<open>A routine of the endpoint run on an endpoint.\<close>

definition ran :: "'a res \<times> endpoint \<Rightarrow> corpus_exn + 'a \<times> endpoint" where
  "ran r = (case fst r of Inl x \<Rightarrow> Inl (CorpusRaised x) | Inr v \<Rightarrow> Inr (v, snd r))"

definition upstream :: "string \<Rightarrow> corpus_exn + upstream_entry" where
  "upstream case_id =
     (case map_of UPSTREAM_EXPECTED case_id of
        None \<Rightarrow> Inr ProtocolOnly
      | Some (cycles, mem_used, memory) \<Rightarrow>
          (case map_of UPSTREAM_TRANSITIONS case_id of
             None \<Rightarrow> Inl (CorpusRaised KeyError)
           | Some (next_pc, next_fp, writes) \<Rightarrow> Inr (ProgramExecute cycles mem_used memory next_pc next_fp writes)))"

section \<open>The generator\<close>

function corpus_inverse_loop :: "int \<Rightarrow> int \<Rightarrow> nat \<Rightarrow> int" where
  "corpus_inverse_loop result base exponent =
     (if exponent = 0 then result
      else corpus_inverse_loop (if odd exponent then field_mul result base else result) (field_mul base base) (exponent div 2))"
  by auto
termination by (relation "measure (\<lambda>(r, b, n). n)") auto

declare corpus_inverse_loop.simps [simp del]

definition corpus_inverse :: "int \<Rightarrow> int" where
  "corpus_inverse v = corpus_inverse_loop 1 v (2 ^ 128 - 2)"

fun drive_retire_loop :: "nat \<Rightarrow> bytes \<Rightarrow> nat \<Rightarrow> bytes \<Rightarrow> int \<Rightarrow> bool \<Rightarrow> endpoint
    \<Rightarrow> corpus_exn + (bytes \<times> int \<times> bool) \<times> endpoint" where
  "drive_retire_loop 0 frame sent response cycles done_observed e = Inl CorpusTimeout"
| "drive_retire_loop (Suc n) frame sent response cycles done_observed e =
     bindE (ran (ep_step (if sent < length frame then uint (frame ! sent) else 0) (sent < length frame) True False True e)) (\<lambda>(record, e).
       let cycles = cycles + 1;
           sent = (if ln_rx_committed record then sent + 1 else sent);
           done_observed = (done_observed \<or> pn_done_pulse (ep_pins e));
           response = (if ln_tx_committed record then response @ [word_of_int (pn_tx_data (ln_pins record))] else response)
       in if sent = length frame \<and> response \<noteq> [] \<and> \<not> pn_tx_valid (ep_pins e)
          then Inr ((response, cycles, done_observed), e)
          else drive_retire_loop n frame sent response cycles done_observed e)"

definition drive_retire :: "endpoint \<Rightarrow> bytes \<Rightarrow> corpus_exn + (bytes \<times> int \<times> bool) \<times> endpoint" where
  "drive_retire e frame = drive_retire_loop 100000 frame 0 [] 0 False e"

definition retire_semantic :: "staged_transaction \<Rightarrow> endpoint \<Rightarrow> corpus_exn + retire_entry \<times> endpoint" where
  "retire_semantic staged e =
     bindE (raises (bindE (build_retire (st_txn_id staged) (st_result_crc staged)) encode_request)) (\<lambda>retire_request.
     bindE (drive_retire e retire_request) (\<lambda>((retire_raw, retire_cycles, done_observed), e).
     bindE (raises (decode_response retire_raw)) (\<lambda>retire_response.
     bindE (asserts (rs_status retire_response = RETIRED)) (\<lambda>_.
     bindE (asserts done_observed) (\<lambda>_.
       Inr (\<lparr>re_attempted = True, re_request = retire_request, re_response = retire_raw,
             re_status = Some (rs_status retire_response), re_payload = rs_payload retire_response, re_cycles = retire_cycles,
             re_txn_id = Some (st_txn_id staged), re_result_crc32 = Some (st_result_crc staged),
             re_retire_seq = ep_retire_seq e, re_committed_pc = ep_committed_pc e, re_committed_fp = ep_committed_fp e,
             re_done_pulse = done_observed\<rparr>, e))))))"

definition semantic :: "string \<Rightarrow> string \<Rightarrow> string list \<Rightarrow> request_frame \<Rightarrow> corpus_exn + corpus_case" where
  "semantic case_id description coverage frame =
     bindE (raises (encode_request frame)) (\<lambda>request.
     bindE (ran (drive request None None 100000 ep_reset)) (\<lambda>((result_raw, result_cycles), e).
     bindE (raises (decode_response result_raw)) (\<lambda>result.
       case ep_staged e of
         None \<Rightarrow> Inl (CorpusRaised AssertionError)
       | Some staged \<Rightarrow>
           bindE (asserts (rs_status result = OK)) (\<lambda>_.
           bindE (raises (result_payload staged)) (\<lambda>payload.
           bindE (retire_semantic staged e) (\<lambda>(retire, e).
           bindE (upstream case_id) (\<lambda>up.
             Inr \<lparr>cc_case_id = case_id, cc_description = description, cc_coverage = coverage, cc_request = request,
                  cc_response = result_raw, cc_request_cycles = Some result_cycles, cc_initial_state = state_of ep_reset,
                  cc_pre_action_state = None, cc_staged = Some (staged_of staged payload), cc_final_state = state_of e,
                  cc_retire = retire, cc_fault = None, cc_lane = None, cc_upstream = up\<rparr>)))))))"

definition fault_case :: "string \<Rightarrow> string \<Rightarrow> string list \<Rightarrow> bytes \<Rightarrow> corpus_exn + corpus_case" where
  "fault_case case_id description coverage raw =
     bindE (ran (drive raw None None 100000 ep_reset)) (\<lambda>((response, cycles), e).
     bindE (raises (decode_response response)) (\<lambda>decoded.
     bindE (asserts (0x80 \<le> status_code (rs_status decoded))) (\<lambda>_.
     bindE (upstream case_id) (\<lambda>up.
       Inr \<lparr>cc_case_id = case_id, cc_description = description, cc_coverage = coverage, cc_request = raw, cc_response = response,
            cc_request_cycles = Some cycles, cc_initial_state = state_of ep_reset, cc_pre_action_state = None, cc_staged = None,
            cc_final_state = state_of e, cc_retire = no_retire None, cc_fault = Some (rs_status decoded, rs_payload decoded),
            cc_lane = None, cc_upstream = up\<rparr>))))"

text \<open>\<open>for byte in frame: endpoint.step(rx_data=byte, rx_valid=True)\<close>.\<close>

fun offer_all :: "bytes \<Rightarrow> endpoint \<Rightarrow> corpus_exn + endpoint" where
  "offer_all [] e = Inr e"
| "offer_all (b # bs) e = bindE (ran (ep_step (uint b) True False False True e)) (\<lambda>(_, e). offer_all bs e)"

definition abort_case :: "bytes \<Rightarrow> corpus_exn + corpus_case \<times> endpoint" where
  "abort_case encoded =
     bindE (offer_all (take 11 encoded) ep_reset) (\<lambda>e.
     if length encoded \<le> 11 then Inl (CorpusRaised IndexError)
     else
       bindE (ran (ep_step (uint (encoded ! 11)) True True True True e)) (\<lambda>(_, e').
       bindE (upstream ''lane.abort.priority'') (\<lambda>up.
         Inr (\<lparr>cc_case_id = ''lane.abort.priority'',
               cc_description = ''ABORT cancels a same-edge transfer and discards partial receive state.'',
               cc_coverage = [''abort'', ''priority'', ''partial_frame''], cc_request = take 12 encoded, cc_response = [],
               cc_request_cycles = None, cc_initial_state = state_of ep_reset, cc_pre_action_state = Some (state_of e),
               cc_staged = None, cc_final_state = state_of e', cc_retire = no_retire None, cc_fault = None,
               cc_lane = Some (LaneAbort True False), cc_upstream = up\<rparr>, e'))))"

definition reset_case :: "endpoint \<Rightarrow> corpus_exn + corpus_case" where
  "reset_case e =
     bindE (ran (ep_step SOF_REQUEST True False True False e)) (\<lambda>(_, e').
     bindE (upstream ''lane.reset.priority'') (\<lambda>up.
       Inr \<lparr>cc_case_id = ''lane.reset.priority'',
            cc_description = ''Active-low reset has priority over ABORT and a candidate transfer.'',
            cc_coverage = [''reset'', ''abort'', ''priority''], cc_request = [word_of_int SOF_REQUEST], cc_response = [],
            cc_request_cycles = None, cc_initial_state = state_of e, cc_pre_action_state = None, cc_staged = None,
            cc_final_state = state_of e', cc_retire = no_retire None, cc_fault = None,
            cc_lane = Some (LaneReset True True False), cc_upstream = up\<rparr>))"

definition lifecycle_cases :: "request_frame \<Rightarrow> corpus_exn + corpus_case list" where
  "lifecycle_cases reference =
     bindE (raises (encode_request reference)) (\<lambda>encoded.
     bindE (ran (drive encoded None None 100000 ep_reset)) (\<lambda>((baseline_raw, baseline_cycles), baseline).
     bindE (ran (drive encoded (Some [1, 0, 2]) (Some [2, 1, 0]) 100000 ep_reset)) (\<lambda>((stalled_raw, stalled_cycles), stalled).
     bindE (asserts (stalled_raw = baseline_raw \<and> stalled_cycles > baseline_cycles)) (\<lambda>_.
     bindE (abort_case encoded) (\<lambda>(aborted, e).
     bindE (reset_case e) (\<lambda>resetted.
     bindE (upstream ''lane.stall_backpressure.invariant'') (\<lambda>up.
       Inr [aborted, resetted,
            \<lparr>cc_case_id = ''lane.stall_backpressure.invariant'',
             cc_description = ''Input stalls and output backpressure preserve response bytes exactly.'',
             cc_coverage = [''stall'', ''backpressure'', ''ready_valid''], cc_request = encoded, cc_response = stalled_raw,
             cc_request_cycles = None, cc_initial_state = state_of ep_reset, cc_pre_action_state = None, cc_staged = None,
             cc_final_state = state_of stalled, cc_retire = no_retire (Some 90), cc_fault = None,
             cc_lane = Some (LaneStall [1, 0, 2] [2, 1, 0] baseline_cycles stalled_cycles True), cc_upstream = up\<rparr>])))))))"


section \<open>The corpus\<close>

text \<open>The cases of the generator in its order, each given by the frame a builder returns or by raw bytes.\<close>

definition one_case :: "corpus_exn + corpus_case \<Rightarrow> corpus_exn + corpus_case list" where
  "one_case c = bindE c (\<lambda>c. Inr [c])"

definition semantic_case :: "string \<Rightarrow> string \<Rightarrow> string list \<Rightarrow> request_frame res \<Rightarrow> corpus_exn + corpus_case list" where
  "semantic_case case_id description coverage frame =
     one_case (bindE (raises frame) (semantic case_id description coverage))"

definition binary_cases :: "(corpus_exn + corpus_case list) list" where
  "binary_cases =
     [semantic_case ''scalar.set.forward'' ''SET writes one absent destination.'' [''SET'']
        (build_set_constant 1 0 0 INTERPRETER_COMPAT 2 0x1234 ABSENT),
      semantic_case ''scalar.xor.forward'' ''XOR computes an absent result.'' [''XOR'', ''forward'']
        (build_binary_op OP_XOR 2 0 0 INTERPRETER_COMPAT [0, 1, 2] [Cell True 0xDEAD, Cell True 0xBEEF, ABSENT] ABSENT),
      semantic_case ''scalar.mul.forward'' ''MUL_NATIVE computes an absent result.'' [''MUL'', ''forward'']
        (build_binary_op OP_MUL_NATIVE 3 0 0 INTERPRETER_COMPAT [0, 1, 2] [Cell True 0x53, Cell True 0xCA, ABSENT] ABSENT),
      semantic_case ''scalar.xor.backsolve_a'' ''XOR back-solves absent operand A.'' [''XOR'', ''backsolve_a'']
        (build_binary_op OP_XOR 4 0 0 INTERPRETER_COMPAT [2, 0, 1] [ABSENT, Cell True 0x1111, Cell True 0x3333] ABSENT),
      semantic_case ''scalar.xor.backsolve_b'' ''XOR back-solves absent operand B.'' [''XOR'', ''backsolve_b'']
        (build_binary_op OP_XOR 5 0 0 INTERPRETER_COMPAT [0, 2, 1] [Cell True 0x1111, ABSENT, Cell True 0x3333] ABSENT)]"

definition deref_cases :: "int \<Rightarrow> (corpus_exn + corpus_case list) list" where
  "deref_cases g8 =
     [semantic_case ''scalar.deref.cell'' ''DEREF Cell copies a present local into an absent target.'' [''DEREF'', ''Cell'']
        (build_deref OP_DEREF_CELL 6 0 0 INTERPRETER_COMPAT 0 0 1 (Cell True g8) 8 ABSENT (Cell True 0x77)),
      semantic_case ''scalar.deref.pc'' ''DEREF Pc writes g^(pc+2).'' [''DEREF'', ''Pc'']
        (build_deref OP_DEREF_PC 7 0 0 INTERPRETER_COMPAT 0 0 1 (Cell True g8) 8 ABSENT (Cell True 0)),
      semantic_case ''scalar.deref.fp'' ''DEREF Fp writes g^fp for a nonzero frame.'' [''DEREF'', ''Fp'']
        (build_deref OP_DEREF_FP 8 4 4 INTERPRETER_COMPAT 0 0 1 (Cell True g8) 8 ABSENT (Cell True 1))]"

definition jump_cases :: "(corpus_exn + corpus_case list) list" where
  "jump_cases =
     [semantic_case ''scalar.jump.not_taken'' ''Zero condition advances pc and pins the inverse proposal to zero.'' [''JUMP'', ''not_taken'']
        (build_jump 9 0 0 INTERPRETER_COMPAT [1, 0, 0] [Cell True 0, Cell True 1, Cell True 1] False 0 0 ABSENT),
      bindE (raises (field_encode 3)) (\<lambda>g3.
        semantic_case ''scalar.jump.taken_nontrivial_inverse''
          ''Taken JUMP verifies a nontrivial condition inverse and g-power destinations.'' [''JUMP'', ''taken'', ''inverse'']
          (build_jump 10 1 0 INTERPRETER_COMPAT [0, 1, 2] [Cell True 0x53, Cell True g3, Cell True 1] True 3 0
             (Cell True (corpus_inverse 0x53))))]"

definition deferred_case :: "int \<Rightarrow> corpus_exn + corpus_case list" where
  "deferred_case g8 =
     semantic_case ''protocol.deref.cell.deferred'' ''DEREF Cell emits a deferred equality when both sides are absent.''
       [''DEREF'', ''Cell'', ''deferred'']
       (build_deref OP_DEREF_CELL 11 0 0 INTERPRETER_COMPAT 0 0 1 (Cell True g8) 8 ABSENT ABSENT)"

text \<open>A body with its CRC behind it.\<close>

definition sealed :: "bytes \<Rightarrow> bytes res" where
  "sealed body = bindE (u32le (crc32 body)) (\<lambda>crc. Inr (body @ crc))"

definition malformed_cases :: "bytes \<Rightarrow> (corpus_exn + corpus_case list) list" where
  "malformed_cases good =
     [one_case (fault_case ''malformed.precedence.crc_before_version'' ''CRC failure precedes version validation.''
        [''malformed'', ''precedence'', ''BAD_CRC'']
        (good[1 := 9, length good - 1 := good ! (length good - 1) XOR 0x80])),
      one_case (bindE (raises (sealed (take (length good - 4) (good[2 := 0xFF, 3 := 1]))))
        (fault_case ''malformed.precedence.flags_before_opcode'' ''Envelope flags failure precedes opcode decoding.''
           [''malformed'', ''precedence'', ''BAD_FLAGS''])),
      one_case (bindE (raises (bindE (u16le (int (length good) - int REQUEST_HEADER_BYTES - int CRC_BYTES - 1)) (\<lambda>len.
          let shortened = butlast (take 4 good @ len @ drop 6 good) in sealed (take (length shortened - 4) shortened))))
        (fault_case ''malformed.length.decoded_txn'' ''A fixed-length mismatch preserves the complete decoded txn_id prefix.''
           [''malformed'', ''BAD_LENGTH'', ''txn_id'', ''decoded''])),
      one_case (bindE (raises (bindE (u16le 3) (\<lambda>len.
          let truncated = take REQUEST_HEADER_BYTES good @ pyslice REQUEST_HEADER_BYTES (REQUEST_HEADER_BYTES + 3) good
          in sealed (take 4 truncated @ len @ drop 6 truncated))))
        (fault_case ''malformed.length.partial_txn'' ''A fixed-length mismatch zero-extends an available partial txn_id prefix.''
           [''malformed'', ''BAD_LENGTH'', ''txn_id'', ''partial'']))]"

definition pointer_case :: "corpus_exn + corpus_case list" where
  "pointer_case =
     one_case (bindE (raises (bindE (build_deref OP_DEREF_PC 43 0 0 INTERPRETER_COMPAT 0 0 1 (Cell True 7) 8 (Cell True 1) ABSENT) encode_request))
       (fault_case ''error.precedence.pointer_before_write_conflict'' ''Pointer validation precedes a conflicting target write.''
          [''error'', ''precedence'', ''BAD_POINTER'']))"

definition build_cases :: "corpus_exn + corpus_case list" where
  "build_cases =
     bindE (raises (field_encode 8)) (\<lambda>g8.
     bindE (catE (binary_cases @ deref_cases g8 @ jump_cases @ [deferred_case g8])) (\<lambda>cases.
     bindE (raises (bindE (build_set_constant 40 0 0 INTERPRETER_COMPAT 2 1 ABSENT) encode_request)) (\<lambda>good.
     bindE (catE (malformed_cases good @ [pointer_case])) (\<lambda>faults.
     bindE (bindE (raises (build_set_constant 90 0 0 INTERPRETER_COMPAT 2 0x55 ABSENT)) lifecycle_cases) (\<lambda>lifecycle.
       Inr (cases @ faults @ lifecycle))))))"

end
