(* ===== verification/Corpus_Semantic.thy ===== *)
theory Corpus_Semantic
  imports Conformance_Corpus
begin

text \<open>
What the generator of the conformance corpus does with one request: driving without stalls, the
retirement of a decided transition, and the case of an instruction, or the failed assertion.
\<close>

section \<open>Driving a frame without stalls\<close>

lemma raises_simps [simp]: "raises (Inl x) = Inl (CorpusRaised x)" "raises (Inr v) = Inr v"
  by (simp_all add: raises_def)

lemma ran_simps [simp]: "ran (Inl x, e) = Inl (CorpusRaised x)" "ran (Inr v, e) = Inr (v, e)"
  by (simp_all add: ran_def)

lemma asserts_simps [simp]: "asserts True = Inr ()" "asserts False = Inl (CorpusRaised AssertionError)"
  by (simp_all add: asserts_def)

lemma receiving_pins [simp]: "quiet e \<Longrightarrow> \<not> pn_done_pulse (ep_pins (receiving f k e))"
  by (simp add: ep_pins_def quiet_def)

lemma drive_retire_receives:
  assumes f: "well_framed f" and e: "quiet e" and d: "ep_dispatch f e = (Inr (), e1)"
  shows "k < length f \<Longrightarrow> drive_retire_loop (length f - k + m) f k [] c False (receiving f k e) =
    drive_retire_loop m f (length f) [] (c + int (length f - k)) (ep_done e1) e1"
proof (induction "length f - k" arbitrary: k c)
  case 0
  then show ?case by simp
next
  case (Suc j)
  from Suc.hyps(2) have n: "length f - k + m = Suc (j + m)" by simp
  show ?case
  proof (cases "k + 1 < length f")
    case True
    then have j: "j = length f - (k + 1)" using Suc.hyps(2) by simp
    have "drive_retire_loop (length f - k + m) f k [] c False (receiving f k e) = drive_retire_loop (j + m) f (k + 1) [] (c + 1) False (receiving f (k + 1) e)"
      unfolding n using step_byte [OF e, of "f ! k" True f k] receiving_Suc [OF f True e] Suc.prems True e by (simp add: Let_def)
    with Suc.hyps(1) [OF j True, of "c + 1"] show ?thesis using j True by (simp add: of_nat_diff)
  next
    case False
    with Suc.prems have l: "k + 1 = length f" by simp
    with Suc.hyps(2) have "j = 0" "int (length f) = int k + 1" by simp_all
    have "ep_done (snd (ep_dispatch f e)) = pn_done_pulse (ep_pins e1)" using d by (simp add: ep_pins_def)
    then show ?thesis
      unfolding n using step_byte [OF e, of "f ! k" True f k] receiving_last [OF f l e] d Suc.prems l [symmetric] \<open>j = 0\<close> by (simp add: Let_def ep_pins_def)
  qed
qed

lemma drive_retire_sends:
  assumes "ep_tx e = ts" "ts \<noteq> []"
  shows "drive_retire_loop (length ts + m) f (length f) resp c dn e =
    Inr ((resp @ ts, c + int (length ts), dn), e\<lparr>ep_tx := [], ep_done := False\<rparr>)"
  using assms
proof (induction ts arbitrary: resp c e)
  case Nil
  then show ?case by simp
next
  case (Cons b bs)
  let ?e = "e\<lparr>ep_done := False, ep_tx := bs\<rparr>"
  have p: "pn_tx_data (ep_pins e) = uint b" using Cons.prems by (simp add: ep_pins_def)
  have v: "pn_tx_valid (ep_pins ?e) = (bs \<noteq> [])" "\<not> pn_done_pulse (ep_pins (e\<lparr>ep_done := False, ep_tx := x\<rparr>))" for x by (simp_all add: ep_pins_def)
  have step: "drive_retire_loop (length (b # bs) + m) f (length f) resp c dn e =
      (if bs = [] then Inr ((resp @ [b], c + 1, dn), ?e)
       else drive_retire_loop (length bs + m) f (length f) (resp @ [b]) (c + 1) dn ?e)"
    using step_send [OF Cons.prems(1), of 0 True] p v by (simp add: Let_def)
  have "e\<lparr>ep_done := False, ep_tx := []\<rparr> = e\<lparr>ep_tx := [], ep_done := False\<rparr>" by simp
  with step Cons.IH [of ?e "resp @ [b]" "c + 1"] show ?case by (cases "bs = []") simp_all
qed

lemma drive_retire_ok:
  assumes "well_framed f" "quiet e" "ep_dispatch f e = (Inr (), e1)" "ep_tx e1 \<noteq> []" "length (ep_tx e1) \<le> 1000"
  shows "drive_retire e f = Inr ((ep_tx e1, int (length f + length (ep_tx e1)), ep_done e1), e1\<lparr>ep_tx := [], ep_done := False\<rparr>)"
proof -
  have l: "0 < length f" "length f \<le> 266" using assms(1) by (auto simp: well_framed_def)
  define m where "m = 100000 - length f - length (ep_tx e1)"
  have "(100000 :: nat) = length f - 0 + (length (ep_tx e1) + m)" using l assms(5) by (simp add: m_def)
  then show ?thesis
    using drive_retire_receives [OF assms(1-3) l(1), of "length (ep_tx e1) + m" 0] drive_retire_sends [OF refl assms(4), of m f "[]"]
    by (simp add: drive_retire_def receiving_0 [OF assms(2)])
qed

lemma drive_plain:
  assumes "well_framed f" "quiet e" "ep_dispatch f e = (Inr (), e1)" "ep_tx e1 \<noteq> []" "length (ep_tx e1) \<le> 1000"
  shows "drive f None None 100000 e = (Inr (ep_tx e1, int (length f + length (ep_tx e1))), e1\<lparr>ep_tx := [], ep_done := False\<rparr>)"
proof -
  have l: "length f \<le> 266" using assms(1) by (auto simp: well_framed_def)
  have g: "gap_pattern None = [0]" "gaps_ok (gap_pattern None)" by (simp_all add: gap_pattern_def gaps_ok_def)
  show ?thesis using drive_exchange [OF assms(1-4) g(2) g(2), of 100000] l assms(5) by (simp add: g exchange_cycles_no_gaps)
qed


section \<open>A case of an instruction\<close>

text \<open>The endpoint, fresh from its reset, decides the instruction at once.\<close>

definition decides :: "decoded_request \<Rightarrow> staged_transaction \<Rightarrow> bool" where
  "decides r s \<longleftrightarrow> dq_profile r = DEFAULT_PROFILE \<and> dq_pc r < 2 ^ 16 \<and> dq_fp r < 2 ^ 16 \<and>
     execute r (fresh_staged r) 0 = Inr (s, 0) \<and> st_service s = None"

definition with_crc :: "staged_transaction \<Rightarrow> staged_transaction" where
  "with_crc s = s\<lparr>st_result_crc := crc32 (result_bytes s)\<rparr>"

definition decided_reset :: "staged_transaction \<Rightarrow> endpoint" where
  "decided_reset s = ep_reset\<lparr>ep_staged := Some (with_crc s), ep_state := RESULT_PENDING\<rparr>"

definition retire_payload :: "staged_transaction \<Rightarrow> bytes" where
  "retire_payload s = to_le 4 (st_txn_id s) @ to_le 4 1 @ to_le 4 (st_next_pc s) @ to_le 4 (st_next_fp s)"

lemma retire_dispatched:
  assumes s: "decided s" and e: "ep_state e = RESULT_PENDING" "ep_staged e = Some s" "ep_retire_seq e = 0"
  shows "ep_dispatch (retire_frame s) e = (Inr (), responded RETIRED (retire_payload s)
     (e\<lparr>ep_committed_pc := st_next_pc s, ep_committed_fp := st_next_fp s, ep_state_valid := True, ep_retire_seq := 1,
        ep_state := IDLE, ep_staged := None, ep_done := True\<rparr>))"
proof -
  define d where "d = (DecodedRequest OP_RETIRE)\<lparr>dq_txn_id := st_txn_id s, dq_result_crc := crc32 (result_bytes s)\<rparr>"
  have f: "fits 32 (st_txn_id s)" "fits 32 (st_next_pc s)" "fits 32 (st_next_fp s)" "fits 32 (1 :: int)"
    using s by (simp_all add: decided_def staged_ok_def) (simp add: fits_def)
  then have wf: "dq_wf d"
    by (simp add: d_def dq_wf_def dq_defaults_def dq_fields_ok_def dq_lengths_def DecodedRequest_def INSTRUCTION_OPCODES_def)
  have p: "payload_of d = to_le 4 (st_txn_id s) @ to_le 4 (crc32 (result_bytes s))" "dq_opcode d = OP_RETIRE"
    by (simp_all add: d_def payload_of_def DecodedRequest_def)
  have "ep_dispatch (retire_frame s) e = dispatch_payload (dq_opcode d) (payload_of d) e"
    unfolding retire_frame_def p by (rule ep_dispatch_request) simp
  also have "\<dots> = catchM (handle d e) (\<lambda>x. case x of ProtocolFault st i \<Rightarrow> Some (ep_fault st (dq_txn_id d) i) | _ \<Rightarrow> None)"
    by (rule dispatch_payload_decoded [OF wf])
  also have "handle d e = (Inr (), responded RETIRED (retire_payload s)
     (e\<lparr>ep_committed_pc := st_next_pc s, ep_committed_fp := st_next_fp s, ep_state_valid := True, ep_retire_seq := 1,
        ep_state := IDLE, ep_staged := None, ep_done := True\<rparr>))"
    using f e s by (simp add: handle_def handle_retire_def d_def DecodedRequest_def Let_def prim_fits liftM_def retire_payload_def ep_emit_ok decided_def)
  finally show ?thesis by (simp add: catchM_def)
qed


lemma request_dispatch:
  assumes "dq_wf r" "handle r e = (q, e')"
  shows "ep_dispatch (request_bytes (dq_opcode r) (payload_of r)) e =
    (case q of Inl (ProtocolFault s i) \<Rightarrow> ep_fault s (dq_txn_id r) i e' | _ \<Rightarrow> (q, e'))"
proof -
  have "length (payload_of r) = REQUEST_PAYLOAD_BYTES (dq_opcode r)"
    using assms(1) by (simp add: payload_of_length dq_wf_def)
  then show ?thesis
    using ep_dispatch_request dispatch_payload_decoded [OF assms(1)] assms(2) by (auto simp: catchM_def split: sum.split exn.split)
qed

lemma instruction_handled: "dq_opcode r \<in> set INSTRUCTION_OPCODES \<Longrightarrow> handle r = handle_instruction r"
  by (auto simp: handle_def INSTRUCTION_OPCODES_def)

lemma core_inv_reset: "core_inv ep_reset"
  using ep_inv_reset by (simp add: ep_inv_def)

lemma decides_dispatched:
  assumes r: "dq_wf r" "dq_opcode r \<in> set INSTRUCTION_OPCODES" "decides r s"
  shows "ep_dispatch (request_bytes (dq_opcode r) (payload_of r)) ep_reset = (Inr (), responded OK (result_bytes s) (decided_reset s))"
    "decided (with_crc s)" "result_bytes (with_crc s) = result_bytes s"
proof -
  have d: "dq_profile r = DEFAULT_PROFILE" "dq_pc r < 2 ^ 16" "dq_fp r < 2 ^ 16" "execute r (fresh_staged r) 0 = Inr (s, 0)" "st_service s = None"
    using r(3) by (simp_all add: decides_def)
  have "dq_opcode r \<noteq> OP_BLAKE3_REQUEST" using execute_Inr(2) [OF d(4) r(1,2) d(2,3) order_refl] by auto
  then have ok: "staged_ok s" "st_next_pc s \<le> 2 ^ 16" "st_next_fp s < 2 ^ 16"
    using execute_Inr(3) [OF d(4) r(1,2) d(2,3) order_refl] by simp_all
  show "decided (with_crc s)" unfolding with_crc_def by (rule decided_crc [OF ok(1) d(5) ok(2,3)])
  show "result_bytes (with_crc s) = result_bytes s" by (simp add: with_crc_def result_bytes_def)
  have "handle r ep_reset = finish_transaction s (ep_reset\<lparr>ep_service_seq := 0, ep_staged := Some s\<rparr>)"
    using d by (simp add: instruction_handled [OF r(2)] handle_instruction_def ep_reset_def wire_constants liftM_def fresh_staged_def)
  then have "handle r ep_reset = (Inr (), responded OK (result_bytes s) (decided_reset s))"
    by (simp add: finish_transaction_ok [OF ok(1)] decided_reset_def with_crc_def ep_reset_def)
  from request_dispatch [OF r(1) this] show "ep_dispatch (request_bytes (dq_opcode r) (payload_of r)) ep_reset =
    (Inr (), responded OK (result_bytes s) (decided_reset s))" by simp
qed

lemma undecided_dispatched:
  assumes r: "dq_wf r" "dq_opcode r \<in> set INSTRUCTION_OPCODES" "\<nexists>s. decides r s"
    and d: "ep_dispatch (request_bytes (dq_opcode r) (payload_of r)) ep_reset = (Inr (), e1)"
  shows "ep_last_status e1 \<noteq> OK"
proof -
  obtain q e' where h: "handle_instruction r ep_reset = (q, e')" by force
  note hd = handle_instruction_handled [OF core_inv_reset r(1,2) h]
  have t: "fits 32 (dq_txn_id r)" using r(1) by (simp add: dq_wf_def dq_fields_ok_def)
  from h have h': "handle r ep_reset = (q, e')" by (simp add: instruction_handled [OF r(2)])
  show ?thesis
  proof (cases q)
    case (Inl x)
    then obtain st i where x: "x = ProtocolFault st i" "is_fault st" "fits 8 i" using hd by (auto simp: handled_def fits_def)
    have "\<not> is_fault OK" by (simp add: is_fault_def)
    then show ?thesis using d request_dispatch [OF r(1) h'] Inl x t by (auto simp: ep_fault_ok)
  next
    case (Inr u)
    then have run: "dq_profile r = DEFAULT_PROFILE" "dq_pc r < 2 ^ 16" "dq_fp r < 2 ^ 16"
      using h by (auto simp: handle_instruction_def wire_constants ep_reset_def split: if_splits)
    then have h2: "thenM (liftM (execute r (fresh_staged r) 0) ep_reset) (\<lambda>(staged, service_seq) e.
          let e = e\<lparr>ep_service_seq := service_seq, ep_staged := Some staged\<rparr> in
          case st_service staged of
            Some service \<Rightarrow>
              thenM (liftM (encode_service_request service (st_txn_id staged)) (e\<lparr>ep_state := SERVICE_PENDING\<rparr>))
                (\<lambda>payload e. ep_emit (ResponseFrame SERVICE_REQUIRED payload) e)
          | None \<Rightarrow> finish_transaction staged e) = (Inr u, e')"
      using h Inr by (simp add: handle_instruction_def wire_constants ep_reset_def fresh_staged_def)
    then obtain s m where x: "execute r (fresh_staged r) 0 = Inr (s, m)"
      by (cases "execute r (fresh_staged r) 0") (auto simp: liftM_def)
    have "st_service s \<noteq> None"
    proof
      assume n: "st_service s = None"
      then have "dq_opcode r \<noteq> OP_BLAKE3_REQUEST"
        using execute_Inr(3) [OF x r(1,2) run(2,3) order_refl] by (auto simp: suspended_def)
      then have "m = 0" using execute_Inr(2) [OF x r(1,2) run(2,3) order_refl] by simp
      with run x n r(3) show False by (auto simp: decides_def)
    qed
    then obtain sv p where "encode_service_request sv (st_txn_id s) = Inr p"
        "ep_emit (ResponseFrame SERVICE_REQUIRED p) (ep_reset\<lparr>ep_service_seq := m, ep_staged := Some s, ep_state := SERVICE_PENDING\<rparr>) = (Inr u, e')"
      using h2 x by (auto simp: liftM_def Let_def thenM_def split: sum.splits)
    then have "ep_last_status e' = SERVICE_REQUIRED"
      by (auto simp: ep_emit_def thenM_def liftM_def Let_def ResponseFrame_def split: sum.splits)
    then show ?thesis using d request_dispatch [OF r(1) h'] Inr by simp
  qed
qed

lemma quiet_reset: "quiet ep_reset"
  by (simp add: quiet_def ep_reset_def)

lemma upstream_total: "\<exists>up. upstream case_id = Inr up"
  by (simp add: upstream_def UPSTREAM_EXPECTED_def UPSTREAM_TRANSITIONS_def)

definition upstream_of :: "string \<Rightarrow> upstream_entry" where
  "upstream_of case_id = (case upstream case_id of Inr up \<Rightarrow> up | Inl _ \<Rightarrow> ProtocolOnly)"

lemma upstream_of: "upstream case_id = Inr (upstream_of case_id)"
  using upstream_total [of case_id] by (auto simp: upstream_of_def)

definition retired_entry :: "staged_transaction \<Rightarrow> retire_entry" where
  "retired_entry s =
     \<lparr>re_attempted = True, re_request = retire_frame s, re_response = response_bytes RETIRED (retire_payload s),
      re_status = Some RETIRED, re_payload = retire_payload s, re_cycles = 43, re_txn_id = Some (st_txn_id s),
      re_result_crc32 = Some (crc32 (result_bytes s)), re_retire_seq = 1, re_committed_pc = st_next_pc s,
      re_committed_fp = st_next_fp s, re_done_pulse = True\<rparr>"

lemma length_response_bytes: "length (response_bytes s p) = 9 + length p"
  by (simp add: response_bytes_def response_body_def)

lemma length_request_bytes: "length (request_bytes op p) = 10 + length p"
  by (simp add: request_bytes_def request_body_def)

lemma retire_semantic_ok:
  assumes s: "decided s" and e: "quiet e" "ep_state e = RESULT_PENDING" "ep_staged e = Some s" "ep_retire_seq e = 0"
  shows "retire_semantic s e = Inr (retired_entry s, e\<lparr>ep_committed_pc := st_next_pc s, ep_committed_fp := st_next_fp s,
     ep_state_valid := True, ep_retire_seq := 1, ep_state := IDLE, ep_staged := None, ep_last_status := RETIRED\<rparr>)"
proof -
  define e1 where "e1 = e\<lparr>ep_committed_pc := st_next_pc s, ep_committed_fp := st_next_fp s, ep_state_valid := True,
     ep_retire_seq := 1, ep_state := IDLE, ep_staged := None, ep_done := True\<rparr>"
  have d: "ep_dispatch (retire_frame s) e = (Inr (), responded RETIRED (retire_payload s) e1)"
    unfolding e1_def by (rule retire_dispatched [OF s e(2-4)])
  have w: "well_framed (retire_frame s)"
    using retire_frame_shape [of s] by (simp add: well_framed_def) (simp add: retire_frame_def request_bytes_def request_body_def)
  have p: "length (retire_payload s) = 16" by (simp add: retire_payload_def)
  have t: "ep_tx (responded RETIRED (retire_payload s) e1) = response_bytes RETIRED (retire_payload s)"
    using e(1) by (simp add: e1_def quiet_def)
  have "ep_tx (responded RETIRED (retire_payload s) e1) \<noteq> []" "length (ep_tx (responded RETIRED (retire_payload s) e1)) \<le> 1000"
    unfolding t length_response_bytes p by (auto dest: arg_cong [of _ _ length] simp: length_response_bytes)
  from drive_retire_ok [OF w e(1) d this]
  have dr: "drive_retire e (retire_frame s) = Inr ((response_bytes RETIRED (retire_payload s), 43, True),
      (responded RETIRED (retire_payload s) e1)\<lparr>ep_tx := [], ep_done := False\<rparr>)"
    using retire_frame_shape [of s] e(1) by (simp add: t length_response_bytes p e1_def quiet_def)
  have f: "fits 32 (st_txn_id s)" "fits 32 (st_result_crc s)" using s by (simp_all add: decided_def staged_ok_def)
  have c: "st_result_crc s = crc32 (result_bytes s)" using s by (simp add: decided_def)
  have b: "bindE (build_retire (st_txn_id s) (st_result_crc s)) encode_request = Inr (retire_frame s)"
    using f by (simp add: build_retire_def build_frame_def prim_fits encode_request_eq retire_frame_def c)
  have q: "decode_response (response_bytes RETIRED (retire_payload s)) = Inr (ResponseFrame RETIRED (retire_payload s))"
    by (rule decode_response_bytes) (simp add: p)
  have x: "\<not> is_fault RETIRED" by (simp add: is_fault_def)
  have z: "(responded RETIRED (retire_payload s) e1)\<lparr>ep_tx := [], ep_done := False\<rparr> = e\<lparr>ep_committed_pc := st_next_pc s,
     ep_committed_fp := st_next_fp s, ep_state_valid := True, ep_retire_seq := 1, ep_state := IDLE, ep_staged := None, ep_last_status := RETIRED\<rparr>"
    using e(1) x by (cases e) (simp add: responded_def e1_def quiet_def)
  show ?thesis
    unfolding retire_semantic_def b dr z
    by (simp add: dr z q c) (simp add: retired_entry_def ResponseFrame_def)
qed

definition committed_case :: "string \<Rightarrow> string \<Rightarrow> string list \<Rightarrow> decoded_request \<Rightarrow> staged_transaction \<Rightarrow> corpus_case" where
  "committed_case case_id description coverage r s =
     \<lparr>cc_case_id = case_id, cc_description = description, cc_coverage = coverage,
      cc_request = request_bytes (dq_opcode r) (payload_of r), cc_response = response_bytes OK (result_bytes s),
      cc_request_cycles = Some (int (length (payload_of r)) + 19 + int (length (result_bytes s))),
      cc_initial_state = state_of ep_reset, cc_pre_action_state = None,
      cc_staged = Some (staged_of (with_crc s) (result_bytes s)),
      cc_final_state = (state_of ep_reset)\<lparr>cs_committed_pc := st_next_pc s, cs_committed_fp := st_next_fp s,
         cs_state_valid := True, cs_retire_seq := 1, cs_last_status := RETIRED\<rparr>,
      cc_retire = retired_entry (with_crc s), cc_fault = None, cc_lane = None, cc_upstream = upstream_of case_id\<rparr>"

lemma wf_frame:
  assumes "dq_wf r"
  shows "length (payload_of r) < 2 ^ 16" "well_framed (request_bytes (dq_opcode r) (payload_of r))"
proof -
  have l: "length (payload_of r) = REQUEST_PAYLOAD_BYTES (dq_opcode r)" using assms by (simp add: payload_of_length dq_wf_def)
  show "length (payload_of r) < 2 ^ 16" using payload_bytes_le [of "dq_opcode r"] l by (simp add: MAX_PAYLOAD_BYTES_def)
  show "well_framed (request_bytes (dq_opcode r) (payload_of r))" by (rule request_well_framed [OF l])
qed

lemma semantic_decided:
  assumes r: "dq_wf r" "dq_opcode r \<in> set INSTRUCTION_OPCODES" "decides r s"
  shows "semantic case_id description coverage (RequestFrame (dq_opcode r) (payload_of r)) =
    Inr (committed_case case_id description coverage r s)"
proof -
  note d = decides_dispatched [OF r]
  let ?f = "request_bytes (dq_opcode r) (payload_of r)"
  define e where "e = (responded OK (result_bytes s) (decided_reset s))\<lparr>ep_tx := [], ep_done := False\<rparr>"
  have ok: "staged_ok (with_crc s)" using d(2) by (simp add: decided_def)
  have l: "length (result_bytes s) \<le> 122" using result_bytes_small [OF ok] d(3) by simp
  have t: "ep_tx (responded OK (result_bytes s) (decided_reset s)) = response_bytes OK (result_bytes s)"
    by (simp add: decided_reset_def ep_reset_def)
  have "ep_tx (responded OK (result_bytes s) (decided_reset s)) \<noteq> []" "length (ep_tx (responded OK (result_bytes s) (decided_reset s))) \<le> 1000"
    unfolding t length_response_bytes using l by (auto dest: arg_cong [of _ _ length] simp: length_response_bytes)
  from drive_plain [OF wf_frame(2) [OF r(1)] quiet_reset d(1) this]
  have dr: "drive ?f None None 100000 ep_reset = (Inr (response_bytes OK (result_bytes s), int (length (payload_of r)) + 19 + int (length (result_bytes s))), e)"
    by (simp add: t length_response_bytes e_def length_request_bytes del: responded_simps)
  have x: "\<not> is_fault OK" by (simp add: is_fault_def)
  have e': "e = ep_reset\<lparr>ep_staged := Some (with_crc s), ep_state := RESULT_PENDING, ep_last_status := OK\<rparr>"
    using x by (simp add: e_def responded_def decided_reset_def ep_reset_def)
  have q: "decode_response (response_bytes OK (result_bytes s)) = Inr (ResponseFrame OK (result_bytes s))"
    by (rule decode_response_bytes) (use l in simp)
  have "retire_semantic (with_crc s) e = Inr (retired_entry (with_crc s), e\<lparr>ep_committed_pc := st_next_pc (with_crc s),
     ep_committed_fp := st_next_fp (with_crc s), ep_state_valid := True, ep_retire_seq := 1, ep_state := IDLE, ep_staged := None, ep_last_status := RETIRED\<rparr>)"
    by (rule retire_semantic_ok [OF d(2)]) (simp_all add: e' quiet_def ep_reset_def)
  then show ?thesis
    using d(3) by (simp add: semantic_def encode_request_eq [OF wf_frame(1) [OF r(1)]] dr q result_payload_ok [OF ok] upstream_of e')
      (simp add: committed_case_def state_of_def ep_reset_def ResponseFrame_def with_crc_def)
qed

lemma semantic_undecided:
  assumes r: "dq_wf r" "dq_opcode r \<in> set INSTRUCTION_OPCODES" "\<nexists>s. decides r s"
  shows "semantic case_id description coverage (RequestFrame (dq_opcode r) (payload_of r)) = Inl (CorpusRaised AssertionError)"
proof -
  let ?f = "request_bytes (dq_opcode r) (payload_of r)"
  have c: "core_inv ep_reset" "ep_retire_seq ep_reset < 2 ^ 32 - 1" using core_inv_reset by (simp_all add: ep_reset_def)
  obtain e1 p where e1: "ep_dispatch ?f ep_reset = (Inr (), e1)" "length p \<le> 122" "ep_tx e1 = response_bytes (ep_last_status e1) p"
    using ep_dispatch_responds [OF c, of ?f] by (auto simp: responds_def ep_reset_def)
  have "ep_tx e1 \<noteq> []" "length (ep_tx e1) \<le> 1000"
    unfolding e1(3) length_response_bytes using e1(2) by (auto dest: arg_cong [of _ _ length] simp: length_response_bytes)
  note dr = drive_plain [OF wf_frame(2) [OF r(1)] quiet_reset e1(1) this]
  have q: "decode_response (ep_tx e1) = Inr (ResponseFrame (ep_last_status e1) p)"
    unfolding e1(3) by (rule decode_response_bytes) (use e1(2) in simp)
  show ?thesis
    using undecided_dispatched [OF r e1(1)]
    by (simp add: semantic_def encode_request_eq [OF wf_frame(1) [OF r(1)]] dr q ResponseFrame_def split: option.split)
qed

end
