(* ===== verification/Corpus_Cases.thy ===== *)
theory Corpus_Cases
  imports Corpus_Semantic
begin

text \<open>
The cases of the conformance corpus: the transition of each scalar instruction, the refusal of
each malformed frame, and the three cases of the lifecycle of a lane.
\<close>

section \<open>The instructions of the corpus\<close>

text \<open>A request with the fields of an instruction, and the transition the endpoint answers it with.\<close>

definition asked :: "opcode \<Rightarrow> int \<Rightarrow> int \<Rightarrow> int \<Rightarrow> int list \<Rightarrow> cell list \<Rightarrow> decoded_request" where
  "asked op txn_id pc fp offsets cells =
     (DecodedRequest op)\<lparr>dq_txn_id := txn_id, dq_pc := pc, dq_fp := fp, dq_profile := INTERPRETER_COMPAT,
        dq_offsets := offsets, dq_cells := cells\<rparr>"

definition answered :: "decoded_request \<Rightarrow> int \<Rightarrow> int \<Rightarrow> (int \<times> int) list \<Rightarrow> (int \<times> int) list \<Rightarrow> int list \<Rightarrow> int \<Rightarrow> staged_transaction" where
  "answered r next_pc next_fp writes deferred accesses cycles =
     (fresh_staged r)\<lparr>st_next_pc := next_pc, st_next_fp := next_fp, st_writes := map (\<lambda>(a, v). Write a v) writes,
        st_deferred := map (\<lambda>(t, l). DeferredEquality t l) deferred, st_accesses := accesses, st_execute_cycles := cycles\<rparr>"

definition set_asked :: "int \<Rightarrow> int \<Rightarrow> decoded_request" where
  "set_asked txn_id constant = (asked OP_SET_CONSTANT txn_id 0 0 [2] [ABSENT])\<lparr>dq_constant := constant\<rparr>"

definition xor_asked :: "int \<Rightarrow> int list \<Rightarrow> cell list \<Rightarrow> decoded_request" where
  "xor_asked txn_id offsets cells = asked OP_XOR txn_id 0 0 offsets cells"

definition mul_asked :: decoded_request where
  "mul_asked = asked OP_MUL_NATIVE 3 0 0 [0, 1, 2] [Cell True 0x53, Cell True 0xCA, ABSENT]"

definition deref_asked :: "opcode \<Rightarrow> int \<Rightarrow> int \<Rightarrow> int \<Rightarrow> int \<Rightarrow> cell \<Rightarrow> cell \<Rightarrow> decoded_request" where
  "deref_asked op txn_id pc fp pointer target local =
     (asked op txn_id pc fp [0, 0, 1] [Cell True pointer, target, local])\<lparr>dq_base := 8\<rparr>"

definition stay_asked :: decoded_request where
  "stay_asked = asked OP_JUMP 9 0 0 [1, 0, 0] [Cell True 0, Cell True 1, Cell True 1]"

definition jump_asked :: "int \<Rightarrow> decoded_request" where
  "jump_asked witness = (asked OP_JUMP 10 1 0 [0, 1, 2] [Cell True 0x53, Cell True 8, Cell True 1])
     \<lparr>dq_taken := True, dq_dest_pc := 3, dq_proposed_inverse := Cell True witness\<rparr>"

lemmas asked_defs = asked_def set_asked_def xor_asked_def mul_asked_def deref_asked_def stay_asked_def jump_asked_def
  DecodedRequest_def

lemmas execute_defs = decides_def answered_def fresh_staged_def StagedTransaction_def execute_def execute_binary_def back_solve_def
  operands_def execute_set_def execute_deref_def deref_cell_def execute_jump_def verify_index_def nthE_def checked_add_def
  fr_supply_def fr_write_once_def fr_read_def fr_present_def fr_cell_def Frame_def ABSENT_def Cell_def Write_def DeferredEquality_def
  ASSUMPTIONS_def encode_index_def DEFAULT_PROFILE_def wire_constants

lemma field_encode_pow: "n < 2 ^ 16 \<Longrightarrow> field_encode (int n) = Inr ((field_xtime ^^ n) 1)"
  by (simp add: field_encode_gf xtime_pow_gf)

lemma xtime_pows: "(field_xtime ^^ 0) 1 = 1" "(field_xtime ^^ 2) 1 = 4" "(field_xtime ^^ 3) 1 = 8" "(field_xtime ^^ 4) 1 = 0x10" "(field_xtime ^^ 8) 1 = 0x100"
  by code_simp+

lemma corpus_powers: "field_encode 0 = Inr 1" "field_encode 2 = Inr 4" "field_encode 3 = Inr 8" "field_encode 4 = Inr 0x10" "field_encode 8 = Inr 0x100"
  using field_encode_pow [of 0] field_encode_pow [of 2] field_encode_pow [of 3] field_encode_pow [of 4] field_encode_pow [of 8]
  by (simp_all only: xtime_pows) simp_all

lemma corpus_product: "field_mul 0x53 0xCA = 0x3F7E"
  by code_simp

lemma decides_set: "decides (set_asked t k) (answered (set_asked t k) 1 0 [(2, k)] [] [2] 0)"
  by (simp add: execute_defs asked_defs)

lemma decides_mul: "decides mul_asked (answered mul_asked 1 0 [(2, 0x3F7E)] [] [0, 1, 2] 128)"
  by (simp add: execute_defs asked_defs corpus_product)

lemma decides_xor:
  "decides (xor_asked 2 [0, 1, 2] [Cell True 0xDEAD, Cell True 0xBEEF, ABSENT])
     (answered (xor_asked 2 [0, 1, 2] [Cell True 0xDEAD, Cell True 0xBEEF, ABSENT]) 1 0 [(2, 0x6042)] [] [0, 1, 2] 1)"
  "decides (xor_asked 4 [2, 0, 1] [ABSENT, Cell True 0x1111, Cell True 0x3333])
     (answered (xor_asked 4 [2, 0, 1] [ABSENT, Cell True 0x1111, Cell True 0x3333]) 1 0 [(2, 0x2222)] [] [2, 0, 1] 2)"
  "decides (xor_asked 5 [0, 2, 1] [Cell True 0x1111, ABSENT, Cell True 0x3333])
     (answered (xor_asked 5 [0, 2, 1] [Cell True 0x1111, ABSENT, Cell True 0x3333]) 1 0 [(2, 0x2222)] [] [0, 2, 1] 2)"
  by (simp_all add: execute_defs asked_defs)

lemma decides_stay: "decides stay_asked (answered stay_asked 1 0 [] [] [1, 0, 0] 1)"
  by (simp add: execute_defs asked_defs)

lemma decides_deref_cell:
  "decides (deref_asked OP_DEREF_CELL 6 0 0 0x100 ABSENT (Cell True 0x77))
     (answered (deref_asked OP_DEREF_CELL 6 0 0 0x100 ABSENT (Cell True 0x77)) 1 0 [(8, 0x77)] [] [0, 8, 1] 2064)"
  "decides (deref_asked OP_DEREF_CELL 11 0 0 0x100 ABSENT ABSENT)
     (answered (deref_asked OP_DEREF_CELL 11 0 0 0x100 ABSENT ABSENT) 1 0 [] [(8, 1)] [0, 8, 1] 2064)"
  by (simp_all add: execute_defs asked_defs corpus_powers)

lemma decides_deref_index:
  "decides (deref_asked OP_DEREF_PC 7 0 0 0x100 ABSENT (Cell True 0))
     (answered (deref_asked OP_DEREF_PC 7 0 0 0x100 ABSENT (Cell True 0)) 1 0 [(8, 4)] [] [0, 8, 1] 4128)"
  "decides (deref_asked OP_DEREF_FP 8 4 4 0x100 ABSENT (Cell True 1))
     (answered (deref_asked OP_DEREF_FP 8 4 4 0x100 ABSENT (Cell True 1)) 5 4 [(8, 0x10)] [] [4, 8, 5] 4128)"
  by (simp_all add: execute_defs asked_defs corpus_powers)

lemma decides_jump:
  assumes "field_mul 0x53 w = 1"
  shows "decides (jump_asked w) (answered (jump_asked w) 3 0 [] [] [0, 1, 2] 4257)"
  using assms by (simp add: execute_defs asked_defs corpus_powers)

text \<open>The inverse of the generator is that of the reference machine.\<close>

lemma corpus_inverse_loop_eq: "fits 128 r \<Longrightarrow> fits 128 b \<Longrightarrow> corpus_inverse_loop r b e = inverse_while r b e"
proof (induction r b e rule: corpus_inverse_loop.induct)
  case (1 r b e)
  then show ?case
    by (subst corpus_inverse_loop.simps, subst inverse_while.simps) (simp add: or_multiply_eq odd_iff_mod_2_eq_one)
qed

lemma corpus_inverse_gf: "corpus_inverse 0x53 = of_gf (inverse (to_gf 0x53))"
proof -
  have v: "fits 128 (0x53 :: int)" "fits 128 (1 :: int)" by (simp_all add: fits_def)
  then have "corpus_inverse 0x53 = or_inverse 0x53"
    by (simp add: corpus_inverse_def corpus_inverse_loop_eq or_inverse_def)
  also have "\<dots> = of_gf (inverse (to_gf 0x53))" by (rule or_inverse_gf [OF v(1)]) simp
  finally show ?thesis .
qed

lemma corpus_inverse_accepted: "field_mul 0x53 (corpus_inverse 0x53) = 1"
proof -
  have "to_gf 0x53 \<noteq> 0" using to_gf_inject [of "0x53" 0] by (simp add: fits_def)
  then have "to_gf 0x53 * inverse (to_gf 0x53) = 1" by simp
  then show ?thesis by (simp add: corpus_inverse_gf field_mul_gf)
qed

section \<open>The cases of the instructions\<close>

lemma asked_wf:
  "fits 32 t \<Longrightarrow> fits 128 k \<Longrightarrow> dq_wf (set_asked t k)" "dq_wf mul_asked" "dq_wf stay_asked"
  "fits 32 t \<Longrightarrow> length offsets = 3 \<Longrightarrow> \<forall>v\<in>set offsets. fits 32 v \<Longrightarrow> length cells = 3 \<Longrightarrow> \<forall>c\<in>set cells. cell_ok c \<Longrightarrow> dq_wf (xor_asked t offsets cells)"
  "op \<in> {OP_DEREF_CELL, OP_DEREF_PC, OP_DEREF_FP} \<Longrightarrow> fits 32 t \<Longrightarrow> fits 32 pc \<Longrightarrow> fits 32 fp \<Longrightarrow> fits 128 p \<Longrightarrow> cell_ok a \<Longrightarrow> cell_ok b \<Longrightarrow>
     dq_wf (deref_asked op t pc fp p a b)"
  "fits 128 w \<Longrightarrow> dq_wf (jump_asked w)"
  by (auto simp: asked_defs dq_wf_def dq_defaults_def dq_fields_ok_def dq_lengths_def INSTRUCTION_OPCODES_def fits_def cell_ok_def Cell_def ABSENT_def)

lemma asked_built:
  "build_set_constant t 0 0 INTERPRETER_COMPAT 2 k ABSENT = rebuild (set_asked t k)"
  "build_binary_op OP_XOR t 0 0 INTERPRETER_COMPAT offsets cells ABSENT = rebuild (xor_asked t offsets cells)"
  "build_binary_op OP_MUL_NATIVE 3 0 0 INTERPRETER_COMPAT [0, 1, 2] [Cell True 0x53, Cell True 0xCA, ABSENT] ABSENT = rebuild mul_asked"
  "build_deref OP_DEREF_CELL t pc fp INTERPRETER_COMPAT 0 0 1 (Cell True p) 8 a b = rebuild (deref_asked OP_DEREF_CELL t pc fp p a b)"
  "build_deref OP_DEREF_PC t pc fp INTERPRETER_COMPAT 0 0 1 (Cell True p) 8 a b = rebuild (deref_asked OP_DEREF_PC t pc fp p a b)"
  "build_deref OP_DEREF_FP t pc fp INTERPRETER_COMPAT 0 0 1 (Cell True p) 8 a b = rebuild (deref_asked OP_DEREF_FP t pc fp p a b)"
  "build_jump 9 0 0 INTERPRETER_COMPAT [1, 0, 0] [Cell True 0, Cell True 1, Cell True 1] False 0 0 ABSENT = rebuild stay_asked"
  "build_jump 10 1 0 INTERPRETER_COMPAT [0, 1, 2] [Cell True 0x53, Cell True 8, Cell True 1] True 3 0 (Cell True w) = rebuild (jump_asked w)"
  by (auto simp: rebuild_def asked_defs)

lemma semantic_case_decided:
  assumes "dq_wf r" "dq_opcode r \<in> set INSTRUCTION_OPCODES" "decides r s"
  shows "semantic_case case_id description coverage (rebuild r) = Inr [committed_case case_id description coverage r s]"
  by (simp add: semantic_case_def one_case_def rebuild_payload [OF assms(1)] semantic_decided [OF assms])

text \<open>What a case must show when the upstream interpreter has executed the same instruction.\<close>

definition upholds :: "corpus_case \<Rightarrow> bool" where
  "upholds c \<longleftrightarrow> (case cc_upstream c of
       ProtocolOnly \<Rightarrow> True
     | ProgramExecute cycles mem_used memory next_pc next_fp writes \<Rightarrow>
         map_option sr_writes (cc_staged c) = Some writes \<and> re_done_pulse (cc_retire c) \<and>
         cs_committed_pc (cc_final_state c) = next_pc \<and> cs_committed_fp (cc_final_state c) = next_fp)"

lemma committed_upholds:
  "upstream_of case_id = ProtocolOnly \<or> (\<exists>cycles used memory. upstream_of case_id =
       ProgramExecute cycles used memory (st_next_pc s) (st_next_fp s) (map (\<lambda>w. (wr_address w, wr_value w)) (st_writes s))) \<Longrightarrow>
     upholds (committed_case case_id description coverage r s)"
  by (auto simp: upholds_def committed_case_def retired_entry_def staged_of_def with_crc_def)

lemma committed_case_simps [simp]:
  "cc_case_id (committed_case case_id description coverage r s) = case_id" "cc_fault (committed_case case_id description coverage r s) = None"
  by (simp_all add: committed_case_def)

lemma answered_simps [simp]:
  "st_next_pc (answered r pc fp ws ds as n) = pc" "st_next_fp (answered r pc fp ws ds as n) = fp"
  "map (\<lambda>w. (wr_address w, wr_value w)) (st_writes (answered r pc fp ws ds as n)) = ws"
  by (simp_all add: answered_def Write_def o_def split_beta)

lemma asked_opcodes:
  "dq_opcode (set_asked t k) = OP_SET_CONSTANT" "dq_opcode mul_asked = OP_MUL_NATIVE" "dq_opcode (xor_asked t os cs) = OP_XOR"
  "dq_opcode stay_asked = OP_JUMP" "dq_opcode (jump_asked w) = OP_JUMP" "dq_opcode (deref_asked op t pc fp p a b) = op"
  by (simp_all add: asked_defs)

text \<open>A list of cases and what they show.\<close>

definition shows_cases :: "corpus_exn + corpus_case list \<Rightarrow> string list \<Rightarrow> bool" where
  "shows_cases m ids \<longleftrightarrow> (\<exists>cases. m = Inr cases \<and> map cc_case_id cases = ids \<and> (\<forall>c\<in>set cases. upholds c \<and> cc_fault c = None))"

lemma shows_semantic:
  assumes "dq_wf r" "dq_opcode r \<in> set INSTRUCTION_OPCODES" "decides r s"
    and "upstream_of case_id = ProtocolOnly \<or> (\<exists>cycles used memory. upstream_of case_id =
       ProgramExecute cycles used memory (st_next_pc s) (st_next_fp s) (map (\<lambda>w. (wr_address w, wr_value w)) (st_writes s)))"
  shows "shows_cases (semantic_case case_id description coverage (rebuild r)) [case_id]"
  unfolding semantic_case_decided [OF assms(1-3)] shows_cases_def using committed_upholds [OF assms(4)] by simp

lemma shows_catE: "list_all2 (\<lambda>m i. shows_cases m [i]) ms ids \<Longrightarrow> shows_cases (catE ms) ids"
proof (induction ms ids rule: list_all2_induct)
  case Nil
  then show ?case by (simp add: shows_cases_def)
next
  case (Cons m ms i ids)
  then show ?case by (fastforce simp: shows_cases_def)
qed

lemma upstream_entries:
  "upstream_of ''scalar.set.forward'' = ProgramExecute 1 3 [5, 6, 0x1234] 1 0 [(2, 0x1234)]"
  "upstream_of ''scalar.xor.forward'' = ProgramExecute 1 3 [0xDEAD, 0xBEEF, 0x6042] 1 0 [(2, 0x6042)]"
  "upstream_of ''scalar.mul.forward'' = ProgramExecute 1 3 [0x53, 0xCA, 0x3F7E] 1 0 [(2, 0x3F7E)]"
  "upstream_of ''scalar.xor.backsolve_a'' = ProgramExecute 1 3 [0x1111, 0x3333, 0x2222] 1 0 [(2, 0x2222)]"
  "upstream_of ''scalar.xor.backsolve_b'' = ProgramExecute 1 3 [0x1111, 0x3333, 0x2222] 1 0 [(2, 0x2222)]"
  "upstream_of ''scalar.deref.cell'' = ProgramExecute 1 9 [0x100, 0x77, 0, 0, 0, 0, 0, 0, 0x77] 1 0 [(8, 0x77)]"
  "upstream_of ''scalar.deref.pc'' = ProgramExecute 1 9 [0x100, 0, 0, 0, 0, 0, 0, 0, 4] 1 0 [(8, 4)]"
  "upstream_of ''scalar.deref.fp'' = ProgramExecute 6 12 [0, 0, 0, 0, 0x100, 1, 0x80, 1, 0x10, 0, 0, 0] 5 4 [(8, 0x10)]"
  "upstream_of ''scalar.jump.not_taken'' = ProgramExecute 1 2 [1, 0] 1 0 []"
  "upstream_of ''scalar.jump.taken_nontrivial_inverse'' = ProgramExecute 2 4 [0x53, 8, 1, 0] 3 0 []"
  "upstream_of ''protocol.deref.cell.deferred'' = ProtocolOnly"
  by code_simp+

text \<open>The scalar cases in their order.\<close>

definition scalar_ids :: "string list" where
  "scalar_ids =
     [''scalar.set.forward'', ''scalar.xor.forward'', ''scalar.mul.forward'', ''scalar.xor.backsolve_a'', ''scalar.xor.backsolve_b'',
      ''scalar.deref.cell'', ''scalar.deref.pc'', ''scalar.deref.fp'', ''scalar.jump.not_taken'',
      ''scalar.jump.taken_nontrivial_inverse'', ''protocol.deref.cell.deferred'']"

lemma scalar_cases_shown:
  "shows_cases (catE (binary_cases @ deref_cases 0x100 @ jump_cases @ [deferred_case 0x100])) scalar_ids"
proof -
  have w: "fits 128 (corpus_inverse 0x53)" by (simp add: corpus_inverse_gf)
  show ?thesis
    unfolding scalar_ids_def binary_cases_def deref_cases_def jump_cases_def deferred_case_def corpus_powers raises_simps bindE_simps asked_built
    apply (rule shows_catE)
    apply (simp only: append.simps list_all2_Cons list_all2_Nil)
    apply (intro conjI refl TrueI)
     apply (rule shows_semantic, (simp add: asked_wf fits_def; fail | simp add: asked_wf w; fail), (simp add: asked_opcodes INSTRUCTION_OPCODES_def; fail),
      (rule decides_set decides_mul decides_xor decides_stay decides_deref_cell decides_deref_index decides_jump [OF corpus_inverse_accepted]),
      (simp add: upstream_entries; fail))+
    done
qed

section \<open>Refused frames\<close>

definition shows_fault :: "corpus_exn + corpus_case list \<Rightarrow> string \<Rightarrow> status \<Rightarrow> bytes \<Rightarrow> bool" where
  "shows_fault m case_id st payload \<longleftrightarrow> (\<exists>c. m = Inr [c] \<and> cc_case_id c = case_id \<and> cc_fault c = Some (st, payload) \<and>
     cc_upstream c = upstream_of case_id \<and>
     cc_final_state c = (state_of ep_reset)\<lparr>cs_last_status := st, cs_last_fault := st\<rparr>)"

lemma fault_shown:
  assumes f: "well_framed raw" and d: "ep_dispatch raw ep_reset = (Inr (), responded st (fault_payload t i) ep_reset)" and s: "is_fault st"
  shows "shows_fault (one_case (fault_case case_id description coverage raw)) case_id st (fault_payload t i)"
proof -
  let ?e = "responded st (fault_payload t i) ep_reset"
  have l: "length (fault_payload t i) = 5" by (simp add: fault_payload_def)
  have t: "ep_tx ?e = response_bytes st (fault_payload t i)" by (simp add: ep_reset_def)
  have "ep_tx ?e \<noteq> []" "length (ep_tx ?e) \<le> 1000"
    unfolding t length_response_bytes l by (auto dest: arg_cong [of _ _ length] simp: length_response_bytes)
  note dr = drive_plain [OF f quiet_reset d this]
  have q: "decode_response (ep_tx ?e) = Inr (ResponseFrame st (fault_payload t i))"
    unfolding t by (rule decode_response_bytes) (simp add: l)
  have "?e\<lparr>ep_tx := [], ep_done := False\<rparr> = ep_reset\<lparr>ep_last_status := st, ep_last_fault := st\<rparr>"
    using s by (simp add: responded_def ep_reset_def)
  then show ?thesis
    using s by (simp add: shows_fault_def one_case_def fault_case_def dr q upstream_of ResponseFrame_def is_fault_def del: responded_simps)
      (simp add: state_of_def)
qed

text \<open>A body of the length it announces, with its CRC.\<close>

lemma sealed_eq: "sealed body = Inr (body @ to_le 4 (crc32 body))"
  by (simp add: sealed_def prim_fits)

lemma sealed_framed: "6 \<le> length body \<Longrightarrow> length body = 6 + announced body \<Longrightarrow> announced body \<le> 256 \<Longrightarrow> hd body = 0xA1 \<Longrightarrow>
    well_framed (body @ to_le 4 (crc32 body))"
  using announced_append [of body] by (cases body) (simp_all add: well_framed_def)

lemma sealed_dispatched:
  assumes "6 \<le> length body" "length body = 6 + announced body"
  shows "ep_dispatch (body @ to_le 4 (crc32 body)) e =
     (if uint (body ! 1) \<noteq> 1 then ep_fault BAD_VERSION 0 0 e
      else if uint (body ! 3) \<noteq> 0 then ep_fault BAD_FLAGS 0 0 e
      else case opcode_of (uint (body ! 2)) of
        None \<Rightarrow> ep_fault BAD_OPCODE 0 0 e
      | Some op \<Rightarrow>
          if announced body \<noteq> REQUEST_PAYLOAD_BYTES op then ep_fault BAD_LENGTH (available_txn_id op (drop 6 body)) 2 e
          else dispatch_payload op (drop 6 body) e)"
proof -
  have "take (6 + announced body) body = body" by (simp flip: assms(2))
  then show ?thesis
    using assms announced_append [OF assms(1), of "to_le 4 (crc32 body)"]
    by (simp add: ep_dispatch_def wire_constants Let_def announced_def [symmetric] nth_append split: option.split)
qed

definition good_payload :: bytes where
  "good_payload = payload_of (set_asked 40 1)"

definition good_body :: bytes where
  "good_body = [0xA1, 1, word_of_int (opcode_code OP_SET_CONSTANT), 0, 51, 0] @ good_payload"

lemma good_payload: "length good_payload = 51" "take 4 good_payload = to_le 4 40"
  by (simp_all add: good_payload_def asked_defs payload_of_def preamble_bytes_def cell_bytes_def ABSENT_def Cell_def)

lemma good_frame: "bindE (build_set_constant 40 0 0 INTERPRETER_COMPAT 2 1 ABSENT) encode_request = Inr (good_body @ to_le 4 (crc32 good_body))"
proof -
  have w: "dq_wf (set_asked 40 1)" by (simp add: asked_wf fits_def)
  have "to_le 2 (int (length good_payload)) = [51, 0]" by (simp add: good_payload numeral_2_eq_2)
  then have "request_body OP_SET_CONSTANT good_payload = good_body" by (simp add: request_body_def good_body_def)
  then show ?thesis
    by (simp add: asked_built rebuild_payload [OF w] asked_opcodes good_payload_def [symmetric] encode_request_eq good_payload request_bytes_def)
qed

lemma flags_shown:
  "shows_fault (malformed_cases (good_body @ to_le 4 (crc32 good_body)) ! 1) ''malformed.precedence.flags_before_opcode'' BAD_FLAGS (fault_payload 0 0)"
proof -
  define body where "body = [0xA1, 1, 0xFF, 1, 51, 0] @ good_payload"
  have a: "announced body = 51" "length body = 57" "body ! Suc 0 = 1" "body ! 3 = 1" "hd body = 0xA1"
    by (simp_all add: body_def announced_def pyslice_def good_payload)
  have t: "take (length good_body) ((good_body @ to_le 4 (crc32 good_body))[2 := 0xFF, 3 := 1]) = body"
    by (simp add: good_body_def good_payload body_def list_update_append numeral_2_eq_2 numeral_3_eq_3)
  have "ep_dispatch (body @ to_le 4 (crc32 body)) ep_reset = (Inr (), responded BAD_FLAGS (fault_payload 0 0) ep_reset)"
    by (subst sealed_dispatched) (simp_all add: a ep_fault_ok fits_def)
  from fault_shown [OF sealed_framed this] show ?thesis
    by (simp add: malformed_cases_def t sealed_eq a)
qed


lemma length_shown:
  assumes p: "length p < 51" "length p < 256" "take 4 good_payload = take 4 p @ replicate (4 - length p) 0"
  shows "ep_dispatch (([0xA1, 1, word_of_int (opcode_code OP_SET_CONSTANT), 0] @ to_le 2 (int (length p)) @ p)
      @ to_le 4 (crc32 ([0xA1, 1, word_of_int (opcode_code OP_SET_CONSTANT), 0] @ to_le 2 (int (length p)) @ p))) ep_reset =
    (Inr (), responded BAD_LENGTH (fault_payload 40 2) ep_reset)"
    "well_framed (([0xA1, 1, word_of_int (opcode_code OP_SET_CONSTANT), 0] @ to_le 2 (int (length p)) @ p)
      @ to_le 4 (crc32 ([0xA1, 1, word_of_int (opcode_code OP_SET_CONSTANT), 0] @ to_le 2 (int (length p)) @ p)))"
proof -
  define body where "body = [0xA1, 1, word_of_int (opcode_code OP_SET_CONSTANT), 0] @ to_le 2 (int (length p)) @ p"
  have a: "announced body = length p" "length body = 6 + length p" "body ! Suc 0 = 1" "body ! 3 = 0" "hd body = 0xA1" "drop 6 body = p"
    using p(2) by (simp_all add: body_def announced_def pyslice_def fits_def)
  have o: "opcode_of (uint (body ! 2)) = Some OP_SET_CONSTANT"
    by (simp add: body_def del: opcode_code.simps)
  have "le_int (take 4 p) = le_int (take 4 p @ replicate (4 - length p) 0)" by (simp add: le_int_append)
  also have "\<dots> = le_int (to_le 4 40)" by (simp only: p(3) [symmetric] good_payload(2))
  also have "\<dots> = 40" by simp
  finally have t: "available_txn_id OP_SET_CONSTANT p = 40" by (simp add: available_txn_id_def)
  show "ep_dispatch (body @ to_le 4 (crc32 body)) ep_reset = (Inr (), responded BAD_LENGTH (fault_payload 40 2) ep_reset)"
    using p(1) by (subst sealed_dispatched) (simp_all add: a o t ep_fault_ok fits_def)
  show "well_framed (body @ to_le 4 (crc32 body))" by (rule sealed_framed) (use p in \<open>simp_all add: a\<close>)
qed


text \<open>The CRC of the good body, and of the body with another version.\<close>

lemma crc_good: "crc32 good_body = 1219052262"
  by code_simp

lemma crc_version: "crc32 (good_body[1 := 9]) = 2751585374"
  by code_simp

lemma crc_shown:
  "shows_fault (malformed_cases (good_body @ to_le 4 (crc32 good_body)) ! 0) ''malformed.precedence.crc_before_version'' BAD_CRC (fault_payload 0 0)"
proof -
  define raw where "raw = good_body[1 := 9] @ [0xe6, 0x42, 0xa9, 0xc8 :: byte]"
  have l: "length good_body = 57" by (simp add: good_body_def good_payload)
  have c: "to_le 4 1219052262 = [0xe6, 0x42, 0xa9, 0x48 :: byte]" by code_simp
  have r: "(good_body @ to_le 4 (crc32 good_body))[1 := 9, 60 := (good_body @ to_le 4 (crc32 good_body)) ! 60 XOR 0x80] = raw"
    by (simp add: crc_good c raw_def list_update_append nth_append l)
  have a: "announced raw = 51" "length raw = 61" "hd raw = 0xA1" "raw \<noteq> []"
    by (simp_all add: raw_def good_body_def announced_def pyslice_def l good_payload)
  have n: "le_int (drop 57 raw) \<noteq> crc32 (take 57 raw)" by (simp add: raw_def l crc_version [unfolded One_nat_def])
  have w: "well_framed raw" using a by (simp add: well_framed_def)
  have "ep_dispatch raw ep_reset = (Inr (), responded BAD_CRC (fault_payload 0 0) ep_reset)"
    using n a by (simp add: ep_dispatch_def wire_constants Let_def announced_def [symmetric] ep_fault_ok fits_def)
  from fault_shown [OF w this] show ?thesis
    by (simp add: malformed_cases_def r [simplified] l)
qed


lemma short_shown:
  "shows_fault (malformed_cases (good_body @ to_le 4 (crc32 good_body)) ! 2) ''malformed.length.decoded_txn'' BAD_LENGTH (fault_payload 40 2)"
proof -
  have l: "length good_body = 57" by (simp add: good_body_def good_payload)
  have p: "length (take 50 good_payload) = 50" by (simp add: good_payload)
  have b: "[0xA1, 1, word_of_int (opcode_code OP_SET_CONSTANT), 0] @ to_le 2 (int (length (take 50 good_payload))) @ take 50 good_payload
      = take 56 (take 4 good_body @ [50, 0] @ drop 6 good_body)" (is "_ = ?b")
    by (simp only: p) (simp add: good_body_def numeral_2_eq_2)
  have q: "take 4 good_payload = take 4 (take 50 good_payload) @ replicate (4 - length (take 50 good_payload)) 0" by (simp add: p good_payload)
  note sh = length_shown [OF _ _ q, unfolded b]
  have d: "ep_dispatch (?b @ to_le 4 (crc32 ?b)) ep_reset = (Inr (), responded BAD_LENGTH (fault_payload 40 2) ep_reset)"
    and w: "well_framed (?b @ to_le 4 (crc32 ?b))" by (rule sh; simp add: good_payload)+
  have u: "u16le 50 = Inr [50, 0]" by (simp add: prim_fits fits_def numeral_2_eq_2)
  have t: "take 56 (butlast (take 4 good_body @ [50, 0] @ drop 6 good_body @ to_le 4 (crc32 good_body))) = ?b"
    by (simp add: butlast_append l)
  show ?thesis
    using fault_shown [OF w d] u t by (simp add: malformed_cases_def wire_constants l sealed_eq Let_def)
qed

lemma truncated_shown:
  "shows_fault (malformed_cases (good_body @ to_le 4 (crc32 good_body)) ! 3) ''malformed.length.partial_txn'' BAD_LENGTH (fault_payload 40 2)"
proof -
  have p: "length (take 3 good_payload) = 3" by (simp add: good_payload)
  have l: "length good_body = 57" by (simp add: good_body_def good_payload)
  have b: "[0xA1, 1, word_of_int (opcode_code OP_SET_CONSTANT), 0] @ to_le 2 (int (length (take 3 good_payload))) @ take 3 good_payload
      = take 4 good_body @ [3, 0] @ take 3 good_payload" (is "_ = ?b")
    by (simp only: p) (simp add: good_body_def numeral_2_eq_2)
  have q: "take 4 good_payload = take 4 (take 3 good_payload) @ replicate (4 - length (take 3 good_payload)) 0"
  proof -
    have "take 3 (to_le 4 40) @ [0] = (to_le 4 40 :: bytes)" by (simp add: eval_nat_numeral)
    moreover have "take 3 good_payload = take 3 (take 4 good_payload)" by simp
    ultimately show ?thesis unfolding p by (simp add: good_payload(2))
  qed
  note sh = length_shown [OF _ _ q, unfolded b]
  have d: "ep_dispatch (?b @ to_le 4 (crc32 ?b)) ep_reset = (Inr (), responded BAD_LENGTH (fault_payload 40 2) ep_reset)"
    and w: "well_framed (?b @ to_le 4 (crc32 ?b))" by (rule sh; simp add: good_payload)+
  have u: "u16le 3 = Inr [3, 0]" by (simp add: prim_fits fits_def numeral_2_eq_2)
  have t: "take 4 (take 6 (good_body @ to_le 4 (crc32 good_body)) @ pyslice 6 9 (good_body @ to_le 4 (crc32 good_body))) @ [3, 0] @
      drop 6 (take 6 (good_body @ to_le 4 (crc32 good_body)) @ pyslice 6 9 (good_body @ to_le 4 (crc32 good_body))) = ?b"
    by (simp add: pyslice_def l) (simp add: good_body_def)
  show ?thesis
    using fault_shown [OF w d] u t by (simp add: malformed_cases_def wire_constants l sealed_eq Let_def)
qed

lemma pointer_shown:
  "shows_fault pointer_case ''error.precedence.pointer_before_write_conflict'' BAD_POINTER (fault_payload 43 0)"
proof -
  define r where "r = deref_asked OP_DEREF_PC 43 0 0 7 (Cell True 1) ABSENT"
  have w: "dq_wf r" unfolding r_def by (simp add: asked_wf fits_def)
  have x: "execute r (StagedTransaction 43 OP_DEREF_PC INTERPRETER_COMPAT 0 0) 0 = Inl (fault BAD_POINTER)"
    by (simp add: r_def execute_defs asked_defs corpus_powers)
  have f: "dq_opcode r = OP_DEREF_PC" "dq_txn_id r = 43" "dq_profile r = INTERPRETER_COMPAT" "dq_pc r = 0" "dq_fp r = 0"
    by (simp_all add: r_def asked_defs)
  have "handle r ep_reset = (Inl (fault BAD_POINTER), ep_reset)"
    by (simp add: handle_def f handle_instruction_def ep_reset_def DEFAULT_PROFILE_def wire_constants x [unfolded StagedTransaction_def] liftM_def StagedTransaction_def)
  from request_dispatch [OF w this]
  have "ep_dispatch (request_bytes (dq_opcode r) (payload_of r)) ep_reset = (Inr (), responded BAD_POINTER (fault_payload 43 0) ep_reset)"
    by (simp add: f ep_fault_ok fits_def)
  from fault_shown [OF wf_frame(2) [OF w] this] show ?thesis
    by (simp add: pointer_case_def asked_built r_def [symmetric] rebuild_payload [OF w] encode_request_eq [OF wf_frame(1) [OF w]])
qed

section \<open>The life of a lane\<close>

lemma offer_receives:
  assumes f: "well_framed f" and e: "quiet e"
  shows "k + n < length f \<Longrightarrow> offer_all (take n (drop k f)) (receiving f k e) = Inr (receiving f (k + n) e)"
proof (induction n arbitrary: k)
  case 0
  then show ?case by simp
next
  case (Suc n)
  then have k: "k + 1 < length f" "k + 1 + n < length f" by simp_all
  have t: "take (Suc n) (drop k f) = f ! k # take n (drop (k + 1) f)" using k by (simp flip: Cons_nth_drop_Suc)
  show ?case
    using step_byte [OF e, of "f ! k" False f k] receiving_Suc [OF f k(1) e] Suc.IH [OF k(2)] by (simp add: t)
qed

text \<open>What the three cases of the lifecycle show.\<close>

definition shows_lifecycle :: "corpus_exn + corpus_case list \<Rightarrow> bool" where
  "shows_lifecycle m \<longleftrightarrow> (\<exists>a r s base stall. m = Inr [a, r, s] \<and>
     map cc_case_id [a, r, s] = [''lane.abort.priority'', ''lane.reset.priority'', ''lane.stall_backpressure.invariant''] \<and>
     (\<forall>c\<in>{a, r, s}. cc_fault c = None \<and> cc_upstream c = ProtocolOnly) \<and>
     cc_final_state a = (state_of ep_reset)\<lparr>cs_last_status := ABORTED, cs_last_fault := ABORTED, cs_abort_count := 1\<rparr> \<and>
     cc_final_state r = state_of ep_reset \<and>
     cc_lane s = Some (LaneStall [1, 0, 2] [2, 1, 0] base stall True) \<and> base < stall)"

lemma abort_case_ok:
  assumes f: "well_framed f" "12 < length f"
  shows "abort_case f = Inr (\<lparr>cc_case_id = ''lane.abort.priority'',
     cc_description = ''ABORT cancels a same-edge transfer and discards partial receive state.'',
     cc_coverage = [''abort'', ''priority'', ''partial_frame''], cc_request = take 12 f, cc_response = [],
     cc_request_cycles = None, cc_initial_state = state_of ep_reset, cc_pre_action_state = Some (state_of ep_reset),
     cc_staged = None, cc_final_state = state_of (ep_abort ep_reset), cc_retire = no_retire None, cc_fault = None,
     cc_lane = Some (LaneAbort True False), cc_upstream = upstream_of ''lane.abort.priority''\<rparr>, ep_abort ep_reset)"
proof -
  have o: "offer_all (take 11 f) ep_reset = Inr (receiving f 11 ep_reset)"
    using offer_receives [OF f(1) quiet_reset, of 0 11] f(2) by (simp add: receiving_0 [OF quiet_reset])
  have "\<exists>l. ep_step (uint (f ! 11)) True True True True (receiving f 11 ep_reset) = (Inr l, ep_abort ep_reset)"
    by (simp add: ep_step_def Let_def ep_abort_def receiving_def ep_reset_def)
  moreover have "state_of (receiving f 11 ep_reset) = state_of ep_reset" by (simp add: state_of_def receiving_def)
  ultimately show ?thesis using f(2) by (auto simp: abort_case_def o upstream_of)
qed

lemma stalls_cost: "exchange_cycles [0] [0] 61 48 < exchange_cycles [1, 0, 2] [2, 1, 0] 61 48" "exchange_cycles [1, 0, 2] [2, 1, 0] 61 48 \<le> 100000"
  by code_simp+

lemma lifecycle_shown:
  "shows_lifecycle (bindE (raises (build_set_constant 90 0 0 INTERPRETER_COMPAT 2 0x55 ABSENT)) lifecycle_cases)"
proof -
  define r where "r = set_asked 90 0x55"
  define s where "s = answered r 1 0 [(2, 0x55)] [] [2] 0"
  define f where "f = request_bytes (dq_opcode r) (payload_of r)"
  define e1 where "e1 = responded OK (result_bytes s) (decided_reset s)"
  have w: "dq_wf r" unfolding r_def by (simp add: asked_wf fits_def)
  have "dq_opcode r \<in> set INSTRUCTION_OPCODES" by (simp add: r_def asked_opcodes INSTRUCTION_OPCODES_def)
  from decides_dispatched [OF w this, of s] have d: "ep_dispatch f ep_reset = (Inr (), e1)" "staged_ok (with_crc s)" "result_bytes (with_crc s) = result_bytes s"
    by (simp_all add: r_def s_def decides_set f_def e1_def decided_def)
  have wf: "well_framed f" unfolding f_def by (rule wf_frame(2) [OF w])
  have lf: "length f = 61" by (simp add: f_def length_request_bytes r_def asked_defs payload_of_def preamble_bytes_def cell_bytes_def ABSENT_def Cell_def)
  have t: "ep_tx e1 = response_bytes OK (result_bytes s)" by (simp add: e1_def decided_reset_def ep_reset_def)
  have lt: "length (ep_tx e1) = 48"
    unfolding t length_response_bytes by (simp add: s_def answered_def result_bytes_def Write_def write_bytes_def)
  then have ne: "ep_tx e1 \<noteq> []" by auto
  have g: "gap_pattern (Some [1, 0, 2]) = [1, 0, 2]" "gap_pattern (Some [2, 1, 0]) = [2, 1, 0]" "gaps_ok [1, 0, 2]" "gaps_ok [2, 1, 0]"
    by (simp_all add: gap_pattern_def gaps_ok_def)
  have cost: "exchange_cycles [1, 0, 2] [2, 1, 0] 61 48 \<le> int 100000" using stalls_cost(2) by simp
  note base = drive_plain [OF wf quiet_reset d(1) ne]
  note stall = drive_exchange [OF wf quiet_reset d(1) ne, of "Some [1, 0, 2]" "Some [2, 1, 0]" 100000, unfolded g lf lt, OF g(3,4) cost]
  have "ep_step SOF_REQUEST True False True False (ep_abort ep_reset) = (Inr \<lparr>ln_pins = ep_pins (ep_abort ep_reset), ln_rx_committed = False, ln_tx_committed = False\<rparr>, ep_reset)"
    by (simp add: ep_step_def Let_def)
  then have rc: "reset_case (ep_abort ep_reset) = Inr \<lparr>cc_case_id = ''lane.reset.priority'',
      cc_description = ''Active-low reset has priority over ABORT and a candidate transfer.'',
      cc_coverage = [''reset'', ''abort'', ''priority''], cc_request = [word_of_int SOF_REQUEST], cc_response = [],
      cc_request_cycles = None, cc_initial_state = state_of (ep_abort ep_reset), cc_pre_action_state = None, cc_staged = None,
      cc_final_state = state_of ep_reset, cc_retire = no_retire None, cc_fault = None,
      cc_lane = Some (LaneReset True True False), cc_upstream = upstream_of ''lane.reset.priority''\<rparr>"
    by (simp add: reset_case_def upstream_of)
  have u: "upstream_of ''lane.abort.priority'' = ProtocolOnly" "upstream_of ''lane.reset.priority'' = ProtocolOnly"
    "upstream_of ''lane.stall_backpressure.invariant'' = ProtocolOnly" by code_simp+
  have en: "encode_request (RequestFrame (dq_opcode r) (payload_of r)) = Inr f" unfolding f_def by (rule encode_request_eq [OF wf_frame(1) [OF w]])
  show ?thesis
    unfolding asked_built r_def [symmetric] rebuild_payload [OF w]
    using stalls_cost(1) lf lt
    by (simp add: lifecycle_cases_def en base stall abort_case_ok [OF wf] rc upstream_of shows_lifecycle_def u exchange_cycles_no_gaps)
      (simp add: state_of_def ep_abort_def ep_reset_def)
qed


section \<open>The generator succeeds\<close>

text \<open>
  C31. The generator asks of a scalar request exactly what the endpoint grants: it returns a case
  when the endpoint, fresh from reset, decides a transition at once, and fails an assertion
  otherwise. The case records the encoded transition, and the retirement in it was acknowledged
  with the DONE pulse, committed that transition and made the retirement counter 1.
\<close>

theorem semantic_case_commits:
  assumes "dq_wf r" "dq_opcode r \<in> set INSTRUCTION_OPCODES"
  shows "case semantic case_id description coverage (RequestFrame (dq_opcode r) (payload_of r)) of
      Inl x \<Rightarrow> x = CorpusRaised AssertionError \<and> (\<nexists>s. decides r s)
    | Inr c \<Rightarrow> \<exists>s. decides r s \<and> cc_response c = response_bytes OK (result_bytes s)
        \<and> cc_staged c = Some (staged_of (with_crc s) (result_bytes s))
        \<and> re_response (cc_retire c) = response_bytes RETIRED (retire_payload s) \<and> re_done_pulse (cc_retire c)
        \<and> cs_txn_state (cc_final_state c) = IDLE \<and> cs_state_valid (cc_final_state c) \<and> cs_retire_seq (cc_final_state c) = 1
        \<and> cs_committed_pc (cc_final_state c) = st_next_pc s \<and> cs_committed_fp (cc_final_state c) = st_next_fp s"
proof (cases "\<exists>s. decides r s")
  case True
  then obtain s where "decides r s" by blast
  with semantic_decided [OF assms this] show ?thesis
    by (auto simp: committed_case_def retired_entry_def with_crc_def retire_payload_def state_of_def ep_reset_def intro!: exI [of _ s])
next
  case False
  with semantic_undecided [OF assms False] show ?thesis by simp
qed

lemma semantic_case_commits_witness:
  "\<exists>c. semantic ''set'' ''a constant'' [''SET''] (RequestFrame (dq_opcode (set_asked 1 5)) (payload_of (set_asked 1 5))) = Inr c \<and>
     cs_committed_pc (cc_final_state c) = 1 \<and> re_done_pulse (cc_retire c)"
proof -
  have w: "dq_wf (set_asked 1 5)" "dq_opcode (set_asked 1 5) \<in> set INSTRUCTION_OPCODES"
    by (simp_all add: asked_wf asked_opcodes INSTRUCTION_OPCODES_def fits_def)
  have e: "s = answered (set_asked 1 5) 1 0 [(2, 5)] [] [2] 0" if "decides (set_asked 1 5) s" for s
    using that decides_set [of 1 5] by (simp add: decides_def)
  show ?thesis
    using semantic_case_commits [OF w, of "''set''" "''a constant''" "[''SET'']"] decides_set [of 1 5]
    by (auto split: sum.splits dest!: e)
qed

text \<open>The refused frames, with the status and the payload of their FAULT response.\<close>

definition refusals :: "(string \<times> status \<times> bytes) list" where
  "refusals =
     [(''malformed.precedence.crc_before_version'', BAD_CRC, fault_payload 0 0),
      (''malformed.precedence.flags_before_opcode'', BAD_FLAGS, fault_payload 0 0),
      (''malformed.length.decoded_txn'', BAD_LENGTH, fault_payload 40 2),
      (''malformed.length.partial_txn'', BAD_LENGTH, fault_payload 40 2),
      (''error.precedence.pointer_before_write_conflict'', BAD_POINTER, fault_payload 43 0)]"

lemma shows_faults:
  "list_all2 (\<lambda>m (i, st, p). shows_fault m i st p) ms xs \<Longrightarrow>
     \<exists>cases. catE ms = Inr cases \<and> map (\<lambda>c. (cc_case_id c, cc_fault c)) cases = map (\<lambda>(i, st, p). (i, Some (st, p))) xs \<and>
       list_all (\<lambda>c. \<exists>st. cc_final_state c = (state_of ep_reset)\<lparr>cs_last_status := st, cs_last_fault := st\<rparr>) cases"
proof (induction ms xs rule: list_all2_induct)
  case Nil
  then show ?case by simp
next
  case (Cons m ms x xs)
  then show ?case by (fastforce simp: shows_fault_def split: prod.splits)
qed

lemma faults_shown:
  "\<exists>cases. catE (malformed_cases (good_body @ to_le 4 (crc32 good_body)) @ [pointer_case]) = Inr cases \<and>
     map (\<lambda>c. (cc_case_id c, cc_fault c)) cases = map (\<lambda>(i, st, p). (i, Some (st, p))) refusals \<and>
     list_all (\<lambda>c. \<exists>st. cc_final_state c = (state_of ep_reset)\<lparr>cs_last_status := st, cs_last_fault := st\<rparr>) cases"
proof -
  obtain m0 m1 m2 m3 where m: "malformed_cases (good_body @ to_le 4 (crc32 good_body)) = [m0, m1, m2, m3]"
    by (simp add: malformed_cases_def)
  have "list_all2 (\<lambda>m (i, st, p). shows_fault m i st p) (malformed_cases (good_body @ to_le 4 (crc32 good_body)) @ [pointer_case]) refusals"
    unfolding m refusals_def
    using crc_shown [unfolded m] flags_shown [unfolded m] short_shown [unfolded m] truncated_shown [unfolded m] pointer_shown by simp
  from shows_faults [OF this] show ?thesis .
qed

text \<open>
  C30. The generator builds the whole corpus: none of its assertions fails and no run of a lane
  exceeds its bound. Every case the upstream interpreter has executed commits the same pc, frame
  pointer and writes as upstream, with the DONE pulse; every malformed frame is refused with the
  status the precedence of the checks demands and leaves the endpoint in its reset state but for
  that status; and the lifecycle cases show abort and reset.
\<close>

theorem corpus_matches_upstream:
  "\<exists>cases faults lifecycle. build_cases = Inr (cases @ faults @ lifecycle) \<and>
     map cc_case_id cases = scalar_ids \<and>
     list_all upholds cases \<and>
     map (\<lambda>c. (cc_case_id c, cc_fault c)) faults = map (\<lambda>(i, st, p). (i, Some (st, p))) refusals \<and>
     list_all (\<lambda>c. \<exists>st. cc_final_state c = (state_of ep_reset)\<lparr>cs_last_status := st, cs_last_fault := st\<rparr>) faults \<and>
     shows_lifecycle (Inr lifecycle)"
proof -
  obtain cases where c: "catE (binary_cases @ deref_cases 0x100 @ jump_cases @ [deferred_case 0x100]) = Inr cases"
      "list_all upholds cases" and ids: "map cc_case_id cases = scalar_ids"
    using scalar_cases_shown by (auto simp: shows_cases_def list_all_iff)
  obtain faults where f: "catE (malformed_cases (good_body @ to_le 4 (crc32 good_body)) @ [pointer_case]) = Inr faults"
    using faults_shown by blast
  note f2 = faults_shown [unfolded f, simplified]
  obtain lifecycle where l: "bindE (raises (build_set_constant 90 0 0 INTERPRETER_COMPAT 2 0x55 ABSENT)) lifecycle_cases = Inr lifecycle"
    using lifecycle_shown unfolding shows_lifecycle_def by blast
  have "build_cases = Inr (cases @ faults @ lifecycle)"
    unfolding build_cases_def corpus_powers raises_simps bindE_simps c(1) good_frame f l by simp
  then show ?thesis using c(2) ids f2 lifecycle_shown [unfolded l] by blast
qed

end
