(* ===== verification/Design_Space.thy ===== *)
theory Design_Space
  imports Stream_Alu
begin

text \<open>
tools/design_space.py: the analytical model of the streamed multiplier at its four radices, with
the claims of its report. The logarithm, which no point uses, and the writing of the report are
left out.
\<close>

section \<open>The model\<close>

definition WORD_BITS :: int where "WORD_BITS = 128"
definition BUS_BITS :: int where "BUS_BITS = 8"
definition WORD_BYTES :: int where "WORD_BYTES = WORD_BITS div BUS_BITS"
definition COMMON_ENGINE_STATE_BITS :: int where "COMMON_ENGINE_STATE_BITS = 17"
definition MULTIPLIER_STATE_BITS :: int where "MULTIPLIER_STATE_BITS = 2 * WORD_BITS"

record design_point =
  dp_radix :: int
  dp_sequential_bits :: int
  dp_and2_digit_step :: int
  dp_xor2_digit_step :: int
  dp_simple_gate_total :: int
  dp_multiplication_cycles :: int
  dp_transaction_cycles :: int
  dp_area_latency_product :: int
  dp_min_area :: bool
  dp_min_latency :: bool
  dp_pareto :: bool

definition point_of_radix :: "int \<Rightarrow> design_point res" where
  "point_of_radix radix =
     (if radix \<notin> {1, 2, 4, 8} then Inl ValueError
      else
        let sequential = MULTIPLIER_STATE_BITS + COMMON_ENGINE_STATE_BITS;
            and2 = WORD_BITS * radix;
            xor2 = WORD_BITS * radix + 3 * radix;
            gates = and2 + xor2;
            mul_cycles = WORD_BITS div radix;
            transaction = 1 + WORD_BYTES + mul_cycles + WORD_BYTES
        in Inr \<lparr>dp_radix = radix, dp_sequential_bits = sequential, dp_and2_digit_step = and2, dp_xor2_digit_step = xor2,
                dp_simple_gate_total = gates, dp_multiplication_cycles = mul_cycles, dp_transaction_cycles = transaction,
                dp_area_latency_product = gates * transaction, dp_min_area = False, dp_min_latency = False, dp_pareto = False\<rparr>)"

definition point_metrics :: "design_point \<Rightarrow> int list" where
  "point_metrics p = [dp_sequential_bits p, dp_simple_gate_total p, dp_transaction_cycles p]"

definition dominates :: "design_point \<Rightarrow> design_point \<Rightarrow> bool" where
  "dominates a b \<longleftrightarrow>
     list_all (\<lambda>(x, y). x \<le> y) (zip (point_metrics a) (point_metrics b)) \<and>
     list_ex (\<lambda>(x, y). x < y) (zip (point_metrics a) (point_metrics b))"

definition build_points :: "design_point list res" where
  "build_points =
     bindE (mapE point_of_radix [1, 2, 4, 8]) (\<lambda>raw.
       let min_gates = Min (set (map dp_simple_gate_total raw));
           min_cycles = Min (set (map dp_transaction_cycles raw))
       in Inr (map (\<lambda>p. p\<lparr>dp_min_area := (dp_simple_gate_total p = min_gates),
                         dp_min_latency := (dp_transaction_cycles p = min_cycles),
                         dp_pareto := \<not> list_ex (\<lambda>q. q \<noteq> p \<and> dominates q p) raw\<rparr>) raw))"

section \<open>The claims of the report\<close>

text \<open>What the report says of a point: its numbers and its three flags.\<close>

definition point_summary :: "design_point \<Rightarrow> int \<times> int \<times> int \<times> int \<times> bool \<times> bool \<times> bool" where
  "point_summary p = (dp_radix p, dp_sequential_bits p, dp_simple_gate_total p, dp_transaction_cycles p,
     dp_min_area p, dp_min_latency p, dp_pareto p)"

text \<open>The table of the report.\<close>

definition reported_points :: "(int \<times> int \<times> int \<times> int \<times> bool \<times> bool \<times> bool) list" where
  "reported_points =
     [(1, 273, 259, 161, True, False, True), (2, 273, 518, 97, False, False, True),
      (4, 273, 1036, 65, False, False, True), (8, 273, 2072, 49, False, True, True)]"

lemma points_reported: "case build_points of Inl x \<Rightarrow> False | Inr points \<Rightarrow> map point_summary points = reported_points"
  by code_simp

lemma points_built:
  obtains points where "build_points = Inr points" "map point_summary points = reported_points"
  using points_reported by (simp split: sum.splits)

lemma mul_beats:
  assumes "stream_execute 2 payload = Inr r"
  shows "cr_input_data_beats r = 32" "cr_output_data_beats r = 16" "cr_multiplier_bit_steps r = 128"
proof -
  have "stream_command_of 2 = Some MUL128" by code_simp
  with assms show "cr_input_data_beats r = 32" "cr_output_data_beats r = 16" "cr_multiplier_bit_steps r = 128"
    by (auto simp: stream_execute_def CommandResult_def bindE_eq_Inr Let_def split: if_splits)
qed

text \<open>
  The design-space report is right about its model: the four points have the numbers it
  lists, radix 1 alone has the least logic, radix 8 alone the least latency, and each of the four
  is Pareto-optimal. The cycles of the radix-1 point, the one that is built, are the clock edges
  the streaming ALU needs for a multiplication: one for the command, the larger of its payload
  counts, and its bit steps.
\<close>

theorem design_space_pareto:
  assumes "stream_execute 2 payload = Inr r"
  shows "\<exists>points. build_points = Inr points \<and> map point_summary points =
       [(1, 273, 259, 161, True, False, True), (2, 273, 518, 97, False, False, True),
        (4, 273, 1036, 65, False, False, True), (8, 273, 2072, 49, False, True, True)]
     \<and> dp_transaction_cycles (hd points) =
         1 + int (max (cr_input_data_beats r) (cr_output_data_beats r)) + int (cr_multiplier_bit_steps r)"
proof -
  obtain points where p: "build_points = Inr points" "map point_summary points = reported_points" by (rule points_built)
  from p(2) have "dp_transaction_cycles (hd points) = 161" by (auto simp: reported_points_def point_summary_def)
  with p mul_beats [OF assms] show ?thesis by (intro exI [of _ points]) (simp add: reported_points_def)
qed

lemma design_space_pareto_witness:
  "\<exists>points. build_points = Inr points \<and> dp_transaction_cycles (hd points) = 161"
proof -
  have "stream_execute 2 (map word_of_int [0..31]) =
     Inr ((CommandResult [192, 65, 238, 57, 88, 98, 118, 26, 160, 10, 142, 114, 56, 41, 22, 81] 32 16)\<lparr>cr_multiplier_bit_steps := 128\<rparr>)"
    by code_simp
  from design_space_pareto [OF this] show ?thesis unfolding CommandResult_def by force
qed

end
