(* ===== verification/Board_Detect.thy ===== *)
theory Board_Detect
  imports Lsc_Prelude
begin

text \<open>
fpga_harness/board_detect.py: the detection ladder of the ULX3S board. The probes are parameters:
the search of a program on the PATH, the output of a command, the parser of a property list. The
rendering of a report and the reading of fixtures and of sysfs are left out.
\<close>

section \<open>Text\<close>

text \<open>
  The characters of a Python \<open>str\<close> up to code point 255, with the predicates of \<open>str\<close> the code
  calls on them.
\<close>

definition printable :: "char \<Rightarrow> bool" where
  "printable c \<longleftrightarrow> (let n = of_char c :: nat in 32 \<le> n \<and> n \<le> 126 \<or> 161 \<le> n \<and> n \<noteq> 173)"

definition whitespace :: "char \<Rightarrow> bool" where
  "whitespace c \<longleftrightarrow> (let n = of_char c :: nat in 9 \<le> n \<and> n \<le> 13 \<or> 28 \<le> n \<and> n \<le> 32 \<or> n = 0x85 \<or> n = 0xA0)"

definition digit_char :: "char \<Rightarrow> bool" where
  "digit_char c \<longleftrightarrow> (let n = of_char c :: nat in 48 \<le> n \<and> n \<le> 57 \<or> n \<in> {0xB2, 0xB3, 0xB9})"

definition lower_char :: "char \<Rightarrow> char" where
  "lower_char c = (let n = of_char c :: nat in
     if 65 \<le> n \<and> n \<le> 90 \<or> 192 \<le> n \<and> n \<le> 222 \<and> n \<noteq> 215 then char_of (n + 32) else c)"

definition stripped :: "string \<Rightarrow> string" where
  "stripped s = rev (dropWhile whitespace (rev (dropWhile whitespace s)))"

definition line_end :: "char \<Rightarrow> bool" where
  "line_end c \<longleftrightarrow> (of_char c :: nat) \<in> {10, 11, 12, 13, 28, 29, 30, 0x85}"

text \<open>\<open>splitlines\<close>: a carriage return with its line feed is one end of line.\<close>

fun lines_from :: "string \<Rightarrow> string \<Rightarrow> string list" where
  "lines_from line [] = (if line = [] then [] else [line])"
| "lines_from line (c # cs) =
     (if of_char c = (13 :: nat) \<and> cs \<noteq> [] \<and> of_char (hd cs) = (10 :: nat) then line # lines_from [] (tl cs)
      else if line_end c then line # lines_from [] cs
      else lines_from (line @ [c]) cs)"

definition splitlines :: "string \<Rightarrow> string list" where
  "splitlines s = lines_from [] s"

text \<open>\<open>marker in line\<close>.\<close>

fun occurs_in :: "string \<Rightarrow> string \<Rightarrow> bool" where
  "occurs_in m [] = (m = [])"
| "occurs_in m (c # cs) = (take (length m) (c # cs) = m \<or> occurs_in m cs)"

text \<open>\<open>sep.join(xs)\<close>, and the formats \<open>f"{n}"\<close>, \<open>f"{n:#06x}"\<close> and \<open>f"{n:#010x}"\<close>, the last two for a number of 16 and of 32 bits.\<close>

fun join_with :: "string \<Rightarrow> string list \<Rightarrow> string" where
  "join_with sep [] = []"
| "join_with sep [x] = x"
| "join_with sep (x # y # rest) = x @ sep @ join_with sep (y # rest)"

fun decimal :: "nat \<Rightarrow> string" where
  "decimal n = (if n < 10 then [] else decimal (n div 10)) @ [''0123456789'' ! (n mod 10)]"

definition hex_nibble :: "int \<Rightarrow> char" where
  "hex_nibble n = ''0123456789abcdef'' ! nat (n mod 16)"

definition hex06 :: "int \<Rightarrow> string" where
  "hex06 n = ''0x'' @ [hex_nibble (n div 4096), hex_nibble (n div 256), hex_nibble (n div 16), hex_nibble n]"

definition hex010 :: "int \<Rightarrow> string" where
  "hex010 n = ''0x'' @ map (\<lambda>i. hex_nibble (n div 16 ^ i)) (rev [0..<8])"

section \<open>Constants\<close>

definition LEVELS :: "string list" where
  "LEVELS = [''toolchain'', ''usb'', ''jtag'', ''datapath'']"

definition ULX3S_USB_VID :: int where "ULX3S_USB_VID = 0x0403"
definition ULX3S_USB_PID :: int where "ULX3S_USB_PID = 0x6015"

definition ECP5_IDCODES :: "(int \<times> string) list" where
  "ECP5_IDCODES = [(0x21111043, ''LFE5U-12F''), (0x41111043, ''LFE5U-25F''), (0x41112043, ''LFE5U-45F''), (0x41113043, ''LFE5U-85F'')]"

definition BUILD_TOOLS :: "string list" where "BUILD_TOOLS = [''yosys'', ''nextpnr-ecp5'', ''ecppack'']"
definition LOAD_TOOLS :: "string list" where "LOAD_TOOLS = [''openFPGALoader'', ''fujprog'']"

definition DATAPATH_PREREQUISITES :: "string list" where
  "DATAPATH_PREREQUISITES =
     [''a real ULX3S board programmed with a checksum-verified archived bitstream'',
      ''a recorded request/response byte log captured from real hardware'']"

definition IOREG_COMMAND :: "string list" where "IOREG_COMMAND = [''ioreg'', ''-p'', ''IOUSB'', ''-a'', ''-l'']"
definition IOREG_VENDOR_KEY :: string where "IOREG_VENDOR_KEY = ''idVendor''"
definition IOREG_PRODUCT_KEY :: string where "IOREG_PRODUCT_KEY = ''idProduct''"
definition IOREG_LABEL_KEYS :: "string list" where "IOREG_LABEL_KEYS = [''USB Product Name'', ''IORegistryEntryName'']"
definition IOREG_FORBIDDEN_KEYS :: "string list" where "IOREG_FORBIDDEN_KEYS = [''USB Serial Number'', ''kUSBSerialNumberString'']"
definition IOREG_MAX_DEPTH :: nat where "IOREG_MAX_DEPTH = 64"
definition IOREG_MAX_DEVICES :: nat where "IOREG_MAX_DEVICES = 512"
definition USB_LABEL_MAX_LEN :: nat where "USB_LABEL_MAX_LEN = 64"

definition JTAG_DETECT_COMMANDS :: "string list list" where
  "JTAG_DETECT_COMMANDS = [[''-b'', ''ulx3s'', ''--detect''], [''--detect'']]"

definition VERSION_FLAGS :: "(string \<times> string list) list" where
  "VERSION_FLAGS = [(''openFPGALoader'', [''--Version'', ''--version''])]"

definition DEFAULT_VERSION_FLAGS :: "string list" where "DEFAULT_VERSION_FLAGS = [''--version'']"
definition VERSION_MAX_LEN :: nat where "VERSION_MAX_LEN = 120"
definition VERSION_SCAN_LINES :: nat where "VERSION_SCAN_LINES = 5"

definition VERSION_REJECT_MARKERS :: "string list" where
  "VERSION_REJECT_MARKERS =
     [''unrecognized option'', ''unrecognised option'', ''unknown option'', ''invalid option'', ''no such option'',
      ''not expected'', ''usage:'', ''error:'', ''try --help'', ''run with --help'', ''for more information'']"

section \<open>The report\<close>

record finding =
  fi_level :: string
  fi_name :: string
  fi_status :: string
  fi_detail :: string

type_synonym board_report = "finding list"

definition satisfied :: "board_report \<Rightarrow> string \<Rightarrow> bool" where
  "satisfied r level =
     (let relevant = filter (\<lambda>item. fi_level item = level) r
      in relevant \<noteq> [] \<and> list_all (\<lambda>item. fi_status item = ''present'') relevant)"

definition highest_satisfied :: "board_report \<Rightarrow> string option" where
  "highest_satisfied r = fold (\<lambda>level reached. if satisfied r level then Some level else reached) LEVELS None"

definition datapath_validated :: "board_report \<Rightarrow> bool" where
  "datapath_validated r = satisfied r ''datapath''"

type_synonym usb_device = "int \<times> int \<times> string"

record environment =
  env_which :: "string \<Rightarrow> string option"
  env_version :: "string \<Rightarrow> string"
  env_usb_devices :: "usb_device list"
  env_jtag_scan :: string

section \<open>Versions\<close>

definition looks_like_parser_complaint :: "string \<Rightarrow> bool" where
  "looks_like_parser_complaint line = list_ex (\<lambda>marker. occurs_in marker (map lower_char line)) VERSION_REJECT_MARKERS"

fun first_version_of :: "string list \<Rightarrow> string" where
  "first_version_of [] = []"
| "first_version_of (raw # rest) =
     (let line = stripped raw in
      if line = [] then first_version_of rest
      else if looks_like_parser_complaint line then []
      else if list_ex digit_char line then take VERSION_MAX_LEN line
      else first_version_of rest)"

definition first_version_line :: "string \<Rightarrow> string" where
  "first_version_line text = first_version_of (take VERSION_SCAN_LINES (splitlines text))"

definition tool_version :: "(string \<Rightarrow> string option) \<Rightarrow> (string list \<Rightarrow> string) \<Rightarrow> string \<Rightarrow> string" where
  "tool_version which capture name =
     (case which name of
        None \<Rightarrow> []
      | Some path \<Rightarrow>
          (case filter (\<lambda>version. version \<noteq> [])
                  (map (\<lambda>flag. first_version_line (capture [path, flag]))
                     (case map_of VERSION_FLAGS name of None \<Rightarrow> DEFAULT_VERSION_FLAGS | Some flags \<Rightarrow> flags)) of
             [] \<Rightarrow> [] | version # _ \<Rightarrow> version))"

section \<open>The USB registry\<close>

text \<open>A parsed property list; the keys of a dictionary are distinct.\<close>

datatype plist = PList "plist list" | PDict "(string \<times> plist) list" | PText string | PInt int | PBool bool | POther

definition usb_label :: "plist option \<Rightarrow> string" where
  "usb_label v = (case v of Some (PText s) \<Rightarrow> take USB_LABEL_MAX_LEN (stripped (filter printable s)) | _ \<Rightarrow> [])"

definition usb_identifier :: "plist option \<Rightarrow> int option" where
  "usb_identifier v = (case v of Some (PInt n) \<Rightarrow> if 0 \<le> n \<and> n \<le> 0xFFFF then Some n else None | _ \<Rightarrow> None)"

definition ioreg_label :: "(string \<times> plist) list \<Rightarrow> string" where
  "ioreg_label node =
     (case filter (\<lambda>label. label \<noteq> []) (map (\<lambda>key. usb_label (map_of node key)) IOREG_LABEL_KEYS) of
        [] \<Rightarrow> [] | label # _ \<Rightarrow> label)"

definition ioreg_device :: "(string \<times> plist) list \<Rightarrow> usb_device option" where
  "ioreg_device node =
     (case (usb_identifier (map_of node IOREG_VENDOR_KEY), usb_identifier (map_of node IOREG_PRODUCT_KEY)) of
        (Some vid, Some pid) \<Rightarrow>
          (let label = ioreg_label node in Some (vid, pid, if label = [] then hex06 vid @ '':'' @ hex06 pid else label))
      | _ \<Rightarrow> None)"

definition plist_container :: "plist \<Rightarrow> bool" where
  "plist_container v = (case v of PList _ \<Rightarrow> True | PDict _ \<Rightarrow> True | _ \<Rightarrow> False)"

text \<open>The walk appends to the list of devices, which it also consults.\<close>

function walk_ioreg :: "plist \<Rightarrow> usb_device list \<Rightarrow> nat \<Rightarrow> usb_device list" where
  "walk_ioreg node devices depth =
     (if depth > IOREG_MAX_DEPTH \<or> length devices \<ge> IOREG_MAX_DEVICES then devices
      else case node of
        PList children \<Rightarrow> fold (\<lambda>child devices. walk_ioreg child devices (depth + 1)) children devices
      | PDict entries \<Rightarrow>
          (let devices = (case ioreg_device entries of Some device \<Rightarrow> devices @ [device] | None \<Rightarrow> devices)
           in fold (\<lambda>v devices. if plist_container v then walk_ioreg v devices (depth + 1) else devices) (map snd entries) devices)
      | _ \<Rightarrow> devices)"
  by pat_completeness auto
termination by (relation "measure (\<lambda>(node, devices, depth). 65 - depth)") (auto simp: IOREG_MAX_DEPTH_def)

declare walk_ioreg.simps [simp del]

definition enumerate_usb_ioreg :: "(string list \<Rightarrow> bytes) \<Rightarrow> (bytes \<Rightarrow> plist option) \<Rightarrow> usb_device list" where
  "enumerate_usb_ioreg capture parse =
     (let raw = capture IOREG_COMMAND in
      if raw = [] then []
      else case parse raw of None \<Rightarrow> [] | Some parsed \<Rightarrow> walk_ioreg parsed [] 0)"

section \<open>JTAG\<close>

definition hex_value :: "char \<Rightarrow> int option" where
  "hex_value c = (let n = of_char c :: int in
     if 48 \<le> n \<and> n \<le> 57 then Some (n - 48) else if 65 \<le> n \<and> n \<le> 70 then Some (n - 55)
     else if 97 \<le> n \<and> n \<le> 102 then Some (n - 87) else None)"

text \<open>The non-overlapping matches of \<open>_IDCODE_RE\<close>, as numbers.\<close>

definition idcode_here :: "string \<Rightarrow> int option" where
  "idcode_here s =
     (if take 2 s = ''0x'' \<and> length s \<ge> 10 \<and> list_all (\<lambda>c. hex_value c \<noteq> None) (take 8 (drop 2 s))
      then Some (foldl (\<lambda>n c. 16 * n + (case hex_value c of Some d \<Rightarrow> d | None \<Rightarrow> 0)) 0 (take 8 (drop 2 s)))
      else None)"

function idcodes :: "string \<Rightarrow> int list" where
  "idcodes s =
     (if s = [] then []
      else case idcode_here s of Some code \<Rightarrow> code # idcodes (drop 10 s) | None \<Rightarrow> idcodes (tl s))"
  by pat_completeness auto
termination by (relation "measure length") auto

declare idcodes.simps [simp del]

definition recognised_idcode :: "string \<Rightarrow> int option" where
  "recognised_idcode output = find (\<lambda>code. map_of ECP5_IDCODES code \<noteq> None) (idcodes output)"

fun jtag_attempts :: "(string list \<Rightarrow> string) \<Rightarrow> string \<Rightarrow> string list list \<Rightarrow> string list \<Rightarrow> string" where
  "jtag_attempts capture loader [] attempts =
     (case filter (\<lambda>text. stripped text \<noteq> []) attempts of [] \<Rightarrow> [] | text # _ \<Rightarrow> text)"
| "jtag_attempts capture loader (arguments # rest) attempts =
     (let output = capture (loader # arguments) in
      if recognised_idcode output \<noteq> None then output
      else jtag_attempts capture loader rest (attempts @ [output]))"

definition jtag_scan :: "(string \<Rightarrow> string option) \<Rightarrow> (string list \<Rightarrow> string) \<Rightarrow> string" where
  "jtag_scan which capture =
     (case which ''openFPGALoader'' of None \<Rightarrow> [] | Some loader \<Rightarrow> jtag_attempts capture loader JTAG_DETECT_COMMANDS [])"

text \<open>\<open>Environment.real\<close>, with the devices of the platform; the probes are functions of a machine that does not change meanwhile.\<close>

definition real_environment :: "(string \<Rightarrow> string option) \<Rightarrow> (string list \<Rightarrow> string) \<Rightarrow> usb_device list \<Rightarrow> environment" where
  "real_environment which capture devices =
     \<lparr>env_which = which, env_version = tool_version which capture, env_usb_devices = devices, env_jtag_scan = jtag_scan which capture\<rparr>"

section \<open>The probes\<close>

definition tool_found :: "environment \<Rightarrow> string \<Rightarrow> bool" where
  "tool_found env name = (case env_which env name of None \<Rightarrow> False | Some path \<Rightarrow> path \<noteq> [])"

text \<open>One turn of the loop of \<open>_probe_toolchain\<close>; \<open>env.version(name) or env.which(name)\<close> is a string, the tool being found.\<close>

definition tool_detail :: "environment \<Rightarrow> string \<Rightarrow> string" where
  "tool_detail env name =
     name @ ''='' @ (if env_version env name \<noteq> [] then env_version env name
                     else case env_which env name of None \<Rightarrow> ''None'' | Some path \<Rightarrow> path)"

definition probe_tools :: "environment \<Rightarrow> string \<Rightarrow> string list \<Rightarrow> bool \<Rightarrow> finding" where
  "probe_tools env group_name tools needs_all =
     (let found = filter (tool_found env) tools;
          missing = filter (\<lambda>name. name \<notin> set found) tools;
          (status, detail) =
            (if found \<noteq> [] \<and> (if needs_all then missing = [] else True)
             then (''present'', join_with '', '' (map (tool_detail env) found))
             else if found \<noteq> []
             then (''absent'', ''found '' @ join_with '', '' found @ '' but missing '' @ join_with '', '' missing @
                     ''; the '' @ join_with '' -> '' tools @ '' chain is incomplete'')
             else (''absent'', ''none of '' @ join_with '', '' tools @ '' on PATH''))
      in \<lparr>fi_level = ''toolchain'', fi_name = group_name @ ''-tools'', fi_status = status, fi_detail = detail\<rparr>)"

definition probe_toolchain :: "environment \<Rightarrow> finding list" where
  "probe_toolchain env = [probe_tools env ''build'' BUILD_TOOLS True, probe_tools env ''load'' LOAD_TOOLS False]"

definition probe_usb :: "environment \<Rightarrow> finding list" where
  "probe_usb env =
     (let devices = env_usb_devices env;
          matches = filter (\<lambda>(vid, pid, name). vid = ULX3S_USB_VID \<and> pid = ULX3S_USB_PID) devices;
          identity = hex06 ULX3S_USB_VID @ '':'' @ hex06 ULX3S_USB_PID
      in if matches \<noteq> [] then
           [\<lparr>fi_level = ''usb'', fi_name = ''ulx3s-usb-identity'', fi_status = ''present'',
             fi_detail = decimal (length matches) @ '' device(s) matching '' @ identity @ '' ('' @
               join_with '', '' (map (\<lambda>(vid, pid, name). name) matches) @ ''); a USB identity is not fabric behaviour''\<rparr>]
         else
           [\<lparr>fi_level = ''usb'', fi_name = ''ulx3s-usb-identity'', fi_status = ''absent'',
             fi_detail = ''no '' @ identity @ '' among '' @ decimal (length devices) @ '' enumerated device(s)''\<rparr>])"

definition probe_jtag :: "environment \<Rightarrow> finding list" where
  "probe_jtag env =
     (let output = env_jtag_scan env in
      if stripped output = [] then
        [\<lparr>fi_level = ''jtag'', fi_name = ''ecp5-idcode'', fi_status = ''absent'',
          fi_detail = ''no JTAG scan output (loader missing, or no chain answered)''\<rparr>]
      else case recognised_idcode output of
        Some code \<Rightarrow>
          [\<lparr>fi_level = ''jtag'', fi_name = ''ecp5-idcode'', fi_status = ''present'',
            fi_detail = ''IDCODE '' @ hex010 code @ '' identifies '' @ the (map_of ECP5_IDCODES code) @
              ''; silicon identity only, says nothing about a loaded design''\<rparr>]
      | None \<Rightarrow>
          [\<lparr>fi_level = ''jtag'', fi_name = ''ecp5-idcode'', fi_status = ''absent'',
            fi_detail = ''scan output contained no recognised ECP5 IDCODE''\<rparr>])"

definition probe_datapath :: "environment \<Rightarrow> finding list" where
  "probe_datapath env =
     [\<lparr>fi_level = ''datapath'', fi_name = ''byte-exchange-over-8bit-pins'', fi_status = ''not-validated'',
       fi_detail = ''no data-path evidence exists in this repository. Missing: '' @ join_with ''; '' DATAPATH_PREREQUISITES\<rparr>]"

definition PROBES :: "(string \<times> (environment \<Rightarrow> finding list)) list" where
  "PROBES = [(''toolchain'', probe_toolchain), (''usb'', probe_usb), (''jtag'', probe_jtag), (''datapath'', probe_datapath)]"

definition detect :: "environment \<Rightarrow> board_report" where
  "detect env = concat (map (\<lambda>level. (the (map_of PROBES level)) env) LEVELS)"

text \<open>The exit status of \<open>main\<close>, after the report is printed.\<close>

definition detect_main :: "environment \<Rightarrow> string \<Rightarrow> int" where
  "detect_main env require =
     (let report = detect env in
      if require = ''none'' then 0 else if satisfied report require then 0 else 1)"

section \<open>What a report can claim\<close>

lemma detect_eq:
  "detect env = probe_toolchain env @ probe_usb env @ probe_jtag env @ probe_datapath env"
  by (simp add: detect_def LEVELS_def PROBES_def)

lemma found_none: "filter (\<lambda>name. name \<notin> set (filter (tool_found env) tools)) tools = [] \<longleftrightarrow> (\<forall>name\<in>set tools. tool_found env name)"
  by (auto simp: filter_empty_conv)

lemma probe_level:
  "filter (\<lambda>item. fi_level item = l) (probe_toolchain env) = (if l = ''toolchain'' then probe_toolchain env else [])"
  "filter (\<lambda>item. fi_level item = l) (probe_usb env) = (if l = ''usb'' then probe_usb env else [])"
  "filter (\<lambda>item. fi_level item = l) (probe_jtag env) = (if l = ''jtag'' then probe_jtag env else [])"
  "filter (\<lambda>item. fi_level item = l) (probe_datapath env) = (if l = ''datapath'' then probe_datapath env else [])"
  by (auto simp: probe_toolchain_def probe_tools_def probe_usb_def probe_jtag_def probe_datapath_def Let_def split: option.split)

lemma probe_some: "probe_toolchain env \<noteq> []" "probe_usb env \<noteq> []" "probe_jtag env \<noteq> []" "probe_datapath env \<noteq> []"
  by (auto simp: probe_toolchain_def probe_usb_def probe_jtag_def probe_datapath_def Let_def split: option.split)

lemma satisfied_level:
  "satisfied (detect env) ''toolchain'' \<longleftrightarrow> list_all (\<lambda>item. fi_status item = ''present'') (probe_toolchain env)"
  "satisfied (detect env) ''usb'' \<longleftrightarrow> list_all (\<lambda>item. fi_status item = ''present'') (probe_usb env)"
  "satisfied (detect env) ''jtag'' \<longleftrightarrow> list_all (\<lambda>item. fi_status item = ''present'') (probe_jtag env)"
  "satisfied (detect env) ''datapath'' \<longleftrightarrow> list_all (\<lambda>item. fi_status item = ''present'') (probe_datapath env)"
  by (simp_all add: satisfied_def detect_eq probe_level probe_some)

lemma satisfied_toolchain:
  "satisfied (detect env) ''toolchain'' \<longleftrightarrow> list_all (tool_found env) BUILD_TOOLS \<and> list_ex (tool_found env) LOAD_TOOLS"
proof -
  have "fi_status (probe_tools env ''build'' BUILD_TOOLS True) = ''present'' \<longleftrightarrow> list_all (tool_found env) BUILD_TOOLS"
    using found_none [of env BUILD_TOOLS] by (auto simp: probe_tools_def Let_def list_all_iff filter_empty_conv BUILD_TOOLS_def)
  moreover have "fi_status (probe_tools env ''load'' LOAD_TOOLS False) = ''present'' \<longleftrightarrow> list_ex (tool_found env) LOAD_TOOLS"
    by (auto simp: probe_tools_def Let_def list_ex_iff filter_empty_conv)
  ultimately show ?thesis by (simp add: satisfied_level probe_toolchain_def)
qed

lemma satisfied_usb:
  "satisfied (detect env) ''usb'' \<longleftrightarrow> list_ex (\<lambda>(vid, pid, name). vid = ULX3S_USB_VID \<and> pid = ULX3S_USB_PID) (env_usb_devices env)"
  by (auto simp: satisfied_level probe_usb_def Let_def list_ex_iff filter_empty_conv)

lemma whitespace_no_code: "list_all whitespace s \<Longrightarrow> idcodes s = []"
proof (induction s)
  case Nil
  then show ?case by (simp add: idcodes.simps)
next
  case (Cons c s)
  have "c \<noteq> CHR ''0''" using Cons.prems by (auto simp: whitespace_def)
  then have "idcode_here (c # s) = None" by (simp add: idcode_here_def numeral_2_eq_2)
  with Cons show ?case by (simp add: idcodes.simps [of "c # s"])
qed

lemma stripped_empty: "stripped s = [] \<longleftrightarrow> list_all whitespace s"
proof -
  have "stripped s = [] \<longleftrightarrow> (\<forall>c\<in>set (dropWhile whitespace s). whitespace c)"
    by (simp add: stripped_def dropWhile_eq_Nil_conv)
  also have "\<dots> \<longleftrightarrow> dropWhile whitespace s = []"
    using hd_dropWhile [of whitespace s] by (cases "dropWhile whitespace s") (auto dest: set_dropWhileD)
  also have "\<dots> \<longleftrightarrow> list_all whitespace s" by (simp add: dropWhile_eq_Nil_conv list_all_iff)
  finally show ?thesis .
qed

lemma satisfied_jtag:
  "satisfied (detect env) ''jtag'' \<longleftrightarrow> list_ex (\<lambda>code. code \<in> fst ` set ECP5_IDCODES) (idcodes (env_jtag_scan env))"
proof -
  have "recognised_idcode s \<noteq> None \<longleftrightarrow> list_ex (\<lambda>code. code \<in> fst ` set ECP5_IDCODES) (idcodes s)" for s
    by (auto simp: recognised_idcode_def find_None_iff list_ex_iff map_of_eq_None_iff)
  moreover have "recognised_idcode s = None" if "stripped s = []" for s
    using that by (simp add: stripped_empty whitespace_no_code recognised_idcode_def)
  ultimately have "stripped (env_jtag_scan env) \<noteq> [] \<and> recognised_idcode (env_jtag_scan env) \<noteq> None \<longleftrightarrow>
      list_ex (\<lambda>code. code \<in> fst ` set ECP5_IDCODES) (idcodes (env_jtag_scan env))" by metis
  moreover have "satisfied (detect env) ''jtag'' \<longleftrightarrow> stripped (env_jtag_scan env) \<noteq> [] \<and> recognised_idcode (env_jtag_scan env) \<noteq> None"
    by (simp add: satisfied_level probe_jtag_def Let_def split: option.split)
  ultimately show ?thesis by simp
qed

lemma satisfied_datapath: "\<not> satisfied (detect env) ''datapath''"
  by (simp add: satisfied_level probe_datapath_def)

text \<open>
  C38. The detection ladder never turns visibility into validation. Whatever the environment
  answers, the data path is not validated, it is never the highest level, and requiring it fails;
  the other levels are satisfied exactly when every build tool and some loader is found, when a
  device with the identity of the board is enumerated, and when the scan contains the IDCODE of
  an ECP5.
\<close>

theorem detect_never_validates:
  "\<not> datapath_validated (detect env) \<and> highest_satisfied (detect env) \<noteq> Some ''datapath'' \<and> detect_main env ''datapath'' = 1
   \<and> (satisfied (detect env) ''toolchain'' \<longleftrightarrow> list_all (tool_found env) BUILD_TOOLS \<and> list_ex (tool_found env) LOAD_TOOLS)
   \<and> (satisfied (detect env) ''usb'' \<longleftrightarrow> list_ex (\<lambda>(vid, pid, name). vid = 0x0403 \<and> pid = 0x6015) (env_usb_devices env))
   \<and> (satisfied (detect env) ''jtag'' \<longleftrightarrow>
        list_ex (\<lambda>code. code \<in> {0x21111043, 0x41111043, 0x41112043, 0x41113043}) (idcodes (env_jtag_scan env)))"
proof -
  have "highest_satisfied (detect env) \<noteq> Some ''datapath''"
    using satisfied_datapath by (simp add: highest_satisfied_def LEVELS_def)
  moreover have "fst ` set ECP5_IDCODES = {0x21111043, 0x41111043, 0x41112043, 0x41113043}" by (simp add: ECP5_IDCODES_def)
  ultimately show ?thesis
    using satisfied_datapath satisfied_toolchain satisfied_usb satisfied_jtag
    by (simp add: datapath_validated_def detect_main_def ULX3S_USB_VID_def ULX3S_USB_PID_def)
qed

section \<open>What the walk of the registry reads\<close>

text \<open>The registry with the values of the forbidden keys blanked.\<close>

fun redact :: "plist \<Rightarrow> plist" where
  "redact (PList children) = PList (map redact children)"
| "redact (PDict entries) = PDict (map (\<lambda>(key, v). (key, if key \<in> set IOREG_FORBIDDEN_KEYS \<and> \<not> plist_container v then POther else redact v)) entries)"
| "redact v = v"

lemma redact_container: "plist_container (redact v) = plist_container v"
  by (cases v) (simp_all add: plist_container_def)

lemma redact_key: "key \<notin> set IOREG_FORBIDDEN_KEYS \<Longrightarrow> map_of (map (\<lambda>(key, v). (key, if key \<in> set IOREG_FORBIDDEN_KEYS \<and> \<not> plist_container v then POther else redact v)) entries) key
    = map_option redact (map_of entries key)"
  by (induction entries) auto

lemma redact_label: "usb_label (map_option redact v) = usb_label v" "usb_identifier (map_option redact v) = usb_identifier v"
  by (cases v; cases "the v"; simp add: usb_label_def usb_identifier_def)+

lemma redact_device:
  "ioreg_device (map (\<lambda>(key, v). (key, if key \<in> set IOREG_FORBIDDEN_KEYS \<and> \<not> plist_container v then POther else redact v)) entries) = ioreg_device entries"
  (is "ioreg_device ?redacted = _")
proof -
  have "IOREG_VENDOR_KEY \<notin> set IOREG_FORBIDDEN_KEYS" "IOREG_PRODUCT_KEY \<notin> set IOREG_FORBIDDEN_KEYS"
    and k: "\<And>key. key \<in> set IOREG_LABEL_KEYS \<Longrightarrow> key \<notin> set IOREG_FORBIDDEN_KEYS"
    by (auto simp: IOREG_VENDOR_KEY_def IOREG_PRODUCT_KEY_def IOREG_LABEL_KEYS_def IOREG_FORBIDDEN_KEYS_def)
  moreover have "map (\<lambda>key. usb_label (map_of ?redacted key)) IOREG_LABEL_KEYS = map (\<lambda>key. usb_label (map_of entries key)) IOREG_LABEL_KEYS"
    by (rule map_cong [OF refl]) (use k in \<open>simp add: redact_key redact_label\<close>)
  then have "ioreg_label ?redacted = ioreg_label entries" by (simp only: ioreg_label_def)
  ultimately show ?thesis by (simp add: ioreg_device_def redact_key redact_label split: option.split)
qed

lemma fold_map_eq: "(\<And>x s. x \<in> set xs \<Longrightarrow> f (g x) s = h x s) \<Longrightarrow> fold f (map g xs) s = fold h xs s"
  by (induction xs arbitrary: s) simp_all

lemma walk_redacted: "walk_ioreg (redact node) devices depth = walk_ioreg node devices depth"
proof (induction node devices depth rule: walk_ioreg.induct)
  case (1 node devices depth)
  show ?case
  proof (cases "depth > IOREG_MAX_DEPTH \<or> length devices \<ge> IOREG_MAX_DEVICES")
    case True
    then show ?thesis by (simp add: walk_ioreg.simps)
  next
    case False
    show ?thesis
    proof (cases node)
      case (PList children)
      have "fold (\<lambda>child devices. walk_ioreg child devices (depth + 1)) (map redact children) devices =
          fold (\<lambda>child devices. walk_ioreg child devices (depth + 1)) children devices"
        by (rule fold_map_eq) (use "1.IH"(1) [OF False PList] in blast)
      then show ?thesis using False PList by (simp add: walk_ioreg.simps [of _ devices depth])
    next
      case (PDict entries)
      let ?blank = "\<lambda>(key, v). (key, if key \<in> set IOREG_FORBIDDEN_KEYS \<and> \<not> plist_container v then POther else redact v)"
      let ?visit = "\<lambda>v devices. if plist_container v then walk_ioreg v devices (depth + 1) else devices"
      define found where "found = (case ioreg_device entries of Some device \<Rightarrow> devices @ [device] | None \<Rightarrow> devices)"
      have p: "\<not> plist_container POther" by (simp add: plist_container_def)
      have "fold ?visit (map (snd \<circ> ?blank) entries) found = fold (\<lambda>x. ?visit (snd x)) entries found"
      proof (rule fold_map_eq)
        fix x ds
        assume "x \<in> set entries"
        then have "snd x \<in> set (map snd entries)" by force
        from "1.IH"(2) [OF False PDict found_def this]
        have "plist_container (snd x) \<Longrightarrow> walk_ioreg (redact (snd x)) ds (depth + 1) = walk_ioreg (snd x) ds (depth + 1)" by blast
        then show "?visit ((snd \<circ> ?blank) x) ds = ?visit (snd x) ds" using p by (cases x) (simp add: redact_container)
      qed
      also have "\<dots> = fold ?visit (map snd entries) found" by (simp add: fold_map o_def)
      finally show ?thesis
        using False PDict by (simp add: walk_ioreg.simps [of _ devices depth] redact_device found_def [symmetric] o_def)
    qed (use False in \<open>simp_all add: walk_ioreg.simps [of _ devices depth]\<close>)
  qed
qed


lemma fold_bounded: "(\<And>x s. x \<in> set xs \<Longrightarrow> length s \<le> n \<Longrightarrow> length (f x s) \<le> n) \<Longrightarrow> length s \<le> n \<Longrightarrow> length (fold f xs s) \<le> n"
  by (induction xs arbitrary: s) simp_all

lemma walk_bounded: "length devices \<le> IOREG_MAX_DEVICES \<Longrightarrow> length (walk_ioreg node devices depth) \<le> IOREG_MAX_DEVICES"
proof (induction node devices depth rule: walk_ioreg.induct)
  case (1 node devices depth)
  show ?case
  proof (cases "depth > IOREG_MAX_DEPTH \<or> length devices \<ge> IOREG_MAX_DEVICES")
    case True
    then show ?thesis using "1.prems" by (simp add: walk_ioreg.simps)
  next
    case False
    show ?thesis
    proof (cases node)
      case (PList children)
      have "length (fold (\<lambda>child devices. walk_ioreg child devices (depth + 1)) children devices) \<le> IOREG_MAX_DEVICES"
        by (rule fold_bounded) (use "1.IH"(1) [OF False PList] "1.prems" in blast)+
      then show ?thesis using False PList by (simp add: walk_ioreg.simps [of _ devices depth])
    next
      case (PDict entries)
      define found where "found = (case ioreg_device entries of Some device \<Rightarrow> devices @ [device] | None \<Rightarrow> devices)"
      have "length found \<le> IOREG_MAX_DEVICES" using False by (simp add: found_def split: option.split)
      then have "length (fold (\<lambda>v devices. if plist_container v then walk_ioreg v devices (depth + 1) else devices) (map snd entries) found) \<le> IOREG_MAX_DEVICES"
        by (intro fold_bounded) (use "1.IH"(2) [OF False PDict found_def] in auto)
      then show ?thesis using False PDict by (simp add: walk_ioreg.simps [of _ devices depth] found_def [symmetric])
    qed (use False in \<open>simp_all add: walk_ioreg.simps [of _ devices depth]\<close>)
  qed
qed

text \<open>
  C37. The walk of the macOS USB registry never reads a serial number: blanking the scalar
  values of the forbidden keys everywhere in the registry leaves the enumerated devices the same
  (a container under such a key is walked like any other, for the devices below it). It ends on
  every registry, with at most 512 devices.
\<close>

theorem registry_walk_private:
  "enumerate_usb_ioreg capture (\<lambda>raw. map_option redact (parse raw)) = enumerate_usb_ioreg capture parse
   \<and> length (enumerate_usb_ioreg capture parse) \<le> 512"
proof -
  have "length (walk_ioreg node [] 0) \<le> 512" for node
    using walk_bounded [of "[]" node 0] by (simp add: IOREG_MAX_DEVICES_def)
  then show ?thesis by (simp add: enumerate_usb_ioreg_def Let_def walk_redacted split: option.split)
qed

section \<open>Examples\<close>

lemma registry_example:
  "enumerate_usb_ioreg (\<lambda>_. [1]) (\<lambda>_. Some (PList [PDict [(''USB Serial Number'', PText ''D00112''), (''idVendor'', PInt 0x0403), (''idProduct'', PInt 0x6015)]]))
     = [(0x0403, 0x6015, ''0x0403:0x6015'')]"
  by code_simp

lemma idcode_example: "recognised_idcode ''found 0x4111304 then 0x41113043'' = Some 0x41113043"
  by code_simp

lemma version_example: "first_version_line ''openFPGALoader: unrecognized option --version'' = [] \<and> first_version_line ''Yosys 0.68 (git)'' = ''Yosys 0.68 (git)''"
  by code_simp

lemma detail_example:
  "map fi_detail (detect (real_environment (\<lambda>name. if name = ''yosys'' then Some ''/bin/yosys'' else None) (\<lambda>_. ''Yosys 0.68'') [(0x0403, 0x6015, ''ULX3S'')])) =
     [''found yosys but missing nextpnr-ecp5, ecppack; the yosys -> nextpnr-ecp5 -> ecppack chain is incomplete'',
      ''none of openFPGALoader, fujprog on PATH'',
      ''1 device(s) matching 0x0403:0x6015 (ULX3S); a USB identity is not fabric behaviour'',
      ''no JTAG scan output (loader missing, or no chain answered)'',
      ''no data-path evidence exists in this repository. Missing: a real ULX3S board programmed with a checksum-verified archived bitstream; a recorded request/response byte log captured from real hardware'']"
  by code_simp

end
