(* ===== verification/Spec2Isabelle.thy ===== *)
theory Spec2Isabelle
  imports Lsc_Examples Host_Examples Field_Models Scalar_Oracle Blake3_Service Runtime_Safety Packet_Sim Stream_Alu_Lane Lsc1u_Pins Mincore_Exchange Packet_Run Frozen_Oracle Xor_Synthesis Ulx3s_Exit Corpus_Cases Design_Space Board_Detect
begin

text \<open>
  \<^bold>\<open>A verification of the LSC-1 scalar coprocessor models.\<close>

  LSC-1 is a coprocessor for the scalar instructions of the leanVM: a host owns the memory and
  sends one instruction at a time, with the cells it reads, over an eight-bit ready/valid lane;
  the endpoint decides the transition, stages it and answers with its encoding; the host checks
  the answer against its own memory and acknowledges it with RETIRE, which commits the program
  counter and the frame pointer at both ends. The repository has executable Python models of
  the endpoint, the host, the reference machine and the hardware cores, and Python drivers for
  the boards. This library models them as they are written and proves what they promise.

  \<^bold>\<open>1. How the parts interact\<close>

  A request is built (Lsc_Request), framed with a CRC (Lsc_Codec, Lsc_Crc) and pushed through the
  byte lane by a driver (Lsc_Drive). The endpoint (Lsc_Endpoint) collects bytes, dispatches whole
  frames, executes an instruction on a private frame of write-once cells (Lsc_Transition, over the
  field arithmetic of Gf128), stages the result, suspends for the external BLAKE3 service
  (Blake3_Service) and retires. The host (Host_Runtime over Host_Memory, fed by Program_Adapter)
  prepares requests, prevalidates answers, retires and applies. Scalar_Oracle is the machine whose
  step all this implements. Packet_Executor is a second endpoint, written apart from the first, for
  four opcodes. Stream_Alu is the byte-streaming arithmetic core of the older MinCore and LSC-1u
  lanes. Mincore_Uart, Packet_Uart and Ulx3s_Uart drive a board over a serial port (Serial_World),
  Lsc1u_Pins over pins. Frozen_Oracle is the executable reference of the documentation,
  Conformance_Corpus generates the vectors other implementations are tested with, Xor_Synthesis
  and Design_Space are the design tools, Board_Detect decides what is known about a board.

  \<^bold>\<open>2. Theories and code\<close>

  Names follow the source; a prefix is added where a name is taken. All paths are below src/.

  \<^item> Lsc_Prelude: bytes, results (\<open>exn + 'a\<close>), routines that return their outcome and the object
    they leave behind, also when they raise; little-endian integers; list, bit and word lemmas.
  \<^item> Write_Once: the interface of a write-once memory, and of two such memories that agree.
  \<^item> sim/lsc1_transaction.py. Lsc_Wire: constants, enumerations, exceptions. Gf128, Gf_Inverse,
    Gf_Order: field arithmetic. Lsc_Crc: \<open>crc32\<close>. Lsc_Codec: payload primitives, \<open>_Reader\<close>, the frame
    envelopes. Lsc_Request: builders and \<open>decode_request_payload\<close>. Lsc_Transition: \<open>_Frame\<close>, the
    \<open>_execute_*\<close> routines, \<open>_resume_blake3\<close>. Lsc_Endpoint: the class \<open>Lsc1Endpoint\<close> (record
    \<open>endpoint\<close>, one definition per method, \<open>ep_step\<close> for a clock edge). Lsc_Safety: its safety.
    Lsc_Drive: \<open>drive\<close>. Lsc_Budget: the cycle and byte budgets. Lsc_Examples: a session and witnesses.
  \<^item> host/memory.py and host/errors.py: Host_Memory (\<open>HostMemory\<close>, \<open>PointerMap\<close>, \<open>field_inverse\<close>),
    Host_Examples. host/blake3_service.py: Blake3_Service. host/lean_compiler_adapter.py:
    Program_Adapter. host/runtime.py: Host_Runtime (\<open>HostRuntime\<close>), Runtime_Safety.
  \<^item> sim/model.py and sim/lsc1u_model.py: Field_Models (multipliers, the LSC-1u oracle), Stream_Alu
    (\<open>StreamALUModel\<close>). sim/cycle_model.py and sim/protocol_contract.py: Stream_Alu (\<open>alu_step\<close>,
    \<open>protocol_lane_step\<close>), Stream_Alu_Lane.
  \<^item> sim/scalar_step_oracle.py: Scalar_Oracle. sim/packet_executor_model.py: Packet_Executor, Packet_Sim.
  \<^item> fpga_harness/lsc1u_protocol.py: Lsc1u_Pins. fpga_harness/host/mincore_uart.py: Mincore_Uart,
    Mincore_Exchange. fpga_harness/host/lsc1_packet_uart.py: Packet_Uart, Packet_Run.
    fpga_harness/ulx3s_uart.py: Ulx3s_Uart, Ulx3s_Exit. fpga_harness/board_detect.py: Board_Detect.
  \<^item> docs/semantics/reference/oracle.py: Frozen_Oracle. tools/exact_linear_xor.py: Xor_Synthesis.
    tools/design_space.py: Design_Space. tools/generate_conformance_corpus.py: Conformance_Corpus
    (the generator), Corpus_Semantic (one case), Corpus_Cases (the corpus).

  Conventions. A Python integer is \<open>int\<close>, masked where the code masks it and range-checked where it
  raises; a byte is \<open>8 word\<close>; a class is a record, an exception a value of a datatype of the
  component. A method that mutates \<open>self\<close> is a routine \<open>state \<Rightarrow> result \<times> state\<close>, so that what an exception
  leaves behind is part of the model. A dictionary is a partial map, or a list of pairs where the
  code depends on the order.

  \<^bold>\<open>3. What the lemmas show\<close>

  \<^item> Field arithmetic (Gf128, Gf_Inverse, Gf_Order): the code's operations are the ring of 128-bit
    polynomials, instantiated as \<open>gf128 :: field\<close>; the generator's first \<open>2^16\<close> powers differ, so a
    pointer names one index. Field_Models: every other multiplier of the repository is the same one.
  \<^item> Codecs (Lsc_Codec, Lsc_Request, Blake3_Service, Runtime_Safety, Program_Adapter): decoders accept
    exactly the encodings of well-formed values and raise the error of the code otherwise.
    Lsc_Crc: every corruption window of four bytes is detected.
  \<^item> Endpoint (Lsc_Endpoint, Lsc_Safety): an inductive invariant over arbitrary pins, and the one edge
    that raises, which is the matching RETIRE with the retirement counter at its limit;
    commits happen on the matching RETIRE only; a refused frame changes nothing that was decided;
    what is staged in a reachable state (by rule induction over \<open>ep_trans\<close>) can be applied. Lsc_Drive: an exchange ends and
    does not depend on stalls, and a corrupted body is answered with the CRC fault. Lsc_Budget: no
    transition exceeds its budget.
  \<^item> Host (Host_Memory, Host_Runtime, Runtime_Safety): the least solution of deferred equalities, the
    pointer index, all-or-nothing steps, write-once runs. Blake3_Service: keys are spent once, the
    compression function is BLAKE3's.
  \<^item> Refinement. Scalar_Oracle: the endpoint's transitions are steps of the reference machine.
    Packet_Sim: the packet executor simulates the endpoint edge by edge. Stream_Alu_Lane: the cycle
    model implements the transaction model. Frozen_Oracle: each operation of the documented reference
    is that of the reference machine, the endpoint or the host, but for one way to end a deferred
    equality, which the host settles and the documents call a conflict.
  \<^item> Drivers. Lsc1u_Pins: each byte crosses the pins once. Mincore_Exchange: at most one transmission,
    counting what an abandoned write may still send, and the exchange ends. Packet_Run: a run over a
    port wired to the endpoint retires exactly the computed transition. Ulx3s_Exit: what each exit
    status of the process says about the transaction, an uncaught exception included.
  \<^item> Tools. Corpus_Cases: the corpus is built, and its cases are what upstream and the status checks
    say. Xor_Synthesis: the network found is minimal. Design_Space: the reported numbers and Pareto
    flags. Board_Detect: visibility is never reported as validation, and no serial number is read.

  \<^bold>\<open>4. Interfaces\<close>

  \<^item> \<open>wire_field\<close> (Lsc_Request): a reader and an encoder of one kind of field; interpreted for u8, u32,
    field elements and cells. The exactness of the request decoder is proved over it.
  \<^item> \<open>write_once_store\<close> (Write_Once): interpreted for the endpoint's frame, the host memory and the
    reference machine; \<open>write_once_pair\<close> extends it to two stores and is interpreted for the frame and
    the machine, which is the core of the refinement in Scalar_Oracle.
  \<^item> \<open>packet_lane\<close> (Packet_Run): a lane that answers as the endpoint does; interpreted for the packet
    driver on a port wired to the endpoint.

  \<^bold>\<open>5. Loops and bounds\<close>

  Loops over data are structural recursion. \<open>drive_loop\<close> recurses on \<open>max_cycles\<close>, the code's own bound;
  the number of edges it needs is computed exactly, so the bound is not an assumption but a
  comparison. \<open>drive_retire_loop\<close> has the bound 100000 of the code, which the corpus never reaches. \<open>walk_ioreg\<close>
  recurses on the remaining depth, at most 65 levels. The search of Xor_Synthesis returns at a depth that is
  computed; the theorem is about the returned network. Loops with no bound in the code are
  partial functions with None for not returning: \<open>mc_run_loop\<close> (a program may not halt), \<open>fo_mul_loop\<close> (a
  negative operand), \<open>repeatP\<close> (the serial loops). That they return is proved where it holds: for an
  exchange when every call moves the clock on, for non-negative operands, and for the port of Packet_Run.

  \<^bold>\<open>6. Parameters\<close>

  Code outside the repository is an argument. A serial port and a clock are functions of the calls
  made so far (Serial_World), so any behaviour is covered, hanging calls included; what such a port may
  have sent is the list of possibilities \<open>sendings\<close>, where a write that raised or was abandoned counts
  with every part of its bytes. The device behind
  the pins is a function of its inputs (Lsc1u_Pins); the BLAKE3 service is a routine on its own state;
  SHA-256 and the source of session epochs are functions; parsers of JSON and of property lists are
  replaced by the parsed value; the PATH and the output of a command are functions. The endpoint
  behind a packet UART in Packet_Run is the modelled one, not an assumption; the port there answers at
  once, cuts the bytes of a call as functions of the calls so far, and lets no deadline pass.

  \<^bold>\<open>7. Not modelled\<close>

  \<^item> Command lines, JSON rendering, evidence and provenance records of every script; \<open>open_port\<close> and the
    configuration of pyserial; in Packet_Uart the class \<open>PhysicalHostRuntime\<close> with the program operation.
  \<^item> In Board_Detect, strings are those of code points below 256; the enumeration by sysfs and
    the JSON fixtures are left out.
  \<^item> fpga_harness/boundary_check.py, fpga_harness/hardware_preflight.py, formal/*.py and the consistency,
    release and evidence tools: they search text, run subprocesses and compare digests of files.
  \<^item> tools/workload_validation.py and tools/lean_compiler_export.py run the external compiler and
    compare its files with reports of the modelled host.
  \<^item> silicon_bringup/ runs against the Tiny Tapeout SDK. RTL, Lean and Rust sources are not Python.
\<close>

end
